(* ===== verification/Prelude.thy ===== *)
theory Prelude
  imports Main "HOL-Library.Word" "HOL-Library.Multiset" "HOL-Library.Sublist"
begin

text \<open>
  Shared vocabulary of the development: the scalar types of the program, the standard-library
  idioms its components use (\<open>std::remove_if\<close> with \<open>erase\<close>, erasing one index of a vector,
  \<open>std::find_if\<close>), and the list lemmas the component theories rely on.

  Time points (\<open>uint64_t\<close> Mach ticks) and time durations (\<open>int64_t\<close> ticks) are mathematical
  integers here: the program never lets them wrap (a 64-bit tick counter), and the difference of two
  time points, computed unsigned and read as signed, is the integer difference.
\<close>

type_synonym device_id = "64 word"
type_synonym time_point = int
type_synonym time_duration = int
type_synonym milliseconds = int

named_theorems flag_simps \<open>equations of the modifier flag and pointing button managers\<close>
named_theorems queue_simps \<open>equations of the event queue and its entries\<close>
named_theorems post_simps \<open>equations of the output queue of virtual devices\<close>

subsection \<open>Vectors\<close>

definition remove_if :: "('a \<Rightarrow> bool) \<Rightarrow> 'a list \<Rightarrow> 'a list" where
  "remove_if p xs = filter (\<lambda>x. \<not> p x) xs"

definition erase_at :: "nat \<Rightarrow> 'a list \<Rightarrow> 'a list" where
  "erase_at i xs = take i xs @ drop (Suc i) xs"

lemma remove_if_simps [simp]:
  "remove_if p [] = []"
  "remove_if p (x # xs) = (if p x then remove_if p xs else x # remove_if p xs)"
  by (simp_all add: remove_if_def)

lemma set_remove_if [simp]: "set (remove_if p xs) = {x \<in> set xs. \<not> p x}"
  by (auto simp: remove_if_def)

lemma remove_if_append [simp]: "remove_if p (xs @ ys) = remove_if p xs @ remove_if p ys"
  by (simp add: remove_if_def)

lemma remove_if_id: "(\<And>x. x \<in> set xs \<Longrightarrow> \<not> p x) \<Longrightarrow> remove_if p xs = xs"
  by (simp add: remove_if_def)

lemma length_remove_if [simp]: "length (remove_if p xs) \<le> length xs"
  by (simp add: remove_if_def)

lemma subseq_remove_if [simp]: "subseq (remove_if p xs) xs"
  by (simp add: remove_if_def)

lemma remove_if_idem [simp]: "remove_if p (remove_if p xs) = remove_if p xs"
  by (simp add: remove_if_def)

lemma distinct_remove_if [intro]: "distinct xs \<Longrightarrow> distinct (remove_if p xs)"
  by (simp add: remove_if_def)

lemma length_erase_at [simp]: "i < length xs \<Longrightarrow> length (erase_at i xs) = length xs - 1"
  by (simp add: erase_at_def)

lemma erase_at_append_left:
  "i < length xs \<Longrightarrow> erase_at i (xs @ ys) = erase_at i xs @ ys"
  by (simp add: erase_at_def)

lemma erase_at_last: "erase_at (length xs) (xs @ [x]) = xs"
  by (simp add: erase_at_def)

lemma mset_erase_at:
  assumes "i < length xs"
  shows "mset xs = add_mset (xs ! i) (mset (erase_at i xs))"
proof -
  have "mset (take i xs @ xs ! i # drop (Suc i) xs) = add_mset (xs ! i) (mset (erase_at i xs))"
    by (simp add: erase_at_def)
  then show ?thesis using id_take_nth_drop [OF assms] by simp
qed

lemma subseq_erase_at: "subseq (erase_at i xs) xs"
proof (cases "i < length xs")
  case True
  have "subseq (take i xs @ drop (Suc i) xs) (take i xs @ xs ! i # drop (Suc i) xs)"
    by (rule list_emb_append_mono) auto
  then show ?thesis using id_take_nth_drop [OF True] by (simp add: erase_at_def)
next
  case False
  then show ?thesis by (simp add: erase_at_def)
qed

lemma sum_list_erase_at:
  fixes f :: "'a \<Rightarrow> int"
  assumes "i < length xs"
  shows "(\<Sum>x\<leftarrow>xs. f x) = f (xs ! i) + (\<Sum>x\<leftarrow>erase_at i xs. f x)"
proof -
  have "(\<Sum>x\<leftarrow>xs. f x) = sum_mset (image_mset f (mset xs))"
    by (simp add: sum_mset_sum_list flip: mset_map)
  also have "\<dots> = f (xs ! i) + sum_mset (image_mset f (mset (erase_at i xs)))"
    by (simp add: mset_erase_at [OF assms])
  finally show ?thesis by (simp add: sum_mset_sum_list flip: mset_map)
qed

text \<open>Removing the first element that satisfies a predicate, the effect of pairing below.\<close>

fun remove_first :: "('a \<Rightarrow> bool) \<Rightarrow> 'a list \<Rightarrow> 'a list" where
  "remove_first p [] = []"
| "remove_first p (x # xs) = (if p x then xs else x # remove_first p xs)"

lemma remove_first_append_hit:
  "(\<And>x. x \<in> set ys \<Longrightarrow> \<not> p x) \<Longrightarrow> p y \<Longrightarrow> remove_first p (ys @ y # zs) = ys @ zs"
  by (induction ys) auto

lemma subseq_remove_first: "subseq (remove_first p xs) xs"
  by (induction xs) auto

lemma set_remove_first_subset: "set (remove_first p xs) \<subseteq> set xs"
  by (induction xs) auto

lemma remove_first_sum:
  fixes f :: "'a \<Rightarrow> int"
  assumes "\<exists>x\<in>set xs. p x" and "\<And>x. p x \<Longrightarrow> x \<in> set xs \<Longrightarrow> f x = c"
  shows "(\<Sum>x\<leftarrow>xs. f x) = c + (\<Sum>x\<leftarrow>remove_first p xs. f x)"
  using assms by (induction xs) auto

lemma subseq_set_mono: "subseq xs ys \<Longrightarrow> x \<in> set xs \<Longrightarrow> x \<in> set ys"
  by (induction rule: list_emb.induct) auto

lemma sorted_wrt_subseq: "subseq xs ys \<Longrightarrow> sorted_wrt P ys \<Longrightarrow> sorted_wrt P xs"
  by (induction rule: list_emb.induct) (auto dest: subseq_set_mono)

lemma count_list_distinct: "distinct xs \<Longrightarrow> x \<in> set xs \<Longrightarrow> count_list xs x = 1"
  by (induction xs) auto

lemma distinct_subseq: "subseq xs ys \<Longrightarrow> distinct ys \<Longrightarrow> distinct xs"
  by (induction rule: list_emb.induct) (auto dest: subseq_set_mono)

end
