(* ===== verification/Json.thy ===== *)
theory Json
  imports Prelude Complex_Main
begin

text \<open>
  JSON values as \<open>nlohmann::json\<close> hands them to the program, and the checks of \<open>pqrs/json.hpp\<close>
  that every reader in \<open>src/share/types\<close> starts with. An object is the sequence of its items in key
  order; a read either throws (the left of a sum) or returns a value. A floating-point number is
  the rational number it denotes. The text of an error that quotes a JSON value keeps the value.
\<close>

datatype json =
    J_null
  | J_bool bool
  | J_int int
  | J_float rat
  | J_string string
  | J_array "json list"
  | J_object "(string \<times> json) list"

datatype json_error =
    Unmarshal_error string
  | Unmarshal_error_dump string json string
  | Json_type_error

definition and_then :: "'e + 'a \<Rightarrow> ('a \<Rightarrow> 'e + 'b) \<Rightarrow> 'e + 'b" where
  "and_then m f = (case m of Inl e \<Rightarrow> Inl e | Inr x \<Rightarrow> f x)"

lemma and_then_simps [simp]:
  "and_then (Inl e) f = Inl e" "and_then (Inr x) f = f x"
  by (simp_all add: and_then_def)

lemma and_then_Inr_iff: "and_then m f = Inr y \<longleftrightarrow> (\<exists>x. m = Inr x \<and> f x = Inr y)"
  by (cases m) auto

text \<open>What holds of a result if there is one: the rules follow the structure of a reader.\<close>

definition on_success :: "('a \<Rightarrow> bool) \<Rightarrow> 'e + 'a \<Rightarrow> bool" where
  "on_success P r \<longleftrightarrow> (\<forall>x. r = Inr x \<longrightarrow> P x)"

lemma on_success_intros:
  "on_success P (Inl e)"
  "P x \<Longrightarrow> on_success P (Inr x)"
  "(b \<Longrightarrow> on_success P r) \<Longrightarrow> (\<not> b \<Longrightarrow> on_success P r') \<Longrightarrow> on_success P (if b then r else r')"
  "(\<And>x. m = Inr x \<Longrightarrow> on_success P (f x)) \<Longrightarrow> on_success P (and_then m f)"
  by (auto simp: on_success_def and_then_def split: sum.splits)

lemma on_successD: "on_success P r \<Longrightarrow> r = Inr x \<Longrightarrow> P x"
  by (simp add: on_success_def)

fun fold_items :: "('k \<Rightarrow> 'v \<Rightarrow> 's \<Rightarrow> 'e + 's) \<Rightarrow> ('k \<times> 'v) list \<Rightarrow> 's \<Rightarrow> 'e + 's" where
  "fold_items f [] s = Inr s"
| "fold_items f ((k, v) # xs) s = and_then (f k v s) (fold_items f xs)"

lemma fold_items_append:
  "fold_items f (xs @ ys) s = and_then (fold_items f xs s) (fold_items f ys)"
  by (induction xs arbitrary: s) (auto simp: and_then_def split: sum.splits)

subsection \<open>Objects\<close>

fun key_less :: "string \<Rightarrow> string \<Rightarrow> bool" where
  "key_less _ [] = False"
| "key_less [] (_ # _) = True"
| "key_less (c # cs) (d # ds) =
     (if c = d then key_less cs ds else (of_char c :: nat) < of_char d)"

fun obj_set :: "string \<Rightarrow> json \<Rightarrow> (string \<times> json) list \<Rightarrow> (string \<times> json) list" where
  "obj_set k v [] = [(k, v)]"
| "obj_set k v ((k', v') # xs) =
     (if k = k' then (k, v) # xs
      else if key_less k k' then (k, v) # (k', v') # xs
      else (k', v') # obj_set k v xs)"

definition obj_erase :: "string \<Rightarrow> (string \<times> json) list \<Rightarrow> (string \<times> json) list" where
  "obj_erase k xs = filter (\<lambda>(k', v). k' \<noteq> k) xs"

definition obj_set_opt :: "string \<Rightarrow> json option \<Rightarrow> (string \<times> json) list \<Rightarrow> (string \<times> json) list" where
  "obj_set_opt k v xs = (case v of Some v \<Rightarrow> obj_set k v xs | None \<Rightarrow> xs)"

lemma map_of_obj_set: "map_of (obj_set k v xs) k' = (if k' = k then Some v else map_of xs k')"
  by (induction xs) auto

lemma map_of_obj_erase: "map_of (obj_erase k xs) k' = (if k' = k then None else map_of xs k')"
  by (induction xs) (auto simp: obj_erase_def)

lemma map_of_obj_set_opt:
  "map_of (obj_set_opt k v xs) k' = (if k' = k \<and> v \<noteq> None then v else map_of xs k')"
  by (cases v) (auto simp: obj_set_opt_def map_of_obj_set)

fun is_number :: "json \<Rightarrow> bool" where
  "is_number (J_int _) = True"
| "is_number (J_float _) = True"
| "is_number _ = False"

definition must_be :: "string \<Rightarrow> string \<Rightarrow> json \<Rightarrow> json_error" where
  "must_be name kind j = Unmarshal_error_dump (name @ '' must be '' @ kind @ '', but is `'') j ''`''"

definition quoted :: "string \<Rightarrow> string" where
  "quoted k = ''`'' @ k @ ''`''"

fun requires_object :: "string \<Rightarrow> json \<Rightarrow> json_error + (string \<times> json) list" where
  "requires_object name (J_object xs) = Inr xs"
| "requires_object name j = Inl (must_be name ''object'' j)"

fun requires_array :: "string \<Rightarrow> json \<Rightarrow> json_error + json list" where
  "requires_array name (J_array xs) = Inr xs"
| "requires_array name j = Inl (must_be name ''array'' j)"

fun requires_string :: "string \<Rightarrow> json \<Rightarrow> json_error + string" where
  "requires_string name (J_string s) = Inr s"
| "requires_string name j = Inl (must_be name ''string'' j)"

fun requires_boolean :: "string \<Rightarrow> json \<Rightarrow> json_error + bool" where
  "requires_boolean name (J_bool b) = Inr b"
| "requires_boolean name j = Inl (must_be name ''boolean'' j)"

definition requires_number :: "string \<Rightarrow> json \<Rightarrow> json_error + json" where
  "requires_number name j = (if is_number j then Inr j else Inl (must_be name ''number'' j))"

lemma requires_number_simps [simp]:
  "requires_number name (J_int n) = Inr (J_int n)"
  "requires_number name (J_float r) = Inr (J_float r)"
  by (simp_all add: requires_number_def)

text \<open>Conversions of numbers: \<open>get<int>\<close>, \<open>get<int64_t>\<close>, \<open>get<double>\<close>, \<open>get<std::string>\<close>.\<close>

definition truncate_rat :: "rat \<Rightarrow> int" where
  "truncate_rat r = (if r \<ge> 0 then \<lfloor>r\<rfloor> else \<lceil>r\<rceil>)"

fun number_of :: "json \<Rightarrow> int" where
  "number_of (J_int n) = n"
| "number_of (J_float r) = truncate_rat r"
| "number_of _ = 0"

definition get_int32 :: "json \<Rightarrow> int" where "get_int32 j = signed_take_bit 31 (number_of j)"
definition get_int64 :: "json \<Rightarrow> int" where "get_int64 j = signed_take_bit 63 (number_of j)"
definition get_uint64 :: "json \<Rightarrow> int" where "get_uint64 j = take_bit 64 (number_of j)"
definition get_uint32 :: "json \<Rightarrow> int" where "get_uint32 j = take_bit 32 (number_of j)"

fun get_double :: "json \<Rightarrow> rat" where
  "get_double (J_int n) = of_int n"
| "get_double (J_float r) = r"
| "get_double _ = 0"

definition int32 :: "int \<Rightarrow> bool" where "int32 n \<longleftrightarrow> - (2 ^ 31) \<le> n \<and> n < 2 ^ 31"
definition int64 :: "int \<Rightarrow> bool" where "int64 n \<longleftrightarrow> - (2 ^ 63) \<le> n \<and> n < 2 ^ 63"
definition uint32 :: "int \<Rightarrow> bool" where "uint32 n \<longleftrightarrow> 0 \<le> n \<and> n < 2 ^ 32"

lemma get_int32_int [simp]: "int32 n \<Longrightarrow> get_int32 (J_int n) = n"
  by (simp add: get_int32_def int32_def signed_take_bit_int_eq_self)

lemma get_int64_int [simp]: "int64 n \<Longrightarrow> get_int64 (J_int n) = n"
  by (simp add: get_int64_def int64_def signed_take_bit_int_eq_self)

lemma get_uint32_int [simp]: "uint32 n \<Longrightarrow> get_uint32 (J_int n) = n"
  by (simp add: get_uint32_def uint32_def take_bit_int_eq_self)

lemma get_int32_range: "int32 (get_int32 j)"
  unfolding get_int32_def int32_def
  using signed_take_bit_int_greater_eq_minus_exp [of 31 "number_of j"]
    signed_take_bit_int_less_exp [of 31 "number_of j"] by simp

fun get_string :: "json \<Rightarrow> json_error + string" where
  "get_string (J_string s) = Inr s"
| "get_string _ = Inl Json_type_error"

end
