(* ===== verification/HidTypes.thy ===== *)
theory HidTypes
  imports Json
begin

text \<open>
  The value types of \<open>src/share/types\<close> that every component uses: HID usage pairs, the
  momentary switch event (a key, a consumer key or a pointing button), the modifier flags and the
  event types. The usage numbers are those of the HID tables the source includes
  (\<open>pqrs/hid/usage.hpp\<close>, \<open>pqrs/hid/usage_page.hpp\<close>).
\<close>

subsection \<open>Usage pages and usages\<close>

definition page_undefined :: int where "page_undefined = 0"
definition page_generic_desktop :: int where "page_generic_desktop = 1"
definition page_keyboard_or_keypad :: int where "page_keyboard_or_keypad = 7"
definition page_button :: int where "page_button = 9"
definition page_consumer :: int where "page_consumer = 12"
definition page_apple_vendor_top_case :: int where "page_apple_vendor_top_case = 255"
definition page_apple_vendor_keyboard :: int where "page_apple_vendor_keyboard = 65281"

lemmas page_defs = page_undefined_def page_generic_desktop_def page_keyboard_or_keypad_def
  page_button_def page_consumer_def page_apple_vendor_top_case_def page_apple_vendor_keyboard_def

definition usage_undefined :: int where "usage_undefined = 0"
definition keyboard_escape :: int where "keyboard_escape = 41"
definition keyboard_caps_lock :: int where "keyboard_caps_lock = 57"
definition keyboard_power :: int where "keyboard_power = 102"
definition keyboard_left_control :: int where "keyboard_left_control = 224"
definition keyboard_left_shift :: int where "keyboard_left_shift = 225"
definition keyboard_left_alt :: int where "keyboard_left_alt = 226"
definition keyboard_left_gui :: int where "keyboard_left_gui = 227"
definition keyboard_right_control :: int where "keyboard_right_control = 228"
definition keyboard_right_shift :: int where "keyboard_right_shift = 229"
definition keyboard_right_alt :: int where "keyboard_right_alt = 230"
definition keyboard_right_gui :: int where "keyboard_right_gui = 231"
definition apple_vendor_keyboard_function :: int where "apple_vendor_keyboard_function = 3"
definition apple_vendor_top_case_keyboard_fn :: int where "apple_vendor_top_case_keyboard_fn = 3"
definition consumer_power :: int where "consumer_power = 48"
definition consumer_eject :: int where "consumer_eject = 184"
definition dpad_up :: int where "dpad_up = 144"
definition dpad_down :: int where "dpad_down = 145"
definition dpad_right :: int where "dpad_right = 146"
definition dpad_left :: int where "dpad_left = 147"

lemmas usage_defs = usage_undefined_def keyboard_escape_def keyboard_caps_lock_def
  keyboard_power_def keyboard_left_control_def keyboard_left_shift_def keyboard_left_alt_def
  keyboard_left_gui_def keyboard_right_control_def keyboard_right_shift_def
  keyboard_right_alt_def keyboard_right_gui_def apple_vendor_keyboard_function_def
  apple_vendor_top_case_keyboard_fn_def consumer_power_def consumer_eject_def
  dpad_up_def dpad_down_def dpad_right_def dpad_left_def

record usage_pair =
  usage_page :: int
  usage :: int

definition mk_pair :: "int \<Rightarrow> int \<Rightarrow> usage_pair" where
  "mk_pair p u = \<lparr>usage_page = p, usage = u\<rparr>"

lemma mk_pair_simps [simp]:
  "usage_page (mk_pair p u) = p" "usage (mk_pair p u) = u"
  "mk_pair p u = mk_pair p' u' \<longleftrightarrow> p = p' \<and> u = u'"
  by (simp_all add: mk_pair_def)

subsection \<open>Enumerations\<close>

datatype modifier_flag =
    Flag_zero | Flag_caps_lock
  | Flag_left_control | Flag_left_shift | Flag_left_option | Flag_left_command
  | Flag_right_control | Flag_right_shift | Flag_right_option | Flag_right_command
  | Flag_fn | Flag_end

datatype event_type = Key_down | Key_up | Single

datatype validity = Invalid | Valid

datatype sticky_modifier_type = Sticky_on | Sticky_off | Sticky_toggle

text \<open>The flags a modifier manager reports, in the order the source lists them.\<close>

definition all_modifier_flags :: "modifier_flag list" where
  "all_modifier_flags =
     [Flag_caps_lock, Flag_left_control, Flag_left_shift, Flag_left_option, Flag_left_command,
      Flag_right_control, Flag_right_shift, Flag_right_option, Flag_right_command, Flag_fn]"

lemma set_all_modifier_flags: "m \<in> set all_modifier_flags \<longleftrightarrow> m \<noteq> Flag_zero \<and> m \<noteq> Flag_end"
  by (cases m) (simp_all add: all_modifier_flags_def)

lemma distinct_all_modifier_flags: "distinct all_modifier_flags"
  by (simp add: all_modifier_flags_def)

lemma UNIV_modifier_flag: "UNIV = insert Flag_zero (insert Flag_end (set all_modifier_flags))"
  using set_all_modifier_flags by blast

instance modifier_flag :: finite
  by standard (simp add: UNIV_modifier_flag)

text \<open>\<open>get_modifier_flag_name\<close> and \<open>from_json\<close> of \<open>modifier_flag.hpp\<close>.\<close>

fun get_modifier_flag_name :: "modifier_flag \<Rightarrow> string option" where
  "get_modifier_flag_name Flag_zero = Some ''zero''"
| "get_modifier_flag_name Flag_caps_lock = Some ''caps_lock''"
| "get_modifier_flag_name Flag_left_control = Some ''left_control''"
| "get_modifier_flag_name Flag_left_shift = Some ''left_shift''"
| "get_modifier_flag_name Flag_left_option = Some ''left_option''"
| "get_modifier_flag_name Flag_left_command = Some ''left_command''"
| "get_modifier_flag_name Flag_right_control = Some ''right_control''"
| "get_modifier_flag_name Flag_right_shift = Some ''right_shift''"
| "get_modifier_flag_name Flag_right_option = Some ''right_option''"
| "get_modifier_flag_name Flag_right_command = Some ''right_command''"
| "get_modifier_flag_name Flag_fn = Some ''fn''"
| "get_modifier_flag_name Flag_end = None"

text \<open>A name that is no modifier flag raises \<open>unmarshal_error\<close>: the result is \<open>Inl\<close>.\<close>

definition modifier_flag_from_name :: "string \<Rightarrow> json_error + modifier_flag" where
  "modifier_flag_from_name name =
     (if name = ''zero'' then Inr Flag_zero
      else if name = ''caps_lock'' then Inr Flag_caps_lock
      else if name = ''left_control'' then Inr Flag_left_control
      else if name = ''left_shift'' then Inr Flag_left_shift
      else if name = ''left_option'' then Inr Flag_left_option
      else if name = ''left_command'' then Inr Flag_left_command
      else if name = ''right_control'' then Inr Flag_right_control
      else if name = ''right_shift'' then Inr Flag_right_shift
      else if name = ''right_option'' then Inr Flag_right_option
      else if name = ''right_command'' then Inr Flag_right_command
      else if name = ''fn'' then Inr Flag_fn
      else Inl (Unmarshal_error (''unknown modifier_flag: `'' @ name @ ''`'')))"

lemma modifier_flag_name_roundtrip:
  "m \<noteq> Flag_end \<Longrightarrow> modifier_flag_from_name (the (get_modifier_flag_name m)) = Inr m"
  by (cases m) (simp_all add: modifier_flag_from_name_def)

lemma modifier_flag_from_name_sound:
  "modifier_flag_from_name n = Inr m \<Longrightarrow> get_modifier_flag_name m = Some n"
  unfolding modifier_flag_from_name_def by (simp split: if_split_asm)

subsection \<open>Momentary switch events\<close>

datatype momentary_switch_event = Mse (get_usage_pair: usage_pair)

fun mse_of_modifier_flag :: "modifier_flag \<Rightarrow> momentary_switch_event" where
  "mse_of_modifier_flag Flag_zero = Mse (mk_pair page_undefined usage_undefined)"
| "mse_of_modifier_flag Flag_caps_lock = Mse (mk_pair page_keyboard_or_keypad keyboard_caps_lock)"
| "mse_of_modifier_flag Flag_left_control = Mse (mk_pair page_keyboard_or_keypad keyboard_left_control)"
| "mse_of_modifier_flag Flag_left_shift = Mse (mk_pair page_keyboard_or_keypad keyboard_left_shift)"
| "mse_of_modifier_flag Flag_left_option = Mse (mk_pair page_keyboard_or_keypad keyboard_left_alt)"
| "mse_of_modifier_flag Flag_left_command = Mse (mk_pair page_keyboard_or_keypad keyboard_left_gui)"
| "mse_of_modifier_flag Flag_right_control = Mse (mk_pair page_keyboard_or_keypad keyboard_right_control)"
| "mse_of_modifier_flag Flag_right_shift = Mse (mk_pair page_keyboard_or_keypad keyboard_right_shift)"
| "mse_of_modifier_flag Flag_right_option = Mse (mk_pair page_keyboard_or_keypad keyboard_right_alt)"
| "mse_of_modifier_flag Flag_right_command = Mse (mk_pair page_keyboard_or_keypad keyboard_right_gui)"
| "mse_of_modifier_flag Flag_fn = Mse (mk_pair page_apple_vendor_top_case apple_vendor_top_case_keyboard_fn)"
| "mse_of_modifier_flag Flag_end = Mse (mk_pair page_undefined usage_undefined)"

definition make_modifier_flag :: "momentary_switch_event \<Rightarrow> modifier_flag option" where
  "make_modifier_flag e =
     (let p = usage_page (get_usage_pair e); u = usage (get_usage_pair e) in
      if p = page_keyboard_or_keypad then
        (if u = keyboard_left_control then Some Flag_left_control
         else if u = keyboard_left_shift then Some Flag_left_shift
         else if u = keyboard_left_alt then Some Flag_left_option
         else if u = keyboard_left_gui then Some Flag_left_command
         else if u = keyboard_right_control then Some Flag_right_control
         else if u = keyboard_right_shift then Some Flag_right_shift
         else if u = keyboard_right_alt then Some Flag_right_option
         else if u = keyboard_right_gui then Some Flag_right_command
         else None)
      else if p = page_apple_vendor_keyboard then
        (if u = apple_vendor_keyboard_function then Some Flag_fn else None)
      else if p = page_apple_vendor_top_case then
        (if u = apple_vendor_top_case_keyboard_fn then Some Flag_fn else None)
      else None)"

definition mse_valid :: "momentary_switch_event \<Rightarrow> bool" where
  "mse_valid e \<longleftrightarrow> usage_page (get_usage_pair e) \<noteq> page_undefined \<and>
                   usage (get_usage_pair e) \<noteq> usage_undefined"

definition mse_modifier_flag :: "momentary_switch_event \<Rightarrow> bool" where
  "mse_modifier_flag e \<longleftrightarrow> make_modifier_flag e \<noteq> None"

definition mse_caps_lock :: "momentary_switch_event \<Rightarrow> bool" where
  "mse_caps_lock e \<longleftrightarrow> usage_page (get_usage_pair e) = page_keyboard_or_keypad \<and>
                       usage (get_usage_pair e) = keyboard_caps_lock"

definition mse_pointing_button :: "momentary_switch_event \<Rightarrow> bool" where
  "mse_pointing_button e \<longleftrightarrow> usage_page (get_usage_pair e) = page_button"

definition interrupts_key_repeat :: "momentary_switch_event \<Rightarrow> bool" where
  "interrupts_key_repeat e =
     (if \<not> mse_valid e \<or> mse_modifier_flag e \<or> mse_caps_lock e \<or> mse_pointing_button e \<or>
         usage_page (get_usage_pair e) = page_generic_desktop
      then False else True)"

lemmas mse_defs = make_modifier_flag_def mse_valid_def mse_modifier_flag_def mse_caps_lock_def
  mse_pointing_button_def page_defs usage_defs

text \<open>
  The two directions between flags and events: every flag but \<open>zero\<close>, \<open>caps_lock\<close> and \<open>end_\<close>
  comes back from its event. Caps lock is not a modifier flag of its key event.
\<close>

lemma make_modifier_flag_mse:
  "make_modifier_flag (mse_of_modifier_flag m) =
     (if m \<in> {Flag_zero, Flag_caps_lock, Flag_end} then None else Some m)"
  by (cases m) (simp_all add: make_modifier_flag_def page_defs usage_defs)

lemma mse_of_modifier_flag_valid:
  "mse_valid (mse_of_modifier_flag m) \<longleftrightarrow> m \<noteq> Flag_zero \<and> m \<noteq> Flag_end"
  by (cases m) (simp_all add: mse_valid_def page_defs usage_defs)

lemma mse_of_modifier_flag_caps_lock:
  "mse_caps_lock (mse_of_modifier_flag m) \<longleftrightarrow> m = Flag_caps_lock"
  by (cases m) (simp_all add: mse_caps_lock_def page_defs usage_defs)

lemma mse_of_modifier_flag_not_button: "\<not> mse_pointing_button (mse_of_modifier_flag m)"
  by (cases m) (simp_all add: mse_pointing_button_def page_defs usage_defs)

lemma modifier_flag_not_button: "mse_modifier_flag e \<Longrightarrow> \<not> mse_pointing_button e"
  by (auto simp: mse_defs Let_def split: if_splits)

lemma modifier_flag_valid: "mse_modifier_flag e \<Longrightarrow> mse_valid e"
  by (auto simp: mse_defs Let_def split: if_splits)

lemma make_modifier_flag_range:
  "make_modifier_flag e = Some m \<Longrightarrow> m \<notin> {Flag_zero, Flag_caps_lock, Flag_end}"
  by (auto simp: make_modifier_flag_def Let_def split: if_splits)

end
