(* ===== verification/ValueTypes.thy ===== *)
theory ValueTypes
  imports HidTypes
begin

text \<open>
  The values an event carries (\<open>src/share/types\<close>): pointing motions, mouse keys, variables and their
  assignments, notification messages, software functions, applications and the virtual device
  state, with the JSON writers and readers the processes exchange them by. Every reader starts from
  the default-constructed value, as \<open>get<T>()\<close> does.
\<close>

named_theorems json_reads \<open>definitions of the JSON readers\<close>

lemmas json_eval = obj_set_opt_def must_be_def quoted_def

subsection \<open>Pointing motion\<close>

record pointing_motion =
  pm_x :: int
  pm_y :: int
  pm_vertical_wheel :: int
  pm_horizontal_wheel :: int

definition mk_motion :: "int \<Rightarrow> int \<Rightarrow> int \<Rightarrow> int \<Rightarrow> pointing_motion" where
  "mk_motion x y v h = \<lparr>pm_x = x, pm_y = y, pm_vertical_wheel = v, pm_horizontal_wheel = h\<rparr>"

definition pm_is_zero :: "pointing_motion \<Rightarrow> bool" where
  "pm_is_zero m \<longleftrightarrow> pm_x m = 0 \<and> pm_y m = 0 \<and> pm_vertical_wheel m = 0 \<and> pm_horizontal_wheel m = 0"

definition pm_clear :: "pointing_motion \<Rightarrow> pointing_motion" where
  "pm_clear m = m\<lparr>pm_x := 0, pm_y := 0, pm_vertical_wheel := 0, pm_horizontal_wheel := 0\<rparr>"

definition pointing_motion_to_json :: "pointing_motion \<Rightarrow> json" where
  "pointing_motion_to_json m = J_object
     (obj_set ''horizontal_wheel'' (J_int (pm_horizontal_wheel m))
     (obj_set ''vertical_wheel'' (J_int (pm_vertical_wheel m))
     (obj_set ''y'' (J_int (pm_y m))
     (obj_set ''x'' (J_int (pm_x m)) []))))"

definition pointing_motion_item :: "string \<Rightarrow> json \<Rightarrow> pointing_motion \<Rightarrow> json_error + pointing_motion" where
  "pointing_motion_item k v m =
     (if k = ''x'' then and_then (requires_number (quoted k) v) (\<lambda>v. Inr (m\<lparr>pm_x := get_int32 v\<rparr>))
      else if k = ''y'' then and_then (requires_number (quoted k) v) (\<lambda>v. Inr (m\<lparr>pm_y := get_int32 v\<rparr>))
      else if k = ''vertical_wheel'' then
        and_then (requires_number (quoted k) v) (\<lambda>v. Inr (m\<lparr>pm_vertical_wheel := get_int32 v\<rparr>))
      else if k = ''horizontal_wheel'' then
        and_then (requires_number (quoted k) v) (\<lambda>v. Inr (m\<lparr>pm_horizontal_wheel := get_int32 v\<rparr>))
      else Inr m)"

definition pointing_motion_from_json :: "json \<Rightarrow> json_error + pointing_motion" where
  "pointing_motion_from_json j =
     and_then (requires_object ''json'' j) (\<lambda>xs. fold_items pointing_motion_item xs (mk_motion 0 0 0 0))"

definition motion_ok :: "pointing_motion \<Rightarrow> bool" where
  "motion_ok m \<longleftrightarrow> int32 (pm_x m) \<and> int32 (pm_y m) \<and> int32 (pm_vertical_wheel m) \<and> int32 (pm_horizontal_wheel m)"

lemma pointing_motion_json:
  "motion_ok m \<Longrightarrow> pointing_motion_from_json (pointing_motion_to_json m) = Inr m"
  by (simp add: pointing_motion_to_json_def pointing_motion_from_json_def pointing_motion_item_def
      motion_ok_def mk_motion_def)

subsection \<open>Mouse key\<close>

text \<open>The speed multiplier is a double; its product is the machine's, a parameter \<open>fmul\<close>.\<close>

record mouse_key =
  mk_x :: int
  mk_y :: int
  mk_vertical_wheel :: int
  mk_horizontal_wheel :: int
  mk_speed_multiplier :: rat

definition mouse_key_zero :: mouse_key where
  "mouse_key_zero = \<lparr>mk_x = 0, mk_y = 0, mk_vertical_wheel = 0, mk_horizontal_wheel = 0, mk_speed_multiplier = 1\<rparr>"

definition mk_is_zero :: "mouse_key \<Rightarrow> bool" where
  "mk_is_zero m \<longleftrightarrow> mk_x m = 0 \<and> mk_y m = 0 \<and> mk_vertical_wheel m = 0 \<and> mk_horizontal_wheel m = 0"

definition mk_is_speed_multiplier :: "mouse_key \<Rightarrow> bool" where
  "mk_is_speed_multiplier m = mk_is_zero m"

definition mk_invert_wheel :: "mouse_key \<Rightarrow> mouse_key" where
  "mk_invert_wheel m = m\<lparr>mk_vertical_wheel := - mk_vertical_wheel m, mk_horizontal_wheel := - mk_horizontal_wheel m\<rparr>"

definition mk_plus :: "(rat \<Rightarrow> rat \<Rightarrow> rat) \<Rightarrow> mouse_key \<Rightarrow> mouse_key \<Rightarrow> mouse_key" where
  "mk_plus fmul m n = \<lparr>mk_x = mk_x m + mk_x n, mk_y = mk_y m + mk_y n,
     mk_vertical_wheel = mk_vertical_wheel m + mk_vertical_wheel n,
     mk_horizontal_wheel = mk_horizontal_wheel m + mk_horizontal_wheel n,
     mk_speed_multiplier = fmul (mk_speed_multiplier m) (mk_speed_multiplier n)\<rparr>"

definition mouse_key_to_json :: "mouse_key \<Rightarrow> json" where
  "mouse_key_to_json m = J_object
     (obj_set ''speed_multiplier'' (J_float (mk_speed_multiplier m))
     (obj_set ''horizontal_wheel'' (J_int (mk_horizontal_wheel m))
     (obj_set ''vertical_wheel'' (J_int (mk_vertical_wheel m))
     (obj_set ''y'' (J_int (mk_y m))
     (obj_set ''x'' (J_int (mk_x m)) [])))))"

definition unknown_key :: "string \<Rightarrow> json_error" where
  "unknown_key k = Unmarshal_error (''unknown key: `'' @ k @ ''`'')"

definition mouse_key_item :: "string \<Rightarrow> json \<Rightarrow> mouse_key \<Rightarrow> json_error + mouse_key" where
  "mouse_key_item k v m =
     (if k = ''x'' then and_then (requires_number (quoted k) v) (\<lambda>v. Inr (m\<lparr>mk_x := get_int32 v\<rparr>))
      else if k = ''y'' then and_then (requires_number (quoted k) v) (\<lambda>v. Inr (m\<lparr>mk_y := get_int32 v\<rparr>))
      else if k = ''vertical_wheel'' then
        and_then (requires_number (quoted k) v) (\<lambda>v. Inr (m\<lparr>mk_vertical_wheel := get_int32 v\<rparr>))
      else if k = ''horizontal_wheel'' then
        and_then (requires_number (quoted k) v) (\<lambda>v. Inr (m\<lparr>mk_horizontal_wheel := get_int32 v\<rparr>))
      else if k = ''speed_multiplier'' then
        and_then (requires_number (quoted k) v) (\<lambda>v. Inr (m\<lparr>mk_speed_multiplier := get_double v\<rparr>))
      else Inl (unknown_key k))"

definition mouse_key_from_json :: "json \<Rightarrow> json_error + mouse_key" where
  "mouse_key_from_json j =
     and_then (requires_object ''json'' j) (\<lambda>xs. fold_items mouse_key_item xs mouse_key_zero)"

definition mouse_key_ok :: "mouse_key \<Rightarrow> bool" where
  "mouse_key_ok m \<longleftrightarrow> int32 (mk_x m) \<and> int32 (mk_y m) \<and> int32 (mk_vertical_wheel m) \<and> int32 (mk_horizontal_wheel m)"

lemma mouse_key_json: "mouse_key_ok m \<Longrightarrow> mouse_key_from_json (mouse_key_to_json m) = Inr m"
  by (simp add: mouse_key_to_json_def mouse_key_from_json_def mouse_key_item_def mouse_key_ok_def
      mouse_key_zero_def)

subsection \<open>Variables\<close>

datatype variable_value = Var_int int | Var_bool bool | Var_string string

definition default_variable_value :: variable_value where
  "default_variable_value = Var_int 0"

fun variable_value_to_json :: "variable_value \<Rightarrow> json" where
  "variable_value_to_json (Var_int n) = J_int n"
| "variable_value_to_json (Var_bool b) = J_bool b"
| "variable_value_to_json (Var_string s) = J_string s"

fun variable_value_from_json :: "json \<Rightarrow> json_error + variable_value" where
  "variable_value_from_json (J_int n) = Inr (Var_int (get_int64 (J_int n)))"
| "variable_value_from_json (J_float r) = Inr (Var_int (get_int64 (J_float r)))"
| "variable_value_from_json (J_bool b) = Inr (Var_bool b)"
| "variable_value_from_json (J_string s) = Inr (Var_string s)"
| "variable_value_from_json j =
     Inl (Unmarshal_error_dump ''json must be number, boolean or string, but is `'' j ''`'')"

fun variable_value_ok :: "variable_value \<Rightarrow> bool" where
  "variable_value_ok (Var_int n) = int64 n"
| "variable_value_ok _ = True"

lemma variable_value_json [simp]:
  "variable_value_ok v \<Longrightarrow> variable_value_from_json (variable_value_to_json v) = Inr v"
  by (cases v) simp_all

text \<open>
  An expression is a shared wrapper around the third-party evaluator; \<open>exprtk_utility::compare\<close>
  identifies it with its source string. \<open>json_utility\<close> writes it as that string.
\<close>

datatype set_variable_type = Set_type_set | Set_type_unset

record set_variable =
  sv_name :: "string option"
  sv_value :: "variable_value option"
  sv_expression :: "string option"
  sv_key_up_value :: "variable_value option"
  sv_key_up_expression :: "string option"
  sv_type :: set_variable_type

definition default_set_variable :: set_variable where
  "default_set_variable = \<lparr>sv_name = None, sv_value = None, sv_expression = None,
     sv_key_up_value = None, sv_key_up_expression = None, sv_type = Set_type_set\<rparr>"

subsection \<open>Notification message\<close>

record notification_message =
  nm_id :: string
  nm_text :: string
  nm_duration_milliseconds :: int

definition notification_message_to_json :: "notification_message \<Rightarrow> json" where
  "notification_message_to_json m = J_object
     (obj_set_opt ''duration_milliseconds''
        (if nm_duration_milliseconds m > 0 then Some (J_int (nm_duration_milliseconds m)) else None)
     (obj_set ''text'' (J_string (nm_text m))
     (obj_set ''id'' (J_string (nm_id m)) [])))"

definition notification_message_item ::
    "string \<Rightarrow> json \<Rightarrow> notification_message \<Rightarrow> json_error + notification_message" where
  "notification_message_item k v m =
     (if k = ''id'' then and_then (requires_string k v) (\<lambda>s. Inr (m\<lparr>nm_id := s\<rparr>))
      else if k = ''text'' then and_then (requires_string k v) (\<lambda>s. Inr (m\<lparr>nm_text := s\<rparr>))
      else if k = ''duration_milliseconds'' then
        and_then (requires_number (quoted k) v) (\<lambda>v.
          let d = get_int32 v in
          if d < 0 then
            Inl (Unmarshal_error_dump (quoted k @ '' must be greater than or equal to 0, but is `'')
                   (J_int d) ''`'')
          else Inr (m\<lparr>nm_duration_milliseconds := d\<rparr>))
      else Inl (unknown_key k))"

definition notification_message_from_json :: "json \<Rightarrow> json_error + notification_message" where
  "notification_message_from_json j =
     and_then (requires_object ''json'' j)
       (\<lambda>xs. fold_items notification_message_item xs
          \<lparr>nm_id = [], nm_text = [], nm_duration_milliseconds = 0\<rparr>)"

definition notification_message_ok :: "notification_message \<Rightarrow> bool" where
  "notification_message_ok m \<longleftrightarrow> 0 \<le> nm_duration_milliseconds m \<and> int32 (nm_duration_milliseconds m)"

lemma notification_message_json:
  "notification_message_ok m \<Longrightarrow> notification_message_from_json (notification_message_to_json m) = Inr m"
  by (cases "nm_duration_milliseconds m > 0")
     (simp_all add: notification_message_to_json_def notification_message_from_json_def
        notification_message_item_def notification_message_ok_def obj_set_opt_def Let_def)

text \<open>Whatever the JSON, a message that is read has a duration that is not negative.\<close>

lemma notification_message_items_duration:
  "fold_items notification_message_item xs m = Inr m' \<Longrightarrow> 0 \<le> nm_duration_milliseconds m
     \<Longrightarrow> 0 \<le> nm_duration_milliseconds m'"
proof (induction xs arbitrary: m)
  case (Cons x xs)
  obtain k v where x: "x = (k, v)" by fastforce
  with Cons.prems(1) obtain m1 where "notification_message_item k v m = Inr m1"
      "fold_items notification_message_item xs m1 = Inr m'"
    by (auto simp: and_then_Inr_iff)
  moreover from this(1) have "0 \<le> nm_duration_milliseconds m1"
    using Cons.prems(2) unfolding notification_message_item_def
    by (auto simp: and_then_Inr_iff Let_def split: if_split_asm)
  ultimately show ?case using Cons.IH by blast
qed simp

subsection \<open>Multi-line strings (\<open>json_utility\<close>)\<close>

definition newline :: char where "newline = CHR 0x0A"

text \<open>\<open>std::getline\<close> until it fails: a final line without a newline counts if it is not empty.\<close>

function getlines :: "string \<Rightarrow> string list" where
  "getlines s =
     (if s = [] then []
      else case dropWhile (\<lambda>c. c \<noteq> newline) s of
             [] \<Rightarrow> [takeWhile (\<lambda>c. c \<noteq> newline) s]
           | _ # rest \<Rightarrow> takeWhile (\<lambda>c. c \<noteq> newline) s # getlines rest)"
  by pat_completeness auto
termination
proof (relation "measure length")
  fix s x and rest :: string
  assume "dropWhile (\<lambda>c. c \<noteq> newline) s = x # rest"
  then have "length (x # rest) \<le> length s" by (metis length_dropWhile_le)
  then show "(rest, s) \<in> measure length" by simp
qed simp

declare getlines.simps [simp del]

definition marshal_string :: "string \<Rightarrow> json" where
  "marshal_string s = (if newline \<in> set s then J_array (map J_string (getlines s)) else J_string s)"

definition unmarshal_string_error :: "string \<Rightarrow> json \<Rightarrow> json_error" where
  "unmarshal_string_error k v =
     Unmarshal_error_dump (quoted k @ '' must be array of string, or string, but is `'') v ''`''"

fun join_strings :: "json list \<Rightarrow> string option" where
  "join_strings [] = Some []"
| "join_strings (J_string s # js) = map_option (\<lambda>t. s @ newline # t) (join_strings js)"
| "join_strings (_ # js) = None"

fun unmarshal_string :: "string \<Rightarrow> json \<Rightarrow> json_error + string" where
  "unmarshal_string k (J_string s) = Inr s"
| "unmarshal_string k (J_array js) =
     (case join_strings js of
        Some s \<Rightarrow> Inr (butlast s)
      | None \<Rightarrow> Inl (unmarshal_string_error k (J_array js)))"
| "unmarshal_string k v = Inl (unmarshal_string_error k v)"

lemma getlines_Nil [simp]: "getlines [] = []"
  by (simp add: getlines.simps)

lemma getlines_split:
  "newline \<notin> set a \<Longrightarrow> getlines (a @ newline # b) = a # getlines b"
  by (subst getlines.simps) (auto simp: dropWhile_append takeWhile_append)

lemma getlines_single:
  assumes "newline \<notin> set a" "a \<noteq> []"
  shows "getlines a = [a]"
proof -
  have drop: "dropWhile (\<lambda>c. c \<noteq> newline) a = []" using assms(1) by auto
  then have take: "takeWhile (\<lambda>c. c \<noteq> newline) a = a" by (metis append_Nil2 takeWhile_dropWhile_id)
  show ?thesis using assms(2) by (subst getlines.simps) (simp only: drop take list.case if_False)
qed

lemma join_getlines:
  "join_strings (map J_string (getlines s)) =
     Some (if s = [] \<or> last s = newline then s else s @ [newline])"
proof (induction s rule: length_induct)
  case (1 s)
  show ?case
  proof (cases "newline \<in> set s")
    case True
    then obtain a b where s: "s = a @ newline # b" and a: "newline \<notin> set a"
      by (meson split_list_first)
    have "join_strings (map J_string (getlines b)) =
            Some (if b = [] \<or> last b = newline then b else b @ [newline])"
      using 1 s by simp
    then show ?thesis unfolding s getlines_split [OF a] by auto
  next
    case False
    then have "s = [] \<or> last s \<noteq> newline" by (metis last_in_set)
    then show ?thesis using getlines_single [OF False] by (cases "s = []") auto
  qed
qed

text \<open>Writing and reading a string back loses one final newline and nothing else.\<close>

lemma unmarshal_marshal_string:
  "unmarshal_string k (marshal_string s) = Inr (if s \<noteq> [] \<and> last s = newline then butlast s else s)"
proof (cases "newline \<in> set s")
  case True
  then show ?thesis by (auto simp: marshal_string_def join_getlines)
next
  case False
  then have "s = [] \<or> last s \<noteq> newline" by (metis last_in_set)
  then show ?thesis using False by (auto simp: marshal_string_def)
qed

subsection \<open>Setting a variable\<close>

text \<open>
  \<open>bad_expression\<close> says that the third-party compiler gives an expression whose initial value is
  not a number.
\<close>

definition unmarshal_expression_string :: "(string \<Rightarrow> bool) \<Rightarrow> string \<Rightarrow> json \<Rightarrow> json_error + string" where
  "unmarshal_expression_string bad_expression k v =
     and_then (unmarshal_string k v) (\<lambda>s.
       if bad_expression s
       then Inl (Unmarshal_error_dump (quoted k @ '' error: invalid expression `'') v ''`'')
       else Inr s)"

fun set_variable_type_name :: "set_variable_type \<Rightarrow> string" where
  "set_variable_type_name Set_type_set = ''set''"
| "set_variable_type_name Set_type_unset = ''unset''"

definition set_variable_to_json :: "set_variable \<Rightarrow> json" where
  "set_variable_to_json m = J_object
     (obj_set ''type'' (J_string (set_variable_type_name (sv_type m)))
     (obj_set_opt ''key_up_expression'' (map_option marshal_string (sv_key_up_expression m))
     (obj_set_opt ''key_up_value'' (map_option variable_value_to_json (sv_key_up_value m))
     (obj_set_opt ''expression'' (map_option marshal_string (sv_expression m))
     (obj_set_opt ''value'' (map_option variable_value_to_json (sv_value m))
     (obj_set_opt ''name'' (map_option J_string (sv_name m)) []))))))"

definition set_variable_item ::
    "(string \<Rightarrow> bool) \<Rightarrow> string \<Rightarrow> json \<Rightarrow> set_variable \<Rightarrow> json_error + set_variable" where
  "set_variable_item bad k v m =
     (if k = ''name'' then and_then (requires_string (quoted k) v) (\<lambda>s. Inr (m\<lparr>sv_name := Some s\<rparr>))
      else if k = ''value'' then
        and_then (variable_value_from_json v) (\<lambda>x. Inr (m\<lparr>sv_value := Some x\<rparr>))
      else if k = ''expression'' then
        and_then (unmarshal_expression_string bad k v) (\<lambda>e. Inr (m\<lparr>sv_expression := Some e\<rparr>))
      else if k = ''key_up_value'' then
        and_then (variable_value_from_json v) (\<lambda>x. Inr (m\<lparr>sv_key_up_value := Some x\<rparr>))
      else if k = ''key_up_expression'' then
        and_then (unmarshal_expression_string bad k v) (\<lambda>e. Inr (m\<lparr>sv_key_up_expression := Some e\<rparr>))
      else if k = ''type'' then
        and_then (requires_string (quoted k) v) (\<lambda>s.
          if s = ''set'' then Inr (m\<lparr>sv_type := Set_type_set\<rparr>)
          else if s = ''unset'' then Inr (m\<lparr>sv_type := Set_type_unset\<rparr>)
          else Inl (Unmarshal_error (''unknown type: `'' @ s @ ''`'')))
      else Inl (unknown_key k))"

definition set_variable_from_json :: "(string \<Rightarrow> bool) \<Rightarrow> json \<Rightarrow> json_error + set_variable" where
  "set_variable_from_json bad j =
     and_then (requires_object ''json'' j) (\<lambda>xs. fold_items (set_variable_item bad) xs default_set_variable)"

definition expression_ok :: "(string \<Rightarrow> bool) \<Rightarrow> string \<Rightarrow> bool" where
  "expression_ok bad e \<longleftrightarrow> \<not> bad e \<and> \<not> (e \<noteq> [] \<and> last e = newline)"

definition set_variable_ok :: "(string \<Rightarrow> bool) \<Rightarrow> set_variable \<Rightarrow> bool" where
  "set_variable_ok bad m \<longleftrightarrow>
     pred_option variable_value_ok (sv_value m) \<and> pred_option variable_value_ok (sv_key_up_value m) \<and>
     pred_option (expression_ok bad) (sv_expression m) \<and>
     pred_option (expression_ok bad) (sv_key_up_expression m)"

lemma unmarshal_expression_marshal [simp]:
  "expression_ok bad e \<Longrightarrow> unmarshal_expression_string bad k (marshal_string e) = Inr e"
  by (auto simp: unmarshal_expression_string_def unmarshal_marshal_string expression_ok_def)

lemma set_variable_json:
  assumes "set_variable_ok bad m"
  shows "set_variable_from_json bad (set_variable_to_json m) = Inr m"
proof -
  obtain n v e kv ke t where m: "m = \<lparr>sv_name = n, sv_value = v, sv_expression = e,
      sv_key_up_value = kv, sv_key_up_expression = ke, sv_type = t\<rparr>" by (cases m)
  have t: "(if set_variable_type_name t = ''set'' then Inr (m'\<lparr>sv_type := Set_type_set\<rparr>)
          else if set_variable_type_name t = ''unset'' then Inr (m'\<lparr>sv_type := Set_type_unset\<rparr>)
          else Inl (Unmarshal_error (''unknown type: `'' @ set_variable_type_name t @ ''`'')))
        = (Inr (m'\<lparr>sv_type := t\<rparr>) :: json_error + set_variable)" for m'
    by (cases t) simp_all
  show ?thesis
    using assms unfolding m set_variable_to_json_def set_variable_from_json_def set_variable_ok_def
    by (cases n; cases v; cases e; cases kv; cases ke)
       (simp_all add: obj_set_opt_def set_variable_item_def default_set_variable_def t)
qed

subsection \<open>Properties\<close>

text \<open>
  Multi-line strings: a string written as one JSON string or as an array of lines reads back as
  itself, except that one final newline is lost.
\<close>

theorem multi_line_string_round_trip:
  "unmarshal_string k (marshal_string s) = Inr (if s \<noteq> [] \<and> last s = newline then butlast s else s)"
  by (rule unmarshal_marshal_string)

text \<open>
  Variables, assignments, notification messages, mouse keys and pointing motions that fit their C++ types
  read back from the JSON they are written as, without loss.
\<close>

theorem value_types_round_trip:
  assumes "set_variable_ok bad sv" "notification_message_ok nm" "mouse_key_ok mk" "motion_ok pm"
  shows "set_variable_from_json bad (set_variable_to_json sv) = Inr sv \<and>
         notification_message_from_json (notification_message_to_json nm) = Inr nm \<and>
         mouse_key_from_json (mouse_key_to_json mk) = Inr mk \<and>
         pointing_motion_from_json (pointing_motion_to_json pm) = Inr pm"
  using assms set_variable_json notification_message_json mouse_key_json pointing_motion_json by blast

theorem value_types_round_trip_witness:
  "set_variable_from_json (\<lambda>_. False)
     (set_variable_to_json (default_set_variable\<lparr>sv_name := Some ''a'', sv_value := Some (Var_int 1)\<rparr>)) =
     Inr (default_set_variable\<lparr>sv_name := Some ''a'', sv_value := Some (Var_int 1)\<rparr>)"
  using value_types_round_trip [of "\<lambda>_. False"
      "default_set_variable\<lparr>sv_name := Some ''a'', sv_value := Some (Var_int 1)\<rparr>"
      "\<lparr>nm_id = ''i'', nm_text = ''t'', nm_duration_milliseconds = 0\<rparr>" mouse_key_zero "mk_motion 1 2 3 4"]
  by (simp add: set_variable_ok_def default_set_variable_def notification_message_ok_def mouse_key_ok_def
      mouse_key_zero_def motion_ok_def mk_motion_def int32_def int64_def)

end
