(* ===== verification/SoftwareFunctions.thy ===== *)
theory SoftwareFunctions
  imports ValueTypes "HOL-Library.Signed_Division"
begin

text \<open>
  \<open>krbn::software_function\<close> and its four alternatives (\<open>src/share/types/software_function*\<close>), with
  their JSON forms and the arithmetic of a cursor position.
\<close>

subsection \<open>Decimal numbers\<close>

definition digit_char :: "nat \<Rightarrow> char" where "digit_char n = char_of (48 + n)"
definition is_digit :: "char \<Rightarrow> bool" where "is_digit c \<longleftrightarrow> (48 :: nat) \<le> of_char c \<and> (of_char c :: nat) \<le> 57"
definition digit_value :: "char \<Rightarrow> nat" where "digit_value c = of_char c - 48"

fun show_nat :: "nat \<Rightarrow> string" where
  "show_nat n = (if n < 10 then [digit_char n] else show_nat (n div 10) @ [digit_char (n mod 10)])"

declare show_nat.simps [simp del]

definition show_int :: "int \<Rightarrow> string" where
  "show_int n = (if n < 0 then CHR ''-'' # show_nat (nat (- n)) else show_nat (nat n))"

definition read_digits :: "string \<Rightarrow> nat" where
  "read_digits s = foldl (\<lambda>n c. 10 * n + digit_value c) 0 s"

lemma digit_char_simps [simp]:
  "n < 10 \<Longrightarrow> is_digit (digit_char n)" "n < 10 \<Longrightarrow> digit_value (digit_char n) = n"
  by (simp_all add: is_digit_def digit_char_def digit_value_def of_char_of)

lemma show_nat_digits: "\<forall>c\<in>set (show_nat n). is_digit c"
proof (induction n rule: show_nat.induct)
  case (1 n)
  then show ?case by (subst show_nat.simps) auto
qed

lemma show_nat_nonempty: "show_nat n \<noteq> []"
  by (subst show_nat.simps) simp

lemma read_show_nat: "read_digits (show_nat n) = n"
proof (induction n rule: show_nat.induct)
  case (1 n)
  then show ?case by (subst show_nat.simps) (simp add: read_digits_def)
qed

text \<open>
  \<open>std::stoi\<close>: leading white space, an optional sign, at least one digit; trailing text is ignored,
  and a value outside of \<open>int\<close> throws.
\<close>

definition is_space :: "char \<Rightarrow> bool" where
  "is_space c \<longleftrightarrow> (of_char c :: nat) \<in> {9, 10, 11, 12, 13, 32}"

definition stoi_unsigned :: "int \<Rightarrow> string \<Rightarrow> int option" where
  "stoi_unsigned sign s =
     (let ds = takeWhile is_digit s; n = sign * int (read_digits ds)
      in if ds \<noteq> [] \<and> int32 n then Some n else None)"

definition stoi :: "string \<Rightarrow> int option" where
  "stoi s = (case dropWhile is_space s of
       [] \<Rightarrow> None
     | c # cs \<Rightarrow> if c = CHR ''-'' then stoi_unsigned (-1) cs
                else if c = CHR ''+'' then stoi_unsigned 1 cs
                else stoi_unsigned 1 (c # cs))"

subsection \<open>Cursor positions\<close>

datatype position_type = Point | Percent

record position_value =
  pv_value :: int
  pv_type :: position_type

definition point_value :: "position_value \<Rightarrow> int \<Rightarrow> int" where
  "point_value p bounds =
     (case pv_type p of Point \<Rightarrow> pv_value p | Percent \<Rightarrow> (bounds * pv_value p) sdiv 100)"

definition position_value_to_json :: "position_value \<Rightarrow> json" where
  "position_value_to_json p =
     (case pv_type p of Point \<Rightarrow> J_int (pv_value p) | Percent \<Rightarrow> J_string (show_int (pv_value p) @ ''%''))"

text \<open>The pattern \<open>(\d+)%\<close>, matched against the whole string.\<close>

definition match_percent :: "string \<Rightarrow> string option" where
  "match_percent s =
     (let ds = takeWhile is_digit s
      in if ds \<noteq> [] \<and> dropWhile is_digit s = ''%'' then Some ds else None)"

fun position_value_from_json :: "json \<Rightarrow> json_error + position_value" where
  "position_value_from_json (J_int n) = Inr \<lparr>pv_value = get_int32 (J_int n), pv_type = Point\<rparr>"
| "position_value_from_json (J_float r) = Inr \<lparr>pv_value = get_int32 (J_float r), pv_type = Point\<rparr>"
| "position_value_from_json (J_string s) =
     (case (case match_percent s of
              Some ds \<Rightarrow> map_option (\<lambda>n. \<lparr>pv_value = n, pv_type = Percent\<rparr>) (stoi ds)
            | None \<Rightarrow> map_option (\<lambda>n. \<lparr>pv_value = n, pv_type = Point\<rparr>) (stoi s)) of
        Some p \<Rightarrow> Inr p
      | None \<Rightarrow> Inl (Unmarshal_error (''unsupported format: `'' @ s @ ''`'')))"
| "position_value_from_json j =
     Inl (Unmarshal_error_dump ''json must be number or string, but is `'' j ''`'')"

lemma point_value_bounds:
  assumes "0 \<le> bounds" "pv_type p = Percent" "0 \<le> pv_value p" "pv_value p \<le> 100"
  shows "0 \<le> point_value p bounds \<and> point_value p bounds \<le> bounds"
proof -
  have "bounds * pv_value p \<le> bounds * 100" using assms by (intro mult_left_mono) auto
  then have "bounds * pv_value p div 100 \<le> bounds" by simp
  moreover have "0 \<le> bounds * pv_value p" using assms by simp
  ultimately show ?thesis
    using assms by (auto simp: point_value_def signed_divide_int_def sgn_if pos_imp_zdiv_nonneg_iff)
qed

lemma digit_facts:
  assumes "is_digit c"
  shows "\<not> is_space c" "c \<noteq> CHR ''-''" "c \<noteq> CHR ''+''" "c \<noteq> CHR ''%''"
  using assms by (auto simp: is_digit_def is_space_def)

lemma stoi_show_nat:
  assumes "int32 (int n)" "s = [] \<or> \<not> is_digit (hd s)"
  shows "stoi (show_nat n @ s) = Some (int n)"
proof -
  obtain c cs where c: "show_nat n = c # cs" using show_nat_nonempty by (cases "show_nat n") auto
  have d: "is_digit c" using show_nat_digits [of n] c by simp
  have t: "takeWhile is_digit (show_nat n @ s) = show_nat n"
    using show_nat_digits [of n] assms(2) by (cases s) (auto simp: takeWhile_append)
  have "stoi (show_nat n @ s) = stoi_unsigned 1 (show_nat n @ s)"
    using digit_facts [OF d] by (simp add: stoi_def c)
  then show ?thesis
    using assms(1) by (simp add: stoi_unsigned_def Let_def t show_nat_nonempty read_show_nat)
qed

lemma position_value_json:
  assumes "int32 (pv_value p)" "pv_type p = Percent \<longrightarrow> 0 \<le> pv_value p"
  shows "position_value_from_json (position_value_to_json p) = Inr p"
proof (cases "pv_type p")
  case Point
  then show ?thesis using assms by (simp add: position_value_to_json_def)
next
  case Percent
  then obtain n where n: "pv_value p = int n" using assms(2) nonneg_int_cases by blast
  let ?s = "show_nat n"
  have "takeWhile is_digit (?s @ ''%'') = ?s" "dropWhile is_digit (?s @ ''%'') = ''%''"
    using show_nat_digits [of n] by (simp_all add: takeWhile_append dropWhile_append is_digit_def)
  then have "match_percent (?s @ ''%'') = Some ?s"
    by (simp add: match_percent_def show_nat_nonempty)
  moreover have "stoi ?s = Some (int n)" using stoi_show_nat [of n "[]"] assms(1) n by simp
  ultimately show ?thesis
    using Percent n by (simp add: position_value_to_json_def show_int_def)
qed

subsection \<open>The alternatives\<close>

datatype relative_to = Relative_to_screen | Relative_to_focused_window
datatype fallback_to = Fallback_to_none | Fallback_to_screen

record set_mouse_cursor_position =
  smcp_x :: position_value
  smcp_y :: position_value
  smcp_screen :: "int option"
  smcp_relative_to :: relative_to
  smcp_fallback_to :: fallback_to

record open_application =
  oa_bundle_identifier :: "string option"
  oa_file_path :: "string option"
  oa_frontmost_application_history_index :: "int option"
  oa_history_exclusion_bundle_identifiers :: "string list"
  oa_history_exclusion_file_paths :: "string list"

datatype software_function =
    Cg_event_double_click int
  | Iokit_power_management_sleep_system int
  | Open_application open_application
  | Set_mouse_cursor_position set_mouse_cursor_position
  | Software_function_none

definition get_point :: "set_mouse_cursor_position \<Rightarrow> int \<times> int \<Rightarrow> int \<times> int" where
  "get_point v bounds = (point_value (smcp_x v) (fst bounds), point_value (smcp_y v) (snd bounds))"

definition set_mouse_cursor_position_to_json :: "set_mouse_cursor_position \<Rightarrow> json" where
  "set_mouse_cursor_position_to_json v = J_object
     (obj_set_opt ''fallback_to''
        (if smcp_fallback_to v \<noteq> Fallback_to_none then Some (J_string ''screen'') else None)
     (obj_set_opt ''relative_to''
        (if smcp_relative_to v \<noteq> Relative_to_screen then Some (J_string ''focused_window'') else None)
     (obj_set_opt ''screen'' (map_option J_int (smcp_screen v))
     (obj_set ''y'' (position_value_to_json (smcp_y v))
     (obj_set ''x'' (position_value_to_json (smcp_x v)) [])))))"

definition set_mouse_cursor_position_item ::
    "string \<Rightarrow> json \<Rightarrow> set_mouse_cursor_position \<Rightarrow> json_error + set_mouse_cursor_position" where
  "set_mouse_cursor_position_item k v m =
     (if k = ''x'' then and_then (position_value_from_json v) (\<lambda>p. Inr (m\<lparr>smcp_x := p\<rparr>))
      else if k = ''y'' then and_then (position_value_from_json v) (\<lambda>p. Inr (m\<lparr>smcp_y := p\<rparr>))
      else if k = ''screen'' then
        and_then (requires_number (quoted k) v) (\<lambda>v. Inr (m\<lparr>smcp_screen := Some (take_bit 32 (get_int32 v))\<rparr>))
      else if k = ''relative_to'' then
        and_then (requires_string (quoted k) v) (\<lambda>s.
          if s = ''screen'' then Inr (m\<lparr>smcp_relative_to := Relative_to_screen\<rparr>)
          else if s = ''focused_window'' then Inr (m\<lparr>smcp_relative_to := Relative_to_focused_window\<rparr>)
          else Inl (Unmarshal_error (''unknown relative_to: '' @ s)))
      else if k = ''fallback_to'' then
        and_then (requires_string (quoted k) v) (\<lambda>s.
          if s = ''none'' then Inr (m\<lparr>smcp_fallback_to := Fallback_to_none\<rparr>)
          else if s = ''screen'' then Inr (m\<lparr>smcp_fallback_to := Fallback_to_screen\<rparr>)
          else Inl (Unmarshal_error (''unknown fallback_to: '' @ s)))
      else Inl (unknown_key k))"

definition default_smcp :: set_mouse_cursor_position where
  "default_smcp = \<lparr>smcp_x = \<lparr>pv_value = 0, pv_type = Point\<rparr>, smcp_y = \<lparr>pv_value = 0, pv_type = Point\<rparr>,
     smcp_screen = None, smcp_relative_to = Relative_to_screen, smcp_fallback_to = Fallback_to_none\<rparr>"

definition set_mouse_cursor_position_from_json :: "json \<Rightarrow> json_error + set_mouse_cursor_position" where
  "set_mouse_cursor_position_from_json j =
     and_then (requires_object ''json'' j) (\<lambda>xs. fold_items set_mouse_cursor_position_item xs default_smcp)"

text \<open>A pattern of \<open>pqrs::regex\<close> is written and read as its string; \<open>bad_regex\<close> rejects it.\<close>

definition regexes_from_json :: "(string \<Rightarrow> bool) \<Rightarrow> json list \<Rightarrow> json_error + string list" where
  "regexes_from_json bad_regex js =
     foldr (\<lambda>j r. and_then (requires_string ''json'' j) (\<lambda>s.
        if bad_regex s then Inl (Unmarshal_error s) else and_then r (\<lambda>ss. Inr (s # ss)))) js (Inr [])"

definition open_application_to_json :: "open_application \<Rightarrow> json" where
  "open_application_to_json v = J_object
     (obj_set_opt ''frontmost_application_history_exclusion_file_paths''
        (if oa_history_exclusion_file_paths v \<noteq> []
         then Some (J_array (map J_string (oa_history_exclusion_file_paths v))) else None)
     (obj_set_opt ''frontmost_application_history_exclusion_bundle_identifiers''
        (if oa_history_exclusion_bundle_identifiers v \<noteq> []
         then Some (J_array (map J_string (oa_history_exclusion_bundle_identifiers v))) else None)
     (obj_set_opt ''frontmost_application_history_index''
        (map_option J_int (oa_frontmost_application_history_index v))
     (obj_set_opt ''file_path'' (map_option J_string (oa_file_path v))
     (obj_set_opt ''bundle_identifier'' (map_option J_string (oa_bundle_identifier v)) [])))))"

definition open_application_item ::
    "(string \<Rightarrow> bool) \<Rightarrow> string \<Rightarrow> json \<Rightarrow> open_application \<Rightarrow> json_error + open_application" where
  "open_application_item bad k v m =
     (if k = ''bundle_identifier'' then
        and_then (requires_string (quoted k) v) (\<lambda>s. Inr (m\<lparr>oa_bundle_identifier := Some s\<rparr>))
      else if k = ''file_path'' then
        and_then (requires_string (quoted k) v) (\<lambda>s. Inr (m\<lparr>oa_file_path := Some s\<rparr>))
      else if k = ''frontmost_application_history_index'' then
        and_then (requires_number (quoted k) v)
          (\<lambda>v. Inr (m\<lparr>oa_frontmost_application_history_index := Some (get_uint64 v)\<rparr>))
      else if k = ''frontmost_application_history_exclusion_bundle_identifiers'' then
        and_then (requires_array (quoted k) v) (\<lambda>js. and_then (regexes_from_json bad js)
          (\<lambda>ss. Inr (m\<lparr>oa_history_exclusion_bundle_identifiers := ss\<rparr>)))
      else if k = ''frontmost_application_history_exclusion_file_paths'' then
        and_then (requires_array (quoted k) v) (\<lambda>js. and_then (regexes_from_json bad js)
          (\<lambda>ss. Inr (m\<lparr>oa_history_exclusion_file_paths := ss\<rparr>)))
      else Inl (unknown_key k))"

definition default_open_application :: open_application where
  "default_open_application = \<lparr>oa_bundle_identifier = None, oa_file_path = None,
     oa_frontmost_application_history_index = None, oa_history_exclusion_bundle_identifiers = [],
     oa_history_exclusion_file_paths = []\<rparr>"

definition open_application_from_json :: "(string \<Rightarrow> bool) \<Rightarrow> json \<Rightarrow> json_error + open_application" where
  "open_application_from_json bad j =
     and_then (requires_object ''json'' j) (\<lambda>xs. fold_items (open_application_item bad) xs default_open_application)"

definition software_function_to_json :: "software_function \<Rightarrow> json" where
  "software_function_to_json v =
     (case v of
        Software_function_none \<Rightarrow> J_null
      | Cg_event_double_click b \<Rightarrow>
          J_object [(''cg_event_double_click'', J_object [(''button'', J_int b)])]
      | Iokit_power_management_sleep_system d \<Rightarrow>
          J_object [(''iokit_power_management_sleep_system'', J_object [(''delay_milliseconds'', J_int d)])]
      | Open_application a \<Rightarrow> J_object [(''open_application'', open_application_to_json a)]
      | Set_mouse_cursor_position p \<Rightarrow>
          J_object [(''set_mouse_cursor_position'', set_mouse_cursor_position_to_json p)])"

definition double_click_from_json :: "json \<Rightarrow> json_error + int" where
  "double_click_from_json j =
     and_then (requires_object ''json'' j) (\<lambda>xs.
       fold_items (\<lambda>k v b.
         if k = ''button'' then
           and_then (requires_number (quoted k) v) (\<lambda>v. Inr (take_bit 32 (get_int32 v)))
         else Inl (unknown_key k)) xs 0)"

definition sleep_system_from_json :: "json \<Rightarrow> json_error + int" where
  "sleep_system_from_json j =
     and_then (requires_object ''json'' j) (\<lambda>xs.
       fold_items (\<lambda>k v d.
         if k = ''delay_milliseconds'' then
           and_then (requires_number (quoted k) v) (\<lambda>v. Inr (get_int32 v))
         else Inl (unknown_key k)) xs 500)"

text \<open>An \<open>unmarshal_error\<close> of an alternative is rethrown with the key prepended.\<close>

definition error_at :: "string \<Rightarrow> json_error + 'a \<Rightarrow> json_error + 'a" where
  "error_at k r =
     (case r of
        Inl (Unmarshal_error m) \<Rightarrow> Inl (Unmarshal_error (quoted k @ '' error: '' @ m))
      | Inl (Unmarshal_error_dump a j b) \<Rightarrow> Inl (Unmarshal_error_dump (quoted k @ '' error: '' @ a) j b)
      | _ \<Rightarrow> r)"

lemma error_at_Inr [simp]: "error_at k (Inr x) = Inr x"
  by (simp add: error_at_def)

definition software_function_item ::
    "(string \<Rightarrow> bool) \<Rightarrow> string \<Rightarrow> json \<Rightarrow> software_function \<Rightarrow> json_error + software_function" where
  "software_function_item bad k v m =
     (if k = ''cg_event_double_click'' then
        and_then (error_at k (double_click_from_json v)) (\<lambda>b. Inr (Cg_event_double_click b))
      else if k = ''iokit_power_management_sleep_system'' then
        and_then (error_at k (sleep_system_from_json v)) (\<lambda>d. Inr (Iokit_power_management_sleep_system d))
      else if k = ''open_application'' then
        and_then (error_at k (open_application_from_json bad v)) (\<lambda>a. Inr (Open_application a))
      else if k = ''set_mouse_cursor_position'' then
        and_then (error_at k (set_mouse_cursor_position_from_json v)) (\<lambda>p. Inr (Set_mouse_cursor_position p))
      else Inl (unknown_key k))"

definition software_function_from_json :: "(string \<Rightarrow> bool) \<Rightarrow> json \<Rightarrow> json_error + software_function" where
  "software_function_from_json bad j =
     and_then (requires_object ''json'' j)
       (\<lambda>xs. fold_items (software_function_item bad) xs Software_function_none)"

subsection \<open>Reading back what was written\<close>

definition uint64 :: "int \<Rightarrow> bool" where "uint64 n \<longleftrightarrow> 0 \<le> n \<and> n < 2 ^ 64"

lemma get_uint64_int [simp]: "uint64 n \<Longrightarrow> get_uint64 (J_int n) = n"
  by (simp add: get_uint64_def uint64_def take_bit_int_eq_self)

lemma regexes_json [simp]:
  "\<forall>s\<in>set ss. \<not> bad s \<Longrightarrow> regexes_from_json bad (map J_string ss) = Inr ss"
  by (induction ss) (simp_all add: regexes_from_json_def)

definition position_ok :: "position_value \<Rightarrow> bool" where
  "position_ok p \<longleftrightarrow> int32 (pv_value p) \<and> (pv_type p = Percent \<longrightarrow> 0 \<le> pv_value p)"

lemma position_json [simp]: "position_ok p \<Longrightarrow> position_value_from_json (position_value_to_json p) = Inr p"
  using position_value_json by (simp add: position_ok_def)

fun software_function_ok :: "(string \<Rightarrow> bool) \<Rightarrow> software_function \<Rightarrow> bool" where
  "software_function_ok bad (Cg_event_double_click b) \<longleftrightarrow> 0 \<le> b \<and> int32 b"
| "software_function_ok bad (Iokit_power_management_sleep_system d) \<longleftrightarrow> int32 d"
| "software_function_ok bad (Open_application a) \<longleftrightarrow>
     pred_option uint64 (oa_frontmost_application_history_index a) \<and>
     (\<forall>s\<in>set (oa_history_exclusion_bundle_identifiers a) \<union> set (oa_history_exclusion_file_paths a). \<not> bad s)"
| "software_function_ok bad (Set_mouse_cursor_position p) \<longleftrightarrow>
     position_ok (smcp_x p) \<and> position_ok (smcp_y p) \<and>
     pred_option (\<lambda>n. 0 \<le> n \<and> int32 n) (smcp_screen p)"
| "software_function_ok bad Software_function_none \<longleftrightarrow> False"

lemma take_bit_int32 [simp]: "0 \<le> n \<Longrightarrow> int32 n \<Longrightarrow> take_bit 32 n = n"
  by (simp add: int32_def take_bit_int_eq_self)

lemma set_mouse_cursor_position_json:
  assumes "software_function_ok bad (Set_mouse_cursor_position p)"
  shows "set_mouse_cursor_position_from_json (set_mouse_cursor_position_to_json p) = Inr p"
proof -
  obtain x y s r f where p: "p = \<lparr>smcp_x = x, smcp_y = y, smcp_screen = s, smcp_relative_to = r,
      smcp_fallback_to = f\<rparr>" by (cases p)
  show ?thesis
    using assms unfolding p set_mouse_cursor_position_to_json_def set_mouse_cursor_position_from_json_def
    by (cases s; cases r; cases f)
       (simp_all add: obj_set_opt_def set_mouse_cursor_position_item_def default_smcp_def)
qed

lemma open_application_json:
  assumes "software_function_ok bad (Open_application a)"
  shows "open_application_from_json bad (open_application_to_json a) = Inr a"
proof -
  obtain b f i eb ef where a: "a = \<lparr>oa_bundle_identifier = b, oa_file_path = f,
      oa_frontmost_application_history_index = i, oa_history_exclusion_bundle_identifiers = eb,
      oa_history_exclusion_file_paths = ef\<rparr>" by (cases a)
  show ?thesis
    using assms unfolding a open_application_to_json_def open_application_from_json_def
    by (cases b; cases f; cases i; cases "eb = []"; cases "ef = []")
       (simp_all add: obj_set_opt_def open_application_item_def default_open_application_def
          del: list.map map_map)
qed

lemma software_function_json:
  assumes "software_function_ok bad v"
  shows "software_function_from_json bad (software_function_to_json v) = Inr v"
  using assms set_mouse_cursor_position_json open_application_json
  by (cases v)
     (simp_all add: software_function_to_json_def software_function_from_json_def
        software_function_item_def double_click_from_json_def sleep_system_from_json_def)

text \<open>A negative percentage does not come back: it is read as a number of points.\<close>

lemma negative_percent_reads_as_point:
  "position_value_from_json (position_value_to_json \<lparr>pv_value = -5, pv_type = Percent\<rparr>)
     = Inr \<lparr>pv_value = -5, pv_type = Point\<rparr>"
  by code_simp

subsection \<open>Properties\<close>

text \<open>
  A software function whose numbers fit their C++ types and whose patterns compile reads back from
  the JSON it is written as; for cursor positions in percent this needs a value that is not negative.
\<close>

theorem software_function_round_trip:
  assumes "software_function_ok bad v"
  shows "software_function_from_json bad (software_function_to_json v) = Inr v"
  using assms by (rule software_function_json)

theorem software_function_round_trip_witness:
  "let v = Set_mouse_cursor_position (default_smcp\<lparr>smcp_x := \<lparr>pv_value = 50, pv_type = Percent\<rparr>, smcp_screen := Some 1\<rparr>)
   in software_function_from_json (\<lambda>_. False) (software_function_to_json v) = Inr v"
  unfolding Let_def
  by (rule software_function_round_trip) (simp add: default_smcp_def position_ok_def int32_def)

text \<open>A negative percentage does not survive being written and read: it comes back as points.\<close>

theorem negative_percent_changes_its_unit:
  "position_value_from_json (position_value_to_json \<lparr>pv_value = -5, pv_type = Percent\<rparr>)
     = Inr \<lparr>pv_value = -5, pv_type = Point\<rparr>"
  by (rule negative_percent_reads_as_point)

end
