(* ===== verification/KeyNames.thy ===== *)
theory KeyNames
  imports HidTypes SoftwareFunctions
begin

text \<open>
  The names of keys and buttons (\<open>src/share/types/momentary_switch_event_details\<close>) and the JSON form
  of a momentary switch event. The tables are those of the source, with the usage numbers of
  \<open>pqrs/hid/usage.hpp\<close>; a table is searched front to back for a usage, and by name through a
  perfect hash of the same pairs.
\<close>

subsection \<open>Tables\<close>

definition key_code_pairs :: "(string \<times> int) list" where
  "key_code_pairs =
     [(''left_option'', 226), (''left_command'', 227), (''right_option'', 230),
      (''right_command'', 231), (''japanese_eisuu'', 145), (''japanese_kana'', 144),
      (''japanese_pc_nfer'', 139), (''japanese_pc_xfer'', 138), (''japanese_pc_katakana'', 136),
      (''vk_none'', 0), (''a'', 4), (''b'', 5), (''c'', 6), (''d'', 7), (''e'', 8), (''f'', 9),
      (''g'', 10), (''h'', 11), (''i'', 12), (''j'', 13), (''k'', 14), (''l'', 15), (''m'', 16),
      (''n'', 17), (''o'', 18), (''p'', 19), (''q'', 20), (''r'', 21), (''s'', 22), (''t'', 23),
      (''u'', 24), (''v'', 25), (''w'', 26), (''x'', 27), (''y'', 28), (''z'', 29), (''1'', 30),
      (''2'', 31), (''3'', 32), (''4'', 33), (''5'', 34), (''6'', 35), (''7'', 36), (''8'', 37),
      (''9'', 38), (''0'', 39), (''return_or_enter'', 40), (''escape'', 41),
      (''delete_or_backspace'', 42), (''tab'', 43), (''spacebar'', 44), (''hyphen'', 45),
      (''equal_sign'', 46), (''open_bracket'', 47), (''close_bracket'', 48), (''backslash'', 49),
      (''non_us_pound'', 50), (''semicolon'', 51), (''quote'', 52),
      (''grave_accent_and_tilde'', 53), (''comma'', 54), (''period'', 55), (''slash'', 56),
      (''caps_lock'', 57), (''f1'', 58), (''f2'', 59), (''f3'', 60), (''f4'', 61), (''f5'', 62),
      (''f6'', 63), (''f7'', 64), (''f8'', 65), (''f9'', 66), (''f10'', 67), (''f11'', 68),
      (''f12'', 69), (''print_screen'', 70), (''scroll_lock'', 71), (''pause'', 72),
      (''insert'', 73), (''home'', 74), (''page_up'', 75), (''delete_forward'', 76),
      (''end'', 77), (''page_down'', 78), (''right_arrow'', 79), (''left_arrow'', 80),
      (''down_arrow'', 81), (''up_arrow'', 82), (''keypad_num_lock'', 83),
      (''keypad_slash'', 84), (''keypad_asterisk'', 85), (''keypad_hyphen'', 86),
      (''keypad_plus'', 87), (''keypad_enter'', 88), (''keypad_1'', 89), (''keypad_2'', 90),
      (''keypad_3'', 91), (''keypad_4'', 92), (''keypad_5'', 93), (''keypad_6'', 94),
      (''keypad_7'', 95), (''keypad_8'', 96), (''keypad_9'', 97), (''keypad_0'', 98),
      (''keypad_period'', 99), (''non_us_backslash'', 100), (''application'', 101),
      (''power'', 102), (''keypad_equal_sign'', 103), (''f13'', 104), (''f14'', 105),
      (''f15'', 106), (''f16'', 107), (''f17'', 108), (''f18'', 109), (''f19'', 110),
      (''f20'', 111), (''f21'', 112), (''f22'', 113), (''f23'', 114), (''f24'', 115),
      (''execute'', 116), (''help'', 117), (''menu'', 118), (''select'', 119), (''stop'', 120),
      (''again'', 121), (''undo'', 122), (''cut'', 123), (''copy'', 124), (''paste'', 125),
      (''find'', 126), (''mute'', 127), (''volume_down'', 129), (''volume_up'', 128),
      (''locking_caps_lock'', 130), (''locking_num_lock'', 131), (''locking_scroll_lock'', 132),
      (''keypad_comma'', 133), (''keypad_equal_sign_as400'', 134), (''international1'', 135),
      (''international2'', 136), (''international3'', 137), (''international4'', 138),
      (''international5'', 139), (''international6'', 140), (''international7'', 141),
      (''international8'', 142), (''international9'', 143), (''lang1'', 144), (''lang2'', 145),
      (''lang3'', 146), (''lang4'', 147), (''lang5'', 148), (''lang6'', 149), (''lang7'', 150),
      (''lang8'', 151), (''lang9'', 152), (''alternate_erase'', 153),
      (''sys_req_or_attention'', 154), (''cancel'', 155), (''clear'', 156), (''prior'', 157),
      (''return'', 158), (''separator'', 159), (''out'', 160), (''oper'', 161),
      (''clear_or_again'', 162), (''cr_sel_or_props'', 163), (''ex_sel'', 164),
      (''left_control'', 224), (''left_shift'', 225), (''left_alt'', 226), (''left_gui'', 227),
      (''right_control'', 228), (''right_shift'', 229), (''right_alt'', 230), (''right_gui'', 231)]"

definition other_usage_page_pairs :: "(string \<times> usage_pair) list" where
  "other_usage_page_pairs =
     [(''mute'', mk_pair 12 226),
      (''volume_decrement'', mk_pair 12 234),
      (''volume_increment'', mk_pair 12 233),
      (''display_brightness_decrement'', mk_pair 12 112),
      (''display_brightness_increment'', mk_pair 12 111),
      (''eject'', mk_pair 12 184),
      (''fastforward'', mk_pair 12 179),
      (''play_or_pause'', mk_pair 12 205),
      (''rewind'', mk_pair 12 180),
      (''vk_consumer_brightness_down'', mk_pair 12 112),
      (''vk_consumer_brightness_up'', mk_pair 12 111),
      (''vk_consumer_next'', mk_pair 12 179),
      (''vk_consumer_play'', mk_pair 12 205),
      (''vk_consumer_previous'', mk_pair 12 180),
      (''apple_display_brightness_decrement'', mk_pair 65281 33),
      (''apple_display_brightness_increment'', mk_pair 65281 32),
      (''dashboard'', mk_pair 65281 2),
      (''launchpad'', mk_pair 65281 4),
      (''mission_control'', mk_pair 65281 16),
      (''vk_dashboard'', mk_pair 65281 2),
      (''vk_launchpad'', mk_pair 65281 4),
      (''vk_mission_control'', mk_pair 65281 16),
      (''apple_top_case_display_brightness_decrement'', mk_pair 255 5),
      (''apple_top_case_display_brightness_increment'', mk_pair 255 4),
      (''fn'', mk_pair 255 3),
      (''illumination_decrement'', mk_pair 255 9),
      (''illumination_increment'', mk_pair 255 8),
      (''vk_consumer_illumination_down'', mk_pair 255 9),
      (''vk_consumer_illumination_up'', mk_pair 255 8)]"

definition consumer_pairs :: "(string \<times> int) list" where
  "consumer_pairs =
     [(''dictation'', 207), (''microphone'', 4), (''power'', 48), (''menu'', 64),
      (''menu_pick'', 65), (''menu_up'', 66), (''menu_down'', 67), (''menu_left'', 68),
      (''menu_right'', 69), (''menu_escape'', 70), (''menu_value_increase'', 71),
      (''menu_value_decrease'', 72), (''data_on_screen'', 96), (''closed_caption'', 97),
      (''closed_caption_select'', 98), (''vcr_or_tv'', 99), (''broadcast_mode'', 100),
      (''snapshot'', 101), (''still'', 102), (''picture_in_picture_toggle'', 103),
      (''picture_in_picture_swap'', 104), (''red_menu_button'', 105),
      (''green_menu_button'', 106), (''blue_menu_button'', 107), (''yellow_menu_button'', 108),
      (''aspect'', 109), (''three_dimensional_mode_select'', 110),
      (''display_brightness_increment'', 111), (''display_brightness_decrement'', 112),
      (''selection'', 128), (''fast_forward'', 179), (''rewind'', 180),
      (''scan_next_track'', 181), (''scan_previous_track'', 182), (''stop'', 183),
      (''eject'', 184), (''play_or_pause'', 205), (''voice_command'', 207), (''mute'', 226),
      (''bass_boost'', 229), (''loudness'', 231), (''volume_increment'', 233),
      (''volume_decrement'', 234), (''bass_increment'', 338), (''bass_decrement'', 339),
      (''al_consumer_control_configuration'', 387), (''al_word_processor'', 388),
      (''al_text_editor'', 389), (''al_spreadsheet'', 390), (''al_graphics_editor'', 391),
      (''al_presentation_app'', 392), (''al_database_app'', 393), (''al_email_reader'', 394),
      (''al_newsreader'', 395), (''al_voicemail'', 396), (''al_contacts_or_address_book'', 397),
      (''al_Calendar_Or_Schedule'', 398), (''al_task_or_project_manager'', 399),
      (''al_log_or_journal_or_timecard'', 400), (''al_checkbook_or_finance'', 401),
      (''al_calculator'', 402), (''al_a_or_v_capture_or_playback'', 403),
      (''al_local_machine_browser'', 404), (''al_lan_or_wan_browser'', 405),
      (''al_internet_browser'', 406), (''al_remote_networking_or_isp_connect'', 407),
      (''al_network_conference'', 408), (''al_network_chat'', 409),
      (''al_telephony_or_dialer'', 410), (''al_logon'', 411), (''al_logoff'', 412),
      (''al_logon_or_logoff'', 413), (''al_terminal_lock_or_screensaver'', 414),
      (''al_control_panel'', 415), (''al_command_line_processor_or_run'', 416),
      (''al_process_or_task_manager'', 417), (''al_select_task_or_application'', 418),
      (''al_next_task_or_application'', 419), (''al_previous_task_or_application'', 420),
      (''al_preemptive_halt_task_or_application'', 421), (''al_integrated_help_center'', 422),
      (''al_documents'', 423), (''al_thesaurus'', 424), (''al_dictionary'', 425),
      (''al_desktop'', 426), (''al_spell_check'', 427), (''al_grammer_check'', 428),
      (''al_wireless_status'', 429), (''al_keyboard_layout'', 430),
      (''al_virus_protection'', 431), (''al_encryption'', 432), (''al_screen_saver'', 433),
      (''al_alarms'', 434), (''al_clock'', 435), (''al_file_browser'', 436),
      (''al_power_status'', 437), (''al_image_browser'', 438), (''al_audio_browser'', 439),
      (''al_movie_browser'', 440), (''al_digital_rights_manager'', 441),
      (''al_digital_wallet'', 442), (''al_instant_messaging'', 444),
      (''al_oem_feature_browser'', 445), (''al_oem_help'', 446), (''al_online_community'', 447),
      (''al_entertainment_content_browser'', 448), (''al_online_shopping_browswer'', 449),
      (''al_smart_card_information_or_help'', 450),
      (''al_market_monitor_or_finance_browser'', 451),
      (''al_customized_corporate_news_browser'', 452), (''al_online_activity_browswer'', 453),
      (''al_research_or_search_browswer'', 454), (''al_audio_player'', 455),
      (''al_message_status'', 456), (''al_contact_sync'', 457), (''al_navigation'', 458),
      (''al_contextaware_desktop_assistant'', 459), (''ac_search'', 545), (''ac_home'', 547),
      (''ac_back'', 548), (''ac_forward'', 549), (''ac_refresh'', 551), (''ac_bookmarks'', 554),
      (''ac_zoom_in'', 557), (''ac_zoom_out'', 558), (''ac_keyboard_layout_select'', 669),
      (''ac_desktop_show_all_windows'', 671), (''ac_soft_key_left'', 672),
      (''ac_desktop_show_all_applications'', 674), (''fastforward'', 179)]"

definition apple_vendor_keyboard_pairs :: "(string \<times> int) list" where
  "apple_vendor_keyboard_pairs =
     [(''mission_control'', 16), (''spotlight'', 1), (''dashboard'', 2), (''function'', 3),
      (''launchpad'', 4), (''expose_all'', 16), (''expose_desktop'', 17),
      (''brightness_up'', 32), (''brightness_down'', 33), (''language'', 48)]"

definition apple_vendor_top_case_pairs :: "(string \<times> int) list" where
  "apple_vendor_top_case_pairs =
     [(''keyboard_fn'', 3), (''brightness_up'', 4), (''brightness_down'', 5),
      (''video_mirror'', 6), (''illumination_toggle'', 7), (''illumination_up'', 8),
      (''illumination_down'', 9)]"

definition generic_desktop_pairs :: "(string \<times> int) list" where
  "generic_desktop_pairs =
     [(''system_sleep'', 130), (''system_app_menu'', 134), (''dpad_up'', 144),
      (''dpad_down'', 145), (''dpad_right'', 146), (''dpad_left'', 147), (''do_not_disturb'', 155)]"

text \<open>The 255 buttons \<open>button1\<close> to \<open>button255\<close>.\<close>

definition pointing_button_pairs :: "(string \<times> int) list" where
  "pointing_button_pairs = map (\<lambda>n. (''button'' @ show_nat n, int n)) [1..<256]"

subsection \<open>Searching a table\<close>

definition find_pair :: "(string \<times> int) list \<Rightarrow> int \<Rightarrow> (string \<times> int) option" where
  "find_pair ps u = find (\<lambda>(n, v). v = u) ps"

definition make_name :: "(string \<times> int) list \<Rightarrow> int \<Rightarrow> string" where
  "make_name ps u = (case find_pair ps u of Some (n, _) \<Rightarrow> n | None \<Rightarrow> ''unsupported'')"

definition find_usage :: "(string \<times> int) list \<Rightarrow> string \<Rightarrow> int option" where
  "find_usage ps n = map_of ps n"

definition table_usage_pair :: "(string \<times> int) list \<Rightarrow> int \<Rightarrow> string \<Rightarrow> json \<Rightarrow> json_error + usage_pair" where
  "table_usage_pair ps page key j =
     (case j of
        J_string n \<Rightarrow>
          (case find_usage ps n of
             Some u \<Rightarrow> Inr (mk_pair page u)
           | None \<Rightarrow> Inl (Unmarshal_error_dump (''unknown '' @ key @ '': `'') j ''`''))
      | J_int n \<Rightarrow> Inr (mk_pair page (get_int32 j))
      | J_float r \<Rightarrow> Inr (mk_pair page (get_int32 j))
      | _ \<Rightarrow> Inl (Unmarshal_error_dump (quoted key @ '' must be string or number, but is `'') j ''`''))"

definition key_code_usage_pair :: "string \<Rightarrow> json \<Rightarrow> json_error + usage_pair" where
  "key_code_usage_pair key j =
     (case j of
        J_string n \<Rightarrow>
          (case map_of other_usage_page_pairs n of
             Some p \<Rightarrow> Inr p
           | None \<Rightarrow> table_usage_pair key_code_pairs page_keyboard_or_keypad key j)
      | _ \<Rightarrow> table_usage_pair key_code_pairs page_keyboard_or_keypad key j)"

definition keyboard_a :: int where "keyboard_a = 4"
definition keyboard_reserved :: int where "keyboard_reserved = 65535"

definition key_code_target :: "int \<Rightarrow> int \<Rightarrow> bool" where
  "key_code_target p u \<longleftrightarrow> p = page_keyboard_or_keypad \<and> keyboard_a \<le> u \<and> u < keyboard_reserved"

definition table_target :: "(string \<times> int) list \<Rightarrow> int \<Rightarrow> int \<Rightarrow> int \<Rightarrow> bool" where
  "table_target ps page p u \<longleftrightarrow> p = page \<and> find_pair ps u \<noteq> None"

definition mse_target :: "int \<Rightarrow> int \<Rightarrow> bool" where
  "mse_target p u \<longleftrightarrow>
     key_code_target p u \<or> table_target consumer_pairs page_consumer p u \<or>
     table_target apple_vendor_keyboard_pairs page_apple_vendor_keyboard p u \<or>
     table_target apple_vendor_top_case_pairs page_apple_vendor_top_case p u \<or>
     p = page_button \<or> table_target generic_desktop_pairs page_generic_desktop p u"

definition mse_to_json :: "momentary_switch_event \<Rightarrow> json" where
  "mse_to_json e =
     (let p = usage_page (get_usage_pair e); u = usage (get_usage_pair e) in
      if key_code_target p u then J_object [(''key_code'', J_string (make_name key_code_pairs u))]
      else if table_target consumer_pairs page_consumer p u then
        J_object [(''consumer_key_code'', J_string (make_name consumer_pairs u))]
      else if table_target apple_vendor_keyboard_pairs page_apple_vendor_keyboard p u then
        J_object [(''apple_vendor_keyboard_key_code'', J_string (make_name apple_vendor_keyboard_pairs u))]
      else if table_target apple_vendor_top_case_pairs page_apple_vendor_top_case p u then
        J_object [(''apple_vendor_top_case_key_code'', J_string (make_name apple_vendor_top_case_pairs u))]
      else if p = page_button then
        J_object [(''pointing_button'', J_string (make_name pointing_button_pairs u))]
      else if table_target generic_desktop_pairs page_generic_desktop p u then
        J_object [(''generic_desktop'', J_string (make_name generic_desktop_pairs u))]
      else J_string ''unsupported'')"

definition mse_item :: "string \<Rightarrow> json \<Rightarrow> momentary_switch_event \<Rightarrow> json_error + momentary_switch_event" where
  "mse_item k v e =
     and_then
       (if k = ''key_code'' then key_code_usage_pair k v
        else if k = ''consumer_key_code'' then table_usage_pair consumer_pairs page_consumer k v
        else if k = ''apple_vendor_keyboard_key_code'' then
          table_usage_pair apple_vendor_keyboard_pairs page_apple_vendor_keyboard k v
        else if k = ''apple_vendor_top_case_key_code'' then
          table_usage_pair apple_vendor_top_case_pairs page_apple_vendor_top_case k v
        else if k = ''pointing_button'' then table_usage_pair pointing_button_pairs page_button k v
        else if k = ''generic_desktop'' then table_usage_pair generic_desktop_pairs page_generic_desktop k v
        else Inl (unknown_key k))
       (\<lambda>p. Inr (Mse p))"

definition mse_from_json :: "json \<Rightarrow> json_error + momentary_switch_event" where
  "mse_from_json j =
     and_then (requires_object ''json'' j)
       (\<lambda>xs. fold_items mse_item xs (Mse (mk_pair page_undefined usage_undefined)))"

subsection \<open>Names determine usages\<close>

lemma find_pair_name:
  assumes "distinct (map fst ps)" "find_pair ps u \<noteq> None"
  shows "find_usage ps (make_name ps u) = Some u"
proof -
  obtain n v where f: "find_pair ps u = Some (n, v)" using assms(2) by auto
  then have "(n, v) \<in> set ps" "v = u"
    by (auto simp: find_pair_def find_Some_iff in_set_conv_nth)
  then show ?thesis using assms(1) f by (simp add: make_name_def find_usage_def)
qed

lemma table_round_trip:
  assumes "distinct (map fst ps)" "find_pair ps u \<noteq> None"
  shows "table_usage_pair ps page key (J_string (make_name ps u)) = Inr (mk_pair page u)"
  using find_pair_name [OF assms] by (simp add: table_usage_pair_def)

lemma distinct_tables:
  "distinct (map fst consumer_pairs)" "distinct (map fst apple_vendor_keyboard_pairs)"
  "distinct (map fst apple_vendor_top_case_pairs)" "distinct (map fst generic_desktop_pairs)"
  unfolding consumer_pairs_def apple_vendor_keyboard_pairs_def
    apple_vendor_top_case_pairs_def generic_desktop_pairs_def list.map fst_conv
  by (simp_all only: distinct.simps list.set insert_iff empty_iff list.inject char.inject simp_thms list.distinct)

lemma distinct_key_code: "distinct (map fst key_code_pairs)"
  unfolding key_code_pairs_def list.map fst_conv
  by (simp only: distinct.simps list.set insert_iff empty_iff list.inject char.inject simp_thms list.distinct)

lemma show_nat_inj: "show_nat m = show_nat n \<Longrightarrow> m = n"
  by (metis read_show_nat)

lemma distinct_pointing_buttons: "distinct (map fst pointing_button_pairs)"
  by (simp add: pointing_button_pairs_def distinct_map inj_on_def show_nat_inj o_def)

lemma find_pointing_button: "1 \<le> u \<and> u < 256 \<Longrightarrow> find_pair pointing_button_pairs u \<noteq> None"
proof -
  assume "1 \<le> u \<and> u < 256"
  then have "(''button'' @ show_nat (nat u), u) \<in> set pointing_button_pairs"
    unfolding pointing_button_pairs_def by (auto intro!: image_eqI [of _ _ "nat u"])
  then show ?thesis by (auto simp: find_pair_def find_None_iff)
qed

subsection \<open>Writing and reading events\<close>

lemma other_usage_pages_disjoint:
  "list_all (\<lambda>n. n = ''mute'' \<or> n \<notin> set (map fst key_code_pairs)) (map fst other_usage_page_pairs)"
  unfolding key_code_pairs_def other_usage_page_pairs_def list.map fst_conv
  by (simp only: list.pred_inject list.set insert_iff empty_iff list.inject char.inject simp_thms list.distinct)

lemma mute_usage: "find_usage key_code_pairs ''mute'' = Some 127"
  by (simp add: find_usage_def key_code_pairs_def)

lemma key_code_round_trip:
  assumes "find_pair key_code_pairs u \<noteq> None" "u \<noteq> 127"
  shows "key_code_usage_pair k (J_string (make_name key_code_pairs u)) = Inr (mk_pair page_keyboard_or_keypad u)"
proof -
  let ?n = "make_name key_code_pairs u"
  have n: "find_usage key_code_pairs ?n = Some u" by (rule find_pair_name [OF distinct_key_code assms(1)])
  have "map_of other_usage_page_pairs ?n = None"
  proof (rule ccontr)
    assume "map_of other_usage_page_pairs ?n \<noteq> None"
    then have "?n \<in> set (map fst other_usage_page_pairs)" by (simp add: map_of_eq_None_iff)
    then have "?n = ''mute'' \<or> map_of key_code_pairs ?n = None"
      using other_usage_pages_disjoint unfolding list_all_iff map_of_eq_None_iff set_map by blast
    then show False using n mute_usage assms(2) by (auto simp: find_usage_def)
  qed
  then show ?thesis
    using table_round_trip [OF distinct_key_code assms(1)] by (simp add: key_code_usage_pair_def)
qed

text \<open>
  The events whose JSON form names them: a page with a table and a usage in it. The key code
  \<open>mute\<close> is the exception, its name is also that of the consumer key.
\<close>

definition named_event :: "momentary_switch_event \<Rightarrow> bool" where
  "named_event e \<longleftrightarrow>
     (let p = usage_page (get_usage_pair e); u = usage (get_usage_pair e) in
      p = page_keyboard_or_keypad \<and> keyboard_a \<le> u \<and> u < keyboard_reserved \<and> u \<noteq> 127 \<and>
        find_pair key_code_pairs u \<noteq> None \<or>
      table_target consumer_pairs page_consumer p u \<or>
      table_target apple_vendor_keyboard_pairs page_apple_vendor_keyboard p u \<or>
      table_target apple_vendor_top_case_pairs page_apple_vendor_top_case p u \<or>
      p = page_button \<and> 1 \<le> u \<and> u < 256 \<or>
      table_target generic_desktop_pairs page_generic_desktop p u)"

lemma mse_json: "named_event e \<Longrightarrow> mse_from_json (mse_to_json e) = Inr e"
  using table_round_trip [OF distinct_tables(1), of "usage (get_usage_pair e)"]
    table_round_trip [OF distinct_tables(2), of "usage (get_usage_pair e)"]
    table_round_trip [OF distinct_tables(3), of "usage (get_usage_pair e)"]
    table_round_trip [OF distinct_tables(4), of "usage (get_usage_pair e)"]
    table_round_trip [OF distinct_pointing_buttons find_pointing_button, of "usage (get_usage_pair e)"]
    key_code_round_trip [of "usage (get_usage_pair e)"]
  by (cases e; cases "get_usage_pair e")
     (auto simp: named_event_def mse_to_json_def mse_from_json_def mse_item_def Let_def
        key_code_target_def table_target_def page_defs mk_pair_def)

lemma mute_reads_as_consumer_key:
  "mse_from_json (mse_to_json (Mse (mk_pair page_keyboard_or_keypad 127))) = Inr (Mse (mk_pair page_consumer 226))"
proof -
  have "make_name key_code_pairs 127 = ''mute''"
    by (simp add: make_name_def find_pair_def key_code_pairs_def)
  moreover have "map_of other_usage_page_pairs ''mute'' = Some (mk_pair 12 226)"
    by (simp add: other_usage_page_pairs_def)
  ultimately show ?thesis
    by (simp add: mse_to_json_def mse_from_json_def mse_item_def Let_def key_code_target_def
        key_code_usage_pair_def keyboard_a_def keyboard_reserved_def page_defs)
qed

subsection \<open>Properties\<close>

text \<open>
  Every key, consumer key, vendor key, pointing button and generic desktop usage with a name is
  written by that name and reads back as the same usage of the same page. The key code \<open>mute\<close> is
  excepted.
\<close>

theorem key_names_round_trip:
  assumes "named_event e"
  shows "mse_from_json (mse_to_json e) = Inr e"
  using assms by (rule mse_json)

theorem key_names_round_trip_witness:
  "mse_from_json (mse_to_json (Mse (mk_pair page_button 3))) = Inr (Mse (mk_pair page_button 3))"
  by (rule key_names_round_trip) (simp add: named_event_def page_defs)

text \<open>
  The keyboard usage \<open>mute\<close> (127) is written as a key code whose name is read as the consumer key
  \<open>mute\<close>: the event changes its page.
\<close>

theorem mute_changes_its_page:
  "mse_from_json (mse_to_json (Mse (mk_pair page_keyboard_or_keypad 127))) = Inr (Mse (mk_pair page_consumer 226))"
  by (rule mute_reads_as_consumer_key)

end
