(* ===== verification/Machines.thy ===== *)
theory Machines
  imports Prelude
begin

text \<open>
  The interface every stateful component of the development meets: an initial state, one step per
  operation and an invariant all admissible operations keep; and, where the component has an
  abstract specification, an abstraction function under which each step is an abstract step. The
  component theories interpret these locales on the model's own operations and read the facts about
  whole runs off them.
\<close>

definition run_ops :: "('op \<Rightarrow> 's \<Rightarrow> 's) \<Rightarrow> 'op list \<Rightarrow> 's \<Rightarrow> 's" where
  "run_ops step ops s = foldl (\<lambda>s op. step op s) s ops"

lemma run_ops_simps [simp]:
  "run_ops step [] s = s"
  "run_ops step (op # ops) s = run_ops step ops (step op s)"
  "run_ops step (ops @ ops') s = run_ops step ops' (run_ops step ops s)"
  by (simp_all add: run_ops_def)

locale machine =
  fixes step :: "'op \<Rightarrow> 's \<Rightarrow> 's"
    and init :: 's
    and inv :: "'s \<Rightarrow> bool"
    and ok :: "'op \<Rightarrow> bool"
  assumes inv_init: "inv init"
    and inv_step: "inv s \<Longrightarrow> ok op \<Longrightarrow> inv (step op s)"
begin

lemma inv_run: "inv s \<Longrightarrow> \<forall>op\<in>set ops. ok op \<Longrightarrow> inv (run_ops step ops s)"
  by (induction ops arbitrary: s) (auto intro: inv_step)

lemma reachable_inv: "\<forall>op\<in>set ops. ok op \<Longrightarrow> inv (run_ops step ops init)"
  by (rule inv_run [OF inv_init])

end

locale refined_machine = machine +
  fixes abs :: "'s \<Rightarrow> 'a"
    and astep :: "'op \<Rightarrow> 'a \<Rightarrow> 'a"
  assumes refine: "inv s \<Longrightarrow> ok op \<Longrightarrow> abs (step op s) = astep op (abs s)"
begin

lemma refine_run:
  "inv s \<Longrightarrow> \<forall>op\<in>set ops. ok op \<Longrightarrow> abs (run_ops step ops s) = run_ops astep ops (abs s)"
proof (induction ops arbitrary: s)
  case (Cons op ops)
  then show ?case by (auto simp: refine inv_step)
qed simp

lemma refine_reachable:
  "\<forall>op\<in>set ops. ok op \<Longrightarrow> abs (run_ops step ops init) = run_ops astep ops (abs init)"
  by (rule refine_run [OF inv_init])

end

text \<open>
  Termination of a driver loop that repeats an operation while it reports progress: each step that
  reports progress decreases a measure, so as many rounds as the measure are enough.
\<close>

fun drive :: "nat \<Rightarrow> ('s \<Rightarrow> bool \<times> 's) \<Rightarrow> 's \<Rightarrow> 's option" where
  "drive 0 f s = None"
| "drive (Suc n) f s = (case f s of (True, s') \<Rightarrow> drive n f s' | (False, s') \<Rightarrow> Some s')"

locale driven =
  fixes f :: "'s \<Rightarrow> bool \<times> 's"
    and size_of :: "'s \<Rightarrow> nat"
    and inv :: "'s \<Rightarrow> bool"
  assumes progress: "inv s \<Longrightarrow> f s = (True, s') \<Longrightarrow> size_of s' < size_of s"
    and keeps: "inv s \<Longrightarrow> f s = (b, s') \<Longrightarrow> inv s'"
begin

lemma drive_terminates: "inv s \<Longrightarrow> size_of s < n \<Longrightarrow> \<exists>s'. drive n f s = Some s' \<and> inv s'"
proof (induction n arbitrary: s)
  case (Suc n)
  obtain b s1 where fs: "f s = (b, s1)" by fastforce
  show ?case
  proof (cases b)
    case True
    with fs Suc.prems progress have "size_of s1 < n" by fastforce
    with Suc.IH keeps [OF Suc.prems(1) fs] fs True show ?thesis by simp
  next
    case False
    with fs keeps [OF Suc.prems(1) fs] show ?thesis by simp
  qed
qed simp

lemma drive_more: "drive n f s = Some s' \<Longrightarrow> n \<le> m \<Longrightarrow> drive m f s = Some s'"
proof (induction n arbitrary: s m)
  case (Suc n)
  then obtain m' where "m = Suc m'" "n \<le> m'" by (cases m) auto
  with Suc show ?case by (auto split: prod.splits bool.splits)
qed simp

end

end
