(* ===== verification/Devices.thy ===== *)
theory Devices
  imports ValueTypes Machines "HOL-Library.AList"
begin

text \<open>
  Device identity: \<open>krbn::device_identifiers\<close>, \<open>krbn::device_properties\<close> with the flags its
  constructor derives, the order \<open>compare\<close>, \<open>device_properties_manager\<close> and \<open>connected_devices\<close>.
  A device is queried through IOKit, which is outside of the program: the constructor's parameters
  are the start of the model.
\<close>

record device_identifiers =
  di_json :: "(string \<times> json) list"
  di_vendor_id :: "64 word"
  di_product_id :: "64 word"
  di_is_keyboard :: bool
  di_is_pointing_device :: bool
  di_is_game_pad :: bool
  di_is_consumer :: bool
  di_is_virtual_device :: bool
  di_device_address :: string

definition di_same :: "device_identifiers \<Rightarrow> device_identifiers \<Rightarrow> bool" where
  "di_same a b \<longleftrightarrow> di_vendor_id a = di_vendor_id b \<and> di_product_id a = di_product_id b \<and>
     di_is_keyboard a = di_is_keyboard b \<and> di_is_pointing_device a = di_is_pointing_device b \<and>
     di_is_game_pad a = di_is_game_pad b \<and> di_is_consumer a = di_is_consumer b \<and>
     di_is_virtual_device a = di_is_virtual_device b \<and> di_device_address a = di_device_address b"

definition default_identifiers :: device_identifiers where
  "default_identifiers = \<lparr>di_json = [], di_vendor_id = 0, di_product_id = 0, di_is_keyboard = False,
     di_is_pointing_device = False, di_is_game_pad = False, di_is_consumer = False,
     di_is_virtual_device = False, di_device_address = []\<rparr>"

text \<open>The constructor from parameters keeps the address only of a device without vendor and product.\<close>

definition mk_identifiers :: "device_identifiers \<Rightarrow> device_identifiers" where
  "mk_identifiers p = p\<lparr>di_json := [],
     di_device_address := (if di_vendor_id p = 0 \<and> di_product_id p = 0 then di_device_address p else [])\<rparr>"

definition di_empty :: "device_identifiers \<Rightarrow> bool" where
  "di_empty d \<longleftrightarrow> di_vendor_id d = 0 \<and> di_product_id d = 0 \<and> \<not> di_is_keyboard d \<and>
     \<not> di_is_pointing_device d \<and> \<not> di_is_game_pad d \<and> \<not> di_is_consumer d \<and>
     \<not> di_is_virtual_device d \<and> di_device_address d = []"

definition identifiers_item :: "string \<Rightarrow> json \<Rightarrow> device_identifiers \<Rightarrow> json_error + device_identifiers" where
  "identifiers_item k v d =
     (if k = ''vendor_id'' then and_then (requires_number (quoted k) v) (\<lambda>v. Inr (d\<lparr>di_vendor_id := word_of_int (number_of v)\<rparr>))
      else if k = ''product_id'' then and_then (requires_number (quoted k) v) (\<lambda>v. Inr (d\<lparr>di_product_id := word_of_int (number_of v)\<rparr>))
      else if k = ''device_address'' then and_then (requires_string (quoted k) v) (\<lambda>s. Inr (d\<lparr>di_device_address := s\<rparr>))
      else if k = ''is_keyboard'' then and_then (requires_boolean (quoted k) v) (\<lambda>b. Inr (d\<lparr>di_is_keyboard := b\<rparr>))
      else if k = ''is_pointing_device'' then
        and_then (requires_boolean (quoted k) v) (\<lambda>b. Inr (d\<lparr>di_is_pointing_device := b\<rparr>))
      else if k = ''is_game_pad'' then and_then (requires_boolean (quoted k) v) (\<lambda>b. Inr (d\<lparr>di_is_game_pad := b\<rparr>))
      else if k = ''is_consumer'' then and_then (requires_boolean (quoted k) v) (\<lambda>b. Inr (d\<lparr>di_is_consumer := b\<rparr>))
      else if k = ''is_virtual_device'' then
        and_then (requires_boolean (quoted k) v) (\<lambda>b. Inr (d\<lparr>di_is_virtual_device := b\<rparr>))
      else Inr d)"

definition identifiers_from_json :: "json \<Rightarrow> json_error + device_identifiers" where
  "identifiers_from_json j =
     and_then (requires_object ''json'' j)
       (\<lambda>xs. fold_items identifiers_item xs (default_identifiers\<lparr>di_json := xs\<rparr>))"

definition obj_keep :: "string \<Rightarrow> bool \<Rightarrow> json \<Rightarrow> (string \<times> json) list \<Rightarrow> (string \<times> json) list" where
  "obj_keep k b v xs = (if b then obj_set k v xs else obj_erase k xs)"

definition identifiers_to_json :: "device_identifiers \<Rightarrow> json" where
  "identifiers_to_json d = J_object
     (obj_keep ''device_address'' (di_device_address d \<noteq> []) (J_string (di_device_address d))
     (obj_keep ''is_virtual_device'' (di_is_virtual_device d) (J_bool (di_is_virtual_device d))
     (obj_keep ''is_consumer'' (di_is_consumer d) (J_bool (di_is_consumer d))
     (obj_keep ''is_game_pad'' (di_is_game_pad d) (J_bool (di_is_game_pad d))
     (obj_keep ''is_pointing_device'' (di_is_pointing_device d) (J_bool (di_is_pointing_device d))
     (obj_keep ''is_keyboard'' (di_is_keyboard d) (J_bool (di_is_keyboard d))
     (obj_keep ''product_id'' (di_product_id d \<noteq> 0) (J_int (uint (di_product_id d)))
     (obj_keep ''vendor_id'' (di_vendor_id d \<noteq> 0) (J_int (uint (di_vendor_id d))) (di_json d)))))))))"

definition to_normalized_json :: "device_identifiers \<Rightarrow> json" where
  "to_normalized_json d = identifiers_to_json (mk_identifiers d)"

subsection \<open>Reading identifiers back\<close>

lemma obj_keep_simps [simp]:
  "obj_keep k True v xs = obj_set k v xs" "obj_keep k False v xs = obj_erase k xs"
  by (simp_all add: obj_keep_def)

lemma obj_erase_simps [simp]:
  "obj_erase k [] = []"
  "obj_erase k ((k', v) # xs) = (if k' = k then obj_erase k xs else (k', v) # obj_erase k xs)"
  by (simp_all add: obj_erase_def)

text \<open>The reader on the kept fields, one field at a time.\<close>

lemma obj_set_mid:
  "\<forall>x\<in>set xs. fst x \<noteq> k \<and> \<not> key_less k (fst x) \<Longrightarrow> \<forall>y\<in>set ys. fst y \<noteq> k \<and> key_less k (fst y)
     \<Longrightarrow> obj_set k v (xs @ ys) = xs @ (k, v) # ys"
proof (induction xs)
  case Nil
  then show ?case by (cases ys) auto
qed auto

lemma obj_keep_mid:
  assumes "\<forall>x\<in>set xs. fst x \<noteq> k \<and> \<not> key_less k (fst x)" "\<forall>y\<in>set ys. fst y \<noteq> k \<and> key_less k (fst y)"
  shows "obj_keep k b v (xs @ ys) = xs @ (if b then [(k, v)] else []) @ ys"
proof -
  have "obj_erase k (xs @ ys) = xs @ ys"
    unfolding obj_erase_def using assms by (intro filter_True) auto
  then show ?thesis using obj_set_mid [OF assms] by (cases b) auto
qed

lemmas obj_keep_front = obj_keep_mid [of "[]", simplified]

definition opt_item :: "bool \<Rightarrow> string \<Rightarrow> json \<Rightarrow> (string \<times> json) list" where
  "opt_item b k v = (if b then [(k, v)] else [])"

lemma set_opt_item: "x \<in> set (opt_item b k v) \<Longrightarrow> fst x = k"
  by (auto simp: opt_item_def split: if_splits)

lemma normalized_json_eq:
  "to_normalized_json d = J_object
     (opt_item (di_vendor_id d = 0 \<and> di_product_id d = 0 \<and> di_device_address d \<noteq> []) ''device_address''
        (J_string (di_device_address d)) @
      opt_item (di_is_consumer d) ''is_consumer'' (J_bool (di_is_consumer d)) @
      opt_item (di_is_game_pad d) ''is_game_pad'' (J_bool (di_is_game_pad d)) @
      opt_item (di_is_keyboard d) ''is_keyboard'' (J_bool (di_is_keyboard d)) @
      opt_item (di_is_pointing_device d) ''is_pointing_device'' (J_bool (di_is_pointing_device d)) @
      opt_item (di_is_virtual_device d) ''is_virtual_device'' (J_bool (di_is_virtual_device d)) @
      opt_item (di_product_id d \<noteq> 0) ''product_id'' (J_int (uint (di_product_id d))) @
      opt_item (di_vendor_id d \<noteq> 0) ''vendor_id'' (J_int (uint (di_vendor_id d))))"
proof -
  note keep = obj_keep_front [folded opt_item_def] obj_keep_mid [folded opt_item_def]
  let ?V = "opt_item (di_vendor_id d \<noteq> 0) ''vendor_id'' (J_int (uint (di_vendor_id d)))"
  let ?P = "opt_item (di_product_id d \<noteq> 0) ''product_id'' (J_int (uint (di_product_id d)))"
  let ?K = "opt_item (di_is_keyboard d) ''is_keyboard'' (J_bool (di_is_keyboard d))"
  let ?M = "opt_item (di_is_pointing_device d) ''is_pointing_device'' (J_bool (di_is_pointing_device d))"
  let ?G = "opt_item (di_is_game_pad d) ''is_game_pad'' (J_bool (di_is_game_pad d))"
  let ?C = "opt_item (di_is_consumer d) ''is_consumer'' (J_bool (di_is_consumer d))"
  let ?D = "opt_item (di_is_virtual_device d) ''is_virtual_device'' (J_bool (di_is_virtual_device d))"
  have 1: "obj_keep ''vendor_id'' (di_vendor_id d \<noteq> 0) (J_int (uint (di_vendor_id d))) [] = ?V"
    by (subst keep(1)) simp_all
  have 2: "obj_keep ''product_id'' (di_product_id d \<noteq> 0) (J_int (uint (di_product_id d))) ?V = ?P @ ?V"
    by (subst keep(1)) (auto dest!: set_opt_item)
  have 3: "obj_keep ''is_keyboard'' (di_is_keyboard d) (J_bool (di_is_keyboard d)) (?P @ ?V) = ?K @ ?P @ ?V"
    by (subst keep(1)) (auto dest!: set_opt_item)
  have 4: "obj_keep ''is_pointing_device'' (di_is_pointing_device d) (J_bool (di_is_pointing_device d))
      (?K @ ?P @ ?V) = ?K @ ?M @ ?P @ ?V"
    by (subst keep(2)) (auto dest!: set_opt_item)
  have 5: "obj_keep ''is_game_pad'' (di_is_game_pad d) (J_bool (di_is_game_pad d)) (?K @ ?M @ ?P @ ?V) =
      ?G @ ?K @ ?M @ ?P @ ?V"
    by (subst keep(1)) (auto dest!: set_opt_item)
  have 6: "obj_keep ''is_consumer'' (di_is_consumer d) (J_bool (di_is_consumer d)) (?G @ ?K @ ?M @ ?P @ ?V) =
      ?C @ ?G @ ?K @ ?M @ ?P @ ?V"
    by (subst keep(1)) (auto dest!: set_opt_item)
  have 7: "obj_keep ''is_virtual_device'' (di_is_virtual_device d) (J_bool (di_is_virtual_device d))
      ((?C @ ?G @ ?K @ ?M) @ ?P @ ?V) = (?C @ ?G @ ?K @ ?M) @ ?D @ ?P @ ?V"
    by (subst keep(2)) (auto dest!: set_opt_item)
  have 8: "obj_keep ''device_address'' b v (?C @ ?G @ ?K @ ?M @ ?D @ ?P @ ?V) =
      opt_item b ''device_address'' v @ ?C @ ?G @ ?K @ ?M @ ?D @ ?P @ ?V" for b v
    by (subst keep(1)) (auto dest!: set_opt_item)
  show ?thesis
    unfolding to_normalized_json_def identifiers_to_json_def
    using 1 2 3 4 5 6 7 8 by (simp add: mk_identifiers_def) (simp add: opt_item_def)
qed

lemma identifiers_item_steps:
  "fold_items identifiers_item (opt_item b ''device_address'' (J_string t) @ xs) s =
     fold_items identifiers_item xs (s\<lparr>di_device_address := (if b then t else di_device_address s)\<rparr>)"
  "fold_items identifiers_item (opt_item b ''is_consumer'' (J_bool c) @ xs) s =
     fold_items identifiers_item xs (s\<lparr>di_is_consumer := (if b then c else di_is_consumer s)\<rparr>)"
  "fold_items identifiers_item (opt_item b ''is_game_pad'' (J_bool c) @ xs) s =
     fold_items identifiers_item xs (s\<lparr>di_is_game_pad := (if b then c else di_is_game_pad s)\<rparr>)"
  "fold_items identifiers_item (opt_item b ''is_keyboard'' (J_bool c) @ xs) s =
     fold_items identifiers_item xs (s\<lparr>di_is_keyboard := (if b then c else di_is_keyboard s)\<rparr>)"
  "fold_items identifiers_item (opt_item b ''is_pointing_device'' (J_bool c) @ xs) s =
     fold_items identifiers_item xs (s\<lparr>di_is_pointing_device := (if b then c else di_is_pointing_device s)\<rparr>)"
  "fold_items identifiers_item (opt_item b ''is_virtual_device'' (J_bool c) @ xs) s =
     fold_items identifiers_item xs (s\<lparr>di_is_virtual_device := (if b then c else di_is_virtual_device s)\<rparr>)"
  "fold_items identifiers_item (opt_item b ''product_id'' (J_int (uint n)) @ xs) s =
     fold_items identifiers_item xs (s\<lparr>di_product_id := (if b then n else di_product_id s)\<rparr>)"
  "fold_items identifiers_item (opt_item b ''vendor_id'' (J_int (uint n))) s =
     Inr (s\<lparr>di_vendor_id := (if b then n else di_vendor_id s)\<rparr>)"
  by (cases b; cases s; simp add: opt_item_def identifiers_item_def)+

lemma identifiers_normalized_json:
  "\<exists>d'. identifiers_from_json (to_normalized_json d) = Inr d' \<and> di_same d' (mk_identifiers d)"
proof -
  have "identifiers_from_json (to_normalized_json d) =
    Inr \<lparr>di_json = (case to_normalized_json d of J_object xs \<Rightarrow> xs | _ \<Rightarrow> []),
      di_vendor_id = (if di_vendor_id d \<noteq> 0 then di_vendor_id d else 0),
      di_product_id = (if di_product_id d \<noteq> 0 then di_product_id d else 0),
      di_is_keyboard = (if di_is_keyboard d then di_is_keyboard d else False),
      di_is_pointing_device = (if di_is_pointing_device d then di_is_pointing_device d else False),
      di_is_game_pad = (if di_is_game_pad d then di_is_game_pad d else False),
      di_is_consumer = (if di_is_consumer d then di_is_consumer d else False),
      di_is_virtual_device = (if di_is_virtual_device d then di_is_virtual_device d else False),
      di_device_address = (if di_vendor_id d = 0 \<and> di_product_id d = 0 \<and> di_device_address d \<noteq> []
        then di_device_address d else [])\<rparr>"
    unfolding normalized_json_eq identifiers_from_json_def default_identifiers_def
    by (simp only: requires_object.simps and_then_simps identifiers_item_steps json.case
        device_identifiers.update_convs device_identifiers.select_convs)
  then show ?thesis by (auto simp: di_same_def mk_identifiers_def)
qed

lemma normalized_json_identity:
  "to_normalized_json d = to_normalized_json e \<longleftrightarrow> di_same (mk_identifiers d) (mk_identifiers e)"
proof
  assume eq: "to_normalized_json d = to_normalized_json e"
  obtain d' e' where "identifiers_from_json (to_normalized_json d) = Inr d'" "di_same d' (mk_identifiers d)"
      "identifiers_from_json (to_normalized_json e) = Inr e'" "di_same e' (mk_identifiers e)"
    using identifiers_normalized_json by blast
  moreover from this eq have "d' = e'" by simp
  ultimately show "di_same (mk_identifiers d) (mk_identifiers e)" by (simp add: di_same_def)
next
  assume s: "di_same (mk_identifiers d) (mk_identifiers e)"
  have eqs: "di_vendor_id d = di_vendor_id e" "di_product_id d = di_product_id e"
      "di_is_keyboard d = di_is_keyboard e" "di_is_pointing_device d = di_is_pointing_device e"
      "di_is_game_pad d = di_is_game_pad e" "di_is_consumer d = di_is_consumer e"
      "di_is_virtual_device d = di_is_virtual_device e"
    using s by (simp_all add: di_same_def mk_identifiers_def)
  show "to_normalized_json d = to_normalized_json e"
  proof (cases "di_vendor_id e = 0 \<and> di_product_id e = 0")
    case True
    then have "di_device_address d = di_device_address e"
      using s eqs by (simp add: di_same_def mk_identifiers_def)
    then show ?thesis by (simp only: normalized_json_eq eqs)
  next
    case False
    then have none: "opt_item (di_vendor_id e = 0 \<and> di_product_id e = 0 \<and> di_device_address x \<noteq> []) k v = []" for x k v
      by (simp only: opt_item_def) auto
    show ?thesis unfolding normalized_json_eq eqs none by (rule refl)
  qed
qed

subsection \<open>Device properties\<close>

record device_properties =
  dp_device_id :: device_id
  dp_device_identifiers :: device_identifiers
  dp_location_id :: "64 word"
  dp_manufacturer :: string
  dp_product :: string
  dp_serial_number :: string
  dp_transport :: string
  dp_is_built_in_keyboard :: bool
  dp_is_built_in_pointing_device :: bool
  dp_is_built_in_touch_bar :: bool
  dp_is_apple :: bool

record initialization_parameters =
  ip_device_id :: device_id
  ip_vendor_id :: "64 word"
  ip_product_id :: "64 word"
  ip_location_id :: "64 word"
  ip_manufacturer :: string
  ip_product :: string
  ip_serial_number :: string
  ip_transport :: string
  ip_device_address :: string
  ip_is_keyboard :: bool
  ip_is_pointing_device :: bool
  ip_is_game_pad :: bool
  ip_is_consumer :: bool

fun contains_at :: "string \<Rightarrow> string \<Rightarrow> bool" where
  "contains_at p [] = (p = [])"
| "contains_at p (c # cs) = (take (length p) (c # cs) = p \<or> contains_at p cs)"

definition starts_with :: "string \<Rightarrow> string \<Rightarrow> bool" where
  "starts_with s p = (take (length p) s = p)"

definition is_karabiner_virtual_hid_device :: "string \<Rightarrow> string \<Rightarrow> bool" where
  "is_karabiner_virtual_hid_device manufacturer product \<longleftrightarrow>
     manufacturer = ''pqrs.org'' \<and>
     (starts_with product ''Karabiner DriverKit VirtualHIDKeyboard'' \<or>
      starts_with product ''Karabiner DriverKit VirtualHIDPointing'')"

definition mk_device_properties :: "initialization_parameters \<Rightarrow> device_properties" where
  "mk_device_properties p =
     (let virtual_device = is_karabiner_virtual_hid_device (ip_manufacturer p) (ip_product p);
          ids = mk_identifiers \<lparr>di_json = [], di_vendor_id = ip_vendor_id p, di_product_id = ip_product_id p,
            di_is_keyboard = ip_is_keyboard p, di_is_pointing_device = ip_is_pointing_device p,
            di_is_game_pad = ip_is_game_pad p, di_is_consumer = ip_is_consumer p,
            di_is_virtual_device = virtual_device, di_device_address = ip_device_address p\<rparr>;
          touch_bar = (ip_vendor_id p = 0x05ac \<and> ip_product_id p = 0x8600);
          manufacturer = (if touch_bar \<and> ip_manufacturer p = [] then ''Apple Inc.'' else ip_manufacturer p);
          product = (if touch_bar \<and> ip_product p = [] then ''Apple Internal Touch Bar'' else ip_product p);
          is_touch_bar = (product = ''Apple Internal Touch Bar'' \<or> product = ''TouchBarUserDevice'');
          internal = contains_at ''Apple Internal '' product;
          fifo = (ip_transport p = ''FIFO'')
      in \<lparr>dp_device_id = ip_device_id p, dp_device_identifiers = ids, dp_location_id = ip_location_id p,
          dp_manufacturer = manufacturer, dp_product = product,
          dp_serial_number = ip_serial_number p, dp_transport = ip_transport p,
          dp_is_built_in_keyboard =
            (\<not> is_touch_bar \<and> internal \<and> ip_is_keyboard p \<and> \<not> ip_is_pointing_device p \<or>
             fifo \<and> ip_is_keyboard p),
          dp_is_built_in_pointing_device =
            (\<not> is_touch_bar \<and> internal \<and> \<not> ip_is_keyboard p \<and> ip_is_pointing_device p \<or>
             fifo \<and> ip_is_pointing_device p),
          dp_is_built_in_touch_bar = is_touch_bar,
          dp_is_apple = (\<not> virtual_device \<and>
            (ip_vendor_id p = 0x05ac \<or> ip_vendor_id p = 0x004c \<or> internal \<or>
             manufacturer = ''Apple'' \<and> product = ''Headset''))\<rparr>)"

text \<open>\<open>std::string::compare\<close> is the order of the bytes.\<close>

definition dp_compare :: "device_properties \<Rightarrow> device_properties \<Rightarrow> bool" where
  "dp_compare a b =
     (let i = dp_device_identifiers a; j = dp_device_identifiers b in
      if dp_product a \<noteq> dp_product b then key_less (dp_product a) (dp_product b)
      else if dp_manufacturer a \<noteq> dp_manufacturer b then key_less (dp_manufacturer a) (dp_manufacturer b)
      else if di_is_keyboard i \<noteq> di_is_keyboard j then di_is_keyboard i
      else if di_is_pointing_device i \<noteq> di_is_pointing_device j then di_is_pointing_device i
      else if di_is_game_pad i \<noteq> di_is_game_pad j then di_is_game_pad i
      else if di_is_consumer i \<noteq> di_is_consumer j then di_is_consumer i
      else if dp_device_id a \<noteq> dp_device_id b then dp_device_id a < dp_device_id b
      else False)"

lemma key_less_irrefl [simp]: "\<not> key_less s s"
  by (induction s) auto

lemma key_less_trans: "key_less a b \<Longrightarrow> key_less b c \<Longrightarrow> key_less a c"
proof (induction a b arbitrary: c rule: key_less.induct)
  case (2 x xs)
  then show ?case by (cases c) auto
next
  case (3 x xs y ys)
  then show ?case by (cases c) (auto split: if_split_asm)
qed auto

lemma key_less_linear: "a \<noteq> b \<Longrightarrow> key_less a b \<or> key_less b a"
proof (induction a b rule: key_less.induct)
  case (1 a)
  then show ?case by (cases a) auto
next
  case (3 x xs y ys)
  have "x \<noteq> y \<Longrightarrow> (of_char x :: nat) < of_char y \<or> (of_char y :: nat) < of_char x"
    by (metis linorder_neqE_nat of_char_eq_iff)
  then show ?case using 3 by auto
qed auto

lemma key_less_asym: "key_less a b \<Longrightarrow> \<not> key_less b a"
  using key_less_trans by fastforce

text \<open>The order \<open>std::sort\<close> needs: irreflexive, transitive, and incomparability is transitive.\<close>

definition compare_key :: "device_properties \<Rightarrow> string \<times> string \<times> bool \<times> bool \<times> bool \<times> bool \<times> device_id" where
  "compare_key a = (let i = dp_device_identifiers a in
     (dp_product a, dp_manufacturer a, di_is_keyboard i, di_is_pointing_device i, di_is_game_pad i,
      di_is_consumer i, dp_device_id a))"

lemma dp_compare_irrefl: "\<not> dp_compare a a"
  by (simp add: dp_compare_def Let_def)

lemma dp_compare_total: "compare_key a \<noteq> compare_key b \<Longrightarrow> dp_compare a b \<or> dp_compare b a"
  using key_less_linear [of "dp_product a" "dp_product b"]
    key_less_linear [of "dp_manufacturer a" "dp_manufacturer b"]
  by (simp add: dp_compare_def compare_key_def Let_def) (metis linorder_neqE)

lemma dp_compare_equal: "compare_key a = compare_key b \<Longrightarrow> \<not> dp_compare a b"
  by (simp add: dp_compare_def compare_key_def Let_def)

lemma dp_compare_asym: "dp_compare a b \<Longrightarrow> \<not> dp_compare b a"
  using key_less_asym by (auto simp: dp_compare_def Let_def split: if_split_asm)

text \<open>Transitivity, one component of the order at a time.\<close>

definition lex_step :: "('k \<Rightarrow> 'k \<Rightarrow> bool) \<Rightarrow> ('a \<Rightarrow> 'k) \<Rightarrow> ('a \<Rightarrow> 'a \<Rightarrow> bool) \<Rightarrow> 'a \<Rightarrow> 'a \<Rightarrow> bool" where
  "lex_step lt f r a b = (if f a \<noteq> f b then lt (f a) (f b) else r a b)"

lemma transp_lex_step:
  assumes "\<And>x y z. lt x y \<Longrightarrow> lt y z \<Longrightarrow> x \<noteq> y \<Longrightarrow> y \<noteq> z \<Longrightarrow> x \<noteq> z \<and> lt x z" "transp r"
  shows "transp (lex_step lt f r)"
proof (rule transpI)
  fix a b c assume ab: "lex_step lt f r a b" and bc: "lex_step lt f r b c"
  show "lex_step lt f r a c"
    using ab bc assms(1) [of "f a" "f b" "f c"] transpD [OF assms(2), of a b c]
    by (auto simp: lex_step_def split: if_split_asm)
qed

lemma dp_compare_lex:
  "dp_compare = lex_step key_less dp_product (lex_step key_less dp_manufacturer
     (lex_step (\<lambda>p q. p) (di_is_keyboard \<circ> dp_device_identifiers)
     (lex_step (\<lambda>p q. p) (di_is_pointing_device \<circ> dp_device_identifiers)
     (lex_step (\<lambda>p q. p) (di_is_game_pad \<circ> dp_device_identifiers)
     (lex_step (\<lambda>p q. p) (di_is_consumer \<circ> dp_device_identifiers)
     (lex_step (<) dp_device_id (\<lambda>_ _. False)))))))"
  by (intro ext) (simp add: dp_compare_def lex_step_def Let_def)

lemma dp_compare_trans: "dp_compare a b \<Longrightarrow> dp_compare b c \<Longrightarrow> dp_compare a c"
proof -
  have "transp dp_compare"
    unfolding dp_compare_lex
    by (intro transp_lex_step) (auto simp: transp_def dest: key_less_trans key_less_asym)
  then show "dp_compare a b \<Longrightarrow> dp_compare b c \<Longrightarrow> dp_compare a c" by (rule transpD)
qed

subsection \<open>The JSON form of device properties\<close>

definition default_parameters :: initialization_parameters where
  "default_parameters = \<lparr>ip_device_id = 0, ip_vendor_id = 0, ip_product_id = 0, ip_location_id = 0,
     ip_manufacturer = [], ip_product = [], ip_serial_number = [], ip_transport = [],
     ip_device_address = [], ip_is_keyboard = False, ip_is_pointing_device = False,
     ip_is_game_pad = False, ip_is_consumer = False\<rparr>"

definition device_properties_item ::
    "string \<Rightarrow> json \<Rightarrow> initialization_parameters \<Rightarrow> json_error + initialization_parameters" where
  "device_properties_item k v p =
     (if k = ''device_id'' then
        and_then (requires_number (quoted k) v) (\<lambda>v. Inr (p\<lparr>ip_device_id := word_of_int (number_of v)\<rparr>))
      else if k = ''device_identifiers'' then
        and_then (identifiers_from_json v) (\<lambda>d. Inr (p\<lparr>ip_vendor_id := di_vendor_id d,
          ip_product_id := di_product_id d, ip_device_address := di_device_address d,
          ip_is_keyboard := di_is_keyboard d, ip_is_pointing_device := di_is_pointing_device d,
          ip_is_game_pad := di_is_game_pad d, ip_is_consumer := di_is_consumer d\<rparr>))
      else if k = ''location_id'' then
        and_then (requires_number (quoted k) v) (\<lambda>v. Inr (p\<lparr>ip_location_id := word_of_int (number_of v)\<rparr>))
      else if k = ''manufacturer'' then
        and_then (requires_string (quoted k) v) (\<lambda>s. Inr (p\<lparr>ip_manufacturer := s\<rparr>))
      else if k = ''product'' then
        and_then (requires_string (quoted k) v) (\<lambda>s. Inr (p\<lparr>ip_product := s\<rparr>))
      else if k = ''serial_number'' then
        and_then (requires_string (quoted k) v) (\<lambda>s. Inr (p\<lparr>ip_serial_number := s\<rparr>))
      else if k = ''transport'' then
        and_then (requires_string (quoted k) v) (\<lambda>s. Inr (p\<lparr>ip_transport := s\<rparr>))
      else Inr p)"

definition device_properties_from_json :: "json \<Rightarrow> json_error + device_properties" where
  "device_properties_from_json j =
     and_then (requires_object ''json'' j) (\<lambda>xs.
       and_then (fold_items device_properties_item xs default_parameters) (\<lambda>p. Inr (mk_device_properties p)))"

definition device_properties_to_json :: "device_properties \<Rightarrow> json" where
  "device_properties_to_json d = J_object
     (obj_set_opt ''is_apple'' (if dp_is_apple d then Some (J_bool True) else None)
     (obj_set_opt ''is_built_in_touch_bar'' (if dp_is_built_in_touch_bar d then Some (J_bool True) else None)
     (obj_set_opt ''is_built_in_pointing_device''
        (if dp_is_built_in_pointing_device d then Some (J_bool True) else None)
     (obj_set_opt ''is_built_in_keyboard'' (if dp_is_built_in_keyboard d then Some (J_bool True) else None)
     (obj_set_opt ''transport'' (if dp_transport d \<noteq> [] then Some (J_string (dp_transport d)) else None)
     (obj_set_opt ''serial_number'' (if dp_serial_number d \<noteq> [] then Some (J_string (dp_serial_number d)) else None)
     (obj_set_opt ''product'' (if dp_product d \<noteq> [] then Some (J_string (dp_product d)) else None)
     (obj_set_opt ''manufacturer'' (if dp_manufacturer d \<noteq> [] then Some (J_string (dp_manufacturer d)) else None)
     (obj_set_opt ''location_id'' (if dp_location_id d \<noteq> 0 then Some (J_int (uint (dp_location_id d))) else None)
     (obj_set ''device_identifiers'' (identifiers_to_json (dp_device_identifiers d))
     (obj_set ''device_id'' (J_int (uint (dp_device_id d))) [])))))))))))"

text \<open>What the constructor guarantees of the flags it derives.\<close>

lemma touch_bar_no_internal_keyboard:
  "dp_is_built_in_touch_bar (mk_device_properties p) \<Longrightarrow> ip_transport p \<noteq> ''FIFO'' \<Longrightarrow>
     \<not> dp_is_built_in_keyboard (mk_device_properties p) \<and>
     \<not> dp_is_built_in_pointing_device (mk_device_properties p)"
  by (auto simp: mk_device_properties_def Let_def)

lemma virtual_device_not_apple:
  "di_is_virtual_device (dp_device_identifiers (mk_device_properties p)) \<Longrightarrow>
     \<not> dp_is_apple (mk_device_properties p)"
  by (auto simp: mk_device_properties_def Let_def mk_identifiers_def)

subsection \<open>The devices of the environment and the connected devices\<close>

text \<open>The table of the devices lists each device once.\<close>

type_synonym device_properties_manager = "(device_id \<times> device_properties) list"

definition dpm_insert :: "device_id \<Rightarrow> device_properties \<Rightarrow> device_properties_manager \<Rightarrow> device_properties_manager" where
  "dpm_insert k v m = AList.update k v m"

definition dpm_erase :: "device_id \<Rightarrow> device_properties_manager \<Rightarrow> device_properties_manager" where
  "dpm_erase k m = AList.delete k m"

definition dpm_clear :: "device_properties_manager \<Rightarrow> device_properties_manager" where
  "dpm_clear m = []"

definition dpm_find :: "device_properties_manager \<Rightarrow> device_id \<Rightarrow> device_properties option" where
  "dpm_find m k = map_of m k"

lemma dpm_find_simps [simp]:
  "dpm_find (dpm_insert k v m) k' = (if k' = k then Some v else dpm_find m k')"
  "dpm_find (dpm_erase k m) k' = (if k' = k then None else dpm_find m k')"
  "dpm_find (dpm_clear m) k' = None"
  by (simp_all add: dpm_insert_def dpm_erase_def dpm_clear_def dpm_find_def update_conv' delete_conv')

lemma dpm_keys_distinct:
  "distinct (map fst m) \<Longrightarrow> distinct (map fst (dpm_insert k v m))"
  "distinct (map fst m) \<Longrightarrow> distinct (map fst (dpm_erase k m))"
  by (simp_all add: dpm_insert_def dpm_erase_def distinct_update distinct_delete)

text \<open>
  \<open>connected_devices\<close> keeps its vector sorted; \<open>std::sort\<close> of a sorted vector with one new element
  at its end puts that element at its place.
\<close>

fun insert_device :: "device_properties \<Rightarrow> device_properties list \<Rightarrow> device_properties list" where
  "insert_device d [] = [d]"
| "insert_device d (x # xs) = (if dp_compare d x then d # x # xs else x # insert_device d xs)"

definition find_device :: "device_identifiers \<Rightarrow> device_properties list \<Rightarrow> device_properties option" where
  "find_device i ds = find (\<lambda>d. di_same (dp_device_identifiers d) i) ds"

definition push_back_device :: "device_properties \<Rightarrow> device_properties list \<Rightarrow> device_properties list" where
  "push_back_device d ds =
     (if find_device (dp_device_identifiers d) ds \<noteq> None then ds else insert_device d ds)"

definition devices_inv :: "device_properties list \<Rightarrow> bool" where
  "devices_inv ds \<longleftrightarrow> sorted_wrt (\<lambda>a b. \<not> dp_compare b a) ds \<and>
     sorted_wrt (\<lambda>a b. \<not> di_same (dp_device_identifiers a) (dp_device_identifiers b)) ds"

lemma set_insert_device: "set (insert_device d ds) = insert d (set ds)"
  by (induction ds) auto

lemma dp_compare_negative_trans: "\<not> dp_compare b a \<Longrightarrow> \<not> dp_compare c b \<Longrightarrow> \<not> dp_compare c a"
  using dp_compare_total [of a b] dp_compare_total [of b c] dp_compare_trans [of c a b]
    dp_compare_trans [of b c a] dp_compare_equal [of c a] dp_compare_asym [of c a]
  by (cases "compare_key a = compare_key b"; cases "compare_key b = compare_key c")
     (auto dest: dp_compare_trans dp_compare_asym)

lemma di_same_sym: "di_same a b = di_same b a"
  by (auto simp: di_same_def)

lemma insert_device_sorted:
  "sorted_wrt (\<lambda>a b. \<not> dp_compare b a) ds \<Longrightarrow> sorted_wrt (\<lambda>a b. \<not> dp_compare b a) (insert_device d ds)"
proof (induction ds)
  case (Cons x xs)
  show ?case
  proof (cases "dp_compare d x")
    case True
    then have "\<not> dp_compare x d" by (rule dp_compare_asym)
    then show ?thesis using Cons.prems True dp_compare_negative_trans by auto
  next
    case False
    then show ?thesis using Cons by (auto simp: set_insert_device)
  qed
qed simp

lemma insert_device_unique:
  "sorted_wrt (\<lambda>a b. \<not> di_same (dp_device_identifiers a) (dp_device_identifiers b)) ds \<Longrightarrow>
   \<forall>x\<in>set ds. \<not> di_same (dp_device_identifiers x) (dp_device_identifiers d) \<Longrightarrow>
   sorted_wrt (\<lambda>a b. \<not> di_same (dp_device_identifiers a) (dp_device_identifiers b)) (insert_device d ds)"
  by (induction ds) (auto simp: set_insert_device di_same_sym)

lemma devices_inv_push: "devices_inv ds \<Longrightarrow> devices_inv (push_back_device d ds)"
  unfolding devices_inv_def push_back_device_def find_device_def
  using insert_device_sorted insert_device_unique by (auto simp: find_None_iff)

lemma find_pushed_device:
  "\<exists>x. find_device (dp_device_identifiers d) (push_back_device d ds) = Some x"
proof (cases "find_device (dp_device_identifiers d) ds")
  case None
  have "find_device (dp_device_identifiers d) (insert_device d ds) \<noteq> None"
    by (auto simp: find_device_def find_None_iff set_insert_device di_same_def)
  with None show ?thesis by (simp add: push_back_device_def)
qed (simp add: push_back_device_def)

subsection \<open>Classifying a device\<close>

text \<open>
  What IOKit says of a device: the usages of a page it conforms to and its descriptive properties.
\<close>

record hid_device =
  hd_conforms_to :: "int \<Rightarrow> int \<Rightarrow> bool"
  hd_vendor_id :: "64 word option"
  hd_product_id :: "64 word option"
  hd_location_id :: "64 word option"
  hd_manufacturer :: "string option"
  hd_product :: "string option"
  hd_serial_number :: "string option"
  hd_transport :: "string option"
  hd_device_address :: "string option"

definition value_or :: "'a \<Rightarrow> 'a option \<Rightarrow> 'a" where
  "value_or d v = (case v of Some x \<Rightarrow> x | None \<Rightarrow> d)"

definition make_device_properties :: "device_id \<Rightarrow> hid_device \<Rightarrow> device_properties" where
  "make_device_properties d h =
     (let conforms = hd_conforms_to h;
          keyboard = conforms page_generic_desktop 6;
          pointing = (conforms page_generic_desktop 1 \<or> conforms page_generic_desktop 2);
          game_pad = (conforms page_generic_desktop 4 \<or> conforms page_generic_desktop 5);
          consumer = (\<not> keyboard \<and> \<not> pointing \<and> \<not> game_pad \<and> conforms page_consumer 1);
          keyboard' = (if \<not> keyboard \<and> \<not> pointing \<and> \<not> game_pad \<and> \<not> consumer \<and> conforms page_consumer 3
                       then True else keyboard)
      in mk_device_properties \<lparr>ip_device_id = d, ip_vendor_id = value_or 0 (hd_vendor_id h),
           ip_product_id = value_or 0 (hd_product_id h), ip_location_id = value_or 0 (hd_location_id h),
           ip_manufacturer = value_or [] (hd_manufacturer h), ip_product = value_or [] (hd_product h),
           ip_serial_number = value_or [] (hd_serial_number h), ip_transport = value_or [] (hd_transport h),
           ip_device_address = value_or [] (hd_device_address h), ip_is_keyboard = keyboard',
           ip_is_pointing_device = pointing, ip_is_game_pad = game_pad, ip_is_consumer = consumer\<rparr>)"

subsection \<open>Properties\<close>

text \<open>
  C34. Two devices are identified by the same normalized JSON exactly if the program takes them for
  the same device, and the normalized JSON of every device reads back as that device: the address
  counts only for a device with neither vendor nor product id.
\<close>

theorem device_identity_is_its_json:
  "(to_normalized_json d = to_normalized_json e \<longleftrightarrow> di_same (mk_identifiers d) (mk_identifiers e)) \<and>
   (\<exists>d'. identifiers_from_json (to_normalized_json d) = Inr d' \<and> di_same d' (mk_identifiers d))"
  using normalized_json_identity identifiers_normalized_json by blast

definition first_of :: "'a option \<Rightarrow> 'a option \<Rightarrow> 'a option" where
  "first_of x y = (case x of Some a \<Rightarrow> Some a | None \<Rightarrow> y)"

lemma first_of_simps [simp]:
  "first_of (Some a) y = Some a" "first_of None y = y" "first_of x None = x"
  "first_of (first_of x y) z = first_of x (first_of y z)"
  by (cases x; simp add: first_of_def)+

lemma find_device_simps [simp]:
  "find_device i [] = None"
  "find_device i (d # ds) = (if di_same (dp_device_identifiers d) i then Some d else find_device i ds)"
  by (simp_all add: find_device_def)

lemma find_insert_device:
  assumes "\<forall>x\<in>set ds. \<not> di_same (dp_device_identifiers x) (dp_device_identifiers d)"
  shows "find_device i (insert_device d ds) = first_of (find_device i ds) (find_device i [d])"
  using assms
proof (induction ds)
  case (Cons x ds)
  have "di_same (dp_device_identifiers d) i \<Longrightarrow> y \<in> set (x # ds) \<Longrightarrow> \<not> di_same (dp_device_identifiers y) i" for y
    using Cons.prems by (auto simp: di_same_def)
  then have "di_same (dp_device_identifiers d) i \<Longrightarrow> find_device i (x # ds) = None"
    by (simp add: find_device_def find_None_iff)
  then show ?case using Cons by (auto split: if_splits)
qed simp

lemma find_push_back_device:
  "find_device i (push_back_device d ds) = first_of (find_device i ds) (find_device i [d])"
proof (cases "find_device (dp_device_identifiers d) ds")
  case None
  then have "\<forall>x\<in>set ds. \<not> di_same (dp_device_identifiers x) (dp_device_identifiers d)"
    by (auto simp: find_device_def find_None_iff)
  then show ?thesis
    by (subst push_back_device_def) (simp add: None find_insert_device)
next
  case (Some y)
  then have "y \<in> set ds" "di_same (dp_device_identifiers y) (dp_device_identifiers d)"
    by (auto simp: find_device_def find_Some_iff)
  then have "di_same (dp_device_identifiers d) i \<Longrightarrow> find_device i ds \<noteq> None"
    by (auto simp: find_device_def find_None_iff di_same_def)
  with Some show ?thesis by (auto simp: push_back_device_def)
qed

interpretation cd: machine push_back_device "[]" devices_inv "\<lambda>_. True"
  by unfold_locales (simp_all add: devices_inv_def [of "[]"] devices_inv_push)

lemma find_pushed:
  "find_device i (run_ops push_back_device ds xs) = first_of (find_device i xs) (find_device i ds)"
proof (induction ds arbitrary: xs)
  case (Cons d ds)
  show ?case by (cases "di_same (dp_device_identifiers d) i") (simp_all add: Cons find_push_back_device)
qed simp

text \<open>
  The list of connected devices, in whatever order devices are announced: it is sorted by
  \<open>compare\<close>, holds no device twice, and looking an identity up returns the first device announced
  with it.
\<close>

theorem connected_devices_correct:
  "sorted_wrt (\<lambda>a b. \<not> dp_compare b a) (run_ops push_back_device ds []) \<and>
   sorted_wrt (\<lambda>a b. \<not> di_same (dp_device_identifiers a) (dp_device_identifiers b))
     (run_ops push_back_device ds []) \<and>
   find_device i (run_ops push_back_device ds []) = find (\<lambda>d. di_same (dp_device_identifiers d) i) ds"
  using cd.reachable_inv [of ds] find_pushed [of i ds "[]"]
  by (simp add: devices_inv_def find_device_def)

text \<open>
  A device has at most the kinds it should: a consumer-control device is nothing else, a virtual
  device is never taken for Apple's, and the Touch Bar is no built-in keyboard or pointing device
  unless it is attached by SPI.
\<close>

theorem device_kinds:
  "let p = make_device_properties d h; i = dp_device_identifiers p
   in \<not> (di_is_consumer i \<and> (di_is_keyboard i \<or> di_is_pointing_device i \<or> di_is_game_pad i)) \<and>
      \<not> (di_is_virtual_device i \<and> dp_is_apple p) \<and>
      \<not> (dp_is_built_in_touch_bar p \<and> hd_transport h \<noteq> Some ''FIFO'' \<and>
         (dp_is_built_in_keyboard p \<or> dp_is_built_in_pointing_device p))"
  by (auto simp: make_device_properties_def mk_device_properties_def Let_def mk_identifiers_def value_or_def
      split: option.splits)

end
