(* ===== verification/Events.thy ===== *)
theory Events
  imports Devices SoftwareFunctions
begin

text \<open>
  \<open>krbn::event_queue::event\<close>, \<open>event_time_stamp\<close>, \<open>state\<close> and \<open>entry\<close>: what flows through the
  program. An event is a tag and a variant value; the getters return the value only if the tag and
  the alternative agree, \<open>get_if\<close> looks at the alternative alone.
\<close>

subsection \<open>Payloads\<close>

datatype detection_source = Source_none | Source_workspace | Source_ax_observer

record application =
  app_bundle_identifier :: "string option"
  app_bundle_path :: "string option"
  app_file_path :: "string option"
  app_pid :: "int option"
  app_detection_source :: detection_source

definition default_application :: application where
  "default_application = \<lparr>app_bundle_identifier = None, app_bundle_path = None, app_file_path = None,
     app_pid = None, app_detection_source = Source_none\<rparr>"

record input_source_properties =
  is_input_source_id :: "string option"
  is_localized_name :: "string option"
  is_input_mode_id :: "string option"
  is_languages :: "string list"
  is_first_language :: "string option"

definition default_input_source :: input_source_properties where
  "default_input_source = \<lparr>is_input_source_id = None, is_localized_name = None,
     is_input_mode_id = None, is_languages = [], is_first_language = None\<rparr>"

record input_source_specifier =
  iss_language :: "string option"
  iss_input_source_id :: "string option"
  iss_input_mode_id :: "string option"

record system_preferences_properties =
  sp_use_fkeys_as_standard_function_keys :: bool
  sp_scroll_direction_is_natural :: bool

record virtual_hid_devices_state =
  vs_keyboard_ready :: bool
  vs_pointing_ready :: bool

subsection \<open>Events\<close>

datatype event_tag =
    Tag_none | Tag_momentary_switch_event | Tag_pointing_motion | Tag_shell_command
  | Tag_send_user_command | Tag_select_input_source | Tag_set_variable | Tag_set_notification_message
  | Tag_mouse_key | Tag_sticky_modifier | Tag_software_function | Tag_stop_keyboard_repeat
  | Tag_device_keys_and_pointing_buttons_are_released | Tag_device_grabbed | Tag_device_ungrabbed
  | Tag_caps_lock_state_changed | Tag_pointing_device_event_from_event_tap
  | Tag_frontmost_application_changed | Tag_input_source_changed
  | Tag_system_preferences_properties_changed | Tag_virtual_hid_devices_state_changed

datatype event_value =
    V_momentary_switch_event momentary_switch_event
  | V_pointing_motion pointing_motion
  | V_int64 int
  | V_string string
  | V_json json
  | V_specifiers "input_source_specifier list"
  | V_set_variable set_variable
  | V_notification_message notification_message
  | V_mouse_key mouse_key
  | V_sticky_modifier modifier_flag sticky_modifier_type
  | V_software_function software_function
  | V_application application
  | V_input_source input_source_properties
  | V_device_properties device_properties
  | V_system_preferences system_preferences_properties
  | V_virtual_hid_devices_state virtual_hid_devices_state
  | V_monostate

record event =
  ev_type :: event_tag
  ev_value :: event_value

definition mk_event :: "event_tag \<Rightarrow> event_value \<Rightarrow> event" where
  "mk_event t v = \<lparr>ev_type = t, ev_value = v\<rparr>"

lemma mk_event_simps [simp]:
  "ev_type (mk_event t v) = t" "ev_value (mk_event t v) = v"
  "mk_event t v = mk_event t' v' \<longleftrightarrow> t = t' \<and> v = v'"
  by (simp_all add: mk_event_def)

definition event_none :: event where "event_none = mk_event Tag_none V_monostate"

definition mse_event :: "momentary_switch_event \<Rightarrow> event" where
  "mse_event e = mk_event Tag_momentary_switch_event (V_momentary_switch_event e)"

definition pointing_motion_event :: "pointing_motion \<Rightarrow> event" where
  "pointing_motion_event m = mk_event Tag_pointing_motion (V_pointing_motion m)"

definition make_virtual_event :: "event_tag \<Rightarrow> event" where
  "make_virtual_event t = mk_event t V_monostate"

definition make_stop_keyboard_repeat_event :: event where
  "make_stop_keyboard_repeat_event = make_virtual_event Tag_stop_keyboard_repeat"

definition make_device_keys_and_pointing_buttons_are_released_event :: event where
  "make_device_keys_and_pointing_buttons_are_released_event =
     make_virtual_event Tag_device_keys_and_pointing_buttons_are_released"

definition make_device_ungrabbed_event :: event where
  "make_device_ungrabbed_event = make_virtual_event Tag_device_ungrabbed"

definition make_pointing_device_event_from_event_tap_event :: event where
  "make_pointing_device_event_from_event_tap_event =
     make_virtual_event Tag_pointing_device_event_from_event_tap"

definition make_shell_command_event :: "string \<Rightarrow> event" where
  "make_shell_command_event s = mk_event Tag_shell_command (V_string s)"

definition make_send_user_command_event :: "json \<Rightarrow> event" where
  "make_send_user_command_event j = mk_event Tag_send_user_command (V_json j)"

definition make_select_input_source_event :: "input_source_specifier list \<Rightarrow> event" where
  "make_select_input_source_event s = mk_event Tag_select_input_source (V_specifiers s)"

definition make_set_variable_event :: "set_variable \<Rightarrow> event" where
  "make_set_variable_event v = mk_event Tag_set_variable (V_set_variable v)"

definition make_set_notification_message_event :: "notification_message \<Rightarrow> event" where
  "make_set_notification_message_event v = mk_event Tag_set_notification_message (V_notification_message v)"

definition make_mouse_key_event :: "mouse_key \<Rightarrow> event" where
  "make_mouse_key_event v = mk_event Tag_mouse_key (V_mouse_key v)"

definition make_sticky_modifier_event :: "modifier_flag \<Rightarrow> sticky_modifier_type \<Rightarrow> event" where
  "make_sticky_modifier_event m t = mk_event Tag_sticky_modifier (V_sticky_modifier m t)"

definition make_software_function_event :: "software_function \<Rightarrow> event" where
  "make_software_function_event v = mk_event Tag_software_function (V_software_function v)"

definition make_device_grabbed_event :: "device_properties \<Rightarrow> event" where
  "make_device_grabbed_event v = mk_event Tag_device_grabbed (V_device_properties v)"

definition make_caps_lock_state_changed_event :: "int \<Rightarrow> event" where
  "make_caps_lock_state_changed_event n = mk_event Tag_caps_lock_state_changed (V_int64 n)"

definition make_frontmost_application_changed_event :: "application \<Rightarrow> event" where
  "make_frontmost_application_changed_event v = mk_event Tag_frontmost_application_changed (V_application v)"

definition make_input_source_changed_event :: "input_source_properties \<Rightarrow> event" where
  "make_input_source_changed_event v = mk_event Tag_input_source_changed (V_input_source v)"

definition make_system_preferences_properties_changed_event :: "system_preferences_properties \<Rightarrow> event" where
  "make_system_preferences_properties_changed_event v =
     mk_event Tag_system_preferences_properties_changed (V_system_preferences v)"

definition make_virtual_hid_devices_state_changed_event :: "virtual_hid_devices_state \<Rightarrow> event" where
  "make_virtual_hid_devices_state_changed_event v =
     mk_event Tag_virtual_hid_devices_state_changed (V_virtual_hid_devices_state v)"

lemmas event_constructors =
  event_none_def mse_event_def pointing_motion_event_def make_virtual_event_def
  make_stop_keyboard_repeat_event_def make_device_keys_and_pointing_buttons_are_released_event_def
  make_device_ungrabbed_event_def make_pointing_device_event_from_event_tap_event_def
  make_shell_command_event_def make_send_user_command_event_def make_select_input_source_event_def
  make_set_variable_event_def make_set_notification_message_event_def make_mouse_key_event_def
  make_sticky_modifier_event_def make_software_function_event_def make_device_grabbed_event_def
  make_caps_lock_state_changed_event_def make_frontmost_application_changed_event_def
  make_input_source_changed_event_def make_system_preferences_properties_changed_event_def
  make_virtual_hid_devices_state_changed_event_def

subsection \<open>Getters\<close>

definition get_if_mse :: "event \<Rightarrow> momentary_switch_event option" where
  "get_if_mse e = (case ev_value e of V_momentary_switch_event m \<Rightarrow> Some m | _ \<Rightarrow> None)"

definition get_if_notification_message :: "event \<Rightarrow> notification_message option" where
  "get_if_notification_message e = (case ev_value e of V_notification_message m \<Rightarrow> Some m | _ \<Rightarrow> None)"

definition get_if_software_function :: "event \<Rightarrow> software_function option" where
  "get_if_software_function e = (case ev_value e of V_software_function m \<Rightarrow> Some m | _ \<Rightarrow> None)"

definition get_if_device_properties :: "event \<Rightarrow> device_properties option" where
  "get_if_device_properties e = (case ev_value e of V_device_properties m \<Rightarrow> Some m | _ \<Rightarrow> None)"

definition get_if_system_preferences :: "event \<Rightarrow> system_preferences_properties option" where
  "get_if_system_preferences e = (case ev_value e of V_system_preferences m \<Rightarrow> Some m | _ \<Rightarrow> None)"

definition get_if_virtual_hid_devices_state :: "event \<Rightarrow> virtual_hid_devices_state option" where
  "get_if_virtual_hid_devices_state e =
     (case ev_value e of V_virtual_hid_devices_state m \<Rightarrow> Some m | _ \<Rightarrow> None)"

definition get_pointing_motion :: "event \<Rightarrow> pointing_motion option" where
  "get_pointing_motion e =
     (if ev_type e = Tag_pointing_motion
      then case ev_value e of V_pointing_motion m \<Rightarrow> Some m | _ \<Rightarrow> None else None)"

definition get_integer_value :: "event \<Rightarrow> int option" where
  "get_integer_value e =
     (if ev_type e = Tag_caps_lock_state_changed
      then case ev_value e of V_int64 n \<Rightarrow> Some n | _ \<Rightarrow> None else None)"

definition get_shell_command :: "event \<Rightarrow> string option" where
  "get_shell_command e =
     (if ev_type e = Tag_shell_command then case ev_value e of V_string s \<Rightarrow> Some s | _ \<Rightarrow> None else None)"

definition get_user_command :: "event \<Rightarrow> json option" where
  "get_user_command e =
     (if ev_type e = Tag_send_user_command then case ev_value e of V_json j \<Rightarrow> Some j | _ \<Rightarrow> None else None)"

definition get_input_source_specifiers :: "event \<Rightarrow> input_source_specifier list option" where
  "get_input_source_specifiers e =
     (if ev_type e = Tag_select_input_source
      then case ev_value e of V_specifiers s \<Rightarrow> Some s | _ \<Rightarrow> None else None)"

definition get_set_variable :: "event \<Rightarrow> set_variable option" where
  "get_set_variable e =
     (if ev_type e = Tag_set_variable then case ev_value e of V_set_variable v \<Rightarrow> Some v | _ \<Rightarrow> None else None)"

definition get_mouse_key :: "event \<Rightarrow> mouse_key option" where
  "get_mouse_key e =
     (if ev_type e = Tag_mouse_key then case ev_value e of V_mouse_key v \<Rightarrow> Some v | _ \<Rightarrow> None else None)"

definition get_sticky_modifier :: "event \<Rightarrow> (modifier_flag \<times> sticky_modifier_type) option" where
  "get_sticky_modifier e =
     (if ev_type e = Tag_sticky_modifier
      then case ev_value e of V_sticky_modifier m t \<Rightarrow> Some (m, t) | _ \<Rightarrow> None else None)"

definition get_frontmost_application :: "event \<Rightarrow> application option" where
  "get_frontmost_application e =
     (if ev_type e = Tag_frontmost_application_changed
      then case ev_value e of V_application v \<Rightarrow> Some v | _ \<Rightarrow> None else None)"

definition get_input_source_properties :: "event \<Rightarrow> input_source_properties option" where
  "get_input_source_properties e =
     (if ev_type e = Tag_input_source_changed
      then case ev_value e of V_input_source v \<Rightarrow> Some v | _ \<Rightarrow> None else None)"

lemmas event_getters =
  get_if_mse_def get_if_notification_message_def get_if_software_function_def
  get_if_device_properties_def get_if_system_preferences_def get_if_virtual_hid_devices_state_def
  get_pointing_motion_def get_integer_value_def get_shell_command_def get_user_command_def
  get_input_source_specifiers_def get_set_variable_def get_mouse_key_def get_sticky_modifier_def
  get_frontmost_application_def get_input_source_properties_def

lemma get_if_mse_event [simp]: "get_if_mse (mse_event e) = Some e"
  by (simp add: get_if_mse_def mse_event_def)

lemma ev_type_mse_event [simp]: "ev_type (mse_event e) = Tag_momentary_switch_event"
  by (simp add: mse_event_def)

lemma mse_event_inj [simp]: "mse_event e = mse_event e' \<longleftrightarrow> e = e'"
  by (simp add: mse_event_def)

subsection \<open>Time stamps and entries\<close>

record event_time_stamp =
  ts_time_stamp :: time_point
  ts_input_delay_duration :: time_duration

definition mk_ts :: "time_point \<Rightarrow> event_time_stamp" where
  "mk_ts t = \<lparr>ts_time_stamp = t, ts_input_delay_duration = 0\<rparr>"

definition make_time_stamp_with_input_delay :: "event_time_stamp \<Rightarrow> time_point" where
  "make_time_stamp_with_input_delay t = ts_time_stamp t + ts_input_delay_duration t"

datatype entry_state = Original | Manipulated | Virtual_event

record entry =
  en_device_id :: device_id
  en_event_time_stamp :: event_time_stamp
  en_validity :: validity
  en_state :: entry_state
  en_lazy :: bool
  en_event :: event
  en_event_type :: event_type
  en_event_integer_value :: "int option"
  en_original_event :: event

definition mk_entry ::
    "device_id \<Rightarrow> event_time_stamp \<Rightarrow> event \<Rightarrow> event_type \<Rightarrow> int option \<Rightarrow> event \<Rightarrow> entry_state \<Rightarrow> bool \<Rightarrow> validity \<Rightarrow> entry" where
  "mk_entry d ts e t i oe st lz v =
     \<lparr>en_device_id = d, en_event_time_stamp = ts, en_validity = v, en_state = st, en_lazy = lz,
      en_event = e, en_event_type = t, en_event_integer_value = i, en_original_event = oe\<rparr>"

definition en_time :: "entry \<Rightarrow> time_point" where
  "en_time e = ts_time_stamp (en_event_time_stamp e)"

lemma mk_entry_simps [simp]:
  "en_device_id (mk_entry d ts e t i oe st lz v) = d"
  "en_event_time_stamp (mk_entry d ts e t i oe st lz v) = ts"
  "en_validity (mk_entry d ts e t i oe st lz v) = v"
  "en_state (mk_entry d ts e t i oe st lz v) = st"
  "en_lazy (mk_entry d ts e t i oe st lz v) = lz"
  "en_event (mk_entry d ts e t i oe st lz v) = e"
  "en_event_type (mk_entry d ts e t i oe st lz v) = t"
  "en_event_integer_value (mk_entry d ts e t i oe st lz v) = i"
  "en_original_event (mk_entry d ts e t i oe st lz v) = oe"
  "en_time (mk_entry d ts e t i oe st lz v) = ts_time_stamp ts"
  by (simp_all add: mk_entry_def en_time_def)

end
