(* ===== verification/KeyboardGuards.thy ===== *)
theory KeyboardGuards
  imports Events Machines
begin

text \<open>
  Four small guards of the keyboard path: \<open>pressed_keys_manager\<close> (the keys a device holds),
  \<open>keyboard_repeat_detector\<close>, \<open>keyboard_suppression\<close> (own events that come back through the event
  tap) and \<open>keyboard_fallback_loop_guard\<close> (a rate limit per key). Their mutexes make every operation
  atomic; logging is left out.
\<close>

subsection \<open>Pressed keys\<close>

text \<open>An unordered set; the order \<open>make_entries\<close> lists it in is unspecified.\<close>

type_synonym pressed_keys_manager = "momentary_switch_event set"

definition pk_insert :: "momentary_switch_event \<Rightarrow> pressed_keys_manager \<Rightarrow> pressed_keys_manager" where
  "pk_insert e s = insert e s"

definition pk_erase :: "momentary_switch_event \<Rightarrow> pressed_keys_manager \<Rightarrow> pressed_keys_manager" where
  "pk_erase e s = s - {e}"

definition pk_empty :: "pressed_keys_manager \<Rightarrow> bool" where
  "pk_empty s \<longleftrightarrow> s = {}"

definition pk_contains :: "pressed_keys_manager \<Rightarrow> momentary_switch_event \<Rightarrow> bool" where
  "pk_contains s e \<longleftrightarrow> e \<in> s"

definition pk_make_entries_and_clear :: "pressed_keys_manager \<Rightarrow> momentary_switch_event set \<times> pressed_keys_manager" where
  "pk_make_entries_and_clear s = (s, {})"

subsection \<open>The repeat detector\<close>

type_synonym keyboard_repeat_detector = "momentary_switch_event option"

definition krd_set :: "momentary_switch_event \<Rightarrow> event_type \<Rightarrow> keyboard_repeat_detector \<Rightarrow> keyboard_repeat_detector" where
  "krd_set e t r =
     (if \<not> mse_valid e then r
      else case t of
             Key_down \<Rightarrow> if \<not> mse_modifier_flag e then Some e else r
           | Key_up \<Rightarrow> if r = Some e then None else r
           | Single \<Rightarrow> r)"

definition krd_clear :: "keyboard_repeat_detector \<Rightarrow> keyboard_repeat_detector" where
  "krd_clear r = None"

definition is_repeating :: "keyboard_repeat_detector \<Rightarrow> bool" where
  "is_repeating r \<longleftrightarrow> r \<noteq> None"

text \<open>The key that repeats is the last one pressed that has not been released since.\<close>

fun last_press :: "(momentary_switch_event \<times> event_type) list \<Rightarrow> momentary_switch_event option" where
  "last_press [] = None"
| "last_press ((e, t) # xs) =
     (if t = Key_down \<and> mse_valid e \<and> \<not> mse_modifier_flag e then Some e
      else if t = Key_up \<and> mse_valid e \<and> last_press xs = Some e then None
      else last_press xs)"

lemma krd_last_press: "foldr (\<lambda>(e, t). krd_set e t) xs None = last_press xs"
proof (induction xs)
  case (Cons x xs)
  obtain e t where "x = (e, t)" by fastforce
  then show ?case using Cons by (cases t) (simp_all add: krd_set_def)
qed simp

subsection \<open>Suppression of own events\<close>

record suppression_entry =
  se_event :: momentary_switch_event
  se_event_type :: event_type
  se_expires_at :: time_point

record keyboard_suppression =
  ks_entries :: "suppression_entry list"
  ks_ttl :: time_duration
  ks_max_size :: nat

definition mk_suppression :: "time_duration \<Rightarrow> nat \<Rightarrow> keyboard_suppression" where
  "mk_suppression ttl m = \<lparr>ks_entries = [], ks_ttl = ttl, ks_max_size = m\<rparr>"

definition purge_expired :: "time_point \<Rightarrow> keyboard_suppression \<Rightarrow> keyboard_suppression" where
  "purge_expired now s = s\<lparr>ks_entries := dropWhile (\<lambda>e. se_expires_at e \<le> now) (ks_entries s)\<rparr>"

fun pop_front_to :: "nat \<Rightarrow> 'a list \<Rightarrow> 'a list" where
  "pop_front_to m [] = []"
| "pop_front_to m (x # xs) = (if length (x # xs) > m then pop_front_to m xs else x # xs)"

definition ks_enqueue ::
    "momentary_switch_event \<Rightarrow> event_type \<Rightarrow> time_point \<Rightarrow> keyboard_suppression \<Rightarrow> keyboard_suppression" where
  "ks_enqueue e t now s =
     (if \<not> mse_valid e \<or> mse_pointing_button e then s
      else let s1 = purge_expired now s;
               x = \<lparr>se_event = e, se_event_type = t, se_expires_at = now + ks_ttl s\<rparr>
           in s1\<lparr>ks_entries := pop_front_to (ks_max_size s) (ks_entries s1 @ [x])\<rparr>)"

definition ks_consume ::
    "momentary_switch_event \<Rightarrow> event_type \<Rightarrow> time_point \<Rightarrow> keyboard_suppression \<Rightarrow> bool \<times> keyboard_suppression" where
  "ks_consume e t now s =
     (let s1 = purge_expired now s; p = (\<lambda>x. se_event x = e \<and> se_event_type x = t)
      in if \<exists>x\<in>set (ks_entries s1). p x then (True, s1\<lparr>ks_entries := remove_first p (ks_entries s1)\<rparr>)
         else (False, s1))"

lemma pop_front_to_drop: "pop_front_to m xs = drop (length xs - m) xs"
  by (induction xs) (auto simp: Suc_diff_le not_less)

text \<open>
  The clock does not run backwards. A state carries the last reading; each operation comes a
  non-negative time later.
\<close>

datatype suppression_op =
    Ks_enqueue momentary_switch_event event_type | Ks_consume momentary_switch_event event_type | Ks_purge

fun ks_step :: "suppression_op \<times> nat \<Rightarrow> keyboard_suppression \<times> time_point \<Rightarrow> keyboard_suppression \<times> time_point" where
  "ks_step (op, dt) (s, prev) =
     (let now = prev + int dt in
      (case op of Ks_enqueue e t \<Rightarrow> ks_enqueue e t now s
       | Ks_consume e t \<Rightarrow> snd (ks_consume e t now s)
       | Ks_purge \<Rightarrow> purge_expired now s, now))"

definition ks_inv :: "time_duration \<Rightarrow> nat \<Rightarrow> keyboard_suppression \<times> time_point \<Rightarrow> bool" where
  "ks_inv ttl m = (\<lambda>(s, prev). ks_ttl s = ttl \<and> ks_max_size s = m \<and> length (ks_entries s) \<le> m \<and>
     sorted (map se_expires_at (ks_entries s)) \<and>
     (\<forall>x\<in>set (ks_entries s). se_expires_at x \<le> prev + ttl \<and> mse_valid (se_event x) \<and> \<not> mse_pointing_button (se_event x)))"

lemma dropWhile_sorted:
  fixes f :: "'a \<Rightarrow> 'b::linorder"
  shows "sorted (map f xs) \<Longrightarrow> dropWhile (\<lambda>x. f x \<le> c) xs = filter (\<lambda>x. c < f x) xs"
proof (induction xs)
  case (Cons a xs)
  show ?case
  proof (cases "f a \<le> c")
    case False
    then have "\<forall>x\<in>set (a # xs). c < f x" using Cons.prems by auto
    then have "filter (\<lambda>x. c < f x) (a # xs) = a # xs" by (intro filter_True) blast
    then show ?thesis using False by simp
  qed (use Cons in simp)
qed simp

text \<open>In a sorted deque purging the front leaves the live entries, and no others.\<close>

lemma purge_live:
  "ks_inv ttl m (s, prev) \<Longrightarrow>
     ks_entries (purge_expired now s) = filter (\<lambda>x. now < se_expires_at x) (ks_entries s)"
  by (simp add: ks_inv_def purge_expired_def dropWhile_sorted)

lemma ks_inv_sub:
  assumes "ks_inv ttl m (s, prev)" "subseq ys (ks_entries s)" "prev \<le> now"
  shows "ks_inv ttl m (s\<lparr>ks_entries := ys\<rparr>, now)"
proof -
  note inv = assms(1) [unfolded ks_inv_def prod.case]
  have "sorted (map se_expires_at ys)"
    using subseq_map [OF assms(2)] inv sorted_wrt_subseq by blast
  moreover have "length ys \<le> m" using list_emb_length [OF assms(2)] inv by linarith
  moreover have "\<forall>x\<in>set ys. se_expires_at x \<le> now + ttl \<and> mse_valid (se_event x) \<and> \<not> mse_pointing_button (se_event x)"
  proof
    fix x assume "x \<in> set ys"
    then have "x \<in> set (ks_entries s)" by (rule subseq_set_mono [OF assms(2)])
    then show "se_expires_at x \<le> now + ttl \<and> mse_valid (se_event x) \<and> \<not> mse_pointing_button (se_event x)"
      using inv assms(3) by fastforce
  qed
  ultimately show ?thesis using inv by (simp add: ks_inv_def)
qed

lemma purge_subseq: "subseq (ks_entries (purge_expired now s)) (ks_entries s)"
  by (simp add: purge_expired_def suffix_dropWhile suffix_imp_subseq)

lemma ks_inv_purge: "ks_inv ttl m (s, prev) \<Longrightarrow> prev \<le> now \<Longrightarrow> ks_inv ttl m (purge_expired now s, now)"
  using ks_inv_sub [OF _ purge_subseq] by (simp add: purge_expired_def)

lemma ks_inv_enqueue:
  assumes "ks_inv ttl m (s, prev)" "prev \<le> now"
  shows "ks_inv ttl m (ks_enqueue e t now s, now)"
proof (cases "mse_valid e \<and> \<not> mse_pointing_button e")
  case True
  let ?s = "purge_expired now s" and ?x = "\<lparr>se_event = e, se_event_type = t, se_expires_at = now + ttl\<rparr>"
  have inv: "ks_inv ttl m (?s, now)" by (rule ks_inv_purge [OF assms])
  define xs where "xs = ks_entries ?s @ [?x]"
  have xs: "sorted (map se_expires_at xs)" "\<forall>x\<in>set xs. se_expires_at x \<le> now + ttl \<and> mse_valid (se_event x) \<and>
      \<not> mse_pointing_button (se_event x)"
    using inv True by (auto simp: ks_inv_def xs_def sorted_append)
  have "sorted (map se_expires_at (drop n xs))" for n
    using xs(1) sorted_wrt_drop [of _ "map se_expires_at xs" n] by (simp add: drop_map)
  moreover have "length (drop (length xs - m) xs) \<le> m" by simp
  moreover have "ks_enqueue e t now s = ?s\<lparr>ks_entries := drop (length xs - m) xs\<rparr>"
    using True assms(1) by (simp add: ks_enqueue_def Let_def pop_front_to_drop xs_def ks_inv_def)
  ultimately show ?thesis using xs(2) inv by (auto simp: ks_inv_def dest: in_set_dropD)
next
  case False
  then show ?thesis using ks_inv_sub [OF assms(1) subseq_order.refl assms(2)] by (auto simp: ks_enqueue_def)
qed

lemma ks_inv_consume:
  assumes "ks_inv ttl m (s, prev)" "prev \<le> now"
  shows "ks_inv ttl m (snd (ks_consume e t now s), now)"
proof -
  have inv: "ks_inv ttl m (purge_expired now s, now)" by (rule ks_inv_purge [OF assms])
  show ?thesis
    using inv ks_inv_sub [OF inv subseq_remove_first order.refl] by (simp add: ks_consume_def Let_def)
qed

lemma ks_inv_step: "ks_inv ttl m s \<Longrightarrow> ks_inv ttl m (ks_step op s)"
proof -
  assume "ks_inv ttl m s"
  obtain k prev o' dt where "s = (k, prev)" "op = (o', dt)" by fastforce
  with \<open>ks_inv ttl m s\<close> show ?thesis
    using ks_inv_enqueue [of ttl m k prev "prev + int dt"] ks_inv_consume [of ttl m k prev "prev + int dt"]
      ks_inv_purge [of ttl m k prev "prev + int dt"]
    by (cases o') (simp_all add: Let_def)
qed

lemma ks_inv_init: "ks_inv ttl m (mk_suppression ttl m, now)"
  by (simp add: ks_inv_def mk_suppression_def)

interpretation ks: machine ks_step "(mk_suppression ttl m, now)" "ks_inv ttl m" "\<lambda>_. True" for ttl m now
  by unfold_locales (simp_all add: ks_inv_init ks_inv_step)

text \<open>Every queued entry pays for one suppressed event.\<close>

definition matching :: "momentary_switch_event \<Rightarrow> event_type \<Rightarrow> suppression_entry list \<Rightarrow> nat" where
  "matching e t xs = length (filter (\<lambda>x. se_event x = e \<and> se_event_type x = t) xs)"

fun hits :: "momentary_switch_event \<Rightarrow> event_type \<Rightarrow> (suppression_op \<times> nat) list \<Rightarrow>
    keyboard_suppression \<times> time_point \<Rightarrow> nat" where
  "hits e t [] s = 0"
| "hits e t ((op, dt) # ops) s =
     (if op = Ks_consume e t \<and> fst (ks_consume e t (snd s + int dt) (fst s)) then 1 else 0) +
     hits e t ops (ks_step (op, dt) s)"

lemma matching_subseq: "subseq xs ys \<Longrightarrow> matching e t xs \<le> matching e t ys"
  unfolding matching_def by (rule list_emb_length [OF subseq_filter])

lemma matching_remove_first:
  assumes "\<exists>x\<in>set xs. se_event x = e \<and> se_event_type x = t"
  shows "Suc (matching e t (remove_first (\<lambda>x. se_event x = e \<and> se_event_type x = t) xs)) = matching e t xs"
  using assms by (induction xs) (auto simp: matching_def)

lemma matching_purge: "matching e t (ks_entries (purge_expired now s)) \<le> matching e t (ks_entries s)"
  by (rule matching_subseq [OF purge_subseq])

lemma matching_enqueue:
  "matching e t (ks_entries (ks_enqueue e' t' now s)) \<le>
     matching e t (ks_entries s) + (if e' = e \<and> t' = t then 1 else 0)"
proof (cases "mse_valid e' \<and> \<not> mse_pointing_button e'")
  case True
  let ?x = "\<lparr>se_event = e', se_event_type = t', se_expires_at = now + ks_ttl s\<rparr>"
  let ?xs = "ks_entries (purge_expired now s) @ [?x]"
  have "matching e t (ks_entries (ks_enqueue e' t' now s)) \<le> matching e t ?xs"
    using True matching_subseq [OF suffix_imp_subseq [OF suffix_drop], of e t _ ?xs]
    by (simp add: ks_enqueue_def Let_def pop_front_to_drop del: drop_append)
  also have "\<dots> \<le> matching e t (ks_entries s) + (if e' = e \<and> t' = t then 1 else 0)"
    using matching_purge [of e t now s] by (simp add: matching_def)
  finally show ?thesis .
qed (simp add: ks_enqueue_def)

lemma matching_consume:
  "matching e t (ks_entries (snd (ks_consume e' t' now s))) +
     (if e' = e \<and> t' = t \<and> fst (ks_consume e' t' now s) then 1 else 0) \<le> matching e t (ks_entries s)"
  using matching_purge [of e t now s]
    matching_remove_first [of "ks_entries (purge_expired now s)" e t]
    matching_subseq [OF subseq_remove_first [of "\<lambda>x. se_event x = e' \<and> se_event_type x = t'" "ks_entries (purge_expired now s)"], of e t]
  by (auto simp: ks_consume_def Let_def)

lemma hits_bound:
  "hits e t ops s + matching e t (ks_entries (fst (run_ops ks_step ops s))) \<le>
     matching e t (ks_entries (fst s)) + length (filter (\<lambda>(op, _). op = Ks_enqueue e t) ops)"
proof (induction ops arbitrary: s)
  case (Cons op ops)
  obtain k prev o' dt where s: "s = (k, prev)" "op = (o', dt)" by fastforce
  note IH = Cons [of "ks_step op s"]
  show ?case
  proof (cases o')
    case (Ks_enqueue e' t')
    then show ?thesis
      using IH matching_enqueue [of e t e' t' "prev + int dt" k] s by (auto simp: Let_def split: if_splits)
  next
    case (Ks_consume e' t')
    then show ?thesis
      using IH matching_consume [of e t e' t' "prev + int dt" k] s by (auto simp: Let_def split: if_splits)
  next
    case Ks_purge
    then show ?thesis using IH matching_purge [of e t "prev + int dt" k] s by (simp add: Let_def)
  qed
qed simp

text \<open>
  The suppression of own events. Whatever is queued, matched and purged, under a clock that does not
  run backwards: the deque stays within its bound; an incoming event is suppressed exactly if a
  matching entry is queued whose time to live has not passed; and no event is suppressed more often
  than it was queued.
\<close>

theorem suppression_correct:
  fixes ops :: "(suppression_op \<times> nat) list" and t0 :: time_point and ttl :: time_duration and m :: nat
  defines "s \<equiv> run_ops ks_step ops (mk_suppression ttl m, t0)"
  shows "length (ks_entries (fst s)) \<le> m \<and>
    fst (ks_consume e t (snd s + int dt) (fst s)) =
      (\<exists>x\<in>set (ks_entries (fst s)). se_event x = e \<and> se_event_type x = t \<and> snd s + int dt < se_expires_at x) \<and>
    hits e t ops (mk_suppression ttl m, t0) \<le> length (filter (\<lambda>(op, _). op = Ks_enqueue e t) ops)"
proof -
  have inv: "ks_inv ttl m (fst s, snd s)" using ks.reachable_inv [of ops ttl m t0] by (simp add: s_def)
  have "length (ks_entries (fst s)) \<le> m" using inv unfolding ks_inv_def prod.case by blast
  moreover have "fst (ks_consume e t now (fst s)) =
      (\<exists>x\<in>set (ks_entries (fst s)). se_event x = e \<and> se_event_type x = t \<and> now < se_expires_at x)" for now
    using purge_live [OF inv, of now] by (auto simp: ks_consume_def Let_def)
  moreover have "hits e t ops (mk_suppression ttl m, t0) \<le> length (filter (\<lambda>(op, _). op = Ks_enqueue e t) ops)"
    using hits_bound [of e t ops "(mk_suppression ttl m, t0)"] by (simp add: mk_suppression_def matching_def)
  ultimately show ?thesis by blast
qed

subsection \<open>The loop guard\<close>

record loop_guard =
  lg_rate_window :: time_duration
  lg_rate_threshold :: nat
  lg_suspension_duration :: time_duration
  lg_timestamps :: "momentary_switch_event \<Rightarrow> time_point list"
  lg_suspended_until :: "time_point option"

definition mk_loop_guard :: "time_duration \<Rightarrow> nat \<Rightarrow> time_duration \<Rightarrow> loop_guard" where
  "mk_loop_guard w n d = \<lparr>lg_rate_window = w, lg_rate_threshold = n, lg_suspension_duration = d,
     lg_timestamps = (\<lambda>_. []), lg_suspended_until = None\<rparr>"

definition purge_expired_timestamps :: "time_duration \<Rightarrow> time_point \<Rightarrow> time_point list \<Rightarrow> time_point list" where
  "purge_expired_timestamps w now ts = dropWhile (\<lambda>x. x \<le> now - w) ts"

definition keyboard_event :: "event \<Rightarrow> momentary_switch_event option" where
  "keyboard_event ev =
     (case get_if_mse ev of
        None \<Rightarrow> None
      | Some e \<Rightarrow> if \<not> mse_valid e \<or> mse_pointing_button e then None else Some e)"

definition resume :: "loop_guard \<Rightarrow> loop_guard" where
  "resume g = (if lg_suspended_until g \<noteq> None
     then g\<lparr>lg_suspended_until := None, lg_timestamps := (\<lambda>_. [])\<rparr> else g)"

definition should_suspend :: "event \<Rightarrow> time_point \<Rightarrow> loop_guard \<Rightarrow> bool \<times> loop_guard" where
  "should_suspend ev now g =
     (if (case lg_suspended_until g of Some u \<Rightarrow> now < u | None \<Rightarrow> False) then (True, g)
      else let g1 = resume g in
        case keyboard_event ev of
          None \<Rightarrow> (False, g1)
        | Some e \<Rightarrow>
            let ts = purge_expired_timestamps (lg_rate_window g) now (lg_timestamps g1 e) @ [now] in
            if length ts \<le> lg_rate_threshold g
            then (False, g1\<lparr>lg_timestamps := (lg_timestamps g1)(e := ts)\<rparr>)
            else (True, g1\<lparr>lg_suspended_until := Some (now + lg_suspension_duration g),
                           lg_timestamps := (\<lambda>_. [])\<rparr>))"

text \<open>The key events that pass in a run of calls, each a non-negative time after the one before.\<close>

fun passed :: "(event \<times> nat) list \<Rightarrow> loop_guard \<Rightarrow> time_point \<Rightarrow> (momentary_switch_event \<times> time_point) list" where
  "passed [] g prev = []"
| "passed ((ev, dt) # calls) g prev =
     (let now = prev + int dt; (b, g') = should_suspend ev now g; rest = passed calls g' now
      in if b then rest
         else case keyboard_event ev of Some e \<Rightarrow> (e, now) # rest | None \<Rightarrow> rest)"

definition times_of :: "momentary_switch_event \<Rightarrow> (momentary_switch_event \<times> time_point) list \<Rightarrow> time_point list" where
  "times_of e h = map snd (filter (\<lambda>x. fst x = e) h)"

definition in_window :: "time_duration \<Rightarrow> time_point \<Rightarrow> time_point \<Rightarrow> bool" where
  "in_window w t x \<longleftrightarrow> t - w < x \<and> x \<le> t"

text \<open>
  The deque of a key is the recent end of the times it passed; what is not in it any more is out of
  the window, or will be when the suspension ends.
\<close>

definition guard_tracks :: "loop_guard \<Rightarrow> time_point \<Rightarrow> (momentary_switch_event \<times> time_point) list \<Rightarrow> bool" where
  "guard_tracks g prev h \<longleftrightarrow>
     (\<forall>e. \<exists>old. times_of e h = old @ lg_timestamps g e \<and>
        (\<forall>x\<in>set old. x \<le> (case lg_suspended_until g of None \<Rightarrow> prev | Some u \<Rightarrow> u) - lg_rate_window g)) \<and>
     (\<forall>e. sorted (times_of e h) \<and> (\<forall>x\<in>set (times_of e h). x \<le> prev)) \<and>
     (lg_suspended_until g \<noteq> None \<longrightarrow> lg_timestamps g = (\<lambda>_. [])) \<and>
     (\<forall>e t. length (filter (in_window (lg_rate_window g) t) (times_of e h)) \<le> lg_rate_threshold g)"

lemma times_of_append: "times_of e (h @ [(e', x)]) = times_of e h @ (if e' = e then [x] else [])"
  by (simp add: times_of_def)

definition last_known :: "loop_guard \<Rightarrow> time_point \<Rightarrow> time_point" where
  "last_known g prev = (case lg_suspended_until g of None \<Rightarrow> prev | Some u \<Rightarrow> u)"

lemma guard_tracks_resume:
  assumes g: "guard_tracks g prev h" and now: "prev \<le> now" "last_known g prev \<le> now"
  shows "guard_tracks (resume g) now h"
proof -
  have "\<exists>old. times_of e h = old @ lg_timestamps (resume g) e \<and> (\<forall>x\<in>set old. x \<le> now - lg_rate_window g)" for e
  proof -
    obtain old where "times_of e h = old @ lg_timestamps g e"
        "\<forall>x\<in>set old. x \<le> last_known g prev - lg_rate_window g"
      using g unfolding guard_tracks_def last_known_def by blast
    moreover from this have "\<forall>x\<in>set old. x \<le> now - lg_rate_window g" using now(2) by fastforce
    moreover have "lg_suspended_until g \<noteq> None \<longrightarrow> lg_timestamps g = (\<lambda>_. [])"
      using g unfolding guard_tracks_def by blast
    ultimately show ?thesis unfolding resume_def by auto
  qed
  moreover have "lg_suspended_until (resume g) = None" "lg_rate_window (resume g) = lg_rate_window g"
      "lg_rate_threshold (resume g) = lg_rate_threshold g"
    by (simp_all add: resume_def)
  moreover have "\<forall>e. sorted (times_of e h) \<and> (\<forall>x\<in>set (times_of e h). x \<le> now)"
    using g now(1) unfolding guard_tracks_def by fastforce
  moreover have "\<forall>e t. length (filter (in_window (lg_rate_window g) t) (times_of e h)) \<le> lg_rate_threshold g"
    using g unfolding guard_tracks_def by blast
  ultimately show ?thesis unfolding guard_tracks_def by simp
qed

text \<open>What the window of the present moment holds of a key that passes now.\<close>

lemma window_of_deque:
  fixes e :: momentary_switch_event
  assumes g: "guard_tracks g now h" and active: "lg_suspended_until g = None" and t: "now \<le> t"
  defines "ts \<equiv> purge_expired_timestamps (lg_rate_window g) now (lg_timestamps g e)"
  shows "length (filter (in_window (lg_rate_window g) t) (times_of e h)) \<le> length ts"
    and "\<exists>old. times_of e h = old @ ts \<and> (\<forall>x\<in>set old. x \<le> now - lg_rate_window g)"
proof -
  let ?w = "lg_rate_window g"
  obtain old where old: "times_of e h = old @ lg_timestamps g e" "\<forall>x\<in>set old. x \<le> now - ?w"
    using g active unfolding guard_tracks_def by fastforce
  have srt: "sorted (times_of e h)" using g unfolding guard_tracks_def by blast
  then have live: "ts = filter (\<lambda>x. now - ?w < x) (lg_timestamps g e)"
    using dropWhile_sorted [of "\<lambda>x. x" "lg_timestamps g e" "now - ?w"] old(1)
    by (simp add: ts_def purge_expired_timestamps_def sorted_append)
  have "filter (in_window ?w t) old = []"
    using old(2) t unfolding filter_empty_conv in_window_def by fastforce
  moreover have "length (filter (in_window ?w t) xs) \<le> length (filter (\<lambda>x. now - ?w < x) xs)" for xs
    using t by (induction xs) (auto simp: in_window_def)
  ultimately show "length (filter (in_window ?w t) (times_of e h)) \<le> length ts"
    by (simp add: old(1) live)
  have "lg_timestamps g e = takeWhile (\<lambda>x. x \<le> now - ?w) (lg_timestamps g e) @ ts"
    by (simp add: ts_def purge_expired_timestamps_def)
  then have "times_of e h = (old @ takeWhile (\<lambda>x. x \<le> now - ?w) (lg_timestamps g e)) @ ts"
    using old(1) by simp
  moreover have "\<forall>x\<in>set (old @ takeWhile (\<lambda>x. x \<le> now - ?w) (lg_timestamps g e)). x \<le> now - ?w"
    using old(2) by (auto dest: set_takeWhileD)
  ultimately show "\<exists>old. times_of e h = old @ ts \<and> (\<forall>x\<in>set old. x \<le> now - ?w)" by blast
qed

lemma guard_tracks_pass:
  fixes e :: momentary_switch_event
  assumes g: "guard_tracks g now h" and active: "lg_suspended_until g = None"
  defines "ts \<equiv> purge_expired_timestamps (lg_rate_window g) now (lg_timestamps g e) @ [now]"
  assumes len: "length ts \<le> lg_rate_threshold g"
  shows "guard_tracks (g\<lparr>lg_timestamps := (lg_timestamps g)(e := ts)\<rparr>) now (h @ [(e, now)])"
proof -
  let ?w = "lg_rate_window g"
  have "\<exists>old. times_of e' (h @ [(e, now)]) = old @ ((lg_timestamps g)(e := ts)) e' \<and> (\<forall>x\<in>set old. x \<le> now - ?w)" for e'
    using g active window_of_deque(2) [OF g active order.refl, of e]
    unfolding guard_tracks_def times_of_append by (cases "e' = e") (auto simp: ts_def)
  moreover have "sorted (times_of e' (h @ [(e, now)])) \<and> (\<forall>x\<in>set (times_of e' (h @ [(e, now)])). x \<le> now)" for e'
    using g unfolding guard_tracks_def times_of_append by (auto simp: sorted_append)
  moreover have "length (filter (in_window ?w t) (times_of e' (h @ [(e, now)]))) \<le> lg_rate_threshold g" for e' t
  proof (cases "e' = e \<and> now \<le> t")
    case True
    then show ?thesis
      using window_of_deque(1) [OF g active, of t e] len by (simp add: times_of_append ts_def)
  next
    case False
    then have "filter (in_window ?w t) (times_of e' (h @ [(e, now)])) = filter (in_window ?w t) (times_of e' h)"
      by (auto simp: times_of_append in_window_def)
    then show ?thesis using g unfolding guard_tracks_def by simp
  qed
  ultimately show ?thesis using active unfolding guard_tracks_def by simp
qed

lemma guard_tracks_suspend:
  assumes g: "guard_tracks g now h" and "lg_suspended_until g = None" and w: "lg_rate_window g \<le> lg_suspension_duration g"
  shows "guard_tracks (g\<lparr>lg_suspended_until := Some (now + lg_suspension_duration g), lg_timestamps := (\<lambda>_. [])\<rparr>) now h"
proof -
  have "\<forall>e. \<forall>x\<in>set (times_of e h). x \<le> now + lg_suspension_duration g - lg_rate_window g"
    using g w unfolding guard_tracks_def by fastforce
  then show ?thesis using g unfolding guard_tracks_def by simp
qed

lemma guard_tracks_wait:
  assumes "guard_tracks g prev h" "prev \<le> now" "lg_suspended_until g = Some u"
  shows "guard_tracks g now h"
  using assms unfolding guard_tracks_def by fastforce

lemma resume_simps [simp]:
  "lg_rate_window (resume g) = lg_rate_window g" "lg_rate_threshold (resume g) = lg_rate_threshold g"
  "lg_suspension_duration (resume g) = lg_suspension_duration g" "lg_suspended_until (resume g) = None"
  by (simp_all add: resume_def)

lemma guard_tracks_step:
  assumes g: "guard_tracks g prev h" and now: "prev \<le> now" and w: "lg_rate_window g \<le> lg_suspension_duration g"
    and step: "should_suspend ev now g = (b, g')"
  shows "guard_tracks g' now (if b then h else case keyboard_event ev of Some e \<Rightarrow> h @ [(e, now)] | None \<Rightarrow> h) \<and>
    lg_rate_window g' = lg_rate_window g \<and> lg_rate_threshold g' = lg_rate_threshold g \<and>
    lg_suspension_duration g' = lg_suspension_duration g"
proof (cases "case lg_suspended_until g of Some u \<Rightarrow> now < u | None \<Rightarrow> False")
  case True
  then obtain u where "lg_suspended_until g = Some u" by (auto split: option.splits)
  with guard_tracks_wait [OF g now this] True step show ?thesis by (auto simp: should_suspend_def)
next
  case False
  then have "last_known g prev \<le> now" using now by (auto simp: last_known_def split: option.splits)
  note r = guard_tracks_resume [OF g now this]
  show ?thesis
    using False step r guard_tracks_pass [OF r] guard_tracks_suspend [OF r] w
    by (auto simp: should_suspend_def Let_def split: option.splits if_splits)
qed

lemma passed_bound:
  assumes "guard_tracks g prev h" "lg_rate_window g \<le> lg_suspension_duration g"
  shows "length (filter (in_window (lg_rate_window g) t) (times_of e (h @ passed calls g prev))) \<le> lg_rate_threshold g"
  using assms
proof (induction calls arbitrary: g prev h)
  case Nil
  then show ?case unfolding guard_tracks_def by simp
next
  case (Cons call calls)
  obtain ev dt where call: "call = (ev, dt)" by fastforce
  obtain b g' where step: "should_suspend ev (prev + int dt) g = (b, g')" by fastforce
  let ?h = "if b then h else case keyboard_event ev of Some e \<Rightarrow> h @ [(e, prev + int dt)] | None \<Rightarrow> h"
  note keep = guard_tracks_step [OF Cons.prems(1) _ Cons.prems(2) step]
  have "h @ passed (call # calls) g prev = ?h @ passed calls g' (prev + int dt)"
    by (simp add: call step Let_def split: option.split)
  then show ?case using Cons.IH [of g' "prev + int dt" ?h] keep Cons.prems(2) by simp
qed

text \<open>
  The loop guard is a rate limit: if the suspension is at least as long as the window, then of no
  key do more events than the threshold pass in any window of time, whatever the other keys do.
\<close>

theorem loop_guard_limits_rate:
  assumes "w \<le> d"
  shows "length (filter (in_window w t) (times_of e (passed calls (mk_loop_guard w n d) t0))) \<le> n"
proof -
  have "guard_tracks (mk_loop_guard w n d) t0 []"
    by (simp add: guard_tracks_def mk_loop_guard_def times_of_def)
  from passed_bound [OF this, of t e calls] show ?thesis using assms by (simp add: mk_loop_guard_def)
qed

theorem loop_guard_limits_rate_witness:
  "length (filter (in_window 100 50) (times_of (Mse (mk_pair page_keyboard_or_keypad 4))
     (passed (replicate 20 (mse_event (Mse (mk_pair page_keyboard_or_keypad 4)), 1)) (mk_loop_guard 100 10 1000) 0))) \<le> 10"
  by (rule loop_guard_limits_rate) simp

end
