(* ===== verification/HidInput.thy ===== *)
theory HidInput
  imports KeyboardGuards KeyNames
begin

unbundle bit_operations_syntax

text \<open>
  From HID values to entries: \<open>hat_switch_converter\<close> turns the hat switch of a game pad into d-pad
  buttons, \<open>event_queue/utility.hpp\<close> turns the values of a report into entries and marks the moment a
  device has no key down any more. The floating-point product is a parameter.
\<close>

subsection \<open>Hat switch\<close>

definition hat_up :: int where "hat_up = 1"
definition hat_down :: int where "hat_down = 2"
definition hat_right :: int where "hat_right = 4"
definition hat_left :: int where "hat_left = 8"

type_synonym hat_switch_converter = "device_id \<rightharpoonup> int"

definition hat_direction :: "int \<Rightarrow> int" where
  "hat_direction v =
     (if v = 0 then hat_up
      else if v = 1 then hat_up OR hat_right
      else if v = 2 then hat_right
      else if v = 3 then hat_down OR hat_right
      else if v = 4 then hat_down
      else if v = 5 then hat_down OR hat_left
      else if v = 6 then hat_left
      else if v = 7 then hat_up OR hat_left
      else 0)"

definition dpad_usages :: "(int \<times> int) list" where
  "dpad_usages = [(hat_up, dpad_up), (hat_down, dpad_down), (hat_right, dpad_right), (hat_left, dpad_left)]"

definition dpad_events :: "int \<Rightarrow> int \<Rightarrow> (momentary_switch_event \<times> event_type) list" where
  "dpad_events old new = concat (map (\<lambda>(d, u).
     (if old AND d = 0 \<and> new AND d \<noteq> 0 then [(Mse (mk_pair page_generic_desktop u), Key_down)] else []) @
     (if old AND d \<noteq> 0 \<and> new AND d = 0 then [(Mse (mk_pair page_generic_desktop u), Key_up)] else [])) dpad_usages)"

definition to_dpad_events ::
    "device_id \<Rightarrow> int \<Rightarrow> hat_switch_converter \<Rightarrow>
     (momentary_switch_event \<times> event_type) list \<times> hat_switch_converter" where
  "to_dpad_events d v h =
     (let old = (case h d of Some x \<Rightarrow> x | None \<Rightarrow> 0); new = hat_direction v
      in (dpad_events old new, h(d \<mapsto> new)))"

definition hat_erase_device :: "device_id \<Rightarrow> hat_switch_converter \<Rightarrow> hat_switch_converter" where
  "hat_erase_device d h = h(d := None)"

definition hat_clear :: "hat_switch_converter \<Rightarrow> hat_switch_converter" where
  "hat_clear h = Map.empty"

text \<open>What the events say is held, and the buttons of a direction.\<close>

definition replay :: "(momentary_switch_event \<times> event_type) list \<Rightarrow> momentary_switch_event set \<Rightarrow> momentary_switch_event set" where
  "replay xs held = foldl (\<lambda>s (e, t). if t = Key_down then insert e s else s - {e}) held xs"

definition dpad_held :: "int \<Rightarrow> momentary_switch_event set" where
  "dpad_held x = set (map (\<lambda>(d, u). Mse (mk_pair page_generic_desktop u)) (filter (\<lambda>(d, u). x AND d \<noteq> 0) dpad_usages))"

fun hat_events :: "device_id \<Rightarrow> (device_id \<times> int) list \<Rightarrow> hat_switch_converter \<Rightarrow>
    (momentary_switch_event \<times> event_type) list" where
  "hat_events d [] h = []"
| "hat_events d ((d', v) # hats) h =
     (let (es, h') = to_dpad_events d' v h in (if d' = d then es else []) @ hat_events d hats h')"

definition last_hat :: "device_id \<Rightarrow> (device_id \<times> int) list \<Rightarrow> int \<Rightarrow> int" where
  "last_hat d hats x = foldl (\<lambda>x (d', v). if d' = d then hat_direction v else x) x hats"

text \<open>A transition only presses what is up and releases what is down.\<close>

definition no_repeats :: "(momentary_switch_event \<times> event_type) list \<Rightarrow> momentary_switch_event set \<Rightarrow> bool" where
  "no_repeats xs held \<longleftrightarrow>
     (\<forall>ys e t zs. xs = ys @ (e, t) # zs \<longrightarrow> (t = Key_down \<longleftrightarrow> e \<notin> replay ys held))"

lemma replay_append [simp]: "replay (xs @ ys) s = replay ys (replay xs s)"
  by (simp add: replay_def)

lemma no_repeats_simps [simp]:
  "no_repeats [] s"
  "no_repeats ((e, t) # xs) s \<longleftrightarrow>
     (t = Key_down \<longleftrightarrow> e \<notin> s) \<and> no_repeats xs (if t = Key_down then insert e s else s - {e})"
proof -
  show "no_repeats [] s" by (simp add: no_repeats_def)
  have "no_repeats ((e, t) # xs) s \<longleftrightarrow>
     (t = Key_down \<longleftrightarrow> e \<notin> replay [] s) \<and>
     (\<forall>ys e' t' zs. xs = ys @ (e', t') # zs \<longrightarrow> (t' = Key_down \<longleftrightarrow> e' \<notin> replay ((e, t) # ys) s))"
    unfolding no_repeats_def by (auto simp: Cons_eq_append_conv) (metis append_Cons)+
  then show "no_repeats ((e, t) # xs) s \<longleftrightarrow>
     (t = Key_down \<longleftrightarrow> e \<notin> s) \<and> no_repeats xs (if t = Key_down then insert e s else s - {e})"
    by (simp add: no_repeats_def replay_def)
qed

lemma no_repeats_append: "no_repeats (xs @ ys) s \<longleftrightarrow> no_repeats xs s \<and> no_repeats ys (replay xs s)"
proof (induction xs arbitrary: s)
  case (Cons x xs)
  obtain e t where "x = (e, t)" by fastforce
  then show ?case using Cons by (auto simp: replay_def)
qed (simp add: replay_def)

lemma dpad_events_step:
  "replay (dpad_events old new) (dpad_held old) = dpad_held new \<and> no_repeats (dpad_events old new) (dpad_held old)"
  by (cases "old AND hat_up = 0"; cases "old AND hat_down = 0"; cases "old AND hat_right = 0"; cases "old AND hat_left = 0";
      cases "new AND hat_up = 0"; cases "new AND hat_down = 0"; cases "new AND hat_right = 0"; cases "new AND hat_left = 0")
     (simp_all add: dpad_events_def dpad_held_def dpad_usages_def replay_def usage_defs insert_Diff_if insert_commute)

lemma hat_events_from:
  "replay (hat_events d hats h) (dpad_held (case h d of Some x \<Rightarrow> x | None \<Rightarrow> 0)) =
     dpad_held (last_hat d hats (case h d of Some x \<Rightarrow> x | None \<Rightarrow> 0)) \<and>
   no_repeats (hat_events d hats h) (dpad_held (case h d of Some x \<Rightarrow> x | None \<Rightarrow> 0))"
proof (induction hats arbitrary: h)
  case Nil
  then show ?case by (simp add: last_hat_def replay_def)
next
  case (Cons x hats)
  obtain d' v where x: "x = (d', v)" by fastforce
  let ?old = "case h d' of Some x \<Rightarrow> x | None \<Rightarrow> 0"
  show ?case
  proof (cases "d' = d")
    case True
    have "last_hat d (x # hats) ?old = last_hat d hats (hat_direction v)" by (simp add: x True last_hat_def)
    moreover have "replay (hat_events d hats (h(d \<mapsto> y))) (dpad_held y) = dpad_held (last_hat d hats y) \<and>
        no_repeats (hat_events d hats (h(d \<mapsto> y))) (dpad_held y)" for y
      using Cons [of "h(d \<mapsto> y)"] by (simp only: fun_upd_same option.case)
    moreover have "hat_events d (x # hats) h = dpad_events ?old (hat_direction v) @
        hat_events d hats (h(d \<mapsto> hat_direction v))"
      by (simp add: x to_dpad_events_def Let_def True del: fun_upd_apply)
    ultimately show ?thesis
      using dpad_events_step [of ?old "hat_direction v"] True
      by (simp add: no_repeats_append del: hat_events.simps fun_upd_apply)
  next
    case False
    have "last_hat d (x # hats) y = last_hat d hats y" for y by (simp add: x False last_hat_def)
    moreover have "hat_events d (x # hats) h = hat_events d hats (h(d' \<mapsto> hat_direction v))"
      by (simp add: x to_dpad_events_def Let_def False del: fun_upd_apply)
    ultimately show ?thesis
      using Cons [of "h(d' \<mapsto> hat_direction v)"] False by (simp only: fun_upd_other)
  qed
qed

text \<open>
  The d-pad of a game pad follows its hat switch: whatever values the hat switches of whatever
  devices report in whatever order, the buttons a device's events leave pressed are exactly those of
  its last direction, and an event never presses a button that is down or releases one that is up.
\<close>

theorem dpad_follows_hat_switch:
  "replay (hat_events d hats Map.empty) {} = dpad_held (last_hat d hats 0) \<and>
   no_repeats (hat_events d hats Map.empty) {}"
proof -
  have "dpad_held 0 = {}" by (simp add: dpad_held_def dpad_usages_def)
  then show ?thesis using hat_events_from [of d hats Map.empty] by simp
qed

subsection \<open>Entries from HID values\<close>

record hid_value =
  hv_time_stamp :: time_point
  hv_integer_value :: int
  hv_usage_page :: "int option"
  hv_usage :: "int option"

definition conforms_to :: "hid_value \<Rightarrow> int \<Rightarrow> int \<Rightarrow> bool" where
  "conforms_to v p u \<longleftrightarrow> hv_usage_page v = Some p \<and> hv_usage v = Some u"

text \<open>\<open>scale\<close> is the product of an integer and a double, as a double.\<close>

definition adjust_pointing_motion_value :: "(int \<Rightarrow> rat \<Rightarrow> rat) \<Rightarrow> int \<Rightarrow> rat \<Rightarrow> int" where
  "adjust_pointing_motion_value scale i m =
     (let v = truncate_rat (scale i m)
      in if v = 0 \<and> i > 0 then 1
         else if v = 0 \<and> i < 0 then -1
         else min 127 (max (-127) v))"

datatype motion_axis = Axis_x | Axis_y | Axis_vertical_wheel | Axis_horizontal_wheel

text \<open>The optional locals of \<open>make_entries\<close>: the time stamp and one value per axis.\<close>

record pending_motion =
  mo_time_stamp :: "time_point option"
  mo_value :: "motion_axis \<Rightarrow> int option"

definition no_motion :: pending_motion where
  "no_motion = \<lparr>mo_time_stamp = None, mo_value = (\<lambda>_. None)\<rparr>"

record make_entries_parameters =
  mp_xy_multiplier :: rat
  mp_wheels_multiplier :: rat

definition original_entry :: "device_id \<Rightarrow> time_point \<Rightarrow> event \<Rightarrow> event_type \<Rightarrow> int option \<Rightarrow> entry_state \<Rightarrow> entry" where
  "original_entry d ts e t i st = mk_entry d (mk_ts ts) e t i e st False Valid"

definition emplace_back_pointing_motion_event :: "device_id \<Rightarrow> pending_motion \<Rightarrow> entry list \<times> pending_motion" where
  "emplace_back_pointing_motion_event d m =
     (case mo_time_stamp m of
        Some ts \<Rightarrow>
          ([original_entry d ts (pointing_motion_event
              (mk_motion (value_or 0 (mo_value m Axis_x)) (value_or 0 (mo_value m Axis_y))
                 (value_or 0 (mo_value m Axis_vertical_wheel)) (value_or 0 (mo_value m Axis_horizontal_wheel))))
              Single None Original], no_motion)
      | None \<Rightarrow> ([], m))"

definition motion_axis_of :: "bool \<Rightarrow> hid_value \<Rightarrow> motion_axis option" where
  "motion_axis_of is_game_pad v =
     (if conforms_to v page_generic_desktop 0x30 \<and> \<not> is_game_pad then Some Axis_x
      else if conforms_to v page_generic_desktop 0x31 \<and> \<not> is_game_pad then Some Axis_y
      else if conforms_to v page_generic_desktop 0x38 then Some Axis_vertical_wheel
      else if conforms_to v page_consumer 0x238 then Some Axis_horizontal_wheel
      else None)"

definition axis_multiplier :: "make_entries_parameters \<Rightarrow> motion_axis \<Rightarrow> rat" where
  "axis_multiplier p a = (if a = Axis_x \<or> a = Axis_y then mp_xy_multiplier p else mp_wheels_multiplier p)"

definition make_entries_step ::
    "(int \<Rightarrow> rat \<Rightarrow> rat) \<Rightarrow> device_properties \<Rightarrow> make_entries_parameters \<Rightarrow> hid_value \<Rightarrow>
     entry list \<times> pending_motion \<times> hat_switch_converter \<Rightarrow> entry list \<times> pending_motion \<times> hat_switch_converter" where
  "make_entries_step scale dp p v = (\<lambda>(es, m, h).
     let d = dp_device_id dp; game_pad = di_is_game_pad (dp_device_identifiers dp) in
     case (hv_usage_page v, hv_usage v) of
       (Some pg, Some u) \<Rightarrow>
         if mse_target pg u then
           (es @ [original_entry d (hv_time_stamp v) (mse_event (Mse (mk_pair pg u)))
                    (if hv_integer_value v \<noteq> 0 then Key_down else Key_up) (Some (hv_integer_value v)) Original], m, h)
         else (case motion_axis_of game_pad v of
           Some a \<Rightarrow>
             (let (new, m1) = (if mo_value m a \<noteq> None then emplace_back_pointing_motion_event d m else ([], m));
                  x = adjust_pointing_motion_value scale (hv_integer_value v) (axis_multiplier p a)
              in (es @ new, m1\<lparr>mo_time_stamp := Some (hv_time_stamp v), mo_value := (mo_value m1)(a := Some x)\<rparr>, h))
         | None \<Rightarrow>
             if conforms_to v 8 2 then
               (es @ [original_entry d (hv_time_stamp v) (make_caps_lock_state_changed_event (hv_integer_value v))
                        Single None Virtual_event], m, h)
             else if game_pad \<and> conforms_to v page_generic_desktop 0x39 then
               (let (pairs, h1) = to_dpad_events d (hv_integer_value v) h
                in (es @ map (\<lambda>(e, t). original_entry d (hv_time_stamp v) (mse_event e) t None Original) pairs, m, h1))
             else (es, m, h))
     | _ \<Rightarrow> (es, m, h))"

definition make_entries ::
    "(int \<Rightarrow> rat \<Rightarrow> rat) \<Rightarrow> device_properties \<Rightarrow> make_entries_parameters \<Rightarrow> hid_value list \<Rightarrow>
     hat_switch_converter \<Rightarrow> entry list \<times> hat_switch_converter" where
  "make_entries scale dp p vs h =
     (let (es, m, h1) = fold (make_entries_step scale dp p) vs ([], no_motion, h)
      in (es @ fst (emplace_back_pointing_motion_event (dp_device_id dp) m), h1))"

subsection \<open>Motions are neither lost nor invented\<close>

fun motion_value :: "motion_axis \<Rightarrow> pointing_motion \<Rightarrow> int" where
  "motion_value Axis_x m = pm_x m"
| "motion_value Axis_y m = pm_y m"
| "motion_value Axis_vertical_wheel m = pm_vertical_wheel m"
| "motion_value Axis_horizontal_wheel m = pm_horizontal_wheel m"

definition motion_total :: "motion_axis \<Rightarrow> entry list \<Rightarrow> int" where
  "motion_total a es =
     (\<Sum>e\<leftarrow>es. case get_pointing_motion (en_event e) of Some m \<Rightarrow> motion_value a m | None \<Rightarrow> 0)"

definition axis_input :: "(int \<Rightarrow> rat \<Rightarrow> rat) \<Rightarrow> device_properties \<Rightarrow> make_entries_parameters \<Rightarrow> motion_axis \<Rightarrow> hid_value \<Rightarrow> int" where
  "axis_input scale dp p a v =
     (if motion_axis_of (di_is_game_pad (dp_device_identifiers dp)) v = Some a
      then adjust_pointing_motion_value scale (hv_integer_value v) (axis_multiplier p a) else 0)"

lemma axis_usages_unnamed:
  "find_pair generic_desktop_pairs 48 = None" "find_pair generic_desktop_pairs 49 = None"
  "find_pair generic_desktop_pairs 56 = None" "find_pair consumer_pairs 568 = None"
  by (simp_all add: find_pair_def generic_desktop_pairs_def consumer_pairs_def)

lemma axis_not_target:
  "motion_axis_of g v = Some a \<Longrightarrow> \<not> mse_target (the (hv_usage_page v)) (the (hv_usage v))"
  using axis_usages_unnamed
  by (auto simp: motion_axis_of_def conforms_to_def mse_target_def key_code_target_def table_target_def
      page_defs split: if_split_asm)

lemma motion_total_simps [simp]:
  "motion_total a [] = 0"
  "motion_total a (es @ fs) = motion_total a es + motion_total a fs"
  by (simp_all add: motion_total_def)

lemma motion_total_other:
  "(\<And>e. e \<in> set es \<Longrightarrow> get_pointing_motion (en_event e) = None) \<Longrightarrow> motion_total a es = 0"
  by (induction es) (simp_all add: motion_total_def)

lemma event_no_motion [simp]:
  "get_pointing_motion (mse_event e) = None"
  "get_pointing_motion (make_caps_lock_state_changed_event n) = None"
  by (simp_all add: get_pointing_motion_def event_constructors)

definition pending_ok :: "pending_motion \<Rightarrow> bool" where
  "pending_ok m \<longleftrightarrow> mo_time_stamp m \<noteq> None \<or> mo_value m = (\<lambda>_. None)"

lemma emplace_total:
  "pending_ok m \<Longrightarrow> motion_total a (fst (emplace_back_pointing_motion_event d m)) = value_or 0 (mo_value m a) \<and>
     snd (emplace_back_pointing_motion_event d m) = (if mo_time_stamp m = None then m else no_motion)"
  by (cases a; cases "mo_time_stamp m")
     (simp_all add: emplace_back_pointing_motion_event_def pending_ok_def motion_total_def original_entry_def
        get_pointing_motion_def pointing_motion_event_def mk_motion_def value_or_def)

lemma make_entries_step_total:
  assumes "pending_ok m" "make_entries_step scale dp p v (es, m, h) = (es', m', h')"
  shows "pending_ok m' \<and>
    motion_total a es' + value_or 0 (mo_value m' a) =
      motion_total a es + value_or 0 (mo_value m a) + axis_input scale dp p a v"
proof -
  let ?g = "di_is_game_pad (dp_device_identifiers dp)"
  show ?thesis
  proof (cases "motion_axis_of ?g v")
    case None
    then have "axis_input scale dp p a v = 0" by (simp add: axis_input_def)
    then show ?thesis
      using assms None
      by (auto simp: make_entries_step_def Let_def original_entry_def to_dpad_events_def intro!: motion_total_other
          split: option.splits if_splits)
  next
    case (Some b)
    then obtain pg u where v: "hv_usage_page v = Some pg" "hv_usage v = Some u"
      by (auto simp: motion_axis_of_def conforms_to_def split: if_splits)
    then have "\<not> mse_target pg u" using axis_not_target [OF Some] by simp
    then show ?thesis
      using assms Some v emplace_total [OF assms(1), of a "dp_device_id dp"]
      by (cases "mo_value m b"; cases "mo_time_stamp m")
         (auto simp: make_entries_step_def Let_def axis_input_def pending_ok_def no_motion_def value_or_def
            split: prod.splits)
  qed
qed

lemma make_entries_fold_total:
  assumes "pending_ok m" "fold (make_entries_step scale dp p) vs (es, m, h) = (es', m', h')"
  shows "pending_ok m' \<and> motion_total a es' + value_or 0 (mo_value m' a) =
    motion_total a es + value_or 0 (mo_value m a) + (\<Sum>v\<leftarrow>vs. axis_input scale dp p a v)"
  using assms
proof (induction vs arbitrary: es m h)
  case (Cons v vs)
  obtain es1 m1 h1 where s: "make_entries_step scale dp p v (es, m, h) = (es1, m1, h1)"
    by (metis prod_cases3)
  show ?case using make_entries_step_total [OF Cons.prems(1) s, of a] Cons.IH [of m1 es1 h1] Cons.prems(2) s by simp
qed simp

text \<open>
  Joining the axes of a report into motion events preserves the motion: per axis, the motion events
  made from any sequence of HID values add up to the adjusted values of that axis, and an adjusted
  value stays within -127 and 127 and is zero only if the device reported zero.
\<close>

theorem motions_preserved:
  "motion_total a (fst (make_entries scale dp p vs h)) = (\<Sum>v\<leftarrow>vs. axis_input scale dp p a v) \<and>
   \<bar>adjust_pointing_motion_value scale i x\<bar> \<le> 127 \<and>
   \<not> (i \<noteq> 0 \<and> adjust_pointing_motion_value scale i x = 0)"
proof -
  obtain es m h1 where f: "fold (make_entries_step scale dp p) vs ([], no_motion, h) = (es, m, h1)"
    by (metis prod_cases3)
  have "pending_ok no_motion" by (simp add: pending_ok_def no_motion_def)
  from make_entries_fold_total [OF this f, of a]
  have "motion_total a (fst (make_entries scale dp p vs h)) = (\<Sum>v\<leftarrow>vs. axis_input scale dp p a v)"
    using emplace_total [of m a "dp_device_id dp"] by (simp add: make_entries_def f) (simp add: no_motion_def value_or_def)
  then show ?thesis by (auto simp: adjust_pointing_motion_value_def Let_def)
qed

subsection \<open>The release of all keys\<close>

definition released_entry :: "device_id \<Rightarrow> entry \<Rightarrow> entry" where
  "released_entry d e = mk_entry d (en_event_time_stamp e)
     make_device_keys_and_pointing_buttons_are_released_event Single None
     make_device_keys_and_pointing_buttons_are_released_event Virtual_event False Valid"

definition insert_released_step ::
    "device_id \<Rightarrow> entry \<Rightarrow> entry list \<times> pressed_keys_manager \<Rightarrow> entry list \<times> pressed_keys_manager" where
  "insert_released_step d e = (\<lambda>(es, pk).
     let es1 = es @ [e] in
     if en_device_id e = d then
       (if en_event_type e = Key_down then
          (case get_if_mse (en_event e) of Some m \<Rightarrow> (es1, pk_insert m pk) | None \<Rightarrow> (es1, pk))
        else if en_event_type e = Key_up then
          (if \<not> pk_empty pk then
             let pk1 = (case get_if_mse (en_event e) of Some m \<Rightarrow> pk_erase m pk | None \<Rightarrow> pk)
             in (if pk_empty pk1 then es1 @ [released_entry d e] else es1, pk1)
           else (es1, pk))
        else (es1, pk))
     else (es1, pk))"

definition insert_device_keys_and_pointing_buttons_are_released_event ::
    "entry list \<Rightarrow> device_id \<Rightarrow> pressed_keys_manager \<Rightarrow> entry list \<times> pressed_keys_manager" where
  "insert_device_keys_and_pointing_buttons_are_released_event es d pk =
     fold (insert_released_step d) es ([], pk)"

text \<open>The keys of a device that are down after some entries.\<close>

definition key_state :: "device_id \<Rightarrow> entry \<Rightarrow> momentary_switch_event set \<Rightarrow> momentary_switch_event set" where
  "key_state d e held =
     (case get_if_mse (en_event e) of
        Some m \<Rightarrow> if en_device_id e \<noteq> d then held
                  else (case en_event_type e of Key_down \<Rightarrow> insert m held | Key_up \<Rightarrow> held - {m} | Single \<Rightarrow> held)
      | None \<Rightarrow> held)"

fun with_releases :: "device_id \<Rightarrow> momentary_switch_event set \<Rightarrow> entry list \<Rightarrow> entry list" where
  "with_releases d held [] = []"
| "with_releases d held (e # es) =
     (if held \<noteq> {} \<and> key_state d e held = {} then [e, released_entry d e] else [e]) @
     with_releases d (key_state d e held) es"

lemma insert_released_fold:
  "fold (insert_released_step d) es (acc, held) = (acc @ with_releases d held es, fold (key_state d) es held)"
proof (induction es arbitrary: acc held)
  case (Cons e es)
  have "insert_released_step d e (acc, held) =
      (acc @ (if held \<noteq> {} \<and> key_state d e held = {} then [e, released_entry d e] else [e]), key_state d e held)"
    by (cases "en_event_type e"; cases "get_if_mse (en_event e)")
       (auto simp: insert_released_step_def Let_def key_state_def pk_empty_def pk_insert_def pk_erase_def)
  then show ?case using Cons by simp
qed simp

text \<open>
  The marker that all keys of a device are released follows exactly the entries by which the set of
  held keys of the device becomes empty; all entries stay, in order, and the manager ends with the
  keys that are down.
\<close>

theorem released_events_mark_last_release:
  "insert_device_keys_and_pointing_buttons_are_released_event es d held =
     (with_releases d held es, fold (key_state d) es held)"
  by (simp add: insert_device_keys_and_pointing_buttons_are_released_event_def insert_released_fold)

end
