(* ===== verification/VectorUtility.thy ===== *)
theory VectorUtility
  imports Prelude
begin

text \<open>
  \<open>vector_utility::move_element\<close>, by which profiles, rules and devices are reordered: two loops of
  adjacent swaps, equal to taking the element out and inserting it at its destination.
\<close>

definition swap_adjacent :: "nat \<Rightarrow> 'a list \<Rightarrow> 'a list" where
  "swap_adjacent i v = v[i := v ! Suc i, Suc i := v ! i]"

function move_towards_end :: "'a list \<Rightarrow> nat \<Rightarrow> nat \<Rightarrow> 'a list" where
  "move_towards_end v i dest =
     (if i < dest - 1 then move_towards_end (swap_adjacent i v) (Suc i) dest else v)"
  by pat_completeness auto
termination by (relation "measure (\<lambda>(v, i, dest). dest - i)") auto

declare move_towards_end.simps [simp del]

text \<open>The loop stops at index 0 explicitly, since the index is unsigned.\<close>

fun move_towards_front :: "'a list \<Rightarrow> nat \<Rightarrow> nat \<Rightarrow> 'a list" where
  "move_towards_front v 0 dest = (if dest = 0 then swap_adjacent 0 v else v)"
| "move_towards_front v (Suc i) dest =
     (if dest \<le> Suc i then move_towards_front (swap_adjacent (Suc i) v) i dest else v)"

definition move_element :: "nat \<Rightarrow> nat \<Rightarrow> 'a list \<Rightarrow> 'a list" where
  "move_element src dest v =
     (if src \<ge> length v \<or> dest > length v then v
      else if src < dest then move_towards_end v src dest
      else if dest < src then move_towards_front v (src - 1) dest
      else v)"

lemma swap_adjacent_split: "swap_adjacent (length xs) (xs @ a # b # ys) = xs @ b # a # ys"
  by (simp add: swap_adjacent_def nth_append list_update_append)

lemma move_towards_end_split:
  "move_towards_end (xs @ x # ys @ zs) (length xs) (Suc (length xs + length ys)) = xs @ ys @ x # zs"
proof (induction ys arbitrary: xs)
  case Nil
  then show ?case by (simp add: move_towards_end.simps)
next
  case (Cons y ys)
  have "move_towards_end (xs @ x # (y # ys) @ zs) (length xs) (Suc (length xs + length (y # ys))) =
      move_towards_end ((xs @ [y]) @ x # ys @ zs) (length (xs @ [y])) (Suc (length (xs @ [y]) + length ys))"
    by (subst move_towards_end.simps) (simp add: swap_adjacent_split)
  then show ?case using Cons [of "xs @ [y]"] by simp
qed

lemma move_towards_front_split:
  "ys \<noteq> [] \<Longrightarrow>
     move_towards_front (xs @ ys @ x # zs) (length xs + length ys - 1) (length xs) = xs @ x # ys @ zs"
proof (induction ys arbitrary: zs rule: rev_induct)
  case (snoc y ys)
  show ?case
  proof (cases "ys = []")
    case True
    have "move_towards_front (xs @ x # y # zs) i (length xs) = xs @ x # y # zs" if "i < length xs" for i
      using that by (cases i) auto
    then show ?thesis
      using True swap_adjacent_split [of "[]" y x zs] by (cases "length xs") (auto simp: swap_adjacent_split dest: sym)
  next
    case False
    then obtain k where k: "length xs + length ys = Suc k" "length xs \<le> Suc k"
      by (metis Suc_pred add_gr_0 le_add1 length_greater_0_conv)
    have "move_towards_front (xs @ (ys @ [y]) @ x # zs) (Suc k) (length xs) =
        move_towards_front (xs @ ys @ x # (y # zs)) k (length xs)"
      using k swap_adjacent_split [of "xs @ ys" y x zs] by simp
    then show ?thesis using snoc.IH [OF False, of "y # zs"] k by simp
  qed
qed simp

lemma move_element_eq:
  assumes "src < length v" "dest \<le> length v" and k: "k = (if src < dest then dest - 1 else dest)"
  shows "move_element src dest v = take k (erase_at src v) @ v ! src # drop k (erase_at src v)"
proof -
  let ?xs = "take src v" and ?x = "v ! src"
  consider "src < dest" | "dest < src" | "dest = src" by linarith
  then show ?thesis
  proof cases
    case 1
    let ?ys = "take (k - src) (drop (Suc src) v)" and ?zs = "drop (k - src) (drop (Suc src) v)"
    have v: "v = ?xs @ ?x # ?ys @ ?zs"
      unfolding append_take_drop_id by (rule id_take_nth_drop [OF assms(1)])
    have len: "length ?xs = src" "Suc (length ?xs + length ?ys) = dest" using 1 assms by auto
    have "move_towards_end v src dest = ?xs @ ?ys @ ?x # ?zs"
      using move_towards_end_split [of ?xs ?x ?ys ?zs] v len by metis
    moreover have "take k (erase_at src v) = ?xs @ ?ys" "drop k (erase_at src v) = ?zs"
      using 1 assms by (simp_all add: erase_at_def)
    ultimately show ?thesis using 1 assms by (simp add: move_element_def)
  next
    case 2
    let ?xs = "take dest v" and ?ys = "take (src - dest) (drop dest v)" and ?zs = "drop (Suc src) v"
    have "take src v = ?xs @ ?ys" using 2 by (metis le_add_diff_inverse less_imp_le take_add)
    then have v: "v = ?xs @ ?ys @ ?x # ?zs" using id_take_nth_drop [OF assms(1)] by simp
    have len: "length ?xs = dest" "length ?xs + length ?ys - 1 = src - 1" "?ys \<noteq> []" using 2 assms by auto
    have "move_towards_front v (src - 1) dest = ?xs @ ?x # ?ys @ ?zs"
      using move_towards_front_split [OF len(3), of ?xs ?x ?zs] v len by metis
    moreover have "erase_at src v = ?xs @ ?ys @ ?zs" using \<open>take src v = ?xs @ ?ys\<close> by (simp add: erase_at_def)
    ultimately show ?thesis using 2 assms len(1) by (simp add: move_element_def)
  next
    case 3
    then show ?thesis using assms by (simp add: move_element_def erase_at_def id_take_nth_drop [symmetric])
  qed
qed

lemma mset_reinsert:
  assumes "src < length v"
  shows "mset (take k (erase_at src v) @ v ! src # drop k (erase_at src v)) = mset v"
proof -
  have "mset (take k (erase_at src v) @ v ! src # drop k (erase_at src v)) = add_mset (v ! src) (mset (erase_at src v))"
    by (metis add_mset_add_single append_take_drop_id mset_append mset.simps(2) union_mset_add_mset_right)
  also have "\<dots> = mset v" using id_take_nth_drop [OF assms]
    by (metis erase_at_def mset_append mset.simps(2) union_mset_add_mset_right)
  finally show ?thesis .
qed

text \<open>
  Moving an element takes it out of its place and puts it in front of the element that was at the
  destination, or at the end; indices out of range change nothing, and no element is lost.
\<close>

theorem move_element_reinserts:
  "move_element src dest v =
     (if src < length v \<and> dest \<le> length v
      then let rest = erase_at src v; k = (if src < dest then dest - 1 else dest)
           in take k rest @ v ! src # drop k rest
      else v) \<and>
   mset (move_element src dest v) = mset v"
  using move_element_eq [of src v dest] mset_reinsert [of src v]
  by (auto simp: move_element_def Let_def)

end
