(* ===== verification/Environment.thy ===== *)
theory Environment
  imports Events
begin

text \<open>
  \<open>krbn::manipulator::manipulator_environment\<close>: the variables, devices and applications the
  conditions look at, and how variables reach an expression. The expression evaluator is third-party
  code: an expression is its source string, the wrapper's symbol table is a function from names to
  values, and evaluation is a parameter. Of the configuration only what this development reads is a
  field.
\<close>

record core_configuration =
  cc_treat_as_built_in_keyboard :: "device_identifiers \<Rightarrow> bool"
  cc_keyboard_type_v2 :: string
  cc_mouse_key_xy_scale :: int
  cc_indicate_sticky_modifier_keys_state :: bool

text \<open>A configuration and, with it, an environment for examples.\<close>

definition plain_configuration :: core_configuration where
  "plain_configuration = \<lparr>cc_treat_as_built_in_keyboard = \<lambda>_. False, cc_keyboard_type_v2 = ''ansi'',
     cc_mouse_key_xy_scale = 100, cc_indicate_sticky_modifier_keys_state = True\<rparr>"

record environment =
  env_karabiner_machine_identifier :: string
  env_device_properties :: device_properties_manager
  env_frontmost_application :: application
  env_input_source :: input_source_properties
  env_variables :: "string \<rightharpoonup> variable_value"
  env_unset_variable_names :: "string set"
  env_core_configuration :: core_configuration
  env_virtual_hid_devices_state :: virtual_hid_devices_state

definition mk_environment :: "string \<Rightarrow> core_configuration \<Rightarrow> environment" where
  "mk_environment ident cfg =
     \<lparr>env_karabiner_machine_identifier = ident, env_device_properties = [],
      env_frontmost_application = default_application, env_input_source = default_input_source,
      env_variables = Map.empty, env_unset_variable_names = {}, env_core_configuration = cfg,
      env_virtual_hid_devices_state = \<lparr>vs_keyboard_ready = False, vs_pointing_ready = False\<rparr>\<rparr>"

definition get_variable :: "environment \<Rightarrow> string \<Rightarrow> variable_value" where
  "get_variable env name = (case env_variables env name of Some v \<Rightarrow> v | None \<Rightarrow> default_variable_value)"

definition env_set_variable :: "string \<Rightarrow> variable_value \<Rightarrow> environment \<Rightarrow> environment" where
  "env_set_variable name v env =
     env\<lparr>env_variables := (env_variables env)(name \<mapsto> v),
         env_unset_variable_names := env_unset_variable_names env - {name}\<rparr>"

definition env_unset_variable :: "string \<Rightarrow> environment \<Rightarrow> environment" where
  "env_unset_variable name env =
     env\<lparr>env_variables := (env_variables env)(name := None),
         env_unset_variable_names := insert name (env_unset_variable_names env)\<rparr>"

definition set_variable_system_now_milliseconds :: "int \<Rightarrow> environment \<Rightarrow> environment" where
  "set_variable_system_now_milliseconds now env = env_set_variable ''system.now.milliseconds'' (Var_int now) env"

definition insert_device_properties :: "device_id \<Rightarrow> device_properties \<Rightarrow> environment \<Rightarrow> environment" where
  "insert_device_properties d v env = env\<lparr>env_device_properties := dpm_insert d v (env_device_properties env)\<rparr>"

definition erase_device_properties :: "device_id \<Rightarrow> environment \<Rightarrow> environment" where
  "erase_device_properties d env = env\<lparr>env_device_properties := dpm_erase d (env_device_properties env)\<rparr>"

definition set_frontmost_application :: "application \<Rightarrow> environment \<Rightarrow> environment" where
  "set_frontmost_application v env = env\<lparr>env_frontmost_application := v\<rparr>"

definition set_input_source_properties :: "input_source_properties \<Rightarrow> environment \<Rightarrow> environment" where
  "set_input_source_properties v env = env\<lparr>env_input_source := v\<rparr>"

definition set_virtual_hid_devices_state :: "virtual_hid_devices_state \<Rightarrow> environment \<Rightarrow> environment" where
  "set_virtual_hid_devices_state v env = env\<lparr>env_virtual_hid_devices_state := v\<rparr>"

definition find_device_properties :: "environment \<Rightarrow> device_id \<Rightarrow> device_properties option" where
  "find_device_properties env d = dpm_find (env_device_properties env) d"

definition determine_is_built_in_keyboard :: "core_configuration \<Rightarrow> device_properties \<Rightarrow> bool" where
  "determine_is_built_in_keyboard c d =
     (if dp_is_built_in_keyboard d then True
      else cc_treat_as_built_in_keyboard c (dp_device_identifiers d))"

text \<open>A variable that was set reads back; one that was unset reads as the default, the integer 0.\<close>

lemma get_variable_set [simp]:
  "get_variable (env_set_variable n v env) n' = (if n' = n then v else get_variable env n')"
  by (simp add: get_variable_def env_set_variable_def)

lemma get_variable_unset [simp]:
  "get_variable (env_unset_variable n env) n' = (if n' = n then Var_int 0 else get_variable env n')"
  by (simp add: get_variable_def env_unset_variable_def default_variable_value_def)

subsection \<open>Variables of an expression\<close>

datatype expression_value = Expr_number int | Expr_string string

type_synonym symbol_table = "string \<Rightarrow> expression_value"

definition is_string_variable_name :: "string \<Rightarrow> bool" where
  "is_string_variable_name n \<longleftrightarrow> suffix ''_string'' n"

text \<open>The value the resolver gives a symbol it meets while compiling.\<close>

definition initial_table :: symbol_table where
  "initial_table n = (if is_string_variable_name n then Expr_string [] else Expr_number 0)"

definition expression_set_variable :: "string \<Rightarrow> variable_value \<Rightarrow> symbol_table \<Rightarrow> symbol_table" where
  "expression_set_variable n v t =
     (case v of
        Var_int i \<Rightarrow> if is_string_variable_name n then t else t(n := Expr_number i)
      | Var_bool b \<Rightarrow> if is_string_variable_name n then t else t(n := Expr_number (if b then 1 else 0))
      | Var_string s \<Rightarrow> if is_string_variable_name n then t(n := Expr_string s) else t)"

definition expression_unset_variable :: "string \<Rightarrow> symbol_table \<Rightarrow> symbol_table" where
  "expression_unset_variable n t =
     t(n := if is_string_variable_name n then Expr_string [] else Expr_number 0)"

text \<open>
  The two loops run over unordered containers, and each iteration touches its own name only: every
  order gives the table below.
\<close>

definition apply_to_expression_variable :: "environment \<Rightarrow> symbol_table \<Rightarrow> symbol_table" where
  "apply_to_expression_variable env t = (\<lambda>n.
     let t' = (if n \<in> env_unset_variable_names env then expression_unset_variable n t else t)
     in case env_variables env n of Some v \<Rightarrow> expression_set_variable n v t' n | None \<Rightarrow> t' n)"

definition apply_in_order :: "string list \<Rightarrow> (string \<times> variable_value) list \<Rightarrow> symbol_table \<Rightarrow> symbol_table" where
  "apply_in_order us vs t =
     foldl (\<lambda>t (n, v). expression_set_variable n v t) (foldl (\<lambda>t n. expression_unset_variable n t) t us) vs"

lemma expression_set_other: "n \<noteq> m \<Longrightarrow> expression_set_variable n v t m = t m"
  by (cases v) (simp_all add: expression_set_variable_def)

lemma expression_set_local: "t n = t' n \<Longrightarrow> expression_set_variable n v t n = expression_set_variable n v t' n"
  by (cases v) (simp_all add: expression_set_variable_def)

lemma apply_in_order_unset:
  "foldl (\<lambda>t n. expression_unset_variable n t) t us n =
     (if n \<in> set us then expression_unset_variable n t n else t n)"
  by (induction us arbitrary: t) (auto simp: expression_unset_variable_def)

lemma apply_in_order_set:
  "distinct (map fst vs) \<Longrightarrow>
     foldl (\<lambda>t (n, v). expression_set_variable n v t) t vs n =
       (case map_of vs n of Some v \<Rightarrow> expression_set_variable n v t n | None \<Rightarrow> t n)"
proof (induction vs arbitrary: t)
  case (Cons x vs)
  obtain m v where x: "x = (m, v)" by fastforce
  show ?case
  proof (cases "m = n")
    case True
    then have "map_of vs n = None" using Cons.prems x by (simp add: map_of_eq_None_iff)
    then show ?thesis using Cons x True by simp
  next
    case False
    then have "expression_set_variable m v t n = t n" by (rule expression_set_other)
    then have "expression_set_variable n w (expression_set_variable m v t) n = expression_set_variable n w t n" for w
      by (rule expression_set_local)
    then show ?thesis using Cons x False \<open>expression_set_variable m v t n = t n\<close>
      by (auto split: option.split)
  qed
qed simp

lemma apply_any_order:
  assumes "set us = env_unset_variable_names env" "distinct (map fst vs)" "map_of vs = env_variables env"
  shows "apply_in_order us vs t = apply_to_expression_variable env t"
proof
  fix n
  show "apply_in_order us vs t n = apply_to_expression_variable env t n"
    unfolding apply_in_order_def apply_in_order_set [OF assms(2)] apply_to_expression_variable_def Let_def
    using assms(1,3)
    by (auto simp: apply_in_order_unset split: option.split intro!: expression_set_local)
qed

text \<open>
  What an expression sees depends on the environment alone when every variable has the type its
  name announces: whatever the wrapper's table held for a name the environment ever knew is
  overwritten.
\<close>

definition conforming :: "string \<Rightarrow> variable_value \<Rightarrow> bool" where
  "conforming n v \<longleftrightarrow> (case v of Var_string _ \<Rightarrow> is_string_variable_name n | _ \<Rightarrow> \<not> is_string_variable_name n)"

definition tracked :: "environment \<Rightarrow> symbol_table \<Rightarrow> bool" where
  "tracked env t \<longleftrightarrow>
     (\<forall>n. t n \<noteq> initial_table n \<longrightarrow> n \<in> dom (env_variables env) \<union> env_unset_variable_names env)"

lemma tracked_initial: "tracked env initial_table"
  by (simp add: tracked_def)

lemma tracked_set: "tracked env t \<Longrightarrow> tracked (env_set_variable n v env) t"
  by (auto simp: tracked_def env_set_variable_def)

lemma tracked_unset: "tracked env t \<Longrightarrow> tracked (env_unset_variable n env) t"
  by (auto simp: tracked_def env_unset_variable_def)

lemma tracked_apply: "tracked env t \<Longrightarrow> tracked env (apply_to_expression_variable env t)"
  by (auto simp: tracked_def apply_to_expression_variable_def Let_def split: option.splits if_splits)

lemma apply_independent:
  assumes "tracked env t" "\<forall>n v. env_variables env n = Some v \<longrightarrow> conforming n v"
  shows "apply_to_expression_variable env t = apply_to_expression_variable env initial_table"
proof
  fix n
  show "apply_to_expression_variable env t n = apply_to_expression_variable env initial_table n"
  proof (cases "env_variables env n")
    case None
    then show ?thesis using assms(1)
      by (auto simp: apply_to_expression_variable_def Let_def tracked_def expression_unset_variable_def)
  next
    case (Some v)
    then have "conforming n v" using assms(2) by blast
    then show ?thesis using Some
      by (cases v) (auto simp: apply_to_expression_variable_def Let_def conforming_def expression_set_variable_def)
  qed
qed

text \<open>Without the typing condition a stale value survives: a number overwritten by a string.\<close>

lemma stale_value_survives:
  "let env1 = env_set_variable ''x'' (Var_int 5) (mk_environment m c);
       env2 = env_set_variable ''x'' (Var_string ''a'') env1;
       t = apply_to_expression_variable env1 initial_table
   in apply_to_expression_variable env2 t ''x'' = Expr_number 5 \<and>
      apply_to_expression_variable env2 initial_table ''x'' = Expr_number 0"
proof -
  have "\<not> is_string_variable_name ''x''" by (simp add: is_string_variable_name_def suffix_def)
  then show ?thesis
    by (simp add: Let_def apply_to_expression_variable_def env_set_variable_def mk_environment_def
        expression_set_variable_def initial_table_def)
qed

subsection \<open>The value of an expression\<close>

text \<open>A double is a rational number here, or one of the special values.\<close>

datatype double = Finite rat | Positive_infinity | Negative_infinity | Not_a_number

definition value_int64 :: "double \<Rightarrow> int" where
  "value_int64 v =
     (case v of Finite r \<Rightarrow> if r < - (2 ^ 63) \<or> r > 2 ^ 63 then 0 else truncate_rat r | _ \<Rightarrow> 0)"

text \<open>
  A runtime is what the program gets from outside while it handles an event: the system clock's
  reading, the present symbol table of the wrapper of a \<open>set_variable\<close> expression, the evaluator, the
  regular expression engine (text, then pattern), the order in which an unordered set of flags is
  walked, and the conversions between milliseconds and the units of the machine's clock.
\<close>

record runtime =
  rt_now_milliseconds :: int
  rt_symbol_table :: "string \<Rightarrow> symbol_table"
  rt_evaluate :: "string \<Rightarrow> symbol_table \<Rightarrow> double"
  rt_regex_search :: "string \<Rightarrow> string \<Rightarrow> bool"
  rt_flag_order :: "modifier_flag set \<Rightarrow> modifier_flag list"
  rt_duration_of :: "milliseconds \<Rightarrow> time_duration"
  rt_milliseconds_of :: "time_duration \<Rightarrow> milliseconds"

definition idle_runtime :: runtime where
  "idle_runtime = \<lparr>rt_now_milliseconds = 0, rt_symbol_table = \<lambda>_. initial_table,
     rt_evaluate = \<lambda>_ _. Finite 0, rt_regex_search = (=),
     rt_flag_order = \<lambda>s. filter (\<lambda>f. f \<in> s) (Flag_zero # Flag_end # all_modifier_flags),
     rt_duration_of = \<lambda>m. m * 1000000, rt_milliseconds_of = \<lambda>d. d div 1000000\<rparr>"

lemma truncate_rat_bounds: "r \<le> of_int n \<Longrightarrow> - of_int m \<le> r \<Longrightarrow> 0 \<le> n \<Longrightarrow> 0 \<le> m \<Longrightarrow> - m \<le> truncate_rat r \<and> truncate_rat r \<le> n"
  by (auto simp: truncate_rat_def floor_le_iff ceiling_le_iff le_ceiling_iff) linarith+

subsection \<open>Properties\<close>

text \<open>
  The conversion of an expression's value to \<open>int64_t\<close> is in range for every double but one: the
  bound it compares with, \<open>numeric_limits::max()\<close> as a double, is \<open>2 ^ 63\<close>, and that value passes the
  check although it is not representable.
\<close>

theorem expression_value_fits_int64:
  "int64 (value_int64 v) = (v \<noteq> Finite (2 ^ 63))"
proof (cases v)
  case (Finite r)
  consider "r < - (2 ^ 63) \<or> r > 2 ^ 63" | "r = 2 ^ 63" | "- (2 ^ 63) \<le> r" "r < 2 ^ 63" by linarith
  then show ?thesis
  proof cases
    case 3
    then have "r < of_int (2 ^ 63)" by simp
    then have "truncate_rat r < 2 ^ 63" by (simp add: truncate_rat_def floor_less_iff ceiling_less_iff)
    moreover have "- (2 ^ 63) \<le> truncate_rat r"
      using truncate_rat_bounds [of r "2 ^ 63" "2 ^ 63"] 3 by simp
    ultimately show ?thesis using 3 by (auto simp: Finite value_int64_def int64_def)
  qed (auto simp: Finite value_int64_def int64_def truncate_rat_def)
qed (simp_all add: value_int64_def int64_def)

text \<open>
  What an expression sees does not depend on the order in which the unordered containers are
  walked nor on what it saw before, as long as every variable has the type its name announces: any
  enumeration of the environment over any table that was only ever filled from it gives the same
  table.
\<close>

theorem expression_variables_deterministic:
  assumes "set us = env_unset_variable_names env" "distinct (map fst vs)" "map_of vs = env_variables env"
    and "tracked env t" "\<forall>n v. env_variables env n = Some v \<longrightarrow> conforming n v"
  shows "apply_in_order us vs t = apply_to_expression_variable env initial_table"
  using apply_any_order [OF assms(1-3)] apply_independent [OF assms(4-5)] by simp

theorem expression_variables_deterministic_witness:
  "apply_in_order [] [(''x'', Var_int 5)] initial_table ''x'' = Expr_number 5"
proof -
  let ?env = "env_set_variable ''x'' (Var_int 5) (mk_environment [] plain_configuration)"
  have x: "\<not> is_string_variable_name ''x''" by (simp add: is_string_variable_name_def suffix_def)
  have "apply_in_order [] [(''x'', Var_int 5)] initial_table = apply_to_expression_variable ?env initial_table"
    by (rule expression_variables_deterministic)
       (simp_all add: env_set_variable_def mk_environment_def tracked_initial x conforming_def)
  then show ?thesis
    using x by (simp add: apply_to_expression_variable_def env_set_variable_def mk_environment_def
        expression_set_variable_def)
qed

text \<open>
  Without that condition the value an expression sees depends on its history: a number overwritten
  by a string stays visible to an expression that saw it, and reads as 0 in one that did not.
\<close>

theorem stale_variable_stays_visible:
  "let env1 = env_set_variable ''x'' (Var_int 5) (mk_environment m c);
       env2 = env_set_variable ''x'' (Var_string ''a'') env1;
       t = apply_to_expression_variable env1 initial_table
   in apply_to_expression_variable env2 t ''x'' = Expr_number 5 \<and>
      apply_to_expression_variable env2 initial_table ''x'' = Expr_number 0"
  by (rule stale_value_survives)

end
