(* ===== verification/Conditions.thy ===== *)
theory Conditions
  imports Environment SoftwareFunctions
begin

text \<open>
  The conditions of a rule (\<open>manipulator/conditions\<close>), their factory, and \<open>condition_manager\<close>.

  A condition is shared by pointer and caches its answers, and an expression condition owns a symbol
  table: this mutable part is kept in a store, indexed by the number a condition gets when it is made.
  Every evaluation first sets the clock variable and refreshes the tables of all registered
  expressions from the environment; expired registrations (weak pointers) are not modelled, since
  nothing reads their tables.
\<close>

datatype polarity = Cond_if | Cond_unless

datatype device_type = Device_if | Device_unless | Device_exists_if | Device_exists_unless

record device_definition =
  dd_vendor_id :: "64 word option"
  dd_product_id :: "64 word option"
  dd_location_id :: "64 word option"
  dd_device_address :: "string option"
  dd_is_keyboard :: "bool option"
  dd_is_pointing_device :: "bool option"
  dd_is_game_pad :: "bool option"
  dd_is_consumer :: "bool option"
  dd_is_touch_bar :: "bool option"
  dd_is_built_in_keyboard :: "bool option"

datatype condition =
    Cond_device device_type "device_definition list"
  | Cond_event_changed polarity bool
  | Cond_expression polarity "(nat \<times> string) option"
  | Cond_frontmost_application polarity "string list" "string list" nat
  | Cond_input_source polarity "input_source_specifier list" nat
  | Cond_keyboard_type polarity "string list"
  | Cond_variable polarity string variable_value
  | Cond_nop

record condition_context =
  ctx_device_id :: device_id
  ctx_state :: entry_state

record condition_store =
  st_frontmost :: "nat \<Rightarrow> (application \<times> bool) option"
  st_input_source :: "nat \<Rightarrow> (input_source_properties \<times> bool) option"
  st_tables :: "nat \<Rightarrow> symbol_table"
  st_expressions :: "nat list"

definition empty_store :: condition_store where
  "empty_store = \<lparr>st_frontmost = (\<lambda>_. None), st_input_source = (\<lambda>_. None),
     st_tables = (\<lambda>_. initial_table), st_expressions = []\<rparr>"

subsection \<open>Device conditions\<close>

definition dd_valid :: "device_definition \<Rightarrow> bool" where
  "dd_valid d \<longleftrightarrow> dd_vendor_id d \<noteq> None \<or> dd_product_id d \<noteq> None \<or> dd_location_id d \<noteq> None \<or>
     dd_device_address d \<noteq> None \<or> dd_is_keyboard d \<noteq> None \<or> dd_is_pointing_device d \<noteq> None \<or>
     dd_is_game_pad d \<noteq> None \<or> dd_is_consumer d \<noteq> None \<or> dd_is_touch_bar d \<noteq> None \<or>
     dd_is_built_in_keyboard d \<noteq> None"

definition differs :: "'a option \<Rightarrow> 'a \<Rightarrow> bool" where
  "differs x y \<longleftrightarrow> x \<noteq> None \<and> x \<noteq> Some y"

definition dd_fulfilled :: "device_definition \<Rightarrow> device_properties \<Rightarrow> environment \<Rightarrow> bool" where
  "dd_fulfilled d p env =
     (let i = dp_device_identifiers p in
      if differs (dd_vendor_id d) (di_vendor_id i) then False
      else if differs (dd_product_id d) (di_product_id i) then False
      else if differs (dd_location_id d) (dp_location_id p) then False
      else if differs (dd_device_address d) (di_device_address i) then False
      else if differs (dd_is_keyboard d) (di_is_keyboard i) then False
      else if differs (dd_is_pointing_device d) (di_is_pointing_device i) then False
      else if differs (dd_is_game_pad d) (di_is_game_pad i) then False
      else if differs (dd_is_consumer d) (di_is_consumer i) then False
      else if differs (dd_is_touch_bar d) (dp_is_built_in_touch_bar p) then False
      else if differs (dd_is_built_in_keyboard d) (determine_is_built_in_keyboard (env_core_configuration env) p) then False
      else True)"

text \<open>The map of devices is unordered; only the existence of a match matters.\<close>

definition device_fulfilled :: "device_type \<Rightarrow> device_definition list \<Rightarrow> condition_context \<Rightarrow> environment \<Rightarrow> bool" where
  "device_fulfilled t ds ctx env =
     (let found = ds \<noteq> [] \<and>
            (if t = Device_if \<or> t = Device_unless
             then (case find_device_properties env (ctx_device_id ctx) of
                     Some p \<Rightarrow> \<exists>d\<in>set ds. dd_fulfilled d p env
                   | None \<Rightarrow> False)
             else \<exists>(_, p)\<in>set (env_device_properties env). \<exists>d\<in>set ds. dd_fulfilled d p env)
      in if t = Device_if \<or> t = Device_exists_if then found else \<not> found)"

subsection \<open>The other conditions\<close>

definition event_changed_fulfilled :: "polarity \<Rightarrow> bool \<Rightarrow> condition_context \<Rightarrow> bool" where
  "event_changed_fulfilled p v ctx =
     (case p of
        Cond_if \<Rightarrow> if v then ctx_state ctx = Manipulated else ctx_state ctx \<noteq> Manipulated
      | Cond_unless \<Rightarrow> if v then ctx_state ctx = Original else ctx_state ctx \<noteq> Original)"

definition expression_fulfilled :: "polarity \<Rightarrow> double option \<Rightarrow> bool" where
  "expression_fulfilled p v =
     (case v of
        Some x \<Rightarrow> if x = Not_a_number then False
                  else (case p of Cond_if \<Rightarrow> x \<noteq> Finite 0 | Cond_unless \<Rightarrow> x = Finite 0)
      | None \<Rightarrow> False)"

definition matches_any :: "(string \<Rightarrow> string \<Rightarrow> bool) \<Rightarrow> string option \<Rightarrow> string list \<Rightarrow> bool" where
  "matches_any search t ps = (case t of Some s \<Rightarrow> \<exists>p\<in>set ps. search s p | None \<Rightarrow> False)"

definition by_polarity :: "polarity \<Rightarrow> bool \<Rightarrow> bool" where
  "by_polarity p found = (case p of Cond_if \<Rightarrow> found | Cond_unless \<Rightarrow> \<not> found)"

definition frontmost_fulfilled ::
    "(string \<Rightarrow> string \<Rightarrow> bool) \<Rightarrow> polarity \<Rightarrow> string list \<Rightarrow> string list \<Rightarrow> application \<Rightarrow> bool" where
  "frontmost_fulfilled search p bs fs a =
     (if matches_any search (app_bundle_identifier a) bs then by_polarity p True
      else if matches_any search (app_file_path a) fs then by_polarity p True
      else by_polarity p False)"

definition optional_match :: "(string \<Rightarrow> string \<Rightarrow> bool) \<Rightarrow> string option \<Rightarrow> string option \<Rightarrow> bool" where
  "optional_match search p t =
     (case p of None \<Rightarrow> True | Some r \<Rightarrow> (case t of Some s \<Rightarrow> search s r | None \<Rightarrow> False))"

definition specifier_test :: "(string \<Rightarrow> string \<Rightarrow> bool) \<Rightarrow> input_source_specifier \<Rightarrow> input_source_properties \<Rightarrow> bool" where
  "specifier_test search s p \<longleftrightarrow>
     optional_match search (iss_language s) (is_first_language p) \<and>
     optional_match search (iss_input_source_id s) (is_input_source_id p) \<and>
     optional_match search (iss_input_mode_id s) (is_input_mode_id p)"

definition input_source_fulfilled ::
    "(string \<Rightarrow> string \<Rightarrow> bool) \<Rightarrow> polarity \<Rightarrow> input_source_specifier list \<Rightarrow> input_source_properties \<Rightarrow> bool" where
  "input_source_fulfilled search p ss v = by_polarity p (\<exists>s\<in>set ss. specifier_test search s v)"

definition keyboard_type_fulfilled :: "polarity \<Rightarrow> string list \<Rightarrow> environment \<Rightarrow> bool" where
  "keyboard_type_fulfilled p ts env =
     by_polarity p (cc_keyboard_type_v2 (env_core_configuration env) \<in> set ts)"

definition variable_fulfilled :: "polarity \<Rightarrow> string \<Rightarrow> variable_value \<Rightarrow> environment \<Rightarrow> bool" where
  "variable_fulfilled p n v env =
     (case p of Cond_if \<Rightarrow> get_variable env n = v | Cond_unless \<Rightarrow> get_variable env n \<noteq> v)"

subsection \<open>Evaluation with caches\<close>

definition is_fulfilled ::
    "runtime \<Rightarrow> condition_context \<Rightarrow> environment \<Rightarrow> condition \<Rightarrow> condition_store \<Rightarrow> bool \<times> condition_store" where
  "is_fulfilled rt ctx env c st =
     (case c of
        Cond_device t ds \<Rightarrow> (device_fulfilled t ds ctx env, st)
      | Cond_event_changed p v \<Rightarrow> (event_changed_fulfilled p v ctx, st)
      | Cond_expression p x \<Rightarrow>
          (expression_fulfilled p (map_option (\<lambda>(k, s). rt_evaluate rt s (st_tables st k)) x), st)
      | Cond_frontmost_application p bs fs k \<Rightarrow>
          (let a = env_frontmost_application env in
           case st_frontmost st k of
             Some (a', r) \<Rightarrow>
               if a' = a then (r, st)
               else let r' = frontmost_fulfilled (rt_regex_search rt) p bs fs a
                    in (r', st\<lparr>st_frontmost := (st_frontmost st)(k := Some (a, r'))\<rparr>)
           | None \<Rightarrow>
               let r' = frontmost_fulfilled (rt_regex_search rt) p bs fs a
               in (r', st\<lparr>st_frontmost := (st_frontmost st)(k := Some (a, r'))\<rparr>))
      | Cond_input_source p ss k \<Rightarrow>
          (let v = env_input_source env in
           case st_input_source st k of
             Some (v', r) \<Rightarrow>
               if v' = v then (r, st)
               else let r' = input_source_fulfilled (rt_regex_search rt) p ss v
                    in (r', st\<lparr>st_input_source := (st_input_source st)(k := Some (v, r'))\<rparr>)
           | None \<Rightarrow>
               let r' = input_source_fulfilled (rt_regex_search rt) p ss v
               in (r', st\<lparr>st_input_source := (st_input_source st)(k := Some (v, r'))\<rparr>))
      | Cond_keyboard_type p ts \<Rightarrow> (keyboard_type_fulfilled p ts env, st)
      | Cond_variable p n v \<Rightarrow> (variable_fulfilled p n v env, st)
      | Cond_nop \<Rightarrow> (True, st))"

definition apply_environment_variables :: "environment \<Rightarrow> condition_store \<Rightarrow> condition_store" where
  "apply_environment_variables env st =
     st\<lparr>st_tables := (\<lambda>k. if k \<in> set (st_expressions st) then apply_to_expression_variable env (st_tables st k)
                       else st_tables st k)\<rparr>"

text \<open>Every condition is evaluated, also after one has failed.\<close>

fun evaluate_all ::
    "runtime \<Rightarrow> condition_context \<Rightarrow> environment \<Rightarrow> condition list \<Rightarrow> bool \<Rightarrow> condition_store \<Rightarrow> bool \<times> condition_store" where
  "evaluate_all rt ctx env [] result st = (result, st)"
| "evaluate_all rt ctx env (c # cs) result st =
     (let (b, st1) = is_fulfilled rt ctx env c st
      in evaluate_all rt ctx env cs (if \<not> b then False else result) st1)"

definition conditions_fulfilled ::
    "runtime \<Rightarrow> condition_context \<Rightarrow> condition list \<Rightarrow> environment \<times> condition_store \<Rightarrow>
     bool \<times> environment \<times> condition_store" where
  "conditions_fulfilled rt ctx cs = (\<lambda>(env, st).
     let env1 = set_variable_system_now_milliseconds (rt_now_milliseconds rt) env;
         (b, st1) = evaluate_all rt ctx env1 cs True (apply_environment_variables env1 st)
     in (b, env1, st1))"

subsection \<open>What a condition means\<close>

text \<open>The answer of a condition without caches, on the table an expression has after the refresh.\<close>

definition meaning :: "runtime \<Rightarrow> condition_context \<Rightarrow> environment \<Rightarrow> (nat \<Rightarrow> symbol_table) \<Rightarrow> condition \<Rightarrow> bool" where
  "meaning rt ctx env tables c =
     (case c of
        Cond_device t ds \<Rightarrow> device_fulfilled t ds ctx env
      | Cond_event_changed p v \<Rightarrow> event_changed_fulfilled p v ctx
      | Cond_expression p x \<Rightarrow> expression_fulfilled p (map_option (\<lambda>(k, s). rt_evaluate rt s (tables k)) x)
      | Cond_frontmost_application p bs fs k \<Rightarrow>
          by_polarity p (matches_any (rt_regex_search rt) (app_bundle_identifier (env_frontmost_application env)) bs \<or>
            matches_any (rt_regex_search rt) (app_file_path (env_frontmost_application env)) fs)
      | Cond_input_source p ss k \<Rightarrow> input_source_fulfilled (rt_regex_search rt) p ss (env_input_source env)
      | Cond_keyboard_type p ts \<Rightarrow> keyboard_type_fulfilled p ts env
      | Cond_variable p n v \<Rightarrow> variable_fulfilled p n v env
      | Cond_nop \<Rightarrow> True)"

text \<open>A cache is sound for a set of conditions if its answers are those of a fresh evaluation.\<close>

definition cached :: "(string \<Rightarrow> string \<Rightarrow> bool) \<Rightarrow> condition_store \<Rightarrow> condition \<Rightarrow> bool" where
  "cached search st c =
     (case c of
        Cond_frontmost_application p bs fs k \<Rightarrow>
          (case st_frontmost st k of Some (a, r) \<Rightarrow> r = frontmost_fulfilled search p bs fs a | None \<Rightarrow> True)
      | Cond_input_source p ss k \<Rightarrow>
          (case st_input_source st k of Some (v, r) \<Rightarrow> r = input_source_fulfilled search p ss v | None \<Rightarrow> True)
      | _ \<Rightarrow> True)"

fun condition_id :: "condition \<Rightarrow> nat option" where
  "condition_id (Cond_frontmost_application p bs fs k) = Some k"
| "condition_id (Cond_input_source p ss k) = Some k"
| "condition_id (Cond_expression p (Some (k, s))) = Some k"
| "condition_id _ = None"

text \<open>Different conditions have different numbers.\<close>

definition numbered :: "condition set \<Rightarrow> bool" where
  "numbered C \<longleftrightarrow> (\<forall>c\<in>C. \<forall>c'\<in>C. condition_id c \<noteq> None \<and> condition_id c = condition_id c' \<longrightarrow> c = c')"

lemma frontmost_eq: "frontmost_fulfilled search p bs fs a =
    by_polarity p (matches_any search (app_bundle_identifier a) bs \<or> matches_any search (app_file_path a) fs)"
  by (simp add: frontmost_fulfilled_def)

lemma is_fulfilled_meaning:
  assumes "cached (rt_regex_search rt) st c"
  shows "fst (is_fulfilled rt ctx env c st) = meaning rt ctx env (st_tables st) c"
  using assms
  by (cases c) (auto simp: is_fulfilled_def meaning_def cached_def frontmost_eq Let_def split: option.splits prod.splits)

lemma is_fulfilled_store [simp]:
  "st_tables (snd (is_fulfilled rt ctx env c st)) = st_tables st"
  "st_expressions (snd (is_fulfilled rt ctx env c st)) = st_expressions st"
  by (cases c; auto simp: is_fulfilled_def Let_def split: option.splits prod.splits)+

lemma is_fulfilled_cached:
  assumes "numbered C" "c \<in> C" "\<forall>c\<in>C. cached (rt_regex_search rt) st c"
  shows "\<forall>c'\<in>C. cached (rt_regex_search rt) (snd (is_fulfilled rt ctx env c st)) c'"
proof
  fix c' assume c': "c' \<in> C"
  have eq: "condition_id c \<noteq> None \<Longrightarrow> condition_id c = condition_id c' \<Longrightarrow> c = c'"
    using assms(1,2) c' unfolding numbered_def by blast
  have "cached (rt_regex_search rt) st c'" using assms(3) c' by blast
  then show "cached (rt_regex_search rt) (snd (is_fulfilled rt ctx env c st)) c'"
    using eq by (cases c; cases c')
      (auto simp: is_fulfilled_def cached_def Let_def split: option.splits prod.splits if_splits)
qed

lemma evaluate_all_meaning:
  assumes "numbered C" "set cs \<subseteq> C" "\<forall>c\<in>C. cached (rt_regex_search rt) st c"
  shows "fst (evaluate_all rt ctx env cs b st) = (b \<and> (\<forall>c\<in>set cs. meaning rt ctx env (st_tables st) c)) \<and>
    (\<forall>c\<in>C. cached (rt_regex_search rt) (snd (evaluate_all rt ctx env cs b st)) c) \<and>
    st_tables (snd (evaluate_all rt ctx env cs b st)) = st_tables st \<and>
    st_expressions (snd (evaluate_all rt ctx env cs b st)) = st_expressions st"
  using assms
proof (induction cs arbitrary: b st)
  case (Cons c cs)
  obtain b1 st1 where s: "is_fulfilled rt ctx env c st = (b1, st1)" by fastforce
  have "b1 = meaning rt ctx env (st_tables st) c" "\<forall>c\<in>C. cached (rt_regex_search rt) st1 c"
      "st_tables st1 = st_tables st" "st_expressions st1 = st_expressions st"
    using is_fulfilled_meaning [of rt st c ctx env] is_fulfilled_cached [OF Cons.prems(1) _ Cons.prems(3), of c ctx env]
      is_fulfilled_store [of rt ctx env c st] Cons.prems(2,3) s by auto
  then show ?case using Cons.IH [OF Cons.prems(1), of st1] Cons.prems(2) s by auto
qed simp

subsection \<open>Reading conditions\<close>

definition unknown_key_in :: "json \<Rightarrow> string \<Rightarrow> json_error" where
  "unknown_key_in j k = Unmarshal_error_dump (''unknown key `'' @ k @ ''` in `'') j ''`''"

definition unknown_type :: "string \<Rightarrow> json_error" where
  "unknown_type t = Unmarshal_error (''unknown type `'' @ t @ ''`'')"

definition not_found_in :: "json \<Rightarrow> string \<Rightarrow> json_error" where
  "not_found_in j k = Unmarshal_error_dump (quoted k @ '' is not found in `'') j ''`''"

definition polarity_of :: "string \<Rightarrow> string \<Rightarrow> json_error + polarity" where
  "polarity_of name t =
     (if t = name @ ''_if'' then Inr Cond_if
      else if t = name @ ''_unless'' then Inr Cond_unless
      else Inl (unknown_type t))"

definition default_definition :: device_definition where
  "default_definition = \<lparr>dd_vendor_id = None, dd_product_id = None, dd_location_id = None,
     dd_device_address = None, dd_is_keyboard = None, dd_is_pointing_device = None,
     dd_is_game_pad = None, dd_is_consumer = None, dd_is_touch_bar = None, dd_is_built_in_keyboard = None\<rparr>"

definition entry_key :: "string \<Rightarrow> string" where
  "entry_key k = ''identifiers entry `'' @ k @ ''`''"

definition device_definition_item ::
    "json \<Rightarrow> string \<Rightarrow> json \<Rightarrow> device_definition \<Rightarrow> json_error + device_definition" where
  "device_definition_item j k v d =
     (if k = ''vendor_id'' then
        and_then (requires_number (entry_key k) v) (\<lambda>v. Inr (d\<lparr>dd_vendor_id := Some (word_of_int (number_of v))\<rparr>))
      else if k = ''product_id'' then
        and_then (requires_number (entry_key k) v) (\<lambda>v. Inr (d\<lparr>dd_product_id := Some (word_of_int (number_of v))\<rparr>))
      else if k = ''location_id'' then
        and_then (requires_number (entry_key k) v) (\<lambda>v. Inr (d\<lparr>dd_location_id := Some (word_of_int (get_int32 v))\<rparr>))
      else if k = ''device_address'' then
        and_then (requires_string (entry_key k) v) (\<lambda>s. Inr (d\<lparr>dd_device_address := Some s\<rparr>))
      else if k = ''is_keyboard'' then
        and_then (requires_boolean (entry_key k) v) (\<lambda>b. Inr (d\<lparr>dd_is_keyboard := Some b\<rparr>))
      else if k = ''is_pointing_device'' then
        and_then (requires_boolean (entry_key k) v) (\<lambda>b. Inr (d\<lparr>dd_is_pointing_device := Some b\<rparr>))
      else if k = ''is_game_pad'' then
        and_then (requires_boolean (entry_key k) v) (\<lambda>b. Inr (d\<lparr>dd_is_game_pad := Some b\<rparr>))
      else if k = ''is_consumer'' then
        and_then (requires_boolean (entry_key k) v) (\<lambda>b. Inr (d\<lparr>dd_is_consumer := Some b\<rparr>))
      else if k = ''is_touch_bar'' then
        and_then (requires_boolean (entry_key k) v) (\<lambda>b. Inr (d\<lparr>dd_is_touch_bar := Some b\<rparr>))
      else if k = ''is_built_in_keyboard'' then
        and_then (requires_boolean (entry_key k) v) (\<lambda>b. Inr (d\<lparr>dd_is_built_in_keyboard := Some b\<rparr>))
      else if k = ''description'' then Inr d
      else Inl (unknown_key_in j k))"

fun handle_identifiers_json :: "json list \<Rightarrow> json_error + device_definition list" where
  "handle_identifiers_json [] = Inr []"
| "handle_identifiers_json (j # js) =
     and_then (requires_object ''identifiers entry'' j) (\<lambda>xs.
     and_then (fold_items (device_definition_item j) xs default_definition) (\<lambda>d.
     and_then (handle_identifiers_json js) (\<lambda>ds. Inr (if dd_valid d then d # ds else ds))))"

definition device_type_of :: "string \<Rightarrow> json_error + device_type" where
  "device_type_of t =
     (if t = ''device_if'' then Inr Device_if
      else if t = ''device_unless'' then Inr Device_unless
      else if t = ''device_exists_if'' then Inr Device_exists_if
      else if t = ''device_exists_unless'' then Inr Device_exists_unless
      else Inl (unknown_type t))"

definition device_from_json :: "json \<Rightarrow> json_error + condition" where
  "device_from_json j =
     and_then (requires_object ''json'' j) (\<lambda>xs.
     and_then (fold_items (\<lambda>k v (t, ds).
       if k = ''type'' then and_then (requires_string k v) (\<lambda>s. and_then (device_type_of s) (\<lambda>t. Inr (t, ds)))
       else if k = ''identifiers'' then
         and_then (requires_array (quoted k) v) (\<lambda>js. and_then (handle_identifiers_json js) (\<lambda>new. Inr (t, ds @ new)))
       else if k = ''description'' then Inr (t, ds)
       else Inl (unknown_key_in j k)) xs (Device_if, []))
     (\<lambda>(t, ds). Inr (Cond_device t ds)))"

definition event_changed_from_json :: "json \<Rightarrow> json_error + condition" where
  "event_changed_from_json j =
     and_then (requires_object ''json'' j) (\<lambda>xs.
     and_then (fold_items (\<lambda>k v (p, b).
       if k = ''type'' then
         and_then (requires_string k v) (\<lambda>s. and_then (polarity_of ''event_changed'' s) (\<lambda>p. Inr (p, b)))
       else if k = ''value'' then and_then (requires_boolean (quoted k) v) (\<lambda>x. Inr (p, Some x))
       else if k = ''description'' then Inr (p, b)
       else Inl (unknown_key_in j k)) xs (Cond_if, None))
     (\<lambda>(p, b). case b of Some x \<Rightarrow> Inr (Cond_event_changed p x) | None \<Rightarrow> Inl (not_found_in j ''value'')))"

definition expression_from_json :: "(string \<Rightarrow> bool) \<Rightarrow> nat \<Rightarrow> json \<Rightarrow> json_error + condition" where
  "expression_from_json bad n j =
     and_then (requires_object ''json'' j) (\<lambda>xs.
     and_then (fold_items (\<lambda>k v (p, x).
       if k = ''type'' then
         and_then (requires_string k v) (\<lambda>s. and_then (polarity_of ''expression'' s) (\<lambda>p. Inr (p, x)))
       else if k = ''expression'' then
         and_then (unmarshal_expression_string bad k v) (\<lambda>e. Inr (p, Some (n, e)))
       else if k = ''description'' then Inr (p, x)
       else Inl (unknown_key_in j k)) xs (Cond_if, None))
     (\<lambda>(p, x). Inr (Cond_expression p x)))"

definition frontmost_application_from_json :: "(string \<Rightarrow> bool) \<Rightarrow> nat \<Rightarrow> json \<Rightarrow> json_error + condition" where
  "frontmost_application_from_json bad n j =
     and_then (requires_object ''json'' j) (\<lambda>xs.
     and_then (fold_items (\<lambda>k v (p, bs, fs).
       if k = ''type'' then
         and_then (requires_string k v) (\<lambda>s. and_then (polarity_of ''frontmost_application'' s) (\<lambda>p. Inr (p, bs, fs)))
       else if k = ''bundle_identifiers'' then
         and_then (requires_array (quoted k) v) (\<lambda>js. and_then (error_at k (regexes_from_json bad js)) (\<lambda>rs. Inr (p, rs, fs)))
       else if k = ''file_paths'' then
         and_then (requires_array (quoted k) v) (\<lambda>js. and_then (error_at k (regexes_from_json bad js)) (\<lambda>rs. Inr (p, bs, rs)))
       else if k = ''description'' then Inr (p, bs, fs)
       else Inl (unknown_key_in j k)) xs (Cond_if, [], []))
     (\<lambda>(p, bs, fs). Inr (Cond_frontmost_application p bs fs n)))"

definition default_specifier :: input_source_specifier where
  "default_specifier = \<lparr>iss_language = None, iss_input_source_id = None, iss_input_mode_id = None\<rparr>"

text \<open>The engine's own description of the error, which the message starts with, is left out.\<close>

definition regex_or_error :: "(string \<Rightarrow> bool) \<Rightarrow> string \<Rightarrow> string \<Rightarrow> json_error + string" where
  "regex_or_error bad k s =
     (if bad s then Inl (Unmarshal_error_dump ('': `'' @ [CHR 0x22] @ k @ [CHR 0x22] @ '':'') (J_string s) ''`'') else Inr s)"

definition specifier_from_json :: "(string \<Rightarrow> bool) \<Rightarrow> json \<Rightarrow> json_error + input_source_specifier" where
  "specifier_from_json bad j =
     and_then (requires_object ''json'' j) (\<lambda>xs. fold_items (\<lambda>k v s.
       if k = ''language'' then
         and_then (requires_string (quoted k) v) (\<lambda>r. and_then (regex_or_error bad k r) (\<lambda>r. Inr (s\<lparr>iss_language := Some r\<rparr>)))
       else if k = ''input_source_id'' then
         and_then (requires_string (quoted k) v) (\<lambda>r. and_then (regex_or_error bad k r) (\<lambda>r. Inr (s\<lparr>iss_input_source_id := Some r\<rparr>)))
       else if k = ''input_mode_id'' then
         and_then (requires_string (quoted k) v) (\<lambda>r. and_then (regex_or_error bad k r) (\<lambda>r. Inr (s\<lparr>iss_input_mode_id := Some r\<rparr>)))
       else Inl (unknown_key k)) xs default_specifier)"

definition entry_error :: "string \<Rightarrow> json_error + 'a \<Rightarrow> json_error + 'a" where
  "entry_error k r =
     (case r of
        Inl (Unmarshal_error m) \<Rightarrow> Inl (Unmarshal_error (quoted k @ '' entry error: '' @ m))
      | Inl (Unmarshal_error_dump a j b) \<Rightarrow> Inl (Unmarshal_error_dump (quoted k @ '' entry error: '' @ a) j b)
      | _ \<Rightarrow> r)"

fun specifiers_from_list :: "(json_error + input_source_specifier \<Rightarrow> json_error + input_source_specifier) \<Rightarrow>
    (string \<Rightarrow> bool) \<Rightarrow> json list \<Rightarrow> json_error + input_source_specifier list" where
  "specifiers_from_list err bad [] = Inr []"
| "specifiers_from_list err bad (j # js) =
     and_then (err (specifier_from_json bad j)) (\<lambda>s.
     and_then (specifiers_from_list err bad js) (\<lambda>ss. Inr (s # ss)))"

definition input_source_from_json :: "(string \<Rightarrow> bool) \<Rightarrow> nat \<Rightarrow> json \<Rightarrow> json_error + condition" where
  "input_source_from_json bad n j =
     and_then (requires_object ''json'' j) (\<lambda>xs.
     and_then (fold_items (\<lambda>k v (p, ss).
       if k = ''type'' then
         and_then (requires_string k v) (\<lambda>s. and_then (polarity_of ''input_source'' s) (\<lambda>p. Inr (p, ss)))
       else if k = ''input_sources'' then
         and_then (requires_array (quoted k) v) (\<lambda>js.
           and_then (specifiers_from_list (entry_error k) bad js) (\<lambda>new. Inr (p, ss @ new)))
       else if k = ''description'' then Inr (p, ss)
       else Inl (unknown_key_in j k)) xs (Cond_if, []))
     (\<lambda>(p, ss). Inr (Cond_input_source p ss n)))"

fun strings_from_list :: "string \<Rightarrow> json list \<Rightarrow> json_error + string list" where
  "strings_from_list name [] = Inr []"
| "strings_from_list name (j # js) =
     and_then (requires_string name j) (\<lambda>s. and_then (strings_from_list name js) (\<lambda>ss. Inr (s # ss)))"

definition keyboard_type_from_json :: "json \<Rightarrow> json_error + condition" where
  "keyboard_type_from_json j =
     and_then (requires_object ''json'' j) (\<lambda>xs.
     and_then (fold_items (\<lambda>k v (p, ts).
       if k = ''type'' then
         and_then (requires_string k v) (\<lambda>s. and_then (polarity_of ''keyboard_type'' s) (\<lambda>p. Inr (p, ts)))
       else if k = ''keyboard_types'' then
         and_then (requires_array (quoted k) v) (\<lambda>js.
           and_then (strings_from_list ''keyboard_types entry'' js) (\<lambda>new. Inr (p, ts @ new)))
       else if k = ''description'' then Inr (p, ts)
       else Inl (unknown_key_in j k)) xs (Cond_if, []))
     (\<lambda>(p, ts). Inr (Cond_keyboard_type p ts)))"

definition variable_from_json :: "json \<Rightarrow> json_error + condition" where
  "variable_from_json j =
     and_then (requires_object ''json'' j) (\<lambda>xs.
     and_then (fold_items (\<lambda>k v (p, n, x).
       if k = ''type'' then
         and_then (requires_string k v) (\<lambda>s. and_then (polarity_of ''variable'' s) (\<lambda>p. Inr (p, n, x)))
       else if k = ''name'' then and_then (requires_string (quoted k) v) (\<lambda>s. Inr (p, Some s, x))
       else if k = ''value'' then and_then (variable_value_from_json v) (\<lambda>y. Inr (p, n, Some y))
       else if k = ''description'' then Inr (p, n, x)
       else Inl (unknown_key_in j k)) xs (Cond_if, None, None))
     (\<lambda>(p, n, x). case n of
        None \<Rightarrow> Inl (not_found_in j ''name'')
      | Some n' \<Rightarrow> (case x of None \<Rightarrow> Inl (not_found_in j ''value'') | Some y \<Rightarrow> Inr (Cond_variable p n' y))))"

text \<open>
  The factory. Making an expression condition registers its wrapper; a wrapper starts with the table
  its compilation creates. (\<open>variables_\<close> of the manager is never filled: nothing calls its
  \<open>set_variable\<close>.)
\<close>

definition find_type :: "json \<Rightarrow> json option" where
  "find_type j = (case j of J_object xs \<Rightarrow> map_of xs ''type'' | _ \<Rightarrow> None)"

definition register :: "condition \<Rightarrow> condition_store \<Rightarrow> condition_store" where
  "register c st =
     (case c of Cond_expression p (Some (k, s)) \<Rightarrow> st\<lparr>st_expressions := st_expressions st @ [k]\<rparr> | _ \<Rightarrow> st)"

definition make_condition ::
    "(string \<Rightarrow> bool) \<Rightarrow> (string \<Rightarrow> bool) \<Rightarrow> nat \<Rightarrow> json \<Rightarrow> condition_store \<Rightarrow> json_error + condition \<times> condition_store" where
  "make_condition bad_regex bad_expression n j st =
     (case find_type j of
        None \<Rightarrow> Inl (Unmarshal_error_dump ''condition type is not specified in `'' j ''`'')
      | Some v \<Rightarrow>
          and_then (requires_string ''condition type'' v) (\<lambda>t.
          and_then
            (if t \<in> {''device_if'', ''device_unless'', ''device_exists_if'', ''device_exists_unless''} then device_from_json j
             else if t \<in> {''event_changed_if'', ''event_changed_unless''} then event_changed_from_json j
             else if t \<in> {''expression_if'', ''expression_unless''} then expression_from_json bad_expression n j
             else if t \<in> {''frontmost_application_if'', ''frontmost_application_unless''} then
               frontmost_application_from_json bad_regex n j
             else if t \<in> {''input_source_if'', ''input_source_unless''} then input_source_from_json bad_regex n j
             else if t \<in> {''variable_if'', ''variable_unless''} then variable_from_json j
             else if t \<in> {''keyboard_type_if'', ''keyboard_type_unless''} then keyboard_type_from_json j
             else Inl (Unmarshal_error_dump (''unknown condition type `'' @ t @ ''` in `'') j ''`''))
            (\<lambda>c. Inr (c, register c st))))"

text \<open>The conditions the program makes itself.\<close>

definition make_event_changed_if_condition :: "bool \<Rightarrow> json_error + condition" where
  "make_event_changed_if_condition b =
     event_changed_from_json (J_object (obj_set ''value'' (J_bool b) (obj_set ''type'' (J_string ''event_changed_if'') [])))"

definition make_device_if_condition :: "device_identifiers \<Rightarrow> json_error + condition" where
  "make_device_if_condition i =
     device_from_json (J_object
       (obj_set ''identifiers'' (J_array [J_object
          (obj_set ''is_pointing_device'' (J_bool (di_is_pointing_device i))
          (obj_set ''is_keyboard'' (J_bool (di_is_keyboard i))
          (obj_set ''product_id'' (J_int (uint (di_product_id i)))
          (obj_set ''vendor_id'' (J_int (uint (di_vendor_id i))) []))))])
       (obj_set ''type'' (J_string ''device_if'') [])))"

definition make_device_unless_touch_bar_condition :: "json_error + condition" where
  "make_device_unless_touch_bar_condition =
     device_from_json (J_object
       (obj_set ''identifiers'' (J_array [J_object [(''is_touch_bar'', J_bool True)]])
       (obj_set ''type'' (J_string ''device_unless'') [])))"

definition make_frontmost_application_unless_condition ::
    "(string \<Rightarrow> bool) \<Rightarrow> nat \<Rightarrow> string list \<Rightarrow> json_error + condition" where
  "make_frontmost_application_unless_condition bad n bs =
     frontmost_application_from_json bad n (J_object
       (obj_set ''bundle_identifiers'' (J_array (map J_string bs))
       (obj_set ''type'' (J_string ''frontmost_application_unless'') [])))"

lemma make_event_changed_if: "make_event_changed_if_condition b = Inr (Cond_event_changed Cond_if b)"
  by (simp add: make_event_changed_if_condition_def event_changed_from_json_def polarity_of_def)

lemma make_device_unless_touch_bar:
  "make_device_unless_touch_bar_condition =
     Inr (Cond_device Device_unless [default_definition\<lparr>dd_is_touch_bar := Some True\<rparr>])"
  by (auto simp: make_device_unless_touch_bar_condition_def device_from_json_def device_type_of_def
      device_definition_item_def dd_valid_def default_definition_def)

lemma make_device_if:
  "make_device_if_condition i = Inr (Cond_device Device_if [default_definition
     \<lparr>dd_vendor_id := Some (di_vendor_id i), dd_product_id := Some (di_product_id i),
      dd_is_keyboard := Some (di_is_keyboard i), dd_is_pointing_device := Some (di_is_pointing_device i)\<rparr>])"
  by (simp add: make_device_if_condition_def device_from_json_def device_type_of_def
      device_definition_item_def dd_valid_def default_definition_def)

text \<open>
  The conditions the program makes for itself pass its own reader: a simple modification of one
  device applies exactly to the events of a device with that vendor, product and kind, whatever else
  its properties are, and never to the events of an unknown device.
\<close>

theorem device_rule_selects_device:
  "\<exists>c. make_device_if_condition i = Inr c \<and>
     (\<forall>rt ctx env tables. meaning rt ctx env tables c =
        (case find_device_properties env (ctx_device_id ctx) of
           None \<Rightarrow> False
         | Some p \<Rightarrow> (let j = dp_device_identifiers p in
             di_vendor_id j = di_vendor_id i \<and> di_product_id j = di_product_id i \<and>
             di_is_keyboard j = di_is_keyboard i \<and> di_is_pointing_device j = di_is_pointing_device i)))"
  unfolding make_device_if
  by (rule exI, rule conjI, rule refl)
     (auto simp: meaning_def device_fulfilled_def dd_fulfilled_def differs_def default_definition_def Let_def
      split: option.splits)

subsection \<open>Properties\<close>

type_synonym evaluation = "runtime \<times> condition_context \<times> condition list \<times> environment"

definition evaluation_step :: "evaluation \<Rightarrow> condition_store \<Rightarrow> condition_store" where
  "evaluation_step = (\<lambda>(rt, ctx, cs, env) st. snd (snd (conditions_fulfilled rt ctx cs (env, st))))"

definition evaluation_ok :: "(string \<Rightarrow> string \<Rightarrow> bool) \<Rightarrow> condition set \<Rightarrow> evaluation \<Rightarrow> bool" where
  "evaluation_ok search C = (\<lambda>(rt, ctx, cs, env). rt_regex_search rt = search \<and> set cs \<subseteq> C)"

lemma cached_apply [simp]: "cached search (apply_environment_variables env st) c = cached search st c"
  by (cases c) (simp_all add: cached_def apply_environment_variables_def)

lemma conditions_fulfilled_meaning:
  fixes env :: environment
  assumes "numbered C" "set cs \<subseteq> C" "\<forall>c\<in>C. cached (rt_regex_search rt) st c"
  defines "env1 \<equiv> set_variable_system_now_milliseconds (rt_now_milliseconds rt) env"
  shows "fst (conditions_fulfilled rt ctx cs (env, st)) =
      (\<forall>c\<in>set cs. meaning rt ctx env1 (st_tables (apply_environment_variables env1 st)) c) \<and>
    fst (snd (conditions_fulfilled rt ctx cs (env, st))) = env1 \<and>
    (\<forall>c\<in>C. cached (rt_regex_search rt) (snd (snd (conditions_fulfilled rt ctx cs (env, st)))) c)"
  using evaluate_all_meaning [OF assms(1,2), of rt "apply_environment_variables env1 st" ctx env1 True] assms(3)
  by (simp add: conditions_fulfilled_def env1_def Let_def split_def)

lemma evaluation_machine:
  "numbered C \<Longrightarrow> machine evaluation_step empty_store (\<lambda>st. \<forall>c\<in>C. cached search st c) (evaluation_ok search C)"
proof (unfold_locales, goal_cases)
  case 1
  show ?case by (auto simp: cached_def empty_store_def split: condition.split)
next
  case (2 st op)
  obtain rt ctx cs env where op: "op = (rt, ctx, cs, env)" by (metis prod_cases4)
  with 2 show ?case
    using conditions_fulfilled_meaning [OF 2(1), where cs = cs and rt = rt and st = st and env = env and ctx = ctx]
    by (simp add: evaluation_ok_def evaluation_step_def)
qed

text \<open>
  C35. The conditions of a rule are a conjunction, and their caches are transparent: after any sequence
  of evaluations of any of the program's conditions, for any events and environments, an evaluation
  gives the conjunction of what each condition means in the present environment, and leaves the
  environment as it is but for the clock variable.
\<close>

theorem conditions_are_a_conjunction:
  fixes env :: environment
  assumes "numbered C" "\<forall>op\<in>set ops. evaluation_ok (rt_regex_search rt) C op" "set cs \<subseteq> C"
  defines "st \<equiv> run_ops evaluation_step ops empty_store"
    and "env1 \<equiv> set_variable_system_now_milliseconds (rt_now_milliseconds rt) env"
  shows "fst (conditions_fulfilled rt ctx cs (env, st)) =
      (\<forall>c\<in>set cs. meaning rt ctx env1 (st_tables (apply_environment_variables env1 st)) c) \<and>
    fst (snd (conditions_fulfilled rt ctx cs (env, st))) = env1"
  using conditions_fulfilled_meaning [OF assms(1,3) machine.reachable_inv [OF evaluation_machine [OF assms(1)] assms(2)]]
  by (simp add: st_def env1_def)

theorem conditions_are_a_conjunction_witness:
  "let c = Cond_frontmost_application Cond_if [''a''] [] 0; env = mk_environment [] plain_configuration;
       env' = set_frontmost_application (default_application\<lparr>app_bundle_identifier := Some ''a''\<rparr>) env;
       ctx = \<lparr>ctx_device_id = 1, ctx_state = Original\<rparr>;
       st = run_ops evaluation_step [(idle_runtime, ctx, [c], env)] empty_store
   in fst (conditions_fulfilled idle_runtime ctx [c] (env', st)) = True"
proof -
  let ?c = "Cond_frontmost_application Cond_if [''a''] [] 0" and ?env = "mk_environment [] plain_configuration"
  let ?env' = "set_frontmost_application (default_application\<lparr>app_bundle_identifier := Some ''a''\<rparr>) ?env"
  let ?ctx = "\<lparr>ctx_device_id = 1, ctx_state = Original\<rparr>"
  show ?thesis
    using conditions_are_a_conjunction [where C = "{?c}" and ops = "[(idle_runtime, ?ctx, [?c], ?env)]"
        and rt = idle_runtime and cs = "[?c]" and ctx = ?ctx and env = ?env']
    by (simp add: numbered_def evaluation_ok_def meaning_def by_polarity_def matches_any_def idle_runtime_def
        set_frontmost_application_def set_variable_system_now_milliseconds_def env_set_variable_def default_application_def)
qed

text \<open>
  An \<open>unless\<close> condition is the negation of the \<open>if\<close> condition with the same data, for devices,
  applications, input sources, keyboard types and variables in every environment, and for expressions
  whose value is a number. \<open>event_changed_unless\<close> negates \<open>event_changed_if\<close> for the events of a device and for
  manipulated events, but for a virtual event both fail.
\<close>

theorem unless_negates_if:
  "meaning rt ctx env tables (Cond_device Device_unless ds) = (\<not> meaning rt ctx env tables (Cond_device Device_if ds)) \<and>
   meaning rt ctx env tables (Cond_device Device_exists_unless ds) = (\<not> meaning rt ctx env tables (Cond_device Device_exists_if ds)) \<and>
   meaning rt ctx env tables (Cond_frontmost_application Cond_unless bs fs k) =
     (\<not> meaning rt ctx env tables (Cond_frontmost_application Cond_if bs fs k)) \<and>
   meaning rt ctx env tables (Cond_input_source Cond_unless ss k) = (\<not> meaning rt ctx env tables (Cond_input_source Cond_if ss k)) \<and>
   meaning rt ctx env tables (Cond_keyboard_type Cond_unless ts) = (\<not> meaning rt ctx env tables (Cond_keyboard_type Cond_if ts)) \<and>
   meaning rt ctx env tables (Cond_variable Cond_unless n v) = (\<not> meaning rt ctx env tables (Cond_variable Cond_if n v)) \<and>
   (meaning rt ctx env tables (Cond_expression Cond_unless (Some (k, x))) =
     (rt_evaluate rt x (tables k) \<noteq> Not_a_number \<and> \<not> meaning rt ctx env tables (Cond_expression Cond_if (Some (k, x))))) \<and>
   (meaning rt ctx env tables (Cond_event_changed Cond_unless True) =
     (ctx_state ctx \<noteq> Virtual_event \<and> \<not> meaning rt ctx env tables (Cond_event_changed Cond_if True)))"
  by (cases "ctx_state ctx")
     (auto simp: meaning_def device_fulfilled_def by_polarity_def input_source_fulfilled_def keyboard_type_fulfilled_def
        variable_fulfilled_def expression_fulfilled_def event_changed_fulfilled_def Let_def)

end
