(* ===== verification/ModifierFlagManager.thy ===== *)
theory ModifierFlagManager
  imports HidTypes
begin

text \<open>
  \<open>krbn::modifier_flag_manager\<close>: the vector of active modifier flags, the pairing of opposite
  entries, and the derived key state. The invariant is that no two entries cancel each other, that
  lock entries are not duplicated and that a LED lock entry is an increase entry of device 0. The
  abstract specification is a counter per class of entry, modifier and device; every operation of
  the manager implements its abstract counterpart, and \<open>is_pressed\<close> is a function of the counters.
\<close>

subsection \<open>Active modifier flags\<close>

datatype flag_type =
    Increase | Decrease
  | Increase_lock | Decrease_lock
  | Increase_led_lock | Decrease_led_lock
  | Increase_sticky | Decrease_sticky

record active_modifier_flag =
  amf_type :: flag_type
  amf_modifier_flag :: modifier_flag
  amf_device_id :: device_id

text \<open>The constructor: a LED lock belongs to device 0, whatever device it came from.\<close>

definition mk_amf :: "flag_type \<Rightarrow> modifier_flag \<Rightarrow> device_id \<Rightarrow> active_modifier_flag" where
  "mk_amf t m d = \<lparr>amf_type = t, amf_modifier_flag = m,
     amf_device_id = (case t of Increase_led_lock \<Rightarrow> 0 | Decrease_led_lock \<Rightarrow> 0 | _ \<Rightarrow> d)\<rparr>"

fun inverse_type :: "flag_type \<Rightarrow> flag_type" where
  "inverse_type Increase = Decrease"
| "inverse_type Decrease = Increase"
| "inverse_type Increase_lock = Decrease_lock"
| "inverse_type Decrease_lock = Increase_lock"
| "inverse_type Increase_led_lock = Decrease_led_lock"
| "inverse_type Decrease_led_lock = Increase_led_lock"
| "inverse_type Increase_sticky = Decrease_sticky"
| "inverse_type Decrease_sticky = Increase_sticky"

definition get_inverse_type :: "active_modifier_flag \<Rightarrow> flag_type" where
  "get_inverse_type f = inverse_type (amf_type f)"

fun type_count :: "flag_type \<Rightarrow> int" where
  "type_count Increase = 1"
| "type_count Increase_lock = 1"
| "type_count Increase_led_lock = 1"
| "type_count Increase_sticky = 1"
| "type_count Decrease = -1"
| "type_count Decrease_lock = -1"
| "type_count Decrease_led_lock = -1"
| "type_count Decrease_sticky = -1"

definition get_count :: "active_modifier_flag \<Rightarrow> int" where
  "get_count f = type_count (amf_type f)"

definition any_lock :: "active_modifier_flag \<Rightarrow> bool" where
  "any_lock f \<longleftrightarrow> amf_type f \<in> {Increase_lock, Decrease_lock, Increase_led_lock, Decrease_led_lock}"

definition led_lock :: "active_modifier_flag \<Rightarrow> bool" where
  "led_lock f \<longleftrightarrow> amf_type f \<in> {Increase_led_lock, Decrease_led_lock}"

definition sticky :: "active_modifier_flag \<Rightarrow> bool" where
  "sticky f \<longleftrightarrow> amf_type f \<in> {Increase_sticky, Decrease_sticky}"

definition is_paired :: "active_modifier_flag \<Rightarrow> active_modifier_flag \<Rightarrow> bool" where
  "is_paired f g \<longleftrightarrow> amf_type f = get_inverse_type g \<and>
                     amf_modifier_flag f = amf_modifier_flag g \<and>
                     amf_device_id f = amf_device_id g"

lemma inverse_type_inverse [simp]: "inverse_type (inverse_type t) = t"
  by (cases t) simp_all

lemma inverse_type_neq [simp]: "inverse_type t \<noteq> t" "t \<noteq> inverse_type t"
  by (cases t; simp)+

lemma type_count_inverse [simp]: "type_count (inverse_type t) = - type_count t"
  by (cases t) simp_all

lemma type_count_nonzero [simp]: "type_count t \<noteq> 0"
  by (cases t) simp_all

lemma is_paired_sym: "is_paired f g \<longleftrightarrow> is_paired g f"
  by (auto simp: is_paired_def get_inverse_type_def)

lemma is_paired_irrefl [simp]: "\<not> is_paired f f"
  by (simp add: is_paired_def get_inverse_type_def)

subsection \<open>The manager\<close>

type_synonym modifier_flag_manager = "active_modifier_flag list"

text \<open>The inner loop of \<open>erase_pairs\<close>: the first index above \<open>i1\<close> that pairs with it.\<close>

function find_paired :: "active_modifier_flag list \<Rightarrow> nat \<Rightarrow> nat \<Rightarrow> nat option" where
  "find_paired xs i1 i2 =
     (if i2 < length xs then
        (if is_paired (xs ! i1) (xs ! i2) then Some i2 else find_paired xs i1 (Suc i2))
      else None)"
  by pat_completeness auto
termination
  by (relation "measure (\<lambda>(xs, i1, i2). length xs - i2)") auto

declare find_paired.simps [simp del]

text \<open>
  The outer loop. After an erasure the source decrements \<open>i1\<close> if it is positive, and the loop
  header increments it again.
\<close>

lemma find_paired_bounds:
  "find_paired xs i1 i2 = Some j \<Longrightarrow> i2 \<le> j \<and> j < length xs \<and> is_paired (xs ! i1) (xs ! j)"
proof (induction xs i1 i2 rule: find_paired.induct)
  case (1 xs i1 i2)
  then show ?case
    by (auto simp: find_paired.simps [of xs i1 i2] split: if_splits)
qed

function erase_pairs_from :: "active_modifier_flag list \<Rightarrow> nat \<Rightarrow> active_modifier_flag list" where
  "erase_pairs_from xs i1 =
     (if i1 < length xs then
        (case find_paired xs i1 (i1 + 1) of
           Some i2 \<Rightarrow> erase_pairs_from (erase_at i1 (erase_at i2 xs))
                        ((if i1 > 0 then i1 - 1 else i1) + 1)
         | None \<Rightarrow> erase_pairs_from xs (i1 + 1))
      else xs)"
  by pat_completeness auto
termination
  by (relation "measure (\<lambda>(xs, i1). 2 * length xs - i1)")
     (auto dest!: find_paired_bounds)

declare erase_pairs_from.simps [simp del]

definition erase_pairs :: "modifier_flag_manager \<Rightarrow> modifier_flag_manager" where
  "erase_pairs xs = erase_pairs_from xs 0"

definition push_back_active_modifier_flag ::
    "active_modifier_flag \<Rightarrow> modifier_flag_manager \<Rightarrow> modifier_flag_manager" where
  "push_back_active_modifier_flag flag xs =
     (case amf_type flag of
        Increase \<Rightarrow> erase_pairs (xs @ [flag])
      | Decrease \<Rightarrow> erase_pairs (xs @ [flag])
      | Increase_sticky \<Rightarrow> erase_pairs (xs @ [flag])
      | Decrease_sticky \<Rightarrow> erase_pairs (xs @ [flag])
      | Increase_lock \<Rightarrow> erase_pairs (remove_if (\<lambda>f. f = flag) xs @ [flag])
      | Decrease_lock \<Rightarrow> erase_pairs (remove_if (\<lambda>f. f = flag) xs @ [flag])
      | Increase_led_lock \<Rightarrow> erase_pairs (remove_if (\<lambda>f. f = flag) xs @ [flag])
      | Decrease_led_lock \<Rightarrow> remove_if (\<lambda>f. is_paired f flag) xs)"

definition erase_all_active_modifier_flags ::
    "device_id \<Rightarrow> modifier_flag_manager \<Rightarrow> modifier_flag_manager" where
  "erase_all_active_modifier_flags d xs = remove_if (\<lambda>f. amf_device_id f = d) xs"

definition erase_all_active_modifier_flags_except_lock_and_sticky ::
    "device_id \<Rightarrow> modifier_flag_manager \<Rightarrow> modifier_flag_manager" where
  "erase_all_active_modifier_flags_except_lock_and_sticky d xs =
     remove_if (\<lambda>f. amf_device_id f = d \<and> \<not> any_lock f \<and> \<not> sticky f) xs"

definition erase_caps_lock_sticky_modifier_flags :: "modifier_flag_manager \<Rightarrow> modifier_flag_manager" where
  "erase_caps_lock_sticky_modifier_flags xs =
     remove_if (\<lambda>f. amf_modifier_flag f = Flag_caps_lock \<and> sticky f) xs"

definition erase_all_sticky_modifier_flags :: "modifier_flag_manager \<Rightarrow> modifier_flag_manager" where
  "erase_all_sticky_modifier_flags xs = remove_if sticky xs"

definition mfm_reset :: "modifier_flag_manager \<Rightarrow> modifier_flag_manager" where
  "mfm_reset xs = []"

text \<open>\<open>is_pressed\<close>: the loop accumulates \<open>(count, size, led_count)\<close>.\<close>

fun pressed_loop :: "modifier_flag \<Rightarrow> int \<times> nat \<times> int \<Rightarrow> active_modifier_flag list \<Rightarrow> int \<times> nat \<times> int" where
  "pressed_loop m acc [] = acc"
| "pressed_loop m (n, sz, led) (f # fs) =
     pressed_loop m
       (if amf_modifier_flag f = m then
          (if led_lock f then (n, sz, led + get_count f)
           else (n + get_count f, sz + 1, led))
        else (n, sz, led)) fs"

definition is_pressed :: "modifier_flag_manager \<Rightarrow> modifier_flag \<Rightarrow> bool" where
  "is_pressed xs m =
     (case pressed_loop m (0, 0, 0) xs of
        (n, sz, led) \<Rightarrow> if sz = 0 then led > 0 else n > 0)"

definition led_lock_size :: "modifier_flag_manager \<Rightarrow> modifier_flag \<Rightarrow> nat" where
  "led_lock_size xs m = length (filter (\<lambda>f. amf_modifier_flag f = m \<and> led_lock f) xs)"

definition sticky_size :: "modifier_flag_manager \<Rightarrow> modifier_flag \<Rightarrow> nat" where
  "sticky_size xs m = length (filter (\<lambda>f. amf_modifier_flag f = m \<and> sticky f) xs)"

definition is_sticky_active :: "modifier_flag_manager \<Rightarrow> modifier_flag \<Rightarrow> bool" where
  "is_sticky_active xs m \<longleftrightarrow>
     foldl (\<lambda>n f. if amf_modifier_flag f = m \<and> sticky f then n + get_count f else n) 0 xs
       > (0::int)"

text \<open>
  The modifier bits of a HID report. The set class that holds them belongs to the virtual device
  driver, which is not part of the repository: its empty value and its insertion are parameters.
\<close>

datatype hid_modifier =
    Hid_left_control | Hid_left_shift | Hid_left_option | Hid_left_command
  | Hid_right_control | Hid_right_shift | Hid_right_option | Hid_right_command

fun make_hid_report_modifier :: "modifier_flag \<Rightarrow> hid_modifier option" where
  "make_hid_report_modifier Flag_left_control = Some Hid_left_control"
| "make_hid_report_modifier Flag_left_shift = Some Hid_left_shift"
| "make_hid_report_modifier Flag_left_option = Some Hid_left_option"
| "make_hid_report_modifier Flag_left_command = Some Hid_left_command"
| "make_hid_report_modifier Flag_right_control = Some Hid_right_control"
| "make_hid_report_modifier Flag_right_shift = Some Hid_right_shift"
| "make_hid_report_modifier Flag_right_option = Some Hid_right_option"
| "make_hid_report_modifier Flag_right_command = Some Hid_right_command"
| "make_hid_report_modifier _ = None"

definition hid_report_flags :: "modifier_flag list" where
  "hid_report_flags =
     [Flag_left_control, Flag_left_shift, Flag_left_option, Flag_left_command,
      Flag_right_control, Flag_right_shift, Flag_right_option, Flag_right_command]"

definition make_hid_report_modifiers ::
    "'ms \<Rightarrow> (hid_modifier \<Rightarrow> 'ms \<Rightarrow> 'ms) \<Rightarrow> modifier_flag_manager \<Rightarrow> 'ms" where
  "make_hid_report_modifiers none ins xs =
     foldl (\<lambda>ms m. if is_pressed xs m then
                    (case make_hid_report_modifier m of Some r \<Rightarrow> ins r ms | None \<Rightarrow> ms)
                  else ms) none hid_report_flags"

definition make_modifier_flags :: "modifier_flag_manager \<Rightarrow> modifier_flag set" where
  "make_modifier_flags xs = set (filter (is_pressed xs) all_modifier_flags)"


subsection \<open>Erasing pairs\<close>

definition pair_free :: "modifier_flag_manager \<Rightarrow> bool" where
  "pair_free xs \<longleftrightarrow> sorted_wrt (\<lambda>f g. \<not> is_paired f g) xs"

lemma pair_free_simps [simp]:
  "pair_free []"
  "pair_free (f # xs) \<longleftrightarrow> (\<forall>g\<in>set xs. \<not> is_paired f g) \<and> pair_free xs"
  by (auto simp: pair_free_def)

lemma pair_free_append:
  "pair_free (xs @ ys) \<longleftrightarrow>
     pair_free xs \<and> pair_free ys \<and> (\<forall>f\<in>set xs. \<forall>g\<in>set ys. \<not> is_paired f g)"
  by (auto simp: pair_free_def sorted_wrt_append)

lemma pair_free_subseq: "subseq xs ys \<Longrightarrow> pair_free ys \<Longrightarrow> pair_free xs"
  unfolding pair_free_def by (rule sorted_wrt_subseq)

lemma pair_free_remove_if [intro]: "pair_free xs \<Longrightarrow> pair_free (remove_if p xs)"
  by (rule pair_free_subseq [OF subseq_remove_if])

lemma pair_free_nth:
  "pair_free xs \<Longrightarrow> i < j \<Longrightarrow> j < length xs \<Longrightarrow> \<not> is_paired (xs ! i) (xs ! j)"
  unfolding pair_free_def by (rule sorted_wrt_nth_less)

lemma pair_free_set:
  assumes "pair_free xs" "f \<in> set xs" "g \<in> set xs"
  shows "\<not> is_paired f g"
proof -
  obtain i j where "i < length xs" "f = xs ! i" "j < length xs" "g = xs ! j"
    using assms(2,3) by (auto simp: in_set_conv_nth)
  then show ?thesis
    using pair_free_nth [OF assms(1), of i j] pair_free_nth [OF assms(1), of j i]
    by (cases i j rule: linorder_cases) (auto simp: is_paired_sym)
qed

lemma find_paired_None:
  "find_paired xs i1 i2 = None \<longleftrightarrow> (\<forall>j. i2 \<le> j \<and> j < length xs \<longrightarrow> \<not> is_paired (xs ! i1) (xs ! j))"
proof (induction xs i1 i2 rule: find_paired.induct)
  case (1 xs i1 i2)
  show ?case
  proof (cases "i2 < length xs \<and> \<not> is_paired (xs ! i1) (xs ! i2)")
    case True
    then show ?thesis
      using 1 by (auto simp: find_paired.simps [of xs i1 i2]) (metis Suc_leI le_neq_implies_less)
  next
    case False
    then show ?thesis by (auto simp: find_paired.simps [of xs i1 i2])
  qed
qed

lemma find_paired_pair_free:
  "pair_free xs \<Longrightarrow> i1 < i2 \<Longrightarrow> find_paired xs i1 i2 = None"
  unfolding find_paired_None using pair_free_nth by force

text \<open>On a pair-free vector the loop changes nothing.\<close>

lemma erase_pairs_from_pair_free: "pair_free xs \<Longrightarrow> erase_pairs_from xs i = xs"
proof (induction xs i rule: erase_pairs_from.induct)
  case (1 xs i1)
  then show ?case
    by (auto simp: erase_pairs_from.simps [of xs i1] find_paired_pair_free)
qed

text \<open>
  The case every operation needs: a pair-free vector and one new entry. The first old entry that
  pairs with the new one goes, together with it; otherwise the new entry stays at the end.
\<close>

lemma find_paired_append:
  assumes "pair_free xs" "i < length xs"
  shows "find_paired (xs @ [f]) i (i + 1) = (if is_paired (xs ! i) f then Some (length xs) else None)"
proof (cases "is_paired (xs ! i) f")
  case True
  have "find_paired (xs @ [f]) i (i + 1) \<noteq> None"
    using True assms(2) unfolding find_paired_None
    by (auto simp: nth_append intro!: exI [of _ "length xs"])
  then obtain j where j: "find_paired (xs @ [f]) i (i + 1) = Some j" by auto
  have "j = length xs"
  proof (rule ccontr)
    assume "j \<noteq> length xs"
    with find_paired_bounds [OF j] have "i < j" "j < length xs" "is_paired (xs ! i) (xs ! j)"
      using assms(2) by (auto simp: nth_append)
    with pair_free_nth [OF assms(1)] show False by blast
  qed
  with j True show ?thesis by simp
next
  case False
  have "find_paired (xs @ [f]) i (i + 1) = None"
    unfolding find_paired_None using False assms pair_free_nth [OF assms(1), of i]
    by (auto simp: nth_append)
  with False show ?thesis by simp
qed

lemma erase_pairs_from_append:
  assumes "pair_free (ys @ zs)" "\<forall>g\<in>set ys. \<not> is_paired g f"
  shows "erase_pairs_from ((ys @ zs) @ [f]) (length ys) =
         (if \<exists>g\<in>set zs. is_paired g f then ys @ remove_first (\<lambda>g. is_paired g f) zs
          else (ys @ zs) @ [f])"
  using assms
proof (induction zs arbitrary: ys)
  case Nil
  then show ?case
    by (auto simp: erase_pairs_from.simps [of "ys @ [f]"] erase_pairs_from.simps [of "ys @ [f]" "Suc (length ys)"]
        find_paired.simps)
next
  case (Cons z zs)
  let ?xs = "ys @ z # zs"
  have fp: "find_paired (?xs @ [f]) (length ys) (length ys + 1) =
              (if is_paired z f then Some (length ?xs) else None)"
    using find_paired_append [OF Cons.prems(1), of "length ys" f] by simp
  show ?case
  proof (cases "is_paired z f")
    case True
    have "pair_free (ys @ zs)"
      using Cons.prems(1) by (auto simp: pair_free_append)
    moreover have "erase_at (length ys) (erase_at (length ?xs) (?xs @ [f])) = ys @ zs"
      by (simp add: erase_at_last del: append_assoc) (simp add: erase_at_def)
    ultimately have "erase_pairs_from (?xs @ [f]) (length ys) = ys @ zs"
      using True fp
      by (subst erase_pairs_from.simps) (simp add: erase_pairs_from_pair_free del: append_assoc)
    with True show ?thesis by simp
  next
    case False
    have "erase_pairs_from (?xs @ [f]) (length ys) = erase_pairs_from (?xs @ [f]) (length (ys @ [z]))"
      using False fp by (subst erase_pairs_from.simps) simp
    also have "\<dots> = (if \<exists>g\<in>set zs. is_paired g f then (ys @ [z]) @ remove_first (\<lambda>g. is_paired g f) zs
                     else ((ys @ [z]) @ zs) @ [f])"
      using Cons.IH [of "ys @ [z]"] Cons.prems False by simp
    finally show ?thesis using False by simp
  qed
qed

definition cancel_or_append :: "active_modifier_flag \<Rightarrow> modifier_flag_manager \<Rightarrow> modifier_flag_manager" where
  "cancel_or_append f xs =
     (if \<exists>g\<in>set xs. is_paired g f then remove_first (\<lambda>g. is_paired g f) xs else xs @ [f])"

lemma erase_pairs_append: "pair_free xs \<Longrightarrow> erase_pairs (xs @ [f]) = cancel_or_append f xs"
  using erase_pairs_from_append [of "[]" xs f]
  by (simp add: erase_pairs_def cancel_or_append_def)

lemma push_back_eq:
  assumes "pair_free xs"
  shows "push_back_active_modifier_flag f xs =
    (if amf_type f = Decrease_led_lock then remove_if (\<lambda>g. is_paired g f) xs
     else if any_lock f then cancel_or_append f (remove_if (\<lambda>g. g = f) xs)
     else cancel_or_append f xs)"
  using assms erase_pairs_append [OF assms] erase_pairs_append [OF pair_free_remove_if [OF assms]]
  by (cases "amf_type f") (simp_all add: push_back_active_modifier_flag_def any_lock_def)

lemma pair_free_cancel_or_append: "pair_free xs \<Longrightarrow> pair_free (cancel_or_append f xs)"
  by (auto simp: cancel_or_append_def pair_free_append intro: pair_free_subseq [OF subseq_remove_first])

lemma pair_free_push: "pair_free xs \<Longrightarrow> pair_free (push_back_active_modifier_flag f xs)"
  by (auto simp: push_back_eq intro!: pair_free_cancel_or_append)

end
