(* ===== verification/FlagCounters.thy ===== *)
theory FlagCounters
  imports ModifierFlagManager Machines
begin

text \<open>
  The abstract specification of the modifier flag manager: one integer counter per class of entry
  (normal, lock, LED lock, sticky), modifier and device. Normal and sticky entries count without
  bound, lock entries saturate at one in either direction, LED locks are on or off. The manager's
  vector refines it, whatever the sequence of operations.
\<close>

datatype flag_class = Class_normal | Class_lock | Class_led | Class_sticky

fun class_of :: "flag_type \<Rightarrow> flag_class" where
  "class_of Increase = Class_normal"
| "class_of Decrease = Class_normal"
| "class_of Increase_lock = Class_lock"
| "class_of Decrease_lock = Class_lock"
| "class_of Increase_led_lock = Class_led"
| "class_of Decrease_led_lock = Class_led"
| "class_of Increase_sticky = Class_sticky"
| "class_of Decrease_sticky = Class_sticky"

type_synonym flag_key = "flag_class \<times> modifier_flag \<times> device_id"

definition key :: "active_modifier_flag \<Rightarrow> flag_key" where
  "key f = (class_of (amf_type f), amf_modifier_flag f, amf_device_id f)"

definition net :: "modifier_flag_manager \<Rightarrow> flag_key \<Rightarrow> int" where
  "net xs k = (\<Sum>f\<leftarrow>xs. if key f = k then get_count f else 0)"

definition mfm_inv :: "modifier_flag_manager \<Rightarrow> bool" where
  "mfm_inv xs \<longleftrightarrow> pair_free xs \<and> distinct (filter any_lock xs) \<and>
     (\<forall>f\<in>set xs. led_lock f \<longrightarrow> amf_type f = Increase_led_lock \<and> amf_device_id f = 0)"

definition wf_amf :: "active_modifier_flag \<Rightarrow> bool" where
  "wf_amf f \<longleftrightarrow> (led_lock f \<longrightarrow> amf_device_id f = 0)"

lemma wf_mk_amf [simp]: "wf_amf (mk_amf t m d)"
  by (cases t) (simp_all add: wf_amf_def mk_amf_def led_lock_def)

subsection \<open>Keys and counts\<close>

lemma get_count_cases: "get_count f = 1 \<or> get_count f = -1"
  by (cases "amf_type f") (simp_all add: get_count_def)

lemma is_paired_key: "is_paired f g \<longleftrightarrow> key f = key g \<and> get_count f = - get_count g"
  by (cases "amf_type f"; cases "amf_type g")
     (auto simp: is_paired_def get_inverse_type_def key_def get_count_def)

lemma amf_eq_iff: "f = g \<longleftrightarrow> key f = key g \<and> get_count f = get_count g"
  for f g :: active_modifier_flag
  by (cases "amf_type f"; cases "amf_type g"; cases f; cases g)
     (auto simp: key_def get_count_def)

lemma same_key_cases: "key f = key g \<Longrightarrow> f = g \<or> is_paired f g"
  using get_count_cases [of f] get_count_cases [of g] by (auto simp: amf_eq_iff is_paired_key)

lemma any_lock_key: "any_lock f \<longleftrightarrow> fst (key f) \<in> {Class_lock, Class_led}"
  by (cases "amf_type f") (simp_all add: any_lock_def key_def)

lemma led_lock_key: "led_lock f \<longleftrightarrow> fst (key f) = Class_led"
  by (cases "amf_type f") (simp_all add: led_lock_def key_def)

lemma sticky_key: "sticky f \<longleftrightarrow> fst (key f) = Class_sticky"
  by (cases "amf_type f") (simp_all add: sticky_def key_def)

lemma decrease_led_iff: "amf_type f = Decrease_led_lock \<longleftrightarrow> led_lock f \<and> get_count f = -1"
  by (cases "amf_type f") (simp_all add: led_lock_def get_count_def)

lemma increase_led_iff: "amf_type f = Increase_led_lock \<longleftrightarrow> led_lock f \<and> get_count f = 1"
  by (cases "amf_type f") (simp_all add: led_lock_def get_count_def)

lemma net_simps [simp]:
  "net [] k = 0"
  "net (f # xs) k = (if key f = k then get_count f else 0) + net xs k"
  "net (xs @ ys) k = net xs k + net ys k"
  by (simp_all add: net_def)

lemma net_filter: "net xs k = (\<Sum>f\<leftarrow>filter (\<lambda>f. key f = k) xs. get_count f)"
  by (induction xs) auto

lemma net_zero: "(\<And>f. f \<in> set xs \<Longrightarrow> key f \<noteq> k) \<Longrightarrow> net xs k = 0"
  by (induction xs) auto

lemma net_remove_if:
  "(\<And>f. f \<in> set xs \<Longrightarrow> p f \<Longrightarrow> key f \<noteq> k) \<Longrightarrow> net (remove_if p xs) k = net xs k"
  by (induction xs) auto

lemma net_cancel_or_append:
  "net (cancel_or_append f xs) k = net xs k + (if key f = k then get_count f else 0)"
proof (cases "\<exists>g\<in>set xs. is_paired g f")
  case True
  have "net xs k = (if key f = k then - get_count f else 0) + net (remove_first (\<lambda>g. is_paired g f) xs) k"
    unfolding net_def by (rule remove_first_sum [OF True]) (auto simp: is_paired_key)
  with True show ?thesis by (simp add: cancel_or_append_def)
qed (auto simp: cancel_or_append_def)

text \<open>In a pair-free vector the entries of one key are equal.\<close>

lemma pair_free_same_key:
  "pair_free xs \<Longrightarrow> f \<in> set xs \<Longrightarrow> g \<in> set xs \<Longrightarrow> key f = key g \<Longrightarrow> f = g"
  using pair_free_set same_key_cases by blast

lemma net_member_sign:
  assumes "pair_free xs" "f \<in> set xs"
  shows "net xs (key f) = get_count f * int (count_list xs f)"
proof -
  have "\<And>g. g \<in> set xs \<Longrightarrow> key g = key f \<longleftrightarrow> g = f"
    using pair_free_same_key [OF assms(1)] assms(2) by blast
  then show ?thesis
    by (induction xs) (auto simp: algebra_simps net_zero split: if_splits)
qed

lemma net_nonzero_iff:
  assumes "pair_free xs"
  shows "net xs k \<noteq> 0 \<longleftrightarrow> (\<exists>f\<in>set xs. key f = k)"
proof
  assume "\<exists>f\<in>set xs. key f = k"
  then obtain f where "f \<in> set xs" "key f = k" by blast
  then show "net xs k \<noteq> 0"
    using net_member_sign [OF assms, of f] get_count_cases [of f] by (auto simp: count_list_0_iff)
qed (metis net_zero)

lemma net_lock_member:
  assumes "mfm_inv xs" "f \<in> set xs" "any_lock f"
  shows "net xs (key f) = get_count f"
proof -
  have "count_list (filter any_lock xs) f = 1"
    using assms by (intro count_list_distinct) (auto simp: mfm_inv_def)
  moreover have "count_list xs f = count_list (filter any_lock xs) f"
    using assms(3) by (induction xs) auto
  ultimately show ?thesis
    using net_member_sign [of xs f] assms by (simp add: mfm_inv_def)
qed

subsection \<open>The invariant\<close>

lemma mfm_inv_Nil: "mfm_inv []"
  by (simp add: mfm_inv_def)

lemma mfm_inv_subseq:
  assumes "subseq xs ys" "mfm_inv ys"
  shows "mfm_inv xs"
proof -
  have "subseq (filter any_lock xs) (filter any_lock ys)"
    by (rule subseq_filter [OF assms(1)])
  then have "distinct (filter any_lock xs)"
    using assms(2) by (auto simp: mfm_inv_def intro: distinct_subseq)
  then show ?thesis
    using assms pair_free_subseq [OF assms(1)] subseq_set_mono [OF assms(1)]
    by (auto simp: mfm_inv_def)
qed

lemma mfm_inv_remove_if [intro]: "mfm_inv xs \<Longrightarrow> mfm_inv (remove_if p xs)"
  by (rule mfm_inv_subseq [OF subseq_remove_if])

lemma mfm_inv_cancel_or_append:
  assumes "mfm_inv xs" "wf_amf f" "amf_type f \<noteq> Decrease_led_lock" "any_lock f \<longrightarrow> f \<notin> set xs"
  shows "mfm_inv (cancel_or_append f xs)"
proof (cases "\<exists>g\<in>set xs. is_paired g f")
  case True
  then show ?thesis
    using mfm_inv_subseq [OF subseq_remove_first assms(1)] by (simp add: cancel_or_append_def)
next
  case False
  then have "pair_free (xs @ [f])"
    using assms(1) by (auto simp: pair_free_append mfm_inv_def)
  moreover have "led_lock f \<Longrightarrow> amf_type f = Increase_led_lock"
    using assms(3) decrease_led_iff increase_led_iff get_count_cases [of f] by blast
  ultimately show ?thesis
    using assms False by (auto simp: cancel_or_append_def mfm_inv_def wf_amf_def)
qed

lemma mfm_inv_push:
  assumes "mfm_inv xs" "wf_amf f"
  shows "mfm_inv (push_back_active_modifier_flag f xs)"
proof -
  have pf: "pair_free xs" using assms(1) by (simp add: mfm_inv_def)
  show ?thesis
    unfolding push_back_eq [OF pf]
    using assms by (auto intro!: mfm_inv_cancel_or_append)
qed

subsection \<open>The abstract step\<close>

definition apush :: "active_modifier_flag \<Rightarrow> (flag_key \<Rightarrow> int) \<Rightarrow> flag_key \<Rightarrow> int" where
  "apush f a = a(key f :=
     (case class_of (amf_type f) of
        Class_normal \<Rightarrow> a (key f) + get_count f
      | Class_sticky \<Rightarrow> a (key f) + get_count f
      | Class_lock \<Rightarrow> max (-1) (min 1 (a (key f) + get_count f))
      | Class_led \<Rightarrow> if get_count f > 0 then 1 else 0))"

lemma net_push_other:
  assumes "mfm_inv xs" "key f \<noteq> k"
  shows "net (push_back_active_modifier_flag f xs) k = net xs k"
proof -
  have pf: "pair_free xs" using assms(1) by (simp add: mfm_inv_def)
  have "net (remove_if (\<lambda>g. g = f) xs) k = net xs k"
    using assms(2) by (intro net_remove_if) auto
  moreover have "net (remove_if (\<lambda>g. is_paired g f) xs) k = net xs k"
    using assms(2) by (intro net_remove_if) (auto simp: is_paired_key)
  ultimately show ?thesis
    using assms(2) by (simp add: push_back_eq [OF pf] net_cancel_or_append)
qed

lemma net_push_unlocked:
  assumes "mfm_inv xs" "\<not> any_lock f"
  shows "net (push_back_active_modifier_flag f xs) (key f) = net xs (key f) + get_count f"
proof -
  have pf: "pair_free xs" using assms(1) by (simp add: mfm_inv_def)
  have "amf_type f \<noteq> Decrease_led_lock" using assms(2) by (auto simp: any_lock_def)
  then show ?thesis using assms(2) by (simp add: push_back_eq [OF pf] net_cancel_or_append)
qed

lemma net_push_locked:
  assumes inv: "mfm_inv xs" and lock: "any_lock f" and ty: "amf_type f \<noteq> Decrease_led_lock"
  shows "net (push_back_active_modifier_flag f xs) (key f) = max (-1) (min 1 (net xs (key f) + get_count f))"
proof -
  have pf: "pair_free xs" using inv by (simp add: mfm_inv_def)
  let ?ys = "remove_if (\<lambda>g. g = f) xs"
  have push: "net (push_back_active_modifier_flag f xs) (key f) = net ?ys (key f) + get_count f"
    using lock ty by (simp add: push_back_eq [OF pf] net_cancel_or_append)
  show ?thesis
  proof (cases "f \<in> set xs")
    case True
    have "net ?ys (key f) = 0"
      using pair_free_same_key [OF pf _ True] by (intro net_zero) auto
    with True push net_lock_member [OF inv True lock] get_count_cases [of f] show ?thesis by auto
  next
    case False
    then have ys: "?ys = xs" by (intro remove_if_id) auto
    show ?thesis
    proof (cases "\<exists>g\<in>set xs. key g = key f")
      case True
      then obtain g where g: "g \<in> set xs" "key g = key f" by blast
      with False have "is_paired g f" using same_key_cases [of g f] by auto
      moreover have "any_lock g" using lock g(2) by (simp add: any_lock_key)
      ultimately have "net xs (key f) = - get_count f"
        using net_lock_member [OF inv g(1)] g(2) by (simp add: is_paired_key)
      with push ys show ?thesis by simp
    next
      case False
      then have "net xs (key f) = 0" by (intro net_zero) auto
      with push ys get_count_cases [of f] show ?thesis by auto
    qed
  qed
qed

lemma net_led_range:
  assumes "mfm_inv xs"
  shows "net xs (Class_led, m, d) \<in> {0, 1}"
proof (cases "\<exists>f\<in>set xs. key f = (Class_led, m, d)")
  case True
  then obtain f where f: "f \<in> set xs" "key f = (Class_led, m, d)" by blast
  then have "led_lock f" "any_lock f" by (simp_all add: led_lock_key any_lock_key)
  with assms f have "get_count f = 1" by (auto simp: mfm_inv_def increase_led_iff)
  with net_lock_member [OF assms f(1) \<open>any_lock f\<close>] f(2) show ?thesis by simp
next
  case False
  then have "net xs (Class_led, m, d) = 0" by (intro net_zero) auto
  then show ?thesis by simp
qed

lemma net_push_led_off:
  assumes inv: "mfm_inv xs" and ty: "amf_type f = Decrease_led_lock"
  shows "net (push_back_active_modifier_flag f xs) (key f) = 0"
proof -
  have pf: "pair_free xs" using inv by (simp add: mfm_inv_def)
  have fl: "led_lock f" "get_count f = -1" using ty by (simp_all add: decrease_led_iff)
  have "\<And>g. g \<in> set xs \<Longrightarrow> key g = key f \<Longrightarrow> is_paired g f"
    using inv fl by (auto simp: mfm_inv_def led_lock_key increase_led_iff is_paired_key)
  then show ?thesis
    using ty by (auto simp: push_back_eq [OF pf] intro!: net_zero)
qed

lemma net_push:
  assumes "mfm_inv xs" "wf_amf f"
  shows "net (push_back_active_modifier_flag f xs) = apush f (net xs)"
proof
  fix k
  show "net (push_back_active_modifier_flag f xs) k = apush f (net xs) k"
  proof (cases "key f = k")
    case False
    then show ?thesis by (simp add: net_push_other [OF assms(1)] apush_def)
  next
    case True
    have led: "class_of (amf_type f) = Class_led \<Longrightarrow> net xs (key f) \<in> {0, 1}"
      using net_led_range [OF assms(1)] by (simp add: key_def)
    show ?thesis
      using True led net_push_unlocked [OF assms(1), of f] net_push_locked [OF assms(1), of f]
        net_push_led_off [OF assms(1), of f]
      by (cases "amf_type f") (auto simp: apush_def any_lock_def get_count_def)
  qed
qed

subsection \<open>All operations\<close>

datatype mfm_op =
    Push_flag active_modifier_flag
  | Erase_all device_id
  | Erase_all_except_lock_and_sticky device_id
  | Erase_caps_lock_sticky
  | Erase_all_sticky
  | Reset_flags

fun mfm_step :: "mfm_op \<Rightarrow> modifier_flag_manager \<Rightarrow> modifier_flag_manager" where
  "mfm_step (Push_flag f) = push_back_active_modifier_flag f"
| "mfm_step (Erase_all d) = erase_all_active_modifier_flags d"
| "mfm_step (Erase_all_except_lock_and_sticky d) =
     erase_all_active_modifier_flags_except_lock_and_sticky d"
| "mfm_step Erase_caps_lock_sticky = erase_caps_lock_sticky_modifier_flags"
| "mfm_step Erase_all_sticky = erase_all_sticky_modifier_flags"
| "mfm_step Reset_flags = mfm_reset"

fun mfm_ok :: "mfm_op \<Rightarrow> bool" where
  "mfm_ok (Push_flag f) = wf_amf f"
| "mfm_ok _ = True"

definition clear_keys :: "(flag_key \<Rightarrow> bool) \<Rightarrow> (flag_key \<Rightarrow> int) \<Rightarrow> flag_key \<Rightarrow> int" where
  "clear_keys P a k = (if P k then 0 else a k)"

fun counter_step :: "mfm_op \<Rightarrow> (flag_key \<Rightarrow> int) \<Rightarrow> flag_key \<Rightarrow> int" where
  "counter_step (Push_flag f) a = apush f a"
| "counter_step (Erase_all d) a = clear_keys (\<lambda>(c, m, d'). d' = d) a"
| "counter_step (Erase_all_except_lock_and_sticky d) a =
     clear_keys (\<lambda>(c, m, d'). d' = d \<and> c = Class_normal) a"
| "counter_step Erase_caps_lock_sticky a =
     clear_keys (\<lambda>(c, m, d'). c = Class_sticky \<and> m = Flag_caps_lock) a"
| "counter_step Erase_all_sticky a = clear_keys (\<lambda>(c, m, d'). c = Class_sticky) a"
| "counter_step Reset_flags a = (\<lambda>_. 0)"

lemma net_remove_if_key:
  assumes "\<And>f. p f \<longleftrightarrow> P (key f)"
  shows "net (remove_if p xs) = clear_keys P (net xs)"
proof
  fix k
  show "net (remove_if p xs) k = clear_keys P (net xs) k"
    using assms by (induction xs) (auto simp: clear_keys_def)
qed

lemma normal_key: "\<not> any_lock f \<and> \<not> sticky f \<longleftrightarrow> fst (key f) = Class_normal"
  by (cases "fst (key f)") (auto simp: any_lock_key sticky_key)

lemma mfm_refine:
  assumes "mfm_inv xs" "mfm_ok op"
  shows "net (mfm_step op xs) = counter_step op (net xs)"
proof (cases op)
  case (Push_flag f)
  then show ?thesis using assms net_push by simp
next
  case (Erase_all_except_lock_and_sticky d)
  then show ?thesis
    by (simp add: erase_all_active_modifier_flags_except_lock_and_sticky_def, intro net_remove_if_key)
       (use normal_key in \<open>auto simp: key_def\<close>)
next
  case Reset_flags
  then show ?thesis by (auto simp: mfm_reset_def)
qed (auto simp: erase_all_active_modifier_flags_def erase_caps_lock_sticky_modifier_flags_def
      erase_all_sticky_modifier_flags_def sticky_key key_def intro!: net_remove_if_key)

lemma mfm_inv_step: "mfm_inv xs \<Longrightarrow> mfm_ok op \<Longrightarrow> mfm_inv (mfm_step op xs)"
  by (cases op)
     (auto simp: mfm_inv_push mfm_inv_Nil erase_all_active_modifier_flags_def mfm_reset_def
        erase_all_active_modifier_flags_except_lock_and_sticky_def
        erase_caps_lock_sticky_modifier_flags_def erase_all_sticky_modifier_flags_def)

interpretation mfm: refined_machine mfm_step "[]" mfm_inv mfm_ok net counter_step
  by unfold_locales (simp_all add: mfm_inv_Nil mfm_inv_step mfm_refine)

subsection \<open>The derived key state\<close>

definition counts_for :: "modifier_flag \<Rightarrow> active_modifier_flag \<Rightarrow> bool" where
  "counts_for m f \<longleftrightarrow> amf_modifier_flag f = m \<and> \<not> led_lock f"

definition total :: "modifier_flag_manager \<Rightarrow> modifier_flag \<Rightarrow> int" where
  "total xs m = (\<Sum>f\<leftarrow>xs. if counts_for m f then get_count f else 0)"

definition led_total :: "modifier_flag_manager \<Rightarrow> modifier_flag \<Rightarrow> int" where
  "led_total xs m =
     (\<Sum>f\<leftarrow>xs. if amf_modifier_flag f = m \<and> led_lock f then get_count f else 0)"

lemma total_simps [simp]:
  "total [] m = 0"
  "total (f # xs) m = (if counts_for m f then get_count f else 0) + total xs m"
  "total (xs @ ys) m = total xs m + total ys m"
  by (simp_all add: total_def)

lemma led_total_simps [simp]:
  "led_total [] m = 0"
  "led_total (f # xs) m =
     (if amf_modifier_flag f = m \<and> led_lock f then get_count f else 0) + led_total xs m"
  by (simp_all add: led_total_def)

lemma pressed_loop_eq:
  "pressed_loop m (n, sz, led) xs =
     (n + total xs m, sz + length (filter (counts_for m) xs), led + led_total xs m)"
  by (induction xs arbitrary: n sz led) (auto simp: counts_for_def)

lemma is_pressed_eq:
  "is_pressed xs m \<longleftrightarrow>
     (if \<exists>f\<in>set xs. counts_for m f then total xs m > 0 else led_total xs m > 0)"
  by (auto simp: is_pressed_def pressed_loop_eq filter_empty_conv)

lemma is_pressed_Nil [simp]: "\<not> is_pressed [] m"
  by (simp add: is_pressed_eq)

text \<open>The same state read off the counters.\<close>

definition key_support :: "(flag_key \<Rightarrow> int) \<Rightarrow> modifier_flag \<Rightarrow> flag_key set" where
  "key_support a m = {k. fst k \<noteq> Class_led \<and> fst (snd k) = m \<and> a k \<noteq> 0}"

definition counter_pressed :: "(flag_key \<Rightarrow> int) \<Rightarrow> modifier_flag \<Rightarrow> bool" where
  "counter_pressed a m \<longleftrightarrow>
     (if key_support a m = {} then a (Class_led, m, 0) > 0 else (\<Sum>k\<in>key_support a m. a k) > 0)"

lemma counts_for_key: "counts_for m f \<longleftrightarrow> fst (key f) \<noteq> Class_led \<and> fst (snd (key f)) = m"
  by (auto simp: counts_for_def led_lock_key key_def)

lemma key_support_net:
  "pair_free xs \<Longrightarrow> key_support (net xs) m = key ` {f \<in> set xs. counts_for m f}"
  by (force simp: key_support_def net_nonzero_iff counts_for_key image_iff)

lemma total_eq_sum:
  assumes "finite K" "\<And>f. f \<in> set xs \<Longrightarrow> counts_for m f \<longleftrightarrow> key f \<in> K"
  shows "total xs m = (\<Sum>k\<in>K. net xs k)"
  using assms(2)
proof (induction xs)
  case (Cons f xs)
  have "(\<Sum>k\<in>K. if key f = k then get_count f else 0) = (if key f \<in> K then get_count f else 0)"
    using assms(1) by simp
  with Cons show ?case by (simp add: sum.distrib)
qed simp

lemma led_total_net:
  assumes "mfm_inv xs"
  shows "led_total xs m = net xs (Class_led, m, 0)"
proof -
  have "\<forall>f\<in>set xs. (amf_modifier_flag f = m \<and> led_lock f) = (key f = (Class_led, m, 0))"
    using assms by (auto simp: mfm_inv_def led_lock_key key_def)
  then show ?thesis by (induction xs) auto
qed

lemma is_pressed_counters:
  assumes inv: "mfm_inv xs"
  shows "is_pressed xs m = counter_pressed (net xs) m"
proof -
  have pf: "pair_free xs" using inv by (simp add: mfm_inv_def)
  let ?K = "key_support (net xs) m"
  have K: "?K = key ` {f \<in> set xs. counts_for m f}" by (rule key_support_net [OF pf])
  have "total xs m = (\<Sum>k\<in>?K. net xs k)"
    by (rule total_eq_sum) (auto simp: K counts_for_key image_iff)
  then show ?thesis
    by (auto simp: is_pressed_eq counter_pressed_def K led_total_net [OF inv])
qed

lemma total_push_unlocked:
  assumes "mfm_inv xs" "\<not> any_lock f"
  shows "total (push_back_active_modifier_flag f xs) m =
         total xs m + (if amf_modifier_flag f = m then get_count f else 0)"
proof -
  have pf: "pair_free xs" using assms(1) by (simp add: mfm_inv_def)
  have nl: "\<not> led_lock f" "amf_type f \<noteq> Decrease_led_lock"
    using assms(2) by (auto simp: any_lock_def led_lock_def)
  have "total (cancel_or_append f xs) m = total xs m + (if counts_for m f then get_count f else 0)"
  proof (cases "\<exists>g\<in>set xs. is_paired g f")
    case True
    have "total xs m = (if counts_for m f then - get_count f else 0) + total (remove_first (\<lambda>g. is_paired g f) xs) m"
      unfolding total_def by (rule remove_first_sum [OF True]) (auto simp: is_paired_key counts_for_key)
    with True show ?thesis by (simp add: cancel_or_append_def)
  qed (auto simp: cancel_or_append_def)
  with nl assms(2) show ?thesis by (simp add: push_back_eq [OF pf] counts_for_def)
qed

end
