(* ===== verification/ScopedModifierFlags.thy ===== *)
theory ScopedModifierFlags
  imports FlagCounters
begin

text \<open>
  \<open>krbn::modifier_flag_manager::scoped_modifier_flags\<close>: the RAII object that forces a set of
  modifier flags for the duration of a scope. The constructor repeats \<open>increase\<close> entries until a
  wanted flag is pressed and pushes the inverse of every entry of an unwanted one; the destructor
  pushes the inverses of everything the constructor pushed.
\<close>

definition scoped_flags :: "modifier_flag list" where
  "scoped_flags =
     [Flag_caps_lock, Flag_left_control, Flag_left_shift, Flag_left_option, Flag_left_command,
      Flag_right_control, Flag_right_shift, Flag_right_option, Flag_right_command, Flag_fn]"

definition push_scoped ::
    "active_modifier_flag \<Rightarrow> modifier_flag_manager \<times> active_modifier_flag list
       \<Rightarrow> modifier_flag_manager \<times> active_modifier_flag list" where
  "push_scoped f s = (push_back_active_modifier_flag f (fst s), snd s @ [f])"

text \<open>Pushing a normal entry adds its count, even to a vector that still holds pairs.\<close>

lemma total_erase_at:
  "i < length xs \<Longrightarrow>
     total (erase_at i xs) m = total xs m - (if counts_for m (xs ! i) then get_count (xs ! i) else 0)"
  unfolding total_def by (subst (2) sum_list_erase_at) auto

lemma nth_erase_at_less: "i < j \<Longrightarrow> j < length xs \<Longrightarrow> erase_at j xs ! i = xs ! i"
  by (simp add: erase_at_def nth_append)

lemma total_erase_pairs_from: "total (erase_pairs_from xs i) m = total xs m"
proof (induction xs i rule: erase_pairs_from.induct)
  case (1 xs i1)
  show ?case
  proof (cases "find_paired xs i1 (i1 + 1)")
    case None
    then show ?thesis using 1 by (simp add: erase_pairs_from.simps [of xs i1])
  next
    case (Some i2)
    have b: "i1 < i2" "i2 < length xs" "is_paired (xs ! i1) (xs ! i2)"
      using find_paired_bounds [OF Some] by auto
    have "counts_for m (xs ! i1) = counts_for m (xs ! i2)"
         "get_count (xs ! i1) = - get_count (xs ! i2)"
      using b(3) by (auto simp: is_paired_key counts_for_key)
    then have "total (erase_at i1 (erase_at i2 xs)) m = total xs m"
      using b(1,2) by (simp add: total_erase_at nth_erase_at_less)
    then show ?thesis using 1 Some by (simp add: erase_pairs_from.simps [of xs i1])
  qed
qed

lemma total_push_increase:
  "total (push_back_active_modifier_flag (mk_amf Increase m d) xs) m = total xs m + 1"
  by (simp add: push_back_active_modifier_flag_def mk_amf_def erase_pairs_def
      total_erase_pairs_from counts_for_def led_lock_def get_count_def)

lemma total_not_pressed: "\<not> is_pressed xs m \<Longrightarrow> total xs m \<le> 0"
proof (cases "\<exists>f\<in>set xs. counts_for m f")
  case False
  then have "total xs m = 0" by (induction xs) auto
  then show ?thesis by simp
qed (auto simp: is_pressed_eq)

function press_until ::
    "modifier_flag \<Rightarrow> modifier_flag_manager \<times> active_modifier_flag list
       \<Rightarrow> modifier_flag_manager \<times> active_modifier_flag list" where
  "press_until m s =
     (if is_pressed (fst s) m then s else press_until m (push_scoped (mk_amf Increase m 0) s))"
  by pat_completeness auto
termination
proof (relation "measure (\<lambda>(m, s). nat (1 - total (fst s) m))")
  fix m and s :: "modifier_flag_manager \<times> active_modifier_flag list"
  assume "\<not> is_pressed (fst s) m"
  then show "((m, push_scoped (mk_amf Increase m 0) s), m, s)
      \<in> measure (\<lambda>(m, s). nat (1 - total (fst s) m))"
    using total_not_pressed [of "fst s" m] by (simp add: push_scoped_def total_push_increase)
qed simp

declare press_until.simps [simp del]

definition release_all ::
    "modifier_flag \<Rightarrow> modifier_flag_manager \<times> active_modifier_flag list
       \<Rightarrow> modifier_flag_manager \<times> active_modifier_flag list" where
  "release_all m s =
     foldl (\<lambda>s f. if amf_modifier_flag f = m
                   then push_scoped (mk_amf (get_inverse_type f) (amf_modifier_flag f) 0) s else s)
       s (fst s)"

definition scope_flag ::
    "modifier_flag set \<Rightarrow> modifier_flag_manager \<times> active_modifier_flag list \<Rightarrow> modifier_flag
       \<Rightarrow> modifier_flag_manager \<times> active_modifier_flag list" where
  "scope_flag flags s m =
     (if m \<in> flags then press_until m s
      else if is_pressed (fst s) m then release_all m s else s)"

definition scope_enter ::
    "modifier_flag set \<Rightarrow> modifier_flag_manager \<Rightarrow> modifier_flag_manager \<times> active_modifier_flag list" where
  "scope_enter flags xs = foldl (scope_flag flags) (xs, []) scoped_flags"

definition get_inverse_active_modifier_flags :: "active_modifier_flag list \<Rightarrow> active_modifier_flag list" where
  "get_inverse_active_modifier_flags fs =
     map (\<lambda>f. mk_amf (get_inverse_type f) (amf_modifier_flag f) (amf_device_id f)) fs"

definition scope_leave :: "modifier_flag_manager \<Rightarrow> active_modifier_flag list \<Rightarrow> modifier_flag_manager" where
  "scope_leave xs fs =
     foldl (\<lambda>xs f. push_back_active_modifier_flag f xs) xs (get_inverse_active_modifier_flags fs)"

subsection \<open>Sequences of pushes\<close>

definition push_all :: "active_modifier_flag list \<Rightarrow> modifier_flag_manager \<Rightarrow> modifier_flag_manager" where
  "push_all fs xs = foldl (\<lambda>xs f. push_back_active_modifier_flag f xs) xs fs"

lemma push_all_simps [simp]:
  "push_all [] xs = xs"
  "push_all (f # fs) xs = push_all fs (push_back_active_modifier_flag f xs)"
  "push_all (fs @ gs) xs = push_all gs (push_all fs xs)"
  by (simp_all add: push_all_def)

lemma push_all_run: "push_all fs xs = run_ops mfm_step (map Push_flag fs) xs"
  by (induction fs arbitrary: xs) auto

lemma mfm_inv_push_all: "mfm_inv xs \<Longrightarrow> \<forall>f\<in>set fs. wf_amf f \<Longrightarrow> mfm_inv (push_all fs xs)"
  unfolding push_all_run by (rule mfm.inv_run) auto

text \<open>Each counter after a sequence of pushes that holds no lock entry.\<close>

definition unlocked :: "active_modifier_flag \<Rightarrow> bool" where
  "unlocked f \<longleftrightarrow> class_of (amf_type f) \<noteq> Class_lock"

definition key_sum :: "flag_key \<Rightarrow> active_modifier_flag list \<Rightarrow> int" where
  "key_sum k fs = (\<Sum>f\<leftarrow>fs. if key f = k then get_count f else 0)"

lemma net_push_all_count:
  assumes "mfm_inv xs" "\<forall>f\<in>set fs. wf_amf f" "fst k = Class_normal \<or> fst k = Class_sticky"
  shows "net (push_all fs xs) k = net xs k + key_sum k fs"
  using assms(1,2)
proof (induction fs arbitrary: xs)
  case (Cons f fs)
  have "net (push_back_active_modifier_flag f xs) k = net xs k + (if key f = k then get_count f else 0)"
    using Cons.prems assms(3)
    by (cases "amf_type f") (auto simp: net_push apush_def key_def)
  then show ?case using Cons by (simp add: mfm_inv_push key_sum_def)
qed (simp add: key_sum_def)

lemma apush_other: "key f \<noteq> k \<Longrightarrow> apush f a k = a k"
  unfolding apush_def by (rule fun_upd_other) simp

lemma net_push_all_other:
  assumes "mfm_inv xs" "\<forall>f\<in>set fs. wf_amf f" "\<forall>f\<in>set fs. key f \<noteq> k"
  shows "net (push_all fs xs) k = net xs k"
  using assms
proof (induction fs arbitrary: xs)
  case (Cons f fs)
  then show ?case by (simp add: mfm_inv_push net_push apush_other)
qed simp

lemma net_push_all_led:
  assumes "mfm_inv xs" "\<forall>f\<in>set fs. wf_amf f" "fst k = Class_led"
    and "\<forall>f\<in>set fs. key f = k \<longrightarrow> get_count f = c" "\<exists>f\<in>set fs. key f = k"
  shows "net (push_all fs xs) k = (if c > 0 then 1 else 0)"
  using assms
proof (induction fs arbitrary: xs)
  case (Cons f fs)
  show ?case
  proof (cases "\<exists>g\<in>set fs. key g = k")
    case True
    then show ?thesis using Cons by (simp add: mfm_inv_push)
  next
    case False
    with Cons.prems have f: "key f = k" "get_count f = c" by auto
    have "net (push_back_active_modifier_flag f xs) k = (if c > 0 then 1 else 0)"
      using Cons.prems(1-3) f by (auto simp: net_push apush_def key_def)
    moreover have "\<forall>g\<in>set fs. key g \<noteq> k" using False by blast
    ultimately show ?thesis
      using Cons.prems net_push_all_other [of "push_back_active_modifier_flag f xs" fs k]
      by (simp add: mfm_inv_push)
  qed
qed simp

subsection \<open>What the constructor has pushed\<close>

definition no_lock :: "modifier_flag_manager \<Rightarrow> bool" where
  "no_lock xs \<longleftrightarrow> (\<forall>f\<in>set xs. unlocked f)"

text \<open>
  The constructor's log replays its effect, and a LED lock entry in the log switches off a LED lock
  that was on.
\<close>

definition logged :: "modifier_flag_manager \<Rightarrow> active_modifier_flag \<Rightarrow> bool" where
  "logged xs0 f \<longleftrightarrow> amf_device_id f = 0 \<and> unlocked f \<and>
     (led_lock f \<longrightarrow> get_count f = -1 \<and> net xs0 (key f) = 1)"

definition scope_log ::
    "modifier_flag_manager \<Rightarrow> modifier_flag_manager \<times> active_modifier_flag list \<Rightarrow> bool" where
  "scope_log xs0 s \<longleftrightarrow> fst s = push_all (snd s) xs0 \<and> (\<forall>f\<in>set (snd s). logged xs0 f)"

definition inverse_flag :: "active_modifier_flag \<Rightarrow> active_modifier_flag" where
  "inverse_flag f = mk_amf (get_inverse_type f) (amf_modifier_flag f) (amf_device_id f)"

lemma logged_wf [simp]: "logged xs0 f \<Longrightarrow> wf_amf f"
  by (simp add: logged_def wf_amf_def)

lemma unlocked_key: "unlocked f \<longleftrightarrow> fst (key f) \<noteq> Class_lock"
  by (simp add: unlocked_def key_def)

lemma release_flag_facts:
  fixes f :: active_modifier_flag
  defines "g \<equiv> mk_amf (get_inverse_type f) (amf_modifier_flag f) 0"
  shows "key g = (fst (key f), amf_modifier_flag f, 0)" "get_count g = - get_count f"
    "amf_device_id g = 0" "led_lock g = led_lock f" "unlocked g = unlocked f"
    "amf_modifier_flag g = amf_modifier_flag f" "counts_for m g = counts_for m f"
  unfolding g_def
  by (cases "amf_type f";
      simp add: key_def mk_amf_def get_inverse_type_def get_count_def led_lock_def unlocked_def counts_for_def)+

lemma inverse_flag_facts:
  assumes "wf_amf f"
  shows "key (inverse_flag f) = key f" "get_count (inverse_flag f) = - get_count f"
    "wf_amf (inverse_flag f)"
  using assms
  by (cases "amf_type f";
      simp add: inverse_flag_def wf_amf_def key_def mk_amf_def get_inverse_type_def get_count_def led_lock_def)+

lemma scope_log_inv: "mfm_inv xs0 \<Longrightarrow> scope_log xs0 s \<Longrightarrow> mfm_inv (fst s)"
  by (auto simp: scope_log_def intro!: mfm_inv_push_all)

lemma scope_log_push:
  "scope_log xs0 s \<Longrightarrow> logged xs0 f \<Longrightarrow> scope_log xs0 (push_scoped f s)"
  by (auto simp: scope_log_def push_scoped_def)

lemma scope_log_no_lock:
  assumes "mfm_inv xs0" "no_lock xs0" "scope_log xs0 s"
  shows "no_lock (fst s)"
proof (unfold no_lock_def, rule ballI, rule ccontr)
  fix f assume f: "f \<in> set (fst s)" "\<not> unlocked f"
  have pf: "pair_free xs0" "pair_free (fst s)"
    using assms(1) scope_log_inv [OF assms(1,3)] by (simp_all add: mfm_inv_def)
  have "net (push_all (snd s) xs0) (key f) = net xs0 (key f)"
    using assms(3) f(2)
    by (intro net_push_all_other [OF assms(1)]) (auto simp: scope_log_def logged_def unlocked_key wf_amf_def)
  then have "\<exists>g\<in>set xs0. key g = key f"
    using f(1) assms(3) net_nonzero_iff [OF pf(1), of "key f"] net_nonzero_iff [OF pf(2), of "key f"]
    by (auto simp: scope_log_def)
  with assms(2) f(2) show False by (auto simp: no_lock_def unlocked_key)
qed

lemma scope_log_led:
  assumes "mfm_inv xs0" "scope_log xs0 s" "f \<in> set (fst s)" "led_lock f"
  shows "get_count f = 1" "amf_device_id f = 0" "net xs0 (key f) = 1"
proof -
  have inv: "mfm_inv (fst s)" by (rule scope_log_inv [OF assms(1,2)])
  show f: "get_count f = 1" "amf_device_id f = 0"
    using inv assms(3,4) by (auto simp: mfm_inv_def increase_led_iff)
  have on: "net (fst s) (key f) = 1"
    using net_lock_member [OF inv assms(3)] assms(4) f by (auto simp: any_lock_def led_lock_def)
  have wf: "\<forall>g\<in>set (snd s). wf_amf g" using assms(2) by (auto simp: scope_log_def)
  have "\<not> (\<exists>g\<in>set (snd s). key g = key f)"
  proof
    assume ex: "\<exists>g\<in>set (snd s). key g = key f"
    have "net (push_all (snd s) xs0) (key f) = (if (-1 :: int) > 0 then 1 else 0)"
      using assms(2,4) ex
      by (intro net_push_all_led [OF assms(1) wf]) (auto simp: scope_log_def logged_def led_lock_key)
    with on assms(2) show False by (simp add: scope_log_def)
  qed
  then have "net (push_all (snd s) xs0) (key f) = net xs0 (key f)"
    by (intro net_push_all_other [OF assms(1) wf]) auto
  with on assms(2) show "net xs0 (key f) = 1" by (simp add: scope_log_def)
qed

lemma scope_log_press: "scope_log xs0 s \<Longrightarrow> scope_log xs0 (press_until m s)"
proof (induction m s rule: press_until.induct)
  case (1 m s)
  have "logged xs0 (mk_amf Increase m 0)"
    by (simp add: logged_def mk_amf_def unlocked_def led_lock_def)
  then show ?case
    using 1 by (simp add: press_until.simps [of m s] scope_log_push)
qed

lemma release_all_eq:
  "release_all m s =
     (let gs = map (\<lambda>f. mk_amf (get_inverse_type f) (amf_modifier_flag f) 0)
                 (filter (\<lambda>f. amf_modifier_flag f = m) (fst s))
      in (push_all gs (fst s), snd s @ gs))"
proof -
  have "foldl (\<lambda>s f. if amf_modifier_flag f = m
                   then push_scoped (mk_amf (get_inverse_type f) (amf_modifier_flag f) 0) s else s) s fs =
        (let gs = map (\<lambda>f. mk_amf (get_inverse_type f) (amf_modifier_flag f) 0)
                 (filter (\<lambda>f. amf_modifier_flag f = m) fs)
         in (push_all gs (fst s), snd s @ gs))" for fs s
    by (induction fs arbitrary: s) (auto simp: Let_def push_scoped_def)
  then show ?thesis by (simp add: release_all_def)
qed

lemma release_logged:
  assumes "mfm_inv xs0" "no_lock xs0" "scope_log xs0 s" "f \<in> set (fst s)"
  shows "logged xs0 (mk_amf (get_inverse_type f) (amf_modifier_flag f) 0)"
proof -
  have "unlocked f" using scope_log_no_lock [OF assms(1-3)] assms(4) by (simp add: no_lock_def)
  moreover have "led_lock f \<Longrightarrow> (fst (key f), amf_modifier_flag f, 0) = key f"
    using scope_log_led [OF assms(1,3,4)] by (simp add: key_def)
  ultimately show ?thesis
    using scope_log_led [OF assms(1,3,4)] by (simp add: logged_def release_flag_facts)
qed

lemma scope_log_release:
  assumes "mfm_inv xs0" "no_lock xs0" "scope_log xs0 s"
  shows "scope_log xs0 (release_all m s)"
  using assms(3) release_logged [OF assms]
  by (auto simp: release_all_eq Let_def scope_log_def)

lemma scope_log_flag:
  "mfm_inv xs0 \<Longrightarrow> no_lock xs0 \<Longrightarrow> scope_log xs0 s \<Longrightarrow> scope_log xs0 (scope_flag flags s m)"
  by (simp add: scope_flag_def scope_log_press scope_log_release)

lemma scope_log_fold:
  assumes "mfm_inv xs0" "no_lock xs0"
  shows "scope_log xs0 s \<Longrightarrow> scope_log xs0 (foldl (scope_flag flags) s ms)"
proof (induction ms arbitrary: s)
  case (Cons m ms)
  then show ?case using scope_log_flag [OF assms Cons.prems] by simp
qed simp

lemma scope_log_enter:
  "mfm_inv xs0 \<Longrightarrow> no_lock xs0 \<Longrightarrow> scope_log xs0 (scope_enter flags xs0)"
  unfolding scope_enter_def by (rule scope_log_fold) (simp_all add: scope_log_def)

subsection \<open>The destructor restores every counter\<close>

lemma key_sum_simps [simp]:
  "key_sum k [] = 0"
  "key_sum k (f # fs) = (if key f = k then get_count f else 0) + key_sum k fs"
  "key_sum k (fs @ gs) = key_sum k fs + key_sum k gs"
  by (simp_all add: key_sum_def)

lemma key_sum_inverse:
  "\<forall>f\<in>set fs. wf_amf f \<Longrightarrow> key_sum k (fs @ map inverse_flag fs) = 0"
  by (induction fs) (simp_all add: inverse_flag_facts)

lemma scope_leave_eq: "scope_leave xs fs = push_all (map inverse_flag fs) xs"
  by (simp add: scope_leave_def get_inverse_active_modifier_flags_def push_all_def inverse_flag_def [abs_def])

lemma net_scope_leave:
  assumes "mfm_inv xs0" "scope_log xs0 s"
  shows "net (scope_leave (fst s) (snd s)) = net xs0"
proof
  fix k
  let ?fs = "snd s" and ?gs = "map inverse_flag (snd s)"
  have lg: "\<And>f. f \<in> set ?fs \<Longrightarrow> logged xs0 f" and fst: "fst s = push_all ?fs xs0"
    using assms(2) by (auto simp: scope_log_def)
  have wf0: "\<And>f. f \<in> set ?fs \<Longrightarrow> wf_amf f" using lg logged_wf by blast
  then have wf: "\<forall>f\<in>set (?fs @ ?gs). wf_amf f" by (auto simp: inverse_flag_facts)
  have inv: "mfm_inv (fst s)" by (rule scope_log_inv [OF assms])
  have whole: "scope_leave (fst s) (snd s) = push_all (?fs @ ?gs) xs0"
    by (simp add: scope_leave_eq fst)
  consider "fst k = Class_normal \<or> fst k = Class_sticky" | "fst k = Class_lock"
    | "fst k = Class_led" "\<exists>f\<in>set ?fs. key f = k" | "\<not> (\<exists>f\<in>set ?fs. key f = k)"
    by (metis flag_class.exhaust)
  then show "net (scope_leave (fst s) (snd s)) k = net xs0 k"
  proof cases
    case 1
    then show ?thesis
      unfolding whole using net_push_all_count [OF assms(1) wf, of k] key_sum_inverse [of ?fs] wf0 by simp
  next
    case 2
    then have "\<forall>f\<in>set (?fs @ ?gs). key f \<noteq> k"
      using lg wf0 by (fastforce simp: inverse_flag_facts logged_def unlocked_key)
    then show ?thesis unfolding whole by (rule net_push_all_other [OF assms(1) wf])
  next
    case 3
    then obtain f where f: "f \<in> set ?fs" "key f = k" by blast
    have "net (push_all ?gs (fst s)) k = (if (1 :: int) > 0 then 1 else 0)"
    proof (rule net_push_all_led [OF inv _ 3(1)])
      show "\<forall>f\<in>set ?gs. key f = k \<longrightarrow> get_count f = 1"
      proof
        fix g assume "g \<in> set ?gs"
        then obtain f where "f \<in> set ?fs" "g = inverse_flag f" by auto
        then show "key g = k \<longrightarrow> get_count g = 1"
          using lg [of f] inverse_flag_facts [OF wf0] 3(1) by (auto simp: logged_def led_lock_key)
      qed
      show "\<exists>f\<in>set ?gs. key f = k" using f wf0 by (auto simp: inverse_flag_facts)
    qed (use wf in auto)
    moreover have "net xs0 k = 1" using lg [OF f(1)] f(2) 3(1) by (auto simp: logged_def led_lock_key)
    ultimately show ?thesis by (simp add: scope_leave_eq)
  next
    case 4
    then have "\<forall>f\<in>set (?fs @ ?gs). key f \<noteq> k" using wf0 by (auto simp: inverse_flag_facts)
    then show ?thesis unfolding whole by (rule net_push_all_other [OF assms(1) wf])
  qed
qed

subsection \<open>Inside the scope exactly the requested flags are pressed\<close>

lemma counter_pressed_cong:
  assumes "\<And>k. fst (snd k) = m \<Longrightarrow> a k = b k"
  shows "counter_pressed a m = counter_pressed b m"
proof -
  have "key_support a m = key_support b m" using assms by (auto simp: key_support_def)
  moreover have "(\<Sum>k\<in>key_support b m. a k) = (\<Sum>k\<in>key_support b m. b k)"
    using assms by (intro sum.cong) (auto simp: key_support_def)
  ultimately show ?thesis using assms [of "(Class_led, m, 0)"] by (simp add: counter_pressed_def)
qed

lemma is_pressed_push_all_other:
  assumes "mfm_inv xs" "\<forall>f\<in>set fs. wf_amf f" "\<forall>f\<in>set fs. amf_modifier_flag f \<noteq> m"
  shows "is_pressed (push_all fs xs) m = is_pressed xs m"
  unfolding is_pressed_counters [OF assms(1)] is_pressed_counters [OF mfm_inv_push_all [OF assms(1,2)]]
  by (rule counter_pressed_cong, rule net_push_all_other [OF assms(1,2)])
     (use assms(3) in \<open>auto simp: key_def\<close>)

lemma press_until_pressed: "is_pressed (fst (press_until m s)) m"
proof (induction m s rule: press_until.induct)
  case (1 m s)
  then show ?case by (simp add: press_until.simps [of m s])
qed

lemma press_until_pushes:
  "\<exists>fs. fst (press_until m s) = push_all fs (fst s) \<and>
        (\<forall>f\<in>set fs. wf_amf f \<and> amf_modifier_flag f = m)"
proof (induction m s rule: press_until.induct)
  case (1 m s)
  show ?case
  proof (cases "is_pressed (fst s) m")
    case True
    then show ?thesis by (intro exI [of _ "[]"]) (simp add: press_until.simps [of m s])
  next
    case False
    with 1 obtain fs where "fst (press_until m s) = push_all fs (fst (push_scoped (mk_amf Increase m 0) s))"
        "\<forall>f\<in>set fs. wf_amf f \<and> amf_modifier_flag f = m"
      by (auto simp: press_until.simps [of m s])
    then show ?thesis
      by (intro exI [of _ "mk_amf Increase m 0 # fs"]) (simp add: push_scoped_def, simp add: mk_amf_def)
  qed
qed

lemma total_push_led:
  assumes "mfm_inv xs" "led_lock f"
  shows "total (push_back_active_modifier_flag f xs) m = total xs m"
proof -
  have pf: "pair_free xs" using assms(1) by (simp add: mfm_inv_def)
  have off: "total (remove_if p ys) m = total ys m"
    if "\<And>g. p g \<Longrightarrow> led_lock g" for p ys
    using that by (induction ys) (auto simp: counts_for_def)
  have "total (remove_first p ys) m = total ys m" if "\<And>g. p g \<Longrightarrow> led_lock g" for p ys
    using that by (induction ys) (auto simp: counts_for_def)
  moreover have led: "\<And>g. is_paired g f \<Longrightarrow> led_lock g"
    using assms(2) by (simp add: is_paired_key led_lock_key)
  ultimately show ?thesis
    using assms(2) off [of "\<lambda>g. g = f"] off [of "\<lambda>g. is_paired g f"]
    by (auto simp: push_back_eq [OF pf] cancel_or_append_def counts_for_def)
qed

lemma total_push_all:
  assumes "mfm_inv xs" "\<forall>f\<in>set fs. wf_amf f \<and> unlocked f"
  shows "total (push_all fs xs) m = total xs m + total fs m"
  using assms
proof (induction fs arbitrary: xs)
  case (Cons f fs)
  have "total (push_back_active_modifier_flag f xs) m =
          total xs m + (if counts_for m f then get_count f else 0)"
  proof (cases "led_lock f")
    case True
    then show ?thesis using total_push_led Cons.prems by (simp add: counts_for_def)
  next
    case False
    then have "\<not> any_lock f"
      using Cons.prems by (cases "amf_type f") (auto simp: any_lock_def led_lock_def unlocked_def)
    then show ?thesis using total_push_unlocked Cons.prems False by (simp add: counts_for_def)
  qed
  then show ?case using Cons by (simp add: mfm_inv_push)
qed simp

lemma total_release:
  "total (map (\<lambda>f. mk_amf (get_inverse_type f) (amf_modifier_flag f) 0)
            (filter (\<lambda>f. amf_modifier_flag f = m) xs)) m = - total xs m"
proof (induction xs)
  case (Cons f xs)
  show ?case
  proof (cases "amf_modifier_flag f = m")
    case True
    then show ?thesis
      using Cons release_flag_facts(2) [of f] release_flag_facts(7) [where f = f and m = m] by simp
  next
    case False
    then show ?thesis using Cons by (simp add: counts_for_def)
  qed
qed simp

lemma release_all_released:
  assumes "mfm_inv xs0" "no_lock xs0" "scope_log xs0 s"
  shows "\<not> is_pressed (fst (release_all m s)) m"
proof -
  let ?xs = "fst s" and ?inv = "\<lambda>f. mk_amf (get_inverse_type f) (amf_modifier_flag f) 0"
  let ?gs = "map ?inv (filter (\<lambda>f. amf_modifier_flag f = m) ?xs)"
  have inv: "mfm_inv ?xs" by (rule scope_log_inv [OF assms(1,3)])
  have lg: "\<forall>g\<in>set ?gs. logged xs0 g" using release_logged [OF assms] by auto
  then have wf: "\<forall>g\<in>set ?gs. wf_amf g \<and> unlocked g" by (auto simp: logged_def wf_amf_def)
  have t: "total (push_all ?gs ?xs) m = 0"
    using total_push_all [OF inv wf, of m] total_release [of m ?xs] by simp
  have inv': "mfm_inv (push_all ?gs ?xs)" using wf by (intro mfm_inv_push_all inv) auto
  have "net (push_all ?gs ?xs) (Class_led, m, 0) = 0"
  proof (cases "\<exists>g\<in>set ?gs. key g = (Class_led, m, 0)")
    case True
    have "net (push_all ?gs ?xs) (Class_led, m, 0) = (if (-1 :: int) > 0 then 1 else 0)"
      using wf lg True by (intro net_push_all_led [OF inv]) (auto simp: logged_def led_lock_key)
    then show ?thesis by simp
  next
    case False
    have "net ?xs (Class_led, m, 0) = 0"
    proof (rule net_zero)
      fix f assume "f \<in> set ?xs"
      then show "key f \<noteq> (Class_led, m, 0)"
        using False release_flag_facts(1) [of f] by (force simp: key_def)
    qed
    moreover have "net (push_all ?gs ?xs) (Class_led, m, 0) = net ?xs (Class_led, m, 0)"
      using wf False by (intro net_push_all_other [OF inv]) auto
    ultimately show ?thesis by simp
  qed
  then show ?thesis
    using t led_total_net [OF inv', of m] by (simp add: release_all_eq Let_def is_pressed_eq)
qed

lemma release_all_pushes:
  assumes "mfm_inv xs0" "no_lock xs0" "scope_log xs0 s"
  shows "\<exists>fs. fst (release_all m s) = push_all fs (fst s) \<and>
              (\<forall>f\<in>set fs. wf_amf f \<and> amf_modifier_flag f = m)"
  using logged_wf [OF release_logged [OF assms]]
  by (auto simp: release_all_eq Let_def mk_amf_def intro!: exI)

lemma scope_flag_pressed:
  assumes "mfm_inv xs0" "no_lock xs0" "scope_log xs0 s"
  shows "is_pressed (fst (scope_flag flags s m)) m' = (if m' = m then m \<in> flags else is_pressed (fst s) m')"
proof (cases "m' = m")
  case True
  then show ?thesis
    using press_until_pressed release_all_released [OF assms] by (simp add: scope_flag_def)
next
  case False
  have "\<exists>fs. fst (scope_flag flags s m) = push_all fs (fst s) \<and>
             (\<forall>f\<in>set fs. wf_amf f \<and> amf_modifier_flag f = m)"
    using press_until_pushes [of m s] release_all_pushes [OF assms, of m]
    by (auto simp: scope_flag_def intro: exI [of _ "[]"])
  then obtain fs where "fst (scope_flag flags s m) = push_all fs (fst s)"
      "\<forall>f\<in>set fs. wf_amf f \<and> amf_modifier_flag f = m" by blast
  then show ?thesis
    using is_pressed_push_all_other [OF scope_log_inv [OF assms(1,3)], of fs m'] False by auto
qed

lemma scope_fold_pressed:
  assumes "mfm_inv xs0" "no_lock xs0"
  shows "scope_log xs0 s \<Longrightarrow> distinct ms \<Longrightarrow>
    is_pressed (fst (foldl (scope_flag flags) s ms)) m' =
      (if m' \<in> set ms then m' \<in> flags else is_pressed (fst s) m')"
proof (induction ms arbitrary: s)
  case (Cons m ms)
  then show ?case
    using scope_log_flag [OF assms Cons.prems(1)] scope_flag_pressed [OF assms Cons.prems(1)] by auto
qed simp

lemma scope_enter_pressed:
  assumes "mfm_inv xs" "no_lock xs"
  shows "is_pressed (fst (scope_enter flags xs)) m =
           (if m \<in> set scoped_flags then m \<in> flags else is_pressed xs m)"
  unfolding scope_enter_def
  by (subst scope_fold_pressed [OF assms]) (simp_all add: scope_log_def scoped_flags_def)

subsection \<open>Properties\<close>

text \<open>
  C30. Whatever sequence of operations the manager has seen, a modifier flag is reported pressed
  exactly when the abstract counters of the same sequence say so: the sum of the counters of its
  normal, lock and sticky entries is positive or, when all of those are zero, its LED lock is on.
\<close>

theorem pressed_state_is_counter_state:
  assumes "\<forall>op\<in>set ops. mfm_ok op"
  shows "is_pressed (run_ops mfm_step ops []) m = counter_pressed (run_ops counter_step ops (\<lambda>_. 0)) m"
  using is_pressed_counters [OF mfm.reachable_inv [OF assms]] mfm.refine_reachable [OF assms]
  by (simp add: net_def [abs_def])

theorem pressed_state_is_counter_state_witness:
  "is_pressed (run_ops mfm_step [Push_flag (mk_amf Increase Flag_fn 1), Push_flag (mk_amf Decrease Flag_fn 1)] [])
     Flag_fn
   = counter_pressed (run_ops counter_step
       [Push_flag (mk_amf Increase Flag_fn 1), Push_flag (mk_amf Decrease Flag_fn 1)] (\<lambda>_. 0)) Flag_fn"
  by (rule pressed_state_is_counter_state) simp

text \<open>
  When only key presses, releases and sticky modifiers are pushed, the state of a modifier flag
  is the sign of the number of its increases less its decreases, in whatever order and from
  whatever devices they came.
\<close>

theorem pressed_iff_more_increases:
  assumes "\<forall>(t, mf, d)\<in>set ps. t \<in> {Increase, Decrease, Increase_sticky, Decrease_sticky}"
  shows "is_pressed (push_all (map (\<lambda>(t, mf, d). mk_amf t mf d) ps) []) m \<longleftrightarrow>
         (\<Sum>(t, mf, d)\<leftarrow>ps. if mf = m then type_count t else 0) > 0"
proof -
  let ?fs = "map (\<lambda>(t, mf, d). mk_amf t mf d) ps"
  have "\<forall>f\<in>set ?fs. wf_amf f" by auto
  moreover have "\<forall>f\<in>set ?fs. unlocked f" "\<forall>f\<in>set ?fs. \<not> led_lock f"
    using assms by (fastforce simp: unlocked_def mk_amf_def led_lock_def)+
  ultimately have fs: "\<forall>f\<in>set ?fs. wf_amf f \<and> unlocked f" "\<forall>f\<in>set ?fs. \<not> led_lock f"
    by blast+
  have t: "total (push_all ?fs []) m = (\<Sum>(t, mf, d)\<leftarrow>ps. if mf = m then type_count t else 0)"
    using assms unfolding total_push_all [OF mfm_inv_Nil fs(1), of m]
    by (induction ps) (auto simp: counts_for_def led_lock_def mk_amf_def get_count_def)
  have inv: "mfm_inv (push_all ?fs [])" using fs(1) by (intro mfm_inv_push_all mfm_inv_Nil) auto
  have "net (push_all ?fs []) (Class_led, m, 0) = net [] (Class_led, m, 0)"
    using fs by (intro net_push_all_other [OF mfm_inv_Nil]) (auto simp: led_lock_key)
  then have "led_total (push_all ?fs []) m = 0" using led_total_net [OF inv, of m] by simp
  then show ?thesis
    using t total_not_pressed [of "push_all ?fs []" m] by (auto simp: is_pressed_eq split: if_splits)
qed

theorem pressed_iff_more_increases_witness:
  "is_pressed (push_all (map (\<lambda>(t, mf, d). mk_amf t mf d)
      [(Increase, Flag_fn, 1), (Increase, Flag_fn, 2), (Decrease, Flag_fn, 1)]) []) Flag_fn"
  by (subst pressed_iff_more_increases) simp_all

text \<open>
  Inside a scope of \<open>scoped_modifier_flags\<close> exactly the requested flags are pressed among the
  ten the scope governs, provided no entry is a lock entry; every other flag keeps its state.
\<close>

theorem scope_forces_flags:
  assumes "mfm_inv xs" "no_lock xs"
  shows "is_pressed (fst (scope_enter flags xs)) m =
           (if m \<in> set scoped_flags then m \<in> flags else is_pressed xs m)"
  by (rule scope_enter_pressed [OF assms])

theorem scope_forces_flags_witness:
  "\<not> is_pressed (fst (scope_enter {Flag_fn} [mk_amf Increase Flag_left_shift 7])) Flag_left_shift"
  by (subst scope_forces_flags)
     (simp_all add: scoped_flags_def mfm_inv_def no_lock_def unlocked_def mk_amf_def led_lock_def any_lock_def)

text \<open>
  Leaving the scope restores every counter, and with it the state of every modifier flag.
\<close>

theorem scope_restores_flags:
  fixes flags :: "modifier_flag set"
  assumes "mfm_inv xs" "no_lock xs"
  defines "s \<equiv> scope_enter flags xs"
  shows "net (scope_leave (fst s) (snd s)) = net xs \<and>
         is_pressed (scope_leave (fst s) (snd s)) m = is_pressed xs m"
proof -
  have log: "scope_log xs s" unfolding s_def by (rule scope_log_enter [OF assms(1,2)])
  have "mfm_inv (scope_leave (fst s) (snd s))"
    unfolding scope_leave_eq
    using log by (intro mfm_inv_push_all scope_log_inv [OF assms(1)])
      (auto simp: scope_log_def inverse_flag_facts)
  then show ?thesis
    using net_scope_leave [OF assms(1) log] by (simp add: is_pressed_counters assms(1))
qed

theorem scope_restores_flags_witness:
  "let xs = [mk_amf Increase Flag_left_shift 7]; s = scope_enter {Flag_fn} xs
   in is_pressed (scope_leave (fst s) (snd s)) Flag_left_shift"
proof -
  have "mfm_inv [mk_amf Increase Flag_left_shift 7]" "no_lock [mk_amf Increase Flag_left_shift 7]"
    by (simp_all add: mfm_inv_def no_lock_def unlocked_def mk_amf_def led_lock_def any_lock_def)
  from scope_restores_flags [OF this, of "{Flag_fn}" Flag_left_shift]
  have "is_pressed (scope_leave (fst (scope_enter {Flag_fn} [mk_amf Increase Flag_left_shift 7]))
     (snd (scope_enter {Flag_fn} [mk_amf Increase Flag_left_shift 7]))) Flag_left_shift"
    by (simp add: is_pressed_def mk_amf_def led_lock_def get_count_def)
  then show ?thesis by (simp add: Let_def)
qed

text \<open>
  C34. The restriction is needed: two devices that hold the same lock defeat the scope. The manager
  keeps one inverse lock entry of device 0 only, so the flag stays pressed inside the scope, and
  leaving the scope leaves a lock entry of device 0 behind.
\<close>

definition two_locks :: modifier_flag_manager where
  "two_locks = push_all [mk_amf Increase_lock Flag_fn 1, mk_amf Increase_lock Flag_fn 2] []"

theorem scope_fails_on_two_locks:
  "is_pressed (fst (scope_enter {} two_locks)) Flag_fn \<and>
   scope_leave (fst (scope_enter {} two_locks)) (snd (scope_enter {} two_locks))
     = two_locks @ [mk_amf Increase_lock Flag_fn 0]"
  by code_simp

end
