(* ===== verification/Modifiers.thy ===== *)
theory Modifiers
  imports ScopedModifierFlags SoftwareFunctions
begin

text \<open>
  \<open>modifier_definition\<close> and \<open>from_modifiers_definition\<close>: the modifiers a rule names, the flags they stand
  for, and the test whether the pressed modifiers suit a rule. A \<open>std::set<modifier>\<close> is a set; where
  the code iterates over it, the order is that of the enumeration.
\<close>

datatype modifier =
    Mod_any | Mod_caps_lock | Mod_command | Mod_control | Mod_fn
  | Mod_left_command | Mod_left_control | Mod_left_option | Mod_left_shift
  | Mod_option | Mod_right_command | Mod_right_control | Mod_right_option | Mod_right_shift
  | Mod_shift | Mod_end

text \<open>The enumeration without \<open>end_\<close>, the range of the loops over it.\<close>

definition all_modifiers :: "modifier list" where
  "all_modifiers =
     [Mod_any, Mod_caps_lock, Mod_command, Mod_control, Mod_fn, Mod_left_command, Mod_left_control,
      Mod_left_option, Mod_left_shift, Mod_option, Mod_right_command, Mod_right_control,
      Mod_right_option, Mod_right_shift, Mod_shift]"

lemma set_all_modifiers: "m \<in> set all_modifiers \<longleftrightarrow> m \<noteq> Mod_end"
  by (cases m) (simp_all add: all_modifiers_def)

fun modifier_name :: "modifier \<Rightarrow> string" where
  "modifier_name Mod_any = ''any''"
| "modifier_name Mod_caps_lock = ''caps_lock''"
| "modifier_name Mod_command = ''command''"
| "modifier_name Mod_control = ''control''"
| "modifier_name Mod_fn = ''fn''"
| "modifier_name Mod_left_command = ''left_command''"
| "modifier_name Mod_left_control = ''left_control''"
| "modifier_name Mod_left_option = ''left_option''"
| "modifier_name Mod_left_shift = ''left_shift''"
| "modifier_name Mod_option = ''option''"
| "modifier_name Mod_right_command = ''right_command''"
| "modifier_name Mod_right_control = ''right_control''"
| "modifier_name Mod_right_option = ''right_option''"
| "modifier_name Mod_right_shift = ''right_shift''"
| "modifier_name Mod_shift = ''shift''"
| "modifier_name Mod_end = ''end_''"

definition modifier_to_json :: "modifier \<Rightarrow> json" where
  "modifier_to_json m = J_string (modifier_name m)"

definition modifier_from_json :: "json \<Rightarrow> json_error + modifier" where
  "modifier_from_json j =
     and_then (requires_string ''`modifier`'' j) (\<lambda>n.
       if n = ''any'' then Inr Mod_any
       else if n = ''caps_lock'' then Inr Mod_caps_lock
       else if n = ''command'' then Inr Mod_command
       else if n = ''control'' then Inr Mod_control
       else if n = ''fn'' then Inr Mod_fn
       else if n = ''left_command'' \<or> n = ''left_gui'' then Inr Mod_left_command
       else if n = ''left_control'' then Inr Mod_left_control
       else if n = ''left_option'' \<or> n = ''left_alt'' then Inr Mod_left_option
       else if n = ''left_shift'' then Inr Mod_left_shift
       else if n = ''option'' then Inr Mod_option
       else if n = ''right_command'' \<or> n = ''right_gui'' then Inr Mod_right_command
       else if n = ''right_control'' then Inr Mod_right_control
       else if n = ''right_option'' \<or> n = ''right_alt'' then Inr Mod_right_option
       else if n = ''right_shift'' then Inr Mod_right_shift
       else if n = ''shift'' then Inr Mod_shift
       else if n = ''end_'' then Inr Mod_end
       else Inl (Unmarshal_error (''unknown modifier: `'' @ n @ ''`'')))"

fun modifiers_from_list :: "json list \<Rightarrow> json_error + modifier set" where
  "modifiers_from_list [] = Inr {}"
| "modifiers_from_list (j # js) =
     and_then (modifier_from_json j) (\<lambda>m. and_then (modifiers_from_list js) (\<lambda>s. Inr (insert m s)))"

definition make_modifiers :: "json \<Rightarrow> json_error + modifier set" where
  "make_modifiers j =
     (case j of
        J_string n \<Rightarrow> and_then (modifier_from_json j) (\<lambda>m. Inr {m})
      | J_array js \<Rightarrow> modifiers_from_list js
      | _ \<Rightarrow> Inl (Unmarshal_error_dump ''json must be array or string, but is `'' j ''`''))"

fun get_modifier_flags :: "modifier \<Rightarrow> modifier_flag list" where
  "get_modifier_flags Mod_any = []"
| "get_modifier_flags Mod_caps_lock = [Flag_caps_lock]"
| "get_modifier_flags Mod_command = [Flag_left_command, Flag_right_command]"
| "get_modifier_flags Mod_control = [Flag_left_control, Flag_right_control]"
| "get_modifier_flags Mod_fn = [Flag_fn]"
| "get_modifier_flags Mod_left_command = [Flag_left_command]"
| "get_modifier_flags Mod_left_control = [Flag_left_control]"
| "get_modifier_flags Mod_left_option = [Flag_left_option]"
| "get_modifier_flags Mod_left_shift = [Flag_left_shift]"
| "get_modifier_flags Mod_option = [Flag_left_option, Flag_right_option]"
| "get_modifier_flags Mod_right_command = [Flag_right_command]"
| "get_modifier_flags Mod_right_control = [Flag_right_control]"
| "get_modifier_flags Mod_right_option = [Flag_right_option]"
| "get_modifier_flags Mod_right_shift = [Flag_right_shift]"
| "get_modifier_flags Mod_shift = [Flag_left_shift, Flag_right_shift]"
| "get_modifier_flags Mod_end = []"

fun get_modifier :: "modifier_flag \<Rightarrow> modifier" where
  "get_modifier Flag_caps_lock = Mod_caps_lock"
| "get_modifier Flag_fn = Mod_fn"
| "get_modifier Flag_left_command = Mod_left_command"
| "get_modifier Flag_left_control = Mod_left_control"
| "get_modifier Flag_left_option = Mod_left_option"
| "get_modifier Flag_left_shift = Mod_left_shift"
| "get_modifier Flag_right_command = Mod_right_command"
| "get_modifier Flag_right_control = Mod_right_control"
| "get_modifier Flag_right_option = Mod_right_option"
| "get_modifier Flag_right_shift = Mod_right_shift"
| "get_modifier Flag_zero = Mod_end"
| "get_modifier Flag_end = Mod_end"

lemma modifier_json: "modifier_from_json (modifier_to_json m) = Inr m"
  by (cases m) (simp_all add: modifier_to_json_def modifier_from_json_def)

lemma get_modifier_flags_get_modifier:
  "get_modifier_flags (get_modifier f) = (if f \<in> set all_modifier_flags then [f] else [])"
  by (cases f) (simp_all add: all_modifier_flags_def)

subsection \<open>Testing the pressed modifiers\<close>

record from_modifiers_definition =
  fm_mandatory :: "modifier set"
  fm_optional :: "modifier set"

definition default_from_modifiers :: from_modifiers_definition where
  "default_from_modifiers = \<lparr>fm_mandatory = {}, fm_optional = {}\<rparr>"

definition test_modifier :: "modifier_flag_manager \<Rightarrow> modifier \<Rightarrow> bool \<times> modifier_flag" where
  "test_modifier mfm m =
     (if m = Mod_any then (True, Flag_zero)
      else case find (is_pressed mfm) (get_modifier_flags m) of
             Some f \<Rightarrow> (True, f)
           | None \<Rightarrow> (False, Flag_zero))"

fun test_mandatory :: "modifier_flag_manager \<Rightarrow> modifier set \<Rightarrow> modifier list \<Rightarrow> modifier_flag set \<Rightarrow> modifier_flag set option" where
  "test_mandatory mfm mandatory [] fs = Some fs"
| "test_mandatory mfm mandatory (m # ms) fs =
     (if m \<in> mandatory then
        (case test_modifier mfm m of
           (True, f) \<Rightarrow> test_mandatory mfm mandatory ms (if f \<noteq> Flag_zero then insert f fs else fs)
         | (False, _) \<Rightarrow> None)
      else test_mandatory mfm mandatory ms fs)"

definition extra_modifier_flags :: "from_modifiers_definition \<Rightarrow> modifier_flag set" where
  "extra_modifier_flags d =
     fold (\<lambda>m fs. if m \<in> fm_mandatory d \<or> m \<in> fm_optional d then fs - set (get_modifier_flags m) else fs)
       all_modifiers (set all_modifier_flags)"

definition test_modifiers :: "from_modifiers_definition \<Rightarrow> modifier_flag_manager \<Rightarrow> modifier_flag set option" where
  "test_modifiers d mfm =
     (if Mod_any \<in> fm_mandatory d then Some {f \<in> set all_modifier_flags. is_pressed mfm f}
      else case test_mandatory mfm (fm_mandatory d) all_modifiers {} of
        None \<Rightarrow> None
      | Some fs \<Rightarrow>
          if Mod_any \<notin> fm_optional d \<and> (\<exists>f\<in>extra_modifier_flags d. is_pressed mfm f) then None
          else Some fs)"

definition from_modifiers_item ::
    "json \<Rightarrow> string \<Rightarrow> json \<Rightarrow> from_modifiers_definition \<Rightarrow> json_error + from_modifiers_definition" where
  "from_modifiers_item j k v d =
     (if k = ''mandatory'' then
        and_then (error_at k (make_modifiers v)) (\<lambda>s. Inr (d\<lparr>fm_mandatory := s\<rparr>))
      else if k = ''optional'' then
        and_then (error_at k (make_modifiers v)) (\<lambda>s. Inr (d\<lparr>fm_optional := s\<rparr>))
      else if k = ''description'' then Inr d
      else Inl (Unmarshal_error_dump (''unknown key `'' @ k @ ''` in `'') j ''`''))"

definition from_modifiers_from_json :: "json \<Rightarrow> json_error + from_modifiers_definition" where
  "from_modifiers_from_json j =
     and_then (requires_object ''json'' j)
       (\<lambda>xs. fold_items (from_modifiers_item j) xs default_from_modifiers)"

lemma extra_modifier_flags_eq:
  "f \<in> extra_modifier_flags d \<longleftrightarrow>
     f \<in> set all_modifier_flags \<and> \<not> (\<exists>m\<in>fm_mandatory d \<union> fm_optional d. f \<in> set (get_modifier_flags m))"
proof -
  have "f \<in> fold (\<lambda>m fs. if m \<in> fm_mandatory d \<or> m \<in> fm_optional d then fs - set (get_modifier_flags m) else fs) ms fs \<longleftrightarrow>
      f \<in> fs \<and> \<not> (\<exists>m\<in>set ms. m \<in> fm_mandatory d \<union> fm_optional d \<and> f \<in> set (get_modifier_flags m))" for ms fs
    by (induction ms arbitrary: fs) auto
  moreover have "f \<in> set (get_modifier_flags m) \<Longrightarrow> m \<in> set all_modifiers" for m
    by (cases m) (simp_all add: all_modifiers_def)
  ultimately show ?thesis unfolding extra_modifier_flags_def by blast
qed

definition satisfied :: "modifier_flag_manager \<Rightarrow> modifier \<Rightarrow> bool" where
  "satisfied mfm m \<longleftrightarrow> m = Mod_any \<or> m = Mod_end \<or> (\<exists>f\<in>set (get_modifier_flags m). is_pressed mfm f)"

lemma test_modifier_cases:
  assumes "m \<noteq> Mod_end"
  shows "(satisfied mfm m \<and> m = Mod_any \<and> test_modifier mfm m = (True, Flag_zero)) \<or>
    (\<exists>f. satisfied mfm m \<and> m \<noteq> Mod_any \<and> test_modifier mfm m = (True, f) \<and> f \<in> set (get_modifier_flags m) \<and> is_pressed mfm f) \<or>
    (\<not> satisfied mfm m \<and> test_modifier mfm m = (False, Flag_zero))"
proof (cases "find (is_pressed mfm) (get_modifier_flags m)")
  case None
  then have "\<not> (\<exists>f\<in>set (get_modifier_flags m). is_pressed mfm f)" by (auto simp: find_None_iff)
  with None show ?thesis using assms by (simp add: satisfied_def test_modifier_def)
next
  case (Some f)
  then have "f \<in> set (get_modifier_flags m)" "is_pressed mfm f"
    by (auto simp: find_Some_iff)
  then show ?thesis using Some by (auto simp: satisfied_def test_modifier_def)
qed

lemma flags_not_zero: "f \<in> set (get_modifier_flags m) \<Longrightarrow> f \<noteq> Flag_zero"
  by (cases m) auto

lemma test_mandatory_spec:
  "Mod_end \<notin> set ms \<Longrightarrow>
   (case test_mandatory mfm mandatory ms fs of
      None \<Rightarrow> \<exists>m\<in>set ms. m \<in> mandatory \<and> \<not> satisfied mfm m
    | Some gs \<Rightarrow> (\<forall>m\<in>set ms. m \<in> mandatory \<longrightarrow> satisfied mfm m) \<and> fs \<subseteq> gs \<and>
        (\<forall>g\<in>gs - fs. is_pressed mfm g \<and> (\<exists>m\<in>set ms. m \<in> mandatory \<and> g \<in> set (get_modifier_flags m))) \<and>
        (\<forall>m\<in>set ms. m \<in> mandatory \<and> get_modifier_flags m \<noteq> [] \<longrightarrow> (\<exists>g\<in>gs. g \<in> set (get_modifier_flags m))))"
proof (induction ms arbitrary: fs)
  case (Cons m ms)
  show ?case
  proof (cases "m \<in> mandatory")
    case False
    then show ?thesis using Cons.IH [of fs] Cons.prems by (fastforce split: option.splits)
  next
    case True
    have "m \<noteq> Mod_end" using Cons.prems by auto
    from test_modifier_cases [OF this, of mfm] show ?thesis
    proof (elim disjE exE conjE)
      assume "satisfied mfm m" "m = Mod_any" "test_modifier mfm m = (True, Flag_zero)"
      then show ?thesis using Cons.IH [of fs] Cons.prems True by (fastforce split: option.splits)
    next
      fix f assume "satisfied mfm m" and f: "test_modifier mfm m = (True, f)" "f \<in> set (get_modifier_flags m)" "is_pressed mfm f"
      then show ?thesis
        using Cons.IH [of "insert f fs"] Cons.prems True flags_not_zero [OF f(2)]
        by (cases "test_mandatory mfm mandatory ms (insert f fs)") fastforce+
    qed (use True in auto)
  qed
qed simp

lemma test_mandatory_all:
  "test_mandatory mfm mandatory all_modifiers {} = Some gs \<Longrightarrow>
     (\<forall>m\<in>mandatory. satisfied mfm m) \<and>
     (\<forall>g\<in>gs. is_pressed mfm g \<and> (\<exists>m\<in>mandatory. g \<in> set (get_modifier_flags m))) \<and>
     (\<forall>m\<in>mandatory. get_modifier_flags m \<noteq> [] \<longrightarrow> (\<exists>g\<in>gs. g \<in> set (get_modifier_flags m)))"
  "test_mandatory mfm mandatory all_modifiers {} = None \<Longrightarrow> \<exists>m\<in>mandatory. \<not> satisfied mfm m"
  using test_mandatory_spec [where ms = all_modifiers and mfm = mfm and mandatory = mandatory and fs = "{}"] set_all_modifiers
  by (auto simp: satisfied_def)

text \<open>
  The test of a rule's modifiers, for a rule that does not accept any modifier as mandatory: it
  succeeds exactly if every mandatory modifier is pressed on some side and, unless any optional
  modifier is accepted, every pressed flag belongs to a mandatory or optional modifier. The flags it
  returns (those the rule holds back while it is active) are pressed, each belongs to a mandatory
  modifier, and each mandatory modifier contributes one.
\<close>

theorem test_modifiers_correct:
  assumes "Mod_any \<notin> fm_mandatory d"
  shows "(test_modifiers d mfm \<noteq> None) =
      ((\<forall>m\<in>fm_mandatory d. satisfied mfm m) \<and>
       (Mod_any \<in> fm_optional d \<or>
        (\<forall>f\<in>set all_modifier_flags. is_pressed mfm f \<longrightarrow>
           (\<exists>m\<in>fm_mandatory d \<union> fm_optional d. f \<in> set (get_modifier_flags m))))) \<and>
    (case test_modifiers d mfm of
       None \<Rightarrow> True
     | Some fs \<Rightarrow> (\<forall>f\<in>fs. is_pressed mfm f \<and> (\<exists>m\<in>fm_mandatory d. f \<in> set (get_modifier_flags m))) \<and>
         (\<forall>m\<in>fm_mandatory d. get_modifier_flags m \<noteq> [] \<longrightarrow> (\<exists>f\<in>fs. f \<in> set (get_modifier_flags m))))"
proof (cases "test_mandatory mfm (fm_mandatory d) all_modifiers {}")
  case None
  then show ?thesis using test_mandatory_all(2) [OF None] assms by (auto simp: test_modifiers_def)
next
  case (Some fs)
  show ?thesis
    using assms test_mandatory_all(1) [OF Some]
    by (simp add: test_modifiers_def Some extra_modifier_flags_eq Bex_def) blast
qed

theorem test_modifiers_correct_witness:
  "test_modifiers \<lparr>fm_mandatory = {Mod_shift}, fm_optional = {Mod_caps_lock}\<rparr>
     [mk_amf Increase Flag_right_shift 1] \<noteq> None \<and>
   test_modifiers \<lparr>fm_mandatory = {Mod_shift}, fm_optional = {}\<rparr>
     [mk_amf Increase Flag_right_shift 1, mk_amf Increase Flag_fn 1] = None"
proof -
  have p: "is_pressed [mk_amf Increase Flag_right_shift 1] f \<longleftrightarrow> f = Flag_right_shift"
      "is_pressed [mk_amf Increase Flag_right_shift 1, mk_amf Increase Flag_fn 1] f \<longleftrightarrow> f = Flag_right_shift \<or> f = Flag_fn" for f
    by (cases f; simp add: is_pressed_def mk_amf_def led_lock_def get_count_def)+
  show ?thesis
    using test_modifiers_correct [of "\<lparr>fm_mandatory = {Mod_shift}, fm_optional = {Mod_caps_lock}\<rparr>" "[mk_amf Increase Flag_right_shift 1]"]
      test_modifiers_correct [of "\<lparr>fm_mandatory = {Mod_shift}, fm_optional = {}\<rparr>"
        "[mk_amf Increase Flag_right_shift 1, mk_amf Increase Flag_fn 1]"]
    by (simp add: p satisfied_def all_modifier_flags_def)
qed

end
