(* ===== verification/ToEvents.thy ===== *)
theory ToEvents
  imports Conditions Modifiers KeyNames
begin

text \<open>
  \<open>event_definition\<close> and \<open>to_event_definition\<close>: what a rule names as its input or output. An
  event definition is built key by key from a JSON object; a second key that defines an event is an
  error.
\<close>

datatype definition_type =
    Def_none | Def_momentary_switch_event | Def_from_event | Def_any | Def_shell_command
  | Def_send_user_command | Def_select_input_source | Def_set_variable | Def_set_notification_message
  | Def_mouse_key | Def_sticky_modifier | Def_software_function

datatype any_type =
    Any_key_code | Any_consumer_key_code | Any_apple_vendor_keyboard_key_code
  | Any_apple_vendor_top_case_key_code | Any_pointing_button

datatype definition_value =
    DV_momentary_switch_event momentary_switch_event
  | DV_any any_type
  | DV_string string
  | DV_json json
  | DV_specifiers "input_source_specifier list"
  | DV_set_variable set_variable
  | DV_notification_message notification_message
  | DV_mouse_key mouse_key
  | DV_sticky_modifier modifier_flag sticky_modifier_type
  | DV_software_function software_function
  | DV_monostate

record event_definition =
  ed_type :: definition_type
  ed_value :: definition_value

definition default_event_definition :: event_definition where
  "default_event_definition = \<lparr>ed_type = Def_none, ed_value = DV_monostate\<rparr>"

definition ed_make_from_momentary_switch_event :: "momentary_switch_event \<Rightarrow> event_definition" where
  "ed_make_from_momentary_switch_event e = \<lparr>ed_type = Def_momentary_switch_event, ed_value = DV_momentary_switch_event e\<rparr>"

definition ed_get_if_mse :: "event_definition \<Rightarrow> momentary_switch_event option" where
  "ed_get_if_mse d = (case ed_value d of DV_momentary_switch_event e \<Rightarrow> Some e | _ \<Rightarrow> None)"

definition ed_get_if_any :: "event_definition \<Rightarrow> any_type option" where
  "ed_get_if_any d = (case ed_value d of DV_any a \<Rightarrow> Some a | _ \<Rightarrow> None)"

text \<open>\<open>std::get\<close> throws \<open>bad_variant_access\<close> when the alternative is another one.\<close>

datatype access_error = Bad_variant_access

definition to_event :: "event_definition \<Rightarrow> access_error + event option" where
  "to_event d =
     (case ed_type d of
        Def_none \<Rightarrow> Inr None
      | Def_momentary_switch_event \<Rightarrow>
          (case ed_value d of DV_momentary_switch_event v \<Rightarrow> Inr (Some (mse_event v)) | _ \<Rightarrow> Inl Bad_variant_access)
      | Def_from_event \<Rightarrow> Inr None
      | Def_any \<Rightarrow> Inr None
      | Def_shell_command \<Rightarrow>
          (case ed_value d of DV_string v \<Rightarrow> Inr (Some (make_shell_command_event v)) | _ \<Rightarrow> Inl Bad_variant_access)
      | Def_send_user_command \<Rightarrow>
          (case ed_value d of DV_json v \<Rightarrow> Inr (Some (make_send_user_command_event v)) | _ \<Rightarrow> Inl Bad_variant_access)
      | Def_select_input_source \<Rightarrow>
          (case ed_value d of DV_specifiers v \<Rightarrow> Inr (Some (make_select_input_source_event v)) | _ \<Rightarrow> Inl Bad_variant_access)
      | Def_set_variable \<Rightarrow>
          (case ed_value d of DV_set_variable v \<Rightarrow> Inr (Some (make_set_variable_event v)) | _ \<Rightarrow> Inl Bad_variant_access)
      | Def_set_notification_message \<Rightarrow>
          (case ed_value d of DV_notification_message v \<Rightarrow> Inr (Some (make_set_notification_message_event v))
           | _ \<Rightarrow> Inl Bad_variant_access)
      | Def_mouse_key \<Rightarrow>
          (case ed_value d of DV_mouse_key v \<Rightarrow> Inr (Some (make_mouse_key_event v)) | _ \<Rightarrow> Inl Bad_variant_access)
      | Def_sticky_modifier \<Rightarrow>
          (case ed_value d of DV_sticky_modifier f t \<Rightarrow> Inr (Some (make_sticky_modifier_event f t)) | _ \<Rightarrow> Inl Bad_variant_access)
      | Def_software_function \<Rightarrow>
          (case ed_value d of DV_software_function v \<Rightarrow> Inr (Some (make_software_function_event v)) | _ \<Rightarrow> Inl Bad_variant_access))"

subsection \<open>Reading a definition\<close>

text \<open>What the readers reject of third-party strings: regular expressions and expressions.\<close>

record rejects =
  rj_regex :: "string \<Rightarrow> bool"
  rj_expression :: "string \<Rightarrow> bool"

definition check_type :: "json \<Rightarrow> event_definition \<Rightarrow> json_error + unit" where
  "check_type j d =
     (if ed_type d \<noteq> Def_none then Inl (Unmarshal_error_dump ''multiple types are specified: `'' j ''`'') else Inr ())"

definition any_of_name :: "string \<Rightarrow> string \<Rightarrow> json_error + any_type" where
  "any_of_name k n =
     (if n = ''key_code'' then Inr Any_key_code
      else if n = ''consumer_key_code'' then Inr Any_consumer_key_code
      else if n = ''apple_vendor_keyboard_key_code'' then Inr Any_apple_vendor_keyboard_key_code
      else if n = ''apple_vendor_top_case_key_code'' then Inr Any_apple_vendor_top_case_key_code
      else if n = ''pointing_button'' then Inr Any_pointing_button
      else Inl (Unmarshal_error_dump (''unknown '' @ quoted k @ '': `'') (J_string n) ''`''))"

definition sticky_modifier_type_from_json :: "json \<Rightarrow> json_error + sticky_modifier_type" where
  "sticky_modifier_type_from_json j =
     and_then (requires_string ''json'' j) (\<lambda>s.
       if s = ''on'' then Inr Sticky_on
       else if s = ''off'' then Inr Sticky_off
       else if s = ''toggle'' then Inr Sticky_toggle
       else Inl (Unmarshal_error (''unknown value: `'' @ s @ ''`'')))"

definition check_set_variable :: "string \<Rightarrow> json \<Rightarrow> set_variable \<Rightarrow> json_error + set_variable" where
  "check_set_variable k j v =
     (if sv_name v = None then Inl (Unmarshal_error_dump (''`'' @ k @ ''.name` is not found in `'') j ''`'')
      else if sv_type v = Set_type_set \<and> sv_value v = None \<and> sv_expression v = None \<and>
              sv_key_up_value v = None \<and> sv_key_up_expression v = None
      then Inl (Unmarshal_error_dump (''none of `'' @ k @ ''.value`, `'' @ k @ ''.expression`, `'' @ k @
             ''.key_up_value`, or `'' @ k @ ''.key_up_expression` are not found in `'') j ''`'')
      else Inr v)"

definition set_event :: "definition_type \<Rightarrow> ('a \<Rightarrow> definition_value) \<Rightarrow> json_error + 'a \<Rightarrow>
    json_error + bool \<times> event_definition" where
  "set_event t f r = and_then r (\<lambda>x. Inr (True, \<lparr>ed_type = t, ed_value = f x\<rparr>))"

definition sticky_items :: "string \<Rightarrow> (string \<times> json) list \<Rightarrow> definition_value \<Rightarrow> json_error + definition_value" where
  "sticky_items k0 = fold_items (\<lambda>k v _.
     error_at k0 (and_then (modifier_flag_from_name k) (\<lambda>f.
       and_then (sticky_modifier_type_from_json v) (\<lambda>t. Inr (DV_sticky_modifier f t)))))"

definition handle_json ::
    "rejects \<Rightarrow> string \<Rightarrow> json \<Rightarrow> json \<Rightarrow> event_definition \<Rightarrow> json_error + bool \<times> event_definition" where
  "handle_json rj k v j d =
     (if k \<in> {''key_code'', ''consumer_key_code'', ''apple_vendor_keyboard_key_code'',
              ''apple_vendor_top_case_key_code'', ''generic_desktop'', ''pointing_button''} then
        and_then (check_type j d) (\<lambda>_. set_event Def_momentary_switch_event DV_momentary_switch_event
          (error_at k (mse_from_json (J_object [(k, v)]))))
      else if k = ''any'' then
        and_then (check_type j d) (\<lambda>_. set_event Def_any DV_any
          (and_then (requires_string (quoted k) v) (any_of_name k)))
      else if k = ''from_event'' then
        and_then (check_type j d) (\<lambda>_. and_then (requires_boolean (quoted k) v) (\<lambda>b.
          Inr (True, if b then \<lparr>ed_type = Def_from_event, ed_value = DV_monostate\<rparr> else d)))
      else if k = ''shell_command'' then
        and_then (check_type j d) (\<lambda>_. set_event Def_shell_command DV_string (requires_string (quoted k) v))
      else if k = ''send_user_command'' then
        and_then (check_type j d) (\<lambda>_. set_event Def_send_user_command (\<lambda>_. DV_json v) (requires_object (quoted k) v))
      else if k = ''select_input_source'' then
        and_then (check_type j d) (\<lambda>_. set_event Def_select_input_source DV_specifiers
          (case v of
             J_object xs \<Rightarrow> and_then (error_at k (specifier_from_json (rj_regex rj) v)) (\<lambda>s. Inr [s])
           | J_array js \<Rightarrow> error_at k (specifiers_from_list id (rj_regex rj) js)
           | _ \<Rightarrow> Inl (Unmarshal_error_dump (quoted k @ '' must be object or array of objects, but is `'') v ''`'')))
      else if k = ''set_variable'' then
        and_then (check_type j d) (\<lambda>_. set_event Def_set_variable DV_set_variable
          (and_then (error_at k (set_variable_from_json (rj_expression rj) v)) (check_set_variable k v)))
      else if k = ''set_notification_message'' then
        and_then (check_type j d) (\<lambda>_. set_event Def_set_notification_message DV_notification_message
          (error_at k (notification_message_from_json v)))
      else if k = ''mouse_key'' then
        and_then (check_type j d) (\<lambda>_. set_event Def_mouse_key DV_mouse_key (error_at k (mouse_key_from_json v)))
      else if k = ''sticky_modifier'' then
        and_then (check_type j d) (\<lambda>_. and_then (requires_object (quoted k) v) (\<lambda>xs.
          set_event Def_sticky_modifier id (sticky_items k xs (ed_value d))))
      else if k = ''software_function'' then
        and_then (check_type j d) (\<lambda>_. set_event Def_software_function DV_software_function
          (error_at k (software_function_from_json (rj_regex rj) v)))
      else if k = ''description'' then Inr (True, d)
      else Inr (False, d))"

subsection \<open>Output definitions\<close>

record to_event_definition =
  te_event_definition :: event_definition
  te_modifiers :: "modifier set"
  te_lazy :: bool
  te_repeat :: bool
  te_halt :: bool
  te_hold_down_milliseconds :: int
  te_conditions :: "condition list"

definition default_to_event_definition :: to_event_definition where
  "default_to_event_definition = \<lparr>te_event_definition = default_event_definition, te_modifiers = {},
     te_lazy = False, te_repeat = True, te_halt = False, te_hold_down_milliseconds = 0, te_conditions = []\<rparr>"

definition te_make_from_momentary_switch_event ::
    "momentary_switch_event \<Rightarrow> to_event_definition \<Rightarrow> to_event_definition" where
  "te_make_from_momentary_switch_event e base =
     \<lparr>te_event_definition = ed_make_from_momentary_switch_event e, te_modifiers = te_modifiers base,
      te_lazy = te_lazy base, te_repeat = te_repeat base, te_halt = te_halt base,
      te_hold_down_milliseconds = te_hold_down_milliseconds base, te_conditions = te_conditions base\<rparr>"

definition te_needs_virtual_hid_pointing :: "to_event_definition \<Rightarrow> bool" where
  "te_needs_virtual_hid_pointing d =
     (if (case ed_get_if_mse (te_event_definition d) of Some e \<Rightarrow> mse_pointing_button e | None \<Rightarrow> False) then True
      else if ed_type (te_event_definition d) = Def_mouse_key then True
      else False)"

definition make_modifier_events :: "to_event_definition \<Rightarrow> momentary_switch_event list" where
  "make_modifier_events d =
     concat (map (\<lambda>m. case get_modifier_flags m of
         [] \<Rightarrow> []
       | f # _ \<Rightarrow> if mse_valid (mse_of_modifier_flag f) then [mse_of_modifier_flag f] else [])
       (filter (\<lambda>m. m \<in> te_modifiers d) (all_modifiers @ [Mod_end])))"

text \<open>Conditions are numbered in the order they are made; the counter and the store are threaded.\<close>

type_synonym making = "nat \<times> condition_store"

fun make_conditions :: "rejects \<Rightarrow> json list \<Rightarrow> making \<Rightarrow> json_error + condition list \<times> making" where
  "make_conditions rj [] m = Inr ([], m)"
| "make_conditions rj (j # js) (n, st) =
     and_then (make_condition (rj_regex rj) (rj_expression rj) n j st) (\<lambda>(c, st1).
     and_then (make_conditions rj js (Suc n, st1)) (\<lambda>(cs, m). Inr (c # cs, m)))"

definition to_event_option ::
    "rejects \<Rightarrow> json \<Rightarrow> string \<Rightarrow> json \<Rightarrow> to_event_definition \<Rightarrow> making \<Rightarrow> json_error + to_event_definition \<times> making" where
  "to_event_option rj j k v d m =
     (if k = ''modifiers'' then
        and_then (error_at k (make_modifiers v)) (\<lambda>s. Inr (d\<lparr>te_modifiers := s\<rparr>, m))
      else if k = ''lazy'' then and_then (requires_boolean (quoted k) v) (\<lambda>b. Inr (d\<lparr>te_lazy := b\<rparr>, m))
      else if k = ''repeat'' then and_then (requires_boolean (quoted k) v) (\<lambda>b. Inr (d\<lparr>te_repeat := b\<rparr>, m))
      else if k = ''halt'' then and_then (requires_boolean (quoted k) v) (\<lambda>b. Inr (d\<lparr>te_halt := b\<rparr>, m))
      else if k = ''hold_down_milliseconds'' \<or> k = ''held_down_milliseconds'' then
        and_then (requires_number (quoted k) v) (\<lambda>x. Inr (d\<lparr>te_hold_down_milliseconds := get_int32 x\<rparr>, m))
      else if k = ''conditions'' then
        and_then (requires_array (quoted k) v) (\<lambda>js. and_then (make_conditions rj js m)
          (\<lambda>(cs, m1). Inr (d\<lparr>te_conditions := te_conditions d @ cs\<rparr>, m1)))
      else Inl (unknown_key_in j k))"

definition to_event_item ::
    "rejects \<Rightarrow> json \<Rightarrow> string \<Rightarrow> json \<Rightarrow> to_event_definition \<times> making \<Rightarrow> json_error + to_event_definition \<times> making" where
  "to_event_item rj j k v = (\<lambda>(d, m).
     and_then (handle_json rj k v j (te_event_definition d)) (\<lambda>(handled, ed).
       if handled then Inr (d\<lparr>te_event_definition := ed\<rparr>, m) else to_event_option rj j k v d m))"

definition to_event_from_json ::
    "rejects \<Rightarrow> json \<Rightarrow> making \<Rightarrow> json_error + to_event_definition \<times> making" where
  "to_event_from_json rj j m =
     and_then (requires_object ''json'' j) (\<lambda>xs.
     and_then (fold_items (to_event_item rj j) xs (default_to_event_definition, m)) (\<lambda>(d, m1).
       if ed_type (te_event_definition d) = Def_none \<or> ed_type (te_event_definition d) = Def_any
       then Inl (Unmarshal_error_dump ''event type is invalid: `'' j ''`'')
       else Inr (d, m1)))"

subsection \<open>A definition that was read yields its event\<close>

fun agrees_with :: "definition_type \<Rightarrow> definition_value \<Rightarrow> bool" where
  "agrees_with Def_none v \<longleftrightarrow> v = DV_monostate"
| "agrees_with Def_momentary_switch_event v \<longleftrightarrow> (\<exists>x. v = DV_momentary_switch_event x)"
| "agrees_with Def_from_event v \<longleftrightarrow> v = DV_monostate"
| "agrees_with Def_any v \<longleftrightarrow> (\<exists>x. v = DV_any x)"
| "agrees_with Def_shell_command v \<longleftrightarrow> (\<exists>x. v = DV_string x)"
| "agrees_with Def_send_user_command v \<longleftrightarrow> (\<exists>x. v = DV_json x)"
| "agrees_with Def_select_input_source v \<longleftrightarrow> (\<exists>x. v = DV_specifiers x)"
| "agrees_with Def_set_variable v \<longleftrightarrow> (\<exists>x. v = DV_set_variable x)"
| "agrees_with Def_set_notification_message v \<longleftrightarrow> (\<exists>x. v = DV_notification_message x)"
| "agrees_with Def_mouse_key v \<longleftrightarrow> (\<exists>x. v = DV_mouse_key x)"
| "agrees_with Def_sticky_modifier v \<longleftrightarrow> v = DV_monostate \<or> (\<exists>f t. v = DV_sticky_modifier f t)"
| "agrees_with Def_software_function v \<longleftrightarrow> (\<exists>x. v = DV_software_function x)"

definition agrees :: "event_definition \<Rightarrow> bool" where
  "agrees d \<longleftrightarrow> agrees_with (ed_type d) (ed_value d)"

fun tag_of :: "definition_type \<Rightarrow> event_tag" where
  "tag_of Def_momentary_switch_event = Tag_momentary_switch_event"
| "tag_of Def_shell_command = Tag_shell_command"
| "tag_of Def_send_user_command = Tag_send_user_command"
| "tag_of Def_select_input_source = Tag_select_input_source"
| "tag_of Def_set_variable = Tag_set_variable"
| "tag_of Def_set_notification_message = Tag_set_notification_message"
| "tag_of Def_mouse_key = Tag_mouse_key"
| "tag_of Def_sticky_modifier = Tag_sticky_modifier"
| "tag_of Def_software_function = Tag_software_function"
| "tag_of _ = Tag_none"

lemma set_event_agrees:
  "set_event t f r = Inr (h, d) \<Longrightarrow> (\<And>x. agrees_with t (f x)) \<Longrightarrow> agrees d"
  by (auto simp: set_event_def and_then_Inr_iff agrees_def)

lemma sticky_items_value:
  "sticky_items k xs v = Inr v' \<Longrightarrow> agrees_with Def_sticky_modifier v \<Longrightarrow> agrees_with Def_sticky_modifier v'"
proof (induction xs arbitrary: v)
  case (Cons x xs)
  obtain n w where x: "x = (n, w)" by fastforce
  have "error_at k r = Inr y \<Longrightarrow> r = Inr y" for r :: "json_error + definition_value" and y
    by (auto simp: error_at_def split: sum.split_asm json_error.split_asm)
  then obtain f t where "sticky_items k xs (DV_sticky_modifier f t) = Inr v'"
    using Cons.prems(1) x by (fastforce simp: sticky_items_def and_then_Inr_iff)
  then show ?case using Cons.IH by (metis agrees_with.simps(11))
qed (simp add: sticky_items_def)

lemma handle_json_agrees:
  assumes "handle_json rj k v j d = Inr (h, d')" "agrees d"
  shows "agrees d'"
proof -
  have typed: "and_then (check_type j d) (\<lambda>_. r) = Inr y \<Longrightarrow> r = Inr y \<and> ed_type d = Def_none" for r y
    by (auto simp: check_type_def and_then_Inr_iff split: if_split_asm)
  have sticky: "set_event Def_sticky_modifier id (sticky_items k' xs (ed_value d)) = Inr (h, d') \<Longrightarrow>
      check_type j d = Inr () \<Longrightarrow> agrees d'" for k' xs
    using assms(2) sticky_items_value [of k' xs "ed_value d"]
    by (auto simp: set_event_def and_then_Inr_iff agrees_def check_type_def split: if_split_asm)
  show ?thesis
    using assms unfolding handle_json_def
    by (auto simp: and_then_Inr_iff agrees_def [of "\<lparr>ed_type = Def_from_event, ed_value = DV_monostate\<rparr>"]
        split: if_split_asm dest!: typed dest: set_event_agrees sticky)
qed

lemma to_event_option_keeps:
  "on_success (\<lambda>x. te_event_definition (fst x) = te_event_definition d) (to_event_option rj j k v d m)"
  unfolding to_event_option_def split_def by (intro on_success_intros) simp_all

lemma to_event_items_agrees:
  "fold_items (to_event_item rj j) xs (d, m) = Inr (d', m') \<Longrightarrow> agrees (te_event_definition d) \<Longrightarrow>
     agrees (te_event_definition d')"
proof (induction xs arbitrary: d m)
  case (Cons x xs)
  obtain k v where x: "x = (k, v)" by fastforce
  obtain d1 m1 where step: "to_event_item rj j k v (d, m) = Inr (d1, m1)"
      "fold_items (to_event_item rj j) xs (d1, m1) = Inr (d', m')"
    using Cons.prems(1) x by (auto simp: and_then_Inr_iff)
  then obtain h ed where h: "handle_json rj k v j (te_event_definition d) = Inr (h, ed)"
    by (auto simp: to_event_item_def and_then_Inr_iff)
  have "agrees (te_event_definition d1)"
  proof (cases h)
    case True
    then show ?thesis using step(1) h handle_json_agrees [OF h Cons.prems(2)] by (auto simp: to_event_item_def)
  next
    case False
    then have "to_event_option rj j k v d m = Inr (d1, m1)" using step(1) h by (simp add: to_event_item_def)
    then show ?thesis using on_successD [OF to_event_option_keeps] Cons.prems(2) by fastforce
  qed
  then show ?case using Cons.IH step(2) by blast
qed simp

text \<open>
  An output definition that is accepted by the reader has an event of its type, or stands for the
  input event, or is a sticky modifier without a modifier, whose event throws
  \<open>bad_variant_access\<close>.
\<close>

theorem accepted_definition_yields_event:
  assumes "to_event_from_json rj j m = Inr (d, m')"
  shows "case to_event (te_event_definition d) of
      Inr (Some e) \<Rightarrow> ev_type e = tag_of (ed_type (te_event_definition d))
    | Inr None \<Rightarrow> ed_type (te_event_definition d) = Def_from_event
    | Inl _ \<Rightarrow> te_event_definition d = \<lparr>ed_type = Def_sticky_modifier, ed_value = DV_monostate\<rparr>"
proof -
  obtain xs where "fold_items (to_event_item rj j) xs (default_to_event_definition, m) = Inr (d, m')"
      and t: "ed_type (te_event_definition d) \<noteq> Def_none" "ed_type (te_event_definition d) \<noteq> Def_any"
    using assms by (auto simp: to_event_from_json_def and_then_Inr_iff split: if_split_asm)
  moreover have "agrees (te_event_definition default_to_event_definition)"
    by (simp add: default_to_event_definition_def default_event_definition_def agrees_def)
  ultimately have "agrees (te_event_definition d)" by (metis to_event_items_agrees)
  then show ?thesis
    using t by (cases "te_event_definition d"; cases "ed_type (te_event_definition d)")
      (auto simp: agrees_def to_event_def event_constructors)
qed

theorem accepted_definition_yields_event_witness:
  "\<exists>d m. to_event_from_json \<lparr>rj_regex = (\<lambda>_. False), rj_expression = (\<lambda>_. False)\<rparr>
      (J_object [(''shell_command'', J_string ''ls'')]) (0, empty_store) = Inr (d, m) \<and>
    to_event (te_event_definition d) = Inr (Some (make_shell_command_event ''ls''))"
proof -
  let ?rj = "\<lparr>rj_regex = (\<lambda>_. False), rj_expression = (\<lambda>_. False)\<rparr>"
  let ?d = "default_to_event_definition\<lparr>te_event_definition := \<lparr>ed_type = Def_shell_command, ed_value = DV_string ''ls''\<rparr>\<rparr>"
  have r: "to_event_from_json ?rj (J_object [(''shell_command'', J_string ''ls'')]) (0, empty_store) = Inr (?d, (0, empty_store))"
    by (simp add: to_event_from_json_def to_event_item_def handle_json_def check_type_def set_event_def
        default_to_event_definition_def default_event_definition_def)
  show ?thesis
    using r accepted_definition_yields_event [OF r]
    by (auto simp: to_event_def default_to_event_definition_def split: sum.splits option.splits)
qed

text \<open>The reader accepts a sticky modifier without a modifier, and its event throws.\<close>

theorem empty_sticky_modifier_throws:
  "\<exists>d. to_event_from_json rj (J_object [(''sticky_modifier'', J_object [])]) m = Inr (d, m) \<and>
     to_event (te_event_definition d) = Inl Bad_variant_access"
  by (simp add: to_event_from_json_def to_event_item_def handle_json_def check_type_def set_event_def
      sticky_items_def default_to_event_definition_def default_event_definition_def to_event_def)

end
