(* ===== verification/FromEvents.thy ===== *)
theory FromEvents
  imports ToEvents
begin

text \<open>
  \<open>simultaneous_options\<close> and \<open>from_event_definition\<close>: the input side of a rule. A rule names one
  event or several simultaneous ones; an event matches a definition by its usage pair or, for
  \<open>any\<close>, by its usage page.
\<close>

subsection \<open>Lists of output definitions\<close>

fun to_events_from_list :: "rejects \<Rightarrow> json list \<Rightarrow> making \<Rightarrow> json_error + to_event_definition list \<times> making" where
  "to_events_from_list rj [] m = Inr ([], m)"
| "to_events_from_list rj (j # js) m =
     and_then (to_event_from_json rj j m) (\<lambda>(d, m1).
     and_then (to_events_from_list rj js m1) (\<lambda>(ds, m2). Inr (d # ds, m2)))"

definition to_events_from_json ::
    "rejects \<Rightarrow> string \<Rightarrow> json \<Rightarrow> making \<Rightarrow> json_error + to_event_definition list \<times> making" where
  "to_events_from_json rj k v m =
     (case v of
        J_object _ \<Rightarrow> and_then (error_at k (to_event_from_json rj v m)) (\<lambda>(d, m1). Inr ([d], m1))
      | J_array js \<Rightarrow> entry_error k (to_events_from_list rj js m)
      | _ \<Rightarrow> Inl (Unmarshal_error_dump (quoted k @ '' must be object or array, but is `'') v ''`''))"

subsection \<open>Options of simultaneous events\<close>

datatype key_order = Order_insensitive | Order_strict | Order_strict_inverse

datatype key_up_when = When_any | When_all

record simultaneous_options =
  so_detect_key_down_uninterruptedly :: bool
  so_key_down_order :: key_order
  so_key_up_order :: key_order
  so_key_up_when :: key_up_when
  so_to_after_key_up :: "to_event_definition list"

definition default_simultaneous_options :: simultaneous_options where
  "default_simultaneous_options = \<lparr>so_detect_key_down_uninterruptedly = False,
     so_key_down_order = Order_insensitive, so_key_up_order = Order_insensitive,
     so_key_up_when = When_any, so_to_after_key_up = []\<rparr>"

definition key_order_from_json :: "json \<Rightarrow> json_error + key_order" where
  "key_order_from_json j =
     and_then (requires_string ''json'' j) (\<lambda>s.
       if s = ''insensitive'' then Inr Order_insensitive
       else if s = ''strict'' then Inr Order_strict
       else if s = ''strict_inverse'' then Inr Order_strict_inverse
       else Inl (Unmarshal_error (''unknown value: `'' @ s @ ''`'')))"

definition key_up_when_from_json :: "json \<Rightarrow> json_error + key_up_when" where
  "key_up_when_from_json j =
     and_then (requires_string ''json'' j) (\<lambda>s.
       if s = ''any'' then Inr When_any
       else if s = ''all'' then Inr When_all
       else Inl (Unmarshal_error (''unknown value: `'' @ s @ ''`'')))"

definition simultaneous_options_item ::
    "rejects \<Rightarrow> json \<Rightarrow> string \<Rightarrow> json \<Rightarrow> simultaneous_options \<times> making \<Rightarrow> json_error + simultaneous_options \<times> making" where
  "simultaneous_options_item rj j k v = (\<lambda>(o1, m).
     if k = ''detect_key_down_uninterruptedly'' then
       and_then (requires_boolean (quoted k) v) (\<lambda>b. Inr (o1\<lparr>so_detect_key_down_uninterruptedly := b\<rparr>, m))
     else if k = ''key_down_order'' then
       and_then (error_at k (key_order_from_json v)) (\<lambda>x. Inr (o1\<lparr>so_key_down_order := x\<rparr>, m))
     else if k = ''key_up_order'' then
       and_then (error_at k (key_order_from_json v)) (\<lambda>x. Inr (o1\<lparr>so_key_up_order := x\<rparr>, m))
     else if k = ''key_up_when'' then
       and_then (error_at k (key_up_when_from_json v)) (\<lambda>x. Inr (o1\<lparr>so_key_up_when := x\<rparr>, m))
     else if k = ''to_after_key_up'' then
       and_then (to_events_from_json rj k v m)
         (\<lambda>(ds, m1). Inr (o1\<lparr>so_to_after_key_up := so_to_after_key_up o1 @ ds\<rparr>, m1))
     else if k = ''description'' then Inr (o1, m)
     else Inl (unknown_key_in j k))"

definition simultaneous_options_from_json ::
    "rejects \<Rightarrow> json \<Rightarrow> making \<Rightarrow> json_error + simultaneous_options \<times> making" where
  "simultaneous_options_from_json rj j m =
     and_then (requires_object ''json'' j) (\<lambda>xs.
       fold_items (simultaneous_options_item rj j) xs (default_simultaneous_options, m))"

subsection \<open>Input definitions\<close>

record from_event_definition =
  fd_event_definitions :: "event_definition list"
  fd_from_modifiers_definition :: from_modifiers_definition
  fd_event_integer_value :: "int option"
  fd_simultaneous_options :: simultaneous_options

definition default_from_event_definition :: from_event_definition where
  "default_from_event_definition = \<lparr>fd_event_definitions = [], fd_from_modifiers_definition = default_from_modifiers,
     fd_event_integer_value = None, fd_simultaneous_options = default_simultaneous_options\<rparr>"

fun any_type_page :: "any_type \<Rightarrow> int" where
  "any_type_page Any_key_code = page_keyboard_or_keypad"
| "any_type_page Any_consumer_key_code = page_consumer"
| "any_type_page Any_apple_vendor_keyboard_key_code = page_apple_vendor_keyboard"
| "any_type_page Any_apple_vendor_top_case_key_code = page_apple_vendor_top_case"
| "any_type_page Any_pointing_button = page_button"

definition test_event :: "event \<Rightarrow> event_definition \<Rightarrow> bool" where
  "test_event e d =
     (if (case (get_if_mse e, ed_get_if_mse d) of (Some x, Some y) \<Rightarrow> x = y | _ \<Rightarrow> False) then True
      else (case (ed_get_if_any d, get_if_mse e) of
              (Some a, Some x) \<Rightarrow> mse_valid x \<and> usage_page (get_usage_pair x) = any_type_page a
            | _ \<Rightarrow> False))"

definition test_from_event :: "event \<Rightarrow> from_event_definition \<Rightarrow> bool" where
  "test_from_event e d \<longleftrightarrow> (\<exists>x\<in>set (fd_event_definitions d). test_event e x)"

text \<open>The loop over the positions of the events; positions without a definition are skipped.\<close>

definition test_key_order :: "event list \<Rightarrow> key_order \<Rightarrow> event_definition list \<Rightarrow> bool" where
  "test_key_order es ord ds =
     (case ord of
        Order_insensitive \<Rightarrow> True
      | Order_strict \<Rightarrow> list_all (\<lambda>i. i < length ds \<longrightarrow> test_event (es ! i) (ds ! i)) [0..<length es]
      | Order_strict_inverse \<Rightarrow>
          list_all (\<lambda>i. i < length ds \<longrightarrow> test_event (es ! i) (ds ! (length ds - 1 - i))) [0..<length es])"

subsection \<open>Reading an input definition\<close>

definition simultaneous_item ::
    "rejects \<Rightarrow> json \<Rightarrow> string \<Rightarrow> json \<Rightarrow> event_definition \<Rightarrow> json_error + event_definition" where
  "simultaneous_item rj j k v d =
     and_then (handle_json rj k v j d) (\<lambda>(handled, d1).
       if handled then Inr d1
       else Inl (Unmarshal_error_dump (''unknown key: `'' @ k @ ''` in `'') j ''''))"

fun simultaneous_from_list ::
    "rejects \<Rightarrow> string \<Rightarrow> json \<Rightarrow> json list \<Rightarrow> json_error + event_definition list" where
  "simultaneous_from_list rj k j0 [] = Inr []"
| "simultaneous_from_list rj k j0 (j # js) =
     and_then (requires_object (quoted k @ '' entry'') j) (\<lambda>xs.
     and_then (fold_items (simultaneous_item rj j) xs default_event_definition) (\<lambda>d.
       if ed_type d = Def_none then Inl (Unmarshal_error_dump ''event type is invalid: `'' j0 ''`'')
       else and_then (simultaneous_from_list rj k j0 js) (\<lambda>ds. Inr (d # ds))))"

record from_reader =
  fr_definition :: from_event_definition
  fr_event_definitions :: "event_definition list"
  fr_default :: event_definition
  fr_making :: making

definition integer_value_from_json :: "json \<Rightarrow> json_error + int" where
  "integer_value_from_json j = and_then (requires_number ''json'' j) (\<lambda>v. Inr (get_int64 v))"

definition from_event_item :: "rejects \<Rightarrow> json \<Rightarrow> string \<Rightarrow> json \<Rightarrow> from_reader \<Rightarrow> json_error + from_reader" where
  "from_event_item rj j k v r =
     and_then (handle_json rj k v j (fr_default r)) (\<lambda>(handled, ed).
       if handled then Inr (r\<lparr>fr_default := ed\<rparr>)
       else if k = ''modifiers'' then
         and_then (error_at k (from_modifiers_from_json v)) (\<lambda>x.
           Inr (r\<lparr>fr_definition := (fr_definition r)\<lparr>fd_from_modifiers_definition := x\<rparr>\<rparr>))
       else if k = ''integer_value'' then
         and_then (error_at k (integer_value_from_json v)) (\<lambda>x.
           Inr (r\<lparr>fr_definition := (fr_definition r)\<lparr>fd_event_integer_value := Some x\<rparr>\<rparr>))
       else if k = ''simultaneous'' then
         and_then (requires_array (quoted k) v) (\<lambda>js.
         and_then (simultaneous_from_list rj k j js) (\<lambda>ds.
           Inr (r\<lparr>fr_event_definitions := fr_event_definitions r @ ds\<rparr>)))
       else if k = ''simultaneous_options'' then
         and_then (error_at k (simultaneous_options_from_json rj v (fr_making r))) (\<lambda>(x, m).
           Inr (r\<lparr>fr_definition := (fr_definition r)\<lparr>fd_simultaneous_options := x\<rparr>, fr_making := m\<rparr>))
       else Inl (Unmarshal_error_dump (''`from` error: unknown key `'' @ k @ ''` in `'') j ''`''))"

definition from_event_from_json :: "rejects \<Rightarrow> json \<Rightarrow> making \<Rightarrow> json_error + from_event_definition \<times> making" where
  "from_event_from_json rj j m =
     and_then (requires_object ''json'' j) (\<lambda>xs.
     and_then (fold_items (from_event_item rj j) xs
        \<lparr>fr_definition = default_from_event_definition, fr_event_definitions = [],
         fr_default = default_event_definition, fr_making = m\<rparr>) (\<lambda>r.
       let ds = (if fr_event_definitions r = [] \<and> ed_type (fr_default r) \<noteq> Def_none
                 then [fr_default r] else fr_event_definitions r)
       in if ds = [] then Inl (Unmarshal_error_dump ''event is not specified: `'' j ''`'')
          else if list_all (\<lambda>d. ed_type d \<in> {Def_momentary_switch_event, Def_any}) ds
          then Inr ((fr_definition r)\<lparr>fd_event_definitions := ds\<rparr>, fr_making r)
          else Inl (Unmarshal_error_dump ''event type is invalid: `'' j ''`'')))"

subsection \<open>What an accepted input definition matches\<close>

text \<open>The events of a definition: an event it names, or all of a page.\<close>

definition well_formed_from :: "from_event_definition \<Rightarrow> bool" where
  "well_formed_from d \<longleftrightarrow> fd_event_definitions d \<noteq> [] \<and>
     (\<forall>x\<in>set (fd_event_definitions d).
        (\<exists>e. x = \<lparr>ed_type = Def_momentary_switch_event, ed_value = DV_momentary_switch_event e\<rparr>) \<or>
        (\<exists>a. x = \<lparr>ed_type = Def_any, ed_value = DV_any a\<rparr>))"

lemma simultaneous_item_agrees:
  "on_success agrees (simultaneous_item rj j k v d)" if "agrees d"
  unfolding simultaneous_item_def split_def
  using that by (auto simp: on_success_def and_then_def dest: handle_json_agrees split: sum.splits if_splits)

lemma simultaneous_items_agree:
  "fold_items (simultaneous_item rj j) xs d = Inr d' \<Longrightarrow> agrees d \<Longrightarrow> agrees d'"
proof (induction xs arbitrary: d)
  case (Cons x xs)
  obtain k v where x: "x = (k, v)" by fastforce
  obtain d1 where "simultaneous_item rj j k v d = Inr d1" "fold_items (simultaneous_item rj j) xs d1 = Inr d'"
    using Cons.prems(1) x by (auto simp: and_then_Inr_iff)
  then show ?case using Cons.IH on_successD [OF simultaneous_item_agrees [OF Cons.prems(2)]] by blast
qed simp

lemma agrees_default [simp]: "agrees default_event_definition"
  by (simp add: agrees_def default_event_definition_def)

lemma simultaneous_list_agrees: "simultaneous_from_list rj k j0 js = Inr ds \<Longrightarrow> \<forall>d\<in>set ds. agrees d"
proof (induction js arbitrary: ds)
  case (Cons j js)
  then show ?case
    by (auto simp: and_then_Inr_iff split: if_split_asm dest!: simultaneous_items_agree)
qed simp

definition reader_agrees :: "from_reader \<Rightarrow> bool" where
  "reader_agrees r \<longleftrightarrow> agrees (fr_default r) \<and> (\<forall>d\<in>set (fr_event_definitions r). agrees d)"

lemma from_event_item_agrees: "from_event_item rj j k v r = Inr r' \<Longrightarrow> reader_agrees r \<Longrightarrow> reader_agrees r'"
proof -
  assume a: "from_event_item rj j k v r = Inr r'" and r: "reader_agrees r"
  obtain h ed where h: "handle_json rj k v j (fr_default r) = Inr (h, ed)"
    using a by (auto simp: from_event_item_def and_then_Inr_iff)
  have "agrees ed" using handle_json_agrees [OF h] r by (simp add: reader_agrees_def)
  then show ?thesis
    using a r h by (cases h)
      (auto simp: from_event_item_def reader_agrees_def and_then_Inr_iff split: if_split_asm
        dest!: simultaneous_list_agrees)
qed

lemma from_event_items_agree:
  "fold_items (from_event_item rj j) xs r = Inr r' \<Longrightarrow> reader_agrees r \<Longrightarrow> reader_agrees r'"
proof (induction xs arbitrary: r)
  case (Cons x xs)
  obtain k v where x: "x = (k, v)" by fastforce
  obtain r1 where "from_event_item rj j k v r = Inr r1" "fold_items (from_event_item rj j) xs r1 = Inr r'"
    using Cons.prems(1) x by (auto simp: and_then_Inr_iff)
  then show ?case using Cons.IH from_event_item_agrees Cons.prems(2) by blast
qed simp

lemma from_event_well_formed: "from_event_from_json rj j m = Inr (d, m') \<Longrightarrow> well_formed_from d"
proof -
  assume a: "from_event_from_json rj j m = Inr (d, m')"
  obtain xs r where r: "fold_items (from_event_item rj j) xs
        \<lparr>fr_definition = default_from_event_definition, fr_event_definitions = [],
         fr_default = default_event_definition, fr_making = m\<rparr> = Inr r"
    and d: "fd_event_definitions d = (if fr_event_definitions r = [] \<and> ed_type (fr_default r) \<noteq> Def_none
                 then [fr_default r] else fr_event_definitions r)"
      "fd_event_definitions d \<noteq> []"
      "\<forall>x\<in>set (fd_event_definitions d). ed_type x = Def_momentary_switch_event \<or> ed_type x = Def_any"
    using a by (auto simp: from_event_from_json_def and_then_Inr_iff Let_def list_all_iff split: if_split_asm)
  have "reader_agrees r" by (rule from_event_items_agree [OF r]) (simp add: reader_agrees_def)
  then have ag: "\<forall>x\<in>set (fd_event_definitions d). agrees x" using d(1) by (auto simp: reader_agrees_def)
  have "(\<exists>e. x = \<lparr>ed_type = Def_momentary_switch_event, ed_value = DV_momentary_switch_event e\<rparr>) \<or>
        (\<exists>a. x = \<lparr>ed_type = Def_any, ed_value = DV_any a\<rparr>)" if "x \<in> set (fd_event_definitions d)" for x
  proof -
    have "agrees x" "ed_type x = Def_momentary_switch_event \<or> ed_type x = Def_any" using that ag d(3) by auto
    then show ?thesis by (cases x) (auto simp: agrees_def)
  qed
  then show ?thesis using d(2) by (simp add: well_formed_from_def)
qed

lemma test_event_simps:
  "test_event e \<lparr>ed_type = t, ed_value = DV_momentary_switch_event x\<rparr> \<longleftrightarrow> get_if_mse e = Some x"
  "test_event e \<lparr>ed_type = t, ed_value = DV_any a\<rparr> \<longleftrightarrow>
     (\<exists>x. get_if_mse e = Some x \<and> mse_valid x \<and> usage_page (get_usage_pair x) = any_type_page a)"
  by (auto simp: test_event_def ed_get_if_mse_def ed_get_if_any_def split: option.splits)

lemma test_from_event_mse: "test_from_event e d \<Longrightarrow> get_if_mse e \<noteq> None"
  by (auto simp: test_from_event_def test_event_def split: option.splits if_splits)

end
