(* ===== verification/PointingButtonManager.thy ===== *)
theory PointingButtonManager
  imports HidTypes Machines
begin

text \<open>
  \<open>krbn::pointing_button_manager\<close>: the pressed pointing buttons. A release drops every press of the
  button, whatever device it came from. The abstract specification is the set of pairs of a button
  and a device that holds it.
\<close>

datatype button_type = Button_increase | Button_decrease

record active_pointing_button =
  apb_type :: button_type
  apb_usage_pair :: usage_pair
  apb_device_id :: device_id

definition mk_apb :: "button_type \<Rightarrow> usage_pair \<Rightarrow> device_id \<Rightarrow> active_pointing_button" where
  "mk_apb t u d = \<lparr>apb_type = t, apb_usage_pair = u, apb_device_id = d\<rparr>"

fun button_inverse :: "button_type \<Rightarrow> button_type" where
  "button_inverse Button_increase = Button_decrease"
| "button_inverse Button_decrease = Button_increase"

definition button_count :: "active_pointing_button \<Rightarrow> int" where
  "button_count b = (if apb_type b = Button_increase then 1 else -1)"

definition button_is_paired :: "active_pointing_button \<Rightarrow> active_pointing_button \<Rightarrow> bool" where
  "button_is_paired b c \<longleftrightarrow> apb_type b = button_inverse (apb_type c) \<and> apb_usage_pair b = apb_usage_pair c"

type_synonym pointing_button_manager = "active_pointing_button list"

definition push_back_active_pointing_button ::
    "active_pointing_button \<Rightarrow> pointing_button_manager \<Rightarrow> pointing_button_manager" where
  "push_back_active_pointing_button b bs =
     (if usage (apb_usage_pair b) = usage_undefined then bs
      else case apb_type b of
             Button_increase \<Rightarrow> bs @ [b]
           | Button_decrease \<Rightarrow> remove_if (\<lambda>c. button_is_paired c b) bs)"

definition erase_all_active_pointing_buttons ::
    "device_id \<Rightarrow> pointing_button_manager \<Rightarrow> pointing_button_manager" where
  "erase_all_active_pointing_buttons d bs = remove_if (\<lambda>b. apb_device_id b = d) bs"

definition erase_all_active_pointing_buttons_except_lock ::
    "device_id \<Rightarrow> pointing_button_manager \<Rightarrow> pointing_button_manager" where
  "erase_all_active_pointing_buttons_except_lock d bs = erase_all_active_pointing_buttons d bs"

definition pbm_reset :: "pointing_button_manager \<Rightarrow> pointing_button_manager" where
  "pbm_reset bs = []"

definition button_is_pressed :: "pointing_button_manager \<Rightarrow> usage_pair \<Rightarrow> bool" where
  "button_is_pressed bs u \<longleftrightarrow>
     foldl (\<lambda>n b. if apb_usage_pair b = u then n + button_count b else n) 0 bs > 0"

text \<open>The report's button set belongs to the virtual device driver: its operations are parameters.\<close>

fun report_buttons_from :: "nat \<Rightarrow> (int \<Rightarrow> 'b \<Rightarrow> 'b) \<Rightarrow> pointing_button_manager \<Rightarrow> int \<Rightarrow> 'b \<Rightarrow> 'b" where
  "report_buttons_from 0 ins bs u r = r"
| "report_buttons_from (Suc n) ins bs u r =
     (if u \<le> 32 then
        report_buttons_from n ins bs (u + 1)
          (if button_is_pressed bs (mk_pair page_button u) then ins u r else r)
      else r)"

definition make_hid_report_buttons :: "'b \<Rightarrow> (int \<Rightarrow> 'b \<Rightarrow> 'b) \<Rightarrow> pointing_button_manager \<Rightarrow> 'b" where
  "make_hid_report_buttons none ins bs = report_buttons_from 33 ins bs 1 none"

subsection \<open>The set of held buttons\<close>

definition pbm_inv :: "pointing_button_manager \<Rightarrow> bool" where
  "pbm_inv bs \<longleftrightarrow> (\<forall>b\<in>set bs. apb_type b = Button_increase \<and> usage (apb_usage_pair b) \<noteq> usage_undefined)"

definition held :: "pointing_button_manager \<Rightarrow> (usage_pair \<times> device_id) set" where
  "held bs = (\<lambda>b. (apb_usage_pair b, apb_device_id b)) ` set bs"

datatype pbm_op = Push_button active_pointing_button | Erase_buttons device_id | Reset_buttons

fun pbm_step :: "pbm_op \<Rightarrow> pointing_button_manager \<Rightarrow> pointing_button_manager" where
  "pbm_step (Push_button b) = push_back_active_pointing_button b"
| "pbm_step (Erase_buttons d) = erase_all_active_pointing_buttons d"
| "pbm_step Reset_buttons = pbm_reset"

fun held_step :: "pbm_op \<Rightarrow> (usage_pair \<times> device_id) set \<Rightarrow> (usage_pair \<times> device_id) set" where
  "held_step (Push_button b) h =
     (if usage (apb_usage_pair b) = usage_undefined then h
      else if apb_type b = Button_increase then insert (apb_usage_pair b, apb_device_id b) h
      else {(u, d) \<in> h. u \<noteq> apb_usage_pair b})"
| "held_step (Erase_buttons d) h = {(u, d') \<in> h. d' \<noteq> d}"
| "held_step Reset_buttons h = {}"

lemma pbm_inv_step: "pbm_inv bs \<Longrightarrow> pbm_inv (pbm_step op bs)"
  by (cases op)
     (auto simp: pbm_inv_def push_back_active_pointing_button_def erase_all_active_pointing_buttons_def
        pbm_reset_def split: button_type.split)

lemma held_pbm_step: "pbm_inv bs \<Longrightarrow> held (pbm_step op bs) = held_step op (held bs)"
proof (cases op)
  case (Push_button b)
  assume inv: "pbm_inv bs"
  show ?thesis
  proof (cases "apb_type b")
    case Button_decrease
    then have "\<forall>c\<in>set bs. button_is_paired c b \<longleftrightarrow> apb_usage_pair c = apb_usage_pair b"
      using inv by (simp add: button_is_paired_def pbm_inv_def)
    with Button_decrease show ?thesis
      by (auto simp: held_def Push_button push_back_active_pointing_button_def)
  qed (auto simp: held_def Push_button push_back_active_pointing_button_def)
qed (auto simp: held_def erase_all_active_pointing_buttons_def pbm_reset_def)

lemma pbm_inv_Nil: "pbm_inv []"
  by (simp add: pbm_inv_def)

interpretation pbm: refined_machine pbm_step "[]" pbm_inv "\<lambda>_. True" held held_step
  by unfold_locales (simp_all add: pbm_inv_Nil pbm_inv_step held_pbm_step)

lemma foldl_button_count:
  "pbm_inv bs \<Longrightarrow>
     foldl (\<lambda>n b. if apb_usage_pair b = u then n + button_count b else n) k bs =
       k + int (length (filter (\<lambda>b. apb_usage_pair b = u) bs))"
  by (induction bs arbitrary: k) (auto simp: pbm_inv_def button_count_def)

lemma button_pressed_held: "pbm_inv bs \<Longrightarrow> button_is_pressed bs u \<longleftrightarrow> (\<exists>d. (u, d) \<in> held bs)"
  by (auto simp: button_is_pressed_def foldl_button_count held_def filter_empty_conv image_iff)

text \<open>The loop over the buttons reports exactly the pressed buttons from 1 to 32, in order.\<close>

lemma report_buttons_from_eq:
  "1 \<le> u \<Longrightarrow> u + int n \<le> 33 \<Longrightarrow>
     report_buttons_from n ins bs u r =
       fold ins (filter (\<lambda>v. button_is_pressed bs (mk_pair page_button v)) [u..u + int n - 1]) r"
proof (induction n arbitrary: u r)
  case (Suc n)
  have "[u..u + int (Suc n) - 1] = u # [u + 1..u + 1 + int n - 1]"
    by (subst upto.simps) (simp add: algebra_simps)
  then show ?case using Suc by simp
qed simp

lemma report_buttons_stop: "u > 32 \<Longrightarrow> report_buttons_from n ins bs u r = r"
  by (cases n) auto

lemma report_buttons_last:
  "1 \<le> u \<Longrightarrow> u + int n = 33 \<Longrightarrow> report_buttons_from (Suc n) ins bs u r = report_buttons_from n ins bs u r"
proof (induction n arbitrary: u r)
  case (Suc n)
  have "report_buttons_from (Suc n) ins bs (u + 1) r' = report_buttons_from n ins bs (u + 1) r'" for r'
    using Suc.prems by (intro Suc.IH) auto
  then show ?case
    by (subst (1 2) report_buttons_from.simps) (simp del: report_buttons_from.simps)
qed (simp)

lemma make_hid_report_buttons_eq:
  "make_hid_report_buttons none ins bs =
     fold ins (filter (\<lambda>v. button_is_pressed bs (mk_pair page_button v)) [1..32]) none"
proof -
  have n: "(33 :: nat) = Suc 32" by simp
  have "report_buttons_from 33 ins bs 1 none = report_buttons_from 32 ins bs 1 none"
    unfolding n by (rule report_buttons_last) simp_all
  then show ?thesis by (simp add: make_hid_report_buttons_def report_buttons_from_eq)
qed

end
