(* ===== verification/EventQueue.thy ===== *)
theory EventQueue
  imports Environment ScopedModifierFlags PointingButtonManager
begin

text \<open>
  \<open>krbn::event_queue::queue\<close>: the vector of entries between two manipulation stages, together with
  the modifier flags, pointing buttons and environment its entries update as they are appended, and
  \<open>sort_events\<close>, which moves modifiers in front of the keys of the same report.
\<close>

record event_queue =
  q_events :: "entry list"
  q_modifier_flag_manager :: modifier_flag_manager
  q_pointing_button_manager :: pointing_button_manager
  q_environment :: environment
  q_time_stamp_delay :: time_duration

definition mk_queue :: "environment \<Rightarrow> event_queue" where
  "mk_queue env = \<lparr>q_events = [], q_modifier_flag_manager = [], q_pointing_button_manager = [],
     q_environment = env, q_time_stamp_delay = 0\<rparr>"

subsection \<open>Appending an entry\<close>

definition update_modifier_flags ::
    "device_id \<Rightarrow> event \<Rightarrow> event_type \<Rightarrow> validity \<Rightarrow> modifier_flag_manager \<Rightarrow> modifier_flag_manager" where
  "update_modifier_flags d e t v mfm =
     (case get_if_mse e of
        Some m \<Rightarrow>
          (let mfm1 = (case make_modifier_flag m of
                 Some f \<Rightarrow> push_back_active_modifier_flag
                            (mk_amf (if t = Key_down then Increase else Decrease) f d) mfm
               | None \<Rightarrow> mfm)
           in if t = Key_down \<and> v = Valid \<and> \<not> mse_modifier_flag m
              then erase_all_sticky_modifier_flags mfm1 else mfm1)
      | None \<Rightarrow>
          if ev_type e = Tag_sticky_modifier then
            (if t = Key_down \<or> t = Single then
               (case get_sticky_modifier e of
                  Some (f, st) \<Rightarrow>
                    push_back_active_modifier_flag
                      (mk_amf (if st = Sticky_toggle
                               then (if sticky_size mfm f > 0 then Decrease_sticky else Increase_sticky)
                               else if st \<noteq> Sticky_on then Decrease_sticky else Increase_sticky) f d) mfm
                | None \<Rightarrow> mfm)
             else mfm)
          else if ev_type e = Tag_caps_lock_state_changed then
            (case get_integer_value e of
               Some n \<Rightarrow> push_back_active_modifier_flag
                           (mk_amf (if n \<noteq> 0 then Increase_led_lock else Decrease_led_lock) Flag_caps_lock d) mfm
             | None \<Rightarrow> mfm)
          else mfm)"

definition update_pointing_buttons ::
    "device_id \<Rightarrow> event \<Rightarrow> event_type \<Rightarrow> pointing_button_manager \<Rightarrow> pointing_button_manager" where
  "update_pointing_buttons d e t pbm =
     (case get_if_mse e of
        Some m \<Rightarrow>
          if mse_pointing_button m
          then push_back_active_pointing_button
                 (mk_apb (if t = Key_down then Button_increase else Button_decrease) (get_usage_pair m) d) pbm
          else pbm
      | None \<Rightarrow> pbm)"

definition assign_expression :: "runtime \<Rightarrow> string \<Rightarrow> string \<Rightarrow> environment \<Rightarrow> environment" where
  "assign_expression rt n x env =
     (let env1 = set_variable_system_now_milliseconds (rt_now_milliseconds rt) env
      in env_set_variable n
           (Var_int (value_int64 (rt_evaluate rt x (apply_to_expression_variable env1 (rt_symbol_table rt x))))) env1)"

definition assign_variable ::
    "runtime \<Rightarrow> string \<Rightarrow> variable_value option \<Rightarrow> string option \<Rightarrow> environment \<Rightarrow> environment" where
  "assign_variable rt n v x env =
     (let env1 = (case v of Some v \<Rightarrow> env_set_variable n v env | None \<Rightarrow> env)
      in case x of Some x \<Rightarrow> assign_expression rt n x env1 | None \<Rightarrow> env1)"

definition apply_set_variable :: "runtime \<Rightarrow> set_variable \<Rightarrow> event_type \<Rightarrow> environment \<Rightarrow> environment" where
  "apply_set_variable rt sv t env =
     (case t of
        Key_down \<Rightarrow>
          (case sv_name sv of
             Some n \<Rightarrow>
               (case sv_type sv of
                  Set_type_set \<Rightarrow> assign_variable rt n (sv_value sv) (sv_expression sv) env
                | Set_type_unset \<Rightarrow> env_unset_variable n env)
           | None \<Rightarrow> env)
      | Key_up \<Rightarrow>
          (case sv_name sv of
             Some n \<Rightarrow>
               (case sv_type sv of
                  Set_type_set \<Rightarrow> assign_variable rt n (sv_key_up_value sv) (sv_key_up_expression sv) env
                | Set_type_unset \<Rightarrow> env)
           | None \<Rightarrow> env)
      | Single \<Rightarrow> env)"

definition update_environment ::
    "runtime \<Rightarrow> device_id \<Rightarrow> event \<Rightarrow> event_type \<Rightarrow> environment \<Rightarrow> environment" where
  "update_environment rt d e t env0 =
     (let env1 = (if ev_type e = Tag_device_grabbed
                  then (case get_if_device_properties e of
                          Some p \<Rightarrow> insert_device_properties d p env0 | None \<Rightarrow> env0)
                  else env0);
          env2 = (if ev_type e = Tag_device_ungrabbed then erase_device_properties d env1 else env1);
          env3 = (case get_frontmost_application e of
                    Some a \<Rightarrow> set_frontmost_application a env2 | None \<Rightarrow> env2);
          env4 = (case get_input_source_properties e of
                    Some p \<Rightarrow> set_input_source_properties p env3 | None \<Rightarrow> env3);
          env5 = (case get_set_variable e of Some sv \<Rightarrow> apply_set_variable rt sv t env4 | None \<Rightarrow> env4);
          env6 = (case get_if_system_preferences e of
                    Some p \<Rightarrow>
                      env_set_variable ''system.use_fkeys_as_standard_function_keys''
                        (Var_bool (sp_use_fkeys_as_standard_function_keys p))
                        (env_set_variable ''system.scroll_direction_is_natural''
                          (Var_bool (sp_scroll_direction_is_natural p)) env5)
                  | None \<Rightarrow> env5)
      in case get_if_virtual_hid_devices_state e of
           Some s \<Rightarrow> set_virtual_hid_devices_state s env6 | None \<Rightarrow> env6)"

definition delayed :: "event_time_stamp \<Rightarrow> time_duration \<Rightarrow> event_time_stamp" where
  "delayed ts d = ts\<lparr>ts_time_stamp := ts_time_stamp ts + d\<rparr>"

definition push_back_entry :: "runtime \<Rightarrow> entry \<Rightarrow> event_queue \<Rightarrow> event_queue" where
  "push_back_entry rt en q =
     (let d = en_device_id en; e = en_event en; t = en_event_type en
      in q\<lparr>q_events := q_events q @
             [en\<lparr>en_event_time_stamp := delayed (en_event_time_stamp en) (q_time_stamp_delay q)\<rparr>],
           q_modifier_flag_manager := update_modifier_flags d e t (en_validity en) (q_modifier_flag_manager q),
           q_pointing_button_manager := update_pointing_buttons d e t (q_pointing_button_manager q),
           q_environment := update_environment rt d e t (q_environment q)\<rparr>)"

definition emplace_back_entry ::
    "runtime \<Rightarrow> device_id \<Rightarrow> event_time_stamp \<Rightarrow> event \<Rightarrow> event_type \<Rightarrow> int option \<Rightarrow> event \<Rightarrow> entry_state \<Rightarrow>
     bool \<Rightarrow> validity \<Rightarrow> event_queue \<Rightarrow> event_queue" where
  "emplace_back_entry rt d ts e t i oe st lz v q = push_back_entry rt (mk_entry d ts e t i oe st lz v) q"

subsection \<open>The other operations\<close>

definition clear_events :: "event_queue \<Rightarrow> event_queue" where
  "clear_events q = q\<lparr>q_events := [], q_time_stamp_delay := 0\<rparr>"

text \<open>Erasing the front entry of an empty queue is undefined behaviour; the callers check.\<close>

definition erase_front_event :: "event_queue \<Rightarrow> event_queue" where
  "erase_front_event q =
     (let es = tl (q_events q)
      in q\<lparr>q_events := es, q_time_stamp_delay := (if es = [] then 0 else q_time_stamp_delay q)\<rparr>)"

definition increase_time_stamp_delay :: "time_duration \<Rightarrow> event_queue \<Rightarrow> event_queue" where
  "increase_time_stamp_delay d q = q\<lparr>q_time_stamp_delay := q_time_stamp_delay q + d\<rparr>"

definition q_erase_all_active_modifier_flags_except_lock_and_sticky :: "device_id \<Rightarrow> event_queue \<Rightarrow> event_queue" where
  "q_erase_all_active_modifier_flags_except_lock_and_sticky d q =
     q\<lparr>q_modifier_flag_manager :=
         erase_all_active_modifier_flags_except_lock_and_sticky d (q_modifier_flag_manager q)\<rparr>"

definition q_erase_all_active_modifier_flags :: "device_id \<Rightarrow> event_queue \<Rightarrow> event_queue" where
  "q_erase_all_active_modifier_flags d q =
     q\<lparr>q_modifier_flag_manager := erase_all_active_modifier_flags d (q_modifier_flag_manager q)\<rparr>"

definition q_erase_all_active_pointing_buttons_except_lock :: "device_id \<Rightarrow> event_queue \<Rightarrow> event_queue" where
  "q_erase_all_active_pointing_buttons_except_lock d q =
     q\<lparr>q_pointing_button_manager :=
         erase_all_active_pointing_buttons_except_lock d (q_pointing_button_manager q)\<rparr>"

definition q_erase_all_active_pointing_buttons :: "device_id \<Rightarrow> event_queue \<Rightarrow> event_queue" where
  "q_erase_all_active_pointing_buttons d q =
     q\<lparr>q_pointing_button_manager := erase_all_active_pointing_buttons d (q_pointing_button_manager q)\<rparr>"

subsection \<open>Sorting\<close>

definition needs_swap :: "entry \<Rightarrow> entry \<Rightarrow> bool" where
  "needs_swap v1 v2 =
     (if en_time v1 = en_time v2 then
        (case (get_if_mse (en_event v1), get_if_mse (en_event v2)) of
           (Some e1, Some e2) \<Rightarrow>
             (let m1 = make_modifier_flag e1; m2 = make_modifier_flag e2 in
              if m1 = None \<and> m2 \<noteq> None then (if en_event_type v2 = Key_up then False else True)
              else if m1 \<noteq> None \<and> m2 = None then (if en_event_type v1 = Key_up then True else False)
              else False)
         | _ \<Rightarrow> False)
      else False)"

definition swap_at :: "nat \<Rightarrow> entry list \<Rightarrow> entry list" where
  "swap_at i es = es[i := es ! Suc i, Suc i := es ! i]"

text \<open>The number of pairs out of order, the measure of the loop.\<close>

fun inversions :: "entry list \<Rightarrow> nat" where
  "inversions [] = 0"
| "inversions (x # xs) = length (filter (needs_swap x) xs) + inversions xs"

lemma needs_swap_asym: "needs_swap a b \<Longrightarrow> \<not> needs_swap b a"
  by (auto simp: needs_swap_def Let_def split: option.splits if_splits)

lemma needs_swap_time: "needs_swap a b \<Longrightarrow> en_time a = en_time b"
  by (auto simp: needs_swap_def split: if_splits)

lemma swap_at_split:
  "length xs = i \<Longrightarrow> swap_at i (xs @ a # b # ys) = xs @ b # a # ys"
  by (simp add: swap_at_def nth_append list_update_append)

lemma split_at:
  assumes "Suc i < length es"
  obtains xs a b ys where "es = xs @ a # b # ys" "length xs = i"
proof -
  have "es = take i es @ es ! i # es ! Suc i # drop (Suc (Suc i)) es"
    using assms by (simp add: Cons_nth_drop_Suc id_take_nth_drop [symmetric])
  with that [of "take i es"] assms show thesis by simp
qed

lemma inversions_swap: "needs_swap a b \<Longrightarrow> inversions (xs @ a # b # ys) = Suc (inversions (xs @ b # a # ys))"
  by (induction xs) (auto dest: needs_swap_asym)

lemma inversions_swap_at:
  assumes "Suc i < length es" "needs_swap (es ! i) (es ! Suc i)"
  shows "inversions (swap_at i es) < inversions es"
proof -
  obtain xs a b ys where es: "es = xs @ a # b # ys" "length xs = i" by (rule split_at [OF assms(1)])
  with assms(2) have "needs_swap a b" by (auto simp: nth_append)
  then show ?thesis using inversions_swap [of a b xs ys] es by (simp add: swap_at_split)
qed

lemma length_swap_at [simp]: "length (swap_at i es) = length es"
  by (simp add: swap_at_def)

function sort_loop :: "entry list \<Rightarrow> nat \<Rightarrow> entry list" where
  "sort_loop es i =
     (if i < length es - 1 then
        (if needs_swap (es ! i) (es ! Suc i)
         then sort_loop (swap_at i es) (if i > 0 then i - 1 else i)
         else sort_loop es (Suc i))
      else es)"
  by pat_completeness auto
termination
  by (relation "measures [\<lambda>(es, i). inversions es, \<lambda>(es, i). length es - i]")
     (auto intro!: inversions_swap_at)

declare sort_loop.simps [simp del]

definition sort_list :: "entry list \<Rightarrow> entry list" where
  "sort_list es = (if es = [] then es else sort_loop es 0)"

definition sort_events :: "event_queue \<Rightarrow> event_queue" where
  "sort_events q = q\<lparr>q_events := sort_list (q_events q)\<rparr>"

subsection \<open>What sorting does\<close>

lemma sort_loop_keeps:
  assumes "\<And>xs a b ys. needs_swap a b \<Longrightarrow> f (xs @ b # a # ys) = f (xs @ a # b # ys)"
  shows "f (sort_loop es i) = f es"
proof (induction es i rule: sort_loop.induct)
  case (1 es i)
  show ?case
  proof (cases "i < length es - 1")
    case True
    then have len: "Suc i < length es" by simp
    show ?thesis
    proof (cases "needs_swap (es ! i) (es ! Suc i)")
      case swap: True
      obtain xs a b ys where es: "es = xs @ a # b # ys" "length xs = i" by (rule split_at [OF len])
      with swap have "needs_swap a b" by (auto simp: nth_append)
      then have "f (swap_at i es) = f es" using es assms by (simp add: swap_at_split)
      then show ?thesis using 1(1) True swap by (simp add: sort_loop.simps [of es i])
    qed (use 1(2) True in \<open>simp add: sort_loop.simps [of es i]\<close>)
  qed (simp add: sort_loop.simps [of es i])
qed

lemma sort_list_keeps:
  assumes "\<And>xs a b ys. needs_swap a b \<Longrightarrow> f (xs @ b # a # ys) = f (xs @ a # b # ys)"
  shows "f (sort_list es) = f es"
  by (simp add: sort_list_def sort_loop_keeps [of f, OF assms])

lemma mset_sort_list: "mset (sort_list es) = mset es"
  by (rule sort_list_keeps) simp

lemma times_sort_list: "map en_time (sort_list es) = map en_time es"
  by (rule sort_list_keeps) (auto dest: needs_swap_time)

lemma order_sort_list:
  "(\<And>a b. P a \<Longrightarrow> P b \<Longrightarrow> \<not> needs_swap a b) \<Longrightarrow> filter P (sort_list es) = filter P es"
  by (rule sort_list_keeps) auto

definition locally_sorted :: "entry list \<Rightarrow> nat \<Rightarrow> bool" where
  "locally_sorted es n \<longleftrightarrow> (\<forall>i. i < n \<and> Suc i < length es \<longrightarrow> \<not> needs_swap (es ! i) (es ! Suc i))"

lemma sort_loop_sorted: "locally_sorted es i \<Longrightarrow> locally_sorted (sort_loop es i) (length es)"
proof (induction es i rule: sort_loop.induct)
  case (1 es i)
  show ?case
  proof (cases "i < length es - 1")
    case True
    then have len: "Suc i < length es" by simp
    show ?thesis
    proof (cases "needs_swap (es ! i) (es ! Suc i)")
      case swap: True
      have "locally_sorted (swap_at i es) (if i > 0 then i - 1 else i)"
        using "1.prems" len by (cases i) (auto simp: locally_sorted_def swap_at_def)
      then show ?thesis using "1.IH"(1) True swap by (simp add: sort_loop.simps [of es i])
    next
      case False
      then have "locally_sorted es (Suc i)"
        using "1.prems" by (auto simp: locally_sorted_def less_Suc_eq)
      then show ?thesis using "1.IH"(2) True False by (simp add: sort_loop.simps [of es i])
    qed
  next
    case False
    then show ?thesis using "1.prems" by (auto simp: sort_loop.simps [of es i] locally_sorted_def)
  qed
qed

lemma sort_list_sorted: "Suc i < length es \<Longrightarrow> \<not> needs_swap (sort_list es ! i) (sort_list es ! Suc i)"
proof -
  assume i: "Suc i < length es"
  have "locally_sorted (sort_loop es 0) (length es)"
    by (rule sort_loop_sorted) (simp add: locally_sorted_def)
  moreover have "length (sort_loop es 0) = length es" by (rule sort_loop_keeps) simp
  ultimately show ?thesis using i by (auto simp: locally_sorted_def sort_list_def)
qed

lemma sort_loop_id: "locally_sorted es (length es) \<Longrightarrow> sort_loop es i = es"
proof (induction es i rule: sort_loop.induct)
  case (1 es i)
  show ?case
  proof (cases "i < length es - 1")
    case True
    then have "Suc i < length es" by simp
    then have "\<not> needs_swap (es ! i) (es ! Suc i)" using "1.prems" by (auto simp: locally_sorted_def)
    then show ?thesis using "1.IH"(2) "1.prems" True by (simp add: sort_loop.simps [of es i])
  qed (simp add: sort_loop.simps [of es i])
qed

lemma sort_list_idem: "sort_list (sort_list es) = sort_list es"
proof (cases "es = []")
  case False
  have len: "length (sort_list es) = length es" using mset_sort_list mset_eq_length by blast
  then have "locally_sorted (sort_list es) (length (sort_list es))"
    using sort_list_sorted [of _ es] by (simp add: locally_sorted_def)
  then show ?thesis using sort_loop_id by (simp add: sort_list_def [of "sort_list es"])
qed (simp add: sort_list_def)

text \<open>
  Ranks: a pressed modifier comes before a key, a key before a released modifier. In a report
  without modifier releases, the pressed modifiers end up before all keys.
\<close>

definition modifier_entry :: "entry \<Rightarrow> bool" where
  "modifier_entry e \<longleftrightarrow> (case get_if_mse (en_event e) of Some m \<Rightarrow> make_modifier_flag m \<noteq> None | None \<Rightarrow> False)"

definition key_entry :: "entry \<Rightarrow> bool" where
  "key_entry e \<longleftrightarrow> (case get_if_mse (en_event e) of Some m \<Rightarrow> make_modifier_flag m = None | None \<Rightarrow> False)"

lemma needs_swap_iff:
  "needs_swap a b \<longleftrightarrow> en_time a = en_time b \<and>
     (key_entry a \<and> modifier_entry b \<and> en_event_type b \<noteq> Key_up \<or>
      modifier_entry a \<and> en_event_type a = Key_up \<and> key_entry b)"
  by (auto simp: needs_swap_def key_entry_def modifier_entry_def Let_def split: option.splits)

lemma no_key_before_pressed_modifier:
  assumes sorted: "\<And>i. Suc i < length es \<Longrightarrow> \<not> needs_swap (es ! i) (es ! Suc i)"
    and group: "\<And>k. i \<le> k \<Longrightarrow> k \<le> j \<Longrightarrow> en_time (es ! k) = t \<and>
      (key_entry (es ! k) \<or> modifier_entry (es ! k) \<and> en_event_type (es ! k) \<noteq> Key_up)"
    and "i < j" "j < length es" "key_entry (es ! i)"
  shows "key_entry (es ! j)"
proof -
  have "i + n \<le> j \<Longrightarrow> key_entry (es ! (i + n))" for n
  proof (induction n)
    case (Suc n)
    then have "key_entry (es ! (i + n))" by simp
    moreover have "\<not> needs_swap (es ! (i + n)) (es ! Suc (i + n))" using Suc.prems assms(4) by (intro sorted) simp
    ultimately show ?case using group [of "i + n"] group [of "Suc (i + n)"] Suc.prems by (auto simp: needs_swap_iff)
  qed (use assms in simp)
  from this [of "j - i"] assms(3) show ?thesis by simp
qed

subsection \<open>The queue as a machine\<close>

lemma no_lock_remove_if [intro]: "no_lock xs \<Longrightarrow> no_lock (remove_if p xs)"
  by (simp add: no_lock_def)

lemma no_lock_push:
  assumes "mfm_inv xs" "no_lock xs" "unlocked f"
  shows "no_lock (push_back_active_modifier_flag f xs)"
proof -
  have pf: "pair_free xs" using assms(1) by (simp add: mfm_inv_def)
  have "no_lock (cancel_or_append f ys)" if "no_lock ys" for ys
    using that assms(3) set_remove_first_subset [of "\<lambda>g. is_paired g f" ys]
    by (auto simp: no_lock_def cancel_or_append_def)
  then show ?thesis using assms(2) by (auto simp: push_back_eq [OF pf])
qed

definition mfm_good :: "modifier_flag_manager \<Rightarrow> bool" where
  "mfm_good xs \<longleftrightarrow> mfm_inv xs \<and> no_lock xs"

lemma mfm_good_remove_if [intro]: "mfm_good xs \<Longrightarrow> mfm_good (remove_if p xs)"
  by (auto simp: mfm_good_def)

lemma mfm_good_push [intro]:
  "mfm_good xs \<Longrightarrow> t \<noteq> Increase_lock \<Longrightarrow> t \<noteq> Decrease_lock \<Longrightarrow>
     mfm_good (push_back_active_modifier_flag (mk_amf t m d) xs)"
  by (cases t) (auto simp: mfm_good_def unlocked_def mk_amf_def wf_amf_def led_lock_def
      intro!: mfm_inv_push no_lock_push)

lemma mfm_good_update: "mfm_good xs \<Longrightarrow> mfm_good (update_modifier_flags d e t v xs)"
  unfolding update_modifier_flags_def Let_def erase_all_sticky_modifier_flags_def
  by (auto split: option.splits if_splits)

lemma pbm_inv_update: "pbm_inv bs \<Longrightarrow> pbm_inv (update_pointing_buttons d e t bs)"
  using pbm_inv_step [of bs "Push_button _"]
  by (auto simp: update_pointing_buttons_def split: option.splits)

datatype queue_op =
    Push_entry runtime entry
  | Clear_events
  | Erase_front
  | Increase_delay time_duration
  | Sort_events
  | Erase_flags_except_lock_and_sticky device_id
  | Erase_flags device_id
  | Erase_pointing_buttons_except_lock device_id
  | Erase_pointing_buttons device_id

fun queue_step :: "queue_op \<Rightarrow> event_queue \<Rightarrow> event_queue" where
  "queue_step (Push_entry rt e) = push_back_entry rt e"
| "queue_step Clear_events = clear_events"
| "queue_step Erase_front = erase_front_event"
| "queue_step (Increase_delay d) = increase_time_stamp_delay d"
| "queue_step Sort_events = sort_events"
| "queue_step (Erase_flags_except_lock_and_sticky d) = q_erase_all_active_modifier_flags_except_lock_and_sticky d"
| "queue_step (Erase_flags d) = q_erase_all_active_modifier_flags d"
| "queue_step (Erase_pointing_buttons_except_lock d) = q_erase_all_active_pointing_buttons_except_lock d"
| "queue_step (Erase_pointing_buttons d) = q_erase_all_active_pointing_buttons d"

definition queue_inv :: "event_queue \<Rightarrow> bool" where
  "queue_inv q \<longleftrightarrow> mfm_good (q_modifier_flag_manager q) \<and> pbm_inv (q_pointing_button_manager q)"

lemmas queue_op_defs = push_back_entry_def clear_events_def erase_front_event_def
  increase_time_stamp_delay_def sort_events_def q_erase_all_active_modifier_flags_except_lock_and_sticky_def
  q_erase_all_active_modifier_flags_def q_erase_all_active_pointing_buttons_except_lock_def
  q_erase_all_active_pointing_buttons_def

lemma queue_inv_step: "queue_inv q \<Longrightarrow> queue_inv (queue_step op q)"
  using pbm_inv_step [of "q_pointing_button_manager q" "Erase_buttons _"]
  by (cases op)
     (auto simp: queue_inv_def queue_op_defs Let_def mfm_good_update pbm_inv_update
        erase_all_active_modifier_flags_except_lock_and_sticky_def erase_all_active_modifier_flags_def
        erase_all_active_pointing_buttons_except_lock_def)

interpretation eq: machine queue_step "mk_queue env" queue_inv "\<lambda>_. True"
  by unfold_locales
     (simp_all add: queue_inv_step, simp add: queue_inv_def mk_queue_def mfm_good_def mfm_inv_Nil no_lock_def
        pbm_inv_Nil)

subsection \<open>Properties\<close>

text \<open>
  C31. \<open>sort_events\<close> returns (its loop has a decreasing measure) and only reorders entries: the result
  is a permutation with the same sequence of time stamps, no two neighbours are out of order, the
  entries that are no modifiers keep their order, so do the modifiers, and sorting again changes
  nothing.
\<close>

theorem sort_events_correct:
  "mset (q_events (sort_events q)) = mset (q_events q) \<and>
   map en_time (q_events (sort_events q)) = map en_time (q_events q) \<and>
   (\<forall>i. \<not> (Suc i < length (q_events q) \<and>
      needs_swap (q_events (sort_events q) ! i) (q_events (sort_events q) ! Suc i))) \<and>
   filter modifier_entry (q_events (sort_events q)) = filter modifier_entry (q_events q) \<and>
   filter (\<lambda>e. \<not> modifier_entry e) (q_events (sort_events q)) = filter (\<lambda>e. \<not> modifier_entry e) (q_events q) \<and>
   sort_events (sort_events q) = sort_events q"
proof -
  have "filter modifier_entry (sort_list es) = filter modifier_entry es" for es
    by (rule order_sort_list) (auto simp: needs_swap_iff key_entry_def modifier_entry_def split: option.splits)
  moreover have "filter (\<lambda>e. \<not> modifier_entry e) (sort_list es) = filter (\<lambda>e. \<not> modifier_entry e) es" for es
    by (rule order_sort_list) (auto simp: needs_swap_iff)
  ultimately show ?thesis
    using sort_list_sorted by (simp add: sort_events_def mset_sort_list times_sort_list sort_list_idem)
qed

text \<open>
  After sorting, no key of a report precedes a pressed modifier of the same report: in a run of
  keys and pressed modifiers with one time stamp, a key is followed by keys only.
\<close>

theorem pressed_modifiers_first:
  assumes "\<forall>k\<in>{i..j}. en_time (q_events (sort_events q) ! k) = t \<and>
      (key_entry (q_events (sort_events q) ! k) \<or>
       modifier_entry (q_events (sort_events q) ! k) \<and> en_event_type (q_events (sort_events q) ! k) \<noteq> Key_up)"
    and "i < j" "j < length (q_events q)" "key_entry (q_events (sort_events q) ! i)"
  shows "key_entry (q_events (sort_events q) ! j)"
proof -
  have "length (sort_list (q_events q)) = length (q_events q)"
    using mset_sort_list mset_eq_length by blast
  then show ?thesis
    using assms sort_list_sorted
    by (intro no_key_before_pressed_modifier [of "q_events (sort_events q)" i j t])
      (auto simp: sort_events_def)
qed

definition report_entry :: "int \<Rightarrow> event_type \<Rightarrow> entry" where
  "report_entry u t = (let e = mse_event (Mse (mk_pair page_keyboard_or_keypad u))
     in mk_entry 1 (mk_ts 100) e t None e Original False Valid)"

theorem pressed_modifiers_first_witness:
  "let q = (mk_queue (mk_environment [] plain_configuration))\<lparr>q_events :=
         [report_entry 82 Key_down, report_entry keyboard_left_control Key_down, report_entry 83 Key_down]\<rparr>
   in map (\<lambda>e. usage (get_usage_pair (the (get_if_mse (en_event e))))) (q_events (sort_events q))
        = [keyboard_left_control, 82, 83] \<and>
      key_entry (q_events (sort_events q) ! 2)"
proof -
  let ?q = "(mk_queue (mk_environment [] plain_configuration))\<lparr>q_events :=
         [report_entry 82 Key_down, report_entry keyboard_left_control Key_down, report_entry 83 Key_down]\<rparr>"
  have s: "q_events (sort_events ?q) =
      [report_entry keyboard_left_control Key_down, report_entry 82 Key_down, report_entry 83 Key_down]"
    by (simp add: sort_events_def sort_list_def sort_loop.simps needs_swap_def report_entry_def Let_def
        swap_at_def mse_event_def get_if_mse_def make_modifier_flag_def page_defs usage_defs mk_ts_def)
  have "key_entry (q_events (sort_events ?q) ! 2)"
  proof (rule pressed_modifiers_first [of 1 2 ?q 100])
    show "\<forall>k\<in>{1..2}. en_time (q_events (sort_events ?q) ! k) = 100 \<and>
      (key_entry (q_events (sort_events ?q) ! k) \<or>
       modifier_entry (q_events (sort_events ?q) ! k) \<and> en_event_type (q_events (sort_events ?q) ! k) \<noteq> Key_up)"
      unfolding s by (auto simp: nth_Cons' report_entry_def Let_def key_entry_def mk_ts_def
          make_modifier_flag_def page_defs usage_defs)
    show "key_entry (q_events (sort_events ?q) ! 1)"
      unfolding s by (simp add: report_entry_def Let_def key_entry_def make_modifier_flag_def page_defs usage_defs)
  qed (simp_all)
  then show ?thesis unfolding Let_def s by (simp add: report_entry_def Let_def)
qed

lemma filter_sticky_cancel:
  "\<not> sticky g \<Longrightarrow> filter sticky (cancel_or_append g xs) = filter sticky xs"
proof -
  assume g: "\<not> sticky g"
  then have p: "\<And>f. is_paired f g \<Longrightarrow> \<not> sticky f" by (simp add: is_paired_key sticky_key)
  have "filter sticky (remove_first (\<lambda>f. is_paired f g) ys) = filter sticky ys" for ys
    using p by (induction ys) auto
  with g show ?thesis by (simp add: cancel_or_append_def)
qed

lemma is_sticky_active_filter: "is_sticky_active xs f = is_sticky_active (filter sticky xs) f"
proof -
  have "foldl (\<lambda>n x. if amf_modifier_flag x = f \<and> sticky x then n + get_count x else n) k xs =
        foldl (\<lambda>n x. if amf_modifier_flag x = f \<and> sticky x then n + get_count x else n) k (filter sticky xs)"
    for k :: int
    by (induction xs arbitrary: k) auto
  then show ?thesis by (simp add: is_sticky_active_def)
qed

lemma filter_sticky_erase [simp]: "filter sticky (erase_all_sticky_modifier_flags xs) = []"
  by (simp add: erase_all_sticky_modifier_flags_def remove_if_def filter_empty_conv)

lemma filter_sticky_key:
  assumes "mfm_inv xs" "t = Increase \<or> t = Decrease"
  shows "filter sticky (push_back_active_modifier_flag (mk_amf t f d) xs) = filter sticky xs"
proof -
  have pf: "pair_free xs" using assms(1) by (simp add: mfm_inv_def)
  have "\<not> sticky (mk_amf t f d)" using assms(2) by (auto simp: sticky_def mk_amf_def)
  then show ?thesis
    using assms(2) by (auto simp: push_back_eq [OF pf] filter_sticky_cancel any_lock_def mk_amf_def)
qed

text \<open>
  Sticky modifiers last until the next key: a valid press of a key that is no modifier switches
  all of them off, any other momentary switch event leaves every one as it is.
\<close>

theorem sticky_consumed_by_key_press:
  assumes "queue_inv q" "get_if_mse (en_event en) = Some m"
  shows "is_sticky_active (q_modifier_flag_manager (push_back_entry rt en q)) f \<longleftrightarrow>
     is_sticky_active (q_modifier_flag_manager q) f \<and>
     \<not> (en_event_type en = Key_down \<and> en_validity en = Valid \<and> make_modifier_flag m = None)"
proof -
  have inv: "mfm_inv (q_modifier_flag_manager q)" using assms(1) by (simp add: queue_inv_def mfm_good_def)
  have off: "\<not> is_sticky_active [] f" by (simp add: is_sticky_active_def)
  show ?thesis
    using assms(2) off filter_sticky_key [OF inv]
    unfolding push_back_entry_def Let_def update_modifier_flags_def mse_modifier_flag_def
    by (subst (1 2) is_sticky_active_filter) (auto split: option.splits)
qed

theorem sticky_consumed_by_key_press_witness:
  "let q = (mk_queue (mk_environment [] plain_configuration))\<lparr>q_modifier_flag_manager := [mk_amf Increase_sticky Flag_left_shift 1]\<rparr>
   in \<not> is_sticky_active (q_modifier_flag_manager (push_back_entry idle_runtime (report_entry 82 Key_down) q)) Flag_left_shift"
proof -
  let ?q = "(mk_queue (mk_environment [] plain_configuration))\<lparr>q_modifier_flag_manager := [mk_amf Increase_sticky Flag_left_shift 1]\<rparr>"
  have "queue_inv ?q"
    by (simp add: queue_inv_def mk_queue_def mfm_good_def mfm_inv_def no_lock_def unlocked_def mk_amf_def
        led_lock_def any_lock_def pbm_inv_Nil)
  from sticky_consumed_by_key_press [OF this, of "report_entry 82 Key_down"
      "Mse (mk_pair page_keyboard_or_keypad 82)" idle_runtime Flag_left_shift]
  show ?thesis by (simp add: report_entry_def Let_def make_modifier_flag_def page_defs usage_defs)
qed

text \<open>
  C22. A sticky toggle from a device switches the modifier on and, from the same device, off again.
\<close>

definition toggle :: "modifier_flag \<Rightarrow> device_id \<Rightarrow> modifier_flag_manager \<Rightarrow> modifier_flag_manager" where
  "toggle f d = update_modifier_flags d (make_sticky_modifier_event f Sticky_toggle) Key_down Valid"

lemma toggle_eq:
  "toggle f d xs = push_back_active_modifier_flag
     (mk_amf (if sticky_size xs f > 0 then Decrease_sticky else Increase_sticky) f d) xs"
  by (simp add: toggle_def update_modifier_flags_def make_sticky_modifier_event_def get_if_mse_def
      get_sticky_modifier_def)

lemma sticky_size_zero: "sticky_size xs f = 0 \<longleftrightarrow> (\<forall>g\<in>set xs. \<not> (amf_modifier_flag g = f \<and> sticky g))"
  by (simp add: sticky_size_def filter_empty_conv)

lemma sticky_inactive: "sticky_size xs f = 0 \<Longrightarrow> \<not> is_sticky_active xs f"
proof -
  assume "sticky_size xs f = 0"
  then have "\<forall>g\<in>set xs. \<not> (amf_modifier_flag g = f \<and> sticky g)" by (simp add: sticky_size_zero)
  then have "foldl (\<lambda>n x. if amf_modifier_flag x = f \<and> sticky x then n + get_count x else n) k xs = k"
    for k :: int by (induction xs arbitrary: k) auto
  then show ?thesis by (simp add: is_sticky_active_def)
qed

theorem sticky_toggle_twice:
  assumes "mfm_inv xs" "sticky_size xs f = 0"
  shows "is_sticky_active (toggle f d xs) f \<and> toggle f d (toggle f d xs) = xs"
proof -
  let ?on = "mk_amf Increase_sticky f d" and ?off = "mk_amf Decrease_sticky f d"
  have pf: "pair_free xs" using assms(1) by (simp add: mfm_inv_def)
  have none: "\<forall>g\<in>set xs. \<not> (amf_modifier_flag g = f \<and> sticky g)" using assms(2) by (simp add: sticky_size_zero)
  have on: "sticky ?on" "amf_modifier_flag ?on = f" "get_count ?on = 1" "sticky ?off" "amf_modifier_flag ?off = f"
      "is_paired ?on ?off" "\<not> any_lock ?on" "amf_type ?on \<noteq> Decrease_led_lock"
      "\<not> any_lock ?off" "amf_type ?off \<noteq> Decrease_led_lock"
    by (simp_all add: sticky_def mk_amf_def get_count_def is_paired_def get_inverse_type_def any_lock_def)
  have np: "\<forall>g\<in>set xs. \<not> is_paired g ?on" "\<forall>g\<in>set xs. \<not> is_paired g ?off"
    using none on by (auto simp: is_paired_key sticky_key key_def)
  have once: "toggle f d xs = xs @ [?on]"
    using assms(2) on np by (simp add: toggle_eq push_back_eq [OF pf] cancel_or_append_def)
  have pf1: "pair_free (xs @ [?on])" using pf np(1) by (simp add: pair_free_append)
  have "sticky_size (xs @ [?on]) f > 0" using on by (simp add: sticky_size_def)
  then have "toggle f d (xs @ [?on]) = remove_first (\<lambda>g. is_paired g ?off) (xs @ [?on])"
    using on by (simp add: toggle_eq push_back_eq [OF pf1] cancel_or_append_def)
  also have "\<dots> = xs" using remove_first_append_hit [of xs "\<lambda>g. is_paired g ?off" ?on "[]"] np on by simp
  finally have twice: "toggle f d (toggle f d xs) = xs" using once by simp
  have "foldl (\<lambda>n x. if amf_modifier_flag x = f \<and> sticky x then n + get_count x else n) k xs = k"
    for k :: int using none by (induction xs arbitrary: k) auto
  then have "is_sticky_active (xs @ [?on]) f" using on by (simp add: is_sticky_active_def)
  with once twice show ?thesis by simp
qed

theorem sticky_toggle_twice_witness:
  "is_sticky_active (toggle Flag_left_shift 3 [mk_amf Increase Flag_left_shift 1]) Flag_left_shift"
proof -
  have "mfm_inv [mk_amf Increase Flag_left_shift 1]" "sticky_size [mk_amf Increase Flag_left_shift 1] Flag_left_shift = 0"
    by (simp_all add: mfm_inv_def mk_amf_def led_lock_def any_lock_def sticky_size_def sticky_def)
  from sticky_toggle_twice [OF this, of 3] show ?thesis by simp
qed

text \<open>
  Toggles from two devices do not cancel: after on (device 1), off (device 2) and one more toggle
  of each, the modifier is off, every further toggle pushes another decrease, and a physical press of
  the modifier key no longer shows.
\<close>

theorem sticky_toggles_of_two_devices_get_stuck:
  "let xs = toggle Flag_left_shift 1 (toggle Flag_left_shift 1 (toggle Flag_left_shift 2 (toggle Flag_left_shift 1 [])))
   in \<not> is_sticky_active xs Flag_left_shift \<and> sticky_size xs Flag_left_shift = 2 \<and>
      \<not> is_pressed (push_back_active_modifier_flag (mk_amf Increase Flag_left_shift 1) xs) Flag_left_shift"
  unfolding toggle_eq by code_simp

text \<open>
  In a queue reached from a fresh one by any sequence of its operations, a scope of
  \<open>scoped_modifier_flags\<close> forces exactly the requested flags and gives every flag its state back:
  the queue never stores the lock entries that defeat a scope.
\<close>

theorem queue_scope_restores:
  fixes flags :: "modifier_flag set" and ops :: "queue_op list" and env :: environment
  defines "xs \<equiv> q_modifier_flag_manager (run_ops queue_step ops (mk_queue env))"
  defines "s \<equiv> scope_enter flags xs"
  shows "is_pressed (fst s) m = (if m \<in> set scoped_flags then m \<in> flags else is_pressed xs m) \<and>
         is_pressed (scope_leave (fst s) (snd s)) m = is_pressed xs m"
proof -
  have good: "mfm_good xs"
    using eq.reachable_inv [of ops env] by (simp add: xs_def queue_inv_def)
  then have log: "scope_log xs s" by (simp add: s_def mfm_good_def scope_log_enter)
  have inv: "mfm_inv xs" using good by (simp add: mfm_good_def)
  have "mfm_inv (scope_leave (fst s) (snd s))"
    unfolding scope_leave_eq
    using log by (intro mfm_inv_push_all scope_log_inv [OF inv]) (auto simp: scope_log_def inverse_flag_facts)
  then show ?thesis
    using net_scope_leave [OF inv log] scope_enter_pressed [of xs flags m] good
    by (simp add: s_def mfm_good_def is_pressed_counters)
qed

text \<open>
  Pointing buttons refine a set of held buttons per device: after any operations a button is
  reported pressed exactly if some device holds it, and the report lists the pressed ones of the
  buttons 1 to 32.
\<close>

theorem pointing_buttons_refine:
  "(button_is_pressed (run_ops pbm_step ops []) u \<longleftrightarrow> (\<exists>d. (u, d) \<in> run_ops held_step ops {})) \<and>
   make_hid_report_buttons [] (\<lambda>b r. r @ [b]) (run_ops pbm_step ops []) =
     filter (\<lambda>b. \<exists>d. (mk_pair page_button b, d) \<in> run_ops held_step ops {}) [1..32]"
proof
  have inv: "pbm_inv (run_ops pbm_step ops [])" using pbm.reachable_inv by simp
  have held: "held (run_ops pbm_step ops []) = run_ops held_step ops {}"
    using pbm.refine_reachable [of ops] by (simp add: held_def)
  show "button_is_pressed (run_ops pbm_step ops []) u \<longleftrightarrow> (\<exists>d. (u, d) \<in> run_ops held_step ops {})"
    by (simp add: button_pressed_held [OF inv] held)
  have "fold (\<lambda>b r. r @ [b]) bs r = r @ bs" for bs r :: "int list" by (induction bs arbitrary: r) auto
  then show "make_hid_report_buttons [] (\<lambda>b r. r @ [b]) (run_ops pbm_step ops []) =
     filter (\<lambda>b. \<exists>d. (mk_pair page_button b, d) \<in> run_ops held_step ops {}) [1..32]"
    by (simp add: make_hid_report_buttons_eq button_pressed_held [OF inv] held)
qed

end
