(* ===== verification/EventSender.thy ===== *)
theory EventSender
  imports FromEvents EventQueue
begin

text \<open>
  The posting helpers of \<open>manipulators/base.hpp\<close>, the record of a manipulated key press
  (\<open>manipulated_original_event/*.hpp\<close>) and \<open>event_sender.hpp\<close>: how a rule writes its output events,
  postpones releases until the input key is released, and lifts and restores the modifiers the rule
  requires.
\<close>

subsection \<open>A manipulated key press\<close>

record from_event =
  fe_device_id :: device_id
  fe_event :: event
  fe_original_event :: event

record event_at_key_up =
  ek_device_id :: device_id
  ek_event :: event
  ek_event_type :: event_type
  ek_original_event :: event
  ek_lazy :: bool

definition ek_make_entry :: "event_time_stamp \<Rightarrow> event_at_key_up \<Rightarrow> entry" where
  "ek_make_entry ts e =
     mk_entry (ek_device_id e) ts (ek_event e) (ek_event_type e) None (ek_original_event e) Manipulated (ek_lazy e) Valid"

record manipulated_original_event =
  moe_from_events :: "from_event list"
  moe_from_mandatory_modifiers :: "modifier_flag set"
  moe_key_up_posted_from_mandatory_modifiers :: "modifier_flag set"
  moe_key_down_time_stamp :: time_point
  moe_key_down_modifier_flags :: "modifier_flag set"
  moe_alone :: bool
  moe_halted :: bool
  moe_events_at_key_up :: "event_at_key_up list"
  moe_key_up_posted :: bool

definition mk_moe ::
    "from_event list \<Rightarrow> modifier_flag set \<Rightarrow> time_point \<Rightarrow> modifier_flag set \<Rightarrow> manipulated_original_event" where
  "mk_moe fs ms t down =
     \<lparr>moe_from_events = fs, moe_from_mandatory_modifiers = ms, moe_key_up_posted_from_mandatory_modifiers = {},
      moe_key_down_time_stamp = t, moe_key_down_modifier_flags = down, moe_alone = True, moe_halted = False,
      moe_events_at_key_up = [], moe_key_up_posted = False\<rparr>"

definition set_halted :: "manipulated_original_event \<Rightarrow> manipulated_original_event" where
  "set_halted m = m\<lparr>moe_halted := True\<rparr>"

text \<open>The argument of the setter is not used.\<close>

definition set_key_up_posted :: "bool \<Rightarrow> manipulated_original_event \<Rightarrow> manipulated_original_event" where
  "set_key_up_posted v m = m\<lparr>moe_key_up_posted := True\<rparr>"

definition unset_alone :: "manipulated_original_event \<Rightarrow> manipulated_original_event" where
  "unset_alone m = m\<lparr>moe_alone := False\<rparr>"

definition from_event_exists :: "from_event \<Rightarrow> manipulated_original_event \<Rightarrow> bool" where
  "from_event_exists f m \<longleftrightarrow> f \<in> set (moe_from_events m)"

definition erase_from_event :: "from_event \<Rightarrow> manipulated_original_event \<Rightarrow> manipulated_original_event" where
  "erase_from_event f m = m\<lparr>moe_from_events := remove_if (\<lambda>g. g = f) (moe_from_events m)\<rparr>"

definition erase_from_events_by_device_id :: "device_id \<Rightarrow> manipulated_original_event \<Rightarrow> manipulated_original_event" where
  "erase_from_events_by_device_id d m = m\<lparr>moe_from_events := remove_if (\<lambda>g. fe_device_id g = d) (moe_from_events m)\<rparr>"

definition erase_from_events_by_event :: "event \<Rightarrow> manipulated_original_event \<Rightarrow> manipulated_original_event" where
  "erase_from_events_by_event e m = m\<lparr>moe_from_events := remove_if (\<lambda>g. fe_event g = e) (moe_from_events m)\<rparr>"

definition emplace_event_at_key_up :: "event_at_key_up \<Rightarrow> manipulated_original_event \<Rightarrow> manipulated_original_event" where
  "emplace_event_at_key_up e m = m\<lparr>moe_events_at_key_up := moe_events_at_key_up m @ [e]\<rparr>"

definition clear_events_at_key_up :: "manipulated_original_event \<Rightarrow> manipulated_original_event" where
  "clear_events_at_key_up m = m\<lparr>moe_events_at_key_up := []\<rparr>"

subsection \<open>Posting\<close>

text \<open>
  A sender reads and writes the current manipulated event, the running time stamp delay, the output
  queue and the caches of the conditions. Where the entry comes from is a \<open>site\<close>: the device, the time
  stamp and the original event of the input entry.
\<close>

record posting =
  po_moe :: manipulated_original_event
  po_delay :: time_duration
  po_queue :: event_queue
  po_store :: condition_store

record site =
  si_device_id :: device_id
  si_time_stamp :: event_time_stamp
  si_original_event :: event

definition post_entry :: "runtime \<Rightarrow> site \<Rightarrow> event \<Rightarrow> event_type \<Rightarrow> bool \<Rightarrow> posting \<Rightarrow> posting" where
  "post_entry rt s e t lz p =
     p\<lparr>po_delay := po_delay p + 1,
       po_queue := emplace_back_entry rt (si_device_id s) (delayed (si_time_stamp s) (po_delay p)) e t None
                     (si_original_event s) Manipulated lz Valid (po_queue p)\<rparr>"

definition make_lazy_modifier_key_event :: "momentary_switch_event \<Rightarrow> event_type \<Rightarrow> event \<times> event_type" where
  "make_lazy_modifier_key_event m t =
     (if mse_caps_lock m
      then (make_sticky_modifier_event Flag_caps_lock (if t = Key_down then Sticky_on else Sticky_off), Single)
      else (mse_event m, t))"

definition post_lazy_modifier_key_event ::
    "runtime \<Rightarrow> site \<Rightarrow> bool \<Rightarrow> event_type \<Rightarrow> momentary_switch_event \<Rightarrow> posting \<Rightarrow> posting" where
  "post_lazy_modifier_key_event rt s lz t m p =
     (if mse_valid m then (let (e, t') = make_lazy_modifier_key_event m t in post_entry rt s e t' lz p) else p)"

definition post_lazy_modifier_key_events ::
    "runtime \<Rightarrow> site \<Rightarrow> event_type \<Rightarrow> modifier_flag set \<Rightarrow> posting \<Rightarrow> posting" where
  "post_lazy_modifier_key_events rt s t ms p =
     fold (\<lambda>f. post_lazy_modifier_key_event rt s True t (mse_of_modifier_flag f)) (rt_flag_order rt ms) p"

subsection \<open>Event sender\<close>

fun filter_and_replace_events ::
    "runtime \<Rightarrow> condition_context \<Rightarrow> manipulated_original_event \<Rightarrow> to_event_definition list \<Rightarrow>
     environment \<times> condition_store \<Rightarrow> to_event_definition list \<times> environment \<times> condition_store" where
  "filter_and_replace_events rt ctx moe [] w = ([], w)"
| "filter_and_replace_events rt ctx moe (d # ds) w =
     (let (ok, w1) = conditions_fulfilled rt ctx (te_conditions d) w;
          here = (if \<not> ok then []
                  else if ed_type (te_event_definition d) \<noteq> Def_from_event then [d]
                  else concat (map (\<lambda>f. case get_if_mse (fe_event f) of
                                Some e \<Rightarrow> [te_make_from_momentary_switch_event e d] | None \<Rightarrow> [])
                         (moe_from_events moe)));
          (rest, w2) = filter_and_replace_events rt ctx moe ds w1
      in (here @ rest, w2))"

definition filtered :: "runtime \<Rightarrow> condition_context \<Rightarrow> to_event_definition list \<Rightarrow> posting \<Rightarrow>
    to_event_definition list \<times> posting" where
  "filtered rt ctx ds p =
     (let (fs, env, st) = filter_and_replace_events rt ctx (po_moe p) ds (q_environment (po_queue p), po_store p)
      in (fs, p\<lparr>po_queue := (po_queue p)\<lparr>q_environment := env\<rparr>, po_store := st\<rparr>))"

definition is_last_to_event_modifier_key_event :: "to_event_definition list \<Rightarrow> bool" where
  "is_last_to_event_modifier_key_event ds =
     (if ds = [] then False
      else (case ed_get_if_mse (te_event_definition (last ds)) of
              Some e \<Rightarrow> mse_modifier_flag e | None \<Rightarrow> False))"

definition post_from_mandatory_modifiers_key_up :: "runtime \<Rightarrow> site \<Rightarrow> posting \<Rightarrow> posting" where
  "post_from_mandatory_modifiers_key_up rt s p =
     (let moe = po_moe p; posted = moe_key_up_posted_from_mandatory_modifiers moe;
          ms = {m \<in> moe_from_mandatory_modifiers moe. m \<notin> posted \<and>
                  is_pressed (q_modifier_flag_manager (po_queue p)) m}
      in post_lazy_modifier_key_events rt s Key_up ms
           (p\<lparr>po_moe := moe\<lparr>moe_key_up_posted_from_mandatory_modifiers := posted \<union> ms\<rparr>\<rparr>))"

definition post_from_mandatory_modifiers_key_down :: "runtime \<Rightarrow> site \<Rightarrow> posting \<Rightarrow> posting" where
  "post_from_mandatory_modifiers_key_down rt s p =
     (let moe = po_moe p; posted = moe_key_up_posted_from_mandatory_modifiers moe;
          ms = {m \<in> moe_from_mandatory_modifiers moe. m \<in> posted}
      in post_lazy_modifier_key_events rt s Key_down ms
           (p\<lparr>po_moe := moe\<lparr>moe_key_up_posted_from_mandatory_modifiers := posted - ms\<rparr>\<rparr>))"

definition is_modifier_key_event :: "event \<Rightarrow> bool" where
  "is_modifier_key_event e \<longleftrightarrow>
     (case get_if_mse e of Some m \<Rightarrow> mse_modifier_flag m \<or> mse_caps_lock m | None \<Rightarrow> False) \<or>
     (case ev_value e of V_mouse_key k \<Rightarrow> mk_is_speed_multiplier k | _ \<Rightarrow> False)"

definition update_moe :: "(manipulated_original_event \<Rightarrow> manipulated_original_event) \<Rightarrow> posting \<Rightarrow> posting" where
  "update_moe f p = p\<lparr>po_moe := f (po_moe p)\<rparr>"

definition hold_down :: "runtime \<Rightarrow> to_event_definition \<Rightarrow> posting \<Rightarrow> posting" where
  "hold_down rt d p = p\<lparr>po_delay := po_delay p + rt_duration_of rt (te_hold_down_milliseconds d)\<rparr>"

definition postpone_modifier_key_up :: "site \<Rightarrow> momentary_switch_event \<Rightarrow> posting \<Rightarrow> posting" where
  "postpone_modifier_key_up s m =
     (let (e, t) = make_lazy_modifier_key_event m Key_up
      in update_moe (emplace_event_at_key_up
           \<lparr>ek_device_id = si_device_id s, ek_event = e, ek_event_type = t,
            ek_original_event = si_original_event s, ek_lazy = True\<rparr>))"

text \<open>One output definition at key down; \<open>final\<close> holds for the last of the list.\<close>

definition post_event_at_key_down ::
    "runtime \<Rightarrow> site \<Rightarrow> bool \<Rightarrow> to_event_definition \<Rightarrow> event \<Rightarrow> posting \<Rightarrow> posting" where
  "post_event_at_key_down rt s final d e p =
     (let ms = make_modifier_events d; md = is_modifier_key_event e;
          p1 = fold (post_lazy_modifier_key_event rt s (\<not> md \<or> te_lazy d) Key_down) ms p;
          p2 = post_entry rt s e Key_down (te_lazy d) p1;
          p3 = (if te_halt d then update_moe set_halted p2 else p2);
          p4 = (if \<not> final \<or> \<not> te_repeat d
                then post_entry rt s e Key_up (te_lazy d) (hold_down rt d p3)
                else update_moe (emplace_event_at_key_up
                  \<lparr>ek_device_id = si_device_id s, ek_event = e, ek_event_type = Key_up,
                   ek_original_event = si_original_event s, ek_lazy = te_lazy d\<rparr>) p3)
      in fold (\<lambda>m. if final \<and> md
                   then postpone_modifier_key_up s m
                   else post_lazy_modifier_key_event rt s True Key_up m) ms p4)"

fun post_each_at_key_down ::
    "runtime \<Rightarrow> site \<Rightarrow> to_event_definition list \<Rightarrow> posting \<Rightarrow> access_error + posting" where
  "post_each_at_key_down rt s [] p = Inr p"
| "post_each_at_key_down rt s (d # ds) p =
     and_then (to_event (te_event_definition d)) (\<lambda>e.
       post_each_at_key_down rt s ds
         (case e of Some e \<Rightarrow> post_event_at_key_down rt s (ds = []) d e p | None \<Rightarrow> p))"

definition post_events_at_key_down ::
    "runtime \<Rightarrow> site \<Rightarrow> condition_context \<Rightarrow> to_event_definition list \<Rightarrow> posting \<Rightarrow> access_error + posting" where
  "post_events_at_key_down rt s ctx ds p =
     (if moe_halted (po_moe p) then Inr p
      else (let (fs, p1) = filtered rt ctx ds p in post_each_at_key_down rt s fs p1))"

definition post_event_at_key_up :: "runtime \<Rightarrow> event_time_stamp \<Rightarrow> event_at_key_up \<Rightarrow> posting \<Rightarrow> posting" where
  "post_event_at_key_up rt ts e p =
     p\<lparr>po_delay := po_delay p + 1,
       po_queue := push_back_entry rt (ek_make_entry (delayed ts (po_delay p)) e) (po_queue p)\<rparr>"

definition post_events_at_key_up :: "runtime \<Rightarrow> event_time_stamp \<Rightarrow> posting \<Rightarrow> posting" where
  "post_events_at_key_up rt ts p =
     update_moe clear_events_at_key_up (fold (post_event_at_key_up rt ts) (moe_events_at_key_up (po_moe p)) p)"

definition post_extra_to_event :: "runtime \<Rightarrow> site \<Rightarrow> to_event_definition \<Rightarrow> event \<Rightarrow> posting \<Rightarrow> posting" where
  "post_extra_to_event rt s d e p =
     (let ms = make_modifier_events d;
          p1 = fold (post_lazy_modifier_key_event rt s True Key_down) ms p;
          p2 = post_entry rt s e Key_down (te_lazy d) p1;
          p3 = (if te_halt d then update_moe set_halted p2 else p2);
          p4 = post_entry rt s e Key_up (te_lazy d) (hold_down rt d p3)
      in fold (post_lazy_modifier_key_event rt s True Key_up) ms p4)"

fun post_each_extra ::
    "runtime \<Rightarrow> site \<Rightarrow> to_event_definition list \<Rightarrow> posting \<Rightarrow> access_error + posting" where
  "post_each_extra rt s [] p = Inr p"
| "post_each_extra rt s (d # ds) p =
     and_then (to_event (te_event_definition d)) (\<lambda>e.
       post_each_extra rt s ds (case e of Some e \<Rightarrow> post_extra_to_event rt s d e p | None \<Rightarrow> p))"

definition post_extra_to_events ::
    "runtime \<Rightarrow> site \<Rightarrow> condition_context \<Rightarrow> to_event_definition list \<Rightarrow> posting \<Rightarrow> access_error + posting" where
  "post_extra_to_events rt s ctx ds p =
     (if moe_halted (po_moe p) then Inr p
      else (let (fs, p1) = filtered rt ctx ds p in post_each_extra rt s fs p1))"

definition post_active_modifier_flag :: "runtime \<Rightarrow> event_time_stamp \<Rightarrow> event \<Rightarrow> active_modifier_flag \<Rightarrow> posting \<Rightarrow> posting" where
  "post_active_modifier_flag rt ts oe f =
     post_lazy_modifier_key_event rt
       \<lparr>si_device_id = amf_device_id f, si_time_stamp = ts, si_original_event = oe\<rparr> True
       (if get_count f > 0 then Key_down else Key_up) (mse_of_modifier_flag (amf_modifier_flag f))"

definition post_active_modifier_flags ::
    "runtime \<Rightarrow> event_time_stamp \<Rightarrow> event \<Rightarrow> active_modifier_flag list \<Rightarrow> posting \<Rightarrow> posting" where
  "post_active_modifier_flags rt ts oe fs = fold (post_active_modifier_flag rt ts oe) fs"

text \<open>
  \<open>scoped_from_key_modifier_flags_state_restorer\<close>: the constructor enters and leaves a scope of the
  flags at key down to learn what it has to press and release, posts these events and keeps the
  inverse ones, which the destructor posts. Leaving the scope writes the flag manager of the queue.
\<close>

definition restorer_enter :: "runtime \<Rightarrow> event_time_stamp \<Rightarrow> event \<Rightarrow> posting \<Rightarrow> posting \<times> active_modifier_flag list" where
  "restorer_enter rt ts oe p =
     (let q = po_queue p;
          (inside, scoped) = scope_enter (moe_key_down_modifier_flags (po_moe p)) (q_modifier_flag_manager q);
          q1 = q\<lparr>q_modifier_flag_manager := scope_leave inside scoped\<rparr>
      in (post_active_modifier_flags rt ts oe scoped (p\<lparr>po_queue := q1\<rparr>),
          get_inverse_active_modifier_flags scoped))"

definition restorer_leave :: "runtime \<Rightarrow> event_time_stamp \<Rightarrow> event \<Rightarrow> active_modifier_flag list \<Rightarrow> posting \<Rightarrow> posting" where
  "restorer_leave rt ts oe fs p = post_active_modifier_flags rt ts oe fs p"

subsection \<open>Strokes\<close>

text \<open>
  A stroke of an event is a press or a release; the sticky on and off that stand for a caps lock
  modifier are strokes of the caps lock key. The balance of a list of entries counts presses minus
  releases. A manipulated event owes the releases it has postponed and the modifiers it has lifted.
\<close>

definition caps_lock_event :: event where
  "caps_lock_event = mse_event (mse_of_modifier_flag Flag_caps_lock)"

definition stroke :: "event \<Rightarrow> event \<times> event_type \<Rightarrow> int" where
  "stroke x et =
     (if et = (make_sticky_modifier_event Flag_caps_lock Sticky_on, Single) then (if x = caps_lock_event then 1 else 0)
      else if et = (make_sticky_modifier_event Flag_caps_lock Sticky_off, Single) then (if x = caps_lock_event then - 1 else 0)
      else if fst et = x then (case snd et of Key_down \<Rightarrow> 1 | Key_up \<Rightarrow> - 1 | Single \<Rightarrow> 0)
      else 0)"

definition balance :: "event \<Rightarrow> entry list \<Rightarrow> int" where
  "balance x es = (\<Sum>e\<leftarrow>es. stroke x (en_event e, en_event_type e))"

definition lifted :: "event \<Rightarrow> modifier_flag \<Rightarrow> int" where
  "lifted x f = (if mse_valid (mse_of_modifier_flag f) \<and> x = mse_event (mse_of_modifier_flag f) then 1 else 0)"

definition owed :: "event \<Rightarrow> manipulated_original_event \<Rightarrow> int" where
  "owed x m = (\<Sum>e\<leftarrow>moe_events_at_key_up m. stroke x (ek_event e, ek_event_type e)) +
     (\<Sum>f\<in>moe_key_up_posted_from_mandatory_modifiers m. lifted x f)"

definition debt :: "event \<Rightarrow> posting \<Rightarrow> int" where
  "debt x p = balance x (q_events (po_queue p)) + owed x (po_moe p)"

definition walks_sets :: "runtime \<Rightarrow> bool" where
  "walks_sets rt \<longleftrightarrow> (\<forall>s. distinct (rt_flag_order rt s) \<and> set (rt_flag_order rt s) = s)"

lemma stroke_key [simp]:
  "stroke x (e, Key_down) = (if x = e then 1 else 0)" "stroke x (e, Key_up) = (if x = e then - 1 else 0)"
  by (auto simp: stroke_def)

lemma mse_caps_lock_eq: "mse_caps_lock m \<longleftrightarrow> m = mse_of_modifier_flag Flag_caps_lock"
  by (cases m) (auto simp: mse_caps_lock_def mk_pair_def)

lemma stroke_lazy [simp]:
  "stroke x (make_lazy_modifier_key_event m Key_down) = (if x = mse_event m then 1 else 0)"
  "stroke x (make_lazy_modifier_key_event m Key_up) = (if x = mse_event m then - 1 else 0)"
  by (auto simp: make_lazy_modifier_key_event_def mse_caps_lock_eq stroke_def caps_lock_event_def
      make_sticky_modifier_event_def)

lemma balance_simps [simp]:
  "balance x [] = 0"
  "balance x (e # es) = stroke x (en_event e, en_event_type e) + balance x es"
  "balance x (es @ fs) = balance x es + balance x fs"
  by (simp_all add: balance_def)

lemma post_entry_effects [simp]:
  "po_moe (post_entry rt s e t lz p) = po_moe p"
  "po_store (post_entry rt s e t lz p) = po_store p"
  "po_delay (post_entry rt s e t lz p) = po_delay p + 1"
  by (simp_all add: post_entry_def)

lemma debt_post_entry [simp]: "debt x (post_entry rt s e t lz p) = debt x p + stroke x (e, t)"
  by (simp add: debt_def post_entry_def emplace_back_entry_def push_back_entry_def Let_def)

lemma post_lazy_moe [simp]: "po_moe (post_lazy_modifier_key_event rt s lz t m p) = po_moe p"
  by (simp add: post_lazy_modifier_key_event_def split: prod.split)

lemma debt_post_lazy:
  "debt x (post_lazy_modifier_key_event rt s lz t m p) =
     debt x p + (if mse_valid m then stroke x (make_lazy_modifier_key_event m t) else 0)"
  by (simp add: post_lazy_modifier_key_event_def split: prod.split)

lemma fold_moe: "(\<And>y q. po_moe (f y q) = po_moe q) \<Longrightarrow> po_moe (fold f ys p) = po_moe p"
  by (induction ys arbitrary: p) auto

lemma fold_debt: "(\<And>y q. debt x (f y q) = debt x q + g y) \<Longrightarrow> debt x (fold f ys p) = debt x p + (\<Sum>y\<leftarrow>ys. g y)"
  by (induction ys arbitrary: p) auto

lemmas debt_fold_lazy = fold_debt [OF debt_post_lazy]

lemma debt_cong: "po_queue q = po_queue p \<Longrightarrow> debt x q = debt x p + owed x (po_moe q) - owed x (po_moe p)"
  by (simp add: debt_def)

lemma sum_walk: "walks_sets rt \<Longrightarrow> (\<Sum>f\<leftarrow>rt_flag_order rt ms. g f) = (\<Sum>f\<in>ms. g f)"
  by (simp add: walks_sets_def sum_list_distinct_conv_sum_set)

lemma debt_lazy_events:
  assumes "walks_sets rt"
  shows "debt x (post_lazy_modifier_key_events rt s Key_down ms p) = debt x p + (\<Sum>f\<in>ms. lifted x f)"
    and "debt x (post_lazy_modifier_key_events rt s Key_up ms p) = debt x p - (\<Sum>f\<in>ms. lifted x f)"
proof -
  have "debt x (post_lazy_modifier_key_events rt s t ms p) =
      debt x p + (\<Sum>f\<in>ms. if mse_valid (mse_of_modifier_flag f) then
        stroke x (make_lazy_modifier_key_event (mse_of_modifier_flag f) t) else 0)" for t
    unfolding post_lazy_modifier_key_events_def
    by (subst fold_debt [OF debt_post_lazy]) (simp add: sum_walk [OF assms])
  moreover have "(\<Sum>f\<in>ms. if mse_valid (mse_of_modifier_flag f) then
        stroke x (make_lazy_modifier_key_event (mse_of_modifier_flag f) Key_down) else 0) = (\<Sum>f\<in>ms. lifted x f)"
    by (rule sum.cong) (auto simp: lifted_def)
  moreover have "(\<Sum>f\<in>ms. if mse_valid (mse_of_modifier_flag f) then
        stroke x (make_lazy_modifier_key_event (mse_of_modifier_flag f) Key_up) else 0) = - (\<Sum>f\<in>ms. lifted x f)"
    by (subst sum_negf [symmetric], rule sum.cong) (auto simp: lifted_def)
  ultimately show "debt x (post_lazy_modifier_key_events rt s Key_down ms p) = debt x p + (\<Sum>f\<in>ms. lifted x f)"
    and "debt x (post_lazy_modifier_key_events rt s Key_up ms p) = debt x p - (\<Sum>f\<in>ms. lifted x f)"
    by simp_all
qed

lemma sum_flags:
  fixes g :: "modifier_flag \<Rightarrow> int" and A B :: "modifier_flag set"
  shows "A \<inter> B = {} \<Longrightarrow> sum g (A \<union> B) = sum g A + sum g B" "B \<subseteq> A \<Longrightarrow> sum g (A - B) = sum g A - sum g B"
  by (simp_all add: sum.union_disjoint sum_diff)

lemma debt_mandatory_key_up:
  assumes "walks_sets rt"
  shows "debt x (post_from_mandatory_modifiers_key_up rt s p) = debt x p"
proof -
  let ?A = "moe_key_up_posted_from_mandatory_modifiers (po_moe p)"
  let ?B = "{m \<in> moe_from_mandatory_modifiers (po_moe p). m \<notin> ?A \<and> is_pressed (q_modifier_flag_manager (po_queue p)) m}"
  have "sum (lifted x) (?A \<union> ?B) = sum (lifted x) ?A + sum (lifted x) ?B" by (rule sum_flags) auto
  then show ?thesis
    unfolding post_from_mandatory_modifiers_key_up_def Let_def debt_lazy_events [OF assms]
    by (simp add: debt_def owed_def)
qed

lemma debt_mandatory_key_down:
  assumes "walks_sets rt"
  shows "debt x (post_from_mandatory_modifiers_key_down rt s p) = debt x p"
proof -
  let ?A = "moe_key_up_posted_from_mandatory_modifiers (po_moe p)"
  let ?B = "{m \<in> moe_from_mandatory_modifiers (po_moe p). m \<in> ?A}"
  have "sum (lifted x) (?A - ?B) = sum (lifted x) ?A - sum (lifted x) ?B" by (rule sum_flags) auto
  then show ?thesis
    unfolding post_from_mandatory_modifiers_key_down_def Let_def debt_lazy_events [OF assms]
    by (simp add: debt_def owed_def)
qed

lemma debt_update_moe: "debt x (update_moe f p) = debt x p + owed x (f (po_moe p)) - owed x (po_moe p)"
  by (simp add: update_moe_def debt_def)

lemma owed_updates [simp]:
  "owed x (set_halted m) = owed x m"
  "owed x (set_key_up_posted v m) = owed x m"
  "owed x (unset_alone m) = owed x m"
  "owed x (erase_from_event f m) = owed x m"
  "owed x (erase_from_events_by_device_id d m) = owed x m"
  "owed x (emplace_event_at_key_up e m) = owed x m + stroke x (ek_event e, ek_event_type e)"
  "owed x (mk_moe fs ms t down) = 0"
  by (simp_all add: owed_def set_halted_def set_key_up_posted_def unset_alone_def erase_from_event_def
      erase_from_events_by_device_id_def emplace_event_at_key_up_def mk_moe_def)

lemma debt_hold_down [simp]: "debt x (hold_down rt d p) = debt x p"
  by (simp add: hold_down_def debt_def)

lemma valid_modifier_events: "m \<in> set (make_modifier_events d) \<Longrightarrow> mse_valid m"
  by (auto simp: make_modifier_events_def split: list.splits if_splits)

text \<open>The presses and releases of a list of modifiers.\<close>

definition presses :: "event \<Rightarrow> momentary_switch_event list \<Rightarrow> int" where
  "presses x ms = (\<Sum>m\<leftarrow>ms. if mse_valid m then (if x = mse_event m then 1 else 0) else 0)"

lemma debt_modifiers:
  "debt x (fold (post_lazy_modifier_key_event rt s lz Key_down) ms p) = debt x p + presses x ms"
  "debt x (fold (post_lazy_modifier_key_event rt s lz Key_up) ms p) = debt x p - presses x ms"
proof -
  have "(\<Sum>m\<leftarrow>ms. if mse_valid m then stroke x (make_lazy_modifier_key_event m Key_up) else 0) = - presses x ms"
    and "(\<Sum>m\<leftarrow>ms. if mse_valid m then stroke x (make_lazy_modifier_key_event m Key_down) else 0) = presses x ms"
    unfolding presses_def by (induction ms) auto
  then show "debt x (fold (post_lazy_modifier_key_event rt s lz Key_up) ms p) = debt x p - presses x ms"
    and "debt x (fold (post_lazy_modifier_key_event rt s lz Key_down) ms p) = debt x p + presses x ms"
    by (simp_all add: debt_fold_lazy)
qed

lemma debt_postpone:
  assumes "\<forall>m\<in>set ms. mse_valid m"
  shows "debt x (fold (postpone_modifier_key_up s) ms p) = debt x p - presses x ms"
  using assms
proof (induction ms arbitrary: p)
  case (Cons m ms)
  obtain e t where et: "make_lazy_modifier_key_event m Key_up = (e, t)" by fastforce
  have "stroke x (e, t) = (if x = mse_event m then - 1 else 0)" using stroke_lazy(2) [of x m] et by simp
  then show ?case using Cons by (simp add: postpone_modifier_key_up_def et debt_update_moe presses_def)
qed (simp add: presses_def)

lemma debt_event_at_key_down: "debt x (post_event_at_key_down rt s final d e p) = debt x p"
proof -
  have halt: "debt x (if te_halt d then update_moe set_halted q else q) = debt x q" for q
    by (simp add: debt_update_moe)
  show ?thesis
  proof (cases "final \<and> is_modifier_key_event e")
    case True
    then show ?thesis
      using valid_modifier_events [of _ d] halt
      by (simp add: post_event_at_key_down_def Let_def debt_modifiers debt_postpone debt_update_moe)
  next
    case False
    then have nf: "(final \<and> is_modifier_key_event e) = False" by simp
    show ?thesis
      unfolding post_event_at_key_down_def Let_def nf if_False
      using halt by (simp add: debt_modifiers debt_update_moe)
  qed
qed

lemma debt_extra_to_event: "debt x (post_extra_to_event rt s d e p) = debt x p"
proof -
  have "debt x (if te_halt d then update_moe set_halted q else q) = debt x q" for q
    by (simp add: debt_update_moe)
  then show ?thesis by (simp add: post_extra_to_event_def Let_def debt_modifiers)
qed

lemma debt_each_at_key_down: "on_success (\<lambda>q. debt x q = debt x p) (post_each_at_key_down rt s ds p)"
proof (induction ds arbitrary: p)
  case (Cons d ds)
  have "on_success (\<lambda>q. debt x q = debt x p) (post_each_at_key_down rt s ds
      (case e of Some e \<Rightarrow> post_event_at_key_down rt s (ds = []) d e p | None \<Rightarrow> p))" for e
    using Cons.IH [of "case e of Some e \<Rightarrow> post_event_at_key_down rt s (ds = []) d e p | None \<Rightarrow> p"]
    by (cases e) (simp_all add: debt_event_at_key_down)
  then show ?case by (auto simp: on_success_def and_then_def split: sum.split)
qed (simp add: on_success_def)

lemma debt_each_extra: "on_success (\<lambda>q. debt x q = debt x p) (post_each_extra rt s ds p)"
proof (induction ds arbitrary: p)
  case (Cons d ds)
  have "on_success (\<lambda>q. debt x q = debt x p) (post_each_extra rt s ds
      (case e of Some e \<Rightarrow> post_extra_to_event rt s d e p | None \<Rightarrow> p))" for e
    using Cons.IH [of "case e of Some e \<Rightarrow> post_extra_to_event rt s d e p | None \<Rightarrow> p"]
    by (cases e) (simp_all add: debt_extra_to_event)
  then show ?case by (auto simp: on_success_def and_then_def split: sum.split)
qed (simp add: on_success_def)

lemma debt_filtered: "debt x (snd (filtered rt ctx ds p)) = debt x p"
  by (simp add: filtered_def debt_def split_def Let_def)

lemma debt_at_key_down: "on_success (\<lambda>q. debt x q = debt x p) (post_events_at_key_down rt s ctx ds p)"
  using debt_each_at_key_down [of x "snd (filtered rt ctx ds p)" rt s "fst (filtered rt ctx ds p)"]
  by (simp add: post_events_at_key_down_def split_def debt_filtered Let_def) (simp add: on_success_def)

lemma debt_extra: "on_success (\<lambda>q. debt x q = debt x p) (post_extra_to_events rt s ctx ds p)"
  using debt_each_extra [of x "snd (filtered rt ctx ds p)" rt s "fst (filtered rt ctx ds p)"]
  by (simp add: post_extra_to_events_def split_def debt_filtered Let_def) (simp add: on_success_def)

lemma debt_event_at_key_up: "debt x (post_event_at_key_up rt ts e p) = debt x p + stroke x (ek_event e, ek_event_type e)"
  by (simp add: post_event_at_key_up_def debt_def push_back_entry_def ek_make_entry_def Let_def)

lemma post_event_at_key_up_moe [simp]: "po_moe (post_event_at_key_up rt ts e p) = po_moe p"
  by (simp add: post_event_at_key_up_def)

lemma debt_at_key_up: "debt x (post_events_at_key_up rt ts p) = debt x p"
proof -
  have "po_moe (fold (post_event_at_key_up rt ts) es p) = po_moe p" for es by (rule fold_moe) simp
  then show ?thesis
    by (simp add: post_events_at_key_up_def debt_update_moe fold_debt [OF debt_event_at_key_up]
        clear_events_at_key_up_def owed_def)
qed

lemma debt_active_modifier_flag:
  "debt x (post_active_modifier_flag rt ts oe f p) =
     debt x p + (if get_count f > 0 then 1 else - 1) * lifted x (amf_modifier_flag f)"
  by (simp add: post_active_modifier_flag_def debt_post_lazy lifted_def)

lemma debt_restorer_leave:
  "debt x (restorer_leave rt ts oe fs p) =
     debt x p + (\<Sum>f\<leftarrow>fs. (if get_count f > 0 then 1 else - 1) * lifted x (amf_modifier_flag f))"
  by (simp add: restorer_leave_def post_active_modifier_flags_def fold_debt [OF debt_active_modifier_flag])

text \<open>What the restorer posts when it is created and when it is destroyed cancels out.\<close>

lemma inverse_count: "get_count (mk_amf (get_inverse_type f) m d) > 0 \<longleftrightarrow> \<not> get_count f > 0"
  by (cases "amf_type f") (simp_all add: get_count_def mk_amf_def get_inverse_type_def)

lemma debt_restorer:
  assumes "restorer_enter rt ts oe p = (p1, fs)" "debt x p2 = debt x p1"
  shows "debt x (restorer_leave rt ts' oe' fs p2) = debt x p"
proof -
  obtain inside scoped where sc: "scope_enter (moe_key_down_modifier_flags (po_moe p))
      (q_modifier_flag_manager (po_queue p)) = (inside, scoped)" by fastforce
  let ?w = "\<lambda>f. (if get_count f > 0 then 1 else - 1) * lifted x (amf_modifier_flag f)"
  have "debt x p1 = debt x p + (\<Sum>f\<leftarrow>scoped. ?w f)"
    using assms(1) sc debt_cong [of "p\<lparr>po_queue := q\<rparr>" p x for q]
    by (auto simp: restorer_enter_def Let_def post_active_modifier_flags_def fold_debt [OF debt_active_modifier_flag]
        debt_def [of x "p\<lparr>po_queue := q\<rparr>" for q] debt_def [of x p])
  moreover have "(\<Sum>f\<leftarrow>fs. ?w f) = - (\<Sum>f\<leftarrow>scoped. ?w f)"
  proof -
    have fs: "fs = get_inverse_active_modifier_flags scoped" using assms(1) sc by (auto simp: restorer_enter_def Let_def)
    have "?w (mk_amf (get_inverse_type f) (amf_modifier_flag f) (amf_device_id f)) = - ?w f" for f
      by (simp add: inverse_count) (simp add: mk_amf_def)
    then show ?thesis unfolding fs get_inverse_active_modifier_flags_def by (induction scoped) auto
  qed
  ultimately show ?thesis by (simp add: debt_restorer_leave assms(2))
qed

subsection \<open>What the senders keep of a manipulated event\<close>

definition same_press :: "manipulated_original_event \<Rightarrow> manipulated_original_event \<Rightarrow> bool" where
  "same_press m m' \<longleftrightarrow> moe_from_events m' = moe_from_events m \<and>
     moe_from_mandatory_modifiers m' = moe_from_mandatory_modifiers m \<and>
     moe_key_up_posted_from_mandatory_modifiers m' = moe_key_up_posted_from_mandatory_modifiers m \<and>
     moe_key_up_posted m' = moe_key_up_posted m"

definition same_debts :: "manipulated_original_event \<Rightarrow> manipulated_original_event \<Rightarrow> bool" where
  "same_debts m m' \<longleftrightarrow> same_press m m' \<and> moe_events_at_key_up m' = moe_events_at_key_up m"

lemma same_press_refl [simp]: "same_press m m" "same_debts m m"
  by (simp_all add: same_press_def same_debts_def)

lemma same_press_trans [trans]:
  "same_press a b \<Longrightarrow> same_press b c \<Longrightarrow> same_press a c" "same_debts a b \<Longrightarrow> same_debts b c \<Longrightarrow> same_debts a c"
  by (simp_all add: same_press_def same_debts_def)

lemma same_press_updates [simp]:
  "same_debts m (set_halted m)" "same_press m (emplace_event_at_key_up e m)"
  by (simp_all add: same_press_def same_debts_def set_halted_def emplace_event_at_key_up_def)

lemma po_moe_update [simp]: "po_moe (update_moe f p) = f (po_moe p)" "po_moe (hold_down rt d p) = po_moe p"
  by (simp_all add: update_moe_def hold_down_def)

lemma fold_lazy_moe [simp]: "po_moe (fold (post_lazy_modifier_key_event rt s lz t) ms p) = po_moe p"
  by (rule fold_moe) simp

lemma lazy_events_moe [simp]: "po_moe (post_lazy_modifier_key_events rt s t ms p) = po_moe p"
  unfolding post_lazy_modifier_key_events_def by (rule fold_moe) simp

lemma fold_same_press:
  "(\<And>y q. same_press (po_moe q) (po_moe (f y q))) \<Longrightarrow> same_press (po_moe p) (po_moe (fold f ys p))"
proof (induction ys arbitrary: p)
  case (Cons y ys)
  then show ?case using same_press_trans(1) [OF Cons.prems [of p y]] by simp
qed simp

lemma postpone_same_press: "same_press (po_moe p) (po_moe (postpone_modifier_key_up s m p))"
  by (simp add: postpone_modifier_key_up_def split: prod.split)

lemma at_key_down_same_press: "same_press (po_moe p) (po_moe (post_event_at_key_down rt s final d e p))"
proof -
  have "same_press (po_moe q) (po_moe (if final \<and> is_modifier_key_event e then postpone_modifier_key_up s m q
      else post_lazy_modifier_key_event rt s True Key_up m q))" for m q
    by (simp add: postpone_same_press)
  then have "same_press (po_moe q) (po_moe (fold (\<lambda>m. if final \<and> is_modifier_key_event e
      then postpone_modifier_key_up s m else post_lazy_modifier_key_event rt s True Key_up m) ms q))" for ms q
    by (intro fold_same_press) (auto split: if_split_asm)
  from same_press_trans(1) [OF _ this] show ?thesis
    unfolding post_event_at_key_down_def Let_def
    by (auto simp: same_press_def set_halted_def emplace_event_at_key_up_def)
qed

lemma each_at_key_down_same_press: "on_success (\<lambda>q. same_press (po_moe p) (po_moe q)) (post_each_at_key_down rt s ds p)"
proof (induction ds arbitrary: p)
  case (Cons d ds)
  have "on_success (\<lambda>q. same_press (po_moe p) (po_moe q)) (post_each_at_key_down rt s ds
      (case e of Some e \<Rightarrow> post_event_at_key_down rt s (ds = []) d e p | None \<Rightarrow> p))" for e
    using Cons.IH [of "case e of Some e \<Rightarrow> post_event_at_key_down rt s (ds = []) d e p | None \<Rightarrow> p"]
      same_press_trans(1) [OF at_key_down_same_press]
    by (cases e) (auto simp: on_success_def)
  then show ?case by (auto simp: on_success_def and_then_def split: sum.split)
qed (simp add: on_success_def)

lemma filtered_moe [simp]: "po_moe (snd (filtered rt ctx ds p)) = po_moe p"
  by (simp add: filtered_def Let_def split_def)

lemma events_at_key_down_same_press:
  "on_success (\<lambda>q. same_press (po_moe p) (po_moe q)) (post_events_at_key_down rt s ctx ds p)"
  using each_at_key_down_same_press [of "snd (filtered rt ctx ds p)" rt s "fst (filtered rt ctx ds p)"]
  by (simp add: post_events_at_key_down_def split_def Let_def) (simp add: on_success_def)

lemma extra_same_debts: "same_debts (po_moe p) (po_moe (post_extra_to_event rt s d e p))"
  by (simp add: post_extra_to_event_def Let_def)

lemma each_extra_same_debts: "on_success (\<lambda>q. same_debts (po_moe p) (po_moe q)) (post_each_extra rt s ds p)"
proof (induction ds arbitrary: p)
  case (Cons d ds)
  have "on_success (\<lambda>q. same_debts (po_moe p) (po_moe q)) (post_each_extra rt s ds
      (case e of Some e \<Rightarrow> post_extra_to_event rt s d e p | None \<Rightarrow> p))" for e
    using Cons.IH [of "case e of Some e \<Rightarrow> post_extra_to_event rt s d e p | None \<Rightarrow> p"]
      same_press_trans(2) [OF extra_same_debts]
    by (cases e) (auto simp: on_success_def)
  then show ?case by (auto simp: on_success_def and_then_def split: sum.split)
qed (simp add: on_success_def)

lemma extra_events_same_debts:
  "on_success (\<lambda>q. same_debts (po_moe p) (po_moe q)) (post_extra_to_events rt s ctx ds p)"
  using each_extra_same_debts [of "snd (filtered rt ctx ds p)" rt s "fst (filtered rt ctx ds p)"]
  by (simp add: post_extra_to_events_def split_def Let_def) (simp add: on_success_def)

lemma at_key_up_moe: "po_moe (post_events_at_key_up rt ts p) = clear_events_at_key_up (po_moe p)"
proof -
  have "po_moe (fold (post_event_at_key_up rt ts) es p) = po_moe p" for es by (rule fold_moe) simp
  then show ?thesis by (simp add: post_events_at_key_up_def)
qed

lemma restorer_enter_moe: "restorer_enter rt ts oe p = (p1, fs) \<Longrightarrow> po_moe p1 = po_moe p"
proof -
  have "po_moe (fold (post_active_modifier_flag rt ts oe) gs q) = po_moe q" for gs q
    by (rule fold_moe) (simp add: post_active_modifier_flag_def)
  then show "restorer_enter rt ts oe p = (p1, fs) \<Longrightarrow> po_moe p1 = po_moe p"
    by (auto simp: restorer_enter_def post_active_modifier_flags_def Let_def split: prod.splits)
qed

lemma restorer_leave_moe [simp]: "po_moe (restorer_leave rt ts oe fs p) = po_moe p"
proof -
  have "po_moe (fold (post_active_modifier_flag rt ts oe) gs q) = po_moe q" for gs q
    by (rule fold_moe) (simp add: post_active_modifier_flag_def)
  then show ?thesis by (simp add: restorer_leave_def post_active_modifier_flags_def)
qed

subsection \<open>The modifiers inside the restorer\<close>

definition no_led :: "modifier_flag \<Rightarrow> modifier_flag_manager \<Rightarrow> bool" where
  "no_led m xs \<longleftrightarrow> (\<forall>f\<in>set xs. \<not> (led_lock f \<and> amf_modifier_flag f = m))"

lemma pressed_no_led:
  assumes "no_led m xs"
  shows "is_pressed xs m \<longleftrightarrow> total xs m > 0"
proof -
  have "led_total xs m = 0" using assms by (induction xs) (auto simp: no_led_def)
  moreover have "total xs m = 0" if "\<not> (\<exists>f\<in>set xs. counts_for m f)" using that by (induction xs) auto
  ultimately show ?thesis by (auto simp: is_pressed_eq)
qed

lemma no_led_push:
  assumes "mfm_inv xs" "no_led m xs" "\<not> (led_lock f \<and> amf_modifier_flag f = m)"
  shows "no_led m (push_back_active_modifier_flag f xs)"
proof -
  have pf: "pair_free xs" using assms(1) by (simp add: mfm_inv_def)
  have "no_led m (cancel_or_append f ys)" if "no_led m ys" for ys
    using that assms(3) set_remove_first_subset [of "\<lambda>g. is_paired g f" ys]
    by (auto simp: no_led_def cancel_or_append_def)
  moreover have "no_led m (remove_if q xs)" for q using assms(2) by (auto simp: no_led_def)
  ultimately show ?thesis using assms(2) by (simp add: push_back_eq [OF pf])
qed

lemma no_led_push_all:
  assumes "mfm_inv xs" "no_led m xs" "\<forall>f\<in>set fs. wf_amf f \<and> \<not> (led_lock f \<and> amf_modifier_flag f = m)"
  shows "no_led m (push_all fs xs)"
  using assms by (induction fs arbitrary: xs) (auto simp: mfm_inv_push no_led_push)

text \<open>A posted flag pushes an entry of its own.\<close>

definition posted_flag :: "active_modifier_flag \<Rightarrow> active_modifier_flag" where
  "posted_flag f =
     mk_amf (if amf_modifier_flag f = Flag_caps_lock
             then (if get_count f > 0 then Increase_sticky else Decrease_sticky)
             else (if get_count f > 0 then Increase else Decrease)) (amf_modifier_flag f) (amf_device_id f)"

lemma posted_flag_facts:
  "wf_amf (posted_flag f)" "unlocked (posted_flag f)" "\<not> led_lock (posted_flag f)"
  "counts_for m (posted_flag f) \<longleftrightarrow> amf_modifier_flag f = m"
  "get_count (posted_flag f) = (if get_count f > 0 then 1 else - 1)"
  by (auto simp: posted_flag_def wf_amf_def unlocked_def led_lock_def counts_for_def get_count_def mk_amf_def)

lemma get_count_sign: "get_count f = 1 \<or> get_count f = - 1"
  by (cases "amf_type f") (simp_all add: get_count_def)

lemma make_modifier_flag_of [simp]:
  "f \<noteq> Flag_caps_lock \<Longrightarrow> f \<in> set all_modifier_flags \<Longrightarrow> make_modifier_flag (mse_of_modifier_flag f) = Some f"
  by (cases f) (simp_all add: all_modifier_flags_def make_modifier_flag_def page_defs usage_defs)

lemma post_flag_mfm:
  assumes "amf_modifier_flag f \<in> set all_modifier_flags"
  shows "q_modifier_flag_manager (po_queue (post_active_modifier_flag rt ts oe f p)) =
     push_back_active_modifier_flag (posted_flag f) (q_modifier_flag_manager (po_queue p))"
proof (cases "amf_modifier_flag f = Flag_caps_lock")
  case True
  then show ?thesis
    by (auto simp: post_active_modifier_flag_def post_lazy_modifier_key_event_def make_lazy_modifier_key_event_def
        mse_caps_lock_eq post_entry_def emplace_back_entry_def push_back_entry_def Let_def update_modifier_flags_def
        make_sticky_modifier_event_def get_if_mse_def get_sticky_modifier_def posted_flag_def mse_valid_def
        page_defs usage_defs)
next
  case False
  then have "mse_valid (mse_of_modifier_flag (amf_modifier_flag f))"
      "\<not> mse_caps_lock (mse_of_modifier_flag (amf_modifier_flag f))"
    using assms by (cases "amf_modifier_flag f"; simp add: all_modifier_flags_def mse_valid_def mse_caps_lock_def
        page_defs usage_defs)+
  then show ?thesis
    using False assms
    by (simp add: post_active_modifier_flag_def post_lazy_modifier_key_event_def make_lazy_modifier_key_event_def
        post_entry_def emplace_back_entry_def push_back_entry_def Let_def update_modifier_flags_def
        mse_modifier_flag_def posted_flag_def)
qed

lemma post_flags_mfm:
  "\<forall>f\<in>set fs. amf_modifier_flag f \<in> set all_modifier_flags \<Longrightarrow>
     q_modifier_flag_manager (po_queue (post_active_modifier_flags rt ts oe fs p)) =
     push_all (map posted_flag fs) (q_modifier_flag_manager (po_queue p))"
  unfolding post_active_modifier_flags_def
  by (induction fs arbitrary: p) (simp_all add: post_flag_mfm)

lemma post_active_flags_moe [simp]: "po_moe (post_active_modifier_flags rt ts oe fs p) = po_moe p"
  unfolding post_active_modifier_flags_def by (rule fold_moe) (simp add: post_active_modifier_flag_def)

lemma total_posted:
  assumes "\<forall>f\<in>set fs. \<not> (led_lock f \<and> amf_modifier_flag f = m)"
  shows "total (map posted_flag fs) m = total fs m"
  using assms
proof (induction fs)
  case (Cons f fs)
  then show ?case using get_count_sign [of f] posted_flag_facts(4) [of m f] posted_flag_facts(5) [of f]
    by (auto simp: counts_for_def)
qed simp

lemma total_posted_inverse:
  "total (map posted_flag (get_inverse_active_modifier_flags fs)) m = - total (map posted_flag fs) m"
proof -
  have "amf_modifier_flag (mk_amf t g d) = g" for t g d by (simp add: mk_amf_def)
  then show ?thesis
    by (induction fs) (auto simp: get_inverse_active_modifier_flags_def posted_flag_facts inverse_count)
qed

text \<open>The constructor's log names flags of the scope only.\<close>

definition log_in :: "modifier_flag set \<Rightarrow> modifier_flag_manager \<times> active_modifier_flag list \<Rightarrow> bool" where
  "log_in F s \<longleftrightarrow> (\<forall>f\<in>set (snd s). amf_modifier_flag f \<in> F)"

lemma log_in_push: "log_in F s \<Longrightarrow> amf_modifier_flag f \<in> F \<Longrightarrow> log_in F (push_scoped f s)"
  by (auto simp: log_in_def push_scoped_def)

lemma log_in_press: "log_in F s \<Longrightarrow> m \<in> F \<Longrightarrow> log_in F (press_until m s)"
proof (induction m s rule: press_until.induct)
  case (1 m s)
  then show ?case by (subst press_until.simps) (auto simp: log_in_push mk_amf_def)
qed

lemma log_in_release: "log_in F s \<Longrightarrow> m \<in> F \<Longrightarrow> log_in F (release_all m s)"
proof -
  assume m: "m \<in> F"
  have "log_in F s \<Longrightarrow> log_in F (foldl (\<lambda>s f. if amf_modifier_flag f = m
        then push_scoped (mk_amf (get_inverse_type f) (amf_modifier_flag f) 0) s else s) s xs)" for s xs
    using m by (induction xs arbitrary: s) (auto simp: log_in_push mk_amf_def)
  then show "log_in F s \<Longrightarrow> log_in F (release_all m s)" by (simp add: release_all_def)
qed

lemma log_in_enter: "log_in (set scoped_flags) (scope_enter flags xs)"
proof -
  have "log_in F s \<Longrightarrow> set ms \<subseteq> F \<Longrightarrow> log_in F (foldl (scope_flag flags) s ms)" for F s ms
    by (induction ms arbitrary: s) (auto simp: scope_flag_def log_in_press log_in_release)
  then show ?thesis unfolding scope_enter_def by (simp add: log_in_def [of _ "(xs, [])"])
qed

lemma inverse_flag_kind:
  "unlocked (inverse_flag f) = unlocked f" "led_lock (inverse_flag f) = led_lock f"
  "counts_for m (inverse_flag f) = counts_for m f" "amf_modifier_flag (inverse_flag f) = amf_modifier_flag f"
  by (cases "amf_type f";
      simp add: inverse_flag_def mk_amf_def get_inverse_type_def unlocked_def led_lock_def counts_for_def)+

lemma total_inverse_flags: "\<forall>f\<in>set fs. wf_amf f \<Longrightarrow> total (map inverse_flag fs) m = - total fs m"
  by (induction fs) (auto simp: inverse_flag_kind inverse_flag_facts(2))

text \<open>What a scope does to a flag without LED lock entries, while it lasts and after it.\<close>

lemma scope_replay:
  assumes "mfm_inv xs" "scope_log xs (inside, scoped)" "no_led m xs"
  defines "ys \<equiv> scope_leave inside scoped"
  shows "\<forall>f\<in>set scoped. \<not> (led_lock f \<and> amf_modifier_flag f = m)"
    and "no_led m inside" "total inside m = total xs m + total scoped m"
    and "mfm_inv ys" "no_led m ys" "total ys m = total xs m"
proof -
  have logged: "logged xs f" if "f \<in> set scoped" for f using assms(2) that by (simp add: scope_log_def)
  have ins: "inside = push_all scoped xs" using assms(2) by (simp add: scope_log_def)
  have wf: "\<forall>f\<in>set scoped. wf_amf f" using logged logged_wf by blast
  have ul: "\<forall>f\<in>set scoped. unlocked f" using logged by (simp add: logged_def)
  show led: "\<forall>f\<in>set scoped. \<not> (led_lock f \<and> amf_modifier_flag f = m)"
  proof (intro ballI notI)
    fix f assume f: "f \<in> set scoped" "led_lock f \<and> amf_modifier_flag f = m"
    then have "net xs (key f) = 1" using logged by (simp add: logged_def)
    then have "\<exists>g\<in>set xs. key g = key f"
      using assms(1) net_nonzero_iff [of xs "key f"] by (auto simp: mfm_inv_def)
    then show False using assms(3) f(2) by (auto simp: no_led_def led_lock_key key_def)
  qed
  show no: "no_led m inside" unfolding ins using wf led by (intro no_led_push_all [OF assms(1,3)]) auto
  have inv: "mfm_inv inside" unfolding ins using wf by (rule mfm_inv_push_all [OF assms(1)])
  show tot: "total inside m = total xs m + total scoped m"
    unfolding ins using wf ul by (intro total_push_all [OF assms(1)]) auto
  have wf': "\<forall>f\<in>set (map inverse_flag scoped). wf_amf f" using wf inverse_flag_facts(3) by auto
  show "mfm_inv ys" unfolding ys_def scope_leave_eq by (rule mfm_inv_push_all [OF inv wf'])
  show "no_led m ys"
    unfolding ys_def scope_leave_eq using wf' led
    by (intro no_led_push_all [OF inv no]) (auto simp: inverse_flag_kind)
  have "total ys m = total inside m + total (map inverse_flag scoped) m"
    unfolding ys_def scope_leave_eq using wf' ul
    by (intro total_push_all [OF inv]) (auto simp: inverse_flag_kind)
  then show "total ys m = total xs m" using tot total_inverse_flags [OF wf] by simp
qed

lemma posted_flags_push:
  assumes "mfm_inv ys" "no_led m ys"
  shows "mfm_inv (push_all (map posted_flag fs) ys)" "no_led m (push_all (map posted_flag fs) ys)"
    and "total (push_all (map posted_flag fs) ys) m = total ys m + total (map posted_flag fs) m"
  using assms by (auto intro!: mfm_inv_push_all no_led_push_all total_push_all simp: posted_flag_facts)

lemma restorer_flags:
  assumes "queue_inv (po_queue p)" "m \<in> set all_modifier_flags"
    and "no_led m (q_modifier_flag_manager (po_queue p))"
    and "restorer_enter rt ts oe p = (p1, fs)"
  shows "is_pressed (q_modifier_flag_manager (po_queue p1)) m \<longleftrightarrow> m \<in> moe_key_down_modifier_flags (po_moe p)"
    and "is_pressed (q_modifier_flag_manager (po_queue (restorer_leave rt ts' oe' fs p1))) m \<longleftrightarrow>
         is_pressed (q_modifier_flag_manager (po_queue p)) m"
proof -
  let ?xs = "q_modifier_flag_manager (po_queue p)" and ?down = "moe_key_down_modifier_flags (po_moe p)"
  obtain inside scoped where sc: "scope_enter ?down ?xs = (inside, scoped)" by fastforce
  let ?ys = "scope_leave inside scoped"
  have inv: "mfm_inv ?xs" "no_lock ?xs" using assms(1) by (simp_all add: queue_inv_def mfm_good_def)
  have log: "scope_log ?xs (inside, scoped)" using scope_log_enter [OF inv, of ?down] sc by simp
  note replay = scope_replay [OF inv(1) log assms(3)]
  have flags: "\<forall>f\<in>set scoped. amf_modifier_flag f \<in> set all_modifier_flags"
    using log_in_enter [of ?down ?xs] sc by (simp add: log_in_def scoped_flags_def all_modifier_flags_def)
  have mfm1: "q_modifier_flag_manager (po_queue p1) = push_all (map posted_flag scoped) ?ys"
    and fs: "fs = get_inverse_active_modifier_flags scoped"
    using assms(4) sc by (auto simp: restorer_enter_def Let_def post_flags_mfm [OF flags])
  note pushed = posted_flags_push [OF replay(4,5), of scoped]
  have "is_pressed (push_all (map posted_flag scoped) ?ys) m = is_pressed inside m"
    using pushed(3) replay(3,6) total_posted [OF replay(1)]
    by (simp add: pressed_no_led [OF pushed(2)] pressed_no_led [OF replay(2)])
  also have "\<dots> = (m \<in> ?down)"
    using scope_enter_pressed [OF inv, of ?down m] sc assms(2) by (simp add: scoped_flags_def all_modifier_flags_def)
  finally show "is_pressed (q_modifier_flag_manager (po_queue p1)) m \<longleftrightarrow> m \<in> ?down" by (simp add: mfm1)
  have fl: "\<forall>f\<in>set fs. amf_modifier_flag f \<in> set all_modifier_flags"
    using flags by (auto simp: fs get_inverse_active_modifier_flags_def mk_amf_def)
  note left = posted_flags_push [OF pushed(1,2), of fs]
  show "is_pressed (q_modifier_flag_manager (po_queue (restorer_leave rt ts' oe' fs p1))) m \<longleftrightarrow> is_pressed ?xs m"
    using left(3) pushed(3) replay(6) total_posted_inverse [of scoped m]
    unfolding restorer_leave_def post_flags_mfm [OF fl] mfm1 pressed_no_led [OF left(2)] pressed_no_led [OF assms(3)]
    by (simp add: fs)
qed

subsection \<open>Properties\<close>

text \<open>
  C29. \<open>to_if_alone\<close> and delayed actions are sent under the modifiers that were down when the input key was
  pressed: after the restorer's constructor exactly these are pressed in the output queue, for every
  modifier without LED lock, and its destructor gives every such modifier the state it had.
\<close>

theorem restorer_forces_key_down_flags:
  assumes "queue_inv (po_queue p)" "m \<in> set all_modifier_flags"
    and "no_led m (q_modifier_flag_manager (po_queue p))"
    and "restorer_enter rt ts oe p = (p1, fs)"
  shows "(is_pressed (q_modifier_flag_manager (po_queue p1)) m \<longleftrightarrow> m \<in> moe_key_down_modifier_flags (po_moe p)) \<and>
    (is_pressed (q_modifier_flag_manager (po_queue (restorer_leave rt ts oe fs p1))) m \<longleftrightarrow>
       is_pressed (q_modifier_flag_manager (po_queue p)) m)"
  using restorer_flags [OF assms] by blast

definition idle_posting :: "manipulated_original_event \<Rightarrow> posting" where
  "idle_posting moe = \<lparr>po_moe = moe, po_delay = 0, po_queue = mk_queue (mk_environment [] plain_configuration),
     po_store = empty_store\<rparr>"

theorem restorer_forces_key_down_flags_witness:
  "let (p, fs) = restorer_enter idle_runtime (mk_ts 0) event_none (idle_posting (mk_moe [] {} 0 {Flag_left_shift}))
   in is_pressed (q_modifier_flag_manager (po_queue p)) Flag_left_shift \<and>
      \<not> is_pressed (q_modifier_flag_manager (po_queue (restorer_leave idle_runtime (mk_ts 0) event_none fs p))) Flag_left_shift"
proof -
  let ?p = "idle_posting (mk_moe [] {} 0 {Flag_left_shift})"
  have q: "queue_inv (po_queue ?p)" "no_led Flag_left_shift (q_modifier_flag_manager (po_queue ?p))"
    by (simp_all add: idle_posting_def queue_inv_def mk_queue_def mfm_good_def mfm_inv_Nil no_lock_def pbm_inv_Nil
        no_led_def)
  obtain p1 fs where r: "restorer_enter idle_runtime (mk_ts 0) event_none ?p = (p1, fs)" by fastforce
  have d: "moe_key_down_modifier_flags (po_moe ?p) = {Flag_left_shift}"
      "q_modifier_flag_manager (po_queue ?p) = []"
    by (simp_all add: idle_posting_def mk_moe_def mk_queue_def)
  show ?thesis
    unfolding Let_def r prod.case
    using restorer_forces_key_down_flags [OF q(1) _ q(2) r] by (simp add: d all_modifier_flags_def)
qed

end
