(* ===== verification/Basic.thy ===== *)
theory Basic
  imports EventSender
begin

text \<open>
  The basic manipulator (\<open>manipulators/basic/*.hpp\<close>): a rule from an input definition to output
  definitions, with its timers. Manipulated events are shared objects in the source; here they live at
  addresses of a store, a shared pointer is an address, and a weak pointer is an address that is valid
  while a shared pointer to it exists. A dispatcher task is armed or not; that it fires is an
  operation of its own. Requests to the dispatcher are taken to be executed at once.
\<close>

subsection \<open>State\<close>

record parameters =
  pa_simultaneous_threshold_milliseconds :: int
  pa_to_if_alone_timeout_milliseconds :: int
  pa_to_if_held_down_threshold_milliseconds :: int
  pa_to_delayed_action_delay_milliseconds :: int
  pa_mouse_motion_to_scroll_speed :: int

record to_if_held_down =
  hd_to :: "to_event_definition list"
  hd_front :: "entry option"
  hd_moe :: "nat option"
  hd_queue :: bool
  hd_armed :: "milliseconds option"

record to_delayed_action =
  da_to_if_invoked :: "to_event_definition list"
  da_to_if_canceled :: "to_event_definition list"
  da_front :: "entry option"
  da_moe :: "nat option"
  da_queue :: bool
  da_armed :: "milliseconds option"

record other_key_entry =
  oe_other_keys :: "from_event_definition list"
  oe_to :: "to_event_definition list"

record to_if_other_key_pressed =
  ok_entries :: "other_key_entry list"
  ok_from_moe :: "nat option"
  ok_from_device_id :: "device_id option"
  ok_queue :: bool
  ok_moe :: "nat option"

record basic_manipulator =
  b_validity :: validity
  b_conditions :: "condition list"
  b_parameters :: parameters
  b_from :: from_event_definition
  b_to :: "to_event_definition list"
  b_to_after_key_up :: "to_event_definition list"
  b_to_if_alone :: "to_event_definition list"
  b_to_if_held_down :: "to_if_held_down option"
  b_to_if_other_key_pressed :: "to_if_other_key_pressed option"
  b_to_delayed_action :: "to_delayed_action option"
  b_manipulated :: "nat list"
  b_moes :: "nat \<Rightarrow> manipulated_original_event"
  b_next :: nat

text \<open>The manipulator with its output queue and the caches of all conditions.\<close>

record world =
  w_basic :: basic_manipulator
  w_queue :: event_queue
  w_store :: condition_store

definition held_by :: "(to_delayed_action option \<Rightarrow> nat option)" where
  "held_by d = (case d of Some x \<Rightarrow> da_moe x | None \<Rightarrow> None)"

definition lock_moe :: "nat option \<Rightarrow> basic_manipulator \<Rightarrow> nat option" where
  "lock_moe a b =
     (case a of
        Some x \<Rightarrow>
          if x \<in> set (b_manipulated b) \<or> held_by (b_to_delayed_action b) = Some x \<or>
             (case b_to_if_other_key_pressed b of Some k \<Rightarrow> ok_moe k = Some x | None \<Rightarrow> False)
          then Some x else None
      | None \<Rightarrow> None)"

definition new_moe :: "manipulated_original_event \<Rightarrow> basic_manipulator \<Rightarrow> nat \<times> basic_manipulator" where
  "new_moe m b = (b_next b, b\<lparr>b_moes := (b_moes b)(b_next b := m), b_next := Suc (b_next b)\<rparr>)"

text \<open>Running a sender on the manipulated event at an address.\<close>

definition with_moe ::
    "nat \<Rightarrow> (posting \<Rightarrow> access_error + posting) \<Rightarrow> time_duration \<Rightarrow> world \<Rightarrow> access_error + time_duration \<times> world" where
  "with_moe a f delay w =
     and_then (f \<lparr>po_moe = b_moes (w_basic w) a, po_delay = delay, po_queue = w_queue w, po_store = w_store w\<rparr>) (\<lambda>p.
       Inr (po_delay p, w\<lparr>w_basic := (w_basic w)\<lparr>b_moes := (b_moes (w_basic w))(a := po_moe p)\<rparr>,
                          w_queue := po_queue p, w_store := po_store p\<rparr>))"

definition site_of :: "entry \<Rightarrow> site" where
  "site_of e = \<lparr>si_device_id = en_device_id e, si_time_stamp = en_event_time_stamp e,
     si_original_event = en_original_event e\<rparr>"

definition context_of :: "entry \<Rightarrow> condition_context" where
  "context_of e = \<lparr>ctx_device_id = en_device_id e, ctx_state = en_state e\<rparr>"

definition from_event_of :: "entry \<Rightarrow> from_event" where
  "from_event_of e = \<lparr>fe_device_id = en_device_id e, fe_event = en_event e, fe_original_event = en_original_event e\<rparr>"

subsection \<open>Sequences of sender calls\<close>

text \<open>Lift the modifiers, press the outputs, and restore the modifiers unless the last output is one.\<close>

definition press_to_events ::
    "runtime \<Rightarrow> site \<Rightarrow> condition_context \<Rightarrow> to_event_definition list \<Rightarrow> posting \<Rightarrow> access_error + posting" where
  "press_to_events rt s ctx ds p =
     and_then (post_events_at_key_down rt s ctx ds (post_from_mandatory_modifiers_key_up rt s p)) (\<lambda>p.
       Inr (if is_last_to_event_modifier_key_event ds then p else post_from_mandatory_modifiers_key_down rt s p))"

definition send_extra ::
    "runtime \<Rightarrow> site \<Rightarrow> condition_context \<Rightarrow> to_event_definition list \<Rightarrow> posting \<Rightarrow> access_error + posting" where
  "send_extra rt s ctx ds p =
     and_then (post_extra_to_events rt s ctx ds (post_from_mandatory_modifiers_key_up rt s p)) (\<lambda>p.
       Inr (post_from_mandatory_modifiers_key_down rt s p))"

definition release_to_events :: "runtime \<Rightarrow> site \<Rightarrow> posting \<Rightarrow> posting" where
  "release_to_events rt s p =
     post_from_mandatory_modifiers_key_down rt s (post_events_at_key_up rt (si_time_stamp s) p)"

definition release_sender :: "runtime \<Rightarrow> site \<Rightarrow> posting \<Rightarrow> access_error + posting" where
  "release_sender rt s p = Inr (release_to_events rt s p)"

subsection \<open>Held down\<close>

definition hd_setup :: "runtime \<Rightarrow> entry \<Rightarrow> nat \<Rightarrow> milliseconds \<Rightarrow> to_if_held_down \<Rightarrow> to_if_held_down" where
  "hd_setup rt front a threshold h =
     (let h1 = h\<lparr>hd_armed := None\<rparr> in
      if en_event_type front \<noteq> Key_down then h1
      else if hd_to h1 = [] then h1
      else h1\<lparr>hd_front := Some front, hd_moe := Some a, hd_queue := True,
              hd_armed := Some (rt_milliseconds_of rt (rt_duration_of rt threshold))\<rparr>)"

definition hd_cancel :: "entry \<Rightarrow> to_if_held_down \<Rightarrow> to_if_held_down" where
  "hd_cancel front h = (if en_event_type front \<noteq> Key_down then h else h\<lparr>hd_armed := None\<rparr>)"

definition hd_post ::
    "runtime \<Rightarrow> entry \<Rightarrow> to_event_definition list \<Rightarrow> posting \<Rightarrow> access_error + posting" where
  "hd_post rt front ds p =
     press_to_events rt (site_of front) (context_of front) ds (release_to_events rt (site_of front) p)"

definition hd_fire :: "runtime \<Rightarrow> world \<Rightarrow> access_error + world" where
  "hd_fire rt w =
     (case b_to_if_held_down (w_basic w) of
        Some h \<Rightarrow>
          if hd_armed h = None then Inr w
          else (let w1 = w\<lparr>w_basic := (w_basic w)\<lparr>b_to_if_held_down := Some (h\<lparr>hd_armed := None\<rparr>)\<rparr>\<rparr> in
                case (hd_front h, hd_queue h, lock_moe (hd_moe h) (w_basic w)) of
                  (Some front, True, Some a) \<Rightarrow>
                    and_then (with_moe a (hd_post rt front (hd_to h)) 0 w1) (\<lambda>(_, w2). Inr w2)
                | _ \<Rightarrow> Inr w1)
      | None \<Rightarrow> Inr w)"

subsection \<open>Delayed action\<close>

definition da_setup :: "runtime \<Rightarrow> entry \<Rightarrow> nat \<Rightarrow> milliseconds \<Rightarrow> to_delayed_action \<Rightarrow> to_delayed_action" where
  "da_setup rt front a delay d =
     (if en_event_type front \<noteq> Key_down then d
      else if da_to_if_invoked d = [] \<and> da_to_if_canceled d = [] then d
      else d\<lparr>da_front := Some front, da_moe := Some a, da_queue := True,
             da_armed := Some (rt_milliseconds_of rt (rt_duration_of rt delay))\<rparr>)"

definition da_post ::
    "runtime \<Rightarrow> entry \<Rightarrow> to_event_definition list \<Rightarrow> posting \<Rightarrow> access_error + posting" where
  "da_post rt front ds p =
     (let s = site_of front; ms = moe_from_mandatory_modifiers (po_moe p);
          (p1, fs) = restorer_enter rt (si_time_stamp s) (si_original_event s) p
      in and_then (post_extra_to_events rt s (context_of front) ds (post_lazy_modifier_key_events rt s Key_up ms p1)) (\<lambda>p2.
           Inr (restorer_leave rt (si_time_stamp s) (si_original_event s) fs
                  (post_lazy_modifier_key_events rt s Key_down ms p2))))"

definition set_delayed_action :: "to_delayed_action \<Rightarrow> world \<Rightarrow> world" where
  "set_delayed_action d w = w\<lparr>w_basic := (w_basic w)\<lparr>b_to_delayed_action := Some d\<rparr>\<rparr>"

definition da_post_events ::
    "runtime \<Rightarrow> to_delayed_action \<Rightarrow> to_event_definition list \<Rightarrow> world \<Rightarrow> access_error + world" where
  "da_post_events rt d ds w =
     and_then
       (case (da_front d, da_moe d, da_queue d) of
          (Some front, Some a, True) \<Rightarrow> with_moe a (da_post rt front ds) 0 w
        | _ \<Rightarrow> Inr (0, w))
       (\<lambda>(_, w1). Inr (set_delayed_action (d\<lparr>da_moe := None\<rparr>) w1))"

definition da_cancel :: "runtime \<Rightarrow> entry \<Rightarrow> world \<Rightarrow> access_error + world" where
  "da_cancel rt front w =
     (case b_to_delayed_action (w_basic w) of
        Some d \<Rightarrow>
          if en_event_type front \<noteq> Key_down then Inr w
          else (let d1 = d\<lparr>da_armed := None\<rparr>
                in da_post_events rt d1 (da_to_if_canceled d1) (set_delayed_action d1 w))
      | None \<Rightarrow> Inr w)"

definition da_fire :: "runtime \<Rightarrow> world \<Rightarrow> access_error + world" where
  "da_fire rt w =
     (case b_to_delayed_action (w_basic w) of
        Some d \<Rightarrow>
          if da_armed d = None then Inr w
          else (let d1 = d\<lparr>da_armed := None\<rparr>
                in da_post_events rt d1 (da_to_if_invoked d1) (set_delayed_action d1 w))
      | None \<Rightarrow> Inr w)"

subsection \<open>Other key pressed\<close>

definition ok_reset :: "to_if_other_key_pressed \<Rightarrow> to_if_other_key_pressed" where
  "ok_reset k = k\<lparr>ok_from_moe := None, ok_from_device_id := None, ok_queue := False, ok_moe := None\<rparr>"

definition ok_setup :: "entry \<Rightarrow> nat \<Rightarrow> to_if_other_key_pressed \<Rightarrow> to_if_other_key_pressed" where
  "ok_setup front a k =
     (if en_event_type front \<noteq> Key_down then k
      else (ok_reset k)\<lparr>ok_from_moe := Some a, ok_from_device_id := Some (en_device_id front), ok_queue := True\<rparr>)"

definition set_other_key :: "to_if_other_key_pressed \<Rightarrow> world \<Rightarrow> world" where
  "set_other_key k w = w\<lparr>w_basic := (w_basic w)\<lparr>b_to_if_other_key_pressed := Some k\<rparr>\<rparr>"

definition ok_handle_from_key_up ::
    "runtime \<Rightarrow> entry \<Rightarrow> to_if_other_key_pressed \<Rightarrow> world \<Rightarrow> access_error + world" where
  "ok_handle_from_key_up rt front k w =
     and_then
       (case (ok_moe k, ok_queue k, ok_from_device_id k) of
          (Some a, True, Some d) \<Rightarrow>
            with_moe a (release_sender rt ((site_of front)\<lparr>si_device_id := d\<rparr>)) 0 w
        | _ \<Rightarrow> Inr (0, w))
       (\<lambda>(_, w1). Inr (set_other_key (ok_reset k) w1))"

text \<open>The first entry with a key that matches and whose first matching key finds its modifiers.\<close>

fun ok_find :: "event \<Rightarrow> modifier_flag_manager \<Rightarrow> other_key_entry list \<Rightarrow> (other_key_entry \<times> modifier_flag set) option" where
  "ok_find e mfm [] = None"
| "ok_find e mfm (x # xs) =
     (case List.find (test_from_event e) (oe_other_keys x) of
        None \<Rightarrow> ok_find e mfm xs
      | Some d \<Rightarrow>
          (case test_modifiers (fd_from_modifiers_definition d) mfm of
             Some ms \<Rightarrow> Some (x, ms)
           | None \<Rightarrow> ok_find e mfm xs))"

definition ok_press ::
    "runtime \<Rightarrow> site \<Rightarrow> condition_context \<Rightarrow> to_event_definition list \<Rightarrow> nat \<Rightarrow> nat \<Rightarrow> world \<Rightarrow> access_error + world" where
  "ok_press rt s ctx ds f a w =
     and_then (with_moe f (release_sender rt s) 0 w) (\<lambda>(delay, w1).
     and_then (with_moe a (press_to_events rt s ctx ds) delay w1) (\<lambda>(_, w2). Inr w2))"

definition ok_handle_other_key_pressed :: "runtime \<Rightarrow> entry \<Rightarrow> world \<Rightarrow> access_error + world" where
  "ok_handle_other_key_pressed rt front w =
     (case b_to_if_other_key_pressed (w_basic w) of
        None \<Rightarrow> Inr w
      | Some k \<Rightarrow>
          if en_event_type front \<noteq> Key_down \<or> ok_moe k \<noteq> None \<or> \<not> ok_queue k then Inr w
          else (let mfm = q_modifier_flag_manager (w_queue w) in
            (case ok_find (en_event front) mfm (ok_entries k) of
               None \<Rightarrow> Inr w
             | Some (x, ms) \<Rightarrow>
                 (let (a, b1) = new_moe (mk_moe [from_event_of front] ms (en_time front) (make_modifier_flags mfm)) (w_basic w);
                      w1 = set_other_key (k\<lparr>ok_moe := Some a\<rparr>) (w\<lparr>w_basic := b1\<rparr>)
                  in (case (lock_moe (ok_from_moe k) (w_basic w), ok_from_device_id k) of
                        (Some f, Some d) \<Rightarrow>
                          ok_press rt ((site_of front)\<lparr>si_device_id := d\<rparr>)
                            \<lparr>ctx_device_id = d, ctx_state = en_state front\<rparr> (oe_to x) f a w1
                      | _ \<Rightarrow> Inr w1)))))"

subsection \<open>Matching the input queue\<close>

definition all_from_events_found :: "from_event_definition \<Rightarrow> from_event list \<Rightarrow> bool" where
  "all_from_events_found fd fes \<longleftrightarrow>
     (\<forall>d\<in>set (fd_event_definitions fd). \<exists>f\<in>set fes. test_event (fe_event f) d)"

record scan =
  sc_target :: bool
  sc_from_events :: "from_event list"
  sc_key_downs :: "event list"
  sc_key_ups :: "event list"

definition scan_entry :: "from_event_definition \<Rightarrow> entry \<Rightarrow> scan \<Rightarrow> scan" where
  "scan_entry fd e s =
     (let fe = from_event_of e in
      case en_event_type e of
        Key_down \<Rightarrow>
          if test_from_event (en_event e) fd then
            (if \<forall>f\<in>set (sc_from_events s). fe_event fe \<noteq> fe_event f
             then s\<lparr>sc_from_events := sc_from_events s @ [fe], sc_key_downs := sc_key_downs s @ [en_event e]\<rparr>
             else s)
          else if \<not> so_detect_key_down_uninterruptedly (fd_simultaneous_options fd) \<and>
                  \<not> all_from_events_found fd (sc_from_events s)
          then s\<lparr>sc_target := False\<rparr> else s
      | Key_up \<Rightarrow>
          if fe \<in> set (sc_from_events s) then
            (if \<not> all_from_events_found fd (sc_from_events s) then s\<lparr>sc_target := False\<rparr>
             else if \<forall>x\<in>set (sc_key_ups s). x \<noteq> en_event e
             then s\<lparr>sc_key_ups := sc_key_ups s @ [en_event e]\<rparr> else s)
          else s
      | Single \<Rightarrow> s)"

fun scan_entries :: "from_event_definition \<Rightarrow> time_point \<Rightarrow> entry list \<Rightarrow> scan \<Rightarrow> scan" where
  "scan_entries fd end_time [] s = s"
| "scan_entries fd end_time (e # es) s =
     (if \<not> sc_target s then s
      else if en_validity e = Invalid then scan_entries fd end_time es s
      else if end_time < en_time e then s
      else scan_entries fd end_time es (scan_entry fd e s))"

text \<open>
  What the scan of the queue decides: no match, a match, or that it depends on what is still to come;
  then the argument says whether all events of the rule have been pressed.
\<close>

datatype decision = No_match | Undecided bool | Match

definition decide :: "from_event_definition \<Rightarrow> scan \<Rightarrow> decision" where
  "decide fd s =
     (let o1 = fd_simultaneous_options fd; ds = fd_event_definitions fd;
          found = all_from_events_found fd (sc_from_events s) in
      if \<not> sc_target s \<or> sc_from_events s = [] then No_match
      else if \<not> test_key_order (sc_key_downs s) (so_key_down_order o1) ds then No_match
      else if so_key_up_order o1 \<noteq> Order_insensitive \<and> \<not> test_key_order (sc_key_ups s) (so_key_up_order o1) ds then No_match
      else if so_key_up_order o1 \<noteq> Order_insensitive \<and> length (sc_key_ups s) < length ds - 1 then Undecided found
      else if found then Match else Undecided found)"

subsection \<open>Manipulating an entry\<close>

datatype manipulate_result = Passed | Manipulated_result | Needs_wait_until_time_stamp

definition update_each :: "('v \<Rightarrow> 'v) \<Rightarrow> nat list \<Rightarrow> (nat \<Rightarrow> 'v) \<Rightarrow> nat \<Rightarrow> 'v" where
  "update_each g as f = fold (\<lambda>a f. f(a := g (f a))) as f"

lemma update_each_apply:
  assumes "\<And>v. g (g v) = g v"
  shows "update_each g as f a = (if a \<in> set as then g (f a) else f a)"
  unfolding update_each_def by (induction as arbitrary: f) (auto simp: assms)

lemma update_each_unset_alone [simp]:
  "update_each unset_alone as f = (\<lambda>a. if a \<in> set as then unset_alone (f a) else f a)"
  by (rule ext, rule update_each_apply) (simp add: unset_alone_def)

lemma update_each_erase [simp]:
  "update_each (erase_from_events_by_device_id d) as f =
     (\<lambda>a. if a \<in> set as then erase_from_events_by_device_id d (f a) else f a)"
  by (rule ext, rule update_each_apply) (simp add: erase_from_events_by_device_id_def)

definition unset_alone_if_needed :: "event \<Rightarrow> event_type \<Rightarrow> basic_manipulator \<Rightarrow> basic_manipulator" where
  "unset_alone_if_needed e t b =
     (if get_if_mse e \<noteq> None \<and> t = Key_down \<or>
         (case get_pointing_motion e of
            Some m \<Rightarrow> pm_vertical_wheel m \<noteq> 0 \<or> pm_horizontal_wheel m \<noteq> 0 | None \<Rightarrow> False)
      then b\<lparr>b_moes := update_each unset_alone (b_manipulated b) (b_moes b)\<rparr>
      else b)"

definition already_manipulated :: "entry \<Rightarrow> basic_manipulator \<Rightarrow> bool" where
  "already_manipulated front b \<longleftrightarrow> en_event_type front = Key_down \<and>
     (\<exists>a\<in>set (b_manipulated b). from_event_exists (from_event_of front) (b_moes b a))"

text \<open>What the rule demands of the entry itself; evaluating the conditions touches the output queue.\<close>

definition entry_conditions ::
    "runtime \<Rightarrow> entry \<Rightarrow> world \<Rightarrow> modifier_flag set option \<times> world" where
  "entry_conditions rt front w =
     (let b = w_basic w in
      if b_validity b = Invalid then (None, w)
      else (case test_modifiers (fd_from_modifiers_definition (b_from b)) (q_modifier_flag_manager (w_queue w)) of
              None \<Rightarrow> (None, w)
            | Some ms \<Rightarrow>
                if (case fd_event_integer_value (b_from b) of
                      Some i \<Rightarrow> Some i \<noteq> en_event_integer_value front | None \<Rightarrow> False) then (None, w)
                else (let (ok, env, st) = conditions_fulfilled rt (context_of front) (b_conditions b)
                             (q_environment (w_queue w), w_store w)
                      in (if ok then Some ms else None,
                          w\<lparr>w_queue := (w_queue w)\<lparr>q_environment := env\<rparr>, w_store := st\<rparr>))))"

datatype key_down_outcome = Not_target | Waiting | Pressed nat

definition wait_for_more :: "runtime \<Rightarrow> entry \<Rightarrow> world \<Rightarrow> world" where
  "wait_for_more rt front w =
     w\<lparr>w_queue := emplace_back_entry rt (en_device_id front) (en_event_time_stamp front)
        make_stop_keyboard_repeat_event Single None (en_original_event front) Virtual_event True Valid (w_queue w)\<rparr>"

definition start_press :: "entry \<Rightarrow> from_event list \<Rightarrow> modifier_flag set \<Rightarrow> world \<Rightarrow> nat \<times> world" where
  "start_press front fes ms w =
     (let (a, b) = new_moe (mk_moe fes ms (en_time front)
             (make_modifier_flags (q_modifier_flag_manager (w_queue w)))) (w_basic w)
      in (a, w\<lparr>w_basic := b\<lparr>b_manipulated := b_manipulated b @ [a]\<rparr>\<rparr>))"

definition match_key_down ::
    "runtime \<Rightarrow> time_point \<Rightarrow> entry list \<Rightarrow> entry \<Rightarrow> world \<Rightarrow> key_down_outcome \<times> entry \<times> world" where
  "match_key_down rt now input front w =
     (let (modifiers, w1) = entry_conditions rt front w in
      case modifiers of
        None \<Rightarrow> (Not_target, front, w1)
      | Some ms \<Rightarrow>
          (let fd = b_from (w_basic w);
               threshold = rt_duration_of rt (pa_simultaneous_threshold_milliseconds (b_parameters (w_basic w)));
               s = scan_entries fd (en_time front + threshold) input
                     \<lparr>sc_target = True, sc_from_events = [], sc_key_downs = [], sc_key_ups = []\<rparr>;
               pressed = (\<lambda>front. let (a, w2) = start_press front (sc_from_events s) ms w1 in (Pressed a, front, w2))
           in case decide fd s of
                No_match \<Rightarrow> (Not_target, front, w1)
              | Match \<Rightarrow> pressed front
              | Undecided found \<Rightarrow>
                  (let ts = en_event_time_stamp front;
                       front1 = front\<lparr>en_event_time_stamp := ts\<lparr>ts_input_delay_duration :=
                                  max (ts_input_delay_duration ts) threshold\<rparr>\<rparr>
                   in if now < make_time_stamp_with_input_delay (en_event_time_stamp front1)
                      then (Waiting, front1, wait_for_more rt front1 w1)
                      else if found then pressed front1 else (Not_target, front1, w1))))"

text \<open>The press a release belongs to; its input event is removed, and the press with its last one.\<close>

definition match_key_up :: "entry \<Rightarrow> basic_manipulator \<Rightarrow> nat option \<times> basic_manipulator" where
  "match_key_up front b =
     (let fe = from_event_of front in
      case List.find (\<lambda>a. from_event_exists fe (b_moes b a)) (b_manipulated b) of
        None \<Rightarrow> (None, b)
      | Some a \<Rightarrow>
          (let m = erase_from_event fe (b_moes b a)
           in (Some a, b\<lparr>b_moes := (b_moes b)(a := m),
                         b_manipulated := (if moe_from_events m = [] then remove1 a (b_manipulated b)
                                           else b_manipulated b)\<rparr>)))"

definition post_to_if_alone :: "runtime \<Rightarrow> entry \<Rightarrow> basic_manipulator \<Rightarrow> posting \<Rightarrow> access_error + posting" where
  "post_to_if_alone rt front b p =
     (let s = site_of front in
      if b_to_if_alone b \<noteq> [] \<and> moe_alone (po_moe p) \<and>
         rt_milliseconds_of rt (en_time front - moe_key_down_time_stamp (po_moe p)) <
           pa_to_if_alone_timeout_milliseconds (b_parameters b)
      then (let (p1, fs) = restorer_enter rt (si_time_stamp s) (si_original_event s) p
            in and_then (send_extra rt s (context_of front) (b_to_if_alone b) p1) (\<lambda>p2.
                 Inr (restorer_leave rt (si_time_stamp s) (si_original_event s) fs p2)))
      else Inr p)"

definition post_first_key_up :: "runtime \<Rightarrow> entry \<Rightarrow> basic_manipulator \<Rightarrow> posting \<Rightarrow> access_error + posting" where
  "post_first_key_up rt front b p =
     (let s = site_of front in
      and_then (post_to_if_alone rt front b (release_to_events rt s (update_moe (set_key_up_posted True) p))) (\<lambda>p1.
        if b_to_after_key_up b \<noteq> [] then send_extra rt s (context_of front) (b_to_after_key_up b) p1 else Inr p1))"

definition post_key_up :: "runtime \<Rightarrow> entry \<Rightarrow> basic_manipulator \<Rightarrow> posting \<Rightarrow> access_error + posting" where
  "post_key_up rt front b p =
     (let o1 = fd_simultaneous_options (b_from b) in
      if so_key_up_when o1 = When_all \<and> moe_from_events (po_moe p) \<noteq> [] then Inr p
      else and_then (if moe_key_up_posted (po_moe p) then Inr p else post_first_key_up rt front b p) (\<lambda>p1.
             if so_to_after_key_up o1 \<noteq> [] \<and> moe_from_events (po_moe p1) = []
             then send_extra rt (site_of front) (context_of front) (so_to_after_key_up o1) p1
             else Inr p1))"

definition post_for_entry :: "runtime \<Rightarrow> entry \<Rightarrow> basic_manipulator \<Rightarrow> posting \<Rightarrow> access_error + posting" where
  "post_for_entry rt front b p =
     (case en_event_type front of
        Key_down \<Rightarrow> press_to_events rt (site_of front) (context_of front) (b_to b) p
      | Key_up \<Rightarrow> post_key_up rt front b p
      | Single \<Rightarrow> Inr p)"

definition setup_held_down :: "runtime \<Rightarrow> entry \<Rightarrow> nat \<Rightarrow> world \<Rightarrow> world" where
  "setup_held_down rt front a w =
     w\<lparr>w_basic := (w_basic w)\<lparr>b_to_if_held_down := map_option
        (hd_setup rt front a (pa_to_if_held_down_threshold_milliseconds (b_parameters (w_basic w))))
        (b_to_if_held_down (w_basic w))\<rparr>\<rparr>"

definition setup_other_key :: "runtime \<Rightarrow> entry \<Rightarrow> nat \<Rightarrow> world \<Rightarrow> access_error + world" where
  "setup_other_key rt front a w =
     (case b_to_if_other_key_pressed (w_basic w) of
        None \<Rightarrow> Inr w
      | Some k \<Rightarrow>
          (case en_event_type front of
             Key_down \<Rightarrow> Inr (set_other_key (ok_setup front a k) w)
           | Key_up \<Rightarrow> ok_handle_from_key_up rt front k w
           | Single \<Rightarrow> Inr w))"

definition setup_delayed_action :: "runtime \<Rightarrow> entry \<Rightarrow> nat \<Rightarrow> world \<Rightarrow> world" where
  "setup_delayed_action rt front a w =
     w\<lparr>w_basic := (w_basic w)\<lparr>b_to_delayed_action := map_option
        (da_setup rt front a (pa_to_delayed_action_delay_milliseconds (b_parameters (w_basic w))))
        (b_to_delayed_action (w_basic w))\<rparr>\<rparr>"

definition apply_delay :: "time_duration \<Rightarrow> world \<Rightarrow> world" where
  "apply_delay delay w =
     (if delay > 0 then w\<lparr>w_queue := increase_time_stamp_delay (delay - 1) (w_queue w)\<rparr> else w)"

text \<open>The entry belongs to the press at the address: post, and set the timers.\<close>

definition handle_current ::
    "runtime \<Rightarrow> entry \<Rightarrow> nat \<Rightarrow> world \<Rightarrow> access_error + world" where
  "handle_current rt front a w =
     and_then (with_moe a (post_for_entry rt front (w_basic w)) 0 w) (\<lambda>(delay, w1).
     and_then (setup_other_key rt front a (setup_held_down rt front a w1)) (\<lambda>w2.
       Inr (apply_delay delay (setup_delayed_action rt front a w2))))"

definition before_match :: "runtime \<Rightarrow> entry \<Rightarrow> world \<Rightarrow> access_error + world" where
  "before_match rt front w =
     da_cancel rt front
       (w\<lparr>w_basic := (unset_alone_if_needed (en_event front) (en_event_type front) (w_basic w))
          \<lparr>b_to_if_held_down := map_option (hd_cancel front) (b_to_if_held_down (w_basic w))\<rparr>\<rparr>)"

definition manipulate ::
    "runtime \<Rightarrow> time_point \<Rightarrow> entry list \<Rightarrow> entry \<Rightarrow> world \<Rightarrow> access_error + manipulate_result \<times> entry \<times> world" where
  "manipulate rt now input front w =
     and_then (before_match rt front w) (\<lambda>w1.
     if en_validity front = Invalid then Inr (Passed, front, w1)
     else and_then (ok_handle_other_key_pressed rt front w1) (\<lambda>w2.
       if \<not> test_from_event (en_event front) (b_from (w_basic w2)) then Inr (Passed, front, w2)
       else (case en_event_type front of
          Key_down \<Rightarrow>
            (let (r, front1, w3) = match_key_down rt now input front w2 in
             case r of
               Not_target \<Rightarrow> Inr (Passed, front1, w3)
             | Waiting \<Rightarrow> Inr (Needs_wait_until_time_stamp, front1, w3)
             | Pressed a \<Rightarrow>
                 (let front2 = front1\<lparr>en_validity := Invalid\<rparr>
                  in and_then (handle_current rt front2 a w3) (\<lambda>w4. Inr (Manipulated_result, front2, w4))))
        | Key_up \<Rightarrow>
            (let (r, b) = match_key_up front (w_basic w2); w3 = w2\<lparr>w_basic := b\<rparr> in
             case r of
               None \<Rightarrow> Inr (Passed, front, w3)
             | Some a \<Rightarrow>
                 (let front2 = front\<lparr>en_validity := Invalid\<rparr>
                  in and_then (handle_current rt front2 a w3) (\<lambda>w4. Inr (Manipulated_result, front2, w4))))
        | Single \<Rightarrow> Inr (Passed, front, w2))))"

subsection \<open>The other operations\<close>

definition b_active :: "basic_manipulator \<Rightarrow> bool" where
  "b_active b \<longleftrightarrow> b_manipulated b \<noteq> []"

definition b_needs_virtual_hid_pointing :: "basic_manipulator \<Rightarrow> bool" where
  "b_needs_virtual_hid_pointing b \<longleftrightarrow>
     list_ex te_needs_virtual_hid_pointing (b_to b @ b_to_after_key_up b @ b_to_if_alone b) \<or>
     (case b_to_if_held_down b of Some h \<Rightarrow> list_ex te_needs_virtual_hid_pointing (hd_to h) | None \<Rightarrow> False) \<or>
     (case b_to_if_other_key_pressed b of
        Some k \<Rightarrow> list_ex (\<lambda>x. list_ex te_needs_virtual_hid_pointing (oe_to x)) (ok_entries k) | None \<Rightarrow> False) \<or>
     (case b_to_delayed_action b of
        Some d \<Rightarrow> list_ex te_needs_virtual_hid_pointing (da_to_if_invoked d @ da_to_if_canceled d) | None \<Rightarrow> False)"

definition b_handle_device_ungrabbed :: "device_id \<Rightarrow> basic_manipulator \<Rightarrow> basic_manipulator" where
  "b_handle_device_ungrabbed d b =
     (let moes = update_each (erase_from_events_by_device_id d) (b_manipulated b) (b_moes b)
      in b\<lparr>b_moes := moes,
           b_manipulated := filter (\<lambda>a. moe_from_events (moes a) \<noteq> []) (b_manipulated b)\<rparr>)"

definition b_handle_pointing_device_event_from_event_tap :: "entry \<Rightarrow> basic_manipulator \<Rightarrow> basic_manipulator" where
  "b_handle_pointing_device_event_from_event_tap front b =
     unset_alone_if_needed (en_original_event front) (en_event_type front) b"

end
