(* ===== verification/Runs.thy ===== *)
theory Runs
  imports Machines Json
begin

text \<open>
  Components whose operations can fail: a run stops at the first error, which ends the process. The
  locale carries an invariant along every successful run.
\<close>

fun run_until :: "('op \<Rightarrow> 's \<Rightarrow> 'e + 's) \<Rightarrow> 'op list \<Rightarrow> 's \<Rightarrow> 'e + 's" where
  "run_until step [] s = Inr s"
| "run_until step (op # ops) s = and_then (step op s) (run_until step ops)"

locale fallible_machine =
  fixes step :: "'op \<Rightarrow> 's \<Rightarrow> 'e + 's"
    and inv :: "'s \<Rightarrow> bool"
    and ok :: "'op \<Rightarrow> bool"
  assumes inv_step: "inv s \<Longrightarrow> ok op \<Longrightarrow> step op s = Inr s' \<Longrightarrow> inv s'"
begin

lemma inv_run: "run_until step ops s = Inr s' \<Longrightarrow> inv s \<Longrightarrow> \<forall>op\<in>set ops. ok op \<Longrightarrow> inv s'"
proof (induction ops arbitrary: s)
  case (Cons op ops)
  then obtain s1 where "step op s = Inr s1" "run_until step ops s1 = Inr s'"
    by (auto simp: and_then_Inr_iff)
  with Cons inv_step show ?case by auto
qed simp

end

end
