(* ===== verification/BasicRuns.thy ===== *)
theory BasicRuns
  imports Basic Runs
begin

text \<open>
  Runs of the basic manipulator: what a rule has pressed in its output queue is what its manipulated
  events still owe, over every order of input entries and expiring timers, and a rule without
  manipulated events has released everything.
\<close>

subsection \<open>Sender sequences keep the accounts\<close>

definition bounded :: "manipulated_original_event \<Rightarrow> bool" where
  "bounded m \<longleftrightarrow> moe_key_up_posted_from_mandatory_modifiers m \<subseteq> moe_from_mandatory_modifiers m"

definition settled :: "manipulated_original_event \<Rightarrow> bool" where
  "settled m \<longleftrightarrow> moe_events_at_key_up m = [] \<and> moe_key_up_posted_from_mandatory_modifiers m = {}"

definition same_input :: "manipulated_original_event \<Rightarrow> manipulated_original_event \<Rightarrow> bool" where
  "same_input m m' \<longleftrightarrow> moe_from_events m' = moe_from_events m \<and>
     moe_from_mandatory_modifiers m' = moe_from_mandatory_modifiers m \<and> moe_key_up_posted m' = moe_key_up_posted m"

lemma settled_owes_nothing: "settled m \<Longrightarrow> owed x m = 0"
  by (simp add: settled_def owed_def)

lemma settled_bounded: "settled m \<Longrightarrow> bounded m"
  by (simp add: settled_def bounded_def)

lemma mk_moe_settled [simp]: "settled (mk_moe fs ms t down)" "bounded (mk_moe fs ms t down)"
  by (simp_all add: settled_def bounded_def mk_moe_def)

lemma mandatory_key_up_moe:
  "same_input (po_moe p) (po_moe (post_from_mandatory_modifiers_key_up rt s p))"
  "bounded (po_moe p) \<Longrightarrow> bounded (po_moe (post_from_mandatory_modifiers_key_up rt s p))"
  "moe_events_at_key_up (po_moe (post_from_mandatory_modifiers_key_up rt s p)) = moe_events_at_key_up (po_moe p)"
  by (auto simp: post_from_mandatory_modifiers_key_up_def Let_def same_input_def bounded_def)

lemma mandatory_key_down_moe:
  "same_input (po_moe p) (po_moe (post_from_mandatory_modifiers_key_down rt s p))"
  "bounded (po_moe p) \<Longrightarrow> moe_key_up_posted_from_mandatory_modifiers (po_moe (post_from_mandatory_modifiers_key_down rt s p)) = {}"
  "moe_events_at_key_up (po_moe (post_from_mandatory_modifiers_key_down rt s p)) = moe_events_at_key_up (po_moe p)"
  by (auto simp: post_from_mandatory_modifiers_key_down_def Let_def same_input_def bounded_def)

lemma same_input_trans [trans]: "same_input a b \<Longrightarrow> same_input b c \<Longrightarrow> same_input a c"
  by (simp add: same_input_def)

lemma same_press_input: "same_press m m' \<Longrightarrow> same_input m m'"
  by (simp add: same_press_def same_input_def)

lemma same_press_bounded: "same_press m m' \<Longrightarrow> bounded m' = bounded m"
  by (simp add: same_press_def bounded_def)

text \<open>What a sender sequence promises: it posts what it presses or owes it, and keeps the input side.\<close>

definition sound_sender :: "(posting \<Rightarrow> access_error + posting) \<Rightarrow> bool" where
  "sound_sender f \<longleftrightarrow> (\<forall>p q. f p = Inr q \<longrightarrow> (\<forall>x. debt x q = debt x p) \<and>
     (bounded (po_moe p) \<longrightarrow> bounded (po_moe q)) \<and>
     moe_from_events (po_moe q) = moe_from_events (po_moe p))"

text \<open>And one that leaves nothing behind.\<close>

definition settling_sender :: "(posting \<Rightarrow> access_error + posting) \<Rightarrow> bool" where
  "settling_sender f \<longleftrightarrow> sound_sender f \<and> (\<forall>p q. f p = Inr q \<longrightarrow> settled (po_moe p) \<longrightarrow>
     settled (po_moe q) \<and> same_input (po_moe p) (po_moe q))"

lemma press_to_events_input: "press_to_events rt s ctx ds p = Inr q \<Longrightarrow> same_input (po_moe p) (po_moe q)"
proof -
  assume a: "press_to_events rt s ctx ds p = Inr q"
  let ?up = "post_from_mandatory_modifiers_key_up rt s p"
  obtain p1 where p1: "post_events_at_key_down rt s ctx ds ?up = Inr p1"
      "q = (if is_last_to_event_modifier_key_event ds then p1 else post_from_mandatory_modifiers_key_down rt s p1)"
    using a by (auto simp: press_to_events_def and_then_Inr_iff)
  have "same_press (po_moe ?up) (po_moe p1)" using on_successD [OF events_at_key_down_same_press p1(1)] .
  then have "same_input (po_moe p) (po_moe p1)"
    using mandatory_key_up_moe(1) same_press_input same_input_trans by blast
  then show ?thesis using p1(2) mandatory_key_down_moe(1) same_input_trans by auto
qed

lemma press_to_events_sound: "walks_sets rt \<Longrightarrow> sound_sender (press_to_events rt s ctx ds)"
proof (unfold sound_sender_def, intro allI impI)
  fix p q
  assume rt: "walks_sets rt" and a: "press_to_events rt s ctx ds p = Inr q"
  let ?up = "post_from_mandatory_modifiers_key_up rt s p"
  obtain p1 where p1: "post_events_at_key_down rt s ctx ds ?up = Inr p1"
      "q = (if is_last_to_event_modifier_key_event ds then p1 else post_from_mandatory_modifiers_key_down rt s p1)"
    using a by (auto simp: press_to_events_def and_then_Inr_iff)
  have "debt x p1 = debt x p" for x
    using on_successD [OF debt_at_key_down p1(1), of x] debt_mandatory_key_up [OF rt] by simp
  then have "debt x q = debt x p" for x using p1(2) debt_mandatory_key_down [OF rt] by simp
  moreover have "bounded (po_moe q)" if "bounded (po_moe p)"
  proof -
    have "bounded (po_moe p1)"
      using that mandatory_key_up_moe(2) same_press_bounded [OF on_successD [OF events_at_key_down_same_press p1(1)]]
      by blast
    then show ?thesis using p1(2) mandatory_key_down_moe(2) [of p1 rt s] by (simp add: bounded_def)
  qed
  ultimately show "(\<forall>x. debt x q = debt x p) \<and> (bounded (po_moe p) \<longrightarrow> bounded (po_moe q)) \<and>
      moe_from_events (po_moe q) = moe_from_events (po_moe p)"
    using press_to_events_input [OF a] by (simp add: same_input_def)
qed

lemma send_extra_settling: "walks_sets rt \<Longrightarrow> settling_sender (send_extra rt s ctx ds)"
proof (unfold settling_sender_def sound_sender_def, intro conjI allI impI)
  fix p q
  assume rt: "walks_sets rt" and a: "send_extra rt s ctx ds p = Inr q"
  let ?up = "post_from_mandatory_modifiers_key_up rt s p"
  obtain p1 where p1: "post_extra_to_events rt s ctx ds ?up = Inr p1"
      "q = post_from_mandatory_modifiers_key_down rt s p1"
    using a by (auto simp: send_extra_def and_then_Inr_iff)
  have sd: "same_debts (po_moe ?up) (po_moe p1)" using on_successD [OF extra_events_same_debts p1(1)] .
  show "debt x q = debt x p" for x
    using on_successD [OF debt_extra p1(1), of x] debt_mandatory_key_up [OF rt] debt_mandatory_key_down [OF rt] p1(2)
    by simp
  have b: "bounded (po_moe p) \<Longrightarrow> bounded (po_moe p1)"
    using sd mandatory_key_up_moe(2) by (auto simp: same_debts_def same_press_bounded)
  then show "bounded (po_moe p) \<Longrightarrow> bounded (po_moe q)"
    using mandatory_key_down_moe(2) [of p1 rt s] p1(2) by (simp add: bounded_def)
  have "same_input (po_moe p) (po_moe p1)"
    using sd mandatory_key_up_moe(1) same_press_input same_input_trans unfolding same_debts_def by blast
  then show inp: "same_input (po_moe p) (po_moe q)"
    using p1(2) mandatory_key_down_moe(1) same_input_trans by blast
  then show "moe_from_events (po_moe q) = moe_from_events (po_moe p)" by (simp add: same_input_def)
  assume st: "settled (po_moe p)"
  then have "moe_events_at_key_up (po_moe q) = []"
    using p1(2) sd mandatory_key_up_moe(3) [of rt s p] mandatory_key_down_moe(3) [of rt s p1]
    by (simp add: settled_def same_debts_def)
  moreover have "moe_key_up_posted_from_mandatory_modifiers (po_moe q) = {}"
    using p1(2) mandatory_key_down_moe(2) [OF b] st by (simp add: settled_bounded)
  ultimately show "settled (po_moe q)" by (simp add: settled_def)
qed

lemma release_to_events_facts:
  assumes "walks_sets rt"
  shows "debt x (release_to_events rt s p) = debt x p"
    and "same_input (po_moe p) (po_moe (release_to_events rt s p))"
    and "bounded (po_moe p) \<Longrightarrow> settled (po_moe (release_to_events rt s p))"
proof -
  let ?p = "post_events_at_key_up rt (si_time_stamp s) p"
  have m: "po_moe ?p = clear_events_at_key_up (po_moe p)" by (rule at_key_up_moe)
  show "debt x (release_to_events rt s p) = debt x p"
    by (simp add: release_to_events_def debt_mandatory_key_down [OF assms] debt_at_key_up)
  have "same_input (po_moe p) (po_moe ?p)" by (simp add: m same_input_def clear_events_at_key_up_def)
  then show "same_input (po_moe p) (po_moe (release_to_events rt s p))"
    unfolding release_to_events_def using mandatory_key_down_moe(1) same_input_trans by blast
  assume "bounded (po_moe p)"
  then have "bounded (po_moe ?p)" by (simp add: m bounded_def clear_events_at_key_up_def)
  then show "settled (po_moe (release_to_events rt s p))"
    using mandatory_key_down_moe(2) [of ?p rt s] mandatory_key_down_moe(3) [of rt s ?p] by (simp add: release_to_events_def settled_def m clear_events_at_key_up_def)
qed

lemma da_post_facts:
  assumes "walks_sets rt" "da_post rt front ds p = Inr q"
  shows "debt x q = debt x p" "same_debts (po_moe p) (po_moe q)"
proof -
  let ?s = "site_of front" and ?ms = "moe_from_mandatory_modifiers (po_moe p)"
  obtain p1 fs where r: "restorer_enter rt (si_time_stamp ?s) (si_original_event ?s) p = (p1, fs)" by fastforce
  obtain p2 where p2: "post_extra_to_events rt ?s (context_of front) ds (post_lazy_modifier_key_events rt ?s Key_up ?ms p1) = Inr p2"
      "q = restorer_leave rt (si_time_stamp ?s) (si_original_event ?s) fs (post_lazy_modifier_key_events rt ?s Key_down ?ms p2)"
    using assms(2) r by (auto simp: da_post_def Let_def and_then_Inr_iff)
  have "debt x p2 = debt x p1 - (\<Sum>f\<in>?ms. lifted x f)"
    using on_successD [OF debt_extra p2(1), of x] debt_lazy_events(2) [OF assms(1)] by simp
  then have "debt x (post_lazy_modifier_key_events rt ?s Key_down ?ms p2) = debt x p1"
    using debt_lazy_events(1) [OF assms(1)] by simp
  then show "debt x q = debt x p" unfolding p2(2) by (rule debt_restorer [OF r])
  show "same_debts (po_moe p) (po_moe q)"
    using on_successD [OF extra_events_same_debts p2(1)] restorer_enter_moe [OF r] p2(2) by simp
qed

lemma to_if_alone_settling: "walks_sets rt \<Longrightarrow> settling_sender (post_to_if_alone rt front b)"
proof (unfold settling_sender_def sound_sender_def, intro conjI allI impI)
  fix p q
  assume rt: "walks_sets rt" and a: "post_to_if_alone rt front b p = Inr q"
  let ?s = "site_of front"
  obtain p1 fs where r: "restorer_enter rt (si_time_stamp ?s) (si_original_event ?s) p = (p1, fs)" by fastforce
  have cases: "q = p \<or> (\<exists>p2. send_extra rt ?s (context_of front) (b_to_if_alone b) p1 = Inr p2 \<and>
      q = restorer_leave rt (si_time_stamp ?s) (si_original_event ?s) fs p2)"
    using a r by (auto simp: post_to_if_alone_def Let_def and_then_Inr_iff split: if_split_asm)
  note se = send_extra_settling [OF rt, of ?s "context_of front" "b_to_if_alone b", unfolded settling_sender_def sound_sender_def]
  note m = restorer_enter_moe [OF r]
  show "debt x q = debt x p" for x using cases se debt_restorer [OF r] by fastforce
  show "bounded (po_moe p) \<Longrightarrow> bounded (po_moe q)" using cases se m by fastforce
  show "moe_from_events (po_moe q) = moe_from_events (po_moe p)" using cases se m by fastforce
  assume "settled (po_moe p)"
  then show "settled (po_moe q)" "same_input (po_moe p) (po_moe q)"
    using cases se m by (fastforce simp: same_input_def)+
qed

lemma settlingD:
  assumes "settling_sender f" "f p = Inr q"
  shows "debt x q = debt x p" "bounded (po_moe p) \<Longrightarrow> bounded (po_moe q)"
    "moe_from_events (po_moe q) = moe_from_events (po_moe p)"
    "settled (po_moe p) \<Longrightarrow> settled (po_moe q)" "settled (po_moe p) \<Longrightarrow> same_input (po_moe p) (po_moe q)"
  using assms by (auto simp: settling_sender_def sound_sender_def)

lemma first_key_up_facts:
  assumes "walks_sets rt" "post_first_key_up rt front b p = Inr q"
  shows "debt x q = debt x p" "moe_from_events (po_moe q) = moe_from_events (po_moe p)"
    "bounded (po_moe p) \<Longrightarrow> settled (po_moe q) \<and> moe_key_up_posted (po_moe q)"
    "bounded (po_moe p) \<Longrightarrow> bounded (po_moe q)"
proof -
  let ?s = "site_of front" and ?p0 = "update_moe (set_key_up_posted True) p"
  let ?p1 = "release_to_events rt ?s ?p0"
  note rel = release_to_events_facts [OF assms(1), where s = ?s and p = ?p0]
  obtain p2 where p2: "post_to_if_alone rt front b ?p1 = Inr p2"
      "(if b_to_after_key_up b \<noteq> [] then send_extra rt ?s (context_of front) (b_to_after_key_up b) p2 else Inr p2) = Inr q"
    using assms(2) by (auto simp: post_first_key_up_def Let_def and_then_Inr_iff)
  note alone = settlingD [OF to_if_alone_settling [OF assms(1)] p2(1)]
  have after: "q = p2 \<or> send_extra rt ?s (context_of front) (b_to_after_key_up b) p2 = Inr q"
    using p2(2) by (auto split: if_split_asm)
  note extra = settlingD [OF send_extra_settling [OF assms(1)], of ?s "context_of front" "b_to_after_key_up b" p2 q]
  have b0: "bounded (po_moe ?p0) = bounded (po_moe p)" by (simp add: bounded_def set_key_up_posted_def)
  show "debt x q = debt x p" using rel(1) alone(1) after extra(1) by (auto simp: debt_update_moe)
  have "moe_from_events (po_moe ?p0) = moe_from_events (po_moe p)" by (simp add: set_key_up_posted_def)
  then show "moe_from_events (po_moe q) = moe_from_events (po_moe p)"
    using rel(2) alone(3) after extra(3) by (auto simp: same_input_def)
  show st: "settled (po_moe q) \<and> moe_key_up_posted (po_moe q)" if "bounded (po_moe p)"
  proof -
    have s1: "settled (po_moe ?p1)" using rel(3) b0 that by simp
    have "moe_key_up_posted (po_moe ?p1)" using rel(2) by (simp add: same_input_def set_key_up_posted_def)
    then have s2: "settled (po_moe p2)" "moe_key_up_posted (po_moe p2)"
      using alone(4,5) [OF s1] by (simp_all add: same_input_def)
    then show ?thesis using after extra(4,5) by (auto simp: same_input_def)
  qed
  then show "bounded (po_moe p) \<Longrightarrow> bounded (po_moe q)" by (simp add: settled_bounded)
qed

lemma key_up_facts:
  assumes "walks_sets rt" "post_key_up rt front b p = Inr q"
  shows "debt x q = debt x p" "moe_from_events (po_moe q) = moe_from_events (po_moe p)"
    "bounded (po_moe p) \<Longrightarrow> bounded (po_moe q)"
    "bounded (po_moe p) \<Longrightarrow> (moe_key_up_posted (po_moe p) \<longrightarrow> settled (po_moe p)) \<Longrightarrow>
       settled (po_moe q) \<or> moe_from_events (po_moe p) \<noteq> [] \<and> q = p"
proof -
  let ?o = "fd_simultaneous_options (b_from b)"
  let ?skip = "so_key_up_when ?o = When_all \<and> moe_from_events (po_moe p) \<noteq> []"
  have "q = p \<and> ?skip \<or> (\<exists>p1. (p1 = p \<and> moe_key_up_posted (po_moe p) \<or> post_first_key_up rt front b p = Inr p1) \<and>
      (q = p1 \<or> send_extra rt (site_of front) (context_of front) (so_to_after_key_up ?o) p1 = Inr q))"
    using assms(2) by (auto simp: post_key_up_def Let_def and_then_Inr_iff split: if_split_asm)
  then consider "q = p" "?skip" | p1 where "p1 = p \<and> moe_key_up_posted (po_moe p) \<or> post_first_key_up rt front b p = Inr p1"
      "q = p1 \<or> send_extra rt (site_of front) (context_of front) (so_to_after_key_up ?o) p1 = Inr q"
    by blast
  note cases = this
  note first = first_key_up_facts [OF assms(1)]
  note extra = settlingD [OF send_extra_settling [OF assms(1)]]
  show "debt x q = debt x p" using cases by cases (metis first(1) extra(1))+
  show "moe_from_events (po_moe q) = moe_from_events (po_moe p)" using cases by cases (metis first(2) extra(3))+
  show "bounded (po_moe p) \<Longrightarrow> bounded (po_moe q)" using cases by cases (metis first(4) extra(2))+
  show "settled (po_moe q) \<or> moe_from_events (po_moe p) \<noteq> [] \<and> q = p"
    if "bounded (po_moe p)" "moe_key_up_posted (po_moe p) \<longrightarrow> settled (po_moe p)"
    using cases
  proof cases
    case 2
    then have "settled (po_moe p1)" using that first(3) by blast
    then show ?thesis using 2(2) extra(4) by blast
  qed simp
qed

lemma post_for_entry_sound: "walks_sets rt \<Longrightarrow> sound_sender (post_for_entry rt front b)"
proof (cases "en_event_type front")
  case Key_down
  moreover assume "walks_sets rt"
  ultimately show ?thesis using press_to_events_sound [of rt "site_of front" "context_of front" "b_to b"]
    by (simp add: sound_sender_def post_for_entry_def)
next
  case Key_up
  moreover assume "walks_sets rt"
  ultimately show ?thesis using key_up_facts(1,2,3)
    by (simp add: sound_sender_def post_for_entry_def)
next
  case Single
  then show ?thesis by (simp add: sound_sender_def post_for_entry_def)
qed

subsection \<open>The accounts of a manipulator\<close>

definition accounts :: "event \<Rightarrow> world \<Rightarrow> int" where
  "accounts x w = balance x (q_events (w_queue w)) + (\<Sum>a<b_next (w_basic w). owed x (b_moes (w_basic w) a))"

definition addresses :: "basic_manipulator \<Rightarrow> nat set" where
  "addresses b = set (b_manipulated b) \<union> set_option (held_by (b_to_delayed_action b)) \<union>
     (case b_to_if_other_key_pressed b of Some k \<Rightarrow> set_option (ok_moe k) | None \<Rightarrow> {})"

definition world_ok :: "world \<Rightarrow> bool" where
  "world_ok w \<longleftrightarrow> (\<forall>a\<in>addresses (w_basic w). a < b_next (w_basic w)) \<and>
     (\<forall>a<b_next (w_basic w). bounded (b_moes (w_basic w) a))"

definition preserves :: "world \<Rightarrow> world \<Rightarrow> bool" where
  "preserves w w' \<longleftrightarrow> (world_ok w \<longrightarrow> world_ok w' \<and> (\<forall>x. accounts x w' = accounts x w))"

lemma preserves_refl [simp]: "preserves w w"
  by (simp add: preserves_def)

lemma preserves_trans [trans]: "preserves u v \<Longrightarrow> preserves v w \<Longrightarrow> preserves u w"
  by (simp add: preserves_def)

lemma lock_moe_address: "lock_moe a b = Some x \<Longrightarrow> x \<in> addresses b"
  by (auto simp: lock_moe_def addresses_def split: option.split_asm if_split_asm)

lemma sum_upd:
  fixes g :: "'m \<Rightarrow> int" and a n :: nat
  assumes "a < n"
  shows "(\<Sum>i<n. g ((f(a := m)) i)) = (\<Sum>i<n. g (f i)) + g m - g (f a)"
proof -
  have n: "{..<n} = insert a ({..<n} - {a})" using assms by auto
  have s: "(\<Sum>i<n. h i) = h a + (\<Sum>i\<in>{..<n} - {a}. h i)" for h :: "nat \<Rightarrow> int"
    by (subst n) (simp add: sum.insert_remove)
  have "(\<Sum>i\<in>{..<n} - {a}. g ((f(a := m)) i)) = (\<Sum>i\<in>{..<n} - {a}. g (f i))" by (rule sum.cong) auto
  then show ?thesis using s [of "\<lambda>i. g ((f(a := m)) i)"] s [of "\<lambda>i. g (f i)"] by simp
qed

text \<open>What a sender leaves of the world when it runs at an address.\<close>

definition set_moe :: "nat \<Rightarrow> posting \<Rightarrow> world \<Rightarrow> world" where
  "set_moe a q w = w\<lparr>w_basic := (w_basic w)\<lparr>b_moes := (b_moes (w_basic w))(a := po_moe q)\<rparr>,
     w_queue := po_queue q, w_store := po_store q\<rparr>"

definition at_address :: "nat \<Rightarrow> time_duration \<Rightarrow> world \<Rightarrow> posting" where
  "at_address a delay w =
     \<lparr>po_moe = b_moes (w_basic w) a, po_delay = delay, po_queue = w_queue w, po_store = w_store w\<rparr>"

lemma with_moe_elim:
  assumes "with_moe a f delay w = Inr (delay', w')"
  obtains q where "f (at_address a delay w) = Inr q" "delay' = po_delay q" "w' = set_moe a q w"
  using assms by (auto simp: with_moe_def and_then_Inr_iff at_address_def set_moe_def)

lemma set_moe_basic [simp]:
  "b_next (w_basic (set_moe a q w)) = b_next (w_basic w)"
  "b_manipulated (w_basic (set_moe a q w)) = b_manipulated (w_basic w)"
  "b_moes (w_basic (set_moe a q w)) = (b_moes (w_basic w))(a := po_moe q)"
  "b_to_if_held_down (w_basic (set_moe a q w)) = b_to_if_held_down (w_basic w)"
  "b_to_if_other_key_pressed (w_basic (set_moe a q w)) = b_to_if_other_key_pressed (w_basic w)"
  "b_to_delayed_action (w_basic (set_moe a q w)) = b_to_delayed_action (w_basic w)"
  "addresses (w_basic (set_moe a q w)) = addresses (w_basic w)"
  by (simp_all add: set_moe_def addresses_def)

lemma with_moe_preserves:
  assumes "sound_sender f" "with_moe a f delay w = Inr (delay', w')" "world_ok w \<Longrightarrow> a < b_next (w_basic w)"
  shows "preserves w w'"
proof (cases "world_ok w")
  case True
  obtain q where q: "f (at_address a delay w) = Inr q" "w' = set_moe a q w"
    using with_moe_elim [OF assms(2)] .
  note f = assms(1) [unfolded sound_sender_def, rule_format, OF q(1)]
  have "accounts x w' = accounts x w" for x
  proof -
    have "balance x (q_events (po_queue q)) + owed x (po_moe q) =
        balance x (q_events (w_queue w)) + owed x (b_moes (w_basic w) a)"
      using f by (simp add: debt_def at_address_def)
    then show ?thesis
      using sum_upd [OF assms(3) [OF True], of "owed x" "b_moes (w_basic w)" "po_moe q"]
      unfolding accounts_def q(2) set_moe_basic by (simp add: set_moe_def del: fun_upd_apply)
  qed
  then show ?thesis using f q(2) by (auto simp: preserves_def world_ok_def at_address_def)
qed (simp add: preserves_def)

text \<open>Steps that only move what a press is about, or what the manipulator points to.\<close>

lemma preserves_frame:
  assumes "q_events (w_queue w') = q_events (w_queue w)" "b_next (w_basic w') = b_next (w_basic w)"
    "addresses (w_basic w') \<subseteq> addresses (w_basic w)"
    "\<And>a x. owed x (b_moes (w_basic w') a) = owed x (b_moes (w_basic w) a)"
    "\<And>a. bounded (b_moes (w_basic w') a) = bounded (b_moes (w_basic w) a)"
  shows "preserves w w'"
  using assms by (auto simp: preserves_def world_ok_def accounts_def)

lemma owed_unset_alone [simp]: "owed x (unset_alone m) = owed x m" "bounded (unset_alone m) = bounded m"
  by (simp_all add: unset_alone_def owed_def bounded_def)

lemma owed_erase [simp]:
  "owed x (erase_from_event fe m) = owed x m" "bounded (erase_from_event fe m) = bounded m"
  "owed x (erase_from_events_by_device_id d m) = owed x m" "bounded (erase_from_events_by_device_id d m) = bounded m"
  by (simp_all add: erase_from_event_def erase_from_events_by_device_id_def owed_def bounded_def)

lemma unset_alone_if_needed_fields [simp]:
  "b_next (unset_alone_if_needed e t b) = b_next b"
  "b_manipulated (unset_alone_if_needed e t b) = b_manipulated b"
  "b_to_delayed_action (unset_alone_if_needed e t b) = b_to_delayed_action b"
  "b_to_if_held_down (unset_alone_if_needed e t b) = b_to_if_held_down b"
  "b_to_if_other_key_pressed (unset_alone_if_needed e t b) = b_to_if_other_key_pressed b"
  "addresses (unset_alone_if_needed e t b) = addresses b"
  "owed x (b_moes (unset_alone_if_needed e t b) a) = owed x (b_moes b a)"
  "bounded (b_moes (unset_alone_if_needed e t b) a) = bounded (b_moes b a)"
  by (simp_all add: unset_alone_if_needed_def addresses_def)

lemma addresses_held_down [simp]: "addresses (b\<lparr>b_to_if_held_down := h\<rparr>) = addresses b"
  by (simp add: addresses_def)

lemma preserves_new_moe:
  assumes "new_moe m (w_basic w) = (a, b)" "settled m" "\<forall>y\<in>addresses b'. y = a \<or> y \<in> addresses (w_basic w)"
    "b_moes b' = b_moes b" "b_next b' = b_next b"
  shows "preserves w (w\<lparr>w_basic := b'\<rparr>)"
proof -
  have a: "a = b_next (w_basic w)" "b_next b' = Suc a" "b_moes b' = (b_moes (w_basic w))(a := m)"
    using assms by (auto simp: new_moe_def)
  have "(\<Sum>i<Suc a. owed x (((b_moes (w_basic w))(a := m)) i)) = (\<Sum>i<a. owed x (b_moes (w_basic w) i))" for x
    by (simp add: settled_owes_nothing [OF assms(2)])
  then show ?thesis
    using assms(3) settled_bounded [OF assms(2)] a
    by (auto simp: preserves_def world_ok_def accounts_def less_Suc_eq simp del: sum.lessThan_Suc)
qed

subsection \<open>Every operation keeps the accounts\<close>

lemma da_post_sound: "walks_sets rt \<Longrightarrow> sound_sender (da_post rt front ds)"
  using da_post_facts by (fastforce simp: sound_sender_def same_debts_def same_press_def bounded_def)

lemma hd_post_sound: "walks_sets rt \<Longrightarrow> sound_sender (hd_post rt front ds)"
  using press_to_events_sound [of rt "site_of front" "context_of front" ds] release_to_events_facts [of rt]
  by (simp add: sound_sender_def hd_post_def same_input_def settled_bounded)

lemma release_sound: "walks_sets rt \<Longrightarrow> sound_sender (release_sender rt s)"
  using release_to_events_facts [of rt] by (simp add: sound_sender_def release_sender_def same_input_def settled_bounded)

lemma set_delayed_action_preserves:
  "da_moe d' = None \<or> b_to_delayed_action (w_basic w) = Some d \<and> da_moe d' = da_moe d \<Longrightarrow> preserves w (set_delayed_action d' w)"
  by (rule preserves_frame) (auto simp: set_delayed_action_def addresses_def held_by_def)

lemma set_other_key_preserves:
  "ok_moe k' = None \<or> b_to_if_other_key_pressed (w_basic w) = Some k \<and> ok_moe k' = ok_moe k \<Longrightarrow> preserves w (set_other_key k' w)"
  by (rule preserves_frame) (auto simp: set_other_key_def addresses_def)

lemma da_post_events_preserves:
  assumes "walks_sets rt" "da_post_events rt d ds w = Inr w'" "b_to_delayed_action (w_basic w) = Some d"
  shows "preserves w w'"
proof -
  obtain delay w1 where w1: "w' = set_delayed_action (d\<lparr>da_moe := None\<rparr>) w1"
      "w1 = w \<or> (\<exists>front a. da_moe d = Some a \<and> with_moe a (da_post rt front ds) 0 w = Inr (delay, w1))"
    using assms(2) unfolding da_post_events_def and_then_Inr_iff
    by (auto split: prod.split_asm option.split_asm bool.split_asm)
  have "preserves w w1" using w1(2)
  proof (elim disjE exE conjE)
    fix front a
    assume "da_moe d = Some a" and p: "with_moe a (da_post rt front ds) 0 w = Inr (delay, w1)"
    then have "a \<in> addresses (w_basic w)" using assms(3) by (simp add: addresses_def held_by_def)
    then show ?thesis using with_moe_preserves [OF da_post_sound [OF assms(1)] p] by (auto simp: world_ok_def)
  qed simp
  also have "preserves w1 w'" unfolding w1(1) by (rule set_delayed_action_preserves) simp
  finally show ?thesis .
qed

lemma da_disarm_post_preserves:
  assumes "walks_sets rt" "b_to_delayed_action (w_basic w) = Some d" "d1 = d\<lparr>da_armed := None\<rparr>"
    "da_post_events rt d1 ds (set_delayed_action d1 w) = Inr w'"
  shows "preserves w w'"
proof -
  have "preserves w (set_delayed_action d1 w)" using assms(2,3) by (auto intro!: set_delayed_action_preserves)
  also have "preserves \<dots> w'"
    using assms(4) by (rule da_post_events_preserves [OF assms(1)]) (simp add: set_delayed_action_def)
  finally show ?thesis .
qed

lemma da_cancel_preserves: "walks_sets rt \<Longrightarrow> da_cancel rt front w = Inr w' \<Longrightarrow> preserves w w'"
  by (auto simp: da_cancel_def Let_def split: option.split_asm if_split_asm intro: da_disarm_post_preserves)

lemma da_fire_preserves: "walks_sets rt \<Longrightarrow> da_fire rt w = Inr w' \<Longrightarrow> preserves w w'"
  by (auto simp: da_fire_def Let_def split: option.split_asm if_split_asm intro: da_disarm_post_preserves)

lemma held_down_preserves: "preserves w (w\<lparr>w_basic := (w_basic w)\<lparr>b_to_if_held_down := h\<rparr>\<rparr>)"
  by (rule preserves_frame) simp_all

definition disarm_held_down :: "to_if_held_down \<Rightarrow> world \<Rightarrow> world" where
  "disarm_held_down h w = w\<lparr>w_basic := (w_basic w)\<lparr>b_to_if_held_down := Some (h\<lparr>hd_armed := None\<rparr>)\<rparr>\<rparr>"

lemma hd_fire_cases:
  assumes "hd_fire rt w = Inr w'"
  obtains "w' = w"
  | h where "b_to_if_held_down (w_basic w) = Some h" "w' = disarm_held_down h w"
  | h front a delay where "b_to_if_held_down (w_basic w) = Some h" "hd_armed h \<noteq> None"
      "lock_moe (hd_moe h) (w_basic w) = Some a"
      "with_moe a (hd_post rt front (hd_to h)) 0 (disarm_held_down h w) = Inr (delay, w')"
proof (cases "b_to_if_held_down (w_basic w)")
  case None
  then show ?thesis using assms that(1) by (simp add: hd_fire_def)
next
  case (Some h)
  show ?thesis
  proof (cases "hd_armed h = None \<or> hd_front h = None \<or> \<not> hd_queue h \<or> lock_moe (hd_moe h) (w_basic w) = None")
    case True
    then have "w' = w \<or> w' = disarm_held_down h w" using assms Some
      by (auto simp: hd_fire_def disarm_held_down_def Let_def split: if_split_asm option.split_asm bool.split_asm)
    then show ?thesis using that(1,2) Some by blast
  next
    case False
    then obtain front a where "hd_front h = Some front" "lock_moe (hd_moe h) (w_basic w) = Some a"
      "hd_armed h \<noteq> None" "hd_queue h" by auto
    moreover from this obtain delay where
        "with_moe a (hd_post rt front (hd_to h)) 0 (disarm_held_down h w) = Inr (delay, w')"
      using assms Some by (auto simp: hd_fire_def disarm_held_down_def and_then_Inr_iff Let_def)
    ultimately show ?thesis using that(3) Some by blast
  qed
qed

lemma disarm_preserves: "preserves w (disarm_held_down h w)"
  unfolding disarm_held_down_def by (rule held_down_preserves)

lemma hd_fire_preserves: "walks_sets rt \<Longrightarrow> hd_fire rt w = Inr w' \<Longrightarrow> preserves w w'"
proof (elim hd_fire_cases)
  fix h front a delay
  assume rt: "walks_sets rt" and a: "lock_moe (hd_moe h) (w_basic w) = Some a"
    and p: "with_moe a (hd_post rt front (hd_to h)) 0 (disarm_held_down h w) = Inr (delay, w')"
  have "preserves (disarm_held_down h w) w'"
    using with_moe_preserves [OF hd_post_sound [OF rt] p] lock_moe_address [OF a]
    by (auto simp: world_ok_def disarm_held_down_def)
  then show ?thesis using disarm_preserves preserves_trans by blast
qed (simp_all add: disarm_preserves)

lemma before_match_preserves:
  assumes "walks_sets rt" "before_match rt front w = Inr w'"
  shows "preserves w w'"
  using da_cancel_preserves [OF assms(1) assms(2) [unfolded before_match_def]]
  by (rule preserves_trans [rotated]) (rule preserves_frame; simp)

lemma ok_handle_from_key_up_preserves:
  assumes "walks_sets rt" "ok_handle_from_key_up rt front k w = Inr w'" "b_to_if_other_key_pressed (w_basic w) = Some k"
  shows "preserves w w'"
proof -
  obtain delay w1 where w1: "w' = set_other_key (ok_reset k) w1"
      "w1 = w \<or> (\<exists>s a. ok_moe k = Some a \<and> with_moe a (release_sender rt s) 0 w = Inr (delay, w1))"
    using assms(2) unfolding ok_handle_from_key_up_def and_then_Inr_iff
    by (auto split: prod.split_asm option.split_asm bool.split_asm)
  have "preserves w w1" using w1(2)
  proof (elim disjE exE conjE)
    fix s a
    assume "ok_moe k = Some a" and p: "with_moe a (release_sender rt s) 0 w = Inr (delay, w1)"
    then have "a \<in> addresses (w_basic w)" using assms(3) by (simp add: addresses_def)
    then show ?thesis using with_moe_preserves [OF release_sound [OF assms(1)] p] by (auto simp: world_ok_def)
  qed simp
  also have "preserves w1 w'" unfolding w1(1) by (rule set_other_key_preserves) (simp add: ok_reset_def)
  finally show ?thesis .
qed

lemma pressed_other_preserves:
  assumes "new_moe m (w_basic w) = (a, b)" "settled m" "b_to_if_other_key_pressed (w_basic w) = Some k"
  shows "preserves w (set_other_key (k\<lparr>ok_moe := Some a\<rparr>) (w\<lparr>w_basic := b\<rparr>))"
proof -
  have "preserves w (w\<lparr>w_basic := b\<lparr>b_to_if_other_key_pressed := Some (k\<lparr>ok_moe := Some a\<rparr>)\<rparr>\<rparr>)"
    by (rule preserves_new_moe [OF assms(1,2)]) (use assms in \<open>auto simp: addresses_def new_moe_def\<close>)
  then show ?thesis by (simp add: set_other_key_def)
qed

lemma ok_find_press_preserves:
  assumes rt: "walks_sets rt" and k: "b_to_if_other_key_pressed (w_basic w) = Some k"
    and n: "new_moe m (w_basic w) = (a, b)" "settled m"
    and w1: "w1 = set_other_key (k\<lparr>ok_moe := Some a\<rparr>) (w\<lparr>w_basic := b\<rparr>)"
    and f: "lock_moe x (w_basic w) = Some f"
    and p: "ok_press rt s ctx ds f a w1 = Inr w'"
  shows "preserves w w'"
proof -
  obtain d1 w2 d2 where w2: "with_moe f (release_sender rt s) 0 w1 = Inr (d1, w2)"
      "with_moe a (press_to_events rt s ctx ds) d1 w2 = Inr (d2, w')"
    using p by (auto simp: ok_press_def and_then_Inr_iff)
  have a: "a = b_next (w_basic w)" and b: "b_next b = Suc a" "addresses b = addresses (w_basic w)"
    using n(1) by (auto simp: new_moe_def addresses_def)
  have next1: "b_next (w_basic w1) = Suc a" using w1 b by (simp add: set_other_key_def)
  have 1: "preserves w w1" unfolding w1 by (rule pressed_other_preserves [OF n k])
  have "f < b_next (w_basic w1)" if "world_ok w" using that next1 lock_moe_address [OF f] a by (auto simp: world_ok_def)
  then have "preserves w w2"
    using with_moe_preserves [OF release_sound [OF rt] w2(1)] 1 by (auto simp: preserves_def)
  moreover have "b_next (w_basic w2) = Suc a" using with_moe_elim [OF w2(1)] next1 by (metis set_moe_basic(1))
  ultimately show ?thesis
    using with_moe_preserves [OF press_to_events_sound [OF rt] w2(2)] preserves_trans by auto
qed

lemma ok_handle_other_key_pressed_preserves:
  assumes rt: "walks_sets rt" and h: "ok_handle_other_key_pressed rt front w = Inr w'"
  shows "preserves w w'"
proof (cases "b_to_if_other_key_pressed (w_basic w)")
  case None
  then show ?thesis using h by (simp add: ok_handle_other_key_pressed_def)
next
  case (Some k)
  let ?mfm = "q_modifier_flag_manager (w_queue w)"
  show ?thesis
  proof (cases "en_event_type front \<noteq> Key_down \<or> ok_moe k \<noteq> None \<or> \<not> ok_queue k \<or>
      ok_find (en_event front) ?mfm (ok_entries k) = None")
    case True
    then show ?thesis using h Some by (auto simp: ok_handle_other_key_pressed_def Let_def split: if_split_asm)
  next
    case False
    then obtain x ms where x: "ok_find (en_event front) ?mfm (ok_entries k) = Some (x, ms)" by auto
    define m where "m = mk_moe [from_event_of front] ms (en_time front) (make_modifier_flags ?mfm)"
    obtain a b where n: "new_moe m (w_basic w) = (a, b)" by fastforce
    define w1 where "w1 = set_other_key (k\<lparr>ok_moe := Some a\<rparr>) (w\<lparr>w_basic := b\<rparr>)"
    note st = n mk_moe_settled(1) [of "[from_event_of front]" ms "en_time front" "make_modifier_flags ?mfm", folded m_def]
    show ?thesis
    proof (cases "lock_moe (ok_from_moe k) (w_basic w) \<noteq> None \<and> ok_from_device_id k \<noteq> None")
      case True
      then show ?thesis using h Some False x n
        by (auto simp: ok_handle_other_key_pressed_def Let_def m_def [symmetric] w1_def [symmetric]
            intro: ok_find_press_preserves [OF rt Some st w1_def])
    next
      case not_locked: False
      then have "w' = w1" using h Some False x n
        by (auto simp: ok_handle_other_key_pressed_def Let_def m_def [symmetric] w1_def split: option.split_asm)
      then show ?thesis unfolding w1_def using pressed_other_preserves [OF st Some] by simp
    qed
  qed
qed

lemma setup_held_down_preserves: "preserves w (setup_held_down rt front a w)"
  unfolding setup_held_down_def by (rule held_down_preserves)

lemma da_setup_moe: "da_moe (da_setup rt front a delay d) \<in> {da_moe d, Some a}"
  by (simp add: da_setup_def)

lemma setup_delayed_action_preserves:
  assumes "a < b_next (w_basic w)"
  shows "preserves w (setup_delayed_action rt front a w)"
proof -
  have "held_by (map_option (da_setup rt front a delay) d) = held_by d \<or>
      held_by (map_option (da_setup rt front a delay) d) = Some a" for delay d
    using da_setup_moe by (cases d) (auto simp: held_by_def)
  then have "addresses (w_basic (setup_delayed_action rt front a w)) \<subseteq> insert a (addresses (w_basic w))"
    by (auto simp: setup_delayed_action_def addresses_def) (metis option.set_intros option.set_cases option.inject)+
  then show ?thesis
    using assms by (auto simp: preserves_def world_ok_def accounts_def setup_delayed_action_def)
qed

lemma setup_other_key_preserves:
  "walks_sets rt \<Longrightarrow> setup_other_key rt front a w = Inr w' \<Longrightarrow> preserves w w'"
  by (auto simp: setup_other_key_def ok_setup_def ok_reset_def split: option.split_asm event_type.split_asm
      intro: ok_handle_from_key_up_preserves set_other_key_preserves)

lemma with_moe_next: "with_moe a f d w = Inr (d', w') \<Longrightarrow> b_next (w_basic w') = b_next (w_basic w)"
  by (elim with_moe_elim) simp

lemma setup_other_key_next: "setup_other_key rt front a w = Inr w' \<Longrightarrow> b_next (w_basic w') = b_next (w_basic w)"
  by (auto simp: setup_other_key_def ok_handle_from_key_up_def set_other_key_def and_then_Inr_iff
      split: option.split_asm event_type.split_asm bool.split_asm dest!: with_moe_next)

lemma apply_delay_preserves: "preserves w (apply_delay d w)"
  by (rule preserves_frame) (simp_all add: apply_delay_def increase_time_stamp_delay_def)

lemma handle_current_preserves:
  assumes "walks_sets rt" "handle_current rt front a w = Inr w'" "world_ok w \<Longrightarrow> a < b_next (w_basic w)"
  shows "preserves w w'"
proof -
  obtain delay w1 w2 where w: "with_moe a (post_for_entry rt front (w_basic w)) 0 w = Inr (delay, w1)"
      "setup_other_key rt front a (setup_held_down rt front a w1) = Inr w2"
      "w' = apply_delay delay (setup_delayed_action rt front a w2)"
    using assms(2) by (auto simp: handle_current_def and_then_Inr_iff)
  have n: "b_next (w_basic w2) = b_next (w_basic w)"
    using with_moe_next [OF w(1)] setup_other_key_next [OF w(2)] by (simp add: setup_held_down_def)
  have "preserves w w1" using with_moe_preserves [OF post_for_entry_sound [OF assms(1)] w(1) assms(3)] .
  also have "preserves w1 (setup_held_down rt front a w1)" by (rule setup_held_down_preserves)
  also have "preserves \<dots> w2" using setup_other_key_preserves [OF assms(1) w(2)] .
  finally have 1: "preserves w w2" .
  have "preserves w (setup_delayed_action rt front a w2)" if "world_ok w"
    using setup_delayed_action_preserves [of a w2 rt front] preserves_trans [OF 1] n assms(3) [OF that] by simp
  then have "preserves w (setup_delayed_action rt front a w2)" by (auto simp: preserves_def)
  also have "preserves \<dots> w'" unfolding w(3) by (rule apply_delay_preserves)
  finally show ?thesis .
qed

lemma entry_conditions_frame:
  assumes "entry_conditions rt front w = (r, w')"
  shows "w_basic w' = w_basic w" "q_events (w_queue w') = q_events (w_queue w)"
  using assms by (auto simp: entry_conditions_def Let_def split: if_split_asm option.split_asm prod.split_asm)

lemma wait_for_more_frame:
  "w_basic (wait_for_more rt front w) = w_basic w"
  "balance x (q_events (w_queue (wait_for_more rt front w))) = balance x (q_events (w_queue w))"
  by (simp_all add: wait_for_more_def emplace_back_entry_def push_back_entry_def Let_def mk_entry_def stroke_def
      make_stop_keyboard_repeat_event_def make_virtual_event_def make_sticky_modifier_event_def mk_event_def)

lemma start_press_preserves:
  assumes "start_press front fes ms w = (a, w')"
  shows "preserves w w'" "a < b_next (w_basic w')"
proof -
  let ?m = "mk_moe fes ms (en_time front) (make_modifier_flags (q_modifier_flag_manager (w_queue w)))"
  obtain b where n: "new_moe ?m (w_basic w) = (a, b)" and
      w': "w' = w\<lparr>w_basic := b\<lparr>b_manipulated := b_manipulated b @ [a]\<rparr>\<rparr>"
    using assms by (auto simp: start_press_def split: prod.split_asm)
  show "preserves w w'" unfolding w'
    by (rule preserves_new_moe [OF n]) (use n in \<open>auto simp: addresses_def new_moe_def\<close>)
  show "a < b_next (w_basic w')" using w' n by (auto simp: new_moe_def)
qed

lemma decide_found: "decide fd s \<noteq> No_match \<Longrightarrow> sc_from_events s \<noteq> []"
  by (auto simp: decide_def)

lemma match_key_down_cases:
  assumes "match_key_down rt now input front w = (r, front', w')"
  obtains w1 where "w_basic w1 = w_basic w" "q_events (w_queue w1) = q_events (w_queue w)"
    "r = Not_target \<and> w' = w1 \<or> r = Waiting \<and> (\<exists>f. w' = wait_for_more rt f w1) \<or>
     (\<exists>a fes ms. r = Pressed a \<and> fes \<noteq> [] \<and> start_press front' fes ms w1 = (a, w'))"
proof -
  obtain mo w1 where e: "entry_conditions rt front w = (mo, w1)" by fastforce
  note found = that [of w1, OF entry_conditions_frame [OF e]]
  show ?thesis
  proof (cases mo)
    case None
    then show ?thesis using found assms e by (simp add: match_key_down_def)
  next
    case (Some ms)
    define s where "s = scan_entries (b_from (w_basic w)) (en_time front +
        rt_duration_of rt (pa_simultaneous_threshold_milliseconds (b_parameters (w_basic w)))) input
      \<lparr>sc_target = True, sc_from_events = [], sc_key_downs = [], sc_key_ups = []\<rparr>"
    have press: thesis if "(let (a, w2) = start_press f (sc_from_events s) ms w1 in (Pressed a, f, w2)) = (r, front', w')"
      "decide (b_from (w_basic w)) s \<noteq> No_match" for f
      using that(1) found decide_found [OF that(2)] by (auto split: prod.split_asm)
    show ?thesis
    proof (cases "decide (b_from (w_basic w)) s")
      case No_match
      then show ?thesis using found assms e Some by (simp add: match_key_down_def s_def)
    next
      case Match
      then have "(r, front', w') = (let (a, w2) = start_press front (sc_from_events s) ms w1 in (Pressed a, front, w2))"
        using assms e Some by (simp only: match_key_down_def Let_def s_def prod.case option.case decision.case)
      then show ?thesis using press [of front] Match by simp
    next
      case (Undecided all)
      define f where "f = front\<lparr>en_event_time_stamp := (en_event_time_stamp front)\<lparr>ts_input_delay_duration :=
          max (ts_input_delay_duration (en_event_time_stamp front))
            (rt_duration_of rt (pa_simultaneous_threshold_milliseconds (b_parameters (w_basic w))))\<rparr>\<rparr>"
      have eq: "(r, front', w') = (if now < make_time_stamp_with_input_delay (en_event_time_stamp f)
          then (Waiting, f, wait_for_more rt f w1)
          else if all then (let (a, w2) = start_press f (sc_from_events s) ms w1 in (Pressed a, f, w2))
          else (Not_target, f, w1))"
        using assms e Some Undecided by (simp only: match_key_down_def Let_def s_def f_def prod.case option.case decision.case)
      show ?thesis
      proof (cases "now < make_time_stamp_with_input_delay (en_event_time_stamp f) \<or> \<not> all")
        case True
        then show ?thesis using found eq by (auto split: if_split_asm)
      next
        case False
        then show ?thesis using press [of f] eq Undecided by simp
      qed
    qed
  qed
qed

lemma match_key_up_cases:
  assumes "match_key_up front b = (r, b')"
  obtains "r = None" "b' = b"
  | a m where "r = Some a" "a \<in> set (b_manipulated b)" "from_event_exists (from_event_of front) (b_moes b a)"
      "m = erase_from_event (from_event_of front) (b_moes b a)"
      "b' = b\<lparr>b_moes := (b_moes b)(a := m),
              b_manipulated := (if moe_from_events m = [] then remove1 a (b_manipulated b) else b_manipulated b)\<rparr>"
  using assms by (fastforce simp: match_key_up_def Let_def find_Some_iff split: option.split_asm)

lemma match_key_up_preserves:
  assumes "match_key_up front (w_basic w) = (r, b')"
  shows "preserves w (w\<lparr>w_basic := b'\<rparr>)"
    and "r = Some a \<Longrightarrow> world_ok w \<Longrightarrow> a < b_next b'"
  using assms by (elim match_key_up_cases; auto intro!: preserves_frame
      dest: notin_set_remove1 simp: addresses_def world_ok_def split: if_split_asm)+

lemma w_basic_self [simp]: "w\<lparr>w_basic := w_basic w\<rparr> = w"
  by simp

lemma match_key_down_preserves:
  assumes "match_key_down rt now input front w = (r, front', w')"
  shows "preserves w w'" "r = Pressed a \<Longrightarrow> a < b_next (w_basic w')"
proof -
  obtain w1 where w1: "w_basic w1 = w_basic w" "q_events (w_queue w1) = q_events (w_queue w)"
    "r = Not_target \<and> w' = w1 \<or> r = Waiting \<and> (\<exists>f. w' = wait_for_more rt f w1) \<or>
     (\<exists>a fes ms. r = Pressed a \<and> fes \<noteq> [] \<and> start_press front' fes ms w1 = (a, w'))"
    using match_key_down_cases [OF assms] by blast
  have 1: "preserves w w1" by (rule preserves_frame) (simp_all add: w1)
  have "preserves w1 w'" using w1(3) start_press_preserves(1)
    by (auto simp: preserves_def world_ok_def accounts_def wait_for_more_frame)
  with 1 show "preserves w w'" by (rule preserves_trans)
  show "r = Pressed a \<Longrightarrow> a < b_next (w_basic w')" using w1(3) start_press_preserves(2) by auto
qed

text \<open>How an entry can go through the manipulator.\<close>

lemma manipulate_cases:
  assumes "manipulate rt now input front w = Inr (r, front', w')"
  obtains (invalid) "before_match rt front w = Inr w'" "en_validity front = Invalid" "r = Passed" "front' = front"
  | (other) w1 where "before_match rt front w = Inr w1" "en_validity front \<noteq> Invalid"
      "ok_handle_other_key_pressed rt front w1 = Inr w'" "r = Passed" "front' = front"
      "\<not> test_from_event (en_event front) (b_from (w_basic w')) \<or> en_event_type front = Single"
  | (down) w1 w2 f v k where "before_match rt front w = Inr w1" "en_validity front \<noteq> Invalid"
      "ok_handle_other_key_pressed rt front w1 = Inr w2" "en_event_type front = Key_down"
      "match_key_down rt now input front w2 = (k, f, v)"
      "k = Not_target \<and> r = Passed \<and> front' = f \<and> w' = v \<or>
       k = Waiting \<and> r = Needs_wait_until_time_stamp \<and> front' = f \<and> w' = v \<or>
       (\<exists>a. k = Pressed a \<and> r = Manipulated_result \<and> front' = f\<lparr>en_validity := Invalid\<rparr> \<and>
          handle_current rt front' a v = Inr w')"
  | (up) w1 w2 b k where "before_match rt front w = Inr w1" "en_validity front \<noteq> Invalid"
      "ok_handle_other_key_pressed rt front w1 = Inr w2" "en_event_type front = Key_up"
      "match_key_up front (w_basic w2) = (k, b)"
      "k = None \<and> r = Passed \<and> front' = front \<and> w' = w2\<lparr>w_basic := b\<rparr> \<or>
       (\<exists>a. k = Some a \<and> r = Manipulated_result \<and> front' = front\<lparr>en_validity := Invalid\<rparr> \<and>
          handle_current rt front' a (w2\<lparr>w_basic := b\<rparr>) = Inr w')"
proof -
  obtain w1 where w1: "before_match rt front w = Inr w1"
    using assms by (auto simp: manipulate_def and_then_Inr_iff)
  show ?thesis
  proof (cases "en_validity front = Invalid")
    case True
    then show ?thesis using invalid assms w1 by (simp add: manipulate_def)
  next
    case valid: False
    obtain w2 where w2: "ok_handle_other_key_pressed rt front w1 = Inr w2"
      using assms w1 valid by (auto simp: manipulate_def and_then_Inr_iff)
    show ?thesis
    proof (cases "\<not> test_from_event (en_event front) (b_from (w_basic w2)) \<or> en_event_type front = Single")
      case True
      then show ?thesis using other [OF w1 valid, of] assms w1 w2 valid by (simp add: manipulate_def split: if_split_asm)
    next
      case False
      then consider (kd) "en_event_type front = Key_down" | (ku) "en_event_type front = Key_up"
        by (cases "en_event_type front") auto
      then show ?thesis
      proof cases
        case kd
        obtain k f v where m: "match_key_down rt now input front w2 = (k, f, v)" by (cases "match_key_down rt now input front w2")
        show ?thesis
          by (rule down [OF w1 valid w2 kd m], cases k)
            (use assms w1 w2 valid False kd m in \<open>auto simp: manipulate_def and_then_Inr_iff Let_def\<close>)
      next
        case ku
        obtain k b where m: "match_key_up front (w_basic w2) = (k, b)" by fastforce
        show ?thesis
          by (rule up [OF w1 valid w2 ku m], cases k)
            (use assms w1 w2 valid False ku m in \<open>auto simp: manipulate_def and_then_Inr_iff Let_def\<close>)
      qed
    qed
  qed
qed

lemma manipulate_preserves:
  assumes rt: "walks_sets rt" and h: "manipulate rt now input front w = Inr (r, front', w')"
  shows "preserves w w'"
proof -
  note before = before_match_preserves [OF rt]
  note both = preserves_trans [OF before ok_handle_other_key_pressed_preserves [OF rt]]
  show ?thesis using h
  proof (cases rule: manipulate_cases)
    case (down w1 w2 f v k)
    have "preserves w v" using both [OF down(1,3)] match_key_down_preserves(1) [OF down(5)] by (rule preserves_trans)
    moreover have "preserves v w'" if "k = Pressed a" "handle_current rt front' a v = Inr w'" for a
      using handle_current_preserves [OF rt that(2)] match_key_down_preserves(2) [OF down(5) that(1)] by simp
    ultimately show ?thesis using down(6) preserves_trans by blast
  next
    case (up w1 w2 b k)
    let ?v = "w2\<lparr>w_basic := b\<rparr>"
    have v: "preserves w ?v" using both [OF up(1,3)] match_key_up_preserves(1) [OF up(5)] by (rule preserves_trans)
    have "preserves w w'" if k: "k = Some a" "handle_current rt front' a ?v = Inr w'" for a
    proof (cases "world_ok w")
      case True
      then have "world_ok w2" using both [OF up(1,3)] by (simp add: preserves_def)
      then show ?thesis using handle_current_preserves [OF rt k(2)] match_key_up_preserves(2) [OF up(5) k(1)] preserves_trans [OF v] by simp
    qed (simp add: preserves_def)
    then show ?thesis using up(6) v by blast
  qed (use before both in blast)+
qed

subsection \<open>Runs\<close>

text \<open>
  The operations a rule sees: entries, its timers, device and event tap notifications, and steps of the
  other components that share the queue and the condition caches. The ghost component counts what the
  rule itself has pressed and not released in the queue, whatever the others do there.
\<close>

datatype rule_op =
    Op_manipulate time_point "entry list" entry
  | Op_held_down
  | Op_delayed_action
  | Op_ungrabbed device_id
  | Op_event_tap entry
  | Op_others event_queue condition_store

definition rule_effect :: "runtime \<Rightarrow> rule_op \<Rightarrow> world \<Rightarrow> access_error + world" where
  "rule_effect rt op w =
     (case op of
        Op_manipulate now input front \<Rightarrow> and_then (manipulate rt now input front w) (\<lambda>(_, _, w'). Inr w')
      | Op_held_down \<Rightarrow> hd_fire rt w
      | Op_delayed_action \<Rightarrow> da_fire rt w
      | Op_ungrabbed d \<Rightarrow> Inr (w\<lparr>w_basic := b_handle_device_ungrabbed d (w_basic w)\<rparr>)
      | Op_event_tap front \<Rightarrow> Inr (w\<lparr>w_basic := b_handle_pointing_device_event_from_event_tap front (w_basic w)\<rparr>)
      | Op_others q st \<Rightarrow> Inr (w\<lparr>w_queue := q, w_store := st\<rparr>))"

definition rule_step ::
    "runtime \<Rightarrow> rule_op \<Rightarrow> world \<times> (event \<Rightarrow> int) \<Rightarrow> access_error + world \<times> (event \<Rightarrow> int)" where
  "rule_step rt op s =
     and_then (rule_effect rt op (fst s)) (\<lambda>w'.
       Inr (w', case op of
          Op_others _ _ \<Rightarrow> snd s
        | _ \<Rightarrow> (\<lambda>x. snd s x + balance x (q_events (w_queue w')) - balance x (q_events (w_queue (fst s))))))"

definition owed_by :: "event \<Rightarrow> basic_manipulator \<Rightarrow> int" where
  "owed_by x b = (\<Sum>a<b_next b. owed x (b_moes b a))"

definition accounted :: "world \<times> (event \<Rightarrow> int) \<Rightarrow> bool" where
  "accounted s \<longleftrightarrow> world_ok (fst s) \<and> (\<forall>x. snd s x + owed_by x (w_basic (fst s)) = 0)"

lemma rule_effect_preserves:
  assumes "walks_sets rt" "rule_effect rt op w = Inr w'" "\<And>q st. op \<noteq> Op_others q st"
  shows "preserves w w'"
proof (cases op)
  case (Op_manipulate now input front)
  then show ?thesis using assms(2) manipulate_preserves [OF assms(1)] by (auto simp: rule_effect_def and_then_Inr_iff)
next
  case (Op_ungrabbed d)
  then show ?thesis using assms(2)
    by (auto simp: rule_effect_def b_handle_device_ungrabbed_def Let_def addresses_def intro!: preserves_frame
        split: if_split_asm)
next
  case (Op_event_tap front)
  then show ?thesis using assms(2)
    by (auto simp: rule_effect_def b_handle_pointing_device_event_from_event_tap_def intro!: preserves_frame)
qed (use assms hd_fire_preserves da_fire_preserves in \<open>auto simp: rule_effect_def\<close>)

lemma rule_step_accounted:
  assumes "walks_sets rt" "accounted s" "rule_step rt op s = Inr s'"
  shows "accounted s'"
proof (cases "\<exists>q st. op = Op_others q st")
  case True
  then show ?thesis using assms by (auto simp: rule_step_def rule_effect_def accounted_def world_ok_def)
next
  case False
  obtain w' where w': "rule_effect rt op (fst s) = Inr w'"
      "s' = (w', \<lambda>x. snd s x + balance x (q_events (w_queue w')) - balance x (q_events (w_queue (fst s))))"
    using assms(3) False by (cases op) (auto simp: rule_step_def and_then_Inr_iff)
  have "preserves (fst s) w'" using rule_effect_preserves [OF assms(1) w'(1)] False by blast
  then show ?thesis using assms(2) w'(2) by (auto simp: accounted_def preserves_def accounts_def owed_by_def algebra_simps)
qed

subsection \<open>Nothing owed without a press\<close>

definition open_press :: "basic_manipulator \<Rightarrow> nat \<Rightarrow> bool" where
  "open_press b a \<longleftrightarrow> a \<in> set (b_manipulated b) \<and> \<not> moe_key_up_posted (b_moes b a)"

text \<open>Every press except possibly the one at hand is settled or still held.\<close>

definition tidy_but :: "nat set \<Rightarrow> basic_manipulator \<Rightarrow> bool" where
  "tidy_but S b \<longleftrightarrow> b_to_if_other_key_pressed b = None \<and> (\<forall>a\<in>addresses b. a < b_next b) \<and>
     (\<forall>a<b_next b. bounded (b_moes b a) \<and> (a \<in> S \<or> settled (b_moes b a) \<or> open_press b a))"

definition held_down_open :: "basic_manipulator \<Rightarrow> bool" where
  "held_down_open b \<longleftrightarrow> (\<forall>h. b_to_if_held_down b = Some h \<longrightarrow> hd_armed h \<noteq> None \<longrightarrow>
     (\<exists>a. hd_moe h = Some a \<and> open_press b a))"

definition tidy :: "basic_manipulator \<Rightarrow> bool" where
  "tidy b \<longleftrightarrow> tidy_but {} b \<and> held_down_open b"

lemma tidy_moes:
  assumes "tidy_but S b" "b_to_if_other_key_pressed b' = b_to_if_other_key_pressed b" "b_manipulated b' = b_manipulated b"
    "b_next b' = b_next b" "addresses b' \<subseteq> insert a (addresses b)" "a < b_next b"
    "\<And>i. moe_key_up_posted (b_moes b' i) = moe_key_up_posted (b_moes b i)"
    "\<And>i. bounded (b_moes b i) \<Longrightarrow> bounded (b_moes b' i)"
    "\<And>i. settled (b_moes b i) \<Longrightarrow> settled (b_moes b' i) \<or> open_press b i"
  shows "tidy_but S b'"
  using assms by (auto simp: tidy_but_def open_press_def) blast+

lemma held_down_openI:
  assumes "held_down_open b" "b_manipulated b' = b_manipulated b"
    "\<And>i. moe_key_up_posted (b_moes b' i) = moe_key_up_posted (b_moes b i)"
    "\<And>h'. b_to_if_held_down b' = Some h' \<Longrightarrow> hd_armed h' \<noteq> None \<Longrightarrow>
       (\<exists>h. b_to_if_held_down b = Some h \<and> hd_armed h \<noteq> None \<and> hd_moe h = hd_moe h') \<or>
       (\<exists>a. hd_moe h' = Some a \<and> open_press b a)"
  shows "held_down_open b'"
  using assms unfolding held_down_open_def open_press_def by metis

lemma tidy_set_moe:
  assumes "tidy (w_basic w)" "a < b_next (w_basic w)"
    "moe_key_up_posted (po_moe q) = moe_key_up_posted (b_moes (w_basic w) a)"
    "bounded (b_moes (w_basic w) a) \<Longrightarrow> bounded (po_moe q)"
    "settled (b_moes (w_basic w) a) \<Longrightarrow> settled (po_moe q) \<or> open_press (w_basic w) a"
  shows "tidy (w_basic (set_moe a q w))"
  unfolding tidy_def
proof
  show "tidy_but {} (w_basic (set_moe a q w))"
    using assms(1) [unfolded tidy_def, THEN conjunct1]
    by (rule tidy_moes [where a = a]) (use assms in \<open>auto\<close>)
  show "held_down_open (w_basic (set_moe a q w))"
    using assms(1) [unfolded tidy_def, THEN conjunct2]
    by (rule held_down_openI) (use assms in \<open>auto\<close>)
qed

lemma tidy_set_delayed_action:
  assumes "tidy (w_basic w)" "da_moe d' = None \<or> b_to_delayed_action (w_basic w) = Some d \<and> da_moe d' = da_moe d"
  shows "tidy (w_basic (set_delayed_action d' w))"
  using assms by (auto simp: tidy_def tidy_but_def held_down_open_def open_press_def set_delayed_action_def
      addresses_def held_by_def)

lemma da_post_events_tidy:
  assumes rt: "walks_sets rt" and h: "da_post_events rt d ds w = Inr w'" "b_to_delayed_action (w_basic w) = Some d"
    and t: "tidy (w_basic w)"
  shows "tidy (w_basic w')"
proof -
  obtain delay w1 where w1: "w' = set_delayed_action (d\<lparr>da_moe := None\<rparr>) w1"
      "w1 = w \<or> (\<exists>front a. da_moe d = Some a \<and> with_moe a (da_post rt front ds) 0 w = Inr (delay, w1))"
    using h(1) unfolding da_post_events_def and_then_Inr_iff
    by (auto split: prod.split_asm option.split_asm bool.split_asm)
  have "tidy (w_basic w1)" using w1(2)
  proof (elim disjE exE conjE)
    fix front a
    assume a: "da_moe d = Some a" and p: "with_moe a (da_post rt front ds) 0 w = Inr (delay, w1)"
    then have "a < b_next (w_basic w)"
      using h(2) t by (auto simp: tidy_def tidy_but_def addresses_def held_by_def)
    moreover obtain q where q: "da_post rt front ds (at_address a 0 w) = Inr q" "w1 = set_moe a q w"
      using with_moe_elim [OF p] by blast
    ultimately show ?thesis using da_post_facts(2) [OF rt q(1)] t
      by (auto simp: q(2) same_debts_def same_press_def at_address_def bounded_def settled_def intro!: tidy_set_moe)
  qed (simp add: t)
  then show ?thesis unfolding w1(1) by (rule tidy_set_delayed_action) simp
qed

lemma da_disarm_post_tidy:
  assumes "walks_sets rt" "b_to_delayed_action (w_basic w) = Some d" "d1 = d\<lparr>da_armed := None\<rparr>"
    "da_post_events rt d1 ds (set_delayed_action d1 w) = Inr w'" "tidy (w_basic w)"
  shows "tidy (w_basic w')"
proof (rule da_post_events_tidy [OF assms(1,4)])
  show "tidy (w_basic (set_delayed_action d1 w))" using assms(2,3,5) by (auto intro!: tidy_set_delayed_action)
qed (simp add: set_delayed_action_def)

lemma da_cancel_tidy: "walks_sets rt \<Longrightarrow> da_cancel rt front w = Inr w' \<Longrightarrow> tidy (w_basic w) \<Longrightarrow> tidy (w_basic w')"
  by (auto simp: da_cancel_def Let_def split: option.split_asm if_split_asm intro: da_disarm_post_tidy)

lemma da_fire_tidy: "walks_sets rt \<Longrightarrow> da_fire rt w = Inr w' \<Longrightarrow> tidy (w_basic w) \<Longrightarrow> tidy (w_basic w')"
  by (auto simp: da_fire_def Let_def split: option.split_asm if_split_asm intro: da_disarm_post_tidy)

lemma disarm_tidy: "tidy (w_basic w) \<Longrightarrow> tidy (w_basic (disarm_held_down h w))"
  by (auto simp: tidy_def tidy_but_def held_down_open_def open_press_def disarm_held_down_def addresses_def)

lemma hd_post_input: "walks_sets rt \<Longrightarrow> hd_post rt front ds p = Inr q \<Longrightarrow> same_input (po_moe p) (po_moe q)"
  unfolding hd_post_def using release_to_events_facts(2) press_to_events_input same_input_trans by blast

lemma hd_fire_tidy: "walks_sets rt \<Longrightarrow> hd_fire rt w = Inr w' \<Longrightarrow> tidy (w_basic w) \<Longrightarrow> tidy (w_basic w')"
proof (elim hd_fire_cases)
  fix h front a delay
  assume rt: "walks_sets rt" and t: "tidy (w_basic w)"
    and h: "b_to_if_held_down (w_basic w) = Some h" "hd_armed h \<noteq> None" "lock_moe (hd_moe h) (w_basic w) = Some a"
    and p: "with_moe a (hd_post rt front (hd_to h)) 0 (disarm_held_down h w) = Inr (delay, w')"
  let ?w = "disarm_held_down h w"
  have "hd_moe h = Some a" using h(3) by (auto simp: lock_moe_def split: option.split_asm if_split_asm)
  then have a: "open_press (w_basic ?w) a"
    using t h(1,2) by (auto simp: tidy_def held_down_open_def open_press_def disarm_held_down_def)
  obtain q where q: "hd_post rt front (hd_to h) (at_address a 0 ?w) = Inr q" "w' = set_moe a q ?w"
    using with_moe_elim [OF p] by blast
  have "a < b_next (w_basic ?w)"
    using t a by (auto simp: tidy_def tidy_but_def addresses_def open_press_def disarm_held_down_def)
  then show "tidy (w_basic w')" unfolding q(2)
    using disarm_tidy [OF t] hd_post_input [OF rt q(1)] a
      hd_post_sound [OF rt, unfolded sound_sender_def, rule_format, OF q(1)]
    by (auto simp: at_address_def same_input_def intro!: tidy_set_moe)
qed (simp_all add: disarm_tidy)

lemma before_match_tidy:
  assumes "walks_sets rt" "before_match rt front w = Inr w'" "tidy (w_basic w)"
  shows "tidy (w_basic w')"
proof (rule da_cancel_tidy [OF assms(1) assms(2) [unfolded before_match_def]])
  let ?b = "unset_alone_if_needed (en_event front) (en_event_type front) (w_basic w)"
  have k: "moe_key_up_posted (b_moes ?b i) = moe_key_up_posted (b_moes (w_basic w) i)"
    "settled (b_moes ?b i) = settled (b_moes (w_basic w) i)" for i
    by (simp_all add: unset_alone_if_needed_def unset_alone_def settled_def)
  have "tidy_but {} ?b" "held_down_open ?b"
    using assms(3) by (auto simp: tidy_def tidy_but_def held_down_open_def open_press_def k)
  then show "tidy (w_basic (w\<lparr>w_basic := ?b\<lparr>b_to_if_held_down := map_option (hd_cancel front) (b_to_if_held_down (w_basic w))\<rparr>\<rparr>))"
    by (auto simp: tidy_def tidy_but_def held_down_open_def open_press_def hd_cancel_def split: if_split_asm)
qed

lemma setup_held_down_tidy:
  assumes "tidy_but {} (w_basic w)" "en_event_type front = Key_down \<Longrightarrow> open_press (w_basic w) a"
  shows "tidy (w_basic (setup_held_down rt front a w))"
  using assms by (auto simp: tidy_def tidy_but_def held_down_open_def open_press_def setup_held_down_def
      hd_setup_def Let_def split: if_split_asm)

lemma setup_delayed_action_tidy:
  assumes "tidy (w_basic w)" "a < b_next (w_basic w)"
  shows "tidy (w_basic (setup_delayed_action rt front a w))"
proof -
  let ?b = "w_basic (setup_delayed_action rt front a w)"
  have "held_by (b_to_delayed_action ?b) \<in> {held_by (b_to_delayed_action (w_basic w)), Some a}"
    by (auto simp: setup_delayed_action_def held_by_def da_setup_def split: option.split)
  then have "addresses ?b \<subseteq> insert a (addresses (w_basic w))"
    by (auto simp: addresses_def setup_delayed_action_def)
  moreover have "tidy_but {} (w_basic w)" using assms(1) by (simp add: tidy_def)
  ultimately have "tidy_but {} ?b"
    by (elim tidy_moes [where a = a]) (use assms(2) in \<open>auto simp: setup_delayed_action_def\<close>)
  then show ?thesis using assms(1)
    by (simp add: tidy_def held_down_open_def open_press_def setup_delayed_action_def)
qed

lemma handle_current_elim:
  assumes "handle_current rt front a w = Inr w'" "b_to_if_other_key_pressed (w_basic w) = None"
  obtains q where "post_for_entry rt front (w_basic w) (at_address a 0 w) = Inr q"
    "w' = apply_delay (po_delay q) (setup_delayed_action rt front a (setup_held_down rt front a (set_moe a q w)))"
proof -
  obtain delay w1 w2 where w: "with_moe a (post_for_entry rt front (w_basic w)) 0 w = Inr (delay, w1)"
      "setup_other_key rt front a (setup_held_down rt front a w1) = Inr w2"
      "w' = apply_delay delay (setup_delayed_action rt front a w2)"
    using assms(1) by (auto simp: handle_current_def and_then_Inr_iff)
  obtain q where q: "post_for_entry rt front (w_basic w) (at_address a 0 w) = Inr q" "delay = po_delay q" "w1 = set_moe a q w"
    using with_moe_elim [OF w(1)] .
  then have "w2 = setup_held_down rt front a w1"
    using w(2) assms(2) by (simp add: setup_other_key_def setup_held_down_def)
  then show ?thesis using that q w(3) by blast
qed

lemma setups_tidy:
  assumes "tidy_but {} (w_basic w)" "en_event_type front = Key_down \<Longrightarrow> open_press (w_basic w) a" "a < b_next (w_basic w)"
  shows "tidy (w_basic (apply_delay d (setup_delayed_action rt front a (setup_held_down rt front a w))))"
proof -
  have "w_basic (apply_delay d v) = w_basic v" for v by (simp add: apply_delay_def)
  then show ?thesis
    using setup_delayed_action_tidy [OF setup_held_down_tidy [OF assms(1,2)]] assms(3) by (simp add: setup_held_down_def)
qed

lemma handle_current_down_tidy:
  assumes rt: "walks_sets rt" and h: "handle_current rt front a w = Inr w'" "en_event_type front = Key_down"
    and t: "tidy (w_basic w)" and a: "open_press (w_basic w) a"
  shows "tidy (w_basic w')"
proof -
  have "b_to_if_other_key_pressed (w_basic w) = None" and n: "a < b_next (w_basic w)"
    using t a by (auto simp: tidy_def tidy_but_def addresses_def open_press_def)
  then obtain q where q: "post_for_entry rt front (w_basic w) (at_address a 0 w) = Inr q"
    "w' = apply_delay (po_delay q) (setup_delayed_action rt front a (setup_held_down rt front a (set_moe a q w)))"
    using handle_current_elim [OF h(1)] by blast
  have "same_input (b_moes (w_basic w) a) (po_moe q)" "bounded (b_moes (w_basic w) a) \<Longrightarrow> bounded (po_moe q)"
    using q(1) h(2) press_to_events_input post_for_entry_sound [OF rt, unfolded sound_sender_def, rule_format, OF q(1)]
    by (fastforce simp: post_for_entry_def at_address_def)+
  then have "tidy (w_basic (set_moe a q w))" "open_press (w_basic (set_moe a q w)) a"
    using tidy_set_moe [OF t n] a by (auto simp: same_input_def open_press_def)
  then show ?thesis unfolding q(2) using n by (intro setups_tidy) (auto simp: tidy_def)
qed

lemma handle_current_up_tidy:
  assumes rt: "walks_sets rt" and h: "handle_current rt front a w = Inr w'" "en_event_type front = Key_up"
    and t: "tidy_but {a} (w_basic w)" and n: "a < b_next (w_basic w)"
    and m: "moe_key_up_posted (b_moes (w_basic w) a) \<longrightarrow> settled (b_moes (w_basic w) a)"
      "a \<in> set (b_manipulated (w_basic w)) \<or> moe_from_events (b_moes (w_basic w) a) = []"
  shows "tidy (w_basic w')"
proof -
  have "b_to_if_other_key_pressed (w_basic w) = None" using t by (simp add: tidy_but_def)
  then obtain q where q: "post_for_entry rt front (w_basic w) (at_address a 0 w) = Inr q"
    "w' = apply_delay (po_delay q) (setup_delayed_action rt front a (setup_held_down rt front a (set_moe a q w)))"
    using handle_current_elim [OF h(1)] by blast
  have b: "bounded (b_moes (w_basic w) a)" using t n by (simp add: tidy_but_def)
  have q1: "post_key_up rt front (w_basic w) (at_address a 0 w) = Inr q" using q(1) h(2) by (simp add: post_for_entry_def)
  have b1: "bounded (po_moe q)" using key_up_facts(3) [OF rt q1] b by (simp add: at_address_def)
  have "settled (po_moe q) \<or> moe_from_events (b_moes (w_basic w) a) \<noteq> [] \<and> q = at_address a 0 w"
    using key_up_facts(4) [OF rt q1] b m(1) by (simp add: at_address_def)
  then have "settled (po_moe q) \<or> open_press (w_basic (set_moe a q w)) a"
    using m by (auto simp: open_press_def at_address_def)
  then have "tidy_but {} (w_basic (set_moe a q w))"
    using t b1 by (auto simp: tidy_but_def open_press_def)
  then show ?thesis unfolding q(2) using n h(2) by (intro setups_tidy) auto
qed

lemma start_press_tidy:
  assumes "start_press front fes ms w = (a, w')" "tidy (w_basic w)"
  shows "tidy (w_basic w')" "open_press (w_basic w') a"
proof -
  let ?m = "mk_moe fes ms (en_time front) (make_modifier_flags (q_modifier_flag_manager (w_queue w)))"
  have b: "w_basic w' = (w_basic w)\<lparr>b_moes := (b_moes (w_basic w))(a := ?m), b_next := Suc a,
      b_manipulated := b_manipulated (w_basic w) @ [a]\<rparr>" "a = b_next (w_basic w)"
    using assms(1) by (auto simp: start_press_def new_moe_def)
  have old: "\<forall>x\<in>addresses (w_basic w). x < a" using assms(2) b(2) by (simp add: tidy_def tidy_but_def)
  have kept: "open_press (w_basic w') i" if "open_press (w_basic w) i" for i
    using that old unfolding b(1) by (auto simp: open_press_def addresses_def)
  show "open_press (w_basic w') a" unfolding b(1) by (simp add: open_press_def mk_moe_def)
  have "tidy_but {} (w_basic w')"
    using assms(2) b(2) old unfolding b(1)
    by (auto simp: tidy_def tidy_but_def open_press_def addresses_def less_Suc_eq)
  moreover have "held_down_open (w_basic w')"
    unfolding held_down_open_def
  proof (intro allI impI)
    fix h
    assume "b_to_if_held_down (w_basic w') = Some h" "hd_armed h \<noteq> None"
    then show "\<exists>a. hd_moe h = Some a \<and> open_press (w_basic w') a"
      using assms(2) kept unfolding tidy_def held_down_open_def b(1) by fastforce
  qed
  ultimately show "tidy (w_basic w')" by (simp add: tidy_def)
qed

lemma match_key_down_tidy:
  assumes "match_key_down rt now input front w = (r, front', w')" "tidy (w_basic w)"
  shows "tidy (w_basic w')" "r = Pressed a \<Longrightarrow> open_press (w_basic w') a"
proof -
  obtain w1 where w1: "w_basic w1 = w_basic w" "q_events (w_queue w1) = q_events (w_queue w)" and
    cases: "r = Not_target \<and> w' = w1 \<or> r = Waiting \<and> (\<exists>f. w' = wait_for_more rt f w1) \<or>
     (\<exists>a fes ms. r = Pressed a \<and> fes \<noteq> [] \<and> start_press front' fes ms w1 = (a, w'))"
    by (rule match_key_down_cases [OF assms(1)])
  have t: "tidy (w_basic w1)" using assms(2) w1 by simp
  from cases have "tidy (w_basic w') \<and> (\<forall>a. r = Pressed a \<longrightarrow> open_press (w_basic w') a)"
  proof (elim disjE exE conjE)
    fix a fes ms
    assume "r = Pressed a" "start_press front' fes ms w1 = (a, w')"
    then show ?thesis using start_press_tidy [of front' fes ms w1 a w'] t by simp
  qed (simp_all add: wait_for_more_frame t)
  then show "tidy (w_basic w')" "r = Pressed a \<Longrightarrow> open_press (w_basic w') a" by auto
qed

lemma match_key_down_type: "match_key_down rt now input front w = (r, f, w') \<Longrightarrow> en_event_type f = en_event_type front"
  by (auto simp: match_key_down_def Let_def split: option.split_asm decision.split_asm if_split_asm prod.split_asm)

lemma match_key_up_tidy:
  assumes "match_key_up front b = (r, b')" "tidy b"
  shows "r = None \<Longrightarrow> tidy b'"
    and "r = Some a \<Longrightarrow> tidy_but {a} b' \<and> a < b_next b' \<and> (moe_key_up_posted (b_moes b' a) \<longrightarrow> settled (b_moes b' a)) \<and>
      (a \<in> set (b_manipulated b') \<or> moe_from_events (b_moes b' a) = [])"
proof -
  show "r = None \<Longrightarrow> tidy b'" using assms by (auto elim: match_key_up_cases)
  assume r: "r = Some a"
  let ?m = "erase_from_event (from_event_of front) (b_moes b a)"
  from assms(1) r have a: "a \<in> set (b_manipulated b)" and b': "b' = b\<lparr>b_moes := (b_moes b)(a := ?m),
      b_manipulated := (if moe_from_events ?m = [] then remove1 a (b_manipulated b) else b_manipulated b)\<rparr>"
    by (auto elim!: match_key_up_cases)
  have n: "a < b_next b" and st: "settled (b_moes b a) \<or> open_press b a" "bounded (b_moes b a)"
    using a assms(2) by (auto simp: tidy_def tidy_but_def addresses_def)
  have e: "moe_key_up_posted ?m = moe_key_up_posted (b_moes b a)" "settled ?m = settled (b_moes b a)"
    by (simp_all add: erase_from_event_def settled_def)
  have in1: "x \<in> set (remove1 a xs) \<longleftrightarrow> x \<in> set xs" if "x \<noteq> a" for x :: nat and xs using that by simp
  have "tidy_but {a} b'"
    using assms(2) st(2) unfolding b'
    by (auto simp: tidy_def tidy_but_def open_press_def addresses_def dest: notin_set_remove1)
  then show "tidy_but {a} b' \<and> a < b_next b' \<and> (moe_key_up_posted (b_moes b' a) \<longrightarrow> settled (b_moes b' a)) \<and>
      (a \<in> set (b_manipulated b') \<or> moe_from_events (b_moes b' a) = [])"
    using n a st(1) e by (auto simp: b' open_press_def)
qed

lemma tidy_other: "tidy b \<Longrightarrow> b_to_if_other_key_pressed b = None"
  by (simp add: tidy_def tidy_but_def)

lemma manipulate_tidy:
  assumes rt: "walks_sets rt" and h: "manipulate rt now input front w = Inr (r, front', w')" and t: "tidy (w_basic w)"
  shows "tidy (w_basic w')"
proof -
  note before = before_match_tidy [OF rt _ t]
  have other: "v' = v" if "before_match rt front w = Inr v" "ok_handle_other_key_pressed rt front v = Inr v'" for v v'
    using tidy_other [OF before [OF that(1)]] that(2) by (simp add: ok_handle_other_key_pressed_def)
  show ?thesis using h
  proof (cases rule: manipulate_cases)
    case (down w1 w2 f v k)
    have t2: "tidy (w_basic w2)" using before [OF down(1)] other [OF down(1,3)] by simp
    note m = match_key_down_tidy [OF down(5) t2]
    have "en_event_type (f\<lparr>en_validity := Invalid\<rparr>) = Key_down" using match_key_down_type [OF down(5)] down(4) by simp
    then show ?thesis using down(6) m handle_current_down_tidy [OF rt] by auto
  next
    case (up w1 w2 b k)
    have t2: "tidy (w_basic w2)" using before [OF up(1)] other [OF up(1,3)] by simp
    note m = match_key_up_tidy [OF up(5) t2]
    have "en_event_type (front\<lparr>en_validity := Invalid\<rparr>) = Key_up" using up(4) by simp
    then show ?thesis using up(6) m handle_current_up_tidy [OF rt] by auto
  qed (use before other in auto)
qed

lemma rule_step_tidy:
  assumes rt: "walks_sets rt" and t: "tidy (w_basic (fst s))" and h: "rule_step rt op s = Inr s'" "\<And>d. op \<noteq> Op_ungrabbed d"
  shows "tidy (w_basic (fst s'))"
proof -
  obtain w' where w': "rule_effect rt op (fst s) = Inr w'" "fst s' = w'"
    using h(1) by (auto simp: rule_step_def and_then_Inr_iff)
  have tap: "tidy (unset_alone_if_needed e ty b)" if "tidy b" for e ty b
    using that by (auto simp: tidy_def tidy_but_def held_down_open_def open_press_def addresses_def
        unset_alone_if_needed_def unset_alone_def settled_def bounded_def)
  show ?thesis using w' t h(2) hd_fire_tidy [OF rt] da_fire_tidy [OF rt] manipulate_tidy [OF rt] tap
    by (cases op) (auto simp: rule_effect_def and_then_Inr_iff b_handle_pointing_device_event_from_event_tap_def)
qed

subsection \<open>Concrete rules\<close>

definition a_key :: "int \<Rightarrow> momentary_switch_event" where
  "a_key u = Mse (mk_pair page_keyboard_or_keypad u)"

definition from_key :: "int \<Rightarrow> from_event_definition" where
  "from_key u = default_from_event_definition\<lparr>fd_event_definitions := [ed_make_from_momentary_switch_event (a_key u)]\<rparr>"

definition to_key :: "int \<Rightarrow> to_event_definition" where
  "to_key u = te_make_from_momentary_switch_event (a_key u) default_to_event_definition"

definition key_rule :: "int \<Rightarrow> to_event_definition list \<Rightarrow> basic_manipulator" where
  "key_rule u tos =
     \<lparr>b_validity = Valid, b_conditions = [],
      b_parameters = \<lparr>pa_simultaneous_threshold_milliseconds = 50, pa_to_if_alone_timeout_milliseconds = 1000,
        pa_to_if_held_down_threshold_milliseconds = 500, pa_to_delayed_action_delay_milliseconds = 500,
        pa_mouse_motion_to_scroll_speed = 100\<rparr>,
      b_from = from_key u, b_to = tos, b_to_after_key_up = [], b_to_if_alone = [],
      b_to_if_held_down = None, b_to_if_other_key_pressed = None, b_to_delayed_action = None,
      b_manipulated = [], b_moes = (\<lambda>_. mk_moe [] {} 0 {}), b_next = 0\<rparr>"

definition idle_world :: "basic_manipulator \<Rightarrow> world" where
  "idle_world b = \<lparr>w_basic = b, w_queue = mk_queue (mk_environment [] plain_configuration), w_store = empty_store\<rparr>"

definition key_entry_of :: "device_id \<Rightarrow> int \<Rightarrow> event_type \<Rightarrow> entry" where
  "key_entry_of d u t = (let e = mse_event (a_key u) in mk_entry d (mk_ts 100) e t None e Original False Valid)"

definition key_op :: "device_id \<Rightarrow> int \<Rightarrow> event_type \<Rightarrow> rule_op" where
  "key_op d u t = Op_manipulate 100 [key_entry_of d u t] (key_entry_of d u t)"

definition posted_after :: "basic_manipulator \<Rightarrow> rule_op list \<Rightarrow> int \<Rightarrow> (nat \<times> int) option" where
  "posted_after b ops u =
     (case run_until (rule_step idle_runtime) ops (idle_world b, \<lambda>_. 0) of
        Inr (w, posted) \<Rightarrow> Some (length (b_manipulated (w_basic w)), posted (mse_event (a_key u))) | Inl _ \<Rightarrow> None)"

definition other_key_rule :: basic_manipulator where
  "other_key_rule = (key_rule 4 [to_key 5])\<lparr>b_to_if_other_key_pressed :=
     Some \<lparr>ok_entries = [\<lparr>oe_other_keys = [from_key 6], oe_to = [to_key 7]\<rparr>], ok_from_moe = None,
       ok_from_device_id = None, ok_queue = False, ok_moe = None\<rparr>\<rparr>"

definition waiting_world :: world where
  "waiting_world = idle_world (other_key_rule\<lparr>b_manipulated := [1], b_next := 2,
     b_moes := (\<lambda>_. mk_moe [] {} 0 {})(0 := (mk_moe [from_event_of (key_entry_of 1 6 Key_down)] {} 100 {})
        \<lparr>moe_events_at_key_up := [\<lparr>ek_device_id = 1, ek_event = mse_event (a_key 7), ek_event_type = Key_up,
          ek_original_event = mse_event (a_key 6), ek_lazy = False\<rparr>]\<rparr>),
     b_to_if_other_key_pressed := Some ((the (b_to_if_other_key_pressed other_key_rule))
       \<lparr>ok_from_moe := Some 1, ok_from_device_id := Some 1, ok_queue := True, ok_moe := Some 0\<rparr>)\<rparr>)"

subsection \<open>Properties\<close>

interpretation accounts_machine: fallible_machine "rule_step rt" accounted "\<lambda>_. walks_sets rt" for rt
  by unfold_locales (rule rule_step_accounted)

interpretation tidy_machine: fallible_machine "rule_step rt" "\<lambda>s. accounted s \<and> tidy (w_basic (fst s))"
    "\<lambda>op. walks_sets rt \<and> (\<forall>d. op \<noteq> Op_ungrabbed d)" for rt
  by unfold_locales (auto intro: rule_step_accounted rule_step_tidy)

definition fresh_rule :: "basic_manipulator \<Rightarrow> bool" where
  "fresh_rule b \<longleftrightarrow> b_next b = 0 \<and> b_manipulated b = [] \<and>
     (case b_to_if_held_down b of Some h \<Rightarrow> hd_armed h = None | None \<Rightarrow> True) \<and>
     (case b_to_if_other_key_pressed b of Some k \<Rightarrow> ok_moe k = None | None \<Rightarrow> True) \<and>
     (case b_to_delayed_action b of Some d \<Rightarrow> da_moe d = None | None \<Rightarrow> True)"

definition is_ungrab :: "rule_op \<Rightarrow> bool" where
  "is_ungrab op = (case op of Op_ungrabbed _ \<Rightarrow> True | _ \<Rightarrow> False)"

lemma fresh_rule_start:
  assumes "fresh_rule (w_basic w)"
  shows "accounted (w, \<lambda>_. 0)" "b_to_if_other_key_pressed (w_basic w) = None \<Longrightarrow> tidy (w_basic w)"
proof -
  have "addresses (w_basic w) = {}"
    using assms by (auto simp: fresh_rule_def addresses_def held_by_def split: option.splits)
  then show "accounted (w, \<lambda>_. 0)" "b_to_if_other_key_pressed (w_basic w) = None \<Longrightarrow> tidy (w_basic w)"
    using assms by (auto simp: accounted_def world_ok_def owed_by_def fresh_rule_def tidy_def tidy_but_def held_down_open_def)
qed

lemma idle_walks_sets: "walks_sets idle_runtime"
  unfolding walks_sets_def idle_runtime_def
proof (simp only: runtime.simps, intro allI conjI)
  fix s :: "modifier_flag set"
  have "x \<in> set (Flag_zero # Flag_end # all_modifier_flags)" for x
    by (cases x) (simp_all add: all_modifier_flags_def)
  then show "set (filter (\<lambda>f. f \<in> s) (Flag_zero # Flag_end # all_modifier_flags)) = s"
    unfolding set_filter by blast
  show "distinct (filter (\<lambda>f. f \<in> s) (Flag_zero # Flag_end # all_modifier_flags))"
    by (rule distinct_filter) (simp add: all_modifier_flags_def)
qed

text \<open>
  C2. The accounts of a rule balance: after any sequence of input entries, expiring timers and changes
  other components make to the queue, what the rule has pressed in the output queue and not released
  yet is exactly what its manipulated events still owe.
\<close>

theorem rule_owes_what_it_pressed:
  assumes "walks_sets rt" "fresh_rule (w_basic w)"
    and "run_until (rule_step rt) ops (w, \<lambda>_. 0) = Inr (w', posted)"
  shows "posted x = - owed_by x (w_basic w')"
proof -
  have "accounted (w', posted)"
    using accounts_machine.inv_run [OF assms(3) fresh_rule_start(1) [OF assms(2)]] assms(1) by simp
  then show ?thesis by (simp add: accounted_def) (metis add_eq_0_iff minus_minus)
qed

theorem rule_owes_what_it_pressed_witness:
  "case run_until (rule_step idle_runtime) [key_op 1 4 Key_down] (idle_world (key_rule 4 [to_key 5]), \<lambda>_. 0) of
     Inr (w', posted) \<Rightarrow> posted (mse_event (a_key 5)) = - owed_by (mse_event (a_key 5)) (w_basic w') \<and>
       posted (mse_event (a_key 5)) = 1
   | Inl _ \<Rightarrow> False"
proof -
  let ?run = "run_until (rule_step idle_runtime) [key_op 1 4 Key_down] (idle_world (key_rule 4 [to_key 5]), \<lambda>_. 0)"
  have p: "posted_after (key_rule 4 [to_key 5]) [key_op 1 4 Key_down] 5 = Some (1, 1)" by code_simp
  then obtain w' posted where r: "?run = Inr (w', posted)" "posted (mse_event (a_key 5)) = 1"
    by (auto simp: posted_after_def split: sum.split_asm)
  have "fresh_rule (w_basic (idle_world (key_rule 4 [to_key 5])))"
    by (simp add: fresh_rule_def idle_world_def key_rule_def)
  from rule_owes_what_it_pressed [OF idle_walks_sets this r(1)] show ?thesis
    unfolding r(1) sum.case prod.case using r(2) by simp
qed

text \<open>
  C1. No key stays pressed: a rule without \<open>to_if_other_key_pressed\<close> whose devices stay grabbed has
  released everything it ever pressed, and undone every modifier it lifted, whenever it has no
  manipulated event left, whatever the order of its input, of its timers and of its conditions.
\<close>

theorem no_stuck_keys:
  assumes "walks_sets rt" "fresh_rule (w_basic w)" "b_to_if_other_key_pressed (w_basic w) = None"
    and "\<not> list_ex is_ungrab ops" "run_until (rule_step rt) ops (w, \<lambda>_. 0) = Inr (w', posted)"
    and "b_manipulated (w_basic w') = []"
  shows "posted x = 0"
proof -
  have "\<forall>op\<in>set ops. walks_sets rt \<and> (\<forall>d. op \<noteq> Op_ungrabbed d)"
    using assms(1,4) by (auto simp: list_ex_iff is_ungrab_def split: rule_op.split_asm)
  then have "accounted (w', posted)" "tidy (w_basic w')"
    using tidy_machine.inv_run [OF assms(5)] fresh_rule_start [OF assms(2)] assms(3) by auto
  then show ?thesis using assms(6) settled_owes_nothing
    by (auto simp: accounted_def tidy_def tidy_but_def open_press_def owed_by_def)
qed

theorem no_stuck_keys_witness:
  "case run_until (rule_step idle_runtime) [key_op 1 4 Key_down, key_op 1 4 Key_up]
      (idle_world (key_rule 4 [to_key 5]), \<lambda>_. 0) of
     Inr (w', posted) \<Rightarrow> b_manipulated (w_basic w') = [] \<and> posted (mse_event (a_key 5)) = 0
   | Inl _ \<Rightarrow> False"
proof -
  let ?ops = "[key_op 1 4 Key_down, key_op 1 4 Key_up]"
  let ?run = "run_until (rule_step idle_runtime) ?ops (idle_world (key_rule 4 [to_key 5]), \<lambda>_. 0)"
  have p: "posted_after (key_rule 4 [to_key 5]) ?ops 5 = Some (0, 0)" by code_simp
  then obtain w' posted where r: "?run = Inr (w', posted)" "b_manipulated (w_basic w') = []"
    by (auto simp: posted_after_def split: sum.split_asm)
  have "fresh_rule (w_basic (idle_world (key_rule 4 [to_key 5])))" "\<not> list_ex is_ungrab ?ops"
      "b_to_if_other_key_pressed (w_basic (idle_world (key_rule 4 [to_key 5]))) = None"
    by (simp_all add: fresh_rule_def idle_world_def key_rule_def is_ungrab_def key_op_def)
  from no_stuck_keys [OF idle_walks_sets this(1,3,2) r] show ?thesis
    unfolding r(1) sum.case prod.case using r(2) by simp
qed

text \<open>
  A rule forgets a pending press of its \<open>to_if_other_key_pressed\<close> when it is pressed a second time,
  say on another keyboard: the press keeps owing its releases, but no operation of the rule can reach
  it any more.
\<close>

theorem second_press_forgets_other_key:
  assumes "b_to_if_other_key_pressed (w_basic w) = Some k" "ok_moe k = Some a" "en_event_type front = Key_down"
    and "a \<notin> set (b_manipulated (w_basic w))" "held_by (b_to_delayed_action (w_basic w)) \<noteq> Some a" "a \<noteq> c"
    and "handle_current rt front c w = Inr w'"
  shows "b_moes (w_basic w') a = b_moes (w_basic w) a \<and> lock_moe (Some a) (w_basic w') = None"
proof -
  obtain delay w1 w2 where w: "with_moe c (post_for_entry rt front (w_basic w)) 0 w = Inr (delay, w1)"
      "setup_other_key rt front c (setup_held_down rt front c w1) = Inr w2"
      "w' = apply_delay delay (setup_delayed_action rt front c w2)"
    using assms(7) by (auto simp: handle_current_def and_then_Inr_iff)
  obtain q where q: "w1 = set_moe c q w" using with_moe_elim [OF w(1)] by blast
  have w2: "w2 = set_other_key (ok_setup front c k) (setup_held_down rt front c w1)"
    using w(2) assms(1,3) q by (simp add: setup_other_key_def setup_held_down_def)
  have "held_by (map_option (da_setup rt front c d) x) \<in> {held_by x, Some c}" for d x
    by (auto simp: held_by_def da_setup_def split: option.split)
  then have "held_by (b_to_delayed_action (w_basic w')) \<in> {held_by (b_to_delayed_action (w_basic w)), Some c}"
    by (simp add: w(3) w2 q apply_delay_def setup_delayed_action_def set_other_key_def setup_held_down_def)
  moreover have "b_moes (w_basic w') = (b_moes (w_basic w))(c := po_moe q)"
      "b_manipulated (w_basic w') = b_manipulated (w_basic w)"
      "b_to_if_other_key_pressed (w_basic w') = Some (ok_setup front c k)"
    by (simp_all add: w(3) w2 q apply_delay_def setup_delayed_action_def set_other_key_def setup_held_down_def)
  moreover have "ok_moe (ok_setup front c k) = None" using assms(3) by (simp add: ok_setup_def ok_reset_def)
  ultimately show ?thesis using assms(4-6) by (auto simp: lock_moe_def)
qed

theorem second_press_forgets_other_key_witness:
  "case handle_current idle_runtime (key_entry_of 2 4 Key_down) 1 waiting_world of
     Inr w' \<Rightarrow> owed (mse_event (a_key 7)) (b_moes (w_basic w') 0) = - 1 \<and> lock_moe (Some 0) (w_basic w') = None
   | Inl _ \<Rightarrow> False"
proof -
  have "case handle_current idle_runtime (key_entry_of 2 4 Key_down) 1 waiting_world of Inr _ \<Rightarrow> True | Inl _ \<Rightarrow> False"
    by code_simp
  then obtain w' where r: "handle_current idle_runtime (key_entry_of 2 4 Key_down) 1 waiting_world = Inr w'"
    by (auto split: sum.split_asm)
  have c: "b_to_if_other_key_pressed (w_basic waiting_world) = Some \<lparr>ok_entries = [\<lparr>oe_other_keys = [from_key 6], oe_to = [to_key 7]\<rparr>],
      ok_from_moe = Some 1, ok_from_device_id = Some 1, ok_queue = True, ok_moe = Some 0\<rparr>"
    "0 \<notin> set (b_manipulated (w_basic waiting_world))" "held_by (b_to_delayed_action (w_basic waiting_world)) \<noteq> Some 0"
    "en_event_type (key_entry_of 2 4 Key_down) = Key_down" "owed (mse_event (a_key 7)) (b_moes (w_basic waiting_world) 0) = - 1"
    by (simp_all add: waiting_world_def idle_world_def other_key_rule_def key_rule_def held_by_def key_entry_of_def
        Let_def owed_def mk_moe_def)
  then show ?thesis
    unfolding r sum.case using second_press_forgets_other_key [OF c(1) _ c(4,2,3) _ r] c(5) by simp
qed

end
