(* ===== verification/BasicInput.thy ===== *)
theory BasicInput
  imports BasicRuns
begin

text \<open>
  How the basic manipulator decides about its input: which entries it takes, how long it waits for the
  other keys of a simultaneous rule, and that it never waits for the rule of a single key.
\<close>

subsection \<open>The scan of the input queue\<close>

lemma all_from_events_found_mono:
  "all_from_events_found fd fs \<Longrightarrow> set fs \<subseteq> set gs \<Longrightarrow> all_from_events_found fd gs"
  by (fastforce simp: all_from_events_found_def)

lemma scan_entry_found:
  assumes "all_from_events_found fd (sc_from_events s)" "sc_target s"
  shows "sc_target (scan_entry fd e s) \<and> all_from_events_found fd (sc_from_events (scan_entry fd e s)) \<and>
    (sc_from_events s \<noteq> [] \<longrightarrow> sc_from_events (scan_entry fd e s) \<noteq> [])"
proof -
  have "all_from_events_found fd (sc_from_events s @ [f])" for f
    using assms(1) by (rule all_from_events_found_mono) auto
  then show ?thesis using assms by (simp add: scan_entry_def Let_def split: event_type.split)
qed

lemma scan_entries_found:
  assumes "all_from_events_found fd (sc_from_events s)" "sc_target s" "sc_from_events s \<noteq> []"
  shows "sc_target (scan_entries fd t es s) \<and> all_from_events_found fd (sc_from_events (scan_entries fd t es s)) \<and>
    sc_from_events (scan_entries fd t es s) \<noteq> []"
  using assms
proof (induction es arbitrary: s)
  case (Cons e es)
  note step = scan_entry_found [OF Cons.prems(1,2), of e]
  show ?case using Cons.prems Cons.IH [of s] Cons.IH [of "scan_entry fd e s"] step by simp
qed simp

definition start_scan :: scan where
  "start_scan = \<lparr>sc_target = True, sc_from_events = [], sc_key_downs = [], sc_key_ups = []\<rparr>"

text \<open>A rule of one key finds it in the entry at hand.\<close>

lemma single_key_decides:
  assumes "fd_event_definitions fd = [d]" "so_key_down_order (fd_simultaneous_options fd) = Order_insensitive"
    "so_key_up_order (fd_simultaneous_options fd) = Order_insensitive"
    and front: "test_from_event (en_event e) fd" "en_event_type e = Key_down" "en_validity e \<noteq> Invalid" "en_time e \<le> t"
  shows "decide fd (scan_entries fd t (e # es) start_scan) = Match"
proof -
  let ?s = "scan_entry fd e start_scan"
  have s: "sc_from_events ?s = [from_event_of e]" "sc_target ?s"
    using front by (simp_all add: scan_entry_def start_scan_def Let_def)
  then have "all_from_events_found fd (sc_from_events ?s)"
    using assms(1) front(1) by (simp add: all_from_events_found_def from_event_of_def test_from_event_def)
  then have "sc_target (scan_entries fd t es ?s) \<and> all_from_events_found fd (sc_from_events (scan_entries fd t es ?s)) \<and>
      sc_from_events (scan_entries fd t es ?s) \<noteq> []"
    using scan_entries_found s by simp
  moreover have "scan_entries fd t (e # es) start_scan = scan_entries fd t es ?s"
    using front by (simp add: start_scan_def)
  ultimately show ?thesis using assms(2,3) by (simp add: decide_def Let_def test_key_order_def)
qed

lemma match_key_down_waiting:
  assumes "match_key_down rt now input front w = (Waiting, front', w')"
  shows "now < make_time_stamp_with_input_delay (en_event_time_stamp front')"
    and "rt_duration_of rt (pa_simultaneous_threshold_milliseconds (b_parameters (w_basic w)))
           \<le> ts_input_delay_duration (en_event_time_stamp front')"
    and "\<exists>all. decide (b_from (w_basic w)) (scan_entries (b_from (w_basic w)) (en_time front +
           rt_duration_of rt (pa_simultaneous_threshold_milliseconds (b_parameters (w_basic w)))) input start_scan)
         = Undecided all"
  using assms by (auto simp: match_key_down_def start_scan_def Let_def
      split: option.split_asm decision.split_asm if_split_asm prod.split_asm)

subsection \<open>What comes before the match leaves the rule alone\<close>

definition same_rule :: "basic_manipulator \<Rightarrow> basic_manipulator \<Rightarrow> bool" where
  "same_rule b b' \<longleftrightarrow> b_from b' = b_from b \<and> b_parameters b' = b_parameters b \<and> b_manipulated b' = b_manipulated b \<and>
     b_next b \<le> b_next b' \<and> (\<forall>a<b_next b. moe_from_events (b_moes b' a) = moe_from_events (b_moes b a))"

lemma same_rule_refl [simp]: "same_rule b b"
  by (simp add: same_rule_def)

lemma same_rule_trans [trans]: "same_rule b c \<Longrightarrow> same_rule c d \<Longrightarrow> same_rule b d"
  by (auto simp: same_rule_def)

lemma with_moe_same_rule:
  assumes "sound_sender f" "with_moe a f delay w = Inr (delay', w')"
  shows "same_rule (w_basic w) (w_basic w')"
proof -
  obtain q where q: "f (at_address a delay w) = Inr q" "w' = set_moe a q w" using with_moe_elim [OF assms(2)] .
  have "moe_from_events (po_moe q) = moe_from_events (b_moes (w_basic w) a)"
    using assms(1) q(1) by (simp add: sound_sender_def at_address_def)
  then show ?thesis by (auto simp: q(2) same_rule_def set_moe_def)
qed

lemma set_delayed_action_same_rule: "same_rule (w_basic w) (w_basic (set_delayed_action d w))"
  by (simp add: same_rule_def set_delayed_action_def)

lemma da_post_events_same_rule:
  assumes "walks_sets rt" "da_post_events rt d ds w = Inr w'"
  shows "same_rule (w_basic w) (w_basic w')"
proof -
  obtain delay w1 where w1: "w' = set_delayed_action (d\<lparr>da_moe := None\<rparr>) w1"
      "w1 = w \<or> (\<exists>front a. with_moe a (da_post rt front ds) 0 w = Inr (delay, w1))"
    using assms(2) unfolding da_post_events_def and_then_Inr_iff
    by (auto split: prod.split_asm option.split_asm bool.split_asm)
  then have "same_rule (w_basic w) (w_basic w1)" using with_moe_same_rule [OF da_post_sound [OF assms(1)]] by auto
  then show ?thesis using w1(1) set_delayed_action_same_rule same_rule_trans by blast
qed

lemma before_match_same_rule:
  assumes rt: "walks_sets rt" and h: "before_match rt front w = Inr w'"
  shows "same_rule (w_basic w) (w_basic w')"
proof -
  let ?w = "w\<lparr>w_basic := (unset_alone_if_needed (en_event front) (en_event_type front) (w_basic w))
      \<lparr>b_to_if_held_down := map_option (hd_cancel front) (b_to_if_held_down (w_basic w))\<rparr>\<rparr>"
  have "same_rule (w_basic w) (w_basic ?w)"
    by (simp add: same_rule_def unset_alone_if_needed_def unset_alone_def)
  also have "w' = ?w \<or> (\<exists>d ds. da_post_events rt d ds (set_delayed_action d ?w) = Inr w')"
    using h by (auto simp: before_match_def da_cancel_def Let_def split: option.split_asm if_split_asm)
  then have "same_rule (w_basic ?w) (w_basic w')"
    using da_post_events_same_rule [OF rt] set_delayed_action_same_rule same_rule_trans by (metis same_rule_refl)
  finally show ?thesis .
qed

lemma ok_handle_same_rule:
  assumes rt: "walks_sets rt" and h: "ok_handle_other_key_pressed rt front w = Inr w'"
  shows "same_rule (w_basic w) (w_basic w')"
proof -
  have press: "same_rule (w_basic v) (w_basic w')" if "ok_press rt s ctx ds f a v = Inr w'" for s ctx ds f a v
    using that with_moe_same_rule [OF release_sound [OF rt]] with_moe_same_rule [OF press_to_events_sound [OF rt]]
      same_rule_trans by (fastforce simp: ok_press_def and_then_Inr_iff)
  have new: "same_rule (w_basic w) (w_basic (set_other_key k (w\<lparr>w_basic := b\<rparr>)))"
    if "new_moe m (w_basic w) = (a, b)" for m a b k
    using that by (auto simp: same_rule_def set_other_key_def new_moe_def)
  show ?thesis
    using h press same_rule_trans [OF new press] new
    by (auto simp: ok_handle_other_key_pressed_def Let_def split: option.split_asm if_split_asm prod.split_asm)
qed

subsection \<open>Properties\<close>

text \<open>
  C4. The wait of a simultaneous rule is bounded: when the clock has reached the time stamp of the entry
  plus its input delay, which is then at least the rule's threshold, the rule decides; and it asks for
  a wait only before that.
\<close>

theorem decides_at_the_deadline:
  assumes "manipulate rt now input front w = Inr (r, front', w')"
    and "en_time front' + ts_input_delay_duration (en_event_time_stamp front') \<le> now"
  shows "r \<noteq> Needs_wait_until_time_stamp"
  using assms(1)
proof (cases rule: manipulate_cases)
  case (down w1 w2 f v k)
  then show ?thesis
    using match_key_down_waiting(1) [of rt now input front w2 f v] assms(2)
    by (auto simp: make_time_stamp_with_input_delay_def en_time_def)
qed auto

definition two_keys_world :: world where
  "two_keys_world = idle_world ((key_rule 4 [to_key 5])\<lparr>b_from := (from_key 4)\<lparr>fd_event_definitions :=
     [ed_make_from_momentary_switch_event (a_key 4), ed_make_from_momentary_switch_event (a_key 6)]\<rparr>\<rparr>)"

definition result_of :: "access_error + manipulate_result \<times> entry \<times> world \<Rightarrow> (manipulate_result \<times> entry) option" where
  "result_of x = (case x of Inr (r, f, _) \<Rightarrow> Some (r, f) | Inl _ \<Rightarrow> None)"

lemma result_of_Some: "result_of x = Some (r, f) \<Longrightarrow> \<exists>w. x = Inr (r, f, w)"
  by (auto simp: result_of_def split: sum.split_asm)

theorem decides_at_the_deadline_witness:
  "let e = key_entry_of 1 4 Key_down in
     map_option fst (result_of (manipulate idle_runtime 100 [e] e two_keys_world)) = Some Needs_wait_until_time_stamp \<and>
     (\<exists>r f w'. manipulate idle_runtime 50000100 [e] e two_keys_world = Inr (r, f, w') \<and> r \<noteq> Needs_wait_until_time_stamp)"
proof -
  let ?e = "key_entry_of 1 4 Key_down"
  have 1: "map_option fst (result_of (manipulate idle_runtime 100 [?e] ?e two_keys_world)) = Some Needs_wait_until_time_stamp"
    by code_simp
  have "case result_of (manipulate idle_runtime 50000100 [?e] ?e two_keys_world) of
      Some (_, f) \<Rightarrow> en_time f + ts_input_delay_duration (en_event_time_stamp f) \<le> 50000100 | None \<Rightarrow> False"
    by code_simp
  then obtain r f where 2: "result_of (manipulate idle_runtime 50000100 [?e] ?e two_keys_world) = Some (r, f)"
      "en_time f + ts_input_delay_duration (en_event_time_stamp f) \<le> 50000100"
    by (auto split: option.split_asm)
  obtain w' where "manipulate idle_runtime 50000100 [?e] ?e two_keys_world = Inr (r, f, w')"
    using result_of_Some [OF 2(1)] by blast
  with 1 2(2) decides_at_the_deadline [OF this] show ?thesis by (simp add: Let_def)
qed

text \<open>A rule for a single key never makes the input wait.\<close>

theorem single_key_rule_never_waits:
  assumes "walks_sets rt" "fd_event_definitions (b_from (w_basic w)) = [d]"
    and "so_key_down_order (fd_simultaneous_options (b_from (w_basic w))) = Order_insensitive"
    and "so_key_up_order (fd_simultaneous_options (b_from (w_basic w))) = Order_insensitive"
    and "0 \<le> rt_duration_of rt (pa_simultaneous_threshold_milliseconds (b_parameters (w_basic w)))"
    and "manipulate rt now (front # rest) front w = Inr (r, front', w')"
  shows "r \<noteq> Needs_wait_until_time_stamp"
proof
  assume r: "r = Needs_wait_until_time_stamp"
  show False using assms(6)
  proof (cases rule: manipulate_cases)
    case (down w1 w2 f v k)
    have s: "same_rule (w_basic w) (w_basic w2)"
      using before_match_same_rule [OF assms(1) down(1)] ok_handle_same_rule [OF assms(1) down(3)] same_rule_trans by blast
    have k: "k = Waiting" using down(6) r by auto
    have t: "test_from_event (en_event front) (b_from (w_basic w2))"
      using assms(6) down(1-4) r by (auto simp: manipulate_def split: if_split_asm)
    obtain all where "decide (b_from (w_basic w2)) (scan_entries (b_from (w_basic w2)) (en_time front +
        rt_duration_of rt (pa_simultaneous_threshold_milliseconds (b_parameters (w_basic w2)))) (front # rest) start_scan)
        = Undecided all"
      using match_key_down_waiting(3) [OF down(5) [unfolded k]] by blast
    then show False
      using single_key_decides [of "b_from (w_basic w2)" d front] s assms(2-5) t down(2,4)
      by (simp add: same_rule_def)
  qed (use r in auto)
qed

theorem single_key_rule_never_waits_witness:
  "let e = key_entry_of 1 4 Key_down; w = idle_world (key_rule 4 [to_key 5]) in
     \<exists>r f w'. manipulate idle_runtime 100 [e] e w = Inr (r, f, w') \<and> r \<noteq> Needs_wait_until_time_stamp"
proof -
  let ?e = "key_entry_of 1 4 Key_down" and ?w = "idle_world (key_rule 4 [to_key 5])"
  have "result_of (manipulate idle_runtime 100 [?e] ?e ?w) \<noteq> None" by code_simp
  then obtain r f w' where m: "manipulate idle_runtime 100 [?e] ?e ?w = Inr (r, f, w')"
    using result_of_Some by fastforce
  have "r \<noteq> Needs_wait_until_time_stamp"
    by (rule single_key_rule_never_waits [OF idle_walks_sets _ _ _ _ m])
      (simp_all add: idle_world_def key_rule_def from_key_def default_from_event_definition_def
        default_simultaneous_options_def idle_runtime_def)
  with m show ?thesis by (auto simp: Let_def)
qed

text \<open>
  C3. A release reaches its press: when the entry releases an input event some held press of the rule
  started with, the rule takes the entry, whatever its conditions and its modifiers say by then.
\<close>

theorem release_is_manipulated:
  assumes "walks_sets rt" "manipulate rt now input front w = Inr (r, front', w')"
    and "en_event_type front = Key_up" "en_validity front = Valid" "test_from_event (en_event front) (b_from (w_basic w))"
    and "a \<in> set (b_manipulated (w_basic w))" "a < b_next (w_basic w)"
    and "from_event_of front \<in> set (moe_from_events (b_moes (w_basic w) a))"
  shows "r = Manipulated_result \<and> en_validity front' = Invalid"
  using assms(2)
proof (cases rule: manipulate_cases)
  case (up w1 w2 b k)
  have "same_rule (w_basic w) (w_basic w2)"
    using before_match_same_rule [OF assms(1) up(1)] ok_handle_same_rule [OF assms(1) up(3)] same_rule_trans by blast
  then have "\<exists>a\<in>set (b_manipulated (w_basic w2)). from_event_exists (from_event_of front) (b_moes (w_basic w2) a)"
    using assms(6-8) by (auto simp: same_rule_def from_event_exists_def intro!: bexI [of _ a])
  then have "List.find (\<lambda>a. from_event_exists (from_event_of front) (b_moes (w_basic w2) a)) (b_manipulated (w_basic w2)) \<noteq> None"
    unfolding find_None_iff by blast
  then obtain x where x: "List.find (\<lambda>a. from_event_exists (from_event_of front) (b_moes (w_basic w2) a)) (b_manipulated (w_basic w2)) = Some x"
    by blast
  have "k = Some x" using up(5) unfolding match_key_up_def Let_def x option.case by simp
  then show ?thesis using up(6) by auto
next
  case (other w1)
  have "same_rule (w_basic w) (w_basic w')"
    using before_match_same_rule [OF assms(1) other(1)] ok_handle_same_rule [OF assms(1) other(3)] same_rule_trans by blast
  then show ?thesis using other(6) assms(3,5) by (simp add: same_rule_def)
qed (use assms in auto)

definition held_world :: world where
  "held_world = idle_world ((key_rule 4 [to_key 5])\<lparr>b_manipulated := [0], b_next := 1,
     b_moes := (\<lambda>_. mk_moe [from_event_of (key_entry_of 1 4 Key_down)] {} 100 {})\<rparr>)"

theorem release_is_manipulated_witness:
  "let e = key_entry_of 1 4 Key_up in
     \<exists>r f w'. manipulate idle_runtime 100 [e] e held_world = Inr (r, f, w') \<and> r = Manipulated_result"
proof -
  let ?e = "key_entry_of 1 4 Key_up"
  have "result_of (manipulate idle_runtime 100 [?e] ?e held_world) \<noteq> None" by code_simp
  then obtain r f w' where m: "manipulate idle_runtime 100 [?e] ?e held_world = Inr (r, f, w')"
    using result_of_Some by fastforce
  have "r = Manipulated_result \<and> en_validity f = Invalid"
    by (rule release_is_manipulated [OF idle_walks_sets m, of 0])
      (simp_all add: held_world_def idle_world_def key_rule_def key_entry_of_def from_event_of_def from_key_def
        Let_def mk_moe_def test_from_event_def test_event_def ed_make_from_momentary_switch_event_def
        default_from_event_definition_def ed_get_if_mse_def get_if_mse_def mse_event_def mk_event_def)
  with m show ?thesis by (auto simp: Let_def)
qed

end
