(* ===== verification/BasicJson.thy ===== *)
theory BasicJson
  imports BasicInput
begin

text \<open>
  How a rule of the basic manipulator is read from its JSON (the constructors of \<open>basic.hpp\<close>,
  \<open>to_if_held_down.hpp\<close>, \<open>to_delayed_action.hpp\<close> and \<open>to_if_other_key_pressed.hpp\<close>) and made for a
  simple modification.
\<close>

definition no_to_if_held_down :: to_if_held_down where
  "no_to_if_held_down = \<lparr>hd_to = [], hd_front = None, hd_moe = None, hd_queue = False, hd_armed = None\<rparr>"

definition to_if_held_down_from_json ::
    "rejects \<Rightarrow> json \<Rightarrow> making \<Rightarrow> json_error + to_if_held_down \<times> making" where
  "to_if_held_down_from_json rj j m =
     (case j of
        J_object _ \<Rightarrow> and_then (to_event_from_json rj j m) (\<lambda>(d, m1). Inr (no_to_if_held_down\<lparr>hd_to := [d]\<rparr>, m1))
      | J_array js \<Rightarrow> and_then (to_events_from_list rj js m) (\<lambda>(ds, m1). Inr (no_to_if_held_down\<lparr>hd_to := ds\<rparr>, m1))
      | _ \<Rightarrow> Inl (Unmarshal_error_dump ''json must be object or array, but is `'' j ''`''))"

definition no_to_delayed_action :: to_delayed_action where
  "no_to_delayed_action = \<lparr>da_to_if_invoked = [], da_to_if_canceled = [], da_front = None, da_moe = None,
     da_queue = False, da_armed = None\<rparr>"

definition to_delayed_action_item ::
    "rejects \<Rightarrow> json \<Rightarrow> string \<Rightarrow> json \<Rightarrow> to_delayed_action \<times> making \<Rightarrow> json_error + to_delayed_action \<times> making" where
  "to_delayed_action_item rj j k v dm =
     (case dm of (d, m) \<Rightarrow>
        if k = ''to_if_invoked'' then
          and_then (to_events_from_json rj k v m) (\<lambda>(ds, m1). Inr (d\<lparr>da_to_if_invoked := da_to_if_invoked d @ ds\<rparr>, m1))
        else if k = ''to_if_canceled'' then
          and_then (to_events_from_json rj k v m) (\<lambda>(ds, m1). Inr (d\<lparr>da_to_if_canceled := da_to_if_canceled d @ ds\<rparr>, m1))
        else Inl (unknown_key_in j k))"

definition to_delayed_action_from_json ::
    "rejects \<Rightarrow> json \<Rightarrow> making \<Rightarrow> json_error + to_delayed_action \<times> making" where
  "to_delayed_action_from_json rj j m =
     and_then (requires_object ''json'' j) (\<lambda>xs. fold_items (to_delayed_action_item rj j) xs (no_to_delayed_action, m))"

fun from_events_from_list :: "rejects \<Rightarrow> json list \<Rightarrow> making \<Rightarrow> json_error + from_event_definition list \<times> making" where
  "from_events_from_list rj [] m = Inr ([], m)"
| "from_events_from_list rj (j # js) m =
     and_then (from_event_from_json rj j m) (\<lambda>(d, m1).
     and_then (from_events_from_list rj js m1) (\<lambda>(ds, m2). Inr (d # ds, m2)))"

definition other_key_entry_item ::
    "rejects \<Rightarrow> json \<Rightarrow> string \<Rightarrow> json \<Rightarrow> other_key_entry \<times> making \<Rightarrow> json_error + other_key_entry \<times> making" where
  "other_key_entry_item rj j k v em =
     (case em of (e, m) \<Rightarrow>
        if k = ''other_keys'' then
          and_then (requires_array (quoted k) v) (\<lambda>js. and_then (from_events_from_list rj js m)
            (\<lambda>(ds, m1). Inr (e\<lparr>oe_other_keys := oe_other_keys e @ ds\<rparr>, m1)))
        else if k = ''to'' then
          and_then (requires_array (quoted k) v) (\<lambda>js. and_then (to_events_from_list rj js m)
            (\<lambda>(ds, m1). Inr (e\<lparr>oe_to := oe_to e @ ds\<rparr>, m1)))
        else Inl (unknown_key_in j k))"

definition other_key_entry_from_json :: "rejects \<Rightarrow> json \<Rightarrow> making \<Rightarrow> json_error + other_key_entry \<times> making" where
  "other_key_entry_from_json rj j m =
     and_then (requires_object ''json'' j) (\<lambda>xs.
       fold_items (other_key_entry_item rj j) xs (\<lparr>oe_other_keys = [], oe_to = []\<rparr>, m))"

fun other_key_entries_from_list :: "rejects \<Rightarrow> json list \<Rightarrow> making \<Rightarrow> json_error + other_key_entry list \<times> making" where
  "other_key_entries_from_list rj [] m = Inr ([], m)"
| "other_key_entries_from_list rj (j # js) m =
     and_then (other_key_entry_from_json rj j m) (\<lambda>(e, m1).
     and_then (other_key_entries_from_list rj js m1) (\<lambda>(es, m2). Inr (e # es, m2)))"

definition to_if_other_key_pressed_from_json ::
    "rejects \<Rightarrow> json \<Rightarrow> making \<Rightarrow> json_error + to_if_other_key_pressed \<times> making" where
  "to_if_other_key_pressed_from_json rj j m =
     and_then (requires_array ''json'' j) (\<lambda>js. and_then (other_key_entries_from_list rj js m) (\<lambda>(es, m1).
       Inr (\<lparr>ok_entries = es, ok_from_moe = None, ok_from_device_id = None, ok_queue = False, ok_moe = None\<rparr>, m1)))"

text \<open>A rule with nothing in it; conditions are added after the construction.\<close>

definition new_basic :: "parameters \<Rightarrow> from_event_definition \<Rightarrow> to_event_definition list \<Rightarrow> basic_manipulator" where
  "new_basic pa from tos =
     \<lparr>b_validity = Valid, b_conditions = [], b_parameters = pa, b_from = from, b_to = tos,
      b_to_after_key_up = [], b_to_if_alone = [], b_to_if_held_down = None, b_to_if_other_key_pressed = None,
      b_to_delayed_action = None, b_manipulated = [], b_moes = (\<lambda>_. mk_moe [] {} 0 {}), b_next = 0\<rparr>"

definition basic_item ::
    "rejects \<Rightarrow> json \<Rightarrow> string \<Rightarrow> json \<Rightarrow> basic_manipulator \<times> making \<Rightarrow> json_error + basic_manipulator \<times> making" where
  "basic_item rj j k v bm =
     (case bm of (b, m) \<Rightarrow>
        if k = ''from'' then
          and_then (error_at k (from_event_from_json rj v m)) (\<lambda>(d, m1). Inr (b\<lparr>b_from := d\<rparr>, m1))
        else if k = ''to'' then
          and_then (to_events_from_json rj k v m) (\<lambda>(ds, m1). Inr (b\<lparr>b_to := b_to b @ ds\<rparr>, m1))
        else if k = ''to_after_key_up'' then
          and_then (to_events_from_json rj k v m) (\<lambda>(ds, m1). Inr (b\<lparr>b_to_after_key_up := b_to_after_key_up b @ ds\<rparr>, m1))
        else if k = ''to_if_alone'' then
          and_then (to_events_from_json rj k v m) (\<lambda>(ds, m1). Inr (b\<lparr>b_to_if_alone := b_to_if_alone b @ ds\<rparr>, m1))
        else if k = ''to_if_held_down'' then
          and_then (error_at k (to_if_held_down_from_json rj v m)) (\<lambda>(h, m1). Inr (b\<lparr>b_to_if_held_down := Some h\<rparr>, m1))
        else if k = ''to_if_other_key_pressed'' then
          and_then (error_at k (to_if_other_key_pressed_from_json rj v m))
            (\<lambda>(x, m1). Inr (b\<lparr>b_to_if_other_key_pressed := Some x\<rparr>, m1))
        else if k = ''to_delayed_action'' then
          and_then (error_at k (to_delayed_action_from_json rj v m)) (\<lambda>(x, m1). Inr (b\<lparr>b_to_delayed_action := Some x\<rparr>, m1))
        else if k \<in> {''description'', ''conditions'', ''parameters'', ''type''} then Inr (b, m)
        else Inl (unknown_key_in j k))"

definition basic_from_json :: "rejects \<Rightarrow> json \<Rightarrow> parameters \<Rightarrow> making \<Rightarrow> json_error + basic_manipulator \<times> making" where
  "basic_from_json rj j pa m =
     and_then (requires_object ''json'' j) (\<lambda>xs. fold_items (basic_item rj j) xs (new_basic pa default_from_event_definition [], m))"

definition b_push_back_condition :: "condition \<Rightarrow> basic_manipulator \<Rightarrow> basic_manipulator" where
  "b_push_back_condition c b = b\<lparr>b_conditions := b_conditions b @ [c]\<rparr>"

subsection \<open>A rule that was read starts without debts\<close>

lemma to_delayed_action_item_fresh:
  "to_delayed_action_item rj j k v (d, m) = Inr (d', m') \<Longrightarrow> da_moe d' = da_moe d"
  by (auto simp: to_delayed_action_item_def and_then_Inr_iff split: if_split_asm)

lemma to_delayed_action_items_fresh:
  "fold_items (to_delayed_action_item rj j) xs (d, m) = Inr (d', m') \<Longrightarrow> da_moe d' = da_moe d"
proof (induction xs arbitrary: d m)
  case (Cons x xs)
  obtain k v where x: "x = (k, v)" by fastforce
  obtain d1 m1 where s: "to_delayed_action_item rj j k v (d, m) = Inr (d1, m1)"
      "fold_items (to_delayed_action_item rj j) xs (d1, m1) = Inr (d', m')"
    using Cons.prems x by (auto simp: and_then_Inr_iff)
  show ?case using Cons.IH [OF s(2)] to_delayed_action_item_fresh [OF s(1)] by simp
qed simp

lemma error_at_eq_Inr [simp]: "error_at k r = Inr x \<longleftrightarrow> r = Inr x"
  by (cases r) (auto simp: error_at_def split: json_error.split)

definition read_rule :: "basic_manipulator \<Rightarrow> bool" where
  "read_rule b \<longleftrightarrow> fresh_rule b \<and> (fd_event_definitions (b_from b) = [] \<or> well_formed_from (b_from b))"

lemma basic_item_reads:
  assumes "basic_item rj j k v (b, m) = Inr (b', m')" "read_rule b"
  shows "read_rule b'"
proof -
  have frm: "well_formed_from d" if "error_at k (from_event_from_json rj v m) = Inr (d, m1)" for d m1
    using that from_event_well_formed by simp
  have held: "hd_armed h = None" if "error_at k (to_if_held_down_from_json rj v m) = Inr (h, m1)" for h m1
    using that by (auto simp: to_if_held_down_from_json_def and_then_Inr_iff no_to_if_held_down_def split: json.split_asm)
  have other: "ok_moe x = None" if "error_at k (to_if_other_key_pressed_from_json rj v m) = Inr (x, m1)" for x m1
    using that by (auto simp: to_if_other_key_pressed_from_json_def and_then_Inr_iff)
  have delayed: "da_moe x = None" if "error_at k (to_delayed_action_from_json rj v m) = Inr (x, m1)" for x m1
    using that by (auto simp: to_delayed_action_from_json_def and_then_Inr_iff no_to_delayed_action_def
        dest!: to_delayed_action_items_fresh)
  show ?thesis
    using assms frm held other delayed
    by (auto simp: basic_item_def and_then_Inr_iff read_rule_def fresh_rule_def split: if_split_asm)
qed

lemma basic_items_read:
  "fold_items (basic_item rj j) xs (b, m) = Inr (b', m') \<Longrightarrow> read_rule b \<Longrightarrow> read_rule b'"
proof (induction xs arbitrary: b m)
  case (Cons x xs)
  obtain k v where x: "x = (k, v)" by fastforce
  obtain b1 m1 where s: "basic_item rj j k v (b, m) = Inr (b1, m1)"
      "fold_items (basic_item rj j) xs (b1, m1) = Inr (b', m')"
    using Cons.prems(1) x by (auto simp: and_then_Inr_iff)
  show ?case using Cons.IH [OF s(2)] basic_item_reads [OF s(1) Cons.prems(2)] by simp
qed simp

lemma basic_from_json_reads:
  assumes "basic_from_json rj j pa m = Inr (b, m')"
  shows "read_rule b"
proof -
  obtain xs where "fold_items (basic_item rj j) xs (new_basic pa default_from_event_definition [], m) = Inr (b, m')"
    using assms by (auto simp: basic_from_json_def and_then_Inr_iff)
  then show ?thesis
    by (rule basic_items_read) (simp add: read_rule_def fresh_rule_def new_basic_def default_from_event_definition_def)
qed

subsection \<open>Properties\<close>

text \<open>
  C33. A rule that the reader accepts has no manipulated event, no timer armed and no other key pending,
  also after its conditions are added; its input definition names only keys, buttons and pages, and a
  rule accepted without one never takes an entry.
\<close>

theorem accepted_rule_is_fresh:
  assumes "basic_from_json rj j pa m = Inr (b, m')"
  shows "fresh_rule (fold b_push_back_condition cs b) \<and>
    (well_formed_from (b_from b) \<or> (\<forall>e. \<not> test_from_event e (b_from b)))"
proof -
  have r: "read_rule b" using assms by (rule basic_from_json_reads)
  have "fresh_rule (fold b_push_back_condition cs b) = fresh_rule b"
    by (induction cs arbitrary: b) (simp_all add: b_push_back_condition_def fresh_rule_def)
  then show ?thesis using r by (auto simp: read_rule_def test_from_event_def)
qed

definition no_rejects :: rejects where
  "no_rejects = \<lparr>rj_regex = (\<lambda>_. False), rj_expression = (\<lambda>_. False)\<rparr>"

definition a_to_b_json :: json where
  "a_to_b_json = J_object [(''from'', J_object [(''key_code'', J_string ''a'')]),
     (''to'', J_array [J_object [(''key_code'', J_string ''b'')]]), (''type'', J_string ''basic'')]"

theorem accepted_rule_is_fresh_witness:
  "\<exists>b m. basic_from_json no_rejects a_to_b_json (b_parameters (key_rule 4 [])) (0, empty_store) = Inr (b, m) \<and>
     fresh_rule b \<and> length (b_to b) = 1 \<and> well_formed_from (b_from b)"
proof -
  let ?r = "basic_from_json no_rejects a_to_b_json (b_parameters (key_rule 4 [])) (0, empty_store)"
  have "case ?r of Inr (b, _) \<Rightarrow> length (b_to b) = 1 \<and> test_from_event (mse_event (a_key 4)) (b_from b) | Inl _ \<Rightarrow> False"
    by code_simp
  then obtain b m where "?r = Inr (b, m)" "length (b_to b) = 1" "test_from_event (mse_event (a_key 4)) (b_from b)"
    by (auto split: sum.split_asm)
  with accepted_rule_is_fresh [OF this(1), of "[]"] show ?thesis by auto
qed

end
