(* ===== verification/ScrollCounter.thy ===== *)
theory ScrollCounter
  imports BasicJson
begin

text \<open>
  How pointing motions become scroll events: the options (\<open>options.hpp\<close>) and the counter
  (\<open>counter.hpp\<close>, \<open>counter_chunk_value.hpp\<close>, \<open>counter_direction.hpp\<close>, \<open>counter_entry.hpp\<close>) of
  \<open>mouse_motion_to_scroll\<close>. The machine's floating point is a parameter: the rounding of a result, the
  fourth power of \<open>std::pow\<close> and the conversion to \<open>int\<close>, which the language leaves open outside of
  the range of \<open>int\<close>. The timer of the counter is on or off; a call of its function is an operation.
  Requests to the dispatcher are taken to be executed at once.
\<close>

record floating =
  fl_round :: "rat \<Rightarrow> rat"
  fl_pow4 :: "rat \<Rightarrow> rat"
  fl_to_int :: "rat \<Rightarrow> int"

text \<open>Exact arithmetic, for examples.\<close>

definition exact :: floating where
  "exact = \<lparr>fl_round = (\<lambda>r. r), fl_pow4 = (\<lambda>r. r * r * r * r), fl_to_int = truncate_rat\<rparr>"

subsection \<open>Options\<close>

record options =
  op_momentum_scroll_enabled :: bool
  op_speed_multiplier :: rat
  op_recent_time_duration_milliseconds :: milliseconds
  op_threshold :: int
  op_direction_lock_threshold :: int
  op_scroll_event_interval_milliseconds_threshold :: milliseconds

definition default_options :: options where
  "default_options =
     \<lparr>op_momentum_scroll_enabled = True, op_speed_multiplier = 1, op_recent_time_duration_milliseconds = 100,
      op_threshold = 128, op_direction_lock_threshold = 4, op_scroll_event_interval_milliseconds_threshold = 100\<rparr>"

definition set_speed_multiplier :: "rat \<Rightarrow> options \<Rightarrow> options" where
  "set_speed_multiplier v p = p\<lparr>op_speed_multiplier := (if v \<le> 0 then 1 else v)\<rparr>"

definition set_recent_time_duration_milliseconds :: "milliseconds \<Rightarrow> options \<Rightarrow> options" where
  "set_recent_time_duration_milliseconds v p =
     p\<lparr>op_recent_time_duration_milliseconds := (if v < 1 then 100 else v)\<rparr>"

definition set_threshold :: "int \<Rightarrow> options \<Rightarrow> options" where
  "set_threshold v p = p\<lparr>op_threshold := (if v \<le> 0 then 128 else v)\<rparr>"

definition set_direction_lock_threshold :: "int \<Rightarrow> options \<Rightarrow> options" where
  "set_direction_lock_threshold v p = p\<lparr>op_direction_lock_threshold := (if v \<le> 0 then 4 else v)\<rparr>"

definition set_scroll_event_interval_milliseconds_threshold :: "milliseconds \<Rightarrow> options \<Rightarrow> options" where
  "set_scroll_event_interval_milliseconds_threshold v p =
     p\<lparr>op_scroll_event_interval_milliseconds_threshold := (if v < 1 then 100 else v)\<rparr>"

definition options_item :: "string \<Rightarrow> json \<Rightarrow> options \<Rightarrow> json_error + options" where
  "options_item k v p =
     (if k = ''momentum_scroll_enabled'' then
        and_then (requires_boolean (quoted k) v) (\<lambda>b. Inr (p\<lparr>op_momentum_scroll_enabled := b\<rparr>))
      else if k = ''speed_multiplier'' then
        and_then (requires_number (quoted k) v) (\<lambda>x. Inr (set_speed_multiplier (get_double x) p))
      else if k = ''threshold'' then
        and_then (requires_number (quoted k) v) (\<lambda>x. Inr (set_threshold (get_int32 x) p))
      else if k = ''recent_time_duration_milliseconds'' then
        and_then (requires_number (quoted k) v) (\<lambda>x. Inr (set_recent_time_duration_milliseconds (get_int32 x) p))
      else if k = ''direction_lock_threshold'' then
        and_then (requires_number (quoted k) v) (\<lambda>x. Inr (set_direction_lock_threshold (get_int32 x) p))
      else if k = ''scroll_event_interval_milliseconds_threshold'' then
        and_then (requires_number (quoted k) v)
          (\<lambda>x. Inr (set_scroll_event_interval_milliseconds_threshold (get_int32 x) p))
      else Inr p)"

definition options_update :: "json \<Rightarrow> options \<Rightarrow> json_error + options" where
  "options_update j p = and_then (requires_object ''json'' j) (\<lambda>xs. fold_items options_item xs p)"

definition options_ok :: "options \<Rightarrow> bool" where
  "options_ok p \<longleftrightarrow> 0 < op_speed_multiplier p \<and> 1 \<le> op_recent_time_duration_milliseconds p \<and> 1 \<le> op_threshold p \<and>
     1 \<le> op_direction_lock_threshold p \<and> 1 \<le> op_scroll_event_interval_milliseconds_threshold p"

lemma options_item_ok: "options_ok p \<Longrightarrow> on_success options_ok (options_item k v p)"
  unfolding options_item_def
  by (intro on_success_intros)
    (auto simp: options_ok_def set_speed_multiplier_def set_threshold_def set_recent_time_duration_milliseconds_def
      set_direction_lock_threshold_def set_scroll_event_interval_milliseconds_threshold_def)

lemma options_items_ok: "options_ok p \<Longrightarrow> on_success options_ok (fold_items options_item xs p)"
proof (induction xs arbitrary: p)
  case (Cons x xs)
  obtain k v where x: "x = (k, v)" by fastforce
  show ?case unfolding x fold_items.simps
    by (intro on_success_intros Cons.IH) (rule on_successD [OF options_item_ok [OF Cons.prems]])
qed (simp add: on_success_def)

lemma options_update_ok: "options_update j p = Inr p' \<Longrightarrow> options_ok p \<Longrightarrow> options_ok p'"
  by (auto simp: options_update_def and_then_Inr_iff dest: on_successD [OF options_items_ok])

subsection \<open>Chunks\<close>

datatype sign = Sign_zero | Sign_plus | Sign_minus

definition make_sign :: "int \<Rightarrow> sign" where
  "make_sign v = (if v > 0 then Sign_plus else if v < 0 then Sign_minus else Sign_zero)"

record counter_chunk_value =
  cv_plus :: int
  cv_minus :: int
  cv_abs_total :: int
  cv_last_sign :: sign

definition empty_chunk :: counter_chunk_value where
  "empty_chunk = \<lparr>cv_plus = 0, cv_minus = 0, cv_abs_total = 0, cv_last_sign = Sign_zero\<rparr>"

definition chunk_add :: "int \<Rightarrow> counter_chunk_value \<Rightarrow> counter_chunk_value" where
  "chunk_add v c =
     (let c1 = (if v > 0 then c\<lparr>cv_plus := cv_plus c + v, cv_last_sign := Sign_plus\<rparr>
                else if v < 0 then c\<lparr>cv_minus := cv_minus c + v, cv_last_sign := Sign_minus\<rparr>
                else c)
      in c1\<lparr>cv_abs_total := cv_abs_total c1 + \<bar>v\<bar>\<rparr>)"

definition make_accumulated_value :: "counter_chunk_value \<Rightarrow> int" where
  "make_accumulated_value c =
     (if \<bar>cv_plus c\<bar> > \<bar>cv_minus c\<bar> then cv_plus c
      else if \<bar>cv_plus c\<bar> < \<bar>cv_minus c\<bar> then cv_minus c
      else (case cv_last_sign c of Sign_zero \<Rightarrow> 0 | Sign_plus \<Rightarrow> cv_plus c | Sign_minus \<Rightarrow> cv_minus c))"

subsection \<open>The counter\<close>

record counter_entry =
  ce_x :: int
  ce_y :: int
  ce_time_point :: milliseconds

datatype counter_direction = Dir_none | Dir_vertical | Dir_horizontal

type_synonym chunk_accumulated_values = "(milliseconds \<times> int) list"

record counter =
  co_entries :: "counter_entry list"
  co_last_entry_time_point :: "milliseconds option"
  co_last_scroll_time_point :: "milliseconds option"
  co_direction :: counter_direction
  co_chunks_x :: chunk_accumulated_values
  co_chunks_y :: chunk_accumulated_values
  co_total_x :: int
  co_total_y :: int
  co_momentum_x :: int
  co_momentum_y :: int
  co_momentum_minus :: int
  co_momentum_count :: int
  co_momentum_wait :: int
  co_timer :: bool

text \<open>The constructor leaves \<open>momentum_minus_\<close> uninitialised: its value is an argument.\<close>

definition new_counter :: "int \<Rightarrow> counter" where
  "new_counter u =
     \<lparr>co_entries = [], co_last_entry_time_point = None, co_last_scroll_time_point = None, co_direction = Dir_none,
      co_chunks_x = [], co_chunks_y = [], co_total_x = 0, co_total_y = 0, co_momentum_x = 0, co_momentum_y = 0,
      co_momentum_minus = u, co_momentum_count = 0, co_momentum_wait = 0, co_timer = False\<rparr>"

definition counter_update :: "pointing_motion \<Rightarrow> milliseconds \<Rightarrow> counter \<Rightarrow> counter" where
  "counter_update m t c =
     c\<lparr>co_entries := co_entries c @ [\<lparr>ce_x = pm_x m, ce_y = pm_y m, ce_time_point = t\<rparr>], co_timer := True\<rparr>"

definition counter_reset :: "counter \<Rightarrow> counter" where
  "counter_reset c =
     c\<lparr>co_entries := [], co_last_entry_time_point := None, co_last_scroll_time_point := None, co_direction := Dir_none,
       co_chunks_x := [], co_chunks_y := [], co_total_x := 0, co_total_y := 0, co_momentum_x := 0, co_momentum_y := 0,
       co_momentum_count := 0, co_momentum_wait := 0\<rparr>"

definition erase_chunk_accumulated_values ::
    "options \<Rightarrow> milliseconds \<Rightarrow> chunk_accumulated_values \<Rightarrow> chunk_accumulated_values" where
  "erase_chunk_accumulated_values p t cs =
     remove_if (\<lambda>v. t - fst v > op_recent_time_duration_milliseconds p * op_direction_lock_threshold p) cs"

definition accumulate_abs_chunk_accumulated_values :: "chunk_accumulated_values \<Rightarrow> int" where
  "accumulate_abs_chunk_accumulated_values cs = foldl (\<lambda>a b. a + \<bar>snd b\<bar>) 0 cs"

text \<open>The loop that takes the entries near the first one.\<close>

fun collect_chunk ::
    "milliseconds \<Rightarrow> milliseconds \<Rightarrow> counter_entry list \<Rightarrow>
     counter_chunk_value \<times> counter_chunk_value \<times> milliseconds option \<Rightarrow>
     (counter_chunk_value \<times> counter_chunk_value \<times> milliseconds option) \<times> counter_entry list" where
  "collect_chunk w t0 [] acc = (acc, [])"
| "collect_chunk w t0 (e # es) (x, y, l) =
     (if ce_time_point e - t0 \<le> w
      then collect_chunk w t0 es (chunk_add (ce_x e) x, chunk_add (ce_y e) y, Some (ce_time_point e))
      else ((x, y, l), e # es))"

definition reset_direction :: "counter \<Rightarrow> counter" where
  "reset_direction c =
     (let tx = accumulate_abs_chunk_accumulated_values (co_chunks_x c);
          ty = accumulate_abs_chunk_accumulated_values (co_chunks_y c)
      in if co_direction c = Dir_horizontal \<and> ty > tx \<or> co_direction c = Dir_vertical \<and> tx > ty
         then c\<lparr>co_direction := Dir_none\<rparr> else c)"

definition set_direction :: "options \<Rightarrow> counter_chunk_value \<Rightarrow> counter_chunk_value \<Rightarrow> counter \<Rightarrow> counter" where
  "set_direction p x y c =
     (if co_direction c = Dir_none then
        c\<lparr>co_direction := (if cv_abs_total x > cv_abs_total y then Dir_horizontal else Dir_vertical),
          co_total_x := 0, co_total_y := 0, co_momentum_x := 0, co_momentum_y := 0,
          co_momentum_minus := op_threshold p\<rparr>
      else c)"

text \<open>Starting again when the sign of a total changes; the flag says that the motion is an initial one.\<close>

definition restart_x :: "options \<Rightarrow> int \<Rightarrow> bool \<times> counter \<Rightarrow> bool \<times> counter" where
  "restart_x p x = (\<lambda>(initial, c).
     if x \<noteq> 0 \<and> make_sign (co_total_x c) \<noteq> make_sign x
     then (True, c\<lparr>co_total_x := 0, co_momentum_x := 0, co_momentum_minus := op_threshold p\<rparr>) else (initial, c))"

definition restart_y :: "options \<Rightarrow> int \<Rightarrow> bool \<times> counter \<Rightarrow> bool \<times> counter" where
  "restart_y p y = (\<lambda>(initial, c).
     if y \<noteq> 0 \<and> make_sign (co_total_y c) \<noteq> make_sign y
     then (True, c\<lparr>co_total_y := 0, co_momentum_y := 0, co_momentum_minus := op_threshold p\<rparr>) else (initial, c))"

definition enlarge :: "int \<Rightarrow> int \<Rightarrow> int" where
  "enlarge least t = (if 0 < t then max t least else if t < 0 then min t (- least) else t)"

definition momentum_minus_of :: "floating \<Rightarrow> options \<Rightarrow> counter \<Rightarrow> int" where
  "momentum_minus_of f p c =
     (let v = fl_round f (of_int (max \<bar>co_total_x c\<bar> \<bar>co_total_y c\<bar>) / of_int (op_threshold p));
          value = (if v > 10 then 10 else v);
          m = fl_to_int f (fl_round f (of_int (op_threshold p) / fl_pow4 f value))
      in if m \<le> 0 then 1 else m)"

definition speed_rate :: "floating \<Rightarrow> parameters \<Rightarrow> rat" where
  "speed_rate f pa = fl_round f (of_int (pa_mouse_motion_to_scroll_speed pa) / 100)"

text \<open>What happens once the direction is set: \<open>x\<close> and \<open>y\<close> are the motions of the chunk.\<close>

definition add_motion :: "floating \<Rightarrow> parameters \<Rightarrow> options \<Rightarrow> bool \<Rightarrow> int \<Rightarrow> int \<Rightarrow> counter \<Rightarrow> counter" where
  "add_motion f pa p initial0 x0 y0 c0 =
     (let x1 = (if co_direction c0 = Dir_vertical then 0 else x0);
          y1 = (if co_direction c0 = Dir_horizontal then 0 else y0);
          (initial, c1) = restart_y p y1 (restart_x p x1 (initial0, c0));
          multiplier = fl_round f (speed_rate f pa * op_speed_multiplier p);
          x = fl_to_int f (fl_round f (of_int x1 * multiplier));
          y = fl_to_int f (fl_round f (of_int y1 * multiplier));
          c2 = c1\<lparr>co_total_x := co_total_x c1 + x, co_total_y := co_total_y c1 + y\<rparr>
      in if co_total_x c2 = 0 \<and> co_total_y c2 = 0 then c2
         else (let least = (if op_threshold p = 0 then 1 else op_threshold p);
                   c3 = (if initial then c2\<lparr>co_total_x := enlarge least (co_total_x c2),
                                            co_total_y := enlarge least (co_total_y c2)\<rparr> else c2)
               in c3\<lparr>co_momentum_minus := min (co_momentum_minus c3) (momentum_minus_of f p c3),
                     co_last_scroll_time_point := None, co_momentum_count := 0, co_momentum_wait := 0\<rparr>))"

definition process_entries :: "floating \<Rightarrow> parameters \<Rightarrow> options \<Rightarrow> milliseconds \<Rightarrow> counter \<Rightarrow> bool \<times> counter" where
  "process_entries f pa p now c =
     (case co_entries c of
        [] \<Rightarrow> (False, c)
      | e # es \<Rightarrow>
          (let w = op_recent_time_duration_milliseconds p; t0 = ce_time_point e in
           if now - t0 \<le> w then (True, c)
           else
             (let c1 = c\<lparr>co_chunks_x := erase_chunk_accumulated_values p t0 (co_chunks_x c),
                         co_chunks_y := erase_chunk_accumulated_values p t0 (co_chunks_y c)\<rparr>;
                  initial = (co_chunks_x c1 = [] \<and> co_chunks_y c1 = []);
                  c2 = (if initial then c1\<lparr>co_direction := Dir_none\<rparr> else c1);
                  ((cx, cy, l), es1) = collect_chunk w t0 (e # es) (empty_chunk, empty_chunk, co_last_entry_time_point c2);
                  x = make_accumulated_value cx; y = make_accumulated_value cy;
                  c3 = c2\<lparr>co_entries := es1, co_last_entry_time_point := l,
                          co_chunks_x := co_chunks_x c2 @ [(t0, x)], co_chunks_y := co_chunks_y c2 @ [(t0, y)]\<rparr>
              in (True, add_motion f pa p initial x y (set_direction p cx cy (reset_direction c3))))))"

subsection \<open>Scrolling\<close>

definition round_up :: "rat \<Rightarrow> int" where
  "round_up v = (if v > 0 then \<lceil>v\<rceil> else if v < 0 then \<lceil>v\<rceil> - 1 else 0)"

text \<open>
  The two loops of \<open>convert\<close>: they move whole thresholds from the value to the result, at most one of
  them with momentum. A threshold is positive (\<open>options_ok\<close>); the guards make the functions total.
\<close>

function convert_down :: "bool \<Rightarrow> int \<Rightarrow> int \<Rightarrow> int \<Rightarrow> int \<times> int" where
  "convert_down momentum t v r =
     (if v \<ge> t \<and> 0 < t then (if momentum then (v - t, r + 1) else convert_down momentum t (v - t) (r + 1)) else (v, r))"
  by pat_completeness auto
termination by (relation "measure (\<lambda>(m, t, v, r). nat v)") auto

function convert_up :: "bool \<Rightarrow> int \<Rightarrow> int \<Rightarrow> int \<Rightarrow> int \<times> int" where
  "convert_up momentum t v r =
     (if v \<le> - t \<and> 0 < t then (if momentum then (v + t, r - 1) else convert_up momentum t (v + t) (r - 1)) else (v, r))"
  by pat_completeness auto
termination by (relation "measure (\<lambda>(m, t, v, r). nat (- v))") auto

declare convert_down.simps [simp del] convert_up.simps [simp del]

definition convert :: "options \<Rightarrow> int \<Rightarrow> int \<times> int" where
  "convert p v =
     (let m = op_momentum_scroll_enabled p; t = op_threshold p;
          (v1, r1) = convert_down m t v 0;
          (v2, r2) = convert_up m t v1 r1
      in (r2, v2))"

definition reduce :: "int \<Rightarrow> int \<Rightarrow> int" where
  "reduce v amount = (if v > 0 then v - min amount v else if v < 0 then v + min amount (- v) else v)"

text \<open>Whether the timer goes on, and the motion that is posted.\<close>

definition scroll :: "floating \<Rightarrow> options \<Rightarrow> milliseconds \<Rightarrow> counter \<Rightarrow> bool \<times> pointing_motion option \<times> counter" where
  "scroll f p now c =
     (if co_momentum_wait c > 0 then (True, None, c\<lparr>co_momentum_wait := co_momentum_wait c - 1\<rparr>)
      else
        (let n = co_momentum_count c + 1; c1 = c\<lparr>co_momentum_count := n\<rparr> in
         if n = 0 then (False, None, c1)
         else if (case co_last_scroll_time_point c1 of
                    Some t \<Rightarrow> now - t > op_scroll_event_interval_milliseconds_threshold p | None \<Rightarrow> False)
         then (False, None, c1)
         else
           (let scale = (if \<not> op_momentum_scroll_enabled p \<and> n > 1 then 0 else fl_round f (1 / of_int n));
                dx = round_up (fl_round f (of_int (co_total_x c1) * scale));
                dy = round_up (fl_round f (of_int (co_total_y c1) * scale));
                (x, mx) = convert p (co_momentum_x c1 + dx);
                (y, my) = convert p (co_momentum_y c1 + dy);
                c2 = c1\<lparr>co_momentum_x := mx, co_momentum_y := my\<rparr>;
                posts = (x \<noteq> 0 \<or> y \<noteq> 0);
                c3 = (if posts then c2\<lparr>co_last_scroll_time_point := Some now\<rparr> else c2);
                c4 = c3\<lparr>co_total_x := reduce (co_total_x c3) (co_momentum_minus c3),
                        co_total_y := reduce (co_total_y c3) (co_momentum_minus c3)\<rparr>;
                out = (if posts then Some (mk_motion 0 0 (- y) x) else None)
            in if co_total_x c4 = 0 \<and> co_total_y c4 = 0 then (False, out, c4)
               else (True, out, if op_momentum_scroll_enabled p then c4\<lparr>co_momentum_wait := min n 10\<rparr> else c4))))"

text \<open>The function of the timer.\<close>

definition counter_tick ::
    "floating \<Rightarrow> parameters \<Rightarrow> options \<Rightarrow> milliseconds \<Rightarrow> counter \<Rightarrow> pointing_motion option \<times> counter" where
  "counter_tick f pa p now c =
     (let (go1, c1) = process_entries f pa p now c;
          (go2, out, c2) = scroll f p now c1
      in (out, if go1 \<or> go2 then c2 else c2\<lparr>co_timer := False\<rparr>))"

subsection \<open>Conversion keeps the motion\<close>

lemma convert_down_keeps: "convert_down m t v r = (v', r') \<Longrightarrow> r' * t + v' = r * t + v"
proof (induction m t v r rule: convert_down.induct)
  case (1 m t v r)
  show ?case
  proof (cases "v \<ge> t \<and> 0 < t \<and> \<not> m")
    case True
    then have "convert_down m t (v - t) (r + 1) = (v', r')" using "1.prems" by (subst (asm) convert_down.simps) simp
    then have "r' * t + v' = (r + 1) * t + (v - t)" using "1.IH" True by blast
    then show ?thesis by (simp add: algebra_simps)
  next
    case False
    then show ?thesis using "1.prems" by (subst (asm) convert_down.simps) (auto simp: algebra_simps split: if_split_asm)
  qed
qed

lemma convert_up_keeps: "convert_up m t v r = (v', r') \<Longrightarrow> r' * t + v' = r * t + v"
proof (induction m t v r rule: convert_up.induct)
  case (1 m t v r)
  show ?case
  proof (cases "v \<le> - t \<and> 0 < t \<and> \<not> m")
    case True
    then have "convert_up m t (v + t) (r - 1) = (v', r')" using "1.prems" by (subst (asm) convert_up.simps) simp
    then have "r' * t + v' = (r - 1) * t + (v + t)" using "1.IH" True by blast
    then show ?thesis by (simp add: algebra_simps)
  next
    case False
    then show ?thesis using "1.prems" by (subst (asm) convert_up.simps) (auto simp: algebra_simps split: if_split_asm)
  qed
qed

lemma convert_keeps: "convert p v = (r, v') \<Longrightarrow> r * op_threshold p + v' = v"
  by (auto simp: convert_def Let_def dest!: convert_down_keeps convert_up_keeps split: prod.split_asm)

lemma convert_zero [simp]: "1 \<le> op_threshold p \<Longrightarrow> convert p 0 = (0, 0)"
  by (simp add: convert_def convert_down.simps convert_up.simps)

lemma round_up_zero [simp]: "round_up 0 = 0"
  by (simp add: round_up_def)

lemma reduce_zero [simp]: "reduce 0 a = 0"
  by (simp add: reduce_def)

lemma reduce_less: "1 \<le> a \<Longrightarrow> v \<noteq> 0 \<Longrightarrow> \<bar>reduce v a\<bar> < \<bar>v\<bar>"
  by (auto simp: reduce_def)

lemma reduce_le: "1 \<le> a \<Longrightarrow> \<bar>reduce v a\<bar> \<le> \<bar>v\<bar>"
  by (auto simp: reduce_def)

subsection \<open>The invariant\<close>

text \<open>
  Only the axis of the direction has a total and a momentum, and the amount a total shrinks by is
  positive whenever there is one.
\<close>

definition counter_inv :: "counter \<Rightarrow> bool" where
  "counter_inv c \<longleftrightarrow>
     (co_direction c \<noteq> Dir_horizontal \<longrightarrow> co_total_x c = 0 \<and> co_momentum_x c = 0) \<and>
     (co_direction c \<noteq> Dir_vertical \<longrightarrow> co_total_y c = 0 \<and> co_momentum_y c = 0) \<and>
     (co_total_x c \<noteq> 0 \<or> co_total_y c \<noteq> 0 \<longrightarrow> 1 \<le> co_momentum_minus c)"

lemma counter_inv_new: "counter_inv (new_counter u)"
  by (simp add: counter_inv_def new_counter_def)

lemma counter_inv_update: "counter_inv c \<Longrightarrow> counter_inv (counter_update m t c)"
  by (simp add: counter_inv_def counter_update_def)

lemma counter_inv_reset: "counter_inv c \<Longrightarrow> counter_inv (counter_reset c)"
  by (simp add: counter_inv_def counter_reset_def)

text \<open>The machine's arithmetic keeps zero.\<close>

definition keeps_zero :: "floating \<Rightarrow> bool" where
  "keeps_zero f \<longleftrightarrow> fl_round f 0 = 0 \<and> fl_to_int f 0 = 0"

definition axes_ok :: "counter \<Rightarrow> bool" where
  "axes_ok c \<longleftrightarrow> co_direction c \<noteq> Dir_none \<and> counter_inv c"

lemma set_direction_axes:
  "1 \<le> op_threshold p \<Longrightarrow> co_direction c = Dir_none \<or> axes_ok c \<Longrightarrow> axes_ok (set_direction p x y c)"
  by (auto simp: set_direction_def axes_ok_def counter_inv_def)

lemma restart_axes:
  assumes "1 \<le> op_threshold p" "axes_ok c" "restart_y p y (restart_x p x (i, c)) = (i', c')"
    "co_direction c = Dir_vertical \<longrightarrow> x = 0" "co_direction c = Dir_horizontal \<longrightarrow> y = 0"
  shows "axes_ok c' \<and> co_direction c' = co_direction c \<and>
    (x \<noteq> 0 \<or> y \<noteq> 0 \<or> co_total_x c' \<noteq> 0 \<or> co_total_y c' \<noteq> 0 \<longrightarrow> 1 \<le> co_momentum_minus c')"
  using assms
  by (auto simp: restart_x_def restart_y_def axes_ok_def counter_inv_def make_sign_def split: if_split_asm)

lemma add_motion_inv:
  assumes f: "keeps_zero f" and p: "1 \<le> op_threshold p" and c: "axes_ok c"
  shows "counter_inv (add_motion f pa p initial x y c)"
proof -
  let ?x = "if co_direction c = Dir_vertical then 0 else x"
  let ?y = "if co_direction c = Dir_horizontal then 0 else y"
  let ?m = "fl_round f (speed_rate f pa * op_speed_multiplier p)"
  let ?dx = "fl_to_int f (fl_round f (of_int ?x * ?m))"
  let ?dy = "fl_to_int f (fl_round f (of_int ?y * ?m))"
  obtain i c1 where r: "restart_y p ?y (restart_x p ?x (initial, c)) = (i, c1)" by fastforce
  have c1: "axes_ok c1" "co_direction c1 = co_direction c"
      "?x \<noteq> 0 \<or> ?y \<noteq> 0 \<or> co_total_x c1 \<noteq> 0 \<or> co_total_y c1 \<noteq> 0 \<longrightarrow> 1 \<le> co_momentum_minus c1"
    using restart_axes [OF p c r] by simp_all
  have z: "?x = 0 \<Longrightarrow> ?dx = 0" "?y = 0 \<Longrightarrow> ?dy = 0" using f by (simp_all add: keeps_zero_def)
  have off: "co_direction c1 = Dir_vertical \<Longrightarrow> ?dx = 0" "co_direction c1 = Dir_horizontal \<Longrightarrow> ?dy = 0"
    using c1(2) f by (simp_all add: keeps_zero_def)
  have minus: "1 \<le> co_momentum_minus c1" if "co_total_x c1 + ?dx \<noteq> 0 \<or> co_total_y c1 + ?dy \<noteq> 0"
    using that c1(3) z by (metis add.right_neutral)
  have one: "1 \<le> momentum_minus_of f p d" for d
    by (simp add: momentum_minus_of_def Let_def)
  have e: "enlarge l 0 = 0" for l by (simp add: enlarge_def)
  show ?thesis
    using c1(1) off minus one e unfolding add_motion_def r Let_def prod.case
    by (cases "co_direction c1") (auto simp: axes_ok_def counter_inv_def)
qed

lemma reset_direction_cases: "co_direction (reset_direction c) = Dir_none \<or> reset_direction c = c"
  by (simp add: reset_direction_def Let_def)

lemma process_entries_inv:
  assumes f: "keeps_zero f" and p: "1 \<le> op_threshold p" and c: "counter_inv c"
    and h: "process_entries f pa p now c = (go, c')"
  shows "counter_inv c'"
proof (cases "co_entries c")
  case Nil
  then show ?thesis using h c by (simp add: process_entries_def)
next
  case (Cons e es)
  show ?thesis
  proof (cases "now - ce_time_point e \<le> op_recent_time_duration_milliseconds p")
    case True
    then show ?thesis using h c Cons by (simp add: process_entries_def Let_def)
  next
    case False
    define c2 where "c2 = (let c1 = c\<lparr>co_chunks_x := erase_chunk_accumulated_values p (ce_time_point e) (co_chunks_x c),
        co_chunks_y := erase_chunk_accumulated_values p (ce_time_point e) (co_chunks_y c)\<rparr>
      in if co_chunks_x c1 = [] \<and> co_chunks_y c1 = [] then c1\<lparr>co_direction := Dir_none\<rparr> else c1)"
    obtain i x y cx cy es' l chx chy where c': "c' = add_motion f pa p i x y (set_direction p cx cy (reset_direction
        (c2\<lparr>co_entries := es', co_last_entry_time_point := l, co_chunks_x := chx, co_chunks_y := chy\<rparr>)))"
      using h Cons False by (auto simp: process_entries_def c2_def Let_def split: prod.split_asm)
    have "co_direction c2 = Dir_none \<or> counter_inv c2"
      using c by (simp add: c2_def Let_def counter_inv_def)
    then have "co_direction (reset_direction (c2\<lparr>co_entries := es', co_last_entry_time_point := l,
        co_chunks_x := chx, co_chunks_y := chy\<rparr>)) = Dir_none \<or>
        axes_ok (reset_direction (c2\<lparr>co_entries := es', co_last_entry_time_point := l, co_chunks_x := chx, co_chunks_y := chy\<rparr>))"
      using reset_direction_cases [of "c2\<lparr>co_entries := es', co_last_entry_time_point := l, co_chunks_x := chx, co_chunks_y := chy\<rparr>"]
      by (auto simp: axes_ok_def counter_inv_def)
    then show ?thesis unfolding c' by (intro add_motion_inv f p set_direction_axes)
  qed
qed

text \<open>What a scroll does, by cases: it waits, it ends, or it shrinks the totals.\<close>

lemma scroll_cases:
  assumes "scroll f p now c = (go, out, c')"
  obtains (waits) "0 < co_momentum_wait c" "go" "out = None" "c' = c\<lparr>co_momentum_wait := co_momentum_wait c - 1\<rparr>"
  | (ends) "\<not> go" "out = None" "c' = c\<lparr>co_momentum_count := co_momentum_count c + 1\<rparr>" "co_momentum_wait c \<le> 0"
  | (moves) dx dy x mx y my l w where
      "co_momentum_wait c \<le> 0"
      "convert p (co_momentum_x c + dx) = (x, mx)" "convert p (co_momentum_y c + dy) = (y, my)"
      "keeps_zero f \<longrightarrow> (co_total_x c = 0 \<longrightarrow> dx = 0) \<and> (co_total_y c = 0 \<longrightarrow> dy = 0)"
      "out = (if x \<noteq> 0 \<or> y \<noteq> 0 then Some (mk_motion 0 0 (- y) x) else None)"
      "c' = c\<lparr>co_momentum_count := co_momentum_count c + 1, co_momentum_x := mx, co_momentum_y := my,
         co_last_scroll_time_point := l, co_total_x := reduce (co_total_x c) (co_momentum_minus c),
         co_total_y := reduce (co_total_y c) (co_momentum_minus c), co_momentum_wait := w\<rparr>"
      "go \<longleftrightarrow> \<not> (co_total_x c' = 0 \<and> co_total_y c' = 0)" "w \<le> 10"
proof (cases "co_momentum_wait c > 0")
  case True
  then show ?thesis using assms waits by (simp add: scroll_def)
next
  case False
  let ?n = "co_momentum_count c + 1"
  show ?thesis
  proof (cases "?n = 0 \<or> (case co_last_scroll_time_point c of
      Some t \<Rightarrow> now - t > op_scroll_event_interval_milliseconds_threshold p | None \<Rightarrow> False)")
    case True
    then show ?thesis using assms ends False by (auto simp: scroll_def Let_def split: if_split_asm)
  next
    case going: False
    let ?s = "if \<not> op_momentum_scroll_enabled p \<and> ?n > 1 then 0 else fl_round f (1 / of_int ?n)"
    let ?dx = "round_up (fl_round f (of_int (co_total_x c) * ?s))"
    let ?dy = "round_up (fl_round f (of_int (co_total_y c) * ?s))"
    obtain x mx y my where cv: "convert p (co_momentum_x c + ?dx) = (x, mx)" "convert p (co_momentum_y c + ?dy) = (y, my)"
      by fastforce
    let ?l = "if x \<noteq> 0 \<or> y \<noteq> 0 then Some now else co_last_scroll_time_point c"
    let ?z = "reduce (co_total_x c) (co_momentum_minus c) = 0 \<and> reduce (co_total_y c) (co_momentum_minus c) = 0"
    let ?w = "if \<not> ?z \<and> op_momentum_scroll_enabled p then min ?n 10 else co_momentum_wait c"
    have n: "?n \<noteq> 0" and t: "\<not> (case co_last_scroll_time_point (c\<lparr>co_momentum_count := ?n\<rparr>) of
        Some t \<Rightarrow> now - t > op_scroll_event_interval_milliseconds_threshold p | None \<Rightarrow> False)"
      using going by simp_all
    have "scroll f p now c = (\<not> ?z, (if x \<noteq> 0 \<or> y \<noteq> 0 then Some (mk_motion 0 0 (- y) x) else None),
      c\<lparr>co_momentum_count := ?n, co_momentum_x := mx, co_momentum_y := my,
         co_last_scroll_time_point := ?l, co_total_x := reduce (co_total_x c) (co_momentum_minus c),
         co_total_y := reduce (co_total_y c) (co_momentum_minus c), co_momentum_wait := ?w\<rparr>)"
      unfolding scroll_def Let_def if_not_P [OF False] if_not_P [OF n] if_not_P [OF t]
      using cv by (cases ?z; cases "x \<noteq> 0 \<or> y \<noteq> 0") (simp_all del: of_int_add)
    then have s: "go \<longleftrightarrow> \<not> ?z" "out = (if x \<noteq> 0 \<or> y \<noteq> 0 then Some (mk_motion 0 0 (- y) x) else None)"
      "c' = c\<lparr>co_momentum_count := ?n, co_momentum_x := mx, co_momentum_y := my,
         co_last_scroll_time_point := ?l, co_total_x := reduce (co_total_x c) (co_momentum_minus c),
         co_total_y := reduce (co_total_y c) (co_momentum_minus c), co_momentum_wait := ?w\<rparr>"
      using assms by simp_all
    have "keeps_zero f \<longrightarrow> (co_total_x c = 0 \<longrightarrow> ?dx = 0) \<and> (co_total_y c = 0 \<longrightarrow> ?dy = 0)"
      by (simp add: keeps_zero_def)
    moreover have "?w \<le> 10" using False by simp
    ultimately show ?thesis using moves [OF _ cv _ s(2,3)] s(1,3) False by simp
  qed
qed

lemma scroll_inv:
  assumes f: "keeps_zero f" and p: "1 \<le> op_threshold p" and c: "counter_inv c" and h: "scroll f p now c = (go, out, c')"
  shows "counter_inv c'"
  using h
proof (cases rule: scroll_cases)
  case (moves dx dy x mx y my l w)
  have x: "co_direction c \<noteq> Dir_horizontal \<Longrightarrow> mx = 0" and y: "co_direction c \<noteq> Dir_vertical \<Longrightarrow> my = 0"
    using moves(2,3,4) c f p by (auto simp: counter_inv_def)
  have "reduce (co_total_x c) (co_momentum_minus c) \<noteq> 0 \<or> reduce (co_total_y c) (co_momentum_minus c) \<noteq> 0 \<Longrightarrow>
      co_total_x c \<noteq> 0 \<or> co_total_y c \<noteq> 0" by auto
  then show ?thesis unfolding moves(6) using c x y by (simp add: counter_inv_def)
qed (use c in \<open>auto simp: counter_inv_def\<close>)

definition counter_config :: "floating \<Rightarrow> options \<Rightarrow> bool" where
  "counter_config f p \<longleftrightarrow> keeps_zero f \<and> options_ok p"

lemma counter_tick_inv:
  assumes "counter_config f p" "counter_inv c" "counter_tick f pa p now c = (out, c')"
  shows "counter_inv c'"
proof -
  have f: "keeps_zero f" "1 \<le> op_threshold p" using assms(1) by (auto simp: counter_config_def options_ok_def)
  obtain g1 c1 g2 c2 where s: "process_entries f pa p now c = (g1, c1)" "scroll f p now c1 = (g2, out, c2)"
      "c' = c2 \<or> c' = c2\<lparr>co_timer := False\<rparr>"
    using assms(3) by (auto simp: counter_tick_def Let_def split: prod.split_asm if_split_asm)
  have "counter_inv c2" using scroll_inv [OF f process_entries_inv [OF f assms(2) s(1)] s(2)] .
  then show ?thesis using s(3) by (auto simp: counter_inv_def)
qed

text \<open>The operations of a counter; a tick that is due while the timer is off does not happen.\<close>

datatype counter_op = Co_update pointing_motion milliseconds | Co_reset | Co_tick milliseconds

fun counter_step :: "floating \<Rightarrow> parameters \<Rightarrow> options \<Rightarrow> counter_op \<Rightarrow> counter \<Rightarrow> counter" where
  "counter_step f pa p (Co_update m t) c = counter_update m t c"
| "counter_step f pa p Co_reset c = counter_reset c"
| "counter_step f pa p (Co_tick now) c = (if co_timer c then snd (counter_tick f pa p now c) else c)"

interpretation counters: machine "counter_step f pa p" "new_counter u" counter_inv "\<lambda>_. counter_config f p"
  for f pa p u
proof
  fix s op assume h: "counter_inv s" "counter_config f p"
  show "counter_inv (counter_step f pa p op s)"
  proof (cases op)
    case (Co_tick now)
    then show ?thesis using h counter_tick_inv [of f p s pa now] by (cases "counter_tick f pa p now s") simp
  qed (simp_all add: h counter_inv_update counter_inv_reset)
qed (rule counter_inv_new)

subsection \<open>The timer ends\<close>

text \<open>Rounds that go down a well-founded relation come to an end.\<close>

locale progressing =
  fixes f :: "'s \<Rightarrow> bool \<times> 's"
    and below :: "('s \<times> 's) set"
    and inv :: "'s \<Rightarrow> bool"
  assumes wf_below: "wf below"
    and goes_down: "inv s \<Longrightarrow> f s = (True, s') \<Longrightarrow> (s', s) \<in> below \<and> inv s'"
begin

lemma rounds_end: "inv s \<Longrightarrow> \<exists>n s'. drive n f s = Some s'"
proof (induction s rule: wf_induct_rule [OF wf_below])
  case (1 s)
  obtain b s1 where fs: "f s = (b, s1)" by fastforce
  show ?case
  proof (cases b)
    case True
    then have "f s = (True, s1)" using fs by simp
    then obtain n s' where "drive n f s1 = Some s'" using "1.IH" "1.prems" goes_down by blast
    then have "drive (Suc n) f s = Some s'" using fs True by simp
    then show ?thesis by blast
  next
    case False
    then have "drive 1 f s = Some s1" using fs by simp
    then show ?thesis by blast
  qed
qed

end

definition timer_round ::
    "floating \<Rightarrow> parameters \<Rightarrow> options \<Rightarrow> (nat \<Rightarrow> milliseconds) \<Rightarrow> nat \<times> counter \<Rightarrow> bool \<times> (nat \<times> counter)" where
  "timer_round f pa p clock s =
     (let c = snd (counter_tick f pa p (clock (fst s)) (snd s)) in (co_timer c, (Suc (fst s), c)))"

definition motion_left :: "counter \<Rightarrow> nat" where
  "motion_left c = 12 * nat (max \<bar>co_total_x c\<bar> \<bar>co_total_y c\<bar>) + nat (co_momentum_wait c)"

definition settled :: "options \<Rightarrow> (nat \<Rightarrow> milliseconds) \<Rightarrow> counter \<Rightarrow> bool" where
  "settled p clock c \<longleftrightarrow>
     (\<forall>e\<in>set (co_entries c). \<forall>i. ce_time_point e + op_recent_time_duration_milliseconds p < clock i)"

lemma collect_chunk_rest: "collect_chunk w t0 es acc = (acc', es') \<Longrightarrow> suffix es' es"
  by (induction w t0 es acc rule: collect_chunk.induct) (auto split: if_split_asm intro: suffix_ConsI)

lemma restart_entries [simp]:
  "co_entries (snd (restart_x p x s)) = co_entries (snd s)" "co_entries (snd (restart_y p y s)) = co_entries (snd s)"
  by (cases s; simp add: restart_x_def restart_y_def)+

lemma add_motion_entries: "co_entries (add_motion f pa p i x y c) = co_entries c"
proof -
  have i: "co_entries (if b then u else v) = (if b then co_entries u else co_entries v)" for b u v by simp
  have u: "co_entries (d\<lparr>co_total_x := v1, co_total_y := v2\<rparr>) = co_entries d"
    "co_entries (d\<lparr>co_momentum_minus := v1, co_last_scroll_time_point := v3, co_momentum_count := v4, co_momentum_wait := v5\<rparr>)
      = co_entries d" for d v1 v2 v3 v4 v5 by simp_all
  show ?thesis unfolding add_motion_def Let_def case_prod_beta
    by (simp only: i u restart_entries snd_conv if_cancel)
qed

lemma process_entries_rest:
  assumes "1 \<le> op_recent_time_duration_milliseconds p" "process_entries f pa p now c = (go, c')"
    "co_entries c = e # es" "ce_time_point e + op_recent_time_duration_milliseconds p < now"
  shows "suffix (co_entries c') es"
proof -
  have "\<not> now - ce_time_point e \<le> op_recent_time_duration_milliseconds p" using assms(4) by simp
  then show ?thesis
    using assms(1-3)
    by (auto simp: process_entries_def Let_def add_motion_entries set_direction_def reset_direction_def
        dest!: collect_chunk_rest split: prod.split_asm if_split_asm)
qed

lemma scroll_goes_down:
  assumes "counter_inv c" "scroll f p now c = (True, out, c')"
  shows "motion_left c' < motion_left c \<and> co_entries c' = co_entries c"
  using assms(2)
proof (cases rule: scroll_cases)
  case (moves dx dy x mx y my l w)
  have nz: "co_total_x c \<noteq> 0 \<or> co_total_y c \<noteq> 0" using moves(6,7) by auto
  then have m: "1 \<le> co_momentum_minus c" using assms(1) by (auto simp: counter_inv_def)
  let ?rx = "reduce (co_total_x c) (co_momentum_minus c)" and ?ry = "reduce (co_total_y c) (co_momentum_minus c)"
  have less: "max \<bar>?rx\<bar> \<bar>?ry\<bar> < max \<bar>co_total_x c\<bar> \<bar>co_total_y c\<bar>"
    using nz reduce_less [OF m, of "co_total_x c"] reduce_less [OF m, of "co_total_y c"]
      reduce_le [OF m, of "co_total_x c"] reduce_le [OF m, of "co_total_y c"]
    by (cases "co_total_x c = 0"; cases "co_total_y c = 0") auto
  have "12 * nat m' + nat w < 12 * nat m" if "m' < m" "0 \<le> m'" for m m' :: int
    using that moves(8) by linarith
  note this [OF less]
  moreover have "0 \<le> max \<bar>?rx\<bar> \<bar>?ry\<bar>" by simp
  ultimately have "12 * nat (max \<bar>?rx\<bar> \<bar>?ry\<bar>) + nat w < 12 * nat (max \<bar>co_total_x c\<bar> \<bar>co_total_y c\<bar>)" by blast
  then show ?thesis unfolding moves(6) motion_left_def by simp
qed (auto simp: motion_left_def)

interpretation timer: progressing "timer_round f pa p clock"
    "measures [\<lambda>s. length (co_entries (snd s)), \<lambda>s. motion_left (snd s)]"
    "\<lambda>s. counter_config f p \<and> counter_inv (snd s) \<and> settled p clock (snd s)" for f pa p clock
proof
  fix s s'
  assume h: "counter_config f p \<and> counter_inv (snd s) \<and> settled p clock (snd s)" "timer_round f pa p clock s = (True, s')"
  let ?now = "clock (fst s)" and ?c = "snd s" and ?d = "snd s'"
  obtain out where t: "counter_tick f pa p ?now ?c = (out, ?d)"
    using h(2) by (cases "counter_tick f pa p ?now ?c") (auto simp: timer_round_def Let_def)
  have on: "co_timer ?d" using h(2) by (auto simp: timer_round_def Let_def)
  have inv: "counter_inv ?d" using counter_tick_inv h(1) t by blast
  obtain g1 c1 g2 c2 where c: "process_entries f pa p ?now ?c = (g1, c1)" "scroll f p ?now c1 = (g2, out, c2)"
      "?d = c2" "g1 \<or> g2"
  proof -
    obtain g1 c1 where a: "process_entries f pa p ?now ?c = (g1, c1)" by fastforce
    obtain g2 out' c2 where b: "scroll f p ?now c1 = (g2, out', c2)" by (cases "scroll f p ?now c1")
    have d: "out = out'" "?d = (if g1 \<or> g2 then c2 else c2\<lparr>co_timer := False\<rparr>)"
      using t a b by (simp_all add: counter_tick_def Let_def)
    have "g1 \<or> g2" using on d(2) by (cases "g1 \<or> g2") simp_all
    then show ?thesis using that a b d by simp
  qed
  have e2: "co_entries ?d = co_entries c1"
    using c(2,3) by (cases rule: scroll_cases) auto
  show "(s', s) \<in> measures [\<lambda>s. length (co_entries (snd s)), \<lambda>s. motion_left (snd s)] \<and>
      counter_config f p \<and> counter_inv ?d \<and> settled p clock ?d"
  proof (cases "co_entries ?c")
    case Nil
    then have "c1 = ?c" "g2" using c by (auto simp: process_entries_def)
    with scroll_goes_down [of ?c f p ?now out c2] c(2,3) h(1) inv Nil show ?thesis by (auto simp: settled_def)
  next
    case (Cons e es)
    have "suffix (co_entries c1) es"
      using process_entries_rest [OF _ c(1) Cons] h(1) Cons by (auto simp: settled_def counter_config_def options_ok_def)
    then have "suffix (co_entries ?d) es" using e2 by simp
    then have "length (co_entries ?d) < length (co_entries ?c)" "set (co_entries ?d) \<subseteq> set (co_entries ?c)"
      using Cons by (auto dest: suffix_length_le set_mono_suffix)
    then show ?thesis using h(1) inv by (auto simp: settled_def)
  qed
qed simp

subsection \<open>Properties\<close>

text \<open>
  C32. Whatever motions and resets a counter has seen, once no motions arrive any more its timer is
  switched off after finitely many calls: the totals shrink in every call that does not wait.
\<close>

theorem scrolling_ends:
  assumes "keeps_zero f" and "options_update j default_options = Inr p"
    and "c = run_ops (counter_step f pa p) ops (new_counter u)"
    and "\<forall>e\<in>set (co_entries c). \<forall>i. ce_time_point e + op_recent_time_duration_milliseconds p < clock i"
  shows "\<exists>n i c'. drive n (timer_round f pa p clock) (0, c) = Some (i, c')"
proof -
  have "options_ok p" using options_update_ok [OF assms(2)] by (simp add: default_options_def options_ok_def)
  then have cfg: "counter_config f p" using assms(1) by (simp add: counter_config_def)
  have "counter_inv c" unfolding assms(3) by (rule counters.reachable_inv) (simp add: cfg)
  then show ?thesis using timer.rounds_end [of f p "(0, c)" clock pa] cfg assms(4) by (auto simp: settled_def)
qed

definition usual_parameters :: parameters where
  "usual_parameters = \<lparr>pa_simultaneous_threshold_milliseconds = 50, pa_to_if_alone_timeout_milliseconds = 1000,
     pa_to_if_held_down_threshold_milliseconds = 500, pa_to_delayed_action_delay_milliseconds = 500,
     pa_mouse_motion_to_scroll_speed = 100\<rparr>"

lemma exact_keeps_zero: "keeps_zero exact"
  by (simp add: keeps_zero_def exact_def truncate_rat_def)

definition one_motion :: "counter_op list" where
  "one_motion = [Co_update (mk_motion 3 200 0 0) 5]"

theorem scrolling_ends_witness:
  "let c = run_ops (counter_step exact usual_parameters default_options) one_motion (new_counter 0) in
     co_timer c \<and> (\<exists>n i c'. drive n (timer_round exact usual_parameters default_options (\<lambda>i. 200 + 20 * int i)) (0, c) = Some (i, c'))"
proof -
  let ?c = "run_ops (counter_step exact usual_parameters default_options) one_motion (new_counter 0)"
  have "options_update (J_object []) default_options = Inr default_options"
    by (simp add: options_update_def)
  from scrolling_ends [OF exact_keeps_zero this refl, of usual_parameters one_motion 0 "\<lambda>i. 200 + 20 * int i"]
  show ?thesis by (simp add: one_motion_def counter_update_def new_counter_def mk_motion_def default_options_def Let_def)
qed

text \<open>
  Scrolling keeps to one axis: in every state a counter can reach, a scroll event turns one wheel
  only, and moves no pointer.
\<close>

theorem scrolls_one_axis:
  assumes "keeps_zero f" and "options_update j default_options = Inr p"
    and "counter_tick f pa p now (run_ops (counter_step f pa p) ops (new_counter u)) = (Some m, c')"
  shows "pm_x m = 0 \<and> pm_y m = 0 \<and>
    (pm_vertical_wheel m = 0 \<and> pm_horizontal_wheel m \<noteq> 0 \<or> pm_vertical_wheel m \<noteq> 0 \<and> pm_horizontal_wheel m = 0)"
proof -
  let ?c = "run_ops (counter_step f pa p) ops (new_counter u)"
  have ok: "options_ok p" using options_update_ok [OF assms(2)] by (simp add: default_options_def options_ok_def)
  then have th: "1 \<le> op_threshold p" by (simp add: options_ok_def)
  have cfg: "counter_config f p" using assms(1) ok by (simp add: counter_config_def)
  have "counter_inv ?c" by (rule counters.reachable_inv) (simp add: cfg)
  obtain g1 c1 g2 c2 where s: "process_entries f pa p now ?c = (g1, c1)" "scroll f p now c1 = (g2, Some m, c2)"
    using assms(3) by (auto simp: counter_tick_def Let_def split: prod.split_asm)
  have inv: "counter_inv c1" using process_entries_inv [OF assms(1) th \<open>counter_inv ?c\<close> s(1)] .
  show ?thesis using s(2)
  proof (cases rule: scroll_cases)
    case (moves dx dy x mx y my l w)
    have "co_direction c1 \<noteq> Dir_horizontal \<Longrightarrow> x = 0" "co_direction c1 \<noteq> Dir_vertical \<Longrightarrow> y = 0"
      using moves(2,3,4) inv assms(1) th by (auto simp: counter_inv_def)
    then show ?thesis using moves(5) by (cases "co_direction c1") (auto simp: mk_motion_def split: if_split_asm)
  qed auto
qed

theorem scrolls_one_axis_witness:
  "case counter_tick exact usual_parameters default_options 300
      (run_ops (counter_step exact usual_parameters default_options) one_motion (new_counter 0)) of
    (Some m, _) \<Rightarrow> pm_vertical_wheel m \<noteq> 0 \<and> pm_horizontal_wheel m = 0 | (None, _) \<Rightarrow> False"
proof -
  let ?c = "run_ops (counter_step exact usual_parameters default_options) one_motion (new_counter 0)"
  have "case fst (counter_tick exact usual_parameters default_options 300 ?c) of
      Some m \<Rightarrow> pm_vertical_wheel m = -1 | None \<Rightarrow> False"
    by code_simp
  then obtain m c' where m: "counter_tick exact usual_parameters default_options 300 ?c = (Some m, c')"
      "pm_vertical_wheel m = -1"
    by (cases "counter_tick exact usual_parameters default_options 300 ?c") (auto split: option.split_asm)
  have "options_update (J_object []) default_options = Inr default_options"
    by (simp add: options_update_def)
  from scrolls_one_axis [OF exact_keeps_zero this m(1)] m show ?thesis by simp
qed

text \<open>
  Rounding away from zero is lopsided: a whole positive amount is kept, a whole negative one grows by
  one; only amounts that are not whole are treated alike in both directions.
\<close>

theorem round_up_is_lopsided:
  assumes "0 < n" and "r \<notin> \<int>"
  shows "round_up (of_int n) = n \<and> round_up (- of_int n) = - n - 1 \<and> round_up (- r) = - round_up r"
proof -
  have "r \<noteq> 0" using assms(2) by auto
  have "\<lceil>- r\<rceil> = - \<lceil>r\<rceil> + 1"
    using assms(2) by (metis add.commute add_diff_cancel_left' ceiling_altdef ceiling_def diff_minus_eq_add floor_of_int minus_diff_eq minus_minus Ints_of_int)
  moreover have "\<lceil>- (of_int n :: rat)\<rceil> = - n" by (metis ceiling_of_int of_int_minus)
  ultimately show ?thesis using assms(1) \<open>r \<noteq> 0\<close> by (auto simp: round_up_def)
qed

theorem round_up_is_lopsided_witness:
  "round_up (of_int 3) = 3 \<and> round_up (- of_int 3) = -4 \<and> round_up (- (1 / 2)) = - round_up (1 / 2)"
proof -
  have "(1 / 2 :: rat) \<notin> \<int>"
  proof
    assume "(1 / 2 :: rat) \<in> \<int>"
    then obtain k :: int where "(1 / 2 :: rat) = of_int k" by (auto elim: Ints_cases)
    then have "(of_int 1 :: rat) = of_int (2 * k)" by (simp add: field_simps)
    then have "1 = 2 * k" by (simp only: of_int_eq_iff)
    then show False by presburger
  qed
  from round_up_is_lopsided [OF _ this, of 3] show ?thesis by simp
qed

end
