(* ===== verification/MouseBasic.thy ===== *)
theory MouseBasic
  imports BasicJson
begin

text \<open>
  The manipulator of mouse motions (\<open>mouse_basic.hpp\<close>): it swaps, flips and discards the axes of the
  pointing motions it takes.
\<close>

record axes =
  ax_x :: bool
  ax_y :: bool
  ax_vertical_wheel :: bool
  ax_horizontal_wheel :: bool

definition no_axes :: axes where
  "no_axes = \<lparr>ax_x = False, ax_y = False, ax_vertical_wheel = False, ax_horizontal_wheel = False\<rparr>"

record mouse_basic =
  mb_validity :: validity
  mb_conditions :: "condition list"
  mb_flip :: axes
  mb_swap_xy :: bool
  mb_swap_wheels :: bool
  mb_discard :: axes

definition default_mouse_basic :: mouse_basic where
  "default_mouse_basic = \<lparr>mb_validity = Valid, mb_conditions = [], mb_flip = no_axes, mb_swap_xy = False,
     mb_swap_wheels = False, mb_discard = no_axes\<rparr>"

subsection \<open>Reading\<close>

text \<open>A name that is no axis is skipped.\<close>

definition set_axis :: "string \<Rightarrow> axes \<Rightarrow> axes" where
  "set_axis s a =
     (if s = ''x'' then a\<lparr>ax_x := True\<rparr>
      else if s = ''y'' then a\<lparr>ax_y := True\<rparr>
      else if s = ''vertical_wheel'' then a\<lparr>ax_vertical_wheel := True\<rparr>
      else if s = ''horizontal_wheel'' then a\<lparr>ax_horizontal_wheel := True\<rparr>
      else a)"

definition set_swap :: "string \<Rightarrow> mouse_basic \<Rightarrow> mouse_basic" where
  "set_swap s m =
     (if s = ''xy'' then m\<lparr>mb_swap_xy := True\<rparr>
      else if s = ''wheels'' then m\<lparr>mb_swap_wheels := True\<rparr>
      else m)"

fun each_string :: "string \<Rightarrow> (string \<Rightarrow> 's \<Rightarrow> 's) \<Rightarrow> json list \<Rightarrow> 's \<Rightarrow> json_error + 's" where
  "each_string k f [] s = Inr s"
| "each_string k f (j # js) s =
     and_then (requires_string (''items in `'' @ k @ ''`'') j) (\<lambda>x. each_string k f js (f x s))"

definition mouse_basic_item :: "json \<Rightarrow> string \<Rightarrow> json \<Rightarrow> mouse_basic \<Rightarrow> json_error + mouse_basic" where
  "mouse_basic_item j k v m =
     (if k = ''flip'' then
        and_then (requires_array (quoted k) v) (\<lambda>js. each_string k (\<lambda>s m. m\<lparr>mb_flip := set_axis s (mb_flip m)\<rparr>) js m)
      else if k = ''swap'' then
        and_then (requires_array (quoted k) v) (\<lambda>js. each_string k set_swap js m)
      else if k = ''discard'' then
        and_then (requires_array (quoted k) v) (\<lambda>js. each_string k (\<lambda>s m. m\<lparr>mb_discard := set_axis s (mb_discard m)\<rparr>) js m)
      else if k \<in> {''description'', ''conditions'', ''parameters'', ''type''} then Inr m
      else Inl (unknown_key_in j k))"

definition mouse_basic_from_json :: "json \<Rightarrow> json_error + mouse_basic" where
  "mouse_basic_from_json j =
     and_then (requires_object ''json'' j) (\<lambda>xs. fold_items (mouse_basic_item j) xs default_mouse_basic)"

subsection \<open>Manipulating\<close>

definition flip_axes :: "axes \<Rightarrow> pointing_motion \<Rightarrow> pointing_motion" where
  "flip_axes a m =
     \<lparr>pm_x = (if ax_x a then - pm_x m else pm_x m),
      pm_y = (if ax_y a then - pm_y m else pm_y m),
      pm_vertical_wheel = (if ax_vertical_wheel a then - pm_vertical_wheel m else pm_vertical_wheel m),
      pm_horizontal_wheel = (if ax_horizontal_wheel a then - pm_horizontal_wheel m else pm_horizontal_wheel m)\<rparr>"

definition discard_axes :: "axes \<Rightarrow> pointing_motion \<Rightarrow> pointing_motion" where
  "discard_axes a m =
     \<lparr>pm_x = (if ax_x a then 0 else pm_x m),
      pm_y = (if ax_y a then 0 else pm_y m),
      pm_vertical_wheel = (if ax_vertical_wheel a then 0 else pm_vertical_wheel m),
      pm_horizontal_wheel = (if ax_horizontal_wheel a then 0 else pm_horizontal_wheel m)\<rparr>"

definition swap_xy :: "pointing_motion \<Rightarrow> pointing_motion" where
  "swap_xy m = m\<lparr>pm_x := pm_y m, pm_y := pm_x m\<rparr>"

definition swap_wheels :: "pointing_motion \<Rightarrow> pointing_motion" where
  "swap_wheels m = m\<lparr>pm_vertical_wheel := pm_horizontal_wheel m, pm_horizontal_wheel := pm_vertical_wheel m\<rparr>"

definition transform_motion :: "mouse_basic \<Rightarrow> pointing_motion \<Rightarrow> pointing_motion" where
  "transform_motion b m =
     (let m1 = (if mb_swap_xy b then swap_xy m else m);
          m2 = (if mb_swap_wheels b then swap_wheels m1 else m1)
      in discard_axes (mb_discard b) (flip_axes (mb_flip b) m2))"

definition any_axis :: "axes \<Rightarrow> bool" where
  "any_axis a \<longleftrightarrow> ax_x a \<or> ax_y a \<or> ax_vertical_wheel a \<or> ax_horizontal_wheel a"

definition changes_motion :: "mouse_basic \<Rightarrow> bool" where
  "changes_motion b \<longleftrightarrow> any_axis (mb_flip b) \<or> mb_swap_xy b \<or> mb_swap_wheels b \<or> any_axis (mb_discard b)"

text \<open>\<open>get_if\<close> looks at the alternative of the variant alone.\<close>

definition get_if_pointing_motion :: "event \<Rightarrow> pointing_motion option" where
  "get_if_pointing_motion e = (case ev_value e of V_pointing_motion m \<Rightarrow> Some m | _ \<Rightarrow> None)"

definition mouse_basic_manipulate ::
    "runtime \<Rightarrow> entry \<Rightarrow> mouse_basic \<Rightarrow> event_queue \<Rightarrow> condition_store \<Rightarrow>
     manipulate_result \<times> entry \<times> event_queue \<times> condition_store" where
  "mouse_basic_manipulate rt front b q st =
     (if en_validity front = Invalid \<or> mb_validity b = Invalid then (Passed, front, q, st)
      else (let (ok, env, st1) = conditions_fulfilled rt (context_of front) (mb_conditions b) (q_environment q, st);
                q1 = q\<lparr>q_environment := env\<rparr>
            in if \<not> ok then (Passed, front, q1, st1)
               else (case get_if_pointing_motion (en_event front) of
                  None \<Rightarrow> (Passed, front, q1, st1)
                | Some m \<Rightarrow>
                    if changes_motion b then
                      (Manipulated_result, front\<lparr>en_validity := Invalid\<rparr>,
                       emplace_back_entry rt (en_device_id front) (en_event_time_stamp front)
                         (pointing_motion_event (transform_motion b m)) (en_event_type front)
                         (en_event_integer_value front) (en_original_event front) Manipulated (en_lazy front) Valid q1,
                       st1)
                    else (Passed, front, q1, st1))))"

subsection \<open>Properties\<close>

text \<open>A rule that only swaps and flips loses no motion: its transformation can be undone.\<close>

lemma swap_xy_swap_xy [simp]: "swap_xy (swap_xy m) = m"
  by (simp add: swap_xy_def)

lemma swap_wheels_swap_wheels [simp]: "swap_wheels (swap_wheels m) = m"
  by (simp add: swap_wheels_def)

lemma flip_axes_flip_axes [simp]: "flip_axes a (flip_axes a m) = m"
  by (simp add: flip_axes_def)

lemma discard_no_axes [simp]: "discard_axes no_axes m = m"
  by (simp add: discard_axes_def no_axes_def)

definition undo_motion :: "mouse_basic \<Rightarrow> pointing_motion \<Rightarrow> pointing_motion" where
  "undo_motion b m =
     (let m1 = flip_axes (mb_flip b) m;
          m2 = (if mb_swap_wheels b then swap_wheels m1 else m1)
      in if mb_swap_xy b then swap_xy m2 else m2)"

lemma undo_transform: "mb_discard b = no_axes \<Longrightarrow> undo_motion b (transform_motion b m) = m"
  by (simp add: undo_motion_def transform_motion_def Let_def)

end
