(* ===== verification/ManipulatorManager.thy ===== *)
theory ManipulatorManager
  imports BasicJson
begin

text \<open>
  The manager of manipulators and the connector that joins managers by queues
  (\<open>manipulator_manager.hpp\<close>, \<open>manipulator_managers_connector.hpp\<close>). A class of manipulators is the
  table of the virtual functions of \<open>manipulators::base\<close> on the state of its objects; the laws the
  manager relies on are the locale \<open>manipulator_class\<close>.
\<close>

subsection \<open>Classes of manipulators\<close>

record 'm virtual_table =
  vt_already_manipulated :: "entry \<Rightarrow> 'm \<Rightarrow> bool"
  vt_manipulate :: "runtime \<Rightarrow> time_point \<Rightarrow> entry list \<Rightarrow> entry \<Rightarrow> 'm \<Rightarrow> event_queue \<Rightarrow> condition_store \<Rightarrow>
    access_error + manipulate_result \<times> entry \<times> 'm \<times> event_queue \<times> condition_store"
  vt_active :: "'m \<Rightarrow> bool"
  vt_needs_virtual_hid_pointing :: "'m \<Rightarrow> bool"
  vt_handle_released :: "entry \<Rightarrow> 'm \<Rightarrow> event_queue \<Rightarrow> 'm \<times> event_queue"
  vt_handle_ungrabbed :: "device_id \<Rightarrow> event_queue \<Rightarrow> time_point \<Rightarrow> 'm \<Rightarrow> 'm"
  vt_handle_event_tap :: "entry \<Rightarrow> 'm \<Rightarrow> event_queue \<Rightarrow> 'm \<times> event_queue"
  vt_validity :: "'m \<Rightarrow> validity"
  vt_set_validity :: "validity \<Rightarrow> 'm \<Rightarrow> 'm"

definition basic_class :: "basic_manipulator virtual_table" where
  "basic_class =
     \<lparr>vt_already_manipulated = already_manipulated,
      vt_manipulate = (\<lambda>rt now input front b q st.
        and_then (manipulate rt now input front \<lparr>w_basic = b, w_queue = q, w_store = st\<rparr>) (\<lambda>(r, front1, w).
          Inr (r, front1, w_basic w, w_queue w, w_store w))),
      vt_active = b_active,
      vt_needs_virtual_hid_pointing = b_needs_virtual_hid_pointing,
      vt_handle_released = (\<lambda>_ b q. (b, q)),
      vt_handle_ungrabbed = (\<lambda>d _ _ b. b_handle_device_ungrabbed d b),
      vt_handle_event_tap = (\<lambda>front b q. (b_handle_pointing_device_event_from_event_tap front b, q)),
      vt_validity = b_validity,
      vt_set_validity = (\<lambda>v b. b\<lparr>b_validity := v\<rparr>)\<rparr>"

text \<open>The manipulator that does nothing; its state is its validity.\<close>

definition nop_class :: "validity virtual_table" where
  "nop_class =
     \<lparr>vt_already_manipulated = (\<lambda>_ _. False),
      vt_manipulate = (\<lambda>_ _ _ front v q st. Inr (Passed, front, v, q, st)),
      vt_active = (\<lambda>_. False),
      vt_needs_virtual_hid_pointing = (\<lambda>_. False),
      vt_handle_released = (\<lambda>_ v q. (v, q)),
      vt_handle_ungrabbed = (\<lambda>_ _ _ v. v),
      vt_handle_event_tap = (\<lambda>_ v q. (v, q)),
      vt_validity = (\<lambda>v. v),
      vt_set_validity = (\<lambda>v _. v)\<rparr>"

subsection \<open>The manager\<close>

record 'm managed =
  mg_manipulators :: "'m list"
  mg_input :: event_queue
  mg_output :: event_queue
  mg_store :: condition_store

definition push_back_manipulator :: "'m \<Rightarrow> 'm managed \<Rightarrow> 'm managed" where
  "push_back_manipulator m s = s\<lparr>mg_manipulators := mg_manipulators s @ [m]\<rparr>"

definition remove_invalid_manipulators :: "'m virtual_table \<Rightarrow> 'm list \<Rightarrow> 'm list" where
  "remove_invalid_manipulators c ms = filter (\<lambda>m. \<not> (vt_validity c m = Invalid \<and> \<not> vt_active c m)) ms"

definition invalidate_manipulators :: "'m virtual_table \<Rightarrow> 'm list \<Rightarrow> 'm list" where
  "invalidate_manipulators c ms = remove_invalid_manipulators c (map (vt_set_validity c Invalid) ms)"

definition get_manipulators_size :: "'m list \<Rightarrow> nat" where
  "get_manipulators_size ms = length ms"

definition needs_virtual_hid_pointing :: "'m virtual_table \<Rightarrow> 'm list \<Rightarrow> bool" where
  "needs_virtual_hid_pointing c ms = list_ex (vt_needs_virtual_hid_pointing c) ms"

text \<open>The loops over the manipulators; the one that manipulates stops when a manipulator has to wait.\<close>

fun handle_each :: "('m \<Rightarrow> event_queue \<Rightarrow> 'm \<times> event_queue) \<Rightarrow> 'm list \<Rightarrow> event_queue \<Rightarrow> 'm list \<times> event_queue" where
  "handle_each f [] q = ([], q)"
| "handle_each f (m # ms) q = (let (m1, q1) = f m q; (ms1, q2) = handle_each f ms q1 in (m1 # ms1, q2))"

fun manipulate_each ::
    "'m virtual_table \<Rightarrow> runtime \<Rightarrow> time_point \<Rightarrow> entry list \<Rightarrow> entry \<Rightarrow> 'm list \<Rightarrow> event_queue \<Rightarrow> condition_store \<Rightarrow>
     access_error + bool \<times> entry \<times> 'm list \<times> event_queue \<times> condition_store" where
  "manipulate_each c rt now rest front [] q st = Inr (False, front, [], q, st)"
| "manipulate_each c rt now rest front (m # ms) q st =
     and_then (vt_manipulate c rt now (front # rest) front m q st) (\<lambda>(r, front1, m1, q1, st1).
       if r = Needs_wait_until_time_stamp then Inr (True, front1, m1 # ms, q1, st1)
       else and_then (manipulate_each c rt now rest front1 ms q1 st1) (\<lambda>(b, front2, ms1, q2, st2).
         Inr (b, front2, m1 # ms1, q2, st2)))"

text \<open>What the entry does to the output and the manipulators, by the type of its event.\<close>

definition handle_front ::
    "'m virtual_table \<Rightarrow> runtime \<Rightarrow> time_point \<Rightarrow> entry list \<Rightarrow> entry \<Rightarrow> 'm managed \<Rightarrow>
     access_error + bool \<times> entry \<times> 'm managed" where
  "handle_front c rt now rest front s =
     (let q = mg_output s; ms = mg_manipulators s; d = en_device_id front; t = ev_type (en_event front) in
      if t = Tag_device_keys_and_pointing_buttons_are_released then
        (let (ms1, q1) = handle_each (vt_handle_released c front) ms
               (q_erase_all_active_pointing_buttons_except_lock d
                 (q_erase_all_active_modifier_flags_except_lock_and_sticky d q))
         in Inr (False, front, s\<lparr>mg_manipulators := ms1, mg_output := q1\<rparr>))
      else if t = Tag_device_ungrabbed then
        (let q1 = q_erase_all_active_pointing_buttons d (q_erase_all_active_modifier_flags d q)
         in Inr (False, front, s\<lparr>mg_manipulators := map (vt_handle_ungrabbed c d q1 (en_time front)) ms, mg_output := q1\<rparr>))
      else if t = Tag_pointing_device_event_from_event_tap then
        (let (ms1, q1) = handle_each (vt_handle_event_tap c front) ms q
         in Inr (False, front, s\<lparr>mg_manipulators := ms1, mg_output := q1\<rparr>))
      else if t \<in> {Tag_none, Tag_device_grabbed, Tag_frontmost_application_changed, Tag_input_source_changed,
                   Tag_set_variable, Tag_virtual_hid_devices_state_changed} then Inr (False, front, s)
      else if en_validity front = Valid \<and> list_ex (vt_already_manipulated c front) ms then
        Inr (False, front\<lparr>en_validity := Invalid\<rparr>, s)
      else and_then (manipulate_each c rt now rest front ms q (mg_store s)) (\<lambda>(b, front1, ms1, q1, st1).
             Inr (b, front1, s\<lparr>mg_manipulators := ms1, mg_output := q1, mg_store := st1\<rparr>)))"

definition finish_front :: "runtime \<Rightarrow> bool \<Rightarrow> entry \<Rightarrow> 'm managed \<Rightarrow> 'm managed" where
  "finish_front rt reorder front s =
     (let q1 = (if en_validity front = Valid then push_back_entry rt front (mg_output s) else mg_output s);
          q2 = (if reorder then sort_events q1 else q1)
      in s\<lparr>mg_output := q2, mg_input := erase_front_event (mg_input s)\<rparr>)"

definition manager_manipulate ::
    "'m virtual_table \<Rightarrow> runtime \<Rightarrow> bool \<Rightarrow> time_point \<Rightarrow> 'm managed \<Rightarrow> access_error + bool \<times> 'm managed" where
  "manager_manipulate c rt reorder now s =
     (case q_events (mg_input s) of
        [] \<Rightarrow> Inr (False, s\<lparr>mg_manipulators := remove_invalid_manipulators c (mg_manipulators s)\<rparr>)
      | front # rest \<Rightarrow>
          and_then (handle_front c rt now rest front s) (\<lambda>(wait, front1, s1).
            if wait then
              Inr (False, s1\<lparr>mg_input := (mg_input s1)\<lparr>q_events := front1 # rest\<rparr>,
                             mg_manipulators := remove_invalid_manipulators c (mg_manipulators s1)\<rparr>)
            else Inr (True, finish_front rt reorder front1 s1)))"


subsection \<open>What a class of manipulators promises\<close>

text \<open>
  A manipulator looks at the entry in hand: it may delay it and take it, which invalidates it, but
  never changes what it is. It asks to wait only before the deadline it set.
\<close>

locale manipulator_class =
  fixes c :: "'m virtual_table"
  assumes keeps_entry: "vt_manipulate c rt now input front m q st = Inr (r, front', m', q', st') \<Longrightarrow>
      en_event front' = en_event front \<and> en_event_type front' = en_event_type front \<and>
      en_device_id front' = en_device_id front \<and> en_time front' = en_time front"
    and takes: "vt_manipulate c rt now input front m q st = Inr (r, front', m', q', st') \<Longrightarrow>
      en_validity front' = Invalid \<or> r \<noteq> Manipulated_result \<and> en_validity front' = en_validity front"
    and waits: "vt_manipulate c rt now input front m q st = Inr (Needs_wait_until_time_stamp, front', m', q', st') \<Longrightarrow>
      now < make_time_stamp_with_input_delay (en_event_time_stamp front')"
begin

lemma each_waits:
  "manipulate_each c rt now rest front ms q st = Inr (True, front', ms', q', st') \<Longrightarrow>
   now < make_time_stamp_with_input_delay (en_event_time_stamp front')"
proof (induction ms arbitrary: front q st ms')
  case (Cons m ms)
  obtain r f1 m1 q1 st1 where step: "vt_manipulate c rt now (front # rest) front m q st = Inr (r, f1, m1, q1, st1)"
    using Cons.prems by (auto simp: and_then_Inr_iff)
  show ?case
  proof (cases "r = Needs_wait_until_time_stamp")
    case True
    then show ?thesis using Cons.prems step waits by auto
  next
    case False
    then show ?thesis using Cons.prems step Cons.IH by (auto simp: and_then_Inr_iff)
  qed
qed simp

lemma each_keeps:
  "manipulate_each c rt now rest front ms q st = Inr (b, front', ms', q', st') \<Longrightarrow>
   en_event front' = en_event front \<and> en_event_type front' = en_event_type front \<and>
   en_device_id front' = en_device_id front \<and> en_time front' = en_time front \<and>
   length ms' = length ms \<and> (en_validity front = Invalid \<longrightarrow> en_validity front' = Invalid)"
proof (induction ms arbitrary: front q st ms')
  case (Cons m ms)
  obtain r f1 m1 q1 st1 where step: "vt_manipulate c rt now (front # rest) front m q st = Inr (r, f1, m1, q1, st1)"
    using Cons.prems by (auto simp: and_then_Inr_iff)
  show ?case
  proof (cases "r = Needs_wait_until_time_stamp")
    case True
    then show ?thesis using Cons.prems step keeps_entry [OF step] takes [OF step] by auto
  next
    case False
    then obtain ms1 where "manipulate_each c rt now rest f1 ms q1 st1 = Inr (b, front', ms1, q', st')" "ms' = m1 # ms1"
      using Cons.prems step by (auto simp: and_then_Inr_iff)
    with Cons.IH [OF this(1)] keeps_entry [OF step] takes [OF step] show ?thesis by auto
  qed
qed simp

lemma front_waits:
  "handle_front c rt now rest front s = Inr (True, front', s') \<Longrightarrow>
   now < make_time_stamp_with_input_delay (en_event_time_stamp front')"
  by (auto simp: handle_front_def Let_def and_then_Inr_iff dest: each_waits split: if_split_asm prod.split_asm)

end

lemma handle_front_input:
  "handle_front c rt now rest front s = Inr (b, front', s') \<Longrightarrow> mg_input s' = mg_input s"
  by (auto simp: handle_front_def Let_def and_then_Inr_iff split: if_split_asm prod.split_asm)


text \<open>A manipulator that does nothing satisfies the contract, and so does a rule.\<close>

interpretation nop: manipulator_class nop_class
  by unfold_locales (auto simp: nop_class_def)

lemma match_key_down_entry:
  assumes "match_key_down rt now input front w = (k, f, v)"
  shows "en_event f = en_event front \<and> en_event_type f = en_event_type front \<and> en_device_id f = en_device_id front \<and>
    en_time f = en_time front \<and> en_validity f = en_validity front"
  using assms by (auto simp: match_key_down_def Let_def en_time_def split: prod.split_asm option.split_asm decision.split_asm if_split_asm)

interpretation basic_rule: manipulator_class basic_class
proof
  fix rt now input front m q st r front' m' q' st'
  assume "vt_manipulate basic_class rt now input front m q st = Inr (r, front', m', q', st')"
  then obtain w where w: "manipulate rt now input front \<lparr>w_basic = m, w_queue = q, w_store = st\<rparr> = Inr (r, front', w)"
    by (auto simp: basic_class_def and_then_Inr_iff)
  show "en_event front' = en_event front \<and> en_event_type front' = en_event_type front \<and>
      en_device_id front' = en_device_id front \<and> en_time front' = en_time front"
    using w by (cases rule: manipulate_cases) (auto dest: match_key_down_entry simp: en_time_def)
  show "en_validity front' = Invalid \<or> r \<noteq> Manipulated_result \<and> en_validity front' = en_validity front"
    using w by (cases rule: manipulate_cases) (auto dest: match_key_down_entry split: key_down_outcome.split_asm)
next
  fix rt now input front m q st front' m' q' st'
  assume "vt_manipulate basic_class rt now input front m q st = Inr (Needs_wait_until_time_stamp, front', m', q', st')"
  then obtain w where w: "manipulate rt now input front \<lparr>w_basic = m, w_queue = q, w_store = st\<rparr> =
      Inr (Needs_wait_until_time_stamp, front', w)"
    by (auto simp: basic_class_def and_then_Inr_iff)
  then show "now < make_time_stamp_with_input_delay (en_event_time_stamp front')"
  proof (cases rule: manipulate_cases)
    case (down w1 w2 f v k)
    then show ?thesis using match_key_down_waiting(1) [of rt now input front w2 f v] by (auto split: key_down_outcome.split_asm)
  qed auto
qed

subsection \<open>The loop of a connection\<close>

text \<open>One round of the loop, and the loop itself: it ends at an error or when a round reports that
  there is nothing to do.\<close>

definition manage_step ::
    "'m virtual_table \<Rightarrow> runtime \<Rightarrow> bool \<Rightarrow> time_point \<Rightarrow> access_error + 'm managed \<Rightarrow> bool \<times> (access_error + 'm managed)" where
  "manage_step c rt reorder now r =
     (case r of
        Inl e \<Rightarrow> (False, Inl e)
      | Inr s \<Rightarrow> (case manager_manipulate c rt reorder now s of
          Inl e \<Rightarrow> (False, Inl e)
        | Inr (b, s1) \<Rightarrow> (b, Inr s1)))"

definition remaining :: "access_error + 'm managed \<Rightarrow> nat" where
  "remaining r = (case r of Inl e \<Rightarrow> 0 | Inr s \<Rightarrow> length (q_events (mg_input s)))"

lemma manager_progress:
  "manager_manipulate c rt reorder now s = Inr (True, s') \<Longrightarrow>
   length (q_events (mg_input s)) = Suc (length (q_events (mg_input s')))"
  by (auto simp: manager_manipulate_def and_then_Inr_iff finish_front_def Let_def erase_front_event_def
      dest!: handle_front_input split: list.split_asm if_split_asm)

interpretation loop: driven "manage_step c rt reorder now" remaining "\<lambda>_. True" for c rt reorder now
proof
  fix r r' assume "manage_step c rt reorder now r = (True, r')"
  then show "remaining r' < remaining r"
    by (auto simp: manage_step_def remaining_def dest: manager_progress split: sum.split_asm)
qed simp

function manipulate_loop ::
    "'m virtual_table \<Rightarrow> runtime \<Rightarrow> bool \<Rightarrow> time_point \<Rightarrow> 'm managed \<Rightarrow> access_error + 'm managed" where
  "manipulate_loop c rt reorder now s =
     (case manager_manipulate c rt reorder now s of
        Inl e \<Rightarrow> Inl e
      | Inr (b, s1) \<Rightarrow> if b then manipulate_loop c rt reorder now s1 else Inr s1)"
  by pat_completeness auto

termination
  by (relation "measure (\<lambda>(c, rt, reorder, now, s). length (q_events (mg_input s)))")
    (auto dest: manager_progress)

declare manipulate_loop.simps [simp del]

lemma drive_manipulate_loop:
  "drive n (manage_step c rt reorder now) (Inr s) = Some r \<Longrightarrow> r = manipulate_loop c rt reorder now s"
proof (induction n arbitrary: s)
  case (Suc n)
  then show ?case
    by (cases n) (auto simp: manage_step_def manipulate_loop.simps [of c rt reorder now s] split: sum.split_asm prod.split_asm if_split_asm bool.split_asm)
qed simp

end
