(* ===== verification/ScrollManipulator.thy ===== *)
theory ScrollManipulator
  imports ScrollCounter MouseBasic ManipulatorManager
begin

text \<open>
  The manipulator that turns pointing motions into scroll events (\<open>mouse_motion_to_scroll.hpp\<close>), the
  factory of manipulators (\<open>manipulator_factory.hpp\<close>) and the class of all manipulators of a
  configuration.
\<close>

record motion_to_scroll =
  ms_validity :: validity
  ms_conditions :: "condition list"
  ms_from_modifiers :: from_modifiers_definition
  ms_options :: options
  ms_parameters :: parameters
  ms_counter :: counter
  ms_from_mandatory_modifiers :: "modifier_flag set option"
  ms_device_id :: device_id
  ms_original_event :: event
  ms_queue :: bool

text \<open>
  A new manipulator: the device id is 0 and the queue unset until the first motion is taken. \<open>u\<close> is the
  value of the counter's uninitialised member.
\<close>

definition default_motion_to_scroll :: "parameters \<Rightarrow> int \<Rightarrow> motion_to_scroll" where
  "default_motion_to_scroll pa u =
     \<lparr>ms_validity = Valid, ms_conditions = [], ms_from_modifiers = default_from_modifiers,
      ms_options = default_options, ms_parameters = pa, ms_counter = new_counter u,
      ms_from_mandatory_modifiers = None, ms_device_id = 0, ms_original_event = event_none, ms_queue = False\<rparr>"

subsection \<open>Reading\<close>

definition scroll_from_item :: "json \<Rightarrow> string \<Rightarrow> json \<Rightarrow> motion_to_scroll \<Rightarrow> json_error + motion_to_scroll" where
  "scroll_from_item v k vk m =
     (if k = ''modifiers'' then
        and_then (error_at (''from.'' @ k) (from_modifiers_from_json vk)) (\<lambda>d. Inr (m\<lparr>ms_from_modifiers := d\<rparr>))
      else Inl (Unmarshal_error_dump (''`from` error: unknown key `'' @ k @ ''` in `'') v ''`''))"

definition motion_to_scroll_item :: "json \<Rightarrow> string \<Rightarrow> json \<Rightarrow> motion_to_scroll \<Rightarrow> json_error + motion_to_scroll" where
  "motion_to_scroll_item j k v m =
     (if k = ''from'' then
        and_then (requires_object (quoted k) v) (\<lambda>xs. fold_items (scroll_from_item v) xs m)
      else if k = ''options'' then
        and_then (error_at k (options_update v (ms_options m))) (\<lambda>p. Inr (m\<lparr>ms_options := p\<rparr>))
      else if k \<in> {''description'', ''conditions'', ''parameters'', ''type''} then Inr m
      else Inl (unknown_key_in j k))"

definition motion_to_scroll_from_json :: "json \<Rightarrow> parameters \<Rightarrow> int \<Rightarrow> json_error + motion_to_scroll" where
  "motion_to_scroll_from_json j pa u =
     and_then (requires_object ''json'' j) (\<lambda>xs. fold_items (motion_to_scroll_item j) xs (default_motion_to_scroll pa u))"

subsection \<open>Manipulating\<close>

definition scroll_test_conditions ::
    "runtime \<Rightarrow> entry \<Rightarrow> motion_to_scroll \<Rightarrow> event_queue \<Rightarrow> condition_store \<Rightarrow>
     modifier_flag set option \<times> event_queue \<times> condition_store" where
  "scroll_test_conditions rt front m q st =
     (let (ok, env, st1) = conditions_fulfilled rt (context_of front) (ms_conditions m) (q_environment q, st);
          q1 = q\<lparr>q_environment := env\<rparr>
      in if \<not> ok then (None, q1, st1)
         else (test_modifiers (ms_from_modifiers m) (q_modifier_flag_manager q1), q1, st1))"

text \<open>The motion is stamped with the dispatcher's time, \<open>t\<close>.\<close>

definition motion_to_scroll_manipulate ::
    "runtime \<Rightarrow> milliseconds \<Rightarrow> entry \<Rightarrow> motion_to_scroll \<Rightarrow> event_queue \<Rightarrow> condition_store \<Rightarrow>
     manipulate_result \<times> entry \<times> motion_to_scroll \<times> event_queue \<times> condition_store" where
  "motion_to_scroll_manipulate rt t front m q st =
     (if en_validity front = Invalid \<or> ms_validity m = Invalid then (Passed, front, m, q, st)
      else (let (modifiers, q1, st1) = scroll_test_conditions rt front m q st in
            case modifiers of
              None \<Rightarrow> (Passed, front, m\<lparr>ms_counter := counter_reset (ms_counter m)\<rparr>, q1, st1)
            | Some ms \<Rightarrow>
                (case get_if_pointing_motion (en_event front) of
                   None \<Rightarrow> (Passed, front, m, q1, st1)
                 | Some pm \<Rightarrow>
                     (Manipulated_result, front\<lparr>en_validity := Invalid\<rparr>,
                      m\<lparr>ms_counter := counter_update pm t (ms_counter m), ms_from_mandatory_modifiers := Some ms,
                        ms_device_id := en_device_id front, ms_original_event := en_original_event front,
                        ms_queue := True\<rparr>, q1, st1))))"

text \<open>
  Posting a scroll event: the modifiers that are part of the trigger are released around it. The
  posting's manipulated event is not used here.
\<close>

definition scroll_site :: "time_point \<Rightarrow> motion_to_scroll \<Rightarrow> site" where
  "scroll_site now m = \<lparr>si_device_id = ms_device_id m, si_time_stamp = mk_ts now, si_original_event = ms_original_event m\<rparr>"

definition scroll_post_events ::
    "runtime \<Rightarrow> time_point \<Rightarrow> pointing_motion \<Rightarrow> motion_to_scroll \<Rightarrow> event_queue \<Rightarrow> condition_store \<Rightarrow> event_queue" where
  "scroll_post_events rt now pm m q st =
     (if \<not> ms_queue m then q
      else (let s = scroll_site now m;
                p0 = \<lparr>po_moe = mk_moe [] {} 0 {}, po_delay = 0, po_queue = q, po_store = st\<rparr>;
                post = (\<lambda>t p. case ms_from_mandatory_modifiers m of
                          Some ms \<Rightarrow> post_lazy_modifier_key_events rt s t ms p | None \<Rightarrow> p)
            in po_queue (post Key_down (post_entry rt s (pointing_motion_event pm) Single False (post Key_up p0)))))"

text \<open>The timer of the counter is due at dispatcher time \<open>t\<close>.\<close>

definition scroll_fire ::
    "floating \<Rightarrow> runtime \<Rightarrow> milliseconds \<Rightarrow> time_point \<Rightarrow> motion_to_scroll \<Rightarrow> event_queue \<Rightarrow> condition_store \<Rightarrow>
     motion_to_scroll \<times> event_queue" where
  "scroll_fire f rt t now m q st =
     (if \<not> co_timer (ms_counter m) then (m, q)
      else (let (out, c) = counter_tick f (ms_parameters m) (ms_options m) t (ms_counter m); m1 = m\<lparr>ms_counter := c\<rparr> in
            (m1, case out of Some pm \<Rightarrow> scroll_post_events rt now pm m1 q st | None \<Rightarrow> q)))"

subsection \<open>All manipulators\<close>

datatype manipulator =
    M_basic basic_manipulator
  | M_mouse_basic mouse_basic
  | M_motion_to_scroll motion_to_scroll
  | M_nop validity

definition on_basic :: "(basic_manipulator \<Rightarrow> basic_manipulator) \<Rightarrow> manipulator \<Rightarrow> manipulator" where
  "on_basic f m = (case m of M_basic b \<Rightarrow> M_basic (f b) | _ \<Rightarrow> m)"

definition m_validity :: "manipulator \<Rightarrow> validity" where
  "m_validity m = (case m of M_basic b \<Rightarrow> b_validity b | M_mouse_basic b \<Rightarrow> mb_validity b
     | M_motion_to_scroll b \<Rightarrow> ms_validity b | M_nop v \<Rightarrow> v)"

definition m_set_validity :: "validity \<Rightarrow> manipulator \<Rightarrow> manipulator" where
  "m_set_validity v m = (case m of M_basic b \<Rightarrow> M_basic (b\<lparr>b_validity := v\<rparr>) | M_mouse_basic b \<Rightarrow> M_mouse_basic (b\<lparr>mb_validity := v\<rparr>)
     | M_motion_to_scroll b \<Rightarrow> M_motion_to_scroll (b\<lparr>ms_validity := v\<rparr>) | M_nop _ \<Rightarrow> M_nop v)"

definition m_push_back_condition :: "condition \<Rightarrow> manipulator \<Rightarrow> manipulator" where
  "m_push_back_condition c m = (case m of
       M_basic b \<Rightarrow> M_basic (b_push_back_condition c b)
     | M_mouse_basic b \<Rightarrow> M_mouse_basic (b\<lparr>mb_conditions := mb_conditions b @ [c]\<rparr>)
     | M_motion_to_scroll b \<Rightarrow> M_motion_to_scroll (b\<lparr>ms_conditions := ms_conditions b @ [c]\<rparr>)
     | M_nop v \<Rightarrow> M_nop v)"

definition m_manipulate ::
    "milliseconds \<Rightarrow> runtime \<Rightarrow> time_point \<Rightarrow> entry list \<Rightarrow> entry \<Rightarrow> manipulator \<Rightarrow> event_queue \<Rightarrow> condition_store \<Rightarrow>
     access_error + manipulate_result \<times> entry \<times> manipulator \<times> event_queue \<times> condition_store" where
  "m_manipulate t rt now input front m q st =
     (case m of
        M_basic b \<Rightarrow> and_then (vt_manipulate basic_class rt now input front b q st)
          (\<lambda>(r, f, b1, q1, st1). Inr (r, f, M_basic b1, q1, st1))
      | M_mouse_basic b \<Rightarrow> (let (r, f, q1, st1) = mouse_basic_manipulate rt front b q st in Inr (r, f, M_mouse_basic b, q1, st1))
      | M_motion_to_scroll b \<Rightarrow>
          (let (r, f, b1, q1, st1) = motion_to_scroll_manipulate rt t front b q st in Inr (r, f, M_motion_to_scroll b1, q1, st1))
      | M_nop v \<Rightarrow> Inr (Passed, front, M_nop v, q, st))"

definition manipulators :: "milliseconds \<Rightarrow> manipulator virtual_table" where
  "manipulators t =
     \<lparr>vt_already_manipulated = (\<lambda>front m. case m of M_basic b \<Rightarrow> already_manipulated front b | _ \<Rightarrow> False),
      vt_manipulate = m_manipulate t,
      vt_active = (\<lambda>m. case m of M_basic b \<Rightarrow> b_active b | _ \<Rightarrow> False),
      vt_needs_virtual_hid_pointing = (\<lambda>m. case m of M_basic b \<Rightarrow> b_needs_virtual_hid_pointing b | M_nop _ \<Rightarrow> False | _ \<Rightarrow> True),
      vt_handle_released = (\<lambda>_ m q. (m, q)),
      vt_handle_ungrabbed = (\<lambda>d _ _. on_basic (b_handle_device_ungrabbed d)),
      vt_handle_event_tap = (\<lambda>front m q. (on_basic (b_handle_pointing_device_event_from_event_tap front) m, q)),
      vt_validity = m_validity,
      vt_set_validity = m_set_validity\<rparr>"

subsection \<open>The factory\<close>

definition make_manipulator ::
    "rejects \<Rightarrow> json \<Rightarrow> parameters \<Rightarrow> int \<Rightarrow> making \<Rightarrow> json_error + manipulator \<times> making" where
  "make_manipulator rj j pa u mk =
     (case find_type j of
        None \<Rightarrow> Inl (Unmarshal_error_dump ''`type` must be specified: '' j '''')
      | Some v \<Rightarrow> and_then (get_string v) (\<lambda>t.
          if t = ''basic'' then and_then (basic_from_json rj j pa mk) (\<lambda>(b, mk1). Inr (M_basic b, mk1))
          else if t = ''mouse_basic'' then and_then (mouse_basic_from_json j) (\<lambda>b. Inr (M_mouse_basic b, mk))
          else if t = ''mouse_motion_to_scroll'' then
            and_then (motion_to_scroll_from_json j pa u) (\<lambda>b. Inr (M_motion_to_scroll b, mk))
          else Inl (Unmarshal_error (''unknown type `'' @ t @ ''`''))))"

text \<open>A manager logs the error of a manipulator it cannot make, and goes on without it.\<close>

definition push_back_manipulator_json ::
    "rejects \<Rightarrow> json \<Rightarrow> parameters \<Rightarrow> int \<Rightarrow> manipulator list \<times> making \<Rightarrow> manipulator list \<times> making" where
  "push_back_manipulator_json rj j pa u = (\<lambda>(ms, mk).
     case make_manipulator rj j pa u mk of Inr (m, mk1) \<Rightarrow> (ms @ [m], mk1) | Inl _ \<Rightarrow> (ms, mk))"

subsection \<open>Every manipulator keeps the contract\<close>

lemma m_manipulate_entry:
  assumes "m_manipulate t rt now input front m q st = Inr (r, front', m', q', st')"
  obtains (rule) b b' where "vt_manipulate basic_class rt now input front b q st = Inr (r, front', b', q', st')"
  | (passed) "r = Passed" "front' = front"
  | (taken) "r = Manipulated_result" "front' = front\<lparr>en_validity := Invalid\<rparr>"
proof (cases m)
  case (M_basic b)
  then show ?thesis using assms rule by (auto simp: m_manipulate_def and_then_Inr_iff)
next
  case (M_mouse_basic b)
  then show ?thesis using assms passed taken
    by (auto simp: m_manipulate_def mouse_basic_manipulate_def Let_def split: prod.split_asm if_split_asm option.split_asm)
next
  case (M_motion_to_scroll b)
  then show ?thesis using assms passed taken
    by (auto simp: m_manipulate_def motion_to_scroll_manipulate_def Let_def split: prod.split_asm if_split_asm option.split_asm)
next
  case (M_nop v)
  then show ?thesis using assms passed by (simp add: m_manipulate_def)
qed

interpretation program: manipulator_class "manipulators t" for t
proof
  fix rt now input front m q st r front' m' q' st'
  assume "vt_manipulate (manipulators t) rt now input front m q st = Inr (r, front', m', q', st')"
  then have h: "m_manipulate t rt now input front m q st = Inr (r, front', m', q', st')" by (simp add: manipulators_def)
  from h show "en_event front' = en_event front \<and> en_event_type front' = en_event_type front \<and>
      en_device_id front' = en_device_id front \<and> en_time front' = en_time front"
    by (cases rule: m_manipulate_entry) (auto simp: en_time_def dest: basic_rule.keeps_entry)
  from h show "en_validity front' = Invalid \<or> r \<noteq> Manipulated_result \<and> en_validity front' = en_validity front"
    by (cases rule: m_manipulate_entry) (auto dest: basic_rule.takes)
next
  fix rt now input front m q st front' m' q' st'
  assume "vt_manipulate (manipulators t) rt now input front m q st = Inr (Needs_wait_until_time_stamp, front', m', q', st')"
  then have "m_manipulate t rt now input front m q st = Inr (Needs_wait_until_time_stamp, front', m', q', st')"
    by (simp add: manipulators_def)
  then show "now < make_time_stamp_with_input_delay (en_event_time_stamp front')"
    by (cases rule: m_manipulate_entry) (auto dest: basic_rule.waits)
qed

end
