(* ===== verification/Connector.thy ===== *)
theory Connector
  imports ScrollManipulator
begin

text \<open>
  The connector (\<open>manipulator_managers_connector.hpp\<close>): managers and queues are shared objects, named by
  numbers, that may have expired; a connection holds the numbers of its manager and its two queues. The
  two queues of a connection are different objects.
\<close>

record connection =
  cn_manager :: nat
  cn_input :: nat
  cn_output :: nat

record 'm plant =
  pl_managers :: "nat \<Rightarrow> 'm list option"
  pl_queues :: "nat \<Rightarrow> event_queue option"
  pl_store :: condition_store

definition connection_manipulate ::
    "'m virtual_table \<Rightarrow> runtime \<Rightarrow> bool \<Rightarrow> time_point \<Rightarrow> connection \<Rightarrow> 'm plant \<Rightarrow> access_error + 'm plant" where
  "connection_manipulate c rt reorder now cn pl =
     (case (pl_managers pl (cn_manager cn), pl_queues pl (cn_input cn), pl_queues pl (cn_output cn)) of
        (Some ms, Some qi, Some qo) \<Rightarrow>
          and_then (manipulate_loop c rt reorder now \<lparr>mg_manipulators = ms, mg_input = qi, mg_output = qo, mg_store = pl_store pl\<rparr>)
            (\<lambda>s. Inr (pl\<lparr>pl_managers := (pl_managers pl)(cn_manager cn \<mapsto> mg_manipulators s),
                        pl_queues := (pl_queues pl)(cn_input cn \<mapsto> mg_input s, cn_output cn \<mapsto> mg_output s),
                        pl_store := mg_store s\<rparr>))
      | _ \<Rightarrow> Inr pl)"

definition connection_invalidate :: "'m virtual_table \<Rightarrow> connection \<Rightarrow> 'm plant \<Rightarrow> 'm plant" where
  "connection_invalidate c cn pl =
     (case pl_managers pl (cn_manager cn) of
        Some ms \<Rightarrow> pl\<lparr>pl_managers := (pl_managers pl)(cn_manager cn \<mapsto> invalidate_manipulators c ms)\<rparr>
      | None \<Rightarrow> pl)"

definition set_queue_core_configuration :: "core_configuration \<Rightarrow> nat \<Rightarrow> 'm plant \<Rightarrow> 'm plant" where
  "set_queue_core_configuration cfg k pl =
     (case pl_queues pl k of
        Some q \<Rightarrow> pl\<lparr>pl_queues := (pl_queues pl)(k \<mapsto> q\<lparr>q_environment := (q_environment q)\<lparr>env_core_configuration := cfg\<rparr>\<rparr>)\<rparr>
      | None \<Rightarrow> pl)"

definition connection_set_core_configuration :: "core_configuration \<Rightarrow> connection \<Rightarrow> 'm plant \<Rightarrow> 'm plant" where
  "connection_set_core_configuration cfg cn pl =
     set_queue_core_configuration cfg (cn_output cn) (set_queue_core_configuration cfg (cn_input cn) pl)"

definition connection_needs_virtual_hid_pointing :: "'m virtual_table \<Rightarrow> 'm plant \<Rightarrow> connection \<Rightarrow> bool" where
  "connection_needs_virtual_hid_pointing c pl cn =
     (case pl_managers pl (cn_manager cn) of Some ms \<Rightarrow> needs_virtual_hid_pointing c ms | None \<Rightarrow> False)"

definition make_input_event_time_stamp_with_input_delay :: "'m plant \<Rightarrow> connection \<Rightarrow> time_point option" where
  "make_input_event_time_stamp_with_input_delay pl cn =
     (case pl_queues pl (cn_input cn) of
        None \<Rightarrow> None
      | Some q \<Rightarrow> (case q_events q of
            [] \<Rightarrow> None
          | e # _ \<Rightarrow> Some (make_time_stamp_with_input_delay (en_event_time_stamp e))))"

subsection \<open>The connector\<close>

definition emplace_back_connection :: "nat \<Rightarrow> nat \<Rightarrow> nat \<Rightarrow> connection list \<Rightarrow> connection list" where
  "emplace_back_connection m i q cs = cs @ [\<lparr>cn_manager = m, cn_input = i, cn_output = q\<rparr>]"

definition emplace_back_next :: "nat \<Rightarrow> nat \<Rightarrow> connection list \<Rightarrow> string + connection list" where
  "emplace_back_next m q cs =
     (if cs = [] then Inl ''manipulator_managers_connector::connections_ is empty''
      else Inr (emplace_back_connection m (cn_output (List.last cs)) q cs))"

fun connector_manipulate ::
    "'m virtual_table \<Rightarrow> runtime \<Rightarrow> bool \<Rightarrow> time_point \<Rightarrow> connection list \<Rightarrow> 'm plant \<Rightarrow> access_error + 'm plant" where
  "connector_manipulate c rt reorder now [] pl = Inr pl"
| "connector_manipulate c rt reorder now (cn # cs) pl =
     and_then (connection_manipulate c rt reorder now cn pl) (connector_manipulate c rt reorder now cs)"

definition connector_invalidate_manipulators :: "'m virtual_table \<Rightarrow> connection list \<Rightarrow> 'm plant \<Rightarrow> 'm plant" where
  "connector_invalidate_manipulators c cs pl = fold (connection_invalidate c) cs pl"

definition set_manipulator_environment_core_configuration :: "core_configuration \<Rightarrow> connection list \<Rightarrow> 'm plant \<Rightarrow> 'm plant" where
  "set_manipulator_environment_core_configuration cfg cs pl = fold (connection_set_core_configuration cfg) cs pl"

definition connector_needs_virtual_hid_pointing :: "'m virtual_table \<Rightarrow> connection list \<Rightarrow> 'm plant \<Rightarrow> bool" where
  "connector_needs_virtual_hid_pointing c cs pl = list_ex (connection_needs_virtual_hid_pointing c pl) cs"

fun earliest :: "time_point option list \<Rightarrow> time_point option \<Rightarrow> time_point option" where
  "earliest [] result = result"
| "earliest (None # ts) result = earliest ts result"
| "earliest (Some t # ts) result = earliest ts (case result of None \<Rightarrow> Some t | Some r \<Rightarrow> if t < r then Some t else Some r)"

definition min_input_event_time_stamp :: "connection list \<Rightarrow> 'm plant \<Rightarrow> time_point option" where
  "min_input_event_time_stamp cs pl = earliest (map (make_input_event_time_stamp_with_input_delay pl) cs) None"

lemma earliest_in: "earliest ts r = Some u \<Longrightarrow> Some u = r \<or> Some u \<in> set ts"
  by (induction ts r rule: earliest.induct) (auto split: option.split_asm if_split_asm)

subsection \<open>What the loop of a connection leaves\<close>

definition waiting :: "time_point \<Rightarrow> event_queue \<Rightarrow> bool" where
  "waiting now q \<longleftrightarrow>
     (case q_events q of [] \<Rightarrow> True | e # _ \<Rightarrow> now < make_time_stamp_with_input_delay (en_event_time_stamp e))"

context manipulator_class
begin

lemma manager_settles: "manager_manipulate c rt reorder now s = Inr (False, s') \<Longrightarrow> waiting now (mg_input s')"
  by (auto simp: manager_manipulate_def and_then_Inr_iff waiting_def dest: front_waits split: list.split_asm if_split_asm)

lemma loop_settles: "manipulate_loop c rt reorder now s = Inr s' \<Longrightarrow> waiting now (mg_input s')"
proof (induction "length (q_events (mg_input s))" arbitrary: s rule: less_induct)
  case (less s)
  show ?case
  proof (cases "manager_manipulate c rt reorder now s")
    case (Inl e)
    then show ?thesis using less.prems by (simp add: manipulate_loop.simps [of c rt reorder now s])
  next
    case (Inr r)
    obtain b s1 where r: "r = (b, s1)" by fastforce
    show ?thesis
    proof (cases b)
      case True
      then have "manipulate_loop c rt reorder now s1 = Inr s'" using less.prems Inr r
        by (simp add: manipulate_loop.simps [of c rt reorder now s])
      moreover have "length (q_events (mg_input s1)) < length (q_events (mg_input s))"
        using manager_progress [of c rt reorder now s s1] Inr r True by simp
      ultimately show ?thesis using less.hyps by blast
    next
      case False
      then show ?thesis using less.prems Inr r manager_settles
        by (auto simp: manipulate_loop.simps [of c rt reorder now s])
    qed
  qed
qed

end

subsection \<open>Chains of connections\<close>

text \<open>The program builds a chain: each connection reads what the one before it wrote.\<close>

definition emplace_chain :: "nat \<Rightarrow> (nat \<times> nat) list \<Rightarrow> string + connection list" where
  "emplace_chain i mos =
     (case mos of
        [] \<Rightarrow> Inr []
      | (m, q) # rest \<Rightarrow> fold_items emplace_back_next rest (emplace_back_connection m i q []))"

fun connect :: "nat \<Rightarrow> (nat \<times> nat) list \<Rightarrow> connection list" where
  "connect i [] = []"
| "connect i ((m, q) # rest) = \<lparr>cn_manager = m, cn_input = i, cn_output = q\<rparr> # connect q rest"

lemma emplace_next_connect:
  "cs \<noteq> [] \<Longrightarrow> fold_items emplace_back_next mos cs = Inr (cs @ connect (cn_output (List.last cs)) mos)"
  by (induction mos arbitrary: cs) (auto simp: emplace_back_next_def emplace_back_connection_def)

lemma emplace_chain_connect: "emplace_chain i mos = Inr (connect i mos)"
  by (auto simp: emplace_chain_def emplace_back_connection_def emplace_next_connect split: list.split)

lemma connection_keeps:
  assumes "connection_manipulate c rt reorder now cn pl = Inr pl'"
  shows "k \<noteq> cn_input cn \<Longrightarrow> k \<noteq> cn_output cn \<Longrightarrow> pl_queues pl' k = pl_queues pl k"
    and "pl_queues pl' k = None \<longleftrightarrow> pl_queues pl k = None" and "pl_managers pl' k = None \<longleftrightarrow> pl_managers pl k = None"
  using assms by (auto simp: connection_manipulate_def and_then_Inr_iff split: option.split_asm if_split_asm)

lemma connector_keeps:
  "connector_manipulate c rt reorder now (connect i mos) pl = Inr pl' \<Longrightarrow>
   (k \<notin> insert i (snd ` set mos) \<longrightarrow> pl_queues pl' k = pl_queues pl k)"
proof (induction mos arbitrary: i pl)
  case (Cons mo mos)
  obtain m q where mo: "mo = (m, q)" by fastforce
  obtain pl1 where s: "connection_manipulate c rt reorder now \<lparr>cn_manager = m, cn_input = i, cn_output = q\<rparr> pl = Inr pl1"
      "connector_manipulate c rt reorder now (connect q mos) pl1 = Inr pl'"
    using Cons.prems mo by (auto simp: and_then_Inr_iff)
  show ?case using Cons.IH [OF s(2)] connection_keeps(1) [OF s(1), of k] mo by auto
qed simp

definition alive :: "nat \<Rightarrow> (nat \<times> nat) list \<Rightarrow> 'm plant \<Rightarrow> bool" where
  "alive i mos pl \<longleftrightarrow> (\<forall>m\<in>fst ` set mos. pl_managers pl m \<noteq> None) \<and> (\<forall>k\<in>insert i (snd ` set mos). pl_queues pl k \<noteq> None)"

context manipulator_class
begin

lemma connection_settles:
  assumes "connection_manipulate c rt reorder now \<lparr>cn_manager = m, cn_input = i, cn_output = q\<rparr> pl = Inr pl'"
    and "pl_managers pl m \<noteq> None" "pl_queues pl i \<noteq> None" "pl_queues pl q \<noteq> None" "i \<noteq> q"
  shows "\<exists>x. pl_queues pl' i = Some x \<and> waiting now x"
proof -
  obtain ms qi qo where "pl_managers pl m = Some ms" "pl_queues pl i = Some qi" "pl_queues pl q = Some qo"
    using assms(2-4) by blast
  then show ?thesis using assms(1,5)
    by (auto simp: connection_manipulate_def and_then_Inr_iff dest: loop_settles)
qed

lemma connector_settles:
  assumes "connector_manipulate c rt reorder now (connect i mos) pl = Inr pl'"
    and "distinct (i # map snd mos)" "alive i mos pl" "cn \<in> set (connect i mos)"
  shows "\<exists>x. pl_queues pl' (cn_input cn) = Some x \<and> waiting now x"
  using assms
proof (induction mos arbitrary: i pl)
  case (Cons mo mos)
  obtain m q where mo: "mo = (m, q)" by fastforce
  obtain pl1 where s: "connection_manipulate c rt reorder now \<lparr>cn_manager = m, cn_input = i, cn_output = q\<rparr> pl = Inr pl1"
      "connector_manipulate c rt reorder now (connect q mos) pl1 = Inr pl'"
    using Cons.prems(1) mo by (auto simp: and_then_Inr_iff)
  have a1: "alive q mos pl1" using Cons.prems(3) mo connection_keeps(2,3) [OF s(1)] by (auto simp: alive_def)
  show ?case
  proof (cases "cn \<in> set (connect q mos)")
    case True
    then show ?thesis using Cons.IH [OF s(2) _ a1] Cons.prems(2) mo by simp
  next
    case False
    then have cn: "cn_input cn = i" using Cons.prems(4) mo by auto
    have "\<exists>x. pl_queues pl1 i = Some x \<and> waiting now x"
      using connection_settles [OF s(1)] Cons.prems(2,3) mo by (auto simp: alive_def)
    moreover have "pl_queues pl' i = pl_queues pl1 i"
      using connector_keeps [OF s(2), of i] Cons.prems(2) mo by auto
    ultimately show ?thesis using cn by simp
  qed
qed simp

lemma wakes_later:
  assumes "connector_manipulate c rt reorder now (connect i mos) pl = Inr pl'"
    and "distinct (i # map snd mos)" "alive i mos pl" "min_input_event_time_stamp (connect i mos) pl' = Some u"
  shows "now < u"
proof -
  obtain cn where cn: "cn \<in> set (connect i mos)" "make_input_event_time_stamp_with_input_delay pl' cn = Some u"
    using earliest_in [of _ None u] assms(4) by (fastforce simp: min_input_event_time_stamp_def)
  then obtain x where "pl_queues pl' (cn_input cn) = Some x" "waiting now x"
    using connector_settles [OF assms(1-3)] by blast
  then show ?thesis using cn(2)
    by (auto simp: make_input_event_time_stamp_with_input_delay_def waiting_def split: list.split_asm)
qed

end

subsection \<open>Properties\<close>

text \<open>
  C12. The loop of a connection ends: one round more than the input queue has entries is enough, whatever
  the manipulators do.
\<close>

theorem connection_loop_ends:
  "drive (Suc (length (q_events (mg_input s)))) (manage_step (manipulators t) rt reorder now) (Inr s) =
     Some (manipulate_loop (manipulators t) rt reorder now s)"
proof -
  obtain r where "drive (Suc (length (q_events (mg_input s)))) (manage_step (manipulators t) rt reorder now) (Inr s) = Some r"
    using loop.drive_terminates [of "Inr s" "Suc (length (q_events (mg_input s)))" "manipulators t" rt reorder now]
    by (auto simp: remaining_def)
  then show ?thesis using drive_manipulate_loop by blast
qed

text \<open>
  After the connector has run, the time it asks to be woken at lies in the future: every queue of the
  chain is empty or its first entry waits for a deadline that has not passed. The program does not spin.
\<close>

theorem connector_wakes_later:
  assumes "emplace_chain i mos = Inr cs" and "distinct (i # map snd mos)" and "alive i mos pl"
    and "connector_manipulate (manipulators t) rt reorder now cs pl = Inr pl'"
    and "min_input_event_time_stamp cs pl' = Some u"
  shows "now < u"
  using assms by (intro program.wakes_later [of t rt reorder now i mos pl pl']) (auto simp: emplace_chain_connect)

definition two_keys_plant :: "manipulator plant" where
  "two_keys_plant =
     \<lparr>pl_managers = (\<lambda>k. if k = 0 then Some [M_basic (w_basic two_keys_world)] else if k = 1 then Some [M_nop Valid] else None),
      pl_queues = (\<lambda>k. if k = 0 then Some ((w_queue two_keys_world)\<lparr>q_events := [key_entry_of 1 4 Key_down]\<rparr>)
        else if k < 3 then Some (w_queue two_keys_world) else None),
      pl_store = w_store two_keys_world\<rparr>"

theorem connector_wakes_later_witness:
  "\<exists>pl' u. connector_manipulate (manipulators 0) idle_runtime False 100 (connect 0 [(0, 1), (1, 2)]) two_keys_plant = Inr pl' \<and>
     min_input_event_time_stamp (connect 0 [(0, 1), (1, 2)]) pl' = Some u \<and> 100 < u"
proof -
  have "case connector_manipulate (manipulators 0) idle_runtime False 100 (connect 0 [(0, 1), (1, 2)]) two_keys_plant of
      Inr pl' \<Rightarrow> min_input_event_time_stamp (connect 0 [(0, 1), (1, 2)]) pl' \<noteq> None | Inl _ \<Rightarrow> False"
    by code_simp
  then obtain pl' u where
    h: "connector_manipulate (manipulators 0) idle_runtime False 100 (connect 0 [(0, 1), (1, 2)]) two_keys_plant = Inr pl'"
      "min_input_event_time_stamp (connect 0 [(0, 1), (1, 2)]) pl' = Some u"
    by (auto split: sum.split_asm)
  have "alive 0 [(0, 1), (1, 2)] two_keys_plant" by (simp add: alive_def two_keys_plant_def)
  with connector_wakes_later [OF emplace_chain_connect _ _ h] h show ?thesis by auto
qed

end
