(* ===== verification/PostQueue.thy ===== *)
theory PostQueue
  imports Connector KeyboardGuards
begin

text \<open>
  The queue of the last manipulator (\<open>post_event_to_virtual_devices/queue.hpp\<close>): the reports and commands
  on their way to the virtual devices and the console user server, with the time each is due. The
  classes of a HID report belong to the virtual device driver, which is not part of the repository:
  their operations are the parameter \<open>report_ops\<close>, of which nothing is assumed. The fields of a pointing
  report are bytes.
\<close>

record ('k, 'm, 'b) report_ops =
  ro_no_keys :: 'k
  ro_insert_key :: "int \<Rightarrow> 'k \<Rightarrow> 'k"
  ro_erase_key :: "int \<Rightarrow> 'k \<Rightarrow> 'k"
  ro_has_key :: "'k \<Rightarrow> int \<Rightarrow> bool"
  ro_no_modifiers :: 'm
  ro_insert_modifier :: "hid_modifier \<Rightarrow> 'm \<Rightarrow> 'm"
  ro_erase_modifier :: "hid_modifier \<Rightarrow> 'm \<Rightarrow> 'm"
  ro_has_modifier :: "'m \<Rightarrow> hid_modifier \<Rightarrow> bool"
  ro_no_buttons :: 'b
  ro_insert_button :: "int \<Rightarrow> 'b \<Rightarrow> 'b"
  ro_no_button_held :: "'b \<Rightarrow> bool"

text \<open>Lists of keys, an instance for examples.\<close>

definition list_reports :: "(int list, hid_modifier list, int list) report_ops" where
  "list_reports =
     \<lparr>ro_no_keys = [], ro_insert_key = List.insert, ro_erase_key = (\<lambda>u. filter (\<lambda>v. v \<noteq> u)), ro_has_key = List.member,
      ro_no_modifiers = [], ro_insert_modifier = List.insert, ro_erase_modifier = (\<lambda>u. filter (\<lambda>v. v \<noteq> u)),
      ro_has_modifier = List.member, ro_no_buttons = [], ro_insert_button = List.insert, ro_no_button_held = (\<lambda>b. b = [])\<rparr>"

subsection \<open>Events\<close>

record 'b pointing_input =
  pi_buttons :: 'b
  pi_x :: "8 word"
  pi_y :: "8 word"
  pi_vertical_wheel :: "8 word"
  pi_horizontal_wheel :: "8 word"

text \<open>
  The type of an event and the alternative of its value always agree: the constructors and factory
  functions are the only way to make one. So the value alone carries the type.
\<close>

datatype ('k, 'm, 'b) post_value =
    Keyboard_input 'm 'k
  | Consumer_input 'k
  | Apple_vendor_top_case_input 'k
  | Apple_vendor_keyboard_input 'k
  | Generic_desktop_input 'k
  | Pointing_input "'b pointing_input"
  | Shell_command string
  | Send_user_command json
  | Select_input_source "input_source_specifier list"
  | Software_function software_function

record ('k, 'm, 'b) post_event =
  pe_value :: "('k, 'm, 'b) post_value"
  pe_time_stamp :: time_point
  pe_posted :: "(momentary_switch_event \<times> event_type) option"

definition key_report :: "('k, 'm, 'b) post_value \<Rightarrow> time_point \<Rightarrow> momentary_switch_event \<Rightarrow> event_type \<Rightarrow> ('k, 'm, 'b) post_event" where
  "key_report v t e et = \<lparr>pe_value = v, pe_time_stamp = t, pe_posted = Some (e, et)\<rparr>"

definition plain_post :: "('k, 'm, 'b) post_value \<Rightarrow> time_point \<Rightarrow> ('k, 'm, 'b) post_event" where
  "plain_post v t = \<lparr>pe_value = v, pe_time_stamp = t, pe_posted = None\<rparr>"

subsection \<open>The queue\<close>

record ('k, 'm, 'b) post_queue =
  pq_events :: "('k, 'm, 'b) post_event list"
  pq_pressed_keys :: pressed_keys_manager
  pq_suppression :: keyboard_suppression
  pq_cgeventtap_fallback_enabled :: bool
  pq_repeat :: keyboard_repeat_detector
  pq_last_event_type :: event_type
  pq_last_event_time_stamp :: time_point
  pq_modifiers :: 'm
  pq_keyboard_keys :: 'k
  pq_consumer_keys :: 'k
  pq_top_case_keys :: 'k
  pq_apple_vendor_keyboard_keys :: 'k
  pq_generic_desktop_keys :: 'k

definition mk_post_queue :: "('k, 'm, 'b) report_ops \<Rightarrow> pressed_keys_manager \<Rightarrow> keyboard_suppression \<Rightarrow> ('k, 'm, 'b) post_queue" where
  "mk_post_queue r pk ks =
     \<lparr>pq_events = [], pq_pressed_keys = pk, pq_suppression = ks, pq_cgeventtap_fallback_enabled = False,
      pq_repeat = None, pq_last_event_type = Single, pq_last_event_time_stamp = 0,
      pq_modifiers = ro_no_modifiers r, pq_keyboard_keys = ro_no_keys r, pq_consumer_keys = ro_no_keys r,
      pq_top_case_keys = ro_no_keys r, pq_apple_vendor_keyboard_keys = ro_no_keys r, pq_generic_desktop_keys = ro_no_keys r\<rparr>"

definition set_cgeventtap_fallback_enabled :: "bool \<Rightarrow> ('k, 'm, 'b) post_queue \<Rightarrow> ('k, 'm, 'b) post_queue" where
  "set_cgeventtap_fallback_enabled v q = q\<lparr>pq_cgeventtap_fallback_enabled := v\<rparr>"

text \<open>A wait of 5 milliseconds before presses, before releases that follow a press, and around modifiers.\<close>

definition adjust_time_stamp ::
    "runtime \<Rightarrow> event_type \<Rightarrow> bool \<Rightarrow> time_point \<Rightarrow> ('k, 'm, 'b) post_queue \<Rightarrow> time_point \<times> ('k, 'm, 'b) post_queue" where
  "adjust_time_stamp rt et modifier t q =
     (let wait = rt_duration_of rt 5;
          skip = (case et of Key_down \<Rightarrow> False | Key_up \<Rightarrow> pq_last_event_type q = Key_up \<and> \<not> modifier | Single \<Rightarrow> True);
          t1 = (if \<not> skip \<and> t < pq_last_event_time_stamp q + wait then pq_last_event_time_stamp q + wait else t);
          q1 = (if skip then q else q\<lparr>pq_last_event_type := et\<rparr>)
      in (t1, if pq_last_event_time_stamp q1 < t1 then q1\<lparr>pq_last_event_time_stamp := t1\<rparr> else q1))"

definition update_keys :: "('k, 'm, 'b) report_ops \<Rightarrow> event_type \<Rightarrow> int \<Rightarrow> 'k \<Rightarrow> 'k" where
  "update_keys r et u ks = (case et of Key_down \<Rightarrow> ro_insert_key r u ks | Key_up \<Rightarrow> ro_erase_key r u ks | Single \<Rightarrow> ks)"

definition report_modifier_of :: "momentary_switch_event \<Rightarrow> hid_modifier option" where
  "report_modifier_of e = Option.bind (make_modifier_flag e) make_hid_report_modifier"

text \<open>A press or release changes the state of its page and queues a report of the whole page.\<close>

definition append_event :: "('k, 'm, 'b) post_event \<Rightarrow> ('k, 'm, 'b) post_queue \<Rightarrow> ('k, 'm, 'b) post_queue" where
  "append_event e q = q\<lparr>pq_events := pq_events q @ [e]\<rparr>"

definition keyboard_page :: "('k, 'm, 'b) report_ops \<Rightarrow> momentary_switch_event \<Rightarrow> event_type \<Rightarrow> ('k, 'm, 'b) post_queue \<Rightarrow> ('k, 'm, 'b) post_queue" where
  "keyboard_page r e et q =
     (case (report_modifier_of e, et) of
        (Some m, Key_down) \<Rightarrow> q\<lparr>pq_modifiers := ro_insert_modifier r m (pq_modifiers q)\<rparr>
      | (Some m, Key_up) \<Rightarrow> q\<lparr>pq_modifiers := ro_erase_modifier r m (pq_modifiers q)\<rparr>
      | _ \<Rightarrow> q\<lparr>pq_keyboard_keys := update_keys r et (usage (get_usage_pair e)) (pq_keyboard_keys q)\<rparr>)"

definition emplace_back_key_event ::
    "runtime \<Rightarrow> ('k, 'm, 'b) report_ops \<Rightarrow> usage_pair \<Rightarrow> event_type \<Rightarrow> time_point \<Rightarrow> ('k, 'm, 'b) post_queue \<Rightarrow> ('k, 'm, 'b) post_queue" where
  "emplace_back_key_event rt r p et t q =
     (let e = Mse p; (t1, q1) = adjust_time_stamp rt et (mse_modifier_flag e) t q; u = usage p;
          q2 = (if usage_page p = page_keyboard_or_keypad then
                  (let q2 = keyboard_page r e et q1
                   in append_event (key_report (Keyboard_input (pq_modifiers q2) (pq_keyboard_keys q2)) t1 e et) q2)
                else if usage_page p = page_consumer then
                  (let q2 = q1\<lparr>pq_consumer_keys := update_keys r et u (pq_consumer_keys q1)\<rparr>
                   in append_event (key_report (Consumer_input (pq_consumer_keys q2)) t1 e et) q2)
                else if usage_page p = page_apple_vendor_top_case then
                  (let q2 = q1\<lparr>pq_top_case_keys := update_keys r et u (pq_top_case_keys q1)\<rparr>
                   in append_event (key_report (Apple_vendor_top_case_input (pq_top_case_keys q2)) t1 e et) q2)
                else if usage_page p = page_apple_vendor_keyboard then
                  (let q2 = q1\<lparr>pq_apple_vendor_keyboard_keys := update_keys r et u (pq_apple_vendor_keyboard_keys q1)\<rparr>
                   in append_event (key_report (Apple_vendor_keyboard_input (pq_apple_vendor_keyboard_keys q2)) t1 e et) q2)
                else if usage_page p = page_generic_desktop then
                  (let q2 = q1\<lparr>pq_generic_desktop_keys := update_keys r et u (pq_generic_desktop_keys q1)\<rparr>
                   in append_event (key_report (Generic_desktop_input (pq_generic_desktop_keys q2)) t1 e et) q2)
                else q1)
      in q2\<lparr>pq_repeat := krd_set e et (pq_repeat q2)\<rparr>)"

definition emplace_back_pointing_input ::
    "runtime \<Rightarrow> 'b pointing_input \<Rightarrow> event_type \<Rightarrow> time_point \<Rightarrow> ('k, 'm, 'b) post_queue \<Rightarrow> ('k, 'm, 'b) post_queue" where
  "emplace_back_pointing_input rt p et t q =
     (let (t1, q1) = adjust_time_stamp rt et False t q in append_event (plain_post (Pointing_input p) t1) q1)"

definition push_back_shell_command_event :: "string \<Rightarrow> time_point \<Rightarrow> ('k, 'm, 'b) post_queue \<Rightarrow> ('k, 'm, 'b) post_queue" where
  "push_back_shell_command_event s t q = append_event (plain_post (Shell_command s) t) q"

definition push_back_send_user_command_event :: "json \<Rightarrow> time_point \<Rightarrow> ('k, 'm, 'b) post_queue \<Rightarrow> ('k, 'm, 'b) post_queue" where
  "push_back_send_user_command_event j t q = append_event (plain_post (Send_user_command j) t) q"

definition push_back_select_input_source_event ::
    "input_source_specifier list \<Rightarrow> time_point \<Rightarrow> ('k, 'm, 'b) post_queue \<Rightarrow> ('k, 'm, 'b) post_queue" where
  "push_back_select_input_source_event s t q = append_event (plain_post (Select_input_source s) t) q"

definition push_back_software_function_event :: "software_function \<Rightarrow> time_point \<Rightarrow> ('k, 'm, 'b) post_queue \<Rightarrow> ('k, 'm, 'b) post_queue" where
  "push_back_software_function_event f t q = append_event (plain_post (Software_function f) t) q"

definition post_clear :: "('k, 'm, 'b) post_queue \<Rightarrow> ('k, 'm, 'b) post_queue" where
  "post_clear q = q\<lparr>pq_events := [], pq_repeat := krd_clear (pq_repeat q)\<rparr>"

subsection \<open>Posting\<close>

text \<open>What leaves the process: a report to the driver's client or a request to the console user server.\<close>

datatype ('k, 'm, 'b) delivery = To_client "('k, 'm, 'b) post_value" | To_console "('k, 'm, 'b) post_value"

definition to_client :: "('k, 'm, 'b) post_value \<Rightarrow> bool" where
  "to_client v = (case v of Shell_command _ \<Rightarrow> False | Send_user_command _ \<Rightarrow> False | Select_input_source _ \<Rightarrow> False
     | Software_function _ \<Rightarrow> False | _ \<Rightarrow> True)"

text \<open>\<open>t\<close> is the time at which the suppression of the own event starts.\<close>

definition handle_posted_momentary_switch_event ::
    "time_point \<Rightarrow> ('k, 'm, 'b) post_event \<Rightarrow> ('k, 'm, 'b) post_queue \<Rightarrow> ('k, 'm, 'b) post_queue" where
  "handle_posted_momentary_switch_event t e q =
     (case pe_posted e of
        None \<Rightarrow> q
      | Some (m, et) \<Rightarrow>
          q\<lparr>pq_pressed_keys :=
              (if \<not> mse_valid m then pq_pressed_keys q
               else case et of Key_down \<Rightarrow> pk_insert m (pq_pressed_keys q) | Key_up \<Rightarrow> pk_erase m (pq_pressed_keys q)
                 | Single \<Rightarrow> pq_pressed_keys q),
            pq_suppression := ks_enqueue m et t (pq_suppression q)\<rparr>)"

text \<open>
  Whether the driver's client and the console user server are there is fixed during a round; \<open>clock\<close>
  gives the time at which each event is posted. The round ends at the first event that is not due and
  says how many milliseconds to wait: whole ones, what is left of a millisecond is cut off.
\<close>

fun post_due ::
    "runtime \<Rightarrow> bool \<Rightarrow> bool \<Rightarrow> time_point \<Rightarrow> (nat \<Rightarrow> time_point) \<Rightarrow> ('k, 'm, 'b) post_event list \<Rightarrow> ('k, 'm, 'b) post_queue \<Rightarrow>
     ('k, 'm, 'b) delivery list \<times> milliseconds option \<times> ('k, 'm, 'b) post_queue" where
  "post_due rt client console now clock [] q = ([], None, q\<lparr>pq_events := []\<rparr>)"
| "post_due rt client console now clock (e # es) q =
     (if pe_time_stamp e > now then
        ([], Some (rt_milliseconds_of rt (min (pe_time_stamp e - now) (rt_duration_of rt 3000))), q\<lparr>pq_events := e # es\<rparr>)
      else
        (let posts = (if to_client (pe_value e) then client else console);
             out = (if \<not> posts then []
                    else if to_client (pe_value e) then [To_client (pe_value e)] else [To_console (pe_value e)]);
             q1 = (if posts \<and> to_client (pe_value e) then handle_posted_momentary_switch_event (clock 0) e q else q);
             (outs, delay, q2) = post_due rt client console now (\<lambda>i. clock (Suc i)) es q1
         in (out @ outs, delay, q2)))"

definition async_post_events ::
    "runtime \<Rightarrow> bool \<Rightarrow> bool \<Rightarrow> time_point \<Rightarrow> (nat \<Rightarrow> time_point) \<Rightarrow> ('k, 'm, 'b) post_queue \<Rightarrow>
     ('k, 'm, 'b) delivery list \<times> milliseconds option \<times> ('k, 'm, 'b) post_queue" where
  "async_post_events rt client console now clock q = post_due rt client console now clock (pq_events q) q"

end
