(* ===== verification/KeyDispatcher.thy ===== *)
theory KeyDispatcher
  imports PostQueue
begin

text \<open>
  The dispatcher of key events (\<open>key_event_dispatcher.hpp\<close>): it remembers which keys and modifiers it has
  pressed on the virtual keyboard and queues a press or a release only where something changes.
\<close>

record key_event_dispatcher =
  kd_pressed_keys :: "(device_id \<times> usage_pair) list"
  kd_pressed_modifier_flags :: "modifier_flag set"

definition mk_dispatcher :: key_event_dispatcher where
  "mk_dispatcher = \<lparr>kd_pressed_keys = [], kd_pressed_modifier_flags = {}\<rparr>"

definition key_event_exists :: "usage_pair \<Rightarrow> key_event_dispatcher \<Rightarrow> bool" where
  "key_event_exists p d \<longleftrightarrow> list_ex (\<lambda>k. snd k = p) (kd_pressed_keys d)"

text \<open>The dispatcher and the queue it writes to. \<open>em\<close> queues a key event: \<open>enqueue_key_event\<close>.\<close>

type_synonym ('k, 'm, 'b) dispatch = "key_event_dispatcher \<times> ('k, 'm, 'b) post_queue"

definition enqueue_key_event ::
    "runtime \<Rightarrow> ('k, 'm, 'b) report_ops \<Rightarrow> time_point \<Rightarrow> usage_pair \<Rightarrow> event_type \<Rightarrow> ('k, 'm, 'b) dispatch \<Rightarrow> ('k, 'm, 'b) dispatch" where
  "enqueue_key_event rt r t p et = (\<lambda>(d, q). (d, emplace_back_key_event rt r p et t q))"

definition dispatch_key_down_event ::
    "runtime \<Rightarrow> ('k, 'm, 'b) report_ops \<Rightarrow> time_point \<Rightarrow> device_id \<Rightarrow> usage_pair \<Rightarrow> ('k, 'm, 'b) dispatch \<Rightarrow> ('k, 'm, 'b) dispatch" where
  "dispatch_key_down_event rt r t dev p = (\<lambda>(d, q).
     if key_event_exists p d then (d, q)
     else enqueue_key_event rt r t p Key_down (d\<lparr>kd_pressed_keys := kd_pressed_keys d @ [(dev, p)]\<rparr>, q))"

definition dispatch_key_up_event ::
    "runtime \<Rightarrow> ('k, 'm, 'b) report_ops \<Rightarrow> time_point \<Rightarrow> usage_pair \<Rightarrow> ('k, 'm, 'b) dispatch \<Rightarrow> ('k, 'm, 'b) dispatch" where
  "dispatch_key_up_event rt r t p = (\<lambda>(d, q).
     if key_event_exists p d
     then enqueue_key_event rt r t p Key_up (d\<lparr>kd_pressed_keys := remove_if (\<lambda>k. snd k = p) (kd_pressed_keys d)\<rparr>, q)
     else (d, q))"

definition dispatched_flags :: "modifier_flag list" where
  "dispatched_flags =
     [Flag_left_control, Flag_left_shift, Flag_left_option, Flag_left_command,
      Flag_right_control, Flag_right_shift, Flag_right_option, Flag_right_command, Flag_fn, Flag_caps_lock]"

text \<open>A caps lock key is pressed and released at once: the operating system keeps its state.\<close>

definition toggle_caps_lock ::
    "runtime \<Rightarrow> ('k, 'm, 'b) report_ops \<Rightarrow> time_point \<Rightarrow> ('k, 'm, 'b) dispatch \<Rightarrow> ('k, 'm, 'b) dispatch" where
  "toggle_caps_lock rt r t s =
     (let p = get_usage_pair (mse_of_modifier_flag Flag_caps_lock);
          s1 = (if key_event_exists p (fst s) then dispatch_key_up_event rt r t p s else s)
      in enqueue_key_event rt r t p Key_up (enqueue_key_event rt r t p Key_down s1))"

definition send_modifier ::
    "runtime \<Rightarrow> ('k, 'm, 'b) report_ops \<Rightarrow> time_point \<Rightarrow> modifier_flag \<Rightarrow> event_type \<Rightarrow> ('k, 'm, 'b) dispatch \<Rightarrow> ('k, 'm, 'b) dispatch" where
  "send_modifier rt r t m et s =
     (let e = mse_of_modifier_flag m in
      if m \<noteq> Flag_caps_lock \<and> mse_valid e then enqueue_key_event rt r t (get_usage_pair e) et s else s)"

definition dispatch_modifier ::
    "runtime \<Rightarrow> ('k, 'm, 'b) report_ops \<Rightarrow> time_point \<Rightarrow> modifier_flag_manager \<Rightarrow> modifier_flag \<Rightarrow> ('k, 'm, 'b) dispatch \<Rightarrow> ('k, 'm, 'b) dispatch" where
  "dispatch_modifier rt r t mfm m s =
     (let pressed = (m \<in> kd_pressed_modifier_flags (fst s)) in
      if is_pressed mfm m = pressed then s
      else
        (let et = (if is_pressed mfm m then Key_down else Key_up);
             (d, q) = send_modifier rt r t m et s;
             s1 = (d\<lparr>kd_pressed_modifier_flags :=
                      (if is_pressed mfm m then insert m (kd_pressed_modifier_flags d) else kd_pressed_modifier_flags d - {m})\<rparr>, q)
         in if m = Flag_caps_lock then toggle_caps_lock rt r t s1 else s1))"

definition dispatch_modifier_key_event ::
    "runtime \<Rightarrow> ('k, 'm, 'b) report_ops \<Rightarrow> time_point \<Rightarrow> modifier_flag_manager \<Rightarrow> ('k, 'm, 'b) dispatch \<Rightarrow> ('k, 'm, 'b) dispatch" where
  "dispatch_modifier_key_event rt r t mfm s = fold (dispatch_modifier rt r t mfm) dispatched_flags s"

lemma key_up_removes:
  "find P (kd_pressed_keys (fst s)) = Some k \<Longrightarrow>
   length (kd_pressed_keys (fst (dispatch_key_up_event rt r t (snd k) s))) < length (kd_pressed_keys (fst s))"
proof -
  assume "find P (kd_pressed_keys (fst s)) = Some k"
  then have k: "k \<in> set (kd_pressed_keys (fst s))" by (auto simp: find_Some_iff)
  have "length (filter (\<lambda>x. snd x \<noteq> snd k) xs) < length xs" if "k \<in> set xs" for xs :: "(device_id \<times> usage_pair) list"
    using that length_filter_less [of k xs "\<lambda>x. snd x \<noteq> snd k"] by simp
  from this [OF k] show ?thesis
    using k by (cases s) (auto simp: dispatch_key_up_event_def enqueue_key_event_def key_event_exists_def list_ex_iff remove_if_def)
qed

text \<open>The loop searches again after each release, since the release changes the vector.\<close>

function dispatch_key_up_events_by_device_id ::
    "runtime \<Rightarrow> ('k, 'm, 'b) report_ops \<Rightarrow> time_point \<Rightarrow> device_id \<Rightarrow> ('k, 'm, 'b) dispatch \<Rightarrow> ('k, 'm, 'b) dispatch" where
  "dispatch_key_up_events_by_device_id rt r t dev s =
     (case find (\<lambda>k. fst k = dev) (kd_pressed_keys (fst s)) of
        None \<Rightarrow> s
      | Some k \<Rightarrow> dispatch_key_up_events_by_device_id rt r t dev (dispatch_key_up_event rt r t (snd k) s))"
  by pat_completeness auto

termination
  by (relation "measure (\<lambda>(rt, r, t, dev, s). length (kd_pressed_keys (fst s)))") (auto dest: key_up_removes)

declare dispatch_key_up_events_by_device_id.simps [simp del]

definition insert_pressed_modifier_flag :: "modifier_flag \<Rightarrow> key_event_dispatcher \<Rightarrow> key_event_dispatcher" where
  "insert_pressed_modifier_flag m d = d\<lparr>kd_pressed_modifier_flags := insert m (kd_pressed_modifier_flags d)\<rparr>"

definition erase_pressed_modifier_flag :: "modifier_flag \<Rightarrow> key_event_dispatcher \<Rightarrow> key_event_dispatcher" where
  "erase_pressed_modifier_flag m d = d\<lparr>kd_pressed_modifier_flags := kd_pressed_modifier_flags d - {m}\<rparr>"

definition dispatcher_clear :: "key_event_dispatcher \<Rightarrow> key_event_dispatcher" where
  "dispatcher_clear d = d\<lparr>kd_pressed_keys := [], kd_pressed_modifier_flags := {}\<rparr>"

definition clear_pressed_modifier_flags :: "key_event_dispatcher \<Rightarrow> key_event_dispatcher" where
  "clear_pressed_modifier_flags d = d\<lparr>kd_pressed_modifier_flags := {}\<rparr>"


subsection \<open>What the virtual keyboard is told\<close>

text \<open>The strokes in a list of events, and the keys that are down after them; \<open>None\<close> if a key is pressed
  twice or released while it is up.\<close>

type_synonym stroke = "momentary_switch_event \<times> event_type"

definition strokes :: "('k, 'm, 'b) post_event list \<Rightarrow> stroke list" where
  "strokes es = concat (map (\<lambda>e. case pe_posted e of Some s \<Rightarrow> [s] | None \<Rightarrow> []) es)"

lemma strokes_simps [simp]: "strokes [] = []" "strokes (xs @ ys) = strokes xs @ strokes ys"
  "strokes [key_report v t e et] = [(e, et)]" "strokes [plain_post v t] = []"
  by (simp_all add: strokes_def key_report_def plain_post_def)

fun held_after :: "stroke list \<Rightarrow> usage_pair set \<Rightarrow> usage_pair set option" where
  "held_after [] h = Some h"
| "held_after ((Mse p, Key_down) # xs) h = (if p \<in> h then None else held_after xs (insert p h))"
| "held_after ((Mse p, Key_up) # xs) h = (if p \<in> h then held_after xs (h - {p}) else None)"
| "held_after ((Mse p, Single) # xs) h = None"

lemma held_after_append: "held_after (xs @ ys) h = Option.bind (held_after xs h) (held_after ys)"
  by (induction xs h rule: held_after.induct) auto

definition keyboard_pages :: "int set" where
  "keyboard_pages = {page_keyboard_or_keypad, page_consumer, page_apple_vendor_top_case, page_apple_vendor_keyboard,
     page_generic_desktop}"

text \<open>The keys whose press was queued, and the modifiers.\<close>

definition modifier_pair :: "modifier_flag \<Rightarrow> usage_pair" where
  "modifier_pair m = get_usage_pair (mse_of_modifier_flag m)"

definition sent_flags :: "modifier_flag set" where
  "sent_flags = set dispatched_flags - {Flag_caps_lock}"

definition down :: "key_event_dispatcher \<Rightarrow> usage_pair set" where
  "down d = {p \<in> snd ` set (kd_pressed_keys d). usage_page p \<in> keyboard_pages} \<union>
     modifier_pair ` (kd_pressed_modifier_flags d \<inter> sent_flags)"

text \<open>
  The reports. A stroke changes the report of its page by one call of the driver's report class: a
  modifier of the keyboard page is inserted into or erased from the modifiers, another usage from the
  keys of its page. \<open>reports_show r xs q\<close>: the fields of the reports are what the calls for the strokes
  \<open>xs\<close>, in their order, make of the empty reports.
\<close>

fun type_key :: "('k, 'm, 'b) report_ops \<Rightarrow> int \<Rightarrow> stroke \<Rightarrow> 'k \<Rightarrow> 'k" where
  "type_key r page (e, et) ks =
     (if usage_page (get_usage_pair e) = page \<and> (page = page_keyboard_or_keypad \<longrightarrow> report_modifier_of e = None)
      then update_keys r et (usage (get_usage_pair e)) ks else ks)"

fun type_modifier :: "('k, 'm, 'b) report_ops \<Rightarrow> stroke \<Rightarrow> 'm \<Rightarrow> 'm" where
  "type_modifier r (e, et) ms =
     (if usage_page (get_usage_pair e) \<noteq> page_keyboard_or_keypad then ms
      else (case (report_modifier_of e, et) of
          (Some m, Key_down) \<Rightarrow> ro_insert_modifier r m ms
        | (Some m, Key_up) \<Rightarrow> ro_erase_modifier r m ms
        | _ \<Rightarrow> ms))"

definition reports_show :: "('k, 'm, 'b) report_ops \<Rightarrow> stroke list \<Rightarrow> ('k, 'm, 'b) post_queue \<Rightarrow> bool" where
  "reports_show r xs q \<longleftrightarrow>
     pq_modifiers q = fold (type_modifier r) xs (ro_no_modifiers r) \<and>
     pq_keyboard_keys q = fold (type_key r page_keyboard_or_keypad) xs (ro_no_keys r) \<and>
     pq_consumer_keys q = fold (type_key r page_consumer) xs (ro_no_keys r) \<and>
     pq_top_case_keys q = fold (type_key r page_apple_vendor_top_case) xs (ro_no_keys r) \<and>
     pq_apple_vendor_keyboard_keys q = fold (type_key r page_apple_vendor_keyboard) xs (ro_no_keys r) \<and>
     pq_generic_desktop_keys q = fold (type_key r page_generic_desktop) xs (ro_no_keys r)"

lemma reports_show_fields:
  "pq_modifiers q' = pq_modifiers q \<Longrightarrow> pq_keyboard_keys q' = pq_keyboard_keys q \<Longrightarrow>
   pq_consumer_keys q' = pq_consumer_keys q \<Longrightarrow> pq_top_case_keys q' = pq_top_case_keys q \<Longrightarrow>
   pq_apple_vendor_keyboard_keys q' = pq_apple_vendor_keyboard_keys q \<Longrightarrow>
   pq_generic_desktop_keys q' = pq_generic_desktop_keys q \<Longrightarrow> reports_show r xs q' = reports_show r xs q"
  by (simp add: reports_show_def)

lemma adjust_time_stamp_keeps:
  "adjust_time_stamp rt et b t q = (t', q') \<Longrightarrow>
   pq_events q' = pq_events q \<and> pq_modifiers q' = pq_modifiers q \<and> pq_keyboard_keys q' = pq_keyboard_keys q \<and>
   pq_consumer_keys q' = pq_consumer_keys q \<and> pq_top_case_keys q' = pq_top_case_keys q \<and>
   pq_apple_vendor_keyboard_keys q' = pq_apple_vendor_keyboard_keys q \<and>
   pq_generic_desktop_keys q' = pq_generic_desktop_keys q"
  by (auto simp: adjust_time_stamp_def Let_def)

lemma strokes_append_event:
  "strokes (pq_events (append_event (key_report v t e et) q)) = strokes (pq_events q) @ [(e, et)]"
  by (simp add: append_event_def)

lemma events_pq_repeat: "pq_events (q\<lparr>pq_repeat := x\<rparr>) = pq_events q"
  by simp

lemma emplace_strokes:
  "strokes (pq_events (emplace_back_key_event rt r p et t q)) =
     strokes (pq_events q) @ (if usage_page p \<in> keyboard_pages then [(Mse p, et)] else [])"
proof -
  obtain t1 q1 where a: "adjust_time_stamp rt et (mse_modifier_flag (Mse p)) t q = (t1, q1)" by fastforce
  have q1: "pq_events q1 = pq_events q" using adjust_time_stamp_keeps [OF a] by simp
  have k: "pq_events (keyboard_page r e et q1) = pq_events q1" for e
    by (simp add: keyboard_page_def split: option.split event_type.split)
  note u = emplace_back_key_event_def Let_def a prod.case events_pq_repeat
  show ?thesis
  proof (cases "usage_page p \<in> keyboard_pages")
    case True
    then consider (kb) "usage_page p = page_keyboard_or_keypad"
      | (co) "usage_page p \<noteq> page_keyboard_or_keypad" "usage_page p = page_consumer"
      | (tc) "usage_page p \<noteq> page_keyboard_or_keypad" "usage_page p \<noteq> page_consumer" "usage_page p = page_apple_vendor_top_case"
      | (ak) "usage_page p \<noteq> page_keyboard_or_keypad" "usage_page p \<noteq> page_consumer" "usage_page p \<noteq> page_apple_vendor_top_case"
          "usage_page p = page_apple_vendor_keyboard"
      | (gd) "usage_page p \<noteq> page_keyboard_or_keypad" "usage_page p \<noteq> page_consumer" "usage_page p \<noteq> page_apple_vendor_top_case"
          "usage_page p \<noteq> page_apple_vendor_keyboard" "usage_page p = page_generic_desktop"
      unfolding keyboard_pages_def by blast
    then have "strokes (pq_events (emplace_back_key_event rt r p et t q)) = strokes (pq_events q1) @ [(Mse p, et)]"
    proof cases
      case kb then show ?thesis unfolding u by (simp only: if_P strokes_append_event k)
    next
      case co then show ?thesis unfolding u if_not_P [OF co(1)] if_P [OF co(2)] strokes_append_event by simp
    next
      case tc then show ?thesis unfolding u if_not_P [OF tc(1)] if_not_P [OF tc(2)] if_P [OF tc(3)] strokes_append_event by simp
    next
      case ak then show ?thesis
        unfolding u if_not_P [OF ak(1)] if_not_P [OF ak(2)] if_not_P [OF ak(3)] if_P [OF ak(4)] strokes_append_event by simp
    next
      case gd then show ?thesis
        unfolding u if_not_P [OF gd(1)] if_not_P [OF gd(2)] if_not_P [OF gd(3)] if_not_P [OF gd(4)] if_P [OF gd(5)] strokes_append_event by simp
    qed
    then show ?thesis using True q1 by simp
  next
    case False
    then have "usage_page p \<noteq> page_keyboard_or_keypad" "usage_page p \<noteq> page_consumer" "usage_page p \<noteq> page_apple_vendor_top_case"
        "usage_page p \<noteq> page_apple_vendor_keyboard" "usage_page p \<noteq> page_generic_desktop"
      by (auto simp: keyboard_pages_def)
    then have "pq_events (emplace_back_key_event rt r p et t q) = pq_events q1" unfolding u by (simp only: if_False)
    then show ?thesis using False q1 by simp
  qed
qed

lemma usage_pair_eq: "(p :: usage_pair) = p' \<longleftrightarrow> usage_page p = usage_page p' \<and> usage p = usage p'"
  by (cases p; cases p') auto

text \<open>Queueing a key event types one stroke.\<close>

lemma keyboard_page_fields:
  "pq_consumer_keys (keyboard_page r e et q) = pq_consumer_keys q"
  "pq_top_case_keys (keyboard_page r e et q) = pq_top_case_keys q"
  "pq_apple_vendor_keyboard_keys (keyboard_page r e et q) = pq_apple_vendor_keyboard_keys q"
  "pq_generic_desktop_keys (keyboard_page r e et q) = pq_generic_desktop_keys q"
  by (simp_all add: keyboard_page_def split: option.split event_type.split)

lemma keyboard_page_types:
  assumes "usage_page (get_usage_pair e) = page_keyboard_or_keypad"
  shows "pq_modifiers (keyboard_page r e et q) = type_modifier r (e, et) (pq_modifiers q)"
    and "pq_keyboard_keys (keyboard_page r e et q) = type_key r page_keyboard_or_keypad (e, et) (pq_keyboard_keys q)"
  using assms by (simp_all add: keyboard_page_def update_keys_def split: option.split event_type.split)

lemma emplace_reports:
  assumes "reports_show r xs q"
  shows "reports_show r (xs @ (if usage_page p \<in> keyboard_pages then [(Mse p, et)] else [])) (emplace_back_key_event rt r p et t q)"
proof -
  obtain t1 q1 where a: "adjust_time_stamp rt et (mse_modifier_flag (Mse p)) t q = (t1, q1)" by fastforce
  have q1: "reports_show r xs q1" using assms adjust_time_stamp_keeps [OF a] by (simp add: reports_show_def)
  note u = emplace_back_key_event_def Let_def a prod.case
  show ?thesis
  proof (cases "usage_page p = page_keyboard_or_keypad")
    case True
    then have "usage_page (get_usage_pair (Mse p)) = page_keyboard_or_keypad" by simp
    note types = keyboard_page_types [OF this, of r et q1]
    show ?thesis unfolding u using True q1 types
      by (simp add: append_event_def reports_show_def keyboard_page_fields keyboard_pages_def page_defs)
  next
    case False
    then show ?thesis unfolding u using q1
      by (simp add: append_event_def reports_show_def keyboard_pages_def page_defs)
  qed
qed

subsection \<open>Every operation is a sequence of orderly strokes\<close>

definition keys_ok :: "key_event_dispatcher \<Rightarrow> bool" where
  "keys_ok d \<longleftrightarrow> (\<forall>k\<in>set (kd_pressed_keys d). \<not> mse_modifier_flag (Mse (snd k)))"

definition orderly :: "('k, 'm, 'b) report_ops \<Rightarrow> ('k, 'm, 'b) dispatch \<Rightarrow> ('k, 'm, 'b) dispatch \<Rightarrow> bool" where
  "orderly r s s' \<longleftrightarrow> (keys_ok (fst s) \<longrightarrow> keys_ok (fst s') \<and>
     (\<exists>xs. strokes (pq_events (snd s')) = strokes (pq_events (snd s)) @ xs \<and>
       held_after xs (down (fst s)) = Some (down (fst s')) \<and>
       (\<forall>zs. reports_show r zs (snd s) \<longrightarrow> reports_show r (zs @ xs) (snd s'))))"

lemma orderly_refl: "down d' = down d \<Longrightarrow> (keys_ok d \<Longrightarrow> keys_ok d') \<Longrightarrow> orderly r (d, q) (d', q)"
  by (auto simp: orderly_def intro: exI [of _ "[]"])

lemma orderly_same: "orderly r s s"
  by (cases s) (simp add: orderly_refl)

lemma orderly_trans: "orderly r s s' \<Longrightarrow> orderly r s' s'' \<Longrightarrow> orderly r s s''"
proof -
  assume a: "orderly r s s'" and b: "orderly r s' s''"
  show ?thesis
  proof (cases "keys_ok (fst s)")
    case True
    obtain xs where xs: "strokes (pq_events (snd s')) = strokes (pq_events (snd s)) @ xs"
        "held_after xs (down (fst s)) = Some (down (fst s'))" "keys_ok (fst s')"
        "\<And>zs. reports_show r zs (snd s) \<Longrightarrow> reports_show r (zs @ xs) (snd s')"
      using a True unfolding orderly_def by blast
    obtain ys where ys: "strokes (pq_events (snd s'')) = strokes (pq_events (snd s')) @ ys"
        "held_after ys (down (fst s')) = Some (down (fst s''))" "keys_ok (fst s'')"
        "\<And>zs. reports_show r zs (snd s') \<Longrightarrow> reports_show r (zs @ ys) (snd s'')"
      using b xs(3) unfolding orderly_def by blast
    have "held_after (xs @ ys) (down (fst s)) = Some (down (fst s''))" using xs(2) ys(2) by (simp add: held_after_append)
    moreover have "strokes (pq_events (snd s'')) = strokes (pq_events (snd s)) @ xs @ ys" using xs(1) ys(1) by simp
    moreover have "reports_show r (zs @ xs @ ys) (snd s'')" if "reports_show r zs (snd s)" for zs
      using ys(4) [OF xs(4) [OF that]] by simp
    ultimately show ?thesis using ys(3) unfolding orderly_def by blast
  qed (simp add: orderly_def)
qed

text \<open>The set of keys a stroke leads to.\<close>

definition after_stroke :: "usage_pair \<Rightarrow> event_type \<Rightarrow> usage_pair set \<Rightarrow> usage_pair set" where
  "after_stroke p et h = (if usage_page p \<notin> keyboard_pages then h else if et = Key_down then insert p h else h - {p})"

lemma orderly_enqueue:
  assumes "keys_ok d \<Longrightarrow> keys_ok d'" "keys_ok d \<Longrightarrow> down d' = after_stroke p et (down d)" "et \<noteq> Single"
    and "keys_ok d \<Longrightarrow> usage_page p \<in> keyboard_pages \<Longrightarrow> p \<in> down d \<longleftrightarrow> et = Key_up"
  shows "orderly r (d, q) (enqueue_key_event rt r t p et (d', q))"
proof -
  have s: "strokes (pq_events (emplace_back_key_event rt r p et t q)) =
      strokes (pq_events q) @ (if usage_page p \<in> keyboard_pages then [(Mse p, et)] else [])" by (rule emplace_strokes)
  have h: "held_after (if usage_page p \<in> keyboard_pages then [(Mse p, et)] else []) (down d) = Some (down d')" if "keys_ok d"
    using assms(2,4) [OF that] assms(3) that by (cases et) (auto simp: after_stroke_def)
  show ?thesis unfolding orderly_def enqueue_key_event_def prod.case fst_conv snd_conv
    using s h assms(1) emplace_reports [of r _ q p et rt t] by blast
qed

lemma keys_ok_append: "keys_ok (d\<lparr>kd_pressed_keys := kd_pressed_keys d @ [(dev, p)]\<rparr>) \<longleftrightarrow> keys_ok d \<and> \<not> mse_modifier_flag (Mse p)"
  by (auto simp: keys_ok_def)

lemma sent_flag: "m \<in> sent_flags \<Longrightarrow> make_modifier_flag (mse_of_modifier_flag m) = Some m"
  by (auto simp: sent_flags_def dispatched_flags_def make_modifier_flag_mse)

lemma modifier_pair_mse: "Mse (modifier_pair m) = mse_of_modifier_flag m"
  by (simp add: modifier_pair_def)

lemma modifier_pair_flag: "m \<in> sent_flags \<Longrightarrow> mse_modifier_flag (Mse (modifier_pair m))"
  by (simp add: modifier_pair_mse mse_modifier_flag_def sent_flag)

lemma modifier_pair_inj: "m \<in> sent_flags \<Longrightarrow> m' \<in> sent_flags \<Longrightarrow> modifier_pair m = modifier_pair m' \<Longrightarrow> m = m'"
  using sent_flag modifier_pair_mse by (metis option.inject)

lemma modifier_pair_page: "m \<in> sent_flags \<Longrightarrow> usage_page (modifier_pair m) \<in> keyboard_pages"
  by (auto simp: sent_flags_def dispatched_flags_def modifier_pair_def keyboard_pages_def)

lemma down_key:
  "\<not> mse_modifier_flag (Mse p) \<Longrightarrow> p \<in> down d \<longleftrightarrow> key_event_exists p d \<and> usage_page p \<in> keyboard_pages"
  using modifier_pair_flag by (auto simp: down_def key_event_exists_def list_ex_iff)

lemma down_modifier:
  "keys_ok d \<Longrightarrow> m \<in> sent_flags \<Longrightarrow> modifier_pair m \<in> down d \<longleftrightarrow> m \<in> kd_pressed_modifier_flags d"
  using modifier_pair_flag [of m] modifier_pair_inj by (auto simp: down_def keys_ok_def)

lemma key_down_orderly:
  assumes "\<not> mse_modifier_flag (Mse p)"
  shows "orderly r s (dispatch_key_down_event rt r t dev p s)"
proof -
  obtain d q where s: "s = (d, q)" by fastforce
  show ?thesis
  proof (cases "key_event_exists p d")
    case True
    then show ?thesis by (simp add: s dispatch_key_down_event_def orderly_refl)
  next
    case False
    then show ?thesis unfolding s dispatch_key_down_event_def prod.case if_not_P [OF False]
      using down_key [OF assms, of d] assms
      by (intro orderly_enqueue) (auto simp: keys_ok_append down_def after_stroke_def)
  qed
qed

lemma key_up_orderly: "orderly r s (dispatch_key_up_event rt r t p s)"
proof -
  obtain d q where s: "s = (d, q)" by fastforce
  show ?thesis
  proof (cases "key_event_exists p d")
    case True
    define d' where "d' = d\<lparr>kd_pressed_keys := remove_if (\<lambda>k. snd k = p) (kd_pressed_keys d)\<rparr>"
    have keys: "set (kd_pressed_keys d') = {k \<in> set (kd_pressed_keys d). snd k \<noteq> p}"
      and flags: "kd_pressed_modifier_flags d' = kd_pressed_modifier_flags d"
      by (simp_all add: d'_def remove_if_def)
    have p: "\<not> mse_modifier_flag (Mse p)" if "keys_ok d" using True that by (auto simp: key_event_exists_def list_ex_iff keys_ok_def)
    have ok: "keys_ok d \<Longrightarrow> keys_ok d'" by (simp add: keys_ok_def keys)
    have eq: "down d' = after_stroke p Key_up (down d)" if "keys_ok d"
    proof -
      have "p \<notin> modifier_pair ` (kd_pressed_modifier_flags d \<inter> sent_flags)" using modifier_pair_flag p [OF that] by blast
      moreover have "p' \<in> snd ` set (kd_pressed_keys d') \<longleftrightarrow> p' \<noteq> p \<and> p' \<in> snd ` set (kd_pressed_keys d)" for p'
        using keys by force
      ultimately show ?thesis unfolding down_def flags after_stroke_def by auto
    qed
    have "p \<in> down d \<longleftrightarrow> Key_up = Key_up" if "keys_ok d" "usage_page p \<in> keyboard_pages"
      using True that(2) down_key [OF p [OF that(1)], of d] by simp
    from orderly_enqueue [OF ok eq _ this] show ?thesis
      unfolding s dispatch_key_up_event_def prod.case if_P [OF True] d'_def [symmetric] by simp
  next
    case False
    then show ?thesis by (simp add: s dispatch_key_up_event_def orderly_refl)
  qed
qed

lemma caps_pair: "\<not> mse_modifier_flag (Mse (modifier_pair Flag_caps_lock))"
  "usage_page (modifier_pair Flag_caps_lock) \<in> keyboard_pages"
  by (simp_all add: modifier_pair_def mse_modifier_flag_def make_modifier_flag_def keyboard_pages_def page_defs usage_defs)

lemma tap_orderly:
  assumes "\<not> key_event_exists p (fst s)" "\<not> mse_modifier_flag (Mse p)" "usage_page p \<in> keyboard_pages"
  shows "orderly r s (enqueue_key_event rt r t p Key_up (enqueue_key_event rt r t p Key_down s))"
proof -
  obtain d q where s: "s = (d, q)" by fastforce
  let ?q = "emplace_back_key_event rt r p Key_down t q"
  have notin: "p \<notin> down d" using assms(1,2) down_key by (simp add: s)
  have e: "strokes (pq_events (emplace_back_key_event rt r p Key_up t ?q)) = strokes (pq_events q) @ [(Mse p, Key_down), (Mse p, Key_up)]"
    using assms(3) by (simp add: emplace_strokes)
  have sh: "reports_show r (zs @ [(Mse p, Key_down), (Mse p, Key_up)]) (emplace_back_key_event rt r p Key_up t ?q)"
    if "reports_show r zs q" for zs
    using emplace_reports [OF emplace_reports [OF that, of p Key_down rt t], of p Key_up rt t] assms(3) by simp
  have "held_after [(Mse p, Key_down), (Mse p, Key_up)] (down d) = Some (down d)" using notin by simp
  then show ?thesis unfolding s enqueue_key_event_def prod.case orderly_def fst_conv snd_conv
    using e sh by blast
qed

lemma toggle_orderly: "orderly r s (toggle_caps_lock rt r t s)"
proof -
  let ?p = "modifier_pair Flag_caps_lock"
  let ?s = "if key_event_exists ?p (fst s) then dispatch_key_up_event rt r t ?p s else s"
  have "orderly r s ?s" using key_up_orderly [of r s rt t ?p] orderly_refl by (cases s) auto
  moreover have "\<not> key_event_exists ?p (fst ?s)"
    by (cases s) (auto simp: dispatch_key_up_event_def enqueue_key_event_def key_event_exists_def list_ex_iff)
  ultimately show ?thesis
    unfolding toggle_caps_lock_def Let_def modifier_pair_def [symmetric]
    using tap_orderly [OF _ caps_pair, of ?s r rt t] orderly_trans by blast
qed

lemma down_flag_on: "m \<in> sent_flags \<Longrightarrow> down (d\<lparr>kd_pressed_modifier_flags := insert m F\<rparr>) =
    insert (modifier_pair m) (down (d\<lparr>kd_pressed_modifier_flags := F\<rparr>))"
  by (simp add: down_def Int_insert_left)

lemma down_flag_off:
  assumes "keys_ok d" "m \<in> sent_flags"
  shows "down (d\<lparr>kd_pressed_modifier_flags := F - {m}\<rparr>) = down (d\<lparr>kd_pressed_modifier_flags := F\<rparr>) - {modifier_pair m}"
proof -
  have "modifier_pair ` ((F - {m}) \<inter> sent_flags) = modifier_pair ` (F \<inter> sent_flags) - {modifier_pair m}"
    using modifier_pair_inj assms(2) by blast
  moreover have "modifier_pair m \<notin> {p \<in> snd ` set (kd_pressed_keys d). usage_page p \<in> keyboard_pages}"
    using modifier_pair_flag [OF assms(2)] assms(1) by (auto simp: keys_ok_def)
  ultimately show ?thesis by (auto simp: down_def)
qed

lemma flags_update_orderly:
  "m \<notin> sent_flags \<Longrightarrow> F - {m} = kd_pressed_modifier_flags d - {m} \<Longrightarrow>
   orderly r (d, q) (d\<lparr>kd_pressed_modifier_flags := F\<rparr>, q)"
  by (rule orderly_refl) (auto simp: down_def keys_ok_def)

lemma dispatch_modifier_orderly:
  assumes "m \<in> set dispatched_flags"
  shows "orderly r s (dispatch_modifier rt r t mfm m s)"
proof -
  obtain d q where s: "s = (d, q)" by fastforce
  let ?on = "is_pressed mfm m" and ?F = "kd_pressed_modifier_flags d"
  let ?et = "if ?on then Key_down else Key_up" and ?d = "d\<lparr>kd_pressed_modifier_flags := (if ?on then insert m ?F else ?F - {m})\<rparr>"
  show ?thesis
  proof (cases "?on = (m \<in> ?F)")
    case True
    then show ?thesis by (simp add: s dispatch_modifier_def orderly_refl)
  next
    case change: False
    show ?thesis
    proof (cases "m = Flag_caps_lock")
      case True
      then have "dispatch_modifier rt r t mfm m s = toggle_caps_lock rt r t (?d, q)"
        using change by (simp add: s dispatch_modifier_def send_modifier_def)
      moreover have "orderly r s (?d, q)" unfolding s
        by (rule flags_update_orderly [of m]) (auto simp: True sent_flags_def)
      ultimately show ?thesis using toggle_orderly orderly_trans by metis
    next
      case False
      then have m: "m \<in> sent_flags" using assms by (simp add: sent_flags_def)
      then have "mse_valid (mse_of_modifier_flag m)" by (auto simp: mse_of_modifier_flag_valid sent_flags_def dispatched_flags_def)
      then have e: "dispatch_modifier rt r t mfm m s = enqueue_key_event rt r t (modifier_pair m) ?et (?d, q)"
        using change False by (simp add: s dispatch_modifier_def send_modifier_def enqueue_key_event_def modifier_pair_def)
      have "keys_ok d \<Longrightarrow> keys_ok ?d" by (simp add: keys_ok_def)
      moreover have "down ?d = after_stroke (modifier_pair m) ?et (down d)" if "keys_ok d"
        using modifier_pair_page [OF m] down_flag_on [OF m, where d = d and F = ?F] down_flag_off [OF that m, of ?F]
        by (simp add: after_stroke_def)
      moreover have "modifier_pair m \<in> down d \<longleftrightarrow> ?et = Key_up" if "keys_ok d"
        using change down_modifier [OF that m] by auto
      ultimately show ?thesis unfolding s using e [unfolded s]
        orderly_enqueue [of d ?d "modifier_pair m" ?et r q rt t] by simp
    qed
  qed
qed

lemma dispatch_modifiers_orderly: "orderly r s (dispatch_modifier_key_event rt r t mfm s)"
proof -
  have "set ms \<subseteq> set dispatched_flags \<Longrightarrow> orderly r s (fold (dispatch_modifier rt r t mfm) ms s)" for ms s
  proof (induction ms arbitrary: s)
    case Nil
    then show ?case by (cases s) (simp add: orderly_refl)
  next
    case (Cons m ms)
    then show ?case using dispatch_modifier_orderly [of m r s rt t mfm] orderly_trans by fastforce
  qed
  then show ?thesis by (simp add: dispatch_modifier_key_event_def)
qed

lemma ungrab_cases:
  "find (\<lambda>k. fst k = dev) (kd_pressed_keys (fst s)) = None \<Longrightarrow> dispatch_key_up_events_by_device_id rt r t dev s = s"
  "find (\<lambda>k. fst k = dev) (kd_pressed_keys (fst s)) = Some k \<Longrightarrow> dispatch_key_up_events_by_device_id rt r t dev s =
     dispatch_key_up_events_by_device_id rt r t dev (dispatch_key_up_event rt r t (snd k) s)"
  by (subst dispatch_key_up_events_by_device_id.simps, simp)+

lemma ungrab_orderly: "orderly r s (dispatch_key_up_events_by_device_id rt r t dev s)"
proof (induction "length (kd_pressed_keys (fst s))" arbitrary: s rule: less_induct)
  case less
  show ?case
  proof (cases "find (\<lambda>k. fst k = dev) (kd_pressed_keys (fst s))")
    case None
    then show ?thesis by (simp add: ungrab_cases(1) orderly_same)
  next
    case (Some k)
    then show ?thesis
      using less [OF key_up_removes [OF Some]] key_up_orderly [of r s rt t "snd k"] orderly_trans
      by (simp add: ungrab_cases(2)) blast
  qed
qed

text \<open>No key of the device is left.\<close>

lemma ungrab_releases:
  "k \<in> set (kd_pressed_keys (fst (dispatch_key_up_events_by_device_id rt r t dev s))) \<Longrightarrow> fst k \<noteq> dev"
proof (induction "length (kd_pressed_keys (fst s))" arbitrary: s rule: less_induct)
  case less
  show ?case
  proof (cases "find (\<lambda>k. fst k = dev) (kd_pressed_keys (fst s))")
    case None
    then have "k \<in> set (kd_pressed_keys (fst s))" using less.prems by (simp add: ungrab_cases(1))
    moreover have "\<forall>x\<in>set (kd_pressed_keys (fst s)). fst x \<noteq> dev" using None find_None_iff [of "\<lambda>k. fst k = dev"] by metis
    ultimately show ?thesis by blast
  next
    case (Some k')
    then show ?thesis using less.hyps [OF key_up_removes [OF Some]] less.prems
      by (simp add: ungrab_cases(2))
  qed
qed

lemma modifiers_synchronised:
  assumes "m \<in> set dispatched_flags"
  shows "m \<in> kd_pressed_modifier_flags (fst (dispatch_modifier_key_event rt r t mfm s)) \<longleftrightarrow> is_pressed mfm m"
proof -
  have toggle: "kd_pressed_modifier_flags (fst (toggle_caps_lock rt r t s)) = kd_pressed_modifier_flags (fst s)" for s :: "('a, 'b, 'c) dispatch"
    by (cases s) (auto simp: toggle_caps_lock_def dispatch_key_up_event_def enqueue_key_event_def Let_def)
  have step: "kd_pressed_modifier_flags (fst (dispatch_modifier rt r t mfm x s)) =
      (if is_pressed mfm x then insert x (kd_pressed_modifier_flags (fst s)) else kd_pressed_modifier_flags (fst s) - {x})"
    for x and s :: "('a, 'b, 'c) dispatch"
    by (cases s) (auto simp: dispatch_modifier_def send_modifier_def enqueue_key_event_def toggle Let_def)
  have "kd_pressed_modifier_flags (fst (fold (dispatch_modifier rt r t mfm) ms s)) =
      {x. if x \<in> set ms then is_pressed mfm x else x \<in> kd_pressed_modifier_flags (fst s)}" for ms and s :: "('a, 'b, 'c) dispatch"
    by (induction ms arbitrary: s) (auto simp: step)
  then show ?thesis using assms by (simp add: dispatch_modifier_key_event_def)
qed

end
