(* ===== verification/VirtualKeyboard.thy ===== *)
theory VirtualKeyboard
  imports KeyDispatcher
begin

text \<open>
  The dispatcher, its queue and the posting together. A ghost log keeps the strokes that were queued and
  those the driver's client received; the invariant relates it to the reports, to the keys the
  dispatcher holds and to the keys known as delivered. Every operation of the dispatcher, the rounds of
  posting, clearing the queue and releasing all keys keep it; the runs are those of the last
  manipulator (\<open>PostEvents\<close>).
\<close>

subsection \<open>A round of posting\<close>

definition deliver :: "bool \<Rightarrow> bool \<Rightarrow> ('k, 'm, 'b) post_event \<Rightarrow> ('k, 'm, 'b) delivery list" where
  "deliver client console e =
     (if to_client (pe_value e) then (if client then [To_client (pe_value e)] else [])
      else (if console then [To_console (pe_value e)] else []))"

text \<open>What a stroke does to the set of pressed keys.\<close>

fun press_stroke :: "stroke \<Rightarrow> pressed_keys_manager \<Rightarrow> pressed_keys_manager" where
  "press_stroke (m, Key_down) s = (if mse_valid m then pk_insert m s else s)"
| "press_stroke (m, Key_up) s = (if mse_valid m then pk_erase m s else s)"
| "press_stroke (m, Single) s = s"

lemma posted_pressed_keys:
  "pq_pressed_keys (handle_posted_momentary_switch_event t e q) = fold press_stroke (strokes [e]) (pq_pressed_keys q)"
proof (cases "pe_posted e")
  case (Some x)
  then show ?thesis by (cases x; cases "snd x") (simp_all add: handle_posted_momentary_switch_event_def strokes_def)
qed (simp add: handle_posted_momentary_switch_event_def strokes_def)

lemma strokes_Cons: "strokes (e # es) = strokes [e] @ strokes es"
  by (simp add: strokes_def)

text \<open>The fields a round leaves alone.\<close>

definition same_reports :: "('k, 'm, 'b) post_queue \<Rightarrow> ('k, 'm, 'b) post_queue \<Rightarrow> bool" where
  "same_reports q q' \<longleftrightarrow> pq_modifiers q' = pq_modifiers q \<and> pq_keyboard_keys q' = pq_keyboard_keys q \<and>
     pq_consumer_keys q' = pq_consumer_keys q \<and> pq_top_case_keys q' = pq_top_case_keys q \<and>
     pq_apple_vendor_keyboard_keys q' = pq_apple_vendor_keyboard_keys q \<and>
     pq_generic_desktop_keys q' = pq_generic_desktop_keys q \<and>
     pq_last_event_type q' = pq_last_event_type q \<and> pq_last_event_time_stamp q' = pq_last_event_time_stamp q \<and>
     pq_repeat q' = pq_repeat q"

lemma same_reports_refl [simp]: "same_reports q q" "same_reports q (q\<lparr>pq_events := es\<rparr>)"
  by (simp_all add: same_reports_def)

lemma same_reports_trans: "same_reports q q' \<Longrightarrow> same_reports q' q'' \<Longrightarrow> same_reports q q''"
  by (simp add: same_reports_def)

lemma same_reports_posted: "same_reports q (handle_posted_momentary_switch_event t e q)"
  by (simp add: handle_posted_momentary_switch_event_def same_reports_def split: option.split)

lemma same_reports_show: "same_reports q q' \<Longrightarrow> reports_show r xs q' = reports_show r xs q"
  by (rule reports_show_fields) (simp_all add: same_reports_def)

text \<open>A round posts the events that are due up to the first that is not, in order.\<close>

lemma post_due_prefix:
  assumes "post_due rt client console now clock es q = (outs, delay, q')"
  shows "\<exists>n. n \<le> length es \<and> outs = concat (map (deliver client console) (take n es)) \<and> pq_events q' = drop n es \<and>
    (\<forall>e\<in>set (take n es). pe_time_stamp e \<le> now) \<and>
    delay = (if n = length es then None else Some (rt_milliseconds_of rt (min (pe_time_stamp (es ! n) - now) (rt_duration_of rt 3000)))) \<and>
    (n < length es \<longrightarrow> now < pe_time_stamp (es ! n)) \<and> same_reports q q' \<and>
    (client \<longrightarrow> (\<forall>e\<in>set (take n es). pe_posted e \<noteq> None \<longrightarrow> to_client (pe_value e)) \<longrightarrow>
       pq_pressed_keys q' = fold press_stroke (strokes (take n es)) (pq_pressed_keys q)) \<and>
    (\<not> client \<longrightarrow> pq_pressed_keys q' = pq_pressed_keys q)"
  using assms
proof (induction es arbitrary: clock q outs delay q')
  case Nil
  then show ?case by (intro exI [of _ 0]) auto
next
  case (Cons e es)
  show ?case
  proof (cases "pe_time_stamp e > now")
    case True
    then show ?thesis using Cons.prems by (intro exI [of _ 0]) auto
  next
    case False
    define posts where "posts = (if to_client (pe_value e) then client else console)"
    define q1 where "q1 = (if posts \<and> to_client (pe_value e) then handle_posted_momentary_switch_event (clock 0) e q else q)"
    obtain outs2 delay2 q2 where rest: "post_due rt client console now (\<lambda>i. clock (Suc i)) es q1 = (outs2, delay2, q2)"
      by (cases "post_due rt client console now (\<lambda>i. clock (Suc i)) es q1") auto
    have eq: "outs = deliver client console e @ outs2" "delay = delay2" "q' = q2"
      using Cons.prems False rest by (auto simp: posts_def q1_def deliver_def Let_def split: if_split_asm)
    from Cons.IH [OF rest] obtain n where n: "n \<le> length es" "outs2 = concat (map (deliver client console) (take n es))"
      "pq_events q2 = drop n es" "\<forall>e\<in>set (take n es). pe_time_stamp e \<le> now"
      "delay2 = (if n = length es then None else Some (rt_milliseconds_of rt (min (pe_time_stamp (es ! n) - now) (rt_duration_of rt 3000))))"
      "n < length es \<longrightarrow> now < pe_time_stamp (es ! n)" "same_reports q1 q2"
      "client \<longrightarrow> (\<forall>e\<in>set (take n es). pe_posted e \<noteq> None \<longrightarrow> to_client (pe_value e)) \<longrightarrow>
         pq_pressed_keys q2 = fold press_stroke (strokes (take n es)) (pq_pressed_keys q1)"
      "\<not> client \<longrightarrow> pq_pressed_keys q2 = pq_pressed_keys q1" by blast
    have same: "same_reports q q1" by (simp add: q1_def same_reports_posted)
    have "pq_pressed_keys q1 = fold press_stroke (strokes [e]) (pq_pressed_keys q)"
      if "client" "pe_posted e \<noteq> None \<longrightarrow> to_client (pe_value e)"
      using that posted_pressed_keys [of "clock 0" e q]
      by (cases "pe_posted e") (auto simp: q1_def posts_def strokes_def handle_posted_momentary_switch_event_def)
    then have "client \<longrightarrow> (\<forall>e'\<in>set (take (Suc n) (e # es)). pe_posted e' \<noteq> None \<longrightarrow> to_client (pe_value e')) \<longrightarrow>
        pq_pressed_keys q' = fold press_stroke (strokes (take (Suc n) (e # es))) (pq_pressed_keys q)"
      using n(8) eq(3) strokes_Cons [of e "take n es"] by simp
    moreover have "\<not> client \<longrightarrow> pq_pressed_keys q' = pq_pressed_keys q"
      using n(9) eq(3) by (simp add: q1_def posts_def)
    ultimately show ?thesis
      using n(1-7) eq False same_reports_trans [OF same]
      by (intro exI [of _ "Suc n"]) (simp add: min_def)
  qed
qed

subsection \<open>Facts about the queue that every operation of the dispatcher keeps\<close>

text \<open>
  The dispatcher changes the queue only by queueing key events. So a fact about the queue that queueing
  a valid key keeps is kept by every operation.
\<close>

locale queue_fact =
  fixes P :: "('k, 'm, 'b) post_queue \<Rightarrow> bool" and rt :: runtime and r :: "('k, 'm, 'b) report_ops"
  assumes emplace: "P q \<Longrightarrow> mse_valid (Mse p) \<Longrightarrow> P (emplace_back_key_event rt r p et t q)"
begin

definition good :: "('k, 'm, 'b) dispatch \<Rightarrow> bool" where
  "good s \<longleftrightarrow> P (snd s) \<and> (\<forall>k\<in>set (kd_pressed_keys (fst s)). mse_valid (Mse (snd k)))"

lemma good_key_down: "good s \<Longrightarrow> mse_valid (Mse p) \<Longrightarrow> good (dispatch_key_down_event rt r t dev p s)"
  by (cases s) (auto simp: good_def dispatch_key_down_event_def enqueue_key_event_def emplace)

lemma good_key_up: "good s \<Longrightarrow> good (dispatch_key_up_event rt r t p s)"
  by (cases s) (auto simp: good_def dispatch_key_up_event_def enqueue_key_event_def key_event_exists_def list_ex_iff intro: emplace)

lemma good_enqueue: "good s \<Longrightarrow> mse_valid (Mse p) \<Longrightarrow> good (enqueue_key_event rt r t p et s)"
  by (cases s) (simp add: good_def enqueue_key_event_def emplace)

lemma good_flags: "good (d\<lparr>kd_pressed_modifier_flags := F\<rparr>, q) \<longleftrightarrow> good (d, q)"
  by (simp add: good_def)

lemma good_toggle: "good s \<Longrightarrow> good (toggle_caps_lock rt r t s)"
  by (simp add: toggle_caps_lock_def Let_def good_enqueue good_key_up mse_of_modifier_flag_valid del: mse_of_modifier_flag.simps)

lemma good_send: "good s \<Longrightarrow> good (send_modifier rt r t m et s)"
  by (simp add: send_modifier_def Let_def good_enqueue)

lemma good_modifier: "good s \<Longrightarrow> good (dispatch_modifier rt r t mfm m s)"
proof -
  assume s: "good s"
  obtain d q where send: "send_modifier rt r t m (if is_pressed mfm m then Key_down else Key_up) s = (d, q)" by fastforce
  have "good (d, q)" using good_send [OF s] send by metis
  then have "good (d\<lparr>kd_pressed_modifier_flags := F\<rparr>, q)" for F by (simp add: good_flags)
  then show ?thesis unfolding dispatch_modifier_def Let_def send prod.case using s by (simp add: good_toggle)
qed

lemma good_modifiers: "good s \<Longrightarrow> good (dispatch_modifier_key_event rt r t mfm s)"
proof -
  have "good s \<Longrightarrow> good (fold (dispatch_modifier rt r t mfm) ms s)" for ms
    by (induction ms arbitrary: s) (simp_all add: good_modifier)
  then show "good s \<Longrightarrow> ?thesis" by (simp add: dispatch_modifier_key_event_def)
qed

lemma good_ungrab: "good s \<Longrightarrow> good (dispatch_key_up_events_by_device_id rt r t dev s)"
proof (induction "length (kd_pressed_keys (fst s))" arbitrary: s rule: less_induct)
  case less
  show ?case
  proof (cases "find (\<lambda>k. fst k = dev) (kd_pressed_keys (fst s))")
    case None
    then show ?thesis using less.prems by (simp add: ungrab_cases(1))
  next
    case (Some k)
    then show ?thesis using less.hyps [OF key_up_removes [OF Some] good_key_up [OF less.prems]]
      by (simp add: ungrab_cases(2))
  qed
qed

end

text \<open>The fact of interest: nothing is marked as delivered, and every stroke is of a valid key.\<close>

definition undelivered :: "pressed_keys_manager \<Rightarrow> ('k, 'm, 'b) post_queue \<Rightarrow> bool" where
  "undelivered K q \<longleftrightarrow> pq_pressed_keys q = K \<and>
     (\<forall>e\<in>set (pq_events q). pe_posted e \<noteq> None \<longrightarrow> to_client (pe_value e) \<and> mse_valid (fst (the (pe_posted e))))"

lemma adjust_pressed_keys: "adjust_time_stamp rt et b t q = (t', q') \<Longrightarrow> pq_pressed_keys q' = pq_pressed_keys q"
  by (drule arg_cong [of _ _ "\<lambda>x. pq_pressed_keys (snd x)"]) (simp add: adjust_time_stamp_def Let_def split: if_split_asm)

lemma undelivered_append:
  "undelivered K q \<Longrightarrow> mse_valid m \<Longrightarrow> to_client v \<Longrightarrow> undelivered K (append_event (key_report v t m et) q)"
  by (auto simp: undelivered_def append_event_def key_report_def)

lemma undelivered_repeat: "undelivered K (q\<lparr>pq_repeat := x\<rparr>) \<longleftrightarrow> undelivered K q"
  by (simp add: undelivered_def)

lemma undelivered_emplace:
  assumes "undelivered K q" "mse_valid (Mse p)"
  shows "undelivered K (emplace_back_key_event rt r p et t q)"
proof -
  obtain t1 q1 where a: "adjust_time_stamp rt et (mse_modifier_flag (Mse p)) t q = (t1, q1)" by fastforce
  have q1: "undelivered K q1" using assms(1) adjust_pressed_keys [OF a] adjust_time_stamp_keeps [OF a] by (simp add: undelivered_def)
  then have kb: "undelivered K (keyboard_page r (Mse p) et q1)"
    by (simp add: undelivered_def keyboard_page_def split: option.split event_type.split)
  from q1 have "undelivered K (q1\<lparr>pq_consumer_keys := x\<rparr>)" "undelivered K (q1\<lparr>pq_top_case_keys := x\<rparr>)"
    "undelivered K (q1\<lparr>pq_apple_vendor_keyboard_keys := x\<rparr>)" "undelivered K (q1\<lparr>pq_generic_desktop_keys := x\<rparr>)" for x
    by (simp_all add: undelivered_def)
  then show ?thesis using q1 kb assms(2)
    unfolding emplace_back_key_event_def Let_def a prod.case undelivered_repeat
    by (auto intro!: undelivered_append simp: to_client_def)
qed

interpretation undelivered: queue_fact "undelivered K" rt r for K rt r
  by unfold_locales (rule undelivered_emplace)

subsection \<open>The log of the virtual keyboard\<close>

text \<open>
  \<open>kl_queued\<close> are the strokes queued so far and \<open>kl_sent\<close> those the driver's client has received;
  \<open>kl_known\<close> are the strokes received since the set of delivered keys was last emptied. Two flags note
  what breaks the order: \<open>kl_lost\<close>, strokes left the queue while there was no client or were cleared with
  the queue; \<open>kl_late\<close>, all keys were released while the keys known as delivered were not the keys down.
\<close>

record keyboard_log =
  kl_queued :: "stroke list"
  kl_sent :: "stroke list"
  kl_known :: "stroke list"
  kl_lost :: bool
  kl_late :: bool

definition no_log :: keyboard_log where
  "no_log = \<lparr>kl_queued = [], kl_sent = [], kl_known = [], kl_lost = False, kl_late = False\<rparr>"

definition log_strokes :: "stroke list \<Rightarrow> keyboard_log \<Rightarrow> keyboard_log" where
  "log_strokes xs kl = kl\<lparr>kl_queued := kl_queued kl @ xs\<rparr>"

definition log_post :: "bool \<Rightarrow> stroke list \<Rightarrow> keyboard_log \<Rightarrow> keyboard_log" where
  "log_post client xs kl =
     (if client then kl\<lparr>kl_sent := kl_sent kl @ xs, kl_known := kl_known kl @ xs\<rparr>
      else kl\<lparr>kl_lost := kl_lost kl \<or> xs \<noteq> []\<rparr>)"

definition vk_inv :: "('k, 'm, 'b) report_ops \<Rightarrow> ('k, 'm, 'b) dispatch \<times> keyboard_log \<Rightarrow> bool" where
  "vk_inv r = (\<lambda>(s, kl). keys_ok (fst s) \<and> undelivered.good (pq_pressed_keys (snd s)) s \<and>
     reports_show r (kl_queued kl) (snd s) \<and> (\<forall>x\<in>set (kl_queued kl). mse_valid (fst x)) \<and>
     pq_pressed_keys (snd s) = fold press_stroke (kl_known kl) {} \<and>
     (\<not> kl_late kl \<longrightarrow> held_after (kl_queued kl) {} = Some (down (fst s))) \<and>
     (\<not> kl_lost kl \<longrightarrow> kl_queued kl = kl_sent kl @ strokes (pq_events (snd s))))"

lemma vk_inv_init: "vk_inv r ((mk_dispatcher, mk_post_queue r {} ks), no_log)"
proof -
  have "down mk_dispatcher = {}" "keys_ok mk_dispatcher" by (simp_all add: down_def keys_ok_def mk_dispatcher_def)
  moreover have "undelivered.good {} (mk_dispatcher, mk_post_queue r {} ks)"
    by (simp add: undelivered.good_def undelivered_def mk_post_queue_def mk_dispatcher_def)
  ultimately show ?thesis by (simp add: vk_inv_def no_log_def) (simp add: mk_post_queue_def reports_show_def)
qed

text \<open>Strokes in the queue are of valid keys.\<close>

lemma undelivered_strokes: "undelivered K q \<Longrightarrow> x \<in> set (strokes (pq_events q)) \<Longrightarrow> mse_valid (fst x)"
proof -
  assume u: "undelivered K q" and "x \<in> set (strokes (pq_events q))"
  then obtain e where "e \<in> set (pq_events q)" "pe_posted e = Some x"
    by (auto simp: strokes_def split: option.split_asm)
  then show ?thesis using u unfolding undelivered_def by (metis option.distinct(1) option.sel)
qed

text \<open>A dispatch: orderly, and it keeps what is undelivered.\<close>

lemma vk_inv_dispatch:
  assumes inv: "vk_inv r (s, kl)" and o: "orderly r s s'" and g: "undelivered.good (pq_pressed_keys (snd s)) s'"
  shows "\<exists>xs. strokes (pq_events (snd s')) = strokes (pq_events (snd s)) @ xs \<and> vk_inv r (s', log_strokes xs kl)"
proof -
  from inv have s: "keys_ok (fst s)" "reports_show r (kl_queued kl) (snd s)" "\<forall>x\<in>set (kl_queued kl). mse_valid (fst x)"
    "pq_pressed_keys (snd s) = fold press_stroke (kl_known kl) {}"
    "\<not> kl_late kl \<longrightarrow> held_after (kl_queued kl) {} = Some (down (fst s))"
    "\<not> kl_lost kl \<longrightarrow> kl_queued kl = kl_sent kl @ strokes (pq_events (snd s))" by (simp_all add: vk_inv_def)
  from o s(1) obtain xs where xs: "keys_ok (fst s')" "strokes (pq_events (snd s')) = strokes (pq_events (snd s)) @ xs"
    "held_after xs (down (fst s)) = Some (down (fst s'))"
    "\<forall>zs. reports_show r zs (snd s) \<longrightarrow> reports_show r (zs @ xs) (snd s')"
    unfolding orderly_def by blast
  have u: "undelivered (pq_pressed_keys (snd s)) (snd s')" using g by (simp add: undelivered.good_def)
  then have pk: "pq_pressed_keys (snd s') = pq_pressed_keys (snd s)" by (simp add: undelivered_def)
  have "\<forall>x\<in>set xs. mse_valid (fst x)" using undelivered_strokes [OF u] xs(2) by simp
  then have "vk_inv r (s', log_strokes xs kl)"
    using s xs g pk by (auto simp: vk_inv_def log_strokes_def held_after_append)
  then show ?thesis using xs(2) by blast
qed

lemma log_no_strokes [simp]: "log_strokes [] kl = kl"
  by (simp add: log_strokes_def)

lemma log_more_strokes: "log_strokes ys (log_strokes xs kl) = log_strokes (xs @ ys) kl"
  by (simp add: log_strokes_def)

lemma strokes_append: "strokes (xs @ ys) = strokes xs @ strokes ys" by simp

text \<open>A round of posting.\<close>

lemma vk_inv_post:
  assumes inv: "vk_inv r ((d, q), kl)" and post: "async_post_events rt client console now clock q = (outs, delay, q')"
  shows "vk_inv r ((d, q'), log_post client (strokes (take (length (pq_events q) - length (pq_events q')) (pq_events q))) kl)"
proof -
  from inv have s: "keys_ok d" "undelivered (pq_pressed_keys q) q" "reports_show r (kl_queued kl) q"
    "\<forall>x\<in>set (kl_queued kl). mse_valid (fst x)" "pq_pressed_keys q = fold press_stroke (kl_known kl) {}"
    "\<not> kl_late kl \<longrightarrow> held_after (kl_queued kl) {} = Some (down d)"
    "\<not> kl_lost kl \<longrightarrow> kl_queued kl = kl_sent kl @ strokes (pq_events q)"
    "\<forall>k\<in>set (kd_pressed_keys d). mse_valid (Mse (snd k))"
    unfolding vk_inv_def undelivered.good_def prod.case fst_conv snd_conv by blast+
  have ev: "e \<in> set (pq_events q) \<Longrightarrow> pe_posted e \<noteq> None \<longrightarrow> to_client (pe_value e)" for e
    using s(2) by (auto simp: undelivered_def)
  from post_due_prefix [OF post [unfolded async_post_events_def]] obtain n where n: "n \<le> length (pq_events q)"
    "pq_events q' = drop n (pq_events q)" "same_reports q q'"
    "client \<longrightarrow> pq_pressed_keys q' = fold press_stroke (strokes (take n (pq_events q))) (pq_pressed_keys q)"
    "\<not> client \<longrightarrow> pq_pressed_keys q' = pq_pressed_keys q"
    using ev by (meson in_set_takeD)
  let ?xs = "strokes (take n (pq_events q))"
  have len: "length (pq_events q) - length (pq_events q') = n" using n(1,2) by simp
  have all: "strokes (pq_events q) = ?xs @ strokes (pq_events q')"
    unfolding n(2) strokes_append [symmetric] append_take_drop_id ..
  have "undelivered (pq_pressed_keys q') q'" using s(2) n(2) by (auto simp: undelivered_def dest: in_set_dropD)
  then show ?thesis unfolding len using all s n same_reports_show [OF n(3), of r]
    by (cases client) (simp_all add: vk_inv_def log_post_def undelivered.good_def)
qed

text \<open>The queue is cleared, or the set of delivered keys is.\<close>

lemma vk_inv_clear:
  assumes "vk_inv r ((d, q), kl)"
  shows "vk_inv r ((d, post_clear q), kl\<lparr>kl_lost := kl_lost kl \<or> strokes (pq_events q) \<noteq> []\<rparr>)"
proof -
  have "reports_show r xs (post_clear q) = reports_show r xs q" for xs
    by (rule reports_show_fields) (simp_all add: post_clear_def)
  moreover have "undelivered (pq_pressed_keys q) (post_clear q)" "pq_pressed_keys (post_clear q) = pq_pressed_keys q"
      "pq_events (post_clear q) = []"
    by (auto simp: undelivered_def post_clear_def)
  ultimately show ?thesis using assms unfolding vk_inv_def undelivered.good_def by simp
qed

lemma vk_inv_forget:
  assumes "vk_inv r ((d, q), kl)"
  shows "vk_inv r ((d, q\<lparr>pq_pressed_keys := {}\<rparr>), kl\<lparr>kl_known := []\<rparr>)"
proof -
  have "reports_show r xs (q\<lparr>pq_pressed_keys := {}\<rparr>) = reports_show r xs q" for xs
    by (rule reports_show_fields) simp_all
  moreover have "undelivered K q \<Longrightarrow> undelivered {} (q\<lparr>pq_pressed_keys := {}\<rparr>)" for K
    by (simp add: undelivered_def)
  ultimately show ?thesis using assms by (auto simp: vk_inv_def undelivered.good_def)
qed

text \<open>The set of pressed keys follows the strokes that are delivered.\<close>

lemma press_strokes:
  "held_after xs {p. Mse p \<in> K} = Some h \<Longrightarrow> \<forall>x\<in>set xs. mse_valid (fst x) \<Longrightarrow> h = {p. Mse p \<in> fold press_stroke xs K}"
proof (induction xs arbitrary: K)
  case (Cons x xs)
  obtain m et where x: "x = (m, et)" by fastforce
  obtain p where m: "m = Mse p" by (cases m)
  have v: "mse_valid m" using Cons.prems(2) x by simp
  show ?case
  proof (cases et)
    case Key_down
    have "{p'. Mse p' \<in> pk_insert m K} = insert p {p'. Mse p' \<in> K}" by (auto simp: pk_insert_def m)
    then show ?thesis using Cons.prems Cons.IH [of "pk_insert m K"] x m v Key_down by (auto split: if_split_asm)
  next
    case Key_up
    have "{p'. Mse p' \<in> pk_erase m K} = {p'. Mse p' \<in> K} - {p}" by (auto simp: pk_erase_def m)
    then show ?thesis using Cons.prems Cons.IH [of "pk_erase m K"] x m v Key_up by (auto split: if_split_asm)
  next
    case Single
    then show ?thesis using Cons.prems x m by simp
  qed
qed simp

lemma vk_inv_known:
  assumes inv: "vk_inv r ((d, q), kl)" and "\<not> kl_late kl" "\<not> kl_lost kl" "kl_known kl = kl_sent kl"
  shows "held_after (kl_sent kl) {} = Some {p. Mse p \<in> pq_pressed_keys q}"
proof -
  from inv assms(2-4) have s: "\<forall>x\<in>set (kl_queued kl). mse_valid (fst x)" "pq_pressed_keys q = fold press_stroke (kl_sent kl) {}"
    "held_after (kl_queued kl) {} = Some (down d)" "kl_queued kl = kl_sent kl @ strokes (pq_events q)"
    by (auto simp: vk_inv_def)
  obtain h where h: "held_after (kl_sent kl) {} = Some h"
    using s(3) [unfolded s(4) held_after_append bind_eq_Some_conv] by blast
  have "h = {p. Mse p \<in> fold press_stroke (kl_sent kl) {}}" using press_strokes [of "kl_sent kl" "{}" h] h s(1,4) by simp
  then show ?thesis using h s(2) by simp
qed

definition key_a :: usage_pair where
  "key_a = \<lparr>usage_page = page_keyboard_or_keypad, usage = 4\<rparr>"

lemma key_a_facts: "mse_valid (Mse key_a)" "\<not> mse_modifier_flag (Mse key_a)" "usage_page key_a \<in> keyboard_pages"
  by (simp_all add: key_a_def mse_defs keyboard_pages_def)

end
