(* ===== verification/PostTimes.thy ===== *)
theory PostTimes
  imports VirtualKeyboard
begin

text \<open>
  When the events of the last queue are due: the waits that \<open>adjust_time_stamp\<close> puts before press_report, over
  all operations of the queue, and what a round of posting leaves.
\<close>

datatype ('k, 'm, 'b) pq_op =
    Pq_key usage_pair event_type time_point
  | Pq_pointing "'b pointing_input" event_type time_point
  | Pq_shell_command string time_point
  | Pq_send_user_command json time_point
  | Pq_select_input_source "input_source_specifier list" time_point
  | Pq_software_function software_function time_point
  | Pq_post bool bool time_point "nat \<Rightarrow> time_point"
  | Pq_clear

fun pq_step :: "runtime \<Rightarrow> ('k, 'm, 'b) report_ops \<Rightarrow> ('k, 'm, 'b) pq_op \<Rightarrow> ('k, 'm, 'b) post_queue \<Rightarrow> ('k, 'm, 'b) post_queue" where
  "pq_step rt r (Pq_key p et t) q = emplace_back_key_event rt r p et t q"
| "pq_step rt r (Pq_pointing p et t) q = emplace_back_pointing_input rt p et t q"
| "pq_step rt r (Pq_shell_command s t) q = push_back_shell_command_event s t q"
| "pq_step rt r (Pq_send_user_command j t) q = push_back_send_user_command_event j t q"
| "pq_step rt r (Pq_select_input_source s t) q = push_back_select_input_source_event s t q"
| "pq_step rt r (Pq_software_function f t) q = push_back_software_function_event f t q"
| "pq_step rt r (Pq_post client console now clock) q = snd (snd (async_post_events rt client console now clock q))"
| "pq_step rt r Pq_clear q = post_clear q"

text \<open>Reports of keys and pointing devices; the commands carry the time they were given.\<close>

definition is_report :: "('k, 'm, 'b) post_event \<Rightarrow> bool" where
  "is_report e \<longleftrightarrow> to_client (pe_value e)"

definition press_report :: "('k, 'm, 'b) post_event \<Rightarrow> bool" where
  "press_report e \<longleftrightarrow> (case pe_posted e of Some (m, Key_down) \<Rightarrow> True | _ \<Rightarrow> False)"

definition spaced :: "runtime \<Rightarrow> ('k, 'm, 'b) post_queue \<Rightarrow> bool" where
  "spaced rt q \<longleftrightarrow>
     sorted_wrt (\<lambda>x e. is_report x \<longrightarrow> press_report e \<longrightarrow> pe_time_stamp x + rt_duration_of rt 5 \<le> pe_time_stamp e) (pq_events q) \<and>
     (\<forall>x\<in>set (pq_events q). is_report x \<longrightarrow> pe_time_stamp x \<le> pq_last_event_time_stamp q)"

lemma adjust_time_stamp_bounds:
  assumes "adjust_time_stamp rt et b t q = (t', q')"
  shows "t' \<le> pq_last_event_time_stamp q'" "pq_last_event_time_stamp q \<le> pq_last_event_time_stamp q'"
    "et = Key_down \<Longrightarrow> pq_last_event_time_stamp q + rt_duration_of rt 5 \<le> t'" "pq_events q' = pq_events q"
  using assms by (auto simp: adjust_time_stamp_def Let_def split: if_split_asm)

lemma spaced_append:
  assumes "spaced rt q" and "adjust_time_stamp rt et b t q = (t1, q1)"
    and "pq_events q2 = pq_events q1 @ [e]" "pq_last_event_time_stamp q2 = pq_last_event_time_stamp q1"
    and "pe_time_stamp e = t1" "press_report e \<longrightarrow> et = Key_down"
  shows "spaced rt q2"
proof -
  have q1: "pq_events q1 = pq_events q" "pq_last_event_time_stamp q \<le> pq_last_event_time_stamp q1"
    "t1 \<le> pq_last_event_time_stamp q1" "press_report e \<Longrightarrow> pq_last_event_time_stamp q + rt_duration_of rt 5 \<le> t1"
    using adjust_time_stamp_bounds [OF assms(2)] assms(6) by auto
  have "pe_time_stamp x + rt_duration_of rt 5 \<le> pe_time_stamp e" if "x \<in> set (pq_events q)" "is_report x" "press_report e" for x
    using that assms(1,5) q1(4) unfolding spaced_def by fastforce
  moreover have "pe_time_stamp x \<le> pq_last_event_time_stamp q2" if "x \<in> set (pq_events q)" "is_report x" for x
    using that assms(1,4) q1(2) unfolding spaced_def by fastforce
  ultimately show ?thesis using assms(1,3-5) q1(1,3) by (auto simp: spaced_def sorted_wrt_append)
qed

text \<open>A queued key event is at most one report, with the adjusted time.\<close>

lemma keyboard_page_time: "pq_events (keyboard_page r e et q) = pq_events q"
  "pq_last_event_time_stamp (keyboard_page r e et q) = pq_last_event_time_stamp q"
  by (simp_all add: keyboard_page_def split: option.split event_type.split)

lemma append_event_fields: "pq_events (append_event e q) = pq_events q @ [e]"
  "pq_last_event_time_stamp (append_event e q) = pq_last_event_time_stamp q"
  by (simp_all add: append_event_def)

lemma plain_post_fields: "pe_time_stamp (plain_post v t) = t" "pe_value (plain_post v t) = v" "\<not> press_report (plain_post v t)"
  by (simp_all add: plain_post_def press_report_def)

lemma emplace_appends:
  assumes "adjust_time_stamp rt et (mse_modifier_flag (Mse p)) t q = (t1, q1)"
  shows "(\<exists>v. to_client v \<and> pq_events (emplace_back_key_event rt r p et t q) = pq_events q1 @ [key_report v t1 (Mse p) et] \<or>
      pq_events (emplace_back_key_event rt r p et t q) = pq_events q1) \<and>
    pq_last_event_time_stamp (emplace_back_key_event rt r p et t q) = pq_last_event_time_stamp q1"
proof -
  define Q where "Q q2 \<longleftrightarrow> (\<exists>v. to_client v \<and> pq_events q2 = pq_events q1 @ [key_report v t1 (Mse p) et] \<or> pq_events q2 = pq_events q1) \<and>
    pq_last_event_time_stamp q2 = pq_last_event_time_stamp q1" for q2 :: "('a, 'b, 'c) post_queue"
  have app: "Q (append_event (key_report v t1 (Mse p) et) q2)"
    if "to_client v" "pq_events q2 = pq_events q1" "pq_last_event_time_stamp q2 = pq_last_event_time_stamp q1" for v q2
    using that by (auto simp: Q_def append_event_fields)
  have "Q q1" by (simp add: Q_def)
  moreover have "Q (q2\<lparr>pq_repeat := x\<rparr>) = Q q2" for q2 x by (simp add: Q_def)
  ultimately have "Q (emplace_back_key_event rt r p et t q)"
    unfolding emplace_back_key_event_def Let_def assms prod.case
    by (auto intro!: app simp: to_client_def keyboard_page_time)
  then show ?thesis unfolding Q_def .
qed

lemma spaced_push:
  assumes "spaced rt q" "\<not> to_client v"
  shows "spaced rt (append_event (plain_post v t) q)"
  using assms by (auto simp: spaced_def append_event_fields sorted_wrt_append plain_post_def press_report_def is_report_def)

lemma spaced_step:
  assumes "spaced rt q"
  shows "spaced rt (pq_step rt r op q)"
proof (cases op)
  case (Pq_key p et t)
  obtain t1 q1 where a: "adjust_time_stamp rt et (mse_modifier_flag (Mse p)) t q = (t1, q1)" by fastforce
  let ?q = "emplace_back_key_event rt r p et t q"
  have l: "pq_last_event_time_stamp ?q = pq_last_event_time_stamp q1" using emplace_appends [OF a, of r] by blast
  from emplace_appends [OF a, of r]
  consider v where "pq_events ?q = pq_events q1 @ [key_report v t1 (Mse p) et]" | "pq_events ?q = pq_events q1" by blast
  then have "spaced rt ?q"
  proof cases
    case 1
    show ?thesis by (rule spaced_append [OF assms a 1 l]) (auto simp: key_report_def press_report_def split: event_type.split_asm)
  next
    case 2
    then show ?thesis using assms l adjust_time_stamp_bounds [OF a] by (force simp: spaced_def)
  qed
  then show ?thesis by (simp add: Pq_key)
next
  case (Pq_pointing p et t)
  obtain t1 q1 where a: "adjust_time_stamp rt et False t q = (t1, q1)" by fastforce
  have "spaced rt (append_event (plain_post (Pointing_input p) t1) q1)"
    by (rule spaced_append [OF assms a append_event_fields]) (simp_all add: plain_post_fields)
  then show ?thesis by (simp add: Pq_pointing emplace_back_pointing_input_def a)
next
  case (Pq_post client console now clock)
  obtain outs delay q' where post: "post_due rt client console now clock (pq_events q) q = (outs, delay, q')"
    by (cases "post_due rt client console now clock (pq_events q) q") auto
  from post_due_prefix [OF post] obtain n where n: "pq_events q' = drop n (pq_events q)" "same_reports q q'" by blast
  then have "spaced rt q'" using assms
    by (auto simp: spaced_def same_reports_def sorted_wrt_drop dest: in_set_dropD)
  then show ?thesis by (simp add: Pq_post async_post_events_def post)
next
  case Pq_clear
  then show ?thesis by (simp add: post_clear_def spaced_def)
qed (auto simp: push_back_shell_command_event_def push_back_send_user_command_event_def push_back_select_input_source_event_def
    push_back_software_function_event_def to_client_def intro!: spaced_push assms)

interpretation post_times: machine "pq_step rt r" "mk_post_queue r pk ks" "spaced rt" "\<lambda>_. True" for rt r pk ks
  by unfold_locales (simp add: spaced_def mk_post_queue_def, rule spaced_step)

subsection \<open>Properties\<close>

text \<open>
  C17. Presses keep their distance: in every reachable queue a press is due at least five milliseconds
  after every key or pointing report queued before it, whatever time stamps the events came with.
\<close>

theorem presses_keep_distance:
  assumes "pq_events (run_ops (pq_step rt r) ops (mk_post_queue r pk ks)) = xs @ e # ys"
    and "pe_posted e = Some (m, Key_down)" and "x \<in> set xs" and "to_client (pe_value x)"
  shows "pe_time_stamp x + rt_duration_of rt 5 \<le> pe_time_stamp e"
  using post_times.reachable_inv [of ops rt r pk ks] assms
  by (auto simp: spaced_def sorted_wrt_append press_report_def is_report_def)

theorem presses_keep_distance_witness:
  "\<exists>x e. pq_events (run_ops (pq_step idle_runtime list_reports) [Pq_key key_a Key_down 7, Pq_key key_a Key_down 8]
      (mk_post_queue list_reports {} (mk_suppression 0 0))) = [x, e] \<and> pe_time_stamp x + 5000000 \<le> pe_time_stamp e"
proof -
  let ?q = "run_ops (pq_step idle_runtime list_reports) [Pq_key key_a Key_down 7, Pq_key key_a Key_down 8]
      (mk_post_queue list_reports {} (mk_suppression 0 0))"
  obtain x e where q: "pq_events ?q = [] @ [x] @ e # []" "pe_posted e = Some (Mse key_a, Key_down)" "to_client (pe_value x)"
    by (simp add: emplace_back_key_event_def adjust_time_stamp_def mk_post_queue_def key_a_def Let_def append_event_def key_report_def
        to_client_def keyboard_page_def report_modifier_of_def make_modifier_flag_def page_defs usage_defs)
  have "pe_time_stamp x + rt_duration_of idle_runtime 5 \<le> pe_time_stamp e"
    by (rule presses_keep_distance [of idle_runtime list_reports "[Pq_key key_a Key_down 7, Pq_key key_a Key_down 8]" "{}"
        "mk_suppression 0 0" "[x]" e "[]"]) (use q in simp_all)
  then show ?thesis using q(1) by (auto simp: idle_runtime_def)
qed

text \<open>
  C18. A round of posting delivers, in order, the events that are due before the first that is not; it
  keeps the rest in the queue and then asks to be called again after a number of whole milliseconds:
  the time left until that event, at most three seconds, with the fraction of a millisecond cut off. So
  the call comes no later than the event is due; the delay is 0 when the event is due within a
  millisecond. The hypotheses say what the conversions of the clock do: whole milliseconds cut from a
  duration are no longer than it.
\<close>

theorem posting_delivers_what_is_due:
  assumes "async_post_events rt client console now clock q = (outs, delay, q')"
    and "0 \<le> rt_duration_of rt 3000"
    and "\<forall>d\<ge>0. rt_duration_of rt (rt_milliseconds_of rt d) \<le> d"
  shows "\<exists>due. pq_events q = due @ pq_events q' \<and> (\<forall>e\<in>set due. pe_time_stamp e \<le> now) \<and>
    outs = concat (map (deliver client console) due) \<and>
    (case pq_events q' of
       [] \<Rightarrow> delay = None
     | e # _ \<Rightarrow> now < pe_time_stamp e \<and>
         (\<exists>d. delay = Some d \<and> d = rt_milliseconds_of rt (min (pe_time_stamp e - now) (rt_duration_of rt 3000)) \<and>
            now + rt_duration_of rt d \<le> pe_time_stamp e \<and> rt_duration_of rt d \<le> rt_duration_of rt 3000))"
proof -
  from post_due_prefix [OF assms(1) [unfolded async_post_events_def]] obtain n where n: "n \<le> length (pq_events q)"
    "outs = concat (map (deliver client console) (take n (pq_events q)))" "pq_events q' = drop n (pq_events q)"
    "\<forall>e\<in>set (take n (pq_events q)). pe_time_stamp e \<le> now"
    "delay = (if n = length (pq_events q) then None
       else Some (rt_milliseconds_of rt (min (pe_time_stamp (pq_events q ! n) - now) (rt_duration_of rt 3000))))"
    "n < length (pq_events q) \<longrightarrow> now < pe_time_stamp (pq_events q ! n)" by blast
  have split: "pq_events q = take n (pq_events q) @ pq_events q'" using n(3) by simp
  show ?thesis
  proof (cases "n = length (pq_events q)")
    case True
    then show ?thesis using n split by (intro exI [of _ "take n (pq_events q)"]) simp
  next
    case False
    let ?e = "pq_events q ! n"
    let ?left = "min (pe_time_stamp ?e - now) (rt_duration_of rt 3000)"
    have "n < length (pq_events q)" using n(1) False by simp
    then have e: "pq_events q' = ?e # drop (Suc n) (pq_events q)" "now < pe_time_stamp ?e"
      using n(3,6) by (simp_all add: Cons_nth_drop_Suc)
    have "0 \<le> ?left" using assms(2) e(2) by simp
    then have "rt_duration_of rt (rt_milliseconds_of rt ?left) \<le> ?left" using assms(3) by blast
    then have "now + rt_duration_of rt (rt_milliseconds_of rt ?left) \<le> pe_time_stamp ?e \<and>
        rt_duration_of rt (rt_milliseconds_of rt ?left) \<le> rt_duration_of rt 3000" by simp
    then show ?thesis using n(2,4,5) split False e by (intro exI [of _ "take n (pq_events q)"]) simp
  qed
qed

theorem posting_delivers_what_is_due_witness:
  "\<exists>outs delay q'. async_post_events idle_runtime True True 5 (\<lambda>_. 0)
      (push_back_shell_command_event ''ls'' 2500009 (push_back_shell_command_event ''ls'' 3 (mk_post_queue list_reports {} (mk_suppression 0 0))))
      = (outs, delay, q') \<and> outs = [To_console (Shell_command ''ls'')] \<and> delay = Some 2"
proof -
  let ?q = "push_back_shell_command_event ''ls'' 2500009 (push_back_shell_command_event ''ls'' 3 (mk_post_queue list_reports {} (mk_suppression 0 0)))"
  obtain outs delay q' where post: "async_post_events idle_runtime True True 5 (\<lambda>_. 0) ?q = (outs, delay, q')"
    by (cases "async_post_events idle_runtime True True 5 (\<lambda>_. 0) ?q") auto
  have "outs = [To_console (Shell_command ''ls'')]" "delay = Some 2"
    using post by (auto simp: async_post_events_def push_back_shell_command_event_def append_event_def plain_post_def
        mk_post_queue_def to_client_def idle_runtime_def Let_def)
  moreover have "0 \<le> rt_duration_of idle_runtime 3000" by (simp add: idle_runtime_def)
  moreover have "d div 1000000 * 1000000 \<le> d" for d :: int by presburger
  then have "\<forall>d\<ge>0. rt_duration_of idle_runtime (rt_milliseconds_of idle_runtime d) \<le> d" by (simp add: idle_runtime_def)
  ultimately show ?thesis using posting_delivers_what_is_due [OF post] post by blast
qed

end
