(* ===== verification/MouseKeys.thy ===== *)
theory MouseKeys
  imports PostQueue ScrollCounter "HOL-Library.While_Combinator"
begin

text \<open>
  Mouse keys (\<open>mouse_key_handler.hpp\<close>): keys that move the pointer while they are held. Every 20
  milliseconds the timer posts a report with the sum of the held keys, as an integer step for each axis;
  counters carry what is left of dividing the steps by 128 over to the next report. The conversion from double to \<open>int\<close> is the parameter \<open>fl_to_int\<close>.
\<close>

subsection \<open>Counters\<close>

record count_converter =
  cc_threshold :: int
  cc_count :: int

definition mk_converter :: "int \<Rightarrow> count_converter" where
  "mk_converter t = \<lparr>cc_threshold = t, cc_count = 0\<rparr>"

text \<open>The two loops of \<open>update\<close>, on the count and the result.\<close>

definition count_up :: "int \<Rightarrow> int \<times> int \<Rightarrow> int \<times> int" where
  "count_up t = while (\<lambda>(n, result). n \<le> - t) (\<lambda>(n, result). (n + t, if result > -127 then result - 1 else result))"

definition count_down :: "int \<Rightarrow> int \<times> int \<Rightarrow> int \<times> int" where
  "count_down t = while (\<lambda>(n, result). n \<ge> t) (\<lambda>(n, result). (n - t, if result < 127 then result + 1 else result))"

definition cc_update :: "int \<Rightarrow> count_converter \<Rightarrow> 8 word \<times> count_converter" where
  "cc_update v c =
     (let (n, result) = count_down (cc_threshold c) (count_up (cc_threshold c) (cc_count c + v, 0))
      in (word_of_int result, c\<lparr>cc_count := n\<rparr>))"

definition cc_reset :: "count_converter \<Rightarrow> count_converter" where
  "cc_reset c = c\<lparr>cc_count := 0\<rparr>"

text \<open>The loops end, and leave the remainder of the division that rounds to zero.\<close>

definition tdiv :: "int \<Rightarrow> int \<Rightarrow> int" where
  "tdiv t n = (if n \<ge> 0 then n div t else - ((- n) div t))"

definition clamped :: "int \<Rightarrow> int" where
  "clamped n = max (- 127) (min 127 n)"

lemma tdiv_bounds:
  assumes "0 < t"
  shows "\<bar>n - t * tdiv t n\<bar> < t" "n \<ge> 0 \<Longrightarrow> 0 \<le> n - t * tdiv t n" "n \<le> 0 \<Longrightarrow> n - t * tdiv t n \<le> 0"
proof -
  have d: "0 \<le> m - t * (m div t) \<and> m - t * (m div t) < t" for m
    using assms minus_mult_div_eq_mod [of m t] by simp
  show "\<bar>n - t * tdiv t n\<bar> < t" "n \<ge> 0 \<Longrightarrow> 0 \<le> n - t * tdiv t n" "n \<le> 0 \<Longrightarrow> n - t * tdiv t n \<le> 0"
    using d [of n] d [of "- n"] by (auto simp: tdiv_def abs_less_iff)
qed

lemma tdiv_unique:
  assumes "0 < t" "\<bar>c\<bar> < t" "n \<ge> 0 \<Longrightarrow> 0 \<le> c" "n \<le> 0 \<Longrightarrow> c \<le> 0" "n = c + t * k"
  shows "tdiv t n = k"
proof (cases "n \<ge> 0")
  case True
  then have "c \<ge> 0" "c < t" using assms by auto
  then have "n div t = k" using assms(5) by simp
  then show ?thesis using True by (simp add: tdiv_def)
next
  case False
  then have "- c \<ge> 0" "- c < t" "- n = - c + t * (- k)" using assms by auto
  then have "(- n) div t = - k" by (metis add.right_neutral div_mult_self2 div_pos_pos_trivial add.commute assms(1) less_irrefl add_0)
  then show ?thesis using False by (simp add: tdiv_def)
qed

lemma count_up_result:
  assumes "0 < t"
  shows "count_up t (n, 0) = (if n \<le> - t then (n - t * tdiv t n, clamped (tdiv t n)) else (n, 0))"
proof -
  define P where "P = (\<lambda>(c, res). \<exists>k\<ge>0. c = n + t * k \<and> res = clamped (- k) \<and> (k = 0 \<or> c \<le> 0))"
  have "P (count_up t (n, 0)) \<and> \<not> fst (count_up t (n, 0)) \<le> - t"
    unfolding count_up_def
  proof (rule while_rule [where P = P and r = "measure (\<lambda>(c, res). nat (- c))"])
    show "P (n, 0)" by (auto simp: P_def clamped_def intro: exI [of _ 0])
    fix s assume s: "P s" "case s of (n, result) \<Rightarrow> n \<le> - t"
    obtain c res where cr: "s = (c, res)" by fastforce
    with s obtain k where k: "k \<ge> 0" "c = n + t * k" "res = clamped (- k)" "c \<le> - t" by (auto simp: P_def)
    have "(if res > -127 then res - 1 else res) = clamped (- (k + 1))" using k(1,3) by (auto simp: clamped_def)
    moreover have "c + t = n + t * (k + 1)" using k(2) by (simp add: algebra_simps)
    ultimately show "P (case s of (n, result) \<Rightarrow> (n + t, if result > -127 then result - 1 else result))"
      using k(1,4) by (auto simp: P_def cr intro!: exI [of _ "k + 1"])
    show "(case s of (n, result) \<Rightarrow> (n + t, if result > -127 then result - 1 else result), s) \<in> measure (\<lambda>(c, res). nat (- c))"
      using assms k(4) by (simp add: cr)
  qed (use assms in auto)
  then obtain k where k: "k \<ge> 0" "fst (count_up t (n, 0)) = n + t * k" "snd (count_up t (n, 0)) = clamped (- k)"
    "k = 0 \<or> n + t * k \<le> 0" "\<not> n + t * k \<le> - t" by (auto simp: P_def split: prod.split_asm)
  show ?thesis
  proof (cases "n \<le> - t")
    case True
    then have "tdiv t n = - k" using k assms
      by (intro tdiv_unique [OF assms, of "n + t * k"]) (auto simp: abs_less_iff)
    then show ?thesis using True k by (simp add: prod_eq_iff)
  next
    case False
    have "k = 0"
    proof (rule ccontr)
      assume "k \<noteq> 0"
      then have "t * 1 \<le> t * k" using k(1) assms by (intro mult_left_mono) auto
      then show False using k(4) \<open>k \<noteq> 0\<close> False by simp
    qed
    then show ?thesis using False k by (simp add: prod_eq_iff clamped_def)
  qed
qed

lemma count_down_result:
  assumes "0 < t"
  shows "count_down t (n, 0) = (if n \<ge> t then (n - t * tdiv t n, clamped (tdiv t n)) else (n, 0))"
    and "n < t \<Longrightarrow> count_down t (n, i) = (n, i)"
proof -
  show "count_down t (n, i) = (n, i)" if "n < t" using that by (subst count_down_def, subst while_unfold) simp
  define P where "P = (\<lambda>(c, res). \<exists>k\<ge>0. c = n - t * k \<and> res = clamped k \<and> (k = 0 \<or> c \<ge> 0))"
  have "P (count_down t (n, 0)) \<and> \<not> fst (count_down t (n, 0)) \<ge> t"
    unfolding count_down_def
  proof (rule while_rule [where P = P and r = "measure (\<lambda>(c, res). nat c)"])
    show "P (n, 0)" by (auto simp: P_def clamped_def intro: exI [of _ 0])
    fix s assume s: "P s" "case s of (n, result) \<Rightarrow> n \<ge> t"
    obtain c res where cr: "s = (c, res)" by fastforce
    with s obtain k where k: "k \<ge> 0" "c = n - t * k" "res = clamped k" "c \<ge> t" by (auto simp: P_def)
    have "(if res < 127 then res + 1 else res) = clamped (k + 1)" using k(1,3) by (auto simp: clamped_def)
    moreover have "c - t = n - t * (k + 1)" using k(2) by (simp add: algebra_simps)
    ultimately show "P (case s of (n, result) \<Rightarrow> (n - t, if result < 127 then result + 1 else result))"
      using k(1,4) by (auto simp: P_def cr intro!: exI [of _ "k + 1"])
    show "(case s of (n, result) \<Rightarrow> (n - t, if result < 127 then result + 1 else result), s) \<in> measure (\<lambda>(c, res). nat c)"
      using assms k(4) by (simp add: cr)
  qed (use assms in auto)
  then obtain k where k: "k \<ge> 0" "fst (count_down t (n, 0)) = n - t * k" "snd (count_down t (n, 0)) = clamped k"
    "k = 0 \<or> n - t * k \<ge> 0" "\<not> n - t * k \<ge> t" by (auto simp: P_def split: prod.split_asm)
  show "count_down t (n, 0) = (if n \<ge> t then (n - t * tdiv t n, clamped (tdiv t n)) else (n, 0))"
  proof (cases "n \<ge> t")
    case True
    then have "tdiv t n = k" using k assms
      by (intro tdiv_unique [OF assms, of "n - t * k"]) auto
    then show ?thesis using True k by (simp add: prod_eq_iff)
  next
    case False
    have "k = 0"
    proof (rule ccontr)
      assume "k \<noteq> 0"
      then have "t * 1 \<le> t * k" using k(1) assms by (intro mult_left_mono) auto
      then show False using k(4) \<open>k \<noteq> 0\<close> False by simp
    qed
    then show ?thesis using False k by (simp add: prod_eq_iff clamped_def)
  qed
qed

lemma cc_update_result:
  fixes v :: int
  assumes "0 < cc_threshold c"
  defines "n \<equiv> cc_count c + v"
  shows "cc_update v c = (word_of_int (clamped (tdiv (cc_threshold c) n)),
    c\<lparr>cc_count := n - cc_threshold c * tdiv (cc_threshold c) n\<rparr>)"
proof -
  let ?t = "cc_threshold c"
  consider "n \<le> - ?t" | "- ?t < n" "n < ?t" | "n \<ge> ?t" by linarith
  then have "count_down ?t (count_up ?t (n, 0)) = (n - ?t * tdiv ?t n, clamped (tdiv ?t n))"
  proof cases
    case 1
    have "n - ?t * tdiv ?t n < ?t" using tdiv_bounds(1) [OF assms(1), of n] by simp
    then show ?thesis using 1 by (simp add: count_up_result [OF assms(1)] count_down_result(2) [OF assms(1)])
  next
    case 2
    then have "tdiv ?t n = 0" using assms(1) by (intro tdiv_unique [of _ n]) auto
    then show ?thesis using 2 by (simp add: count_up_result [OF assms(1)] count_down_result(2) [OF assms(1)] clamped_def)
  next
    case 3
    then show ?thesis using assms(1) by (simp add: count_up_result [OF assms(1)] count_down_result(1) [OF assms(1)])
  qed
  then show ?thesis by (simp add: cc_update_def n_def)
qed

subsection \<open>The handler\<close>

text \<open>
  \<open>mh_queue_set\<close> says that an output queue has been given; the queue itself is an argument of the
  operations. \<open>mh_timer\<close> is the time stamp its function captured, while the timer runs.
\<close>

record mouse_key_handler =
  mh_natural :: bool
  mh_entries :: "(device_id \<times> mouse_key) list"
  mh_active :: bool
  mh_queue_set :: bool
  mh_last_total :: "mouse_key option"
  mh_x :: count_converter
  mh_y :: count_converter
  mh_vertical_wheel :: count_converter
  mh_horizontal_wheel :: count_converter
  mh_timer :: "time_point option"

definition mk_handler :: "bool \<Rightarrow> mouse_key_handler" where
  "mk_handler natural =
     \<lparr>mh_natural = natural, mh_entries = [], mh_active = False, mh_queue_set = False, mh_last_total = None,
      mh_x = mk_converter 128, mh_y = mk_converter 128, mh_vertical_wheel = mk_converter 128,
      mh_horizontal_wheel = mk_converter 128, mh_timer = None\<rparr>"

definition set_system_preferences_properties :: "bool \<Rightarrow> mouse_key_handler \<Rightarrow> mouse_key_handler" where
  "set_system_preferences_properties natural h = h\<lparr>mh_natural := natural\<rparr>"

definition set_entries :: "(device_id \<times> mouse_key) list \<Rightarrow> mouse_key_handler \<Rightarrow> mouse_key_handler" where
  "set_entries es h = h\<lparr>mh_entries := es, mh_active := (es \<noteq> [])\<rparr>"

definition erase_entry :: "device_id \<Rightarrow> mouse_key \<Rightarrow> mouse_key_handler \<Rightarrow> mouse_key_handler" where
  "erase_entry d k h = set_entries (remove_if (\<lambda>e. fst e = d \<and> snd e = k) (mh_entries h)) h"

definition start_mouse_timer :: "time_point \<Rightarrow> mouse_key_handler \<Rightarrow> mouse_key_handler" where
  "start_mouse_timer t h = h\<lparr>mh_timer := Some t\<rparr>"

definition push_back_mouse_key :: "device_id \<Rightarrow> mouse_key \<Rightarrow> time_point \<Rightarrow> mouse_key_handler \<Rightarrow> mouse_key_handler" where
  "push_back_mouse_key d k t h =
     (let h1 = erase_entry d k h; h2 = set_entries (mh_entries h1 @ [(d, k)]) h1
      in start_mouse_timer t (h2\<lparr>mh_queue_set := True\<rparr>))"

definition erase_mouse_key :: "device_id \<Rightarrow> mouse_key \<Rightarrow> time_point \<Rightarrow> mouse_key_handler \<Rightarrow> mouse_key_handler" where
  "erase_mouse_key d k t h = start_mouse_timer t ((erase_entry d k h)\<lparr>mh_queue_set := True\<rparr>)"

definition erase_mouse_keys_by_device_id :: "device_id \<Rightarrow> time_point \<Rightarrow> mouse_key_handler \<Rightarrow> mouse_key_handler" where
  "erase_mouse_keys_by_device_id d t h =
     start_mouse_timer t (set_entries (remove_if (\<lambda>e. fst e = d) (mh_entries h)) h)"

text \<open>The sum of the held keys, and what is posted for it. The setting \<open>xy_scale\<close> is in percent.\<close>

definition xy_scale :: "event_queue \<Rightarrow> int" where
  "xy_scale oq = cc_mouse_key_xy_scale (env_core_configuration (q_environment oq))"

definition mouse_key_total :: "floating \<Rightarrow> mouse_key_handler \<Rightarrow> mouse_key" where
  "mouse_key_total fl h =
     (let total = foldl (\<lambda>m e. mk_plus (\<lambda>a b. fl_round fl (a * b)) m (snd e)) mouse_key_zero (mh_entries h)
      in if mh_natural h then total else mk_invert_wheel total)"

definition reset_converters :: "mouse_key_handler \<Rightarrow> mouse_key_handler" where
  "reset_converters h =
     h\<lparr>mh_x := cc_reset (mh_x h), mh_y := cc_reset (mh_y h), mh_vertical_wheel := cc_reset (mh_vertical_wheel h),
       mh_horizontal_wheel := cc_reset (mh_horizontal_wheel h)\<rparr>"

definition xy_step :: "floating \<Rightarrow> int \<Rightarrow> rat \<Rightarrow> int \<Rightarrow> int" where
  "xy_step fl v speed scale =
     fl_to_int fl (fl_round fl (fl_round fl (of_int v * speed) * fl_round fl (of_int scale / 100)))"

definition wheel_step :: "floating \<Rightarrow> int \<Rightarrow> rat \<Rightarrow> int" where
  "wheel_step fl v speed = fl_to_int fl (fl_round fl (of_int v * speed))"

definition post_mouse_event ::
    "runtime \<Rightarrow> floating \<Rightarrow> ('k, 'm, 'b) report_ops \<Rightarrow> event_queue \<Rightarrow> time_point \<Rightarrow>
     mouse_key_handler \<times> ('k, 'm, 'b) post_queue \<Rightarrow> bool \<times> mouse_key_handler \<times> ('k, 'm, 'b) post_queue" where
  "post_mouse_event rt fl r oq t = (\<lambda>(h, q).
     if \<not> mh_queue_set h then (False, h, q)
     else
       (let total = mouse_key_total fl h in
        if mk_is_zero total then (False, h\<lparr>mh_last_total := None\<rparr>, q)
        else
          (let h1 = (if mh_last_total h \<noteq> Some total then reset_converters (h\<lparr>mh_last_total := Some total\<rparr>) else h);
               speed = mk_speed_multiplier total;
               (x, cx) = cc_update (xy_step fl (mk_x total) speed (xy_scale oq)) (mh_x h1);
               (y, cy) = cc_update (xy_step fl (mk_y total) speed (xy_scale oq)) (mh_y h1);
               (v, cv) = cc_update (wheel_step fl (mk_vertical_wheel total) speed) (mh_vertical_wheel h1);
               (w, cw) = cc_update (wheel_step fl (mk_horizontal_wheel total) speed) (mh_horizontal_wheel h1);
               buttons = make_hid_report_buttons (ro_no_buttons r) (ro_insert_button r) (q_pointing_button_manager oq);
               report = \<lparr>pi_buttons = buttons, pi_x = x, pi_y = y, pi_vertical_wheel = v, pi_horizontal_wheel = w\<rparr>
           in (True, h1\<lparr>mh_x := cx, mh_y := cy, mh_vertical_wheel := cv, mh_horizontal_wheel := cw\<rparr>,
               emplace_back_pointing_input rt report Single t q))))"

text \<open>
  A call of the timer's function. The code adds 20 milliseconds to a local copy of the time stamp after
  the report is posted and drops it, so all reports of a run carry the time stamp of the key event.
\<close>

definition mouse_timer_round ::
    "runtime \<Rightarrow> floating \<Rightarrow> ('k, 'm, 'b) report_ops \<Rightarrow> event_queue \<Rightarrow>
     mouse_key_handler \<times> ('k, 'm, 'b) post_queue \<Rightarrow> mouse_key_handler \<times> ('k, 'm, 'b) post_queue" where
  "mouse_timer_round rt fl r oq = (\<lambda>(h, q).
     case mh_timer h of
       None \<Rightarrow> (h, q)
     | Some t \<Rightarrow>
         (let (posted, h1, q1) = post_mouse_event rt fl r oq t (h, q)
          in (if posted then h1 else h1\<lparr>mh_timer := None\<rparr>, q1)))"

subsection \<open>Held keys\<close>

datatype mouse_op =
    Mouse_press device_id mouse_key time_point
  | Mouse_release device_id mouse_key time_point
  | Mouse_ungrab device_id time_point
  | Mouse_preferences bool

fun mouse_step :: "mouse_op \<Rightarrow> mouse_key_handler \<Rightarrow> mouse_key_handler" where
  "mouse_step (Mouse_press d k t) h = push_back_mouse_key d k t h"
| "mouse_step (Mouse_release d k t) h = erase_mouse_key d k t h"
| "mouse_step (Mouse_ungrab d t) h = erase_mouse_keys_by_device_id d t h"
| "mouse_step (Mouse_preferences b) h = set_system_preferences_properties b h"

text \<open>The abstract state: the set of keys held on the devices.\<close>

fun mouse_held_step :: "mouse_op \<Rightarrow> (device_id \<times> mouse_key) set \<Rightarrow> (device_id \<times> mouse_key) set" where
  "mouse_held_step (Mouse_press d k t) s = insert (d, k) s"
| "mouse_held_step (Mouse_release d k t) s = s - {(d, k)}"
| "mouse_held_step (Mouse_ungrab d t) s = {e \<in> s. fst e \<noteq> d}"
| "mouse_held_step (Mouse_preferences b) s = s"

definition handler_inv :: "mouse_key_handler \<Rightarrow> bool" where
  "handler_inv h \<longleftrightarrow> distinct (mh_entries h) \<and> (mh_active h \<longleftrightarrow> mh_entries h \<noteq> []) \<and>
     cc_threshold (mh_x h) = 128 \<and> cc_threshold (mh_y h) = 128 \<and>
     cc_threshold (mh_vertical_wheel h) = 128 \<and> cc_threshold (mh_horizontal_wheel h) = 128"

lemma handler_inv_set: "handler_inv h \<Longrightarrow> distinct es \<Longrightarrow> handler_inv (set_entries es h)"
  by (simp add: handler_inv_def set_entries_def)

lemma handler_inv_timer: "handler_inv (start_mouse_timer t h) \<longleftrightarrow> handler_inv h"
  "handler_inv (h\<lparr>mh_queue_set := b\<rparr>) \<longleftrightarrow> handler_inv h"
  by (simp_all add: handler_inv_def start_mouse_timer_def)

lemma handler_inv_distinct: "handler_inv h \<Longrightarrow> distinct (remove_if P (mh_entries h))"
  by (simp add: handler_inv_def remove_if_def)

lemma entries_simps: "mh_entries (set_entries es h) = es" "mh_entries (start_mouse_timer t h) = mh_entries h"
  "mh_entries (h\<lparr>mh_queue_set := b\<rparr>) = mh_entries h"
  by (simp_all add: set_entries_def start_mouse_timer_def)

lemma distinct_snoc_removed: "distinct xs \<Longrightarrow> distinct (remove_if (\<lambda>e. fst e = d \<and> snd e = k) xs @ [(d, k)])"
  by (simp add: remove_if_def)

lemma mouse_step_inv: "handler_inv h \<Longrightarrow> handler_inv (mouse_step op h)"
proof (cases op)
  case (Mouse_press d k t)
  assume "handler_inv h"
  moreover from this have "distinct (mh_entries h)" by (simp add: handler_inv_def)
  ultimately show ?thesis
    by (simp add: Mouse_press push_back_mouse_key_def erase_entry_def handler_inv_timer entries_simps Let_def
        handler_inv_set handler_inv_distinct distinct_snoc_removed del: distinct_append)
qed (simp_all add: erase_mouse_key_def erase_mouse_keys_by_device_id_def erase_entry_def handler_inv_timer entries_simps
    handler_inv_set handler_inv_distinct, simp add: handler_inv_def set_system_preferences_properties_def)

lemma mouse_step_entries: "set (mh_entries (mouse_step op h)) = mouse_held_step op (set (mh_entries h))"
  by (cases op) (auto simp: push_back_mouse_key_def erase_mouse_key_def erase_mouse_keys_by_device_id_def erase_entry_def
      entries_simps set_system_preferences_properties_def Let_def)

interpretation mouse_keys: refined_machine mouse_step "mk_handler b" handler_inv "\<lambda>_. True" "\<lambda>h. set (mh_entries h)" mouse_held_step for b
  by unfold_locales (simp add: handler_inv_def mk_handler_def mk_converter_def, rule mouse_step_inv, assumption, rule mouse_step_entries)

subsection \<open>The movement of a held key\<close>

primrec moves :: "int \<Rightarrow> nat \<Rightarrow> count_converter \<Rightarrow> 8 word list" where
  "moves v 0 c = []"
| "moves v (Suc n) c = fst (cc_update v c) # moves v n (snd (cc_update v c))"

lemma sint_clamped: "sint (word_of_int (clamped n) :: 8 word) = clamped n"
  unfolding sint_sbintrunc' by (rule signed_take_bit_int_eq_self) (auto simp: clamped_def)

lemma moves_sum:
  assumes "\<bar>v\<bar> \<le> 127 * 128" "cc_threshold c = 128" "\<bar>cc_count c\<bar> < 128" "v \<ge> 0 \<longrightarrow> cc_count c \<ge> 0" "v \<le> 0 \<longrightarrow> cc_count c \<le> 0"
  shows "sum_list (map sint (moves v n c)) = tdiv 128 (cc_count c + int n * v)"
  using assms(2-5)
proof (induction n arbitrary: c)
  case 0
  then show ?case by (simp add: tdiv_def div_pos_pos_trivial)
next
  case (Suc n)
  let ?n = "cc_count c + v" let ?q = "tdiv 128 ?n" let ?c = "?n - 128 * ?q"
  have step: "cc_update v c = (word_of_int (clamped ?q), c\<lparr>cc_count := ?c\<rparr>)"
    using cc_update_result [of c v] Suc.prems(1) by simp
  have b: "\<bar>?c\<bar> < 128" "?n \<ge> 0 \<Longrightarrow> 0 \<le> ?c" "?n \<le> 0 \<Longrightarrow> ?c \<le> 0" using tdiv_bounds [of 128 ?n] by auto
  have sign: "v \<ge> 0 \<longrightarrow> ?n \<ge> 0" "v \<le> 0 \<longrightarrow> ?n \<le> 0" using Suc.prems(3,4) by auto
  have "\<bar>?n\<bar> < 128 * 128" using assms(1) Suc.prems(2) by linarith
  then have "\<bar>?q\<bar> \<le> 127" by (simp add: tdiv_def abs_less_iff abs_le_iff) linarith
  then have cl: "clamped ?q = ?q" by (auto simp: clamped_def abs_le_iff)
  have ih: "sum_list (map sint (moves v n (c\<lparr>cc_count := ?c\<rparr>))) = tdiv 128 (?c + int n * v)"
    using Suc.IH [of "c\<lparr>cc_count := ?c\<rparr>"] Suc.prems(1) b sign by simp
  let ?m = "cc_count c + int (Suc n) * v"
  let ?k = "tdiv 128 (?c + int n * v)"
  have mn: "?m = ?n + int n * v" by (simp add: algebra_simps)
  have m: "?m = (?c + int n * v - 128 * ?k) + 128 * (?k + ?q)" by (simp add: algebra_simps)
  have nv: "v \<ge> 0 \<longrightarrow> int n * v \<ge> 0" "v \<le> 0 \<longrightarrow> int n * v \<le> 0" by (auto simp: mult_nonneg_nonpos)
  have "tdiv 128 ?m = ?k + ?q"
  proof (rule tdiv_unique [OF _ _ _ _ m])
    show "\<bar>?c + int n * v - 128 * ?k\<bar> < 128" by (rule tdiv_bounds(1)) simp
    show "0 \<le> ?c + int n * v - 128 * ?k" if "?m \<ge> 0"
    proof (rule tdiv_bounds(2))
      have "0 \<le> ?c" "0 \<le> int n * v" if "v \<ge> 0" using that b(2) sign(1) nv(1) by auto
      moreover have "?n = 0" "int n * v = 0" if "v \<le> 0" using that sign(2) nv(2) \<open>?m \<ge> 0\<close> mn by linarith+
      ultimately show "0 \<le> ?c + int n * v" by (cases "v \<ge> 0") (auto simp: tdiv_def)
    qed simp
    show "?c + int n * v - 128 * ?k \<le> 0" if "?m \<le> 0"
    proof (rule tdiv_bounds(3))
      have "?c \<le> 0" "int n * v \<le> 0" if "v \<le> 0" using that b(3) sign(2) nv(2) by auto
      moreover have "?n = 0" "int n * v = 0" if "v \<ge> 0" using that sign(1) nv(1) \<open>?m \<le> 0\<close> mn by linarith+
      ultimately show "?c + int n * v \<le> 0" by (cases "v \<le> 0") (auto simp: tdiv_def)
    qed simp
  qed simp
  moreover have "sint (word_of_int ?q :: 8 word) = ?q" using sint_clamped [of ?q] cl by simp
  ultimately show ?case using ih step cl by simp
qed

text \<open>A step that does not fit a report: every report moves by 127, and the rest of the step is lost.\<close>

lemma moves_saturated:
  assumes "127 * 128 < \<bar>v\<bar>" "cc_threshold c = 128" "\<bar>cc_count c\<bar> < 128" "v \<ge> 0 \<longrightarrow> cc_count c \<ge> 0" "v \<le> 0 \<longrightarrow> cc_count c \<le> 0"
  shows "moves v n c = replicate n (word_of_int (127 * sgn v))"
  using assms(2-5)
proof (induction n arbitrary: c)
  case (Suc n)
  let ?n = "cc_count c + v" let ?q = "tdiv 128 ?n" let ?c = "?n - 128 * ?q"
  have step: "cc_update v c = (word_of_int (clamped ?q), c\<lparr>cc_count := ?c\<rparr>)"
    using cc_update_result [of c v] Suc.prems(1) by simp
  have b: "\<bar>?c\<bar> < 128" "?n \<ge> 0 \<Longrightarrow> 0 \<le> ?c" "?n \<le> 0 \<Longrightarrow> ?c \<le> 0" using tdiv_bounds [of 128 ?n] by auto
  consider "v > 0" "?n > 127 * 128" | "v < 0" "?n < - (127 * 128)" using assms(1) Suc.prems(3,4) by linarith
  then have "clamped ?q = 127 * sgn v"
    by cases (simp_all add: clamped_def tdiv_def max_def min_def, linarith+)
  moreover have "v \<ge> 0 \<longrightarrow> 0 \<le> ?c" "v \<le> 0 \<longrightarrow> ?c \<le> 0" using b(2,3) Suc.prems(3,4) by auto
  ultimately show ?case using Suc.IH [of "c\<lparr>cc_count := ?c\<rparr>"] Suc.prems(1) b(1) step by simp
qed simp

text \<open>How far \<open>n\<close> reports move along an axis with the integer step \<open>v\<close>.\<close>

definition travelled :: "nat \<Rightarrow> int \<Rightarrow> int" where
  "travelled n v = (if \<bar>v\<bar> \<le> 127 * 128 then tdiv 128 (int n * v) else int n * 127 * sgn v)"

lemma moves_travelled: "sum_list (map sint (moves v n (mk_converter 128))) = travelled n v"
proof (cases "\<bar>v\<bar> \<le> 127 * 128")
  case True
  then show ?thesis using moves_sum [of v "mk_converter 128" n] by (simp add: travelled_def mk_converter_def)
next
  case False
  have "clamped (127 * sgn v) = 127 * sgn v" by (auto simp: clamped_def sgn_if)
  then have "sint (word_of_int (127 * sgn v) :: 8 word) = 127 * sgn v" using sint_clamped [of "127 * sgn v"] by simp
  then show ?thesis using moves_saturated [of v "mk_converter 128" n] False
    by (simp add: travelled_def mk_converter_def sum_list_replicate)
qed

lemma moves_length: "length (moves v n c) = n"
  by (induction n arbitrary: c) simp_all

text \<open>One round of the timer while a key is held.\<close>

lemma single_keeps_time: "emplace_back_pointing_input rt p Single t q =
    q\<lparr>pq_events := pq_events q @ [plain_post (Pointing_input p) t],
      pq_last_event_time_stamp := max t (pq_last_event_time_stamp q)\<rparr>"
  by (simp add: emplace_back_pointing_input_def adjust_time_stamp_def append_event_def max_def)

lemma mouse_round:
  assumes "mh_queue_set h" "mh_timer h = Some t" "\<not> mk_is_zero (mouse_key_total fl h)"
    and "mh_last_total h = Some (mouse_key_total fl h)"
    and "mouse_timer_round rt fl r oq (h, q) = (h', q')"
  shows "\<exists>p. pq_events q' = pq_events q @ [plain_post (Pointing_input p) t] \<and>
    (let m = mouse_key_total fl h; s = mk_speed_multiplier m in
     (pi_x p, mh_x h') = cc_update (xy_step fl (mk_x m) s (xy_scale oq)) (mh_x h) \<and>
     (pi_y p, mh_y h') = cc_update (xy_step fl (mk_y m) s (xy_scale oq)) (mh_y h) \<and>
     (pi_vertical_wheel p, mh_vertical_wheel h') = cc_update (wheel_step fl (mk_vertical_wheel m) s) (mh_vertical_wheel h) \<and>
     (pi_horizontal_wheel p, mh_horizontal_wheel h') = cc_update (wheel_step fl (mk_horizontal_wheel m) s) (mh_horizontal_wheel h)) \<and>
    mh_queue_set h' \<and> mh_timer h' = Some t \<and> mh_entries h' = mh_entries h \<and> mh_natural h' = mh_natural h \<and>
    mh_last_total h' = mh_last_total h"
proof -
  let ?m = "mouse_key_total fl h" let ?s = "mk_speed_multiplier ?m"
  obtain x cx where x: "cc_update (xy_step fl (mk_x ?m) ?s (xy_scale oq)) (mh_x h) = (x, cx)" by fastforce
  obtain y cy where y: "cc_update (xy_step fl (mk_y ?m) ?s (xy_scale oq)) (mh_y h) = (y, cy)" by fastforce
  obtain v cv where v: "cc_update (wheel_step fl (mk_vertical_wheel ?m) ?s) (mh_vertical_wheel h) = (v, cv)" by fastforce
  obtain w cw where w: "cc_update (wheel_step fl (mk_horizontal_wheel ?m) ?s) (mh_horizontal_wheel h) = (w, cw)" by fastforce
  define p where "p = \<lparr>pi_buttons = make_hid_report_buttons (ro_no_buttons r) (ro_insert_button r) (q_pointing_button_manager oq),
    pi_x = x, pi_y = y, pi_vertical_wheel = v, pi_horizontal_wheel = w\<rparr>"
  have "post_mouse_event rt fl r oq t (h, q) =
      (True, h\<lparr>mh_x := cx, mh_y := cy, mh_vertical_wheel := cv, mh_horizontal_wheel := cw\<rparr>, emplace_back_pointing_input rt p Single t q)"
    using assms(1,3,4) by (simp add: post_mouse_event_def Let_def x y v w p_def)
  then have "h' = h\<lparr>mh_x := cx, mh_y := cy, mh_vertical_wheel := cv, mh_horizontal_wheel := cw\<rparr>"
    "q' = emplace_back_pointing_input rt p Single t q"
    using assms(5) by (simp_all add: mouse_timer_round_def assms(2))
  then show ?thesis using assms(1,2) by (intro exI [of _ p]) (simp add: single_keeps_time x y v w Let_def p_def)
qed

lemma total_of_entries: "mh_entries h' = mh_entries h \<Longrightarrow> mh_natural h' = mh_natural h \<Longrightarrow> mouse_key_total fl h' = mouse_key_total fl h"
  by (simp add: mouse_key_total_def)

text \<open>Many rounds: the reports and what each of their fields sums up to.\<close>

lemma mouse_rounds:
  assumes "mh_queue_set h" "mh_timer h = Some t" "\<not> mk_is_zero (mouse_key_total fl h)"
    and "mh_last_total h = Some (mouse_key_total fl h)"
  defines "m \<equiv> mouse_key_total fl h"
  defines "s \<equiv> mk_speed_multiplier m"
  shows "\<exists>ps. pq_events (snd ((mouse_timer_round rt fl r oq ^^ n) (h, q))) =
      pq_events q @ map (\<lambda>p. plain_post (Pointing_input p) t) ps \<and>
    map pi_x ps = moves (xy_step fl (mk_x m) s (xy_scale oq)) n (mh_x h) \<and>
    map pi_y ps = moves (xy_step fl (mk_y m) s (xy_scale oq)) n (mh_y h) \<and>
    map pi_vertical_wheel ps = moves (wheel_step fl (mk_vertical_wheel m) s) n (mh_vertical_wheel h) \<and>
    map pi_horizontal_wheel ps = moves (wheel_step fl (mk_horizontal_wheel m) s) n (mh_horizontal_wheel h)"
  using assms(1-4) unfolding m_def s_def
proof (induction n arbitrary: h q)
  case (Suc n)
  obtain h1 q1 where r: "mouse_timer_round rt fl r oq (h, q) = (h1, q1)" by fastforce
  from mouse_round [OF Suc.prems(1-4) r] obtain p where p:
    "pq_events q1 = pq_events q @ [plain_post (Pointing_input p) t]"
    "(pi_x p, mh_x h1) = cc_update (xy_step fl (mk_x (mouse_key_total fl h)) (mk_speed_multiplier (mouse_key_total fl h)) (xy_scale oq)) (mh_x h)"
    "(pi_y p, mh_y h1) = cc_update (xy_step fl (mk_y (mouse_key_total fl h)) (mk_speed_multiplier (mouse_key_total fl h)) (xy_scale oq)) (mh_y h)"
    "(pi_vertical_wheel p, mh_vertical_wheel h1) =
       cc_update (wheel_step fl (mk_vertical_wheel (mouse_key_total fl h)) (mk_speed_multiplier (mouse_key_total fl h))) (mh_vertical_wheel h)"
    "(pi_horizontal_wheel p, mh_horizontal_wheel h1) =
       cc_update (wheel_step fl (mk_horizontal_wheel (mouse_key_total fl h)) (mk_speed_multiplier (mouse_key_total fl h))) (mh_horizontal_wheel h)"
    and keep: "mh_queue_set h1" "mh_timer h1 = Some t" "mh_entries h1 = mh_entries h" "mh_natural h1 = mh_natural h"
      "mh_last_total h1 = mh_last_total h" by (auto simp: Let_def)
  have total: "mouse_key_total fl h1 = mouse_key_total fl h" using keep(3,4) by (rule total_of_entries)
  obtain ps where ps: "pq_events (snd ((mouse_timer_round rt fl r oq ^^ n) (h1, q1))) =
      pq_events q1 @ map (\<lambda>p. plain_post (Pointing_input p) t) ps"
    "map pi_x ps = moves (xy_step fl (mk_x (mouse_key_total fl h1)) (mk_speed_multiplier (mouse_key_total fl h1)) (xy_scale oq)) n (mh_x h1)"
    "map pi_y ps = moves (xy_step fl (mk_y (mouse_key_total fl h1)) (mk_speed_multiplier (mouse_key_total fl h1)) (xy_scale oq)) n (mh_y h1)"
    "map pi_vertical_wheel ps =
       moves (wheel_step fl (mk_vertical_wheel (mouse_key_total fl h1)) (mk_speed_multiplier (mouse_key_total fl h1))) n (mh_vertical_wheel h1)"
    "map pi_horizontal_wheel ps =
       moves (wheel_step fl (mk_horizontal_wheel (mouse_key_total fl h1)) (mk_speed_multiplier (mouse_key_total fl h1))) n (mh_horizontal_wheel h1)"
    using Suc.IH [of h1 q1] keep total Suc.prems by auto
  have "(mouse_timer_round rt fl r oq ^^ Suc n) (h, q) = (mouse_timer_round rt fl r oq ^^ n) (h1, q1)"
    by (simp add: funpow_swap1 r)
  then show ?case using ps p [symmetric] unfolding total
    by (intro exI [of _ "p # ps"]) (simp add: prod_eq_iff)
qed simp

lemma idle_round:
  assumes "mh_entries h = []"
  shows "snd (mouse_timer_round rt fl r oq (h, q)) = q"
    and "mh_timer (fst (mouse_timer_round rt fl r oq (h, q))) = None"
proof -
  have "mk_is_zero (mouse_key_total fl h)"
    by (simp add: mouse_key_total_def assms mk_is_zero_def mk_invert_wheel_def mouse_key_zero_def Let_def)
  then show "snd (mouse_timer_round rt fl r oq (h, q)) = q"
    "mh_timer (fst (mouse_timer_round rt fl r oq (h, q))) = None"
    by (simp_all add: mouse_timer_round_def post_mouse_event_def split: option.split)
qed

text \<open>The counters are reset when the sum of the held keys has changed.\<close>

definition counters_reset :: "floating \<Rightarrow> mouse_key_handler \<Rightarrow> mouse_key_handler" where
  "counters_reset fl h =
     (if mh_last_total h \<noteq> Some (mouse_key_total fl h)
      then reset_converters (h\<lparr>mh_last_total := Some (mouse_key_total fl h)\<rparr>) else h)"

lemma counters_reset_fields:
  "mh_queue_set (counters_reset fl h) = mh_queue_set h" "mh_timer (counters_reset fl h) = mh_timer h"
  "mouse_key_total fl (counters_reset fl h) = mouse_key_total fl h"
  "mh_last_total (counters_reset fl h) = Some (mouse_key_total fl h)"
  by (simp_all add: counters_reset_def reset_converters_def mouse_key_total_def)

lemma round_resets:
  assumes "\<not> mk_is_zero (mouse_key_total fl h)" "mh_queue_set h" "mh_timer h = Some t"
  shows "mouse_timer_round rt fl r oq (h, q) = mouse_timer_round rt fl r oq (counters_reset fl h, q)"
proof -
  have "post_mouse_event rt fl r oq t (h, q) = post_mouse_event rt fl r oq t (counters_reset fl h, q)"
    using assms(1,2) counters_reset_fields(1,3,4) [of fl h]
    by (simp add: post_mouse_event_def Let_def) (simp add: counters_reset_def)
  then show ?thesis using counters_reset_fields(2) [of fl h] assms(3) by (simp add: mouse_timer_round_def)
qed

subsection \<open>Properties\<close>

text \<open>
  C19. A held mouse key moves at an even speed. While the held keys stay the same, any number of timer
  rounds posts as many reports, all with the time stamp of the key event. On each of the four axes a
  round moves by an integer step, the product of the axis, the speed multiplier and the scale cut to an
  integer; the movements of \<open>n\<close> reports add up to \<open>n\<close> times the step divided by 128, rounded to zero:
  what is left of the division is carried over to the next report, so it is never lost or doubled. A
  step of more than 127 * 128 does not fit: every report then moves by 127. (The counters start at 0, or are
  reset by the first round since the sum of the held keys has changed.)
\<close>

theorem mouse_key_speed:
  assumes "handler_inv h" "mh_queue_set h" "mh_timer h = Some t"
    and "sm = mouse_key_total fl h" "\<not> mk_is_zero sm"
    and "mh_last_total h = Some sm \<longrightarrow>
      (\<forall>c\<in>{mh_x h, mh_y h, mh_vertical_wheel h, mh_horizontal_wheel h}. cc_count c = 0)"
    and "speed = mk_speed_multiplier sm"
  shows "\<exists>ps. pq_events (snd ((mouse_timer_round rt fl r oq ^^ n) (h, q))) =
      pq_events q @ map (\<lambda>p. plain_post (Pointing_input p) t) ps \<and> length ps = n \<and>
    (\<Sum>p\<leftarrow>ps. sint (pi_x p)) = travelled n (xy_step fl (mk_x sm) speed (xy_scale oq)) \<and>
    (\<Sum>p\<leftarrow>ps. sint (pi_y p)) = travelled n (xy_step fl (mk_y sm) speed (xy_scale oq)) \<and>
    (\<Sum>p\<leftarrow>ps. sint (pi_vertical_wheel p)) = travelled n (wheel_step fl (mk_vertical_wheel sm) speed) \<and>
    (\<Sum>p\<leftarrow>ps. sint (pi_horizontal_wheel p)) = travelled n (wheel_step fl (mk_horizontal_wheel sm) speed)"
proof -
  let ?h = "counters_reset fl h"
  note same = counters_reset_fields [of fl h, folded assms(4)]
  have conv: "mh_x ?h = mk_converter 128" "mh_y ?h = mk_converter 128"
    "mh_vertical_wheel ?h = mk_converter 128" "mh_horizontal_wheel ?h = mk_converter 128"
    using assms(1,4,6) by (auto simp: counters_reset_def reset_converters_def cc_reset_def mk_converter_def handler_inv_def)
  have "pq_events (snd ((mouse_timer_round rt fl r oq ^^ n) (h, q))) = pq_events (snd ((mouse_timer_round rt fl r oq ^^ n) (?h, q)))"
    using round_resets [of fl h t rt r oq q] assms(2-5) by (cases n) (simp_all del: funpow.simps add: funpow_Suc_right)
  moreover have "mh_queue_set ?h" "mh_timer ?h = Some t" "\<not> mk_is_zero (mouse_key_total fl ?h)"
    "mh_last_total ?h = Some (mouse_key_total fl ?h)" using same assms(2,3,5) by simp_all
  note mouse_rounds [OF this, where rt = rt and r = r and oq = oq and n = n and q = q, unfolded same(3) conv, folded assms(7)]
  ultimately obtain ps where ps: "pq_events (snd ((mouse_timer_round rt fl r oq ^^ n) (h, q))) =
      pq_events q @ map (\<lambda>p. plain_post (Pointing_input p) t) ps"
    "map pi_x ps = moves (xy_step fl (mk_x sm) speed (xy_scale oq)) n (mk_converter 128)"
    "map pi_y ps = moves (xy_step fl (mk_y sm) speed (xy_scale oq)) n (mk_converter 128)"
    "map pi_vertical_wheel ps = moves (wheel_step fl (mk_vertical_wheel sm) speed) n (mk_converter 128)"
    "map pi_horizontal_wheel ps = moves (wheel_step fl (mk_horizontal_wheel sm) speed) n (mk_converter 128)"
    by auto
  have "length ps = n" using arg_cong [OF ps(2), where f = length] by (simp add: moves_length)
  moreover have sum: "(\<Sum>p\<leftarrow>ps. sint (f p)) = travelled n v" if "map f ps = moves v n (mk_converter 128)" for f v
    using moves_travelled [of v n, folded that] by (simp add: o_def)
  ultimately show ?thesis using ps(1) sum [OF ps(2)] sum [OF ps(3)] sum [OF ps(4)] sum [OF ps(5)] by blast
qed

definition right_key :: mouse_key where
  "right_key = mouse_key_zero\<lparr>mk_x := 1536, mk_vertical_wheel := -100\<rparr>"

theorem mouse_key_speed_witness:
  "\<exists>h ps. h = push_back_mouse_key 1 right_key 7 (mk_handler True) \<and>
    pq_events (snd ((mouse_timer_round idle_runtime exact list_reports (mk_queue (mk_environment [] plain_configuration)) ^^ 3)
      (h, mk_post_queue list_reports {} (mk_suppression 0 0)))) = map (\<lambda>p. plain_post (Pointing_input p) 7) ps \<and>
    (\<Sum>p\<leftarrow>ps. sint (pi_x p)) = 36 \<and> (\<Sum>p\<leftarrow>ps. sint (pi_vertical_wheel p)) = - 2"
proof -
  let ?h = "push_back_mouse_key 1 right_key 7 (mk_handler True)"
  have total: "right_key = mouse_key_total exact ?h"
    by (simp add: mouse_key_total_def push_back_mouse_key_def erase_entry_def set_entries_def start_mouse_timer_def mk_handler_def
        mk_plus_def right_key_def mouse_key_zero_def exact_def Let_def)
  let ?oq = "mk_queue (mk_environment [] plain_configuration)"
  have v: "xy_step exact (mk_x right_key) (mk_speed_multiplier right_key) (xy_scale ?oq) = 1536"
    "wheel_step exact (mk_vertical_wheel right_key) (mk_speed_multiplier right_key) = -100"
    by (simp_all add: xy_step_def wheel_step_def xy_scale_def mk_queue_def mk_environment_def plain_configuration_def exact_def
        right_key_def mouse_key_zero_def truncate_rat_def)
  have h: "handler_inv ?h" "mh_queue_set ?h" "mh_timer ?h = Some 7" "mh_last_total ?h = None"
    by (simp_all add: handler_inv_def push_back_mouse_key_def erase_entry_def set_entries_def start_mouse_timer_def mk_handler_def
        mk_converter_def Let_def)
  have z: "\<not> mk_is_zero right_key" by (simp add: mk_is_zero_def right_key_def)
  from mouse_key_speed [OF h(1-3) total z _ refl, where rt = idle_runtime and r = list_reports and n = 3
      and q = "mk_post_queue list_reports {} (mk_suppression 0 0)" and oq = ?oq]
  show ?thesis unfolding v using h(4) by (auto simp: travelled_def tdiv_def mk_post_queue_def)
qed

text \<open>
  C20. Which mouse keys are held: after any presses, releases and disconnections the handler holds each
  key that was pressed and not released once, is active exactly if there is one, and if there is none
  the next round posts nothing and stops the timer.
\<close>

theorem mouse_keys_held:
  fixes natural :: bool and ops :: "mouse_op list"
  defines "h \<equiv> run_ops mouse_step ops (mk_handler natural)"
  shows "set (mh_entries h) = run_ops mouse_held_step ops {} \<and> distinct (mh_entries h) \<and>
    (mh_active h \<longleftrightarrow> run_ops mouse_held_step ops {} \<noteq> {}) \<and>
    (mh_active h \<or> (\<forall>rt fl r oq q. snd (mouse_timer_round rt fl r oq (h, q)) = q \<and>
      mh_timer (fst (mouse_timer_round rt fl r oq (h, q))) = None))"
proof -
  have inv: "handler_inv h" unfolding h_def by (rule mouse_keys.reachable_inv) simp
  have set: "set (mh_entries h) = run_ops mouse_held_step ops {}"
    using mouse_keys.refine_reachable [of ops natural] by (simp add: h_def mk_handler_def)
  show ?thesis using inv set idle_round [of h] by (auto simp: handler_inv_def)
qed

end
