(* ===== verification/Notifications.thy ===== *)
theory Notifications
  imports Connector "HOL-Library.List_Lexorder" "HOL-Library.Char_ord"
begin

text \<open>
  The notification window (\<open>notification_message_manager.hpp\<close>). Requests are tasks of one dispatcher thread,
  executed in the order in which they are enqueued. A debounced task is its deadline: scheduling it
  again replaces the deadline, cancelling removes it. \<open>nm_signals\<close> lists the calls of
  \<open>notification_message_changed\<close>.
\<close>

record message_entry =
  me_message :: string
  me_deadline :: "time_point option"

definition empty_entry :: message_entry where
  "empty_entry = \<lparr>me_message = [], me_deadline = None\<rparr>"

record notification_message_manager =
  nm_messages :: "(string \<times> message_entry) list"
  nm_full_message :: string
  nm_signals :: "string list"

definition mk_notification_manager :: notification_message_manager where
  "mk_notification_manager = \<lparr>nm_messages = [], nm_full_message = [], nm_signals = []\<rparr>"

text \<open>\<open>messages_[id]\<close>, which inserts an empty entry in the order of the keys.\<close>

fun at_entry :: "string \<Rightarrow> (message_entry \<Rightarrow> message_entry) \<Rightarrow> (string \<times> message_entry) list \<Rightarrow> (string \<times> message_entry) list" where
  "at_entry i f [] = [(i, f empty_entry)]"
| "at_entry i f ((k, e) # xs) =
     (if i = k then (k, f e) # xs
      else if i < k then (i, f empty_entry) # (k, e) # xs
      else (k, e) # at_entry i f xs)"

definition at_message :: "string \<Rightarrow> (message_entry \<Rightarrow> message_entry) \<Rightarrow> notification_message_manager \<Rightarrow> notification_message_manager" where
  "at_message i f s = s\<lparr>nm_messages := at_entry i f (nm_messages s)\<rparr>"

definition set_message :: "string \<Rightarrow> message_entry \<Rightarrow> message_entry" where
  "set_message v e = e\<lparr>me_message := v\<rparr>"

definition cancel_expiration :: "message_entry \<Rightarrow> message_entry" where
  "cancel_expiration e = e\<lparr>me_deadline := None\<rparr>"

definition debounce_expiration :: "time_point \<Rightarrow> message_entry \<Rightarrow> message_entry" where
  "debounce_expiration t e = e\<lparr>me_deadline := Some t\<rparr>"

fun join_lines :: "string list \<Rightarrow> string \<Rightarrow> string" where
  "join_lines [] ss = ss"
| "join_lines (m # ms) ss = join_lines ms (if m = [] then ss else if ss \<noteq> [] then ss @ [CHR 0x0A] @ m else m)"

definition update_full_message :: "notification_message_manager \<Rightarrow> notification_message_manager" where
  "update_full_message s =
     (let full = join_lines (map (me_message \<circ> snd) (nm_messages s)) [] in
      if nm_full_message s \<noteq> full then s\<lparr>nm_full_message := full, nm_signals := nm_signals s @ [full]\<rparr> else s)"

definition sticky_flags :: "modifier_flag list" where
  "sticky_flags =
     [Flag_left_control, Flag_left_shift, Flag_left_option, Flag_left_command,
      Flag_right_control, Flag_right_shift, Flag_right_option, Flag_right_command, Flag_fn]"

definition sticky_id :: "string \<Rightarrow> string" where
  "sticky_id name = ''__system__sticky_'' @ name"

definition user_id :: "string \<Rightarrow> string" where
  "user_id name = ''__user__'' @ name"

datatype notification_task =
    Set_message string string
  | Update_full_message
  | Clear_sticky
  | Set_notification notification_message

definition async_update_sticky_modifiers_message :: "modifier_flag_manager \<Rightarrow> notification_task list" where
  "async_update_sticky_modifiers_message mfm =
     concat (map (\<lambda>f. case get_modifier_flag_name f of
         None \<Rightarrow> []
       | Some name \<Rightarrow> [Set_message (sticky_id name) (if is_sticky_active mfm f then ''sticky '' @ name else [])]) sticky_flags)
     @ [Update_full_message]"

definition async_clear_sticky_modifiers_message :: "notification_task list" where
  "async_clear_sticky_modifiers_message = [Clear_sticky]"

definition async_set_notification_message :: "notification_message \<Rightarrow> notification_task list" where
  "async_set_notification_message m = [Set_notification m]"

definition clear_sticky :: "modifier_flag \<Rightarrow> notification_message_manager \<Rightarrow> notification_message_manager" where
  "clear_sticky f s = (case get_modifier_flag_name f of None \<Rightarrow> s | Some name \<Rightarrow> at_message (sticky_id name) (set_message []) s)"

fun run_task :: "runtime \<Rightarrow> time_point \<Rightarrow> notification_task \<Rightarrow> notification_message_manager \<Rightarrow> notification_message_manager" where
  "run_task rt now (Set_message i text) s = at_message i (set_message text) s"
| "run_task rt now Update_full_message s = update_full_message s"
| "run_task rt now Clear_sticky s = update_full_message (fold clear_sticky sticky_flags s)"
| "run_task rt now (Set_notification m) s =
     (let d = nm_duration_milliseconds m;
          expiry = (if nm_text m \<noteq> [] \<and> d > 0 then debounce_expiration (now + rt_duration_of rt d) else cancel_expiration)
      in update_full_message (at_message (user_id (nm_id m)) (expiry \<circ> set_message (nm_text m)) s))"

text \<open>The function of the expiration task of the entry \<open>i\<close>, run once its deadline has come.\<close>

definition expire :: "string \<Rightarrow> notification_message_manager \<Rightarrow> notification_message_manager" where
  "expire i s = update_full_message (at_message i (set_message [] \<circ> cancel_expiration) s)"

subsection \<open>Runs\<close>

datatype notification_op =
    Nm_sticky modifier_flag_manager
  | Nm_clear_sticky
  | Nm_message notification_message
  | Nm_tick

definition expired :: "time_point \<Rightarrow> notification_message_manager \<Rightarrow> string list" where
  "expired now s = map fst (filter (\<lambda>(k, e). case me_deadline e of Some d \<Rightarrow> d \<le> now | None \<Rightarrow> False) (nm_messages s))"

fun nm_step :: "runtime \<Rightarrow> notification_op \<times> time_point \<Rightarrow> notification_message_manager \<Rightarrow> notification_message_manager" where
  "nm_step rt (Nm_sticky mfm, now) s = fold (run_task rt now) (async_update_sticky_modifiers_message mfm) s"
| "nm_step rt (Nm_clear_sticky, now) s = fold (run_task rt now) async_clear_sticky_modifiers_message s"
| "nm_step rt (Nm_message m, now) s = fold (run_task rt now) (async_set_notification_message m) s"
| "nm_step rt (Nm_tick, now) s = fold expire (expired now s) s"

text \<open>What is remembered of a message: its text and when it disappears.\<close>

definition shown_message :: "notification_message_manager \<Rightarrow> string \<Rightarrow> string \<times> time_point option" where
  "shown_message s i = (case map_of (nm_messages s) i of None \<Rightarrow> ([], None) | Some e \<Rightarrow> (me_message e, me_deadline e))"

definition keys_sorted :: "(string \<times> message_entry) list \<Rightarrow> bool" where
  "keys_sorted xs \<longleftrightarrow> sorted_wrt (<) (map fst xs)"

lemma at_entry_keys: "set (map fst (at_entry i f xs)) = insert i (set (map fst xs))"
proof (induction xs)
  case (Cons x xs)
  then show ?case by (cases x) (simp add: insert_commute)
qed simp

lemma at_entry_sorted: "keys_sorted xs \<Longrightarrow> keys_sorted (at_entry i f xs)"
proof (induction xs)
  case (Cons x xs)
  obtain k e where x: "x = (k, e)" by fastforce
  have "keys_sorted (at_entry i f xs)" using Cons by (simp add: keys_sorted_def x)
  then show ?case using Cons.prems at_entry_keys [of i f xs] by (force simp: keys_sorted_def x)
qed (simp add: keys_sorted_def)

lemma at_entry_lookup:
  "keys_sorted xs \<Longrightarrow> map_of (at_entry i f xs) = (map_of xs)(i \<mapsto> f (case map_of xs i of None \<Rightarrow> empty_entry | Some e \<Rightarrow> e))"
proof (induction xs)
  case (Cons x xs)
  obtain k e where x: "x = (k, e)" by fastforce
  have tail: "keys_sorted xs" "\<forall>k'\<in>fst ` set xs. k < k'" using Cons.prems by (auto simp: keys_sorted_def x)
  show ?case
  proof (cases "i < k")
    case True
    then have "i \<notin> fst ` set xs" "i \<noteq> k" using tail(2) by (auto dest: less_trans)
    then have "map_of (x # xs) i = None" by (auto simp: x map_of_eq_None_iff)
    then show ?thesis using True \<open>i \<noteq> k\<close> by (auto simp: x)
  next
    case False
    then show ?thesis using Cons.IH [OF tail(1)] by (cases "i = k") (auto simp: x)
  qed
qed simp

lemma entry_eta: "\<lparr>me_message = me_message e, me_deadline = me_deadline e\<rparr> = e"
  by (cases e) simp

lemma shown_at_message:
  "keys_sorted (nm_messages s) \<Longrightarrow> shown_message (at_message i f s) =
     (shown_message s)(i := (let e = f \<lparr>me_message = fst (shown_message s i), me_deadline = snd (shown_message s i)\<rparr>
                             in (me_message e, me_deadline e)))"
  by (rule ext) (auto simp: shown_message_def at_message_def at_entry_lookup empty_entry_def entry_eta Let_def split: option.split)

text \<open>The abstract state is the map of messages; an operation changes it as follows.\<close>

type_synonym shown_messages = "string \<Rightarrow> string \<times> time_point option"

definition sticky_name :: "modifier_flag \<Rightarrow> string" where
  "sticky_name f = sticky_id (the (get_modifier_flag_name f))"

fun nm_spec :: "runtime \<Rightarrow> notification_op \<times> time_point \<Rightarrow> shown_messages \<Rightarrow> shown_messages" where
  "nm_spec rt (Nm_sticky mfm, now) A =
     fold (\<lambda>f A. A(sticky_name f := (if is_sticky_active mfm f then ''sticky '' @ the (get_modifier_flag_name f) else [], snd (A (sticky_name f)))))
       sticky_flags A"
| "nm_spec rt (Nm_clear_sticky, now) A = fold (\<lambda>f A. A(sticky_name f := ([], snd (A (sticky_name f))))) sticky_flags A"
| "nm_spec rt (Nm_message m, now) A =
     A(user_id (nm_id m) := (nm_text m,
        if nm_text m \<noteq> [] \<and> nm_duration_milliseconds m > 0 then Some (now + rt_duration_of rt (nm_duration_milliseconds m)) else None))"
| "nm_spec rt (Nm_tick, now) A = (\<lambda>i. case snd (A i) of Some d \<Rightarrow> if d \<le> now then ([], None) else A i | None \<Rightarrow> A i)"

definition nm_sorted :: "notification_message_manager \<Rightarrow> bool" where
  "nm_sorted s \<longleftrightarrow> keys_sorted (nm_messages s) \<and> distinct_adj ([] # nm_signals s) \<and> last ([] # nm_signals s) = nm_full_message s"

definition nm_inv :: "notification_message_manager \<Rightarrow> bool" where
  "nm_inv s \<longleftrightarrow> nm_sorted s \<and> nm_full_message s = join_lines (map (me_message \<circ> snd) (nm_messages s)) []"

lemma nm_sorted_keys: "nm_sorted s \<Longrightarrow> keys_sorted (nm_messages s)"
  by (simp add: nm_sorted_def)

lemma nm_sorted_at: "nm_sorted s \<Longrightarrow> nm_sorted (at_message i f s)"
  by (simp add: nm_sorted_def at_message_def at_entry_sorted)

lemma update_full_inv: "nm_sorted s \<Longrightarrow> nm_inv (update_full_message s)"
proof -
  assume s: "nm_sorted s"
  then have "distinct_adj ([] # nm_signals s)" "last ([] # nm_signals s) = nm_full_message s" by (simp_all add: nm_sorted_def)
  then have "distinct_adj ([] # nm_signals s @ [x])" if "x \<noteq> nm_full_message s" for x
    using that distinct_adj_append_iff [of "[] # nm_signals s" "[x]"] by simp
  then show ?thesis using s by (auto simp: nm_inv_def nm_sorted_def update_full_message_def Let_def)
qed

lemma shown_update_full [simp]: "shown_message (update_full_message s) = shown_message s"
  by (simp add: shown_message_def update_full_message_def Let_def fun_eq_iff)

lemma sticky_flag_name: "f \<in> set sticky_flags \<Longrightarrow> get_modifier_flag_name f = Some (the (get_modifier_flag_name f))"
  by (auto simp: sticky_flags_def)

lemma sticky_tasks:
  fixes mfm :: modifier_flag_manager
  assumes "nm_sorted s" "set fs \<subseteq> set sticky_flags"
  defines "ts \<equiv> concat (map (\<lambda>f. case get_modifier_flag_name f of
         None \<Rightarrow> []
       | Some name \<Rightarrow> [Set_message (sticky_id name) (if is_sticky_active mfm f then ''sticky '' @ name else [])]) fs)"
  shows "nm_sorted (fold (run_task rt now) ts s) \<and> shown_message (fold (run_task rt now) ts s) =
    fold (\<lambda>f A. A(sticky_name f := (if is_sticky_active mfm f then ''sticky '' @ the (get_modifier_flag_name f) else [], snd (A (sticky_name f)))))
      fs (shown_message s)"
  using assms(1,2) unfolding ts_def
proof (induction fs arbitrary: s)
  case (Cons f fs)
  obtain name where name: "get_modifier_flag_name f = Some name" using sticky_flag_name [of f] Cons.prems(2) by auto
  then have sn: "sticky_name f = sticky_id name" by (simp add: sticky_name_def)
  let ?t = "if is_sticky_active mfm f then ''sticky '' @ name else []"
  have "shown_message (at_message (sticky_id name) (set_message ?t) s) =
      (shown_message s)(sticky_id name := (?t, snd (shown_message s (sticky_id name))))"
    using nm_sorted_keys [OF Cons.prems(1)] by (simp add: shown_at_message set_message_def Let_def)
  then show ?case using Cons.IH [OF nm_sorted_at [OF Cons.prems(1), of "sticky_id name" "set_message ?t"]] Cons.prems(2) name sn
    by (simp cong: if_cong)
qed simp

lemma clear_tasks:
  assumes "nm_sorted s" "set fs \<subseteq> set sticky_flags"
  shows "nm_sorted (fold clear_sticky fs s) \<and>
    shown_message (fold clear_sticky fs s) = fold (\<lambda>f A. A(sticky_name f := ([], snd (A (sticky_name f))))) fs (shown_message s)"
  using assms
proof (induction fs arbitrary: s)
  case (Cons f fs)
  obtain name where name: "get_modifier_flag_name f = Some name" using sticky_flag_name [of f] Cons.prems(2) by auto
  then have sn: "sticky_name f = sticky_id name" by (simp add: sticky_name_def)
  have "clear_sticky f s = at_message (sticky_id name) (set_message []) s" by (simp add: clear_sticky_def name)
  moreover have "shown_message (at_message (sticky_id name) (set_message []) s) =
      (shown_message s)(sticky_id name := ([], snd (shown_message s (sticky_id name))))"
    using nm_sorted_keys [OF Cons.prems(1)] by (simp add: shown_at_message set_message_def Let_def)
  ultimately show ?case using Cons.IH [OF nm_sorted_at [OF Cons.prems(1), of "sticky_id name" "set_message []"]] Cons.prems(2) name sn
    by (simp cong: if_cong)
qed simp

lemma expire_tasks:
  assumes "nm_inv s"
  shows "nm_inv (fold expire js s) \<and> shown_message (fold expire js s) = (\<lambda>i. if i \<in> set js then ([], None) else shown_message s i)"
  using assms
proof (induction js arbitrary: s)
  case (Cons i js)
  have s: "nm_sorted s" using Cons.prems by (simp add: nm_inv_def)
  have "nm_inv (expire i s)" unfolding expire_def by (intro update_full_inv nm_sorted_at s)
  moreover have "shown_message (expire i s) = (shown_message s)(i := ([], None))"
    using nm_sorted_keys [OF s] by (simp add: expire_def shown_at_message set_message_def cancel_expiration_def Let_def)
  ultimately show ?case using Cons.IH [of "expire i s"] by (auto simp: fun_eq_iff)
qed simp

lemma expired_iff:
  assumes "keys_sorted (nm_messages s)"
  shows "i \<in> set (expired now s) \<longleftrightarrow> (\<exists>d. snd (shown_message s i) = Some d \<and> d \<le> now)"
proof -
  have d: "distinct (map fst (nm_messages s))"
    using assms unfolding keys_sorted_def by (simp add: strict_sorted_iff)
  have "i \<in> set (expired now s) \<longleftrightarrow> (\<exists>e d. (i, e) \<in> set (nm_messages s) \<and> me_deadline e = Some d \<and> d \<le> now)"
    by (force simp: expired_def split: option.splits)
  also have "\<dots> \<longleftrightarrow> (\<exists>e d. map_of (nm_messages s) i = Some e \<and> me_deadline e = Some d \<and> d \<le> now)"
    using map_of_eq_Some_iff [OF d, of i] by simp
  also have "\<dots> \<longleftrightarrow> (\<exists>d. snd (shown_message s i) = Some d \<and> d \<le> now)"
    by (auto simp: shown_message_def split: option.splits)
  finally show ?thesis .
qed

lemma nm_step_correct:
  assumes "nm_inv s"
  shows "nm_inv (nm_step rt op s) \<and> shown_message (nm_step rt op s) = nm_spec rt op (shown_message s)"
proof -
  obtain o' now where op: "op = (o', now)" by fastforce
  have s: "nm_sorted s" using assms by (simp add: nm_inv_def)
  show ?thesis
  proof (cases o')
    case (Nm_sticky mfm)
    then show ?thesis using sticky_tasks [OF s, of sticky_flags rt now mfm] update_full_inv
      by (simp add: op async_update_sticky_modifiers_message_def)
  next
    case Nm_clear_sticky
    then show ?thesis using clear_tasks [OF s, of sticky_flags] update_full_inv
      by (simp add: op async_clear_sticky_modifiers_message_def)
  next
    case (Nm_message m)
    then show ?thesis using update_full_inv [OF nm_sorted_at [OF s]] nm_sorted_keys [OF s]
      by (auto simp: op async_set_notification_message_def shown_at_message set_message_def debounce_expiration_def
          cancel_expiration_def Let_def)
  next
    case Nm_tick
    have "shown_message (fold expire (expired now s) s) = nm_spec rt (Nm_tick, now) (shown_message s)"
      using expire_tasks [OF assms, of "expired now s"] expired_iff [OF nm_sorted_keys [OF s], of _ now]
      by (auto simp: fun_eq_iff split: option.split)
    then show ?thesis using expire_tasks [OF assms] by (simp add: op Nm_tick)
  qed
qed

interpretation notifications: refined_machine "nm_step rt" mk_notification_manager nm_inv "\<lambda>_. True" shown_message "nm_spec rt" for rt
  by unfold_locales (simp add: nm_inv_def nm_sorted_def mk_notification_manager_def keys_sorted_def,
    use nm_step_correct in blast, use nm_step_correct in blast)

lemma join_lines_eq: "join_lines ms ss =
    (if ss = [] then tl (concat (map (\<lambda>m. CHR 0x0A # m) (filter (\<lambda>m. m \<noteq> []) ms)))
     else ss @ concat (map (\<lambda>m. CHR 0x0A # m) (filter (\<lambda>m. m \<noteq> []) ms)))"
  by (induction ms ss rule: join_lines.induct) auto

subsection \<open>Properties\<close>

text \<open>
  The notification window shows what is current: after any sequence of sticky modifier updates, user
  messages and clock ticks, the text is the messages that are set and not expired, one per line in the
  order of their identifiers; a message replaced or removed loses its deadline, and subscribers are
  told of every change, and of changes only.
\<close>

theorem notifications_shown:
  fixes rt :: runtime and ops :: "(notification_op \<times> time_point) list"
  defines "s \<equiv> run_ops (nm_step rt) ops mk_notification_manager" and "A \<equiv> run_ops (nm_spec rt) ops (\<lambda>_. ([], None))"
  shows "(\<exists>ids. sorted_wrt (<) ids \<and> set ids = {i. fst (A i) \<noteq> []} \<and>
      nm_full_message s = tl (concat (map (\<lambda>i. CHR 0x0A # fst (A i)) ids))) \<and>
    distinct_adj ([] # nm_signals s) \<and> last ([] # nm_signals s) = nm_full_message s"
proof -
  have A: "shown_message s = A"
  proof -
    have "shown_message mk_notification_manager = (\<lambda>_. ([], None))"
      by (simp add: shown_message_def mk_notification_manager_def fun_eq_iff)
    then show ?thesis using notifications.refine_reachable [of ops rt] by (simp add: s_def A_def)
  qed
  have inv: "nm_inv s" unfolding s_def by (rule notifications.reachable_inv) simp
  then have sorted: "keys_sorted (nm_messages s)" by (simp add: nm_inv_def nm_sorted_def)
  then have d: "distinct (map fst (nm_messages s))" unfolding keys_sorted_def by (simp add: strict_sorted_iff)
  have texts: "me_message e = fst (A i)" if "(i, e) \<in> set (nm_messages s)" for i e
    using that d by (simp add: A [symmetric] shown_message_def)
  define ids where "ids = filter (\<lambda>i. fst (A i) \<noteq> []) (map fst (nm_messages s))"
  have "sorted_wrt (<) ids" using sorted by (simp add: ids_def keys_sorted_def sorted_wrt_filter)
  moreover have "i \<in> fst ` set (nm_messages s)" if "fst (A i) \<noteq> []" for i
    using that map_of_eq_None_iff [of "nm_messages s" i] by (auto simp: A [symmetric] shown_message_def split: option.split_asm)
  then have "set ids = {i. fst (A i) \<noteq> []}" by (auto simp: ids_def)
  moreover have "filter (\<lambda>m. m \<noteq> []) (map (me_message \<circ> snd) (nm_messages s)) = map (\<lambda>i. fst (A i)) ids"
  proof -
    have "map (me_message \<circ> snd) (nm_messages s) = map (\<lambda>i. fst (A i)) (map fst (nm_messages s))" using texts by auto
    then show ?thesis unfolding ids_def by (simp only: filter_map o_def)
  qed
  then have "nm_full_message s = tl (concat (map (\<lambda>i. CHR 0x0A # fst (A i)) ids))"
    using inv by (simp add: nm_inv_def join_lines_eq o_def)
  ultimately show ?thesis using inv unfolding nm_inv_def nm_sorted_def by blast
qed

end
