(* ===== verification/PostEvents.thy ===== *)
theory PostEvents
  imports PostTimes MouseKeys Notifications
begin

text \<open>
  The last manipulator (\<open>post_event_to_virtual_devices.hpp\<close>): it takes every entry, keeps the virtual
  keyboard in step with the modifier flags of its output queue, and queues reports and commands. The
  classes of the driver's reports are a parameter (\<open>report_ops\<close>). Requests to the
  notification manager are collected in \<open>pv_tasks\<close>; \<open>pv_notifier\<close> says whether the manager is still
  there.
\<close>

record ('k, 'm, 'b) post_events =
  pv_queue :: "('k, 'm, 'b) post_queue"
  pv_dispatcher :: key_event_dispatcher
  pv_mouse :: mouse_key_handler
  pv_sleep_shortcut_delay :: milliseconds
  pv_pressed_buttons :: 'b
  pv_notifier :: bool
  pv_tasks :: "notification_task list"

definition mk_post_events :: "('k, 'm, 'b) report_ops \<Rightarrow> keyboard_suppression \<Rightarrow> bool \<Rightarrow> bool \<Rightarrow> ('k, 'm, 'b) post_events" where
  "mk_post_events r ks natural notifier =
     \<lparr>pv_queue = mk_post_queue r {} ks, pv_dispatcher = mk_dispatcher, pv_mouse = mk_handler natural,
      pv_sleep_shortcut_delay = 500, pv_pressed_buttons = ro_no_buttons r, pv_notifier = notifier, pv_tasks = []\<rparr>"

text \<open>A call of the dispatcher, which writes to the queue.\<close>

definition on_dispatcher :: "(('k, 'm, 'b) dispatch \<Rightarrow> ('k, 'm, 'b) dispatch) \<Rightarrow> ('k, 'm, 'b) post_events \<Rightarrow> ('k, 'm, 'b) post_events" where
  "on_dispatcher f m = (let (d, q) = f (pv_dispatcher m, pv_queue m) in m\<lparr>pv_dispatcher := d, pv_queue := q\<rparr>)"

definition on_queue :: "(('k, 'm, 'b) post_queue \<Rightarrow> ('k, 'm, 'b) post_queue) \<Rightarrow> ('k, 'm, 'b) post_events \<Rightarrow> ('k, 'm, 'b) post_events" where
  "on_queue f m = m\<lparr>pv_queue := f (pv_queue m)\<rparr>"

definition on_mouse :: "(mouse_key_handler \<Rightarrow> mouse_key_handler) \<Rightarrow> ('k, 'm, 'b) post_events \<Rightarrow> ('k, 'm, 'b) post_events" where
  "on_mouse f m = m\<lparr>pv_mouse := f (pv_mouse m)\<rparr>"

subsection \<open>Helpers of manipulate\<close>

definition update_sticky_modifiers_notification_message ::
    "event_queue \<Rightarrow> ('k, 'm, 'b) post_events \<Rightarrow> ('k, 'm, 'b) post_events" where
  "update_sticky_modifiers_notification_message oq m =
     (if pv_notifier m then
        m\<lparr>pv_tasks := pv_tasks m @
            (if cc_indicate_sticky_modifier_keys_state (env_core_configuration (q_environment oq))
             then async_update_sticky_modifiers_message (q_modifier_flag_manager oq)
             else async_clear_sticky_modifiers_message)\<rparr>
      else m)"

definition make_time_stamp_with_sleep_shortcut_delay :: "runtime \<Rightarrow> time_point \<Rightarrow> ('k, 'm, 'b) post_events \<Rightarrow> time_point" where
  "make_time_stamp_with_sleep_shortcut_delay rt t m = t + rt_duration_of rt (pv_sleep_shortcut_delay m)"

definition make_time_stamp_with_sleep_shortcut_delay_if_needed ::
    "runtime \<Rightarrow> momentary_switch_event \<Rightarrow> event_queue \<Rightarrow> time_point \<Rightarrow> ('k, 'm, 'b) post_events \<Rightarrow> time_point" where
  "make_time_stamp_with_sleep_shortcut_delay_if_needed rt e oq t m =
     (let p = get_usage_pair e;
          power_or_eject = (usage_page p = page_keyboard_or_keypad \<and> usage p = keyboard_power \<or>
            usage_page p = page_consumer \<and> (usage p = consumer_power \<or> usage p = consumer_eject));
          mfm = q_modifier_flag_manager oq;
          option_pressed = (is_pressed mfm Flag_left_option \<or> is_pressed mfm Flag_right_option);
          command_pressed = (is_pressed mfm Flag_left_command \<or> is_pressed mfm Flag_right_command)
      in if power_or_eject \<and> option_pressed \<and> command_pressed then make_time_stamp_with_sleep_shortcut_delay rt t m
         else if usage_page p = page_keyboard_or_keypad \<and> usage p = keyboard_escape \<and>
                 app_bundle_identifier (env_frontmost_application (q_environment oq)) = Some ''com.apple.loginwindow''
         then make_time_stamp_with_sleep_shortcut_delay rt t m
         else t)"

definition hid_buttons :: "('k, 'm, 'b) report_ops \<Rightarrow> event_queue \<Rightarrow> 'b" where
  "hid_buttons r oq = make_hid_report_buttons (ro_no_buttons r) (ro_insert_button r) (q_pointing_button_manager oq)"

definition post_pointing_input_report ::
    "runtime \<Rightarrow> ('k, 'm, 'b) report_ops \<Rightarrow> entry \<Rightarrow> event_queue \<Rightarrow> ('k, 'm, 'b) post_events \<Rightarrow> ('k, 'm, 'b) post_events" where
  "post_pointing_input_report rt r front oq m =
     (let buttons = hid_buttons r oq;
          report = (case get_pointing_motion (en_event front) of
              None \<Rightarrow> \<lparr>pi_buttons = buttons, pi_x = 0, pi_y = 0, pi_vertical_wheel = 0, pi_horizontal_wheel = 0\<rparr>
            | Some v \<Rightarrow> \<lparr>pi_buttons = buttons, pi_x = word_of_int (pm_x v), pi_y = word_of_int (pm_y v),
                pi_vertical_wheel = word_of_int (pm_vertical_wheel v), pi_horizontal_wheel = word_of_int (pm_horizontal_wheel v)\<rparr>)
      in (on_queue (emplace_back_pointing_input rt report (en_event_type front) (en_time front)) m)\<lparr>pv_pressed_buttons := buttons\<rparr>)"

text \<open>The report that releases buttons when they changed behind the manipulator's back.\<close>

definition synchronise_buttons ::
    "runtime \<Rightarrow> ('k, 'm, 'b) report_ops \<Rightarrow> event_queue \<Rightarrow> time_point \<Rightarrow> ('k, 'm, 'b) post_events \<Rightarrow> ('k, 'm, 'b) post_events" where
  "synchronise_buttons rt r oq t m =
     (let buttons = hid_buttons r oq in
      if pv_pressed_buttons m \<noteq> buttons then
        (on_queue (emplace_back_pointing_input rt
           \<lparr>pi_buttons = buttons, pi_x = 0, pi_y = 0, pi_vertical_wheel = 0, pi_horizontal_wheel = 0\<rparr> Key_up t) m)
          \<lparr>pv_pressed_buttons := buttons\<rparr>
      else m)"

text \<open>The lock state reported by the keyboard reaches the dispatcher unless caps lock is a sticky modifier.\<close>

definition synchronise_caps_lock :: "entry \<Rightarrow> event_queue \<Rightarrow> ('k, 'm, 'b) post_events \<Rightarrow> ('k, 'm, 'b) post_events" where
  "synchronise_caps_lock front oq m =
     (if ev_type (en_event front) = Tag_caps_lock_state_changed \<and> sticky_size (q_modifier_flag_manager oq) Flag_caps_lock = 0 then
        (case get_integer_value (en_event front) of
           Some state \<Rightarrow>
             m\<lparr>pv_dispatcher := (if state \<noteq> 0 then insert_pressed_modifier_flag else erase_pressed_modifier_flag) Flag_caps_lock (pv_dispatcher m)\<rparr>
         | None \<Rightarrow> m)
      else m)"

definition front_is_modifier :: "entry \<Rightarrow> bool" where
  "front_is_modifier front = (case get_if_mse (en_event front) of Some e \<Rightarrow> mse_modifier_flag e | None \<Rightarrow> False)"

text \<open>Modifiers are not touched by a motion while a key repeats, a button is held or a mouse key is active.\<close>

definition quiet :: "('k, 'm, 'b) report_ops \<Rightarrow> ('k, 'm, 'b) post_events \<Rightarrow> bool" where
  "quiet r m \<longleftrightarrow> \<not> is_repeating (pq_repeat (pv_queue m)) \<and> ro_no_button_held r (pv_pressed_buttons m) \<and> \<not> mh_active (pv_mouse m)"

definition dispatch_before :: "('k, 'm, 'b) report_ops \<Rightarrow> entry \<Rightarrow> ('k, 'm, 'b) post_events \<Rightarrow> bool" where
  "dispatch_before r front m \<longleftrightarrow> \<not> front_is_modifier front \<and>
     (if en_event_type front = Key_down then True
      else ev_type (en_event front) = Tag_pointing_motion \<and> quiet r m)"

definition dispatch_after :: "entry \<Rightarrow> bool" where
  "dispatch_after front \<longleftrightarrow> front_is_modifier front \<and> \<not> en_lazy front"

definition dispatch_modifiers ::
    "runtime \<Rightarrow> ('k, 'm, 'b) report_ops \<Rightarrow> event_queue \<Rightarrow> time_point \<Rightarrow> ('k, 'm, 'b) post_events \<Rightarrow> ('k, 'm, 'b) post_events" where
  "dispatch_modifiers rt r oq t = on_dispatcher (dispatch_modifier_key_event rt r t (q_modifier_flag_manager oq))"

text \<open>The keys and buttons.\<close>

definition post_switch_event ::
    "runtime \<Rightarrow> ('k, 'm, 'b) report_ops \<Rightarrow> entry \<Rightarrow> event_queue \<Rightarrow> ('k, 'm, 'b) post_events \<Rightarrow> ('k, 'm, 'b) post_events" where
  "post_switch_event rt r front oq m =
     (case get_if_mse (en_event front) of
        None \<Rightarrow> m
      | Some e \<Rightarrow>
          if \<not> mse_valid e then m
          else if mse_pointing_button e then post_pointing_input_report rt r front oq m
          else if front_is_modifier front then m
          else (case en_event_type front of
              Key_down \<Rightarrow> on_dispatcher (dispatch_key_down_event rt r
                (make_time_stamp_with_sleep_shortcut_delay_if_needed rt e oq (en_time front) m) (en_device_id front) (get_usage_pair e)) m
            | Key_up \<Rightarrow> on_dispatcher (dispatch_key_up_event rt r (en_time front) (get_usage_pair e)) m
            | Single \<Rightarrow> m))"

definition post_mouse_key :: "entry \<Rightarrow> ('k, 'm, 'b) post_events \<Rightarrow> ('k, 'm, 'b) post_events" where
  "post_mouse_key front m =
     (case get_mouse_key (en_event front) of
        None \<Rightarrow> m
      | Some k \<Rightarrow>
          (case en_event_type front of
             Key_down \<Rightarrow> on_mouse (push_back_mouse_key (en_device_id front) k (en_time front)) m
           | Key_up \<Rightarrow> on_mouse (erase_mouse_key (en_device_id front) k (en_time front)) m
           | Single \<Rightarrow> m))"

definition if_pressed :: "entry \<Rightarrow> 'a option \<Rightarrow> ('a \<Rightarrow> time_point \<Rightarrow> ('k, 'm, 'b) post_queue \<Rightarrow> ('k, 'm, 'b) post_queue) \<Rightarrow>
    ('k, 'm, 'b) post_events \<Rightarrow> ('k, 'm, 'b) post_events" where
  "if_pressed front v push m =
     (case v of Some x \<Rightarrow> if en_event_type front = Key_down then on_queue (push x (en_time front)) m else m | None \<Rightarrow> m)"

definition post_front ::
    "runtime \<Rightarrow> ('k, 'm, 'b) report_ops \<Rightarrow> entry \<Rightarrow> event_queue \<Rightarrow> ('k, 'm, 'b) post_events \<Rightarrow> ('k, 'm, 'b) post_events" where
  "post_front rt r front oq m =
     (let e = en_event front in
      case ev_type e of
        Tag_momentary_switch_event \<Rightarrow> post_switch_event rt r front oq m
      | Tag_pointing_motion \<Rightarrow> post_pointing_input_report rt r front oq m
      | Tag_shell_command \<Rightarrow> if_pressed front (get_shell_command e) push_back_shell_command_event m
      | Tag_send_user_command \<Rightarrow> if_pressed front (get_user_command e) push_back_send_user_command_event m
      | Tag_select_input_source \<Rightarrow> if_pressed front (get_input_source_specifiers e) push_back_select_input_source_event m
      | Tag_set_notification_message \<Rightarrow>
          (case get_if_notification_message e of
             Some n \<Rightarrow> if pv_notifier m then m\<lparr>pv_tasks := pv_tasks m @ async_set_notification_message n\<rparr> else m
           | None \<Rightarrow> m)
      | Tag_mouse_key \<Rightarrow> post_mouse_key front m
      | Tag_software_function \<Rightarrow> if_pressed front (get_if_software_function e) push_back_software_function_event m
      | Tag_stop_keyboard_repeat \<Rightarrow>
          (case pq_repeat (pv_queue m) of
             Some k \<Rightarrow> on_dispatcher (dispatch_key_up_event rt r (en_time front) (get_usage_pair k)) m
           | None \<Rightarrow> m)
      | Tag_system_preferences_properties_changed \<Rightarrow>
          (case get_if_system_preferences e of
             Some p \<Rightarrow> on_mouse (set_system_preferences_properties (sp_scroll_direction_is_natural p)) m
           | None \<Rightarrow> m)
      | _ \<Rightarrow> m)"

subsection \<open>The virtual functions\<close>

definition post_manipulate ::
    "runtime \<Rightarrow> ('k, 'm, 'b) report_ops \<Rightarrow> entry \<Rightarrow> ('k, 'm, 'b) post_events \<Rightarrow> event_queue \<Rightarrow>
     entry \<times> ('k, 'm, 'b) post_events \<times> event_queue" where
  "post_manipulate rt r front m oq =
     (if en_validity front = Invalid then (front, m, oq)
      else
        (let t = en_time front;
             m1 = synchronise_caps_lock front oq m;
             m2 = (if dispatch_before r front m1 then dispatch_modifiers rt r oq t m1 else m1);
             oq1 = push_back_entry rt front oq;
             front1 = front\<lparr>en_validity := Invalid\<rparr>;
             m3 = update_sticky_modifiers_notification_message oq1 m2;
             m4 = post_front rt r front1 oq1 m3;
             m5 = (if dispatch_after front then dispatch_modifiers rt r oq1 t m4 else m4)
         in (front1, m5, oq1)))"

definition post_active :: "('k, 'm, 'b) post_events \<Rightarrow> bool" where
  "post_active m \<longleftrightarrow> pq_events (pv_queue m) \<noteq> []"

definition post_handle_released ::
    "runtime \<Rightarrow> ('k, 'm, 'b) report_ops \<Rightarrow> entry \<Rightarrow> ('k, 'm, 'b) post_events \<Rightarrow> event_queue \<Rightarrow> ('k, 'm, 'b) post_events \<times> event_queue" where
  "post_handle_released rt r front m oq =
     (let t = en_time front;
          m1 = dispatch_modifiers rt r oq t m;
          oq1 = oq\<lparr>q_modifier_flag_manager := erase_caps_lock_sticky_modifier_flags (q_modifier_flag_manager oq)\<rparr>;
          m2 = update_sticky_modifiers_notification_message oq1 m1;
          m3 = synchronise_buttons rt r oq1 t m2
      in (on_mouse (erase_mouse_keys_by_device_id (en_device_id front) t) m3, oq1))"

definition post_handle_ungrabbed ::
    "runtime \<Rightarrow> ('k, 'm, 'b) report_ops \<Rightarrow> device_id \<Rightarrow> event_queue \<Rightarrow> time_point \<Rightarrow> ('k, 'm, 'b) post_events \<Rightarrow> ('k, 'm, 'b) post_events" where
  "post_handle_ungrabbed rt r dev oq t m =
     on_mouse (erase_mouse_keys_by_device_id dev t)
       (dispatch_modifiers rt r oq t
         (synchronise_buttons rt r oq t
           (on_dispatcher (dispatch_key_up_events_by_device_id rt r t dev) m)))"

definition post_handle_event_tap ::
    "runtime \<Rightarrow> ('k, 'm, 'b) report_ops \<Rightarrow> entry \<Rightarrow> ('k, 'm, 'b) post_events \<Rightarrow> event_queue \<Rightarrow> ('k, 'm, 'b) post_events" where
  "post_handle_event_tap rt r front m oq =
     (if en_event_type front \<noteq> Key_up \<and> quiet r m then dispatch_modifiers rt r oq (en_time front) m else m)"

definition post_class :: "('k, 'm, 'b) report_ops \<Rightarrow> runtime \<Rightarrow> ('k, 'm, 'b) post_events virtual_table" where
  "post_class r rt0 =
     \<lparr>vt_already_manipulated = (\<lambda>_ _. False),
      vt_manipulate = (\<lambda>rt now input front m oq st.
        let (front1, m1, oq1) = post_manipulate rt r front m oq in Inr (Passed, front1, m1, oq1, st)),
      vt_active = post_active,
      vt_needs_virtual_hid_pointing = (\<lambda>_. False),
      vt_handle_released = (\<lambda>front m oq. post_handle_released rt0 r front m oq),
      vt_handle_ungrabbed = (\<lambda>dev oq t m. post_handle_ungrabbed rt0 r dev oq t m),
      vt_handle_event_tap = (\<lambda>front m oq. (post_handle_event_tap rt0 r front m oq, oq)),
      vt_validity = (\<lambda>_. Valid),
      vt_set_validity = (\<lambda>_ m. m)\<rparr>"

subsection \<open>Other operations\<close>

definition post_set_cgeventtap_fallback_enabled :: "bool \<Rightarrow> ('k, 'm, 'b) post_events \<Rightarrow> ('k, 'm, 'b) post_events" where
  "post_set_cgeventtap_fallback_enabled v = on_queue (set_cgeventtap_fallback_enabled v)"

definition set_sleep_shortcut_delay :: "milliseconds \<Rightarrow> ('k, 'm, 'b) post_events \<Rightarrow> ('k, 'm, 'b) post_events" where
  "set_sleep_shortcut_delay v m = m\<lparr>pv_sleep_shortcut_delay := v\<rparr>"

definition clear_virtual_hid_keyboard_pressed_keys :: "('k, 'm, 'b) post_events \<Rightarrow> ('k, 'm, 'b) post_events" where
  "clear_virtual_hid_keyboard_pressed_keys = on_queue (\<lambda>q. q\<lparr>pq_pressed_keys := {}\<rparr>)"

definition clear_queue :: "('k, 'm, 'b) post_events \<Rightarrow> ('k, 'm, 'b) post_events" where
  "clear_queue = on_queue post_clear"

text \<open>
  Releasing all keys: the keys known as delivered are taken at once (\<open>order\<close> lists the set), the task
  that releases them runs later, at \<open>t\<close>. Posting follows as an operation of its own.
\<close>

definition release_keys ::
    "runtime \<Rightarrow> ('k, 'm, 'b) report_ops \<Rightarrow> time_point \<Rightarrow> momentary_switch_event list \<Rightarrow> ('k, 'm, 'b) post_events \<Rightarrow> ('k, 'm, 'b) post_events" where
  "release_keys rt r t keys m =
     (on_queue (fold (\<lambda>e q. if \<not> mse_valid e \<or> mse_pointing_button e then q
                            else emplace_back_key_event rt r (get_usage_pair e) Key_up t q) keys) m)
       \<lparr>pv_dispatcher := dispatcher_clear (pv_dispatcher m)\<rparr>"

definition async_release_virtual_hid_keyboard_pressed_keys ::
    "runtime \<Rightarrow> ('k, 'm, 'b) report_ops \<Rightarrow> (momentary_switch_event set \<Rightarrow> momentary_switch_event list) \<Rightarrow> time_point \<Rightarrow>
     ('k, 'm, 'b) post_events \<Rightarrow> ('k, 'm, 'b) post_events" where
  "async_release_virtual_hid_keyboard_pressed_keys rt r order t m =
     (let (keys, rest) = pk_make_entries_and_clear (pq_pressed_keys (pv_queue m));
          m1 = on_queue (\<lambda>q. q\<lparr>pq_pressed_keys := rest\<rparr>) m
      in if keys = {} then m1 else release_keys rt r t (order keys) m1)"

definition post_mouse_timer ::
    "runtime \<Rightarrow> floating \<Rightarrow> ('k, 'm, 'b) report_ops \<Rightarrow> event_queue \<Rightarrow> ('k, 'm, 'b) post_events \<Rightarrow> ('k, 'm, 'b) post_events" where
  "post_mouse_timer rt fl r oq m =
     (let (h, q) = mouse_timer_round rt fl r oq (pv_mouse m, pv_queue m) in m\<lparr>pv_mouse := h, pv_queue := q\<rparr>)"

subsection \<open>The virtual keyboard stays consistent\<close>

text \<open>
  During a step that began with the queue \<open>q0\<close>: the strokes queued since, added to the log \<open>kl\<close>, meet the
  invariant.
\<close>

definition steady ::
    "('k, 'm, 'b) report_ops \<Rightarrow> ('k, 'm, 'b) post_queue \<Rightarrow> keyboard_log \<Rightarrow> ('k, 'm, 'b) post_events \<Rightarrow> bool" where
  "steady r q0 kl m \<longleftrightarrow>
     (\<exists>xs. strokes (pq_events (pv_queue m)) = strokes (pq_events q0) @ xs \<and>
        vk_inv r ((pv_dispatcher m, pv_queue m), log_strokes xs kl))"

lemma steady_fields [simp]:
  "steady r q0 kl (m\<lparr>pv_mouse := h\<rparr>) = steady r q0 kl m"
  "steady r q0 kl (m\<lparr>pv_tasks := ts\<rparr>) = steady r q0 kl m"
  "steady r q0 kl (m\<lparr>pv_pressed_buttons := b\<rparr>) = steady r q0 kl m"
  "steady r q0 kl (m\<lparr>pv_sleep_shortcut_delay := v\<rparr>) = steady r q0 kl m"
  by (simp_all add: steady_def)

lemma steady_mouse [simp]: "steady r q0 kl (on_mouse f m) = steady r q0 kl m"
  by (simp add: on_mouse_def)

lemma steady_dispatch:
  assumes m: "steady r q0 kl m" and o: "\<And>s. orderly r s (f s)"
    and g: "\<And>s. undelivered.good (pq_pressed_keys (snd s)) s \<Longrightarrow> undelivered.good (pq_pressed_keys (snd s)) (f s)"
  shows "steady r q0 kl (on_dispatcher f m)"
proof -
  obtain xs where xs: "strokes (pq_events (pv_queue m)) = strokes (pq_events q0) @ xs"
    "vk_inv r ((pv_dispatcher m, pv_queue m), log_strokes xs kl)" using m by (auto simp: steady_def)
  have "undelivered.good (pq_pressed_keys (snd (pv_dispatcher m, pv_queue m))) (pv_dispatcher m, pv_queue m)"
    using xs(2) by (auto simp: vk_inv_def)
  from vk_inv_dispatch [OF xs(2) o g [OF this]] obtain ys where
    "strokes (pq_events (snd (f (pv_dispatcher m, pv_queue m)))) = strokes (pq_events (pv_queue m)) @ ys"
    "vk_inv r (f (pv_dispatcher m, pv_queue m), log_strokes (xs @ ys) kl)"
    by (auto simp: log_more_strokes)
  then show ?thesis using xs(1) by (cases "f (pv_dispatcher m, pv_queue m)") (auto simp: steady_def on_dispatcher_def)
qed

lemma steady_modifiers: "steady r q0 kl m \<Longrightarrow> steady r q0 kl (dispatch_modifiers rt r oq t m)"
  unfolding dispatch_modifiers_def
  by (erule steady_dispatch) (rule dispatch_modifiers_orderly, rule undelivered.good_modifiers)

lemma steady_key_up: "steady r q0 kl m \<Longrightarrow> steady r q0 kl (on_dispatcher (dispatch_key_up_event rt r t p) m)"
  by (erule steady_dispatch) (rule key_up_orderly, rule undelivered.good_key_up)

lemma steady_key_down:
  "steady r q0 kl m \<Longrightarrow> mse_valid (Mse p) \<Longrightarrow> \<not> mse_modifier_flag (Mse p) \<Longrightarrow>
   steady r q0 kl (on_dispatcher (dispatch_key_down_event rt r t dev p) m)"
  by (erule steady_dispatch) (erule key_down_orderly, erule (1) undelivered.good_key_down)

lemma steady_ungrab: "steady r q0 kl m \<Longrightarrow> steady r q0 kl (on_dispatcher (dispatch_key_up_events_by_device_id rt r t dev) m)"
  by (erule steady_dispatch) (rule ungrab_orderly, rule undelivered.good_ungrab)

lemma steady_caps_lock: "steady r q0 kl m \<Longrightarrow> steady r q0 kl (synchronise_caps_lock front oq m)"
proof -
  assume m: "steady r q0 kl m"
  have "steady r q0 kl (m\<lparr>pv_dispatcher := (if on then insert_pressed_modifier_flag else erase_pressed_modifier_flag) Flag_caps_lock (pv_dispatcher m)\<rparr>)"
    for on :: bool
  proof -
    let ?f = "\<lambda>(d, q). ((if on then insert_pressed_modifier_flag else erase_pressed_modifier_flag) Flag_caps_lock d, q)"
    have "orderly r (d, q) (?f (d, q))" for d and q :: "('a, 'b, 'c) post_queue"
      unfolding prod.case
      by (rule orderly_refl)
        (auto simp: down_def keys_ok_def insert_pressed_modifier_flag_def erase_pressed_modifier_flag_def sent_flags_def)
    then have "orderly r s (?f s)" for s by (cases s) blast
    moreover have "undelivered.good K s \<Longrightarrow> undelivered.good K (?f s)" for K and s :: "('a, 'b, 'c) dispatch"
      by (cases s) (auto simp: undelivered.good_def insert_pressed_modifier_flag_def erase_pressed_modifier_flag_def)
    ultimately have "steady r q0 kl (on_dispatcher ?f m)" by (rule steady_dispatch [OF m])
    then show ?thesis by (simp add: on_dispatcher_def steady_def)
  qed
  then show ?thesis using m by (simp add: synchronise_caps_lock_def split: option.split)
qed

text \<open>Events that are no key reports: they change nothing of what the keyboard is told.\<close>

definition plain_change :: "('k, 'm, 'b) report_ops \<Rightarrow> ('k, 'm, 'b) post_queue \<Rightarrow> ('k, 'm, 'b) post_queue \<Rightarrow> bool" where
  "plain_change r q q' \<longleftrightarrow> strokes (pq_events q') = strokes (pq_events q) \<and> (\<forall>xs. reports_show r xs q' = reports_show r xs q) \<and>
     pq_pressed_keys q' = pq_pressed_keys q \<and> (undelivered (pq_pressed_keys q) q \<longrightarrow> undelivered (pq_pressed_keys q) q')"

lemma vk_inv_plain: "vk_inv r ((d, q), kl) \<Longrightarrow> plain_change r q q' \<Longrightarrow> vk_inv r ((d, q'), kl)"
  unfolding vk_inv_def plain_change_def undelivered.good_def prod.case fst_conv snd_conv by metis

lemma steady_plain: "steady r q0 kl m \<Longrightarrow> plain_change r (pv_queue m) (f (pv_queue m)) \<Longrightarrow> steady r q0 kl (on_queue f m)"
  unfolding steady_def on_queue_def using vk_inv_plain by (fastforce simp: plain_change_def)

lemma plain_append: "plain_change r q (append_event (plain_post v t) q)"
proof -
  have "reports_show r xs (append_event (plain_post v t) q) = reports_show r xs q" for xs
    by (rule reports_show_fields) (simp_all add: append_event_def)
  then show ?thesis by (simp add: plain_change_def append_event_def undelivered_def) (simp add: plain_post_def)
qed

lemma plain_pointing: "plain_change r q (emplace_back_pointing_input rt p et t q)"
proof -
  obtain t1 q1 where a: "adjust_time_stamp rt et False t q = (t1, q1)" by fastforce
  have s: "reports_show r xs q1 = reports_show r xs q" for xs
    using adjust_time_stamp_keeps [OF a] by (intro reports_show_fields) auto
  have "plain_change r q q1"
    using adjust_time_stamp_keeps [OF a] adjust_pressed_keys [OF a] s by (simp add: plain_change_def undelivered_def)
  then show ?thesis using plain_append [of r q1 "Pointing_input p" t1]
    by (simp add: emplace_back_pointing_input_def a plain_change_def)
qed

lemma steady_pointing: "steady r q0 kl m \<Longrightarrow> steady r q0 kl (on_queue (emplace_back_pointing_input rt p et t) m)"
  by (erule steady_plain) (rule plain_pointing)

lemma steady_if_pressed:
  "steady r q0 kl m \<Longrightarrow> (\<And>x t q. plain_change r q (push x t q)) \<Longrightarrow> steady r q0 kl (if_pressed front v push m)"
  by (auto simp: if_pressed_def intro: steady_plain split: option.split)

lemma steady_report: "steady r q0 kl m \<Longrightarrow> steady r q0 kl (post_pointing_input_report rt r front oq m)"
  by (simp add: post_pointing_input_report_def Let_def steady_pointing)

lemma steady_buttons: "steady r q0 kl m \<Longrightarrow> steady r q0 kl (synchronise_buttons rt r oq t m)"
  by (simp add: synchronise_buttons_def Let_def steady_pointing)

lemma steady_sticky: "steady r q0 kl m \<Longrightarrow> steady r q0 kl (update_sticky_modifiers_notification_message oq m)"
  by (simp add: update_sticky_modifiers_notification_message_def)

lemma steady_switch: "steady r q0 kl m \<Longrightarrow> steady r q0 kl (post_switch_event rt r front oq m)"
  by (auto simp: post_switch_event_def front_is_modifier_def steady_report
      intro: steady_key_down steady_key_up split: option.split event_type.split)

lemma steady_front: "steady r q0 kl m \<Longrightarrow> steady r q0 kl (post_front rt r front oq m)"
  unfolding post_front_def Let_def push_back_shell_command_event_def [abs_def] push_back_send_user_command_event_def [abs_def]
    push_back_select_input_source_event_def [abs_def] push_back_software_function_event_def [abs_def]
  by (cases "ev_type (en_event front)")
    (auto simp: post_mouse_key_def split: option.split event_type.split
      intro: steady_switch steady_report steady_if_pressed plain_append steady_key_up)

lemma steady_manipulate:
  assumes "steady r q0 kl m" "post_manipulate rt r front m oq = (front', m', oq')"
  shows "steady r q0 kl m'"
proof (cases "en_validity front = Invalid")
  case True
  then show ?thesis using assms by (simp add: post_manipulate_def)
next
  case False
  define m1 where "m1 = synchronise_caps_lock front oq m"
  define m2 where "m2 = (if dispatch_before r front m1 then dispatch_modifiers rt r oq (en_time front) m1 else m1)"
  define m3 where "m3 = update_sticky_modifiers_notification_message (push_back_entry rt front oq) m2"
  define m4 where "m4 = post_front rt r (front\<lparr>en_validity := Invalid\<rparr>) (push_back_entry rt front oq) m3"
  have "steady r q0 kl m1" unfolding m1_def by (rule steady_caps_lock [OF assms(1)])
  then have "steady r q0 kl m2" by (simp add: m2_def steady_modifiers)
  then have "steady r q0 kl m3" unfolding m3_def by (rule steady_sticky)
  then have m4: "steady r q0 kl m4" unfolding m4_def by (rule steady_front)
  have "m' = (if dispatch_after front then dispatch_modifiers rt r (push_back_entry rt front oq) (en_time front) m4 else m4)"
    using assms(2) unfolding post_manipulate_def Let_def if_not_P [OF False] m1_def m2_def m3_def m4_def by blast
  then show ?thesis using m4 by (simp add: steady_modifiers)
qed

lemma steady_mouse_timer: "steady r q0 kl m \<Longrightarrow> steady r q0 kl (post_mouse_timer rt fl r oq m)"
proof -
  assume m: "steady r q0 kl m"
  obtain h q where hq: "mouse_timer_round rt fl r oq (pv_mouse m, pv_queue m) = (h, q)" by fastforce
  have "q = pv_queue m \<or> (\<exists>p t. q = emplace_back_pointing_input rt p Single t (pv_queue m))"
    using hq by (auto simp: mouse_timer_round_def post_mouse_event_def Let_def split: option.split_asm if_split_asm prod.split_asm)
  then have "plain_change r (pv_queue m) q"
  proof (elim disjE exE)
    assume "q = pv_queue m"
    then show ?thesis by (simp add: plain_change_def)
  next
    fix p t assume "q = emplace_back_pointing_input rt p Single t (pv_queue m)"
    then show ?thesis by (simp add: plain_pointing)
  qed
  then show ?thesis using steady_plain [OF m, of "\<lambda>_. q"] by (simp add: post_mouse_timer_def hq steady_def on_queue_def)
qed

subsection \<open>Releasing all keys\<close>

text \<open>The strokes that releasing the listed keys queues.\<close>

definition released_strokes :: "momentary_switch_event list \<Rightarrow> stroke list" where
  "released_strokes ks =
     map (\<lambda>e. (e, Key_up))
       (filter (\<lambda>e. mse_valid e \<and> \<not> mse_pointing_button e \<and> usage_page (get_usage_pair e) \<in> keyboard_pages) ks)"

abbreviation released_queue ::
    "runtime \<Rightarrow> ('k, 'm, 'b) report_ops \<Rightarrow> time_point \<Rightarrow> momentary_switch_event list \<Rightarrow> ('k, 'm, 'b) post_queue \<Rightarrow> ('k, 'm, 'b) post_queue" where
  "released_queue rt r t ks q \<equiv>
     fold (\<lambda>e q. if \<not> mse_valid e \<or> mse_pointing_button e then q
            else emplace_back_key_event rt r (get_usage_pair e) Key_up t q) ks q"

lemma release_queue:
  assumes "undelivered K q"
  shows "strokes (pq_events (released_queue rt r t ks q)) = strokes (pq_events q) @ released_strokes ks \<and>
    undelivered K (released_queue rt r t ks q) \<and>
    (\<forall>zs. reports_show r zs q \<longrightarrow> reports_show r (zs @ released_strokes ks) (released_queue rt r t ks q))"
  using assms
proof (induction ks arbitrary: q)
  case (Cons e ks)
  let ?q = "if \<not> mse_valid e \<or> mse_pointing_button e then q else emplace_back_key_event rt r (get_usage_pair e) Key_up t q"
  let ?xs = "if mse_valid e \<and> \<not> mse_pointing_button e \<and> usage_page (get_usage_pair e) \<in> keyboard_pages then [(e, Key_up)] else []"
  have e: "Mse (get_usage_pair e) = e" by (cases e) simp
  have u: "undelivered K ?q" using Cons.prems by (simp add: undelivered_emplace e)
  have s: "strokes (pq_events ?q) = strokes (pq_events q) @ ?xs" by (simp add: emplace_strokes e)
  have c: "released_strokes (e # ks) = ?xs @ released_strokes ks" by (simp add: released_strokes_def)
  have sh: "reports_show r (zs @ ?xs) ?q" if "reports_show r zs q" for zs
    using that emplace_reports [OF that, of "get_usage_pair e" Key_up rt t, unfolded e] by (auto split: if_split_asm)
  have step: "released_queue rt r t (e # ks) q = released_queue rt r t ks ?q" by simp
  have IH: "strokes (pq_events (released_queue rt r t ks ?q)) = strokes (pq_events ?q) @ released_strokes ks"
    "undelivered K (released_queue rt r t ks ?q)"
    "reports_show r zs ?q \<Longrightarrow> reports_show r (zs @ released_strokes ks) (released_queue rt r t ks ?q)" for zs
    using Cons.IH [OF u] by blast+
  show ?case unfolding step c append_assoc [symmetric] s [symmetric]
    by (intro conjI allI impI IH sh)
qed (simp add: released_strokes_def)

lemma held_after_releases:
  "distinct ks \<Longrightarrow> get_usage_pair ` set ks \<subseteq> h \<Longrightarrow>
   held_after (map (\<lambda>e. (e, Key_up)) ks) h = Some (h - get_usage_pair ` set ks)"
proof (induction ks arbitrary: h)
  case (Cons e ks)
  obtain p where e: "e = Mse p" by (cases e)
  have "p \<notin> get_usage_pair ` set ks"
  proof
    assume "p \<in> get_usage_pair ` set ks"
    then have "e \<in> set ks" unfolding e by (metis (no_types) imageE momentary_switch_event.collapse)
    then show False using Cons.prems(1) by simp
  qed
  then have "get_usage_pair ` set ks \<subseteq> h - {p}" using Cons.prems(2) by auto
  then have "held_after (map (\<lambda>e. (e, Key_up)) ks) (h - {p}) = Some (h - {p} - get_usage_pair ` set ks)"
    using Cons.IH [of "h - {p}"] Cons.prems(1) by simp
  moreover have "h - {p} - get_usage_pair ` set ks = h - get_usage_pair ` set (e # ks)" by (auto simp: e)
  moreover have "p \<in> h" using Cons.prems(2) by (simp add: e)
  ultimately show ?case by (simp add: e)
qed simp

lemma page_of_button: "mse_pointing_button (Mse p) \<Longrightarrow> usage_page p \<notin> keyboard_pages"
  by (auto simp: mse_pointing_button_def keyboard_pages_def page_defs)

text \<open>A key that is down is valid and on a page with reports.\<close>

lemma down_valid:
  assumes "\<forall>k\<in>set (kd_pressed_keys d). mse_valid (Mse (snd k))" "p \<in> down d"
  shows "mse_valid (Mse p) \<and> \<not> mse_pointing_button (Mse p) \<and> usage_page p \<in> keyboard_pages"
proof -
  have page: "usage_page p \<in> keyboard_pages" using assms(2) modifier_pair_page by (auto simp: down_def)
  have "mse_valid (Mse (modifier_pair m))" if "m \<in> sent_flags" for m
    using that by (auto simp: modifier_pair_mse mse_of_modifier_flag_valid sent_flags_def dispatched_flags_def)
  then have "mse_valid (Mse p)" using assms by (auto simp: down_def)
  then show ?thesis using page page_of_button by blast
qed

text \<open>Releasing keys that are all down.\<close>

lemma release_down:
  assumes "\<forall>k\<in>set (kd_pressed_keys d). mse_valid (Mse (snd k))" "distinct ks" "get_usage_pair ` set ks \<subseteq> down d"
  shows "released_strokes ks = map (\<lambda>e. (e, Key_up)) ks"
    "held_after (released_strokes ks) (down d) = Some (down d - get_usage_pair ` set ks)"
proof -
  have "mse_valid e \<and> \<not> mse_pointing_button e \<and> usage_page (get_usage_pair e) \<in> keyboard_pages" if "e \<in> set ks" for e
    using down_valid [OF assms(1), of "get_usage_pair e"] that assms(3) by (cases e) auto
  then show eq: "released_strokes ks = map (\<lambda>e. (e, Key_up)) ks" by (simp add: released_strokes_def)
  show "held_after (released_strokes ks) (down d) = Some (down d - get_usage_pair ` set ks)"
    unfolding eq by (rule held_after_releases [OF assms(2,3)])
qed

subsection \<open>Runs\<close>

text \<open>
  What can happen to the last manipulator: entries, the calls of the manager, the timer of the mouse
  keys, rounds of posting with or without the driver's client, the queue cleared, and the two calls of
  the device grabber: the virtual keyboard is gone, so nothing is known as delivered, and secure input is
  enabled, so the modifiers of the dispatcher are cleared and all keys released (one step: the task
  that queues the releases follows the call with no other operation between). \<open>visit\<close> is the order
  in which a loop over an unordered set visits its elements, each of them once.
\<close>

datatype post_op =
    Po_manipulate entry event_queue
  | Po_released entry event_queue
  | Po_ungrabbed device_id event_queue time_point
  | Po_event_tap entry event_queue
  | Po_mouse_timer floating event_queue
  | Po_post bool bool time_point "nat \<Rightarrow> time_point"
  | Po_fallback bool
  | Po_delay milliseconds
  | Po_clear_queue
  | Po_keyboard_gone
  | Po_secure_input time_point

definition lists_sets :: "('a set \<Rightarrow> 'a list) \<Rightarrow> bool" where
  "lists_sets visit \<longleftrightarrow> (\<forall>A. finite A \<longrightarrow> distinct (visit A) \<and> set (visit A) = A)"

definition post_round ::
    "runtime \<Rightarrow> bool \<Rightarrow> bool \<Rightarrow> time_point \<Rightarrow> (nat \<Rightarrow> time_point) \<Rightarrow> ('k, 'm, 'b) post_events \<Rightarrow>
     ('k, 'm, 'b) delivery list \<times> milliseconds option \<times> ('k, 'm, 'b) post_events" where
  "post_round rt client console now clock m =
     (let (outs, delay, q) = async_post_events rt client console now clock (pv_queue m) in (outs, delay, m\<lparr>pv_queue := q\<rparr>))"

text \<open>A step that takes nothing from the queue: the strokes it queued are logged.\<close>

definition log_step :: "('k, 'm, 'b) post_events \<Rightarrow> ('k, 'm, 'b) post_events \<Rightarrow> keyboard_log \<Rightarrow> ('k, 'm, 'b) post_events \<times> keyboard_log" where
  "log_step m m' kl =
     (m', log_strokes (drop (length (strokes (pq_events (pv_queue m)))) (strokes (pq_events (pv_queue m')))) kl)"

definition enter_secure_input ::
    "runtime \<Rightarrow> ('k, 'm, 'b) report_ops \<Rightarrow> (momentary_switch_event set \<Rightarrow> momentary_switch_event list) \<Rightarrow> time_point \<Rightarrow>
     ('k, 'm, 'b) post_events \<Rightarrow> ('k, 'm, 'b) post_events" where
  "enter_secure_input rt r visit t m =
     async_release_virtual_hid_keyboard_pressed_keys rt r visit t
       (m\<lparr>pv_dispatcher := clear_pressed_modifier_flags (pv_dispatcher m)\<rparr>)"

fun post_step ::
    "runtime \<Rightarrow> ('k, 'm, 'b) report_ops \<Rightarrow> (momentary_switch_event set \<Rightarrow> momentary_switch_event list) \<Rightarrow> post_op \<Rightarrow>
     ('k, 'm, 'b) post_events \<times> keyboard_log \<Rightarrow> ('k, 'm, 'b) post_events \<times> keyboard_log" where
  "post_step rt r visit (Po_manipulate front oq) (m, kl) = log_step m (fst (snd (post_manipulate rt r front m oq))) kl"
| "post_step rt r visit (Po_released front oq) (m, kl) = log_step m (fst (post_handle_released rt r front m oq)) kl"
| "post_step rt r visit (Po_ungrabbed dev oq t) (m, kl) = log_step m (post_handle_ungrabbed rt r dev oq t m) kl"
| "post_step rt r visit (Po_event_tap front oq) (m, kl) = log_step m (post_handle_event_tap rt r front m oq) kl"
| "post_step rt r visit (Po_mouse_timer fl oq) (m, kl) = log_step m (post_mouse_timer rt fl r oq m) kl"
| "post_step rt r visit (Po_post client console now clock) (m, kl) =
     (let (outs, delay, m') = post_round rt client console now clock m;
          n = length (pq_events (pv_queue m)) - length (pq_events (pv_queue m'))
      in (m', log_post client (strokes (take n (pq_events (pv_queue m)))) kl))"
| "post_step rt r visit (Po_fallback v) (m, kl) = log_step m (post_set_cgeventtap_fallback_enabled v m) kl"
| "post_step rt r visit (Po_delay v) (m, kl) = log_step m (set_sleep_shortcut_delay v m) kl"
| "post_step rt r visit Po_clear_queue (m, kl) =
     (clear_queue m, kl\<lparr>kl_lost := kl_lost kl \<or> strokes (pq_events (pv_queue m)) \<noteq> []\<rparr>)"
| "post_step rt r visit Po_keyboard_gone (m, kl) = (clear_virtual_hid_keyboard_pressed_keys m, kl\<lparr>kl_known := []\<rparr>)"
| "post_step rt r visit (Po_secure_input t) (m, kl) =
     log_step m (enter_secure_input rt r visit t m)
       (kl\<lparr>kl_known := [],
           kl_late := kl_late kl \<or> get_usage_pair ` pq_pressed_keys (pv_queue m) \<noteq> down (pv_dispatcher m)\<rparr>)"

definition post_init :: "('k, 'm, 'b) report_ops \<Rightarrow> keyboard_suppression \<Rightarrow> bool \<Rightarrow> bool \<Rightarrow> ('k, 'm, 'b) post_events \<times> keyboard_log" where
  "post_init r ks natural notifier = (mk_post_events r ks natural notifier, no_log)"

definition post_inv :: "('k, 'm, 'b) report_ops \<Rightarrow> ('k, 'm, 'b) post_events \<times> keyboard_log \<Rightarrow> bool" where
  "post_inv r = (\<lambda>(m, kl). vk_inv r ((pv_dispatcher m, pv_queue m), kl))"

lemma steady_released: "steady r q0 kl m \<Longrightarrow> steady r q0 kl (fst (post_handle_released rt r front m oq))"
  by (simp add: post_handle_released_def Let_def steady_buttons steady_sticky steady_modifiers)

lemma steady_ungrabbed: "steady r q0 kl m \<Longrightarrow> steady r q0 kl (post_handle_ungrabbed rt r dev oq t m)"
  by (simp add: post_handle_ungrabbed_def steady_buttons steady_modifiers steady_ungrab)

lemma steady_event_tap: "steady r q0 kl m \<Longrightarrow> steady r q0 kl (post_handle_event_tap rt r front m oq)"
  by (simp add: post_handle_event_tap_def steady_modifiers)

lemma steady_fallback: "steady r q0 kl m \<Longrightarrow> steady r q0 kl (post_set_cgeventtap_fallback_enabled v m)"
  unfolding post_set_cgeventtap_fallback_enabled_def
  by (erule steady_plain) (simp add: plain_change_def set_cgeventtap_fallback_enabled_def undelivered_def reports_show_def)

text \<open>A step that is steady keeps the invariant.\<close>

lemma steady_start: "post_inv r (m, kl) \<Longrightarrow> steady r (pv_queue m) kl m"
  by (auto simp: post_inv_def steady_def intro: exI [of _ "[]"])

lemma steady_end: "steady r (pv_queue m) kl m' \<Longrightarrow> post_inv r (log_step m m' kl)"
  by (auto simp: post_inv_def steady_def log_step_def)

lemma post_inv_round:
  assumes "post_inv r (m, kl)"
  shows "post_inv r (post_step rt r visit (Po_post client console now clock) (m, kl))"
proof -
  obtain outs delay q where p: "async_post_events rt client console now clock (pv_queue m) = (outs, delay, q)"
    by (cases "async_post_events rt client console now clock (pv_queue m)") auto
  from vk_inv_post [OF assms [unfolded post_inv_def prod.case] p] p
  show ?thesis by (simp add: post_inv_def post_round_def)
qed

text \<open>The release of all keys.\<close>

lemma finite_pressed: "finite K \<Longrightarrow> finite (fold press_stroke xs K)"
proof (induction xs arbitrary: K)
  case (Cons x xs)
  obtain m et where "x = (m, et)" by fastforce
  then have "finite (press_stroke x K)" using Cons.prems by (cases et) (auto simp: pk_insert_def pk_erase_def)
  then show ?case using Cons.IH by simp
qed simp

lemma cleared_down: "down (clear_pressed_modifier_flags d) \<subseteq> down d" "down (dispatcher_clear d) = {}"
  by (auto simp: down_def clear_pressed_modifier_flags_def dispatcher_clear_def)

lemma post_inv_secure:
  assumes visit: "lists_sets visit" and inv: "post_inv r (m, kl)"
  shows "post_inv r (post_step rt r visit (Po_secure_input t) (m, kl))"
proof -
  define d where "d = pv_dispatcher m"
  define q where "q = pv_queue m"
  define K where "K = pq_pressed_keys q"
  define kl1 where "kl1 = kl\<lparr>kl_known := [], kl_late := kl_late kl \<or> get_usage_pair ` K \<noteq> down d\<rparr>"
  have s: "keys_ok d" "undelivered K q" "reports_show r (kl_queued kl) q" "\<forall>x\<in>set (kl_queued kl). mse_valid (fst x)"
    "K = fold press_stroke (kl_known kl) {}" "\<not> kl_late kl \<longrightarrow> held_after (kl_queued kl) {} = Some (down d)"
    "\<not> kl_lost kl \<longrightarrow> kl_queued kl = kl_sent kl @ strokes (pq_events q)"
    "\<forall>k\<in>set (kd_pressed_keys d). mse_valid (Mse (snd k))"
    using inv unfolding post_inv_def vk_inv_def undelivered.good_def prod.case fst_conv snd_conv d_def q_def K_def by blast+
  have ks: "distinct (visit K)" "set (visit K) = K"
    using visit s(5) finite_pressed [of "{}" "kl_known kl"] by (simp_all add: lists_sets_def)
  let ?q = "released_queue rt r t (visit K) (q\<lparr>pq_pressed_keys := {}\<rparr>)"
  let ?d = "if K = {} then clear_pressed_modifier_flags d else dispatcher_clear (clear_pressed_modifier_flags d)"
  have "set (visit {}) = {}" using visit unfolding lists_sets_def by blast
  then have "visit {} = []" by simp
  then have m': "pv_dispatcher (enter_secure_input rt r visit t m) = ?d" "pv_queue (enter_secure_input rt r visit t m) = ?q"
    by (simp_all add: enter_secure_input_def async_release_virtual_hid_keyboard_pressed_keys_def release_keys_def
        pk_make_entries_and_clear_def on_queue_def d_def q_def K_def Let_def)
  have u: "undelivered {} (q\<lparr>pq_pressed_keys := {}\<rparr>)" using s(2) by (simp add: undelivered_def)
  note rel = release_queue [OF u, of rt r t "visit K"]
  have strokes: "strokes (pq_events ?q) = strokes (pq_events q) @ released_strokes (visit K)" using rel by simp
  have u': "undelivered {} ?q" using rel by blast
  have sh: "reports_show r (kl_queued kl @ released_strokes (visit K)) ?q"
    using rel s(3) by (simp add: reports_show_def)
  have good: "\<forall>k\<in>set (kd_pressed_keys ?d). mse_valid (Mse (snd k))" "keys_ok ?d"
    using s(1,8) by (simp_all add: clear_pressed_modifier_flags_def dispatcher_clear_def keys_ok_def)
  have valid: "\<forall>x\<in>set (kl_queued kl @ released_strokes (visit K)). mse_valid (fst x)"
    using s(4) undelivered_strokes [OF u'] strokes by auto
  have held: "held_after (kl_queued kl @ released_strokes (visit K)) {} = Some (down ?d)" if "\<not> kl_late kl1"
  proof -
    have l: "\<not> kl_late kl" "get_usage_pair ` K = down d" using that by (simp_all add: kl1_def)
    have "held_after (released_strokes (visit K)) (down d) = Some (down d - get_usage_pair ` K)"
      using release_down(2) [OF s(8) ks(1)] ks(2) l(2) by simp
    moreover have "down ?d = {}" using l(2) cleared_down(1) [of d] cleared_down(2) by auto
    ultimately show ?thesis using s(6) l by (simp add: held_after_append)
  qed
  have "vk_inv r ((?d, ?q), log_strokes (released_strokes (visit K)) kl1)"
    using good sh valid held u' s(7) strokes
    by (simp add: vk_inv_def log_strokes_def kl1_def undelivered.good_def) (simp add: undelivered_def)
  then show ?thesis
    using strokes m' unfolding post_step.simps log_step_def post_inv_def prod.case q_def [symmetric] d_def [symmetric] K_def [symmetric]
      kl1_def [symmetric] by simp
qed

lemma post_inv_step:
  assumes "lists_sets visit" "post_inv r x"
  shows "post_inv r (post_step rt r visit op x)"
proof -
  obtain m kl where x: "x = (m, kl)" by fastforce
  note inv = assms(2) [unfolded x]
  note m = steady_start [OF inv]
  show ?thesis
  proof (cases op)
    case (Po_manipulate front oq)
    then show ?thesis using steady_end [OF steady_manipulate [OF m]]
      by (cases "post_manipulate rt r front m oq") (auto simp: x)
  next
    case (Po_post client console now clock)
    then show ?thesis using post_inv_round [OF inv] by (simp add: x del: post_step.simps)
  next
    case Po_clear_queue
    then show ?thesis using vk_inv_clear inv by (simp add: x post_inv_def clear_queue_def on_queue_def)
  next
    case Po_keyboard_gone
    then show ?thesis using vk_inv_forget inv
      by (simp add: x post_inv_def clear_virtual_hid_keyboard_pressed_keys_def on_queue_def)
  next
    case (Po_secure_input t)
    then show ?thesis using post_inv_secure [OF assms(1) inv] by (simp add: x del: post_step.simps)
  qed (simp_all add: x m steady_end steady_released steady_ungrabbed steady_event_tap steady_mouse_timer steady_fallback
      set_sleep_shortcut_delay_def)
qed

lemma post_inv_init: "post_inv r (post_init r ks natural notifier)"
  using vk_inv_init [of r ks] by (simp add: post_inv_def post_init_def mk_post_events_def)

interpretation last_manipulator: machine "post_step rt r visit" "post_init r ks natural notifier" "post_inv r" "\<lambda>_. lists_sets visit"
  for rt r visit ks natural notifier
  by unfold_locales (rule post_inv_init, rule post_inv_step)

lemma run_inv:
  assumes "lists_sets visit" "run_ops (post_step rt r visit) ops (post_init r ks natural notifier) = (m, kl)"
  shows "vk_inv r ((pv_dispatcher m, pv_queue m), kl)"
  using last_manipulator.reachable_inv [of ops visit r rt ks natural notifier] assms by (simp add: post_inv_def)


text \<open>The last manipulator meets the contract of manipulators.\<close>

interpretation post_virtual: manipulator_class "post_class r rt0" for r rt0
proof
  fix rt now input front m q st res front' m' q' st'
  assume "vt_manipulate (post_class r rt0) rt now input front m q st = Inr (res, front', m', q', st')"
  then have h: "post_manipulate rt r front m q = (front', m', q')" "res = Passed"
    by (auto simp: post_class_def split: prod.split_asm)
  then have f: "front' = front\<lparr>en_validity := Invalid\<rparr> \<or> en_validity front = Invalid \<and> front' = front"
    by (auto simp: post_manipulate_def Let_def split: if_split_asm)
  then show "en_event front' = en_event front \<and> en_event_type front' = en_event_type front \<and>
      en_device_id front' = en_device_id front \<and> en_time front' = en_time front"
    by (auto simp: en_time_def)
  from f show "en_validity front' = Invalid \<or> res \<noteq> Manipulated_result \<and> en_validity front' = en_validity front" by auto
next
  fix rt now input front m q st front' m' q' st'
  assume "vt_manipulate (post_class r rt0) rt now input front m q st = Inr (Needs_wait_until_time_stamp, front', m', q', st')"
  then show "now < make_time_stamp_with_input_delay (en_event_time_stamp front')"
    by (auto simp: post_class_def split: prod.split_asm)
qed

subsection \<open>An order of the events\<close>

text \<open>Switch events in the order of their usage pages and usages: \<open>sorted_list_of_set\<close> visits a set of them.\<close>

instantiation momentary_switch_event :: linorder
begin

definition less_eq_momentary_switch_event :: "momentary_switch_event \<Rightarrow> momentary_switch_event \<Rightarrow> bool" where
  "less_eq_momentary_switch_event a b \<longleftrightarrow>
     (let p = get_usage_pair a; p' = get_usage_pair b
      in usage_page p < usage_page p' \<or> usage_page p = usage_page p' \<and> usage p \<le> usage p')"

definition less_momentary_switch_event :: "momentary_switch_event \<Rightarrow> momentary_switch_event \<Rightarrow> bool" where
  "less_momentary_switch_event a b \<longleftrightarrow> a \<le> b \<and> a \<noteq> b"

instance
proof
  fix a b c :: momentary_switch_event
  have eq: "a = b \<longleftrightarrow> usage_page (get_usage_pair a) = usage_page (get_usage_pair b) \<and> usage (get_usage_pair a) = usage (get_usage_pair b)"
    using usage_pair_eq by (cases a; cases b) simp
  show "a < b \<longleftrightarrow> a \<le> b \<and> \<not> b \<le> a"
    unfolding less_momentary_switch_event_def less_eq_momentary_switch_event_def Let_def eq by linarith
  show "a \<le> a" by (simp add: less_eq_momentary_switch_event_def)
  show "a \<le> b \<Longrightarrow> b \<le> c \<Longrightarrow> a \<le> c" by (auto simp: less_eq_momentary_switch_event_def Let_def)
  show "a \<le> b \<Longrightarrow> b \<le> a \<Longrightarrow> a = b" unfolding less_eq_momentary_switch_event_def Let_def eq by linarith
  show "a \<le> b \<or> b \<le> a" by (auto simp: less_eq_momentary_switch_event_def Let_def)
qed

end

lemma sorted_visits: "lists_sets (sorted_list_of_set :: momentary_switch_event set \<Rightarrow> momentary_switch_event list)"
  by (simp add: lists_sets_def)

subsection \<open>Properties\<close>


definition key_entry :: "event_type \<Rightarrow> entry" where
  "key_entry et = mk_entry 1 (mk_ts 5) (mse_event (Mse key_a)) et None (mse_event (Mse key_a)) Original False Valid"

definition plain_queue :: event_queue where
  "plain_queue = mk_queue (mk_environment [] plain_configuration)"

definition shifted_queue :: event_queue where
  "shifted_queue = plain_queue\<lparr>q_modifier_flag_manager := [mk_amf Increase Flag_left_shift 1]\<rparr>"






text \<open>
  C15. Releasing all keys misses a press that is still queued: in a reachable state where the keys
  delivered as down are held and a key that was not yet delivered is held as well, releasing all keys
  releases only the delivered ones and forgets the other. Its press goes out afterwards, so the
  key is down once the queue is delivered, and its release queues nothing. (The state is reached without
  an earlier release of this kind and without dropped strokes; \<open>order\<close> lists the set of delivered keys.)
\<close>

theorem release_misses_queued_press:
  assumes "lists_sets visit" and "run_ops (post_step rt r visit) ops (post_init r ks natural notifier) = (m, kl)"
    and "\<not> kl_late kl" "\<not> kl_lost kl"
    and "{k. Mse k \<in> pq_pressed_keys (pv_queue m)} \<subseteq> down (pv_dispatcher m)"
    and "pq_pressed_keys (pv_queue m) \<noteq> {}" "set (order (pq_pressed_keys (pv_queue m))) = pq_pressed_keys (pv_queue m)"
    and "distinct (order (pq_pressed_keys (pv_queue m)))"
    and "p \<in> down (pv_dispatcher m)" "Mse p \<notin> pq_pressed_keys (pv_queue m)"
    and "m' = async_release_virtual_hid_keyboard_pressed_keys rt r order t m"
  shows "(\<exists>h. held_after (kl_sent kl @ strokes (pq_events (pv_queue m'))) {} = Some h \<and> p \<in> h) \<and>
    on_dispatcher (dispatch_key_up_event rt r t' p) m' = m'"
proof -
  let ?K = "pq_pressed_keys (pv_queue m)" let ?ks = "order ?K" let ?q = "(pv_queue m)\<lparr>pq_pressed_keys := {}\<rparr>"
  have inv: "\<forall>k\<in>set (kd_pressed_keys (pv_dispatcher m)). mse_valid (Mse (snd k))" "undelivered ?K (pv_queue m)"
    "held_after (kl_sent kl @ strokes (pq_events (pv_queue m))) {} = Some (down (pv_dispatcher m))"
    using run_inv [OF assms(1,2)] assms(3,4) by (auto simp: vk_inv_def undelivered.good_def)
  have "get_usage_pair k \<in> down (pv_dispatcher m)" if "k \<in> set ?ks" for k
  proof -
    have "Mse (get_usage_pair k) \<in> ?K" using that assms(7) by simp
    then show ?thesis using assms(5) by blast
  qed
  then have sub: "get_usage_pair ` set ?ks \<subseteq> down (pv_dispatcher m)" by blast
  have m': "m' = release_keys rt r t ?ks (on_queue (\<lambda>q. q\<lparr>pq_pressed_keys := {}\<rparr>) m)"
    using assms(6,11) by (simp add: async_release_virtual_hid_keyboard_pressed_keys_def pk_make_entries_and_clear_def)
  have u: "undelivered {} ?q" using inv(2) by (simp add: undelivered_def)
  have s: "strokes (pq_events (pv_queue m')) = strokes (pq_events (pv_queue m)) @ released_strokes ?ks"
    using release_queue [OF u, of rt r t ?ks] by (simp add: m' release_keys_def on_queue_def)
  have "held_after ((kl_sent kl @ strokes (pq_events (pv_queue m))) @ released_strokes ?ks) {} =
      Some (down (pv_dispatcher m) - get_usage_pair ` set ?ks)"
    unfolding held_after_append [of "kl_sent kl @ _"] inv(3) using release_down(2) [OF inv(1) assms(8) sub] by simp
  moreover have "p \<notin> get_usage_pair ` set ?ks" using assms(7,10) by (auto simp: image_iff)
  ultimately have "\<exists>h. held_after (kl_sent kl @ strokes (pq_events (pv_queue m'))) {} = Some h \<and> p \<in> h"
    using assms(9) s by simp
  moreover have "on_dispatcher (dispatch_key_up_event rt r t' p) m' = m'"
    by (simp add: on_dispatcher_def dispatch_key_up_event_def key_event_exists_def m' release_keys_def dispatcher_clear_def)
  ultimately show ?thesis ..
qed

definition key_b :: usage_pair where
  "key_b = \<lparr>usage_page = page_keyboard_or_keypad, usage = 5\<rparr>"

definition typing :: "post_op list" where
  "typing =
     [Po_manipulate (key_entry Key_down) shifted_queue, Po_post True True 20000000 (\<lambda>_. 0),
      Po_manipulate (mk_entry 1 (mk_ts 6) (mse_event (Mse key_b)) Key_down None (mse_event (Mse key_b)) Original False Valid) shifted_queue]"

lemma typing_state:
  "(let (m, kl) = run_ops (post_step idle_runtime list_reports sorted_list_of_set) typing (post_init list_reports (mk_suppression 0 0) True False)
    in \<not> kl_late kl \<and> \<not> kl_lost kl \<and> (pq_pressed_keys (pv_queue m) = {Mse key_a, mse_of_modifier_flag Flag_left_shift}) \<and>
      down (pv_dispatcher m) = {key_a, key_b, modifier_pair Flag_left_shift})"
  by code_simp

theorem release_misses_queued_press_witness:
  "\<exists>m kl m' h. run_ops (post_step idle_runtime list_reports sorted_list_of_set) typing
      (post_init list_reports (mk_suppression 0 0) True False) = (m, kl) \<and>
    m' = async_release_virtual_hid_keyboard_pressed_keys idle_runtime list_reports sorted_list_of_set 30000000 m \<and>
    held_after (kl_sent kl @ strokes (pq_events (pv_queue m'))) {} = Some h \<and> key_b \<in> h"
proof -
  let ?run = "run_ops (post_step idle_runtime list_reports sorted_list_of_set) typing (post_init list_reports (mk_suppression 0 0) True False)"
  obtain m kl where run: "?run = (m, kl)" by fastforce
  have l: "\<not> kl_late kl" "\<not> kl_lost kl" and K: "pq_pressed_keys (pv_queue m) = {Mse key_a, mse_of_modifier_flag Flag_left_shift}"
    and D: "down (pv_dispatcher m) = {key_a, key_b, modifier_pair Flag_left_shift}"
    using typing_state run by simp_all
  have k: "Mse key_b \<noteq> Mse key_a" "Mse key_b \<noteq> mse_of_modifier_flag Flag_left_shift"
    by (simp_all add: key_a_def key_b_def usage_defs mk_pair_def)
  have sub: "{k. Mse k \<in> pq_pressed_keys (pv_queue m)} \<subseteq> down (pv_dispatcher m)"
    unfolding K D by (auto simp: modifier_pair_def)
  have ne: "pq_pressed_keys (pv_queue m) \<noteq> {}" and fin: "finite (pq_pressed_keys (pv_queue m))"
    and b: "key_b \<in> down (pv_dispatcher m)" "Mse key_b \<notin> pq_pressed_keys (pv_queue m)"
    using k unfolding K D by simp_all
  have "(\<exists>h. held_after (kl_sent kl @ strokes (pq_events (pv_queue (async_release_virtual_hid_keyboard_pressed_keys idle_runtime list_reports
      sorted_list_of_set 30000000 m)))) {} = Some h \<and> key_b \<in> h)"
    by (rule release_misses_queued_press [OF sorted_visits run l sub ne _ _ b refl, THEN conjunct1]) (use fin in simp_all)
  then show ?thesis using run by blast
qed










end
