(* ===== verification/Settings.thy ===== *)
theory Settings
  imports ValueTypes
begin

text \<open>
  The settings of the configuration file (\<open>src/share/core_configuration/configuration_json_helper.hpp\<close>):
  every configuration class registers its members with a JSON key and a default value; reading takes
  over what the JSON object holds, writing stores the members that differ from their defaults and
  erases the others, and what the program does not know stays in the JSON object. A member is the
  entry of its key here: the class holds it by reference, so the entry's value is the member. A
  \<open>double\<close> is the rational number it denotes.
\<close>

datatype error_handling = Strict | Loose

datatype config_value =
    Cv_bool bool
  | Cv_int int
  | Cv_double rat
  | Cv_string string
  | Cv_milliseconds int

record config_entry =
  ce_key :: string
  ce_value :: config_value
  ce_default :: config_value

definition mk_entry_of :: "string \<Rightarrow> config_value \<Rightarrow> config_entry" where
  "mk_entry_of k d = \<lparr>ce_key = k, ce_value = d, ce_default = d\<rparr>"

definition set_entry_default :: "config_value \<Rightarrow> config_entry \<Rightarrow> config_entry" where
  "set_entry_default v e =
     (let uses_default_value = (ce_value e = ce_default e);
          e' = e\<lparr>ce_default := v\<rparr>
      in if uses_default_value then e'\<lparr>ce_value := v\<rparr> else e')"

text \<open>The reader of a value is chosen by the type of the member.\<close>

fun read_value :: "string \<Rightarrow> config_value \<Rightarrow> json \<Rightarrow> json_error + config_value" where
  "read_value k (Cv_string _) j = and_then (unmarshal_string k j) (\<lambda>s. Inr (Cv_string s))"
| "read_value k (Cv_milliseconds _) j =
     and_then (requires_number (quoted k) j) (\<lambda>n. Inr (Cv_milliseconds (get_int32 n)))"
| "read_value k (Cv_bool _) j = and_then (requires_boolean (quoted k) j) (\<lambda>b. Inr (Cv_bool b))"
| "read_value k (Cv_int _) j = and_then (requires_number (quoted k) j) (\<lambda>n. Inr (Cv_int (get_int32 n)))"
| "read_value k (Cv_double _) j = and_then (requires_number (quoted k) j) (\<lambda>n. Inr (Cv_double (get_double n)))"

fun write_value :: "config_value \<Rightarrow> json" where
  "write_value (Cv_string s) = marshal_string s"
| "write_value (Cv_milliseconds n) = J_int n"
| "write_value (Cv_bool b) = J_bool b"
| "write_value (Cv_int n) = J_int n"
| "write_value (Cv_double r) = J_float r"

definition update_value :: "error_handling \<Rightarrow> json \<Rightarrow> config_entry \<Rightarrow> json_error + config_entry" where
  "update_value h j e =
     and_then (requires_object ''json'' j) (\<lambda>xs.
       case map_of xs (ce_key e) of
         None \<Rightarrow> Inr e
       | Some v \<Rightarrow>
           (case read_value (ce_key e) (ce_value e) v of
              Inr x \<Rightarrow> Inr (e\<lparr>ce_value := x\<rparr>)
            | Inl err \<Rightarrow> if h = Strict then Inl err else Inr e))"

definition update_json :: "config_entry \<Rightarrow> (string \<times> json) list \<Rightarrow> (string \<times> json) list" where
  "update_json e xs =
     (if ce_value e \<noteq> ce_default e then obj_set (ce_key e) (write_value (ce_value e)) xs
      else obj_erase (ce_key e) xs)"

fun update_values :: "error_handling \<Rightarrow> json \<Rightarrow> config_entry list \<Rightarrow> json_error + config_entry list" where
  "update_values h j [] = Inr []"
| "update_values h j (e # es) =
     and_then (update_value h j e) (\<lambda>e'. and_then (update_values h j es) (\<lambda>es'. Inr (e' # es')))"

fun update_jsons :: "config_entry list \<Rightarrow> (string \<times> json) list \<Rightarrow> (string \<times> json) list" where
  "update_jsons [] xs = xs"
| "update_jsons (e # es) xs = update_jsons es (update_json e xs)"

definition find_value :: "string \<Rightarrow> config_entry list \<Rightarrow> config_entry option" where
  "find_value k es = find (\<lambda>e. ce_key e = k) es"

text \<open>The members themselves, read and assigned under their keys.\<close>

definition value_of :: "string \<Rightarrow> config_entry list \<Rightarrow> config_value" where
  "value_of k es = (case find_value k es of Some e \<Rightarrow> ce_value e | None \<Rightarrow> Cv_bool False)"

definition flag_of :: "string \<Rightarrow> config_entry list \<Rightarrow> bool" where
  "flag_of k es \<longleftrightarrow> value_of k es = Cv_bool True"

definition int_of_value :: "string \<Rightarrow> config_entry list \<Rightarrow> int" where
  "int_of_value k es = (case value_of k es of Cv_int n \<Rightarrow> n | Cv_milliseconds n \<Rightarrow> n | _ \<Rightarrow> 0)"

definition string_of_value :: "string \<Rightarrow> config_entry list \<Rightarrow> string" where
  "string_of_value k es = (case value_of k es of Cv_string s \<Rightarrow> s | _ \<Rightarrow> [])"

definition change_entry :: "string \<Rightarrow> (config_entry \<Rightarrow> config_entry) \<Rightarrow> config_entry list \<Rightarrow> config_entry list" where
  "change_entry k f es = map (\<lambda>e. if ce_key e = k then f e else e) es"

definition set_value :: "string \<Rightarrow> config_value \<Rightarrow> config_entry list \<Rightarrow> config_entry list" where
  "set_value k v es = change_entry k (\<lambda>e. e\<lparr>ce_value := v\<rparr>) es"

definition set_default_value :: "string \<Rightarrow> config_value \<Rightarrow> config_entry list \<Rightarrow> config_entry list" where
  "set_default_value k v es = change_entry k (set_entry_default v) es"

definition find_default_value :: "string \<Rightarrow> config_entry list \<Rightarrow> config_value \<Rightarrow> config_value" where
  "find_default_value k es fallback = (case find_value k es of Some e \<Rightarrow> ce_default e | None \<Rightarrow> fallback)"

subsection \<open>Members that are objects (\<open>object_t\<close>) and arrays (\<open>array_t\<close>)\<close>

text \<open>What is thrown inside is thrown on with the key in front, if it is an error of the reader.\<close>

definition wrap_error :: "string \<Rightarrow> json_error + 'a \<Rightarrow> json_error + 'a" where
  "wrap_error pre r =
     (case r of
        Inl (Unmarshal_error m) \<Rightarrow> Inl (Unmarshal_error (pre @ m))
      | Inl (Unmarshal_error_dump a j b) \<Rightarrow> Inl (Unmarshal_error_dump (pre @ a) j b)
      | _ \<Rightarrow> r)"

text \<open>\<open>json.find\<close> finds nothing in a value that is no object.\<close>

fun json_find :: "string \<Rightarrow> json \<Rightarrow> json option" where
  "json_find k (J_object xs) = map_of xs k"
| "json_find k _ = None"

definition update_object_value :: "string \<Rightarrow> (json \<Rightarrow> json_error + 'a) \<Rightarrow> json \<Rightarrow> 'a \<Rightarrow> json_error + 'a" where
  "update_object_value k mk j old =
     (case json_find k j of
        None \<Rightarrow> Inr old
      | Some v \<Rightarrow> wrap_error (quoted k @ '' error: '') (mk v))"

definition update_object_json :: "string \<Rightarrow> (string \<times> json) list \<Rightarrow> (string \<times> json) list \<Rightarrow> (string \<times> json) list" where
  "update_object_json k j xs = (if j \<noteq> [] then obj_set k (J_object j) xs else obj_erase k xs)"

fun read_entries :: "string \<Rightarrow> (json \<Rightarrow> json_error + 'a) \<Rightarrow> json list \<Rightarrow> 'a list \<times> json_error option" where
  "read_entries k mk [] = ([], None)"
| "read_entries k mk (j # js) =
     (case wrap_error (quoted k @ '' entry error: '') (mk j) of
        Inl err \<Rightarrow> ([], Some err)
      | Inr x \<Rightarrow> (case read_entries k mk js of (ys, r) \<Rightarrow> (x # ys, r)))"

text \<open>The entries read before an error stay in the vector: the new vector and the error, if there is one.\<close>

definition update_array_value :: "string \<Rightarrow> (json \<Rightarrow> json_error + 'a) \<Rightarrow> json \<Rightarrow> 'a list \<Rightarrow> 'a list \<times> json_error option" where
  "update_array_value k mk j old =
     (case requires_object ''json'' j of
        Inl err \<Rightarrow> (old, Some err)
      | Inr xs \<Rightarrow>
          (case map_of xs k of
             None \<Rightarrow> (old, None)
           | Some v \<Rightarrow>
               (case requires_array (quoted k) v of
                  Inl err \<Rightarrow> (old, Some err)
                | Inr js \<Rightarrow> (case read_entries k mk js of (ys, r) \<Rightarrow> (old @ ys, r)))))"

definition update_array_json :: "string \<Rightarrow> (string \<times> json) list list \<Rightarrow> (string \<times> json) list \<Rightarrow> (string \<times> json) list" where
  "update_array_json k js xs =
     (case filter (\<lambda>j. j \<noteq> []) js of
        [] \<Rightarrow> obj_erase k xs
      | js' \<Rightarrow> obj_set k (J_array (map J_object js')) xs)"

subsection \<open>A class of settings\<close>

record settings =
  se_json :: "(string \<times> json) list"
  se_values :: "config_entry list"

definition mk_settings :: "config_entry list \<Rightarrow> error_handling \<Rightarrow> json \<Rightarrow> json_error + settings" where
  "mk_settings es h j =
     and_then (requires_object ''json'' j) (\<lambda>xs.
     and_then (update_values h j es) (\<lambda>es'. Inr \<lparr>se_json = xs, se_values = es'\<rparr>))"

definition settings_to_json :: "settings \<Rightarrow> (string \<times> json) list" where
  "settings_to_json s = update_jsons (se_values s) (se_json s)"

definition set_member :: "string \<Rightarrow> config_value \<Rightarrow> settings \<Rightarrow> settings" where
  "set_member k v s = s\<lparr>se_values := set_value k v (se_values s)\<rparr>"

subsection \<open>Reading and writing\<close>

fun same_type :: "config_value \<Rightarrow> config_value \<Rightarrow> bool" where
  "same_type (Cv_bool _) (Cv_bool _) = True"
| "same_type (Cv_int _) (Cv_int _) = True"
| "same_type (Cv_double _) (Cv_double _) = True"
| "same_type (Cv_string _) (Cv_string _) = True"
| "same_type (Cv_milliseconds _) (Cv_milliseconds _) = True"
| "same_type _ _ = False"

text \<open>A value that survives being written: an \<open>int\<close>, and a string that does not end in a newline.\<close>

fun storable :: "config_value \<Rightarrow> bool" where
  "storable (Cv_int n) = int32 n"
| "storable (Cv_milliseconds n) = int32 n"
| "storable (Cv_string s) = (s = [] \<or> last s \<noteq> newline)"
| "storable _ = True"

definition entry_ok :: "config_entry \<Rightarrow> bool" where
  "entry_ok e \<longleftrightarrow> same_type (ce_value e) (ce_default e) \<and> storable (ce_value e)"

definition entries_ok :: "config_entry list \<Rightarrow> bool" where
  "entries_ok es \<longleftrightarrow> distinct (map ce_key es) \<and> (\<forall>e\<in>set es. entry_ok e)"

definition reset_entry :: "config_entry \<Rightarrow> config_entry" where
  "reset_entry e = e\<lparr>ce_value := ce_default e\<rparr>"

lemma read_write_value: "same_type v d \<Longrightarrow> storable v \<Longrightarrow> read_value k d (write_value v) = Inr v"
  by (cases v; cases d) (auto simp: unmarshal_marshal_string)

lemma read_value_type: "read_value k d j = Inr v \<Longrightarrow> same_type v d"
  by (cases d) (auto simp: and_then_Inr_iff)

lemma same_type_refl [simp]: "same_type v v"
  by (cases v) auto

lemma same_type_trans: "same_type u v \<Longrightarrow> same_type v w \<Longrightarrow> same_type u w"
  by (cases u; cases v; cases w) auto

lemma map_of_update_json:
  "map_of (update_json e xs) k =
     (if k = ce_key e then if ce_value e \<noteq> ce_default e then Some (write_value (ce_value e)) else None else map_of xs k)"
  by (simp add: update_json_def map_of_obj_set map_of_obj_erase)

lemma map_of_update_jsons_other: "k \<notin> ce_key ` set es \<Longrightarrow> map_of (update_jsons es xs) k = map_of xs k"
  by (induction es arbitrary: xs) (auto simp: map_of_update_json)

lemma map_of_update_jsons:
  "distinct (map ce_key es) \<Longrightarrow> e \<in> set es \<Longrightarrow>
   map_of (update_jsons es xs) (ce_key e) =
     (if ce_value e \<noteq> ce_default e then Some (write_value (ce_value e)) else None)"
proof (induction es arbitrary: xs)
  case (Cons a es)
  show ?case
  proof (cases "e = a")
    case True
    then have "ce_key e \<notin> ce_key ` set es" using Cons.prems(1) by (metis distinct.simps(2) list.simps(9) set_map)
    then have "map_of (update_jsons es (update_json a xs)) (ce_key e) = map_of (update_json a xs) (ce_key e)"
      by (rule map_of_update_jsons_other)
    then show ?thesis using True by (simp add: map_of_update_json)
  next
    case False
    then show ?thesis using Cons by simp
  qed
qed simp

lemma update_value_same:
  assumes "map_of xs (ce_key e) = (if ce_value e \<noteq> ce_default e then Some (write_value (ce_value e)) else None)" "entry_ok e"
  shows "update_value h (J_object xs) (reset_entry e) = Inr e"
  using assms read_write_value [of "ce_value e" "ce_default e" "ce_key e"]
  by (auto simp: update_value_def reset_entry_def entry_ok_def)

lemma update_values_map:
  "\<forall>e\<in>set es. update_value h j (reset_entry e) = Inr e \<Longrightarrow> update_values h j (map reset_entry es) = Inr es"
  by (induction es) auto

text \<open>Writing and reading back gives the same members.\<close>

lemma read_back_values:
  assumes "entries_ok es"
  shows "update_values h (J_object (update_jsons es xs)) (map reset_entry es) = Inr es"
proof (rule update_values_map, rule ballI)
  fix e assume "e \<in> set es"
  then show "update_value h (J_object (update_jsons es xs)) (reset_entry e) = Inr e"
    using assms map_of_update_jsons [of es e xs] by (intro update_value_same) (auto simp: entries_ok_def)
qed

text \<open>What reading keeps.\<close>

definition same_shape :: "config_entry \<Rightarrow> config_entry \<Rightarrow> bool" where
  "same_shape e d \<longleftrightarrow> ce_key e = ce_key d \<and> ce_default e = ce_default d \<and> same_type (ce_value e) (ce_value d)"

lemma same_shape_refl [simp]: "same_shape e e"
  by (simp add: same_shape_def)

lemma update_value_shape:
  assumes "update_value h j e = Inr e'"
  shows "same_shape e' e"
proof -
  obtain xs where "requires_object ''json'' j = Inr xs" using assms by (auto simp: update_value_def and_then_Inr_iff)
  note read = assms [unfolded update_value_def this and_then_simps]
  show ?thesis
  proof (cases "map_of xs (ce_key e)")
    case None
    then show ?thesis using read by simp
  next
    case (Some v)
    then show ?thesis using read
      by (cases "read_value (ce_key e) (ce_value e) v") (auto simp: same_shape_def dest: read_value_type split: if_splits)
  qed
qed

lemma update_values_shape: "update_values h j es = Inr es' \<Longrightarrow> list_all2 same_shape es' es"
  by (induction es arbitrary: es') (auto simp: and_then_Inr_iff intro: update_value_shape)

lemma shape_keys: "list_all2 same_shape es' es \<Longrightarrow> map ce_key es' = map ce_key es"
  by (induction rule: list_all2_induct) (auto simp: same_shape_def)

lemma shape_reset:
  "list_all2 same_shape es' es \<Longrightarrow> map reset_entry es = es \<Longrightarrow> map reset_entry es' = es"
proof (induction rule: list_all2_induct)
  case (Cons e' es' e es)
  then have "reset_entry e' = reset_entry e" by (cases e'; cases e; simp add: same_shape_def reset_entry_def)
  then show ?case using Cons by simp
qed simp


lemma set_value_keys [simp]: "map ce_key (set_value k v es) = map ce_key es"
  by (simp add: set_value_def change_entry_def)

lemma value_of_set_value:
  "value_of k' (set_value k v es) = (if k' = k \<and> k \<in> ce_key ` set es then v else value_of k' es)"
  by (induction es) (auto simp: value_of_def find_value_def set_value_def change_entry_def)

text \<open>A class of settings reads back what it wrote, whatever else the JSON object held.\<close>

lemma settings_read_back:
  assumes "entries_ok (se_values s)"
  shows "\<exists>s'. mk_settings (map reset_entry (se_values s)) h (J_object (settings_to_json s)) = Inr s' \<and> se_values s' = se_values s"
  using read_back_values [OF assms] by (simp add: mk_settings_def settings_to_json_def)

lemma nothing_written:
  assumes "entries_ok es" "update_jsons es xs = []"
  shows "map reset_entry es = es"
proof (rule map_idI)
  fix e assume "e \<in> set es"
  then have "ce_value e = ce_default e"
    using map_of_update_jsons [of es e xs] assms by (auto simp: entries_ok_def split: if_splits)
  then show "reset_entry e = e" by (cases e) (simp add: reset_entry_def)
qed

text \<open>Settings that were read from JSON, with a string that ends in a newline or without.\<close>

lemma read_entry_ok:
  assumes "update_value h j e = Inr e'" "entry_ok e"
  shows "same_type (ce_value e') (ce_default e') \<and> (\<forall>n. ce_value e' = Cv_int n \<or> ce_value e' = Cv_milliseconds n \<longrightarrow> int32 n)"
proof -
  obtain xs where "requires_object ''json'' j = Inr xs" using assms by (auto simp: update_value_def and_then_Inr_iff)
  note read = assms(1) [unfolded update_value_def this and_then_simps]
  have shape: "same_type (ce_value e') (ce_default e')"
    using update_value_shape [OF assms(1)] assms(2) same_type_trans by (auto simp: same_shape_def entry_ok_def)
  show ?thesis
  proof (cases "e' = e")
    case True
    then show ?thesis using assms(2) shape by (auto simp: entry_ok_def)
  next
    case False
    then obtain v where "map_of xs (ce_key e) = Some v" "read_value (ce_key e) (ce_value e) v = Inr (ce_value e')"
      using read by (auto split: option.splits sum.splits if_splits)
    then show ?thesis using shape by (cases "ce_value e") (auto simp: and_then_Inr_iff get_int32_range)
  qed
qed

subsection \<open>The interface of a configuration class\<close>

text \<open>
  What \<open>object_t\<close> and \<open>array_t\<close> rely on: a class is made from the JSON it wrote with the same
  members, and a class that writes nothing has the members of a fresh one.
\<close>

locale config_class =
  fixes mk :: "error_handling \<Rightarrow> json \<Rightarrow> json_error + 'a"
    and to_json :: "'a \<Rightarrow> (string \<times> json) list"
    and members :: "'a \<Rightarrow> 'm"
    and ok :: "'a \<Rightarrow> bool"
  assumes read_back: "ok x \<Longrightarrow> \<exists>y. mk h (J_object (to_json x)) = Inr y \<and> members y = members x"
    and fresh: "\<exists>y. mk h (J_object []) = Inr y"
    and writes_nothing: "ok x \<Longrightarrow> to_json x = [] \<Longrightarrow> mk h (J_object []) = Inr y \<Longrightarrow> members y = members x"
begin

lemma object_read_back:
  assumes "ok x" "mk h' (J_object []) = Inr d" "map_of xs k = (if to_json x \<noteq> [] then Some (J_object (to_json x)) else None)"
  shows "\<exists>y. update_object_value k (mk h) (J_object xs) d = Inr y \<and> members y = members x"
proof (cases "map_of xs k")
  case None
  then have "to_json x = []" using assms(3) by (simp split: if_splits)
  then have "members d = members x" using writes_nothing [of x h' d] assms(1,2) by blast
  then show ?thesis using None by (simp add: update_object_value_def)
next
  case (Some v)
  then show ?thesis using read_back [OF assms(1), of h] assms(3) by (auto simp: update_object_value_def wrap_error_def split: if_splits)
qed

lemma map_of_update_object_json:
  "map_of (update_object_json k (to_json x) xs) k' =
     (if k' = k then if to_json x \<noteq> [] then Some (J_object (to_json x)) else None else map_of xs k')"
  by (simp add: update_object_json_def map_of_obj_set map_of_obj_erase)

lemma entries_read_back:
  "\<forall>x\<in>set as. ok x \<Longrightarrow>
   \<exists>ys. read_entries k (mk h) (map (\<lambda>x. J_object (to_json x)) as) = (ys, None) \<and> map members ys = map members as"
proof (induction as)
  case (Cons x as)
  then obtain y ys where "mk h (J_object (to_json x)) = Inr y" "members y = members x"
    "read_entries k (mk h) (map (\<lambda>x. J_object (to_json x)) as) = (ys, None)" "map members ys = map members as"
    using read_back [of x h] by auto
  then show ?case by (simp add: wrap_error_def)
qed simp

text \<open>An array loses the elements that write nothing, and no others.\<close>

lemma array_read_back:
  assumes "\<forall>x\<in>set as. ok x" "map_of xs k = map_of (update_array_json k (map to_json as) zs) k"
  shows "\<exists>ys. update_array_value k (mk h) (J_object xs) [] = (ys, None) \<and>
    map members ys = map members (filter (\<lambda>x. to_json x \<noteq> []) as)"
proof (cases "filter (\<lambda>x. to_json x \<noteq> []) as")
  case Nil
  then have "filter (\<lambda>j. j \<noteq> []) (map to_json as) = []" by (simp add: filter_map comp_def)
  then have "map_of xs k = None" using assms(2) by (simp add: update_array_json_def map_of_obj_erase)
  then show ?thesis using Nil by (simp add: update_array_value_def)
next
  case (Cons a bs)
  have kept: "filter (\<lambda>j. j \<noteq> []) (map to_json as) = map to_json (a # bs)"
    using Cons by (simp add: filter_map comp_def)
  then have "map_of xs k = Some (J_array (map (\<lambda>x. J_object (to_json x)) (a # bs)))"
    using assms(2) by (simp add: update_array_json_def map_of_obj_set)
  moreover have "\<forall>x\<in>set (a # bs). ok x" unfolding Cons [symmetric] using assms(1) by simp
  then obtain ys where "read_entries k (mk h) (map (\<lambda>x. J_object (to_json x)) (a # bs)) = (ys, None)"
    "map members ys = map members (a # bs)" using entries_read_back by blast
  ultimately show ?thesis using Cons by (simp add: update_array_value_def del: list.map)
qed

end

subsection \<open>Members under their keys\<close>

lemma find_value_key: "distinct (map ce_key es) \<Longrightarrow> e \<in> set es \<Longrightarrow> find_value (ce_key e) es = Some e"
  by (induction es) (auto simp: find_value_def)

lemma value_of_key: "distinct (map ce_key es) \<Longrightarrow> e \<in> set es \<Longrightarrow> value_of (ce_key e) es = ce_value e"
  by (simp add: value_of_def find_value_key)

lemma set_value_id:
  assumes "distinct (map ce_key es)" "value_of k es = v"
  shows "set_value k v es = es"
  unfolding set_value_def change_entry_def
proof (rule map_idI)
  fix e assume "e \<in> set es"
  then show "(if ce_key e = k then e\<lparr>ce_value := v\<rparr> else e) = e"
    using value_of_key [OF assms(1)] assms(2) by (cases e) auto
qed

lemma find_value_SomeD: "find_value k es = Some e \<Longrightarrow> e \<in> set es \<and> ce_key e = k"
  by (auto simp: find_value_def find_Some_iff)

lemma find_value_exists: "k \<in> ce_key ` set es \<Longrightarrow> \<exists>e. find_value k es = Some e"
  by (induction es) (auto simp: find_value_def)

text \<open>The type of a member is the type of its default value.\<close>

lemma value_of_typed:
  assumes "\<forall>e\<in>set es. same_type (ce_value e) (ce_default e)" "find_value k (map reset_entry es) = Some d"
  shows "same_type (value_of k es) (ce_value d)"
proof -
  have "find_value k (map reset_entry es) = map_option reset_entry (find_value k es)"
    by (induction es) (auto simp: find_value_def reset_entry_def)
  then obtain e where "find_value k es = Some e" "d = reset_entry e" using assms(2) by (cases "find_value k es") auto
  then show ?thesis using assms(1) find_value_SomeD [of k es e] by (auto simp: value_of_def reset_entry_def)
qed

lemma update_values_append:
  "update_values h j (as @ bs) = and_then (update_values h j as) (\<lambda>as'. and_then (update_values h j bs) (\<lambda>bs'. Inr (as' @ bs')))"
  by (induction as) (auto simp: and_then_def split: sum.splits)

end
