(* ===== verification/ConfigSections.thy ===== *)
theory ConfigSections
  imports Settings Runs Devices
begin

text \<open>
  The small classes of the configuration: the parameters of complex modifications, the settings of
  the virtual keyboard, the parameters of a profile, the colours of the notification window, the global
  configuration and the settings of each machine (\<open>src/share/core_configuration/details\<close>).
\<close>

subsection \<open>Parameters of complex modifications (\<open>complex_modifications_parameters.hpp\<close>)\<close>

datatype cm_parameter =
    Simultaneous_threshold
  | To_if_alone_timeout
  | To_if_held_down_threshold
  | To_delayed_action_delay
  | Scroll_speed

fun cm_key :: "cm_parameter \<Rightarrow> string" where
  "cm_key Simultaneous_threshold = ''basic.simultaneous_threshold_milliseconds''"
| "cm_key To_if_alone_timeout = ''basic.to_if_alone_timeout_milliseconds''"
| "cm_key To_if_held_down_threshold = ''basic.to_if_held_down_threshold_milliseconds''"
| "cm_key To_delayed_action_delay = ''basic.to_delayed_action_delay_milliseconds''"
| "cm_key Scroll_speed = ''mouse_motion_to_scroll.speed''"

definition cm_parameter_entries :: "config_entry list" where
  "cm_parameter_entries =
     [mk_entry_of (cm_key Simultaneous_threshold) (Cv_int 50),
      mk_entry_of (cm_key To_if_alone_timeout) (Cv_int 1000),
      mk_entry_of (cm_key To_if_held_down_threshold) (Cv_int 500),
      mk_entry_of (cm_key To_delayed_action_delay) (Cv_int 500),
      mk_entry_of (cm_key Scroll_speed) (Cv_int 100)]"

definition clamp_int :: "int option \<Rightarrow> int option \<Rightarrow> int \<Rightarrow> int" where
  "clamp_int lo hi n =
     (let n = (case lo of Some l \<Rightarrow> max n l | None \<Rightarrow> n)
      in (case hi of Some u \<Rightarrow> min n u | None \<Rightarrow> n))"

fun clamp_value :: "int option \<Rightarrow> int option \<Rightarrow> config_value \<Rightarrow> config_value" where
  "clamp_value lo hi (Cv_int n) = Cv_int (clamp_int lo hi n)"
| "clamp_value lo hi v = v"

definition adjust_value :: "cm_parameter \<Rightarrow> int option \<Rightarrow> int option \<Rightarrow> config_entry list \<Rightarrow> config_entry list" where
  "adjust_value p lo hi es = change_entry (cm_key p) (\<lambda>e. e\<lparr>ce_value := clamp_value lo hi (ce_value e)\<rparr>) es"

definition adjust_values :: "settings \<Rightarrow> settings" where
  "adjust_values s = s\<lparr>se_values :=
     adjust_value Scroll_speed (Some 1) (Some 10000)
     (adjust_value To_delayed_action_delay (Some 0) None
     (adjust_value To_if_held_down_threshold (Some 0) None
     (adjust_value To_if_alone_timeout (Some 0) None
     (adjust_value Simultaneous_threshold (Some 0) (Some 1000) (se_values s)))))\<rparr>"

definition mk_cm_parameters :: "error_handling \<Rightarrow> json \<Rightarrow> json_error + settings" where
  "mk_cm_parameters h j = and_then (mk_settings cm_parameter_entries h j) (\<lambda>s. Inr (adjust_values s))"

text \<open>
  What an update assigned before it throws is not kept: its only caller, the constructor of a manipulator of
  a rule, gives the object up.
\<close>

definition update_cm_parameters :: "error_handling \<Rightarrow> json \<Rightarrow> settings \<Rightarrow> json_error + settings" where
  "update_cm_parameters h j s =
     and_then (requires_object ''json'' j) (\<lambda>_.
     and_then (update_values h j (se_values s)) (\<lambda>es. Inr (adjust_values (s\<lparr>se_values := es\<rparr>))))"

definition set_cm_parameter :: "cm_parameter \<Rightarrow> int \<Rightarrow> settings \<Rightarrow> settings" where
  "set_cm_parameter p n s = adjust_values (set_member (cm_key p) (Cv_int n) s)"

definition get_cm_parameter :: "cm_parameter \<Rightarrow> settings \<Rightarrow> int" where
  "get_cm_parameter p s = int_of_value (cm_key p) (se_values s)"

definition make_mouse_motion_to_scroll_speed_rate :: "settings \<Rightarrow> rat" where
  "make_mouse_motion_to_scroll_speed_rate s = of_int (get_cm_parameter Scroll_speed s) / 100"

subsection \<open>The virtual keyboard (\<open>virtual_hid_keyboard.hpp\<close>)\<close>

definition virtual_hid_keyboard_entries :: "config_entry list" where
  "virtual_hid_keyboard_entries =
     [mk_entry_of ''keyboard_type_v2'' (Cv_string []),
      mk_entry_of ''mouse_key_xy_scale'' (Cv_int 100),
      mk_entry_of ''indicate_sticky_modifier_keys_state'' (Cv_bool True)]"

definition mk_virtual_hid_keyboard :: "error_handling \<Rightarrow> json \<Rightarrow> json_error + settings" where
  "mk_virtual_hid_keyboard h j = mk_settings virtual_hid_keyboard_entries h j"

definition set_keyboard_type_v2 :: "string \<Rightarrow> settings \<Rightarrow> settings" where
  "set_keyboard_type_v2 v s = set_member ''keyboard_type_v2'' (Cv_string v) s"

datatype iokit_keyboard_type = Ansi | Iso | Jis

definition get_iokit_keyboard_type :: "settings \<Rightarrow> iokit_keyboard_type" where
  "get_iokit_keyboard_type s =
     (let t = string_of_value ''keyboard_type_v2'' (se_values s)
      in if t = ''iso'' then Iso else if t = ''jis'' then Jis else Ansi)"

definition get_mouse_key_xy_scale :: "settings \<Rightarrow> int" where
  "get_mouse_key_xy_scale s = int_of_value ''mouse_key_xy_scale'' (se_values s)"

definition set_mouse_key_xy_scale :: "int \<Rightarrow> settings \<Rightarrow> settings" where
  "set_mouse_key_xy_scale n s = set_member ''mouse_key_xy_scale'' (Cv_int (if n < 0 then 0 else n)) s"

definition set_indicate_sticky_modifier_keys_state :: "bool \<Rightarrow> settings \<Rightarrow> settings" where
  "set_indicate_sticky_modifier_keys_state b s = set_member ''indicate_sticky_modifier_keys_state'' (Cv_bool b) s"

definition same_virtual_hid_keyboard :: "settings \<Rightarrow> settings \<Rightarrow> bool" where
  "same_virtual_hid_keyboard a b \<longleftrightarrow>
     value_of ''keyboard_type_v2'' (se_values a) = value_of ''keyboard_type_v2'' (se_values b) \<and>
     value_of ''mouse_key_xy_scale'' (se_values a) = value_of ''mouse_key_xy_scale'' (se_values b) \<and>
     value_of ''indicate_sticky_modifier_keys_state'' (se_values a) = value_of ''indicate_sticky_modifier_keys_state'' (se_values b)"

subsection \<open>Parameters of a profile (\<open>parameters.hpp\<close>)\<close>

definition parameter_entries :: "config_entry list" where
  "parameter_entries = [mk_entry_of ''delay_milliseconds_before_open_device'' (Cv_milliseconds 1000)]"

definition mk_parameters :: "error_handling \<Rightarrow> json \<Rightarrow> json_error + settings" where
  "mk_parameters h j = mk_settings parameter_entries h j"

definition set_delay_milliseconds_before_open_device :: "milliseconds \<Rightarrow> settings \<Rightarrow> settings" where
  "set_delay_milliseconds_before_open_device n s = set_member ''delay_milliseconds_before_open_device'' (Cv_milliseconds n) s"

subsection \<open>Colours of the notification window (\<open>notification_window_colors.hpp\<close>)\<close>

definition isxdigit :: "char \<Rightarrow> bool" where
  "isxdigit c \<longleftrightarrow> (let n = of_char c :: nat in (48 \<le> n \<and> n \<le> 57) \<or> (65 \<le> n \<and> n \<le> 70) \<or> (97 \<le> n \<and> n \<le> 102))"

definition tolower :: "char \<Rightarrow> char" where
  "tolower c = (let n = of_char c :: nat in if 65 \<le> n \<and> n \<le> 90 then char_of (n + 32) else c)"

definition valid_color :: "string \<Rightarrow> bool" where
  "valid_color v \<longleftrightarrow>
     (if v = ''system'' then True
      else if length v \<noteq> 9 \<or> v ! 0 \<noteq> CHR ''#'' then False
      else (\<forall>c\<in>set (drop 1 v). isxdigit c))"

definition normalize_color :: "string \<Rightarrow> string" where
  "normalize_color v =
     (if \<not> valid_color v \<or> v = ''system'' then ''system'' else take 1 v @ map tolower (drop 1 v))"

definition theme_entries :: "config_entry list" where
  "theme_entries = [mk_entry_of ''background_color'' (Cv_string ''system''), mk_entry_of ''text_color'' (Cv_string ''system'')]"

definition set_background_color :: "string \<Rightarrow> settings \<Rightarrow> settings" where
  "set_background_color v s = set_member ''background_color'' (Cv_string (normalize_color v)) s"

definition set_text_color :: "string \<Rightarrow> settings \<Rightarrow> settings" where
  "set_text_color v s = set_member ''text_color'' (Cv_string (normalize_color v)) s"

definition mk_theme :: "error_handling \<Rightarrow> json \<Rightarrow> json_error + settings" where
  "mk_theme h j =
     and_then (mk_settings theme_entries h j) (\<lambda>s.
       let s = set_background_color (string_of_value ''background_color'' (se_values s)) s
       in Inr (set_text_color (string_of_value ''text_color'' (se_values s)) s))"

record notification_window_colors =
  nc_json :: "(string \<times> json) list"
  nc_light :: settings
  nc_dark :: settings

definition mk_colors :: "error_handling \<Rightarrow> json \<Rightarrow> json_error + notification_window_colors" where
  "mk_colors h j =
     and_then (mk_theme h (J_object [])) (\<lambda>light.
     and_then (mk_theme h (J_object [])) (\<lambda>dark.
     and_then (requires_object ''json'' j) (\<lambda>xs.
     and_then (update_object_value ''light'' (mk_theme h) j light) (\<lambda>light.
     and_then (update_object_value ''dark'' (mk_theme h) j dark) (\<lambda>dark.
     Inr \<lparr>nc_json = xs, nc_light = light, nc_dark = dark\<rparr>)))))"

definition colors_to_json :: "notification_window_colors \<Rightarrow> (string \<times> json) list" where
  "colors_to_json c =
     update_object_json ''dark'' (settings_to_json (nc_dark c))
     (update_object_json ''light'' (settings_to_json (nc_light c)) (nc_json c))"

subsection \<open>The global configuration (\<open>global_configuration.hpp\<close>)\<close>

text \<open>The members before and after the window colours, in the order they are registered.\<close>

definition global_entries_before :: "config_entry list" where
  "global_entries_before =
     [mk_entry_of ''check_for_updates'' (Cv_bool True),
      mk_entry_of ''show_in_menu_bar'' (Cv_bool True),
      mk_entry_of ''show_profile_name_in_menu_bar'' (Cv_bool False),
      mk_entry_of ''show_additional_menu_items'' (Cv_bool False),
      mk_entry_of ''enable_notification_window'' (Cv_bool True),
      mk_entry_of ''notification_window_position'' (Cv_string ''bottom_right''),
      mk_entry_of ''notification_window_respect_screen_visible_frame'' (Cv_bool True),
      mk_entry_of ''notification_window_show_icon'' (Cv_bool True),
      mk_entry_of ''notification_window_font_size'' (Cv_int 13)]"

definition global_entries_after :: "config_entry list" where
  "global_entries_after =
     [mk_entry_of ''unsafe_ui'' (Cv_bool False),
      mk_entry_of ''filter_useless_events_from_specific_devices'' (Cv_bool True),
      mk_entry_of ''reorder_same_timestamp_input_events_to_prioritize_modifiers'' (Cv_bool True),
      mk_entry_of ''enable_cgeventtap_fallback'' (Cv_bool False),
      mk_entry_of ''delay_milliseconds_before_sleep_shortcut'' (Cv_int 500)]"

record global_configuration =
  gc_json :: "(string \<times> json) list"
  gc_values :: "config_entry list"
  gc_colors :: notification_window_colors

definition set_global :: "string \<Rightarrow> config_value \<Rightarrow> global_configuration \<Rightarrow> global_configuration" where
  "set_global k v g = g\<lparr>gc_values := set_value k v (gc_values g)\<rparr>"

definition set_notification_window_position :: "string \<Rightarrow> global_configuration \<Rightarrow> global_configuration" where
  "set_notification_window_position v g =
     set_global ''notification_window_position''
       (Cv_string (if v = ''top_left'' \<or> v = ''top_right'' \<or> v = ''bottom_left'' \<or> v = ''bottom_right'' then v else ''bottom_right'')) g"

definition set_notification_window_font_size :: "int \<Rightarrow> global_configuration \<Rightarrow> global_configuration" where
  "set_notification_window_font_size n g =
     set_global ''notification_window_font_size'' (Cv_int (clamp_int (Some 8) (Some 64) n)) g"

definition set_delay_milliseconds_before_sleep_shortcut :: "int \<Rightarrow> global_configuration \<Rightarrow> global_configuration" where
  "set_delay_milliseconds_before_sleep_shortcut n g =
     set_global ''delay_milliseconds_before_sleep_shortcut'' (Cv_int (clamp_int (Some 0) (Some 10000) n)) g"

text \<open>The old name of a setting is taken over, and two names that are gone are erased.\<close>

definition migrate_global_json :: "(string \<times> json) list \<Rightarrow> (string \<times> json) list" where
  "migrate_global_json xs =
     obj_erase ''ask_for_confirmation_before_quitting''
     (obj_erase ''check_for_updates_on_startup''
     (case (map_of xs ''check_for_updates'', map_of xs ''check_for_updates_on_startup'') of
        (None, Some v) \<Rightarrow> obj_set ''check_for_updates'' v xs
      | _ \<Rightarrow> xs))"

definition adjust_global :: "global_configuration \<Rightarrow> global_configuration" where
  "adjust_global g =
     (let g = set_notification_window_position (string_of_value ''notification_window_position'' (gc_values g)) g;
          g = set_notification_window_font_size (int_of_value ''notification_window_font_size'' (gc_values g)) g
      in set_delay_milliseconds_before_sleep_shortcut (int_of_value ''delay_milliseconds_before_sleep_shortcut'' (gc_values g)) g)"

definition mk_global_configuration :: "error_handling \<Rightarrow> json \<Rightarrow> json_error + global_configuration" where
  "mk_global_configuration h j =
     and_then (mk_colors h (J_object [])) (\<lambda>colors.
     and_then (requires_object ''json'' j) (\<lambda>xs.
     let xs = migrate_global_json xs; j = J_object xs in
     and_then (update_values h j global_entries_before) (\<lambda>before.
     and_then (update_object_value ''notification_window_colors'' (mk_colors h) j colors) (\<lambda>colors.
     and_then (update_values h j global_entries_after) (\<lambda>after.
     Inr (adjust_global \<lparr>gc_json = xs, gc_values = before @ after, gc_colors = colors\<rparr>))))))"

text \<open>The members have different keys, so the order they are written in makes no difference.\<close>

definition global_to_json :: "global_configuration \<Rightarrow> (string \<times> json) list" where
  "global_to_json g =
     update_object_json ''notification_window_colors'' (colors_to_json (gc_colors g)) (update_jsons (gc_values g) (gc_json g))"

subsection \<open>Settings of each machine (\<open>machine_specific.hpp\<close>)\<close>

definition machine_entries :: "config_entry list" where
  "machine_entries =
     [mk_entry_of ''enable_multitouch_extension'' (Cv_bool False),
      mk_entry_of ''external_editor_path'' (Cv_string ''/System/Applications/TextEdit.app'')]"

definition mk_machine_entry :: "error_handling \<Rightarrow> json \<Rightarrow> json_error + settings" where
  "mk_machine_entry h j = mk_settings machine_entries h j"

definition set_enable_multitouch_extension :: "bool \<Rightarrow> settings \<Rightarrow> settings" where
  "set_enable_multitouch_extension b s = set_member ''enable_multitouch_extension'' (Cv_bool b) s"

definition set_external_editor_path :: "string \<Rightarrow> settings \<Rightarrow> settings" where
  "set_external_editor_path v s = set_member ''external_editor_path'' (Cv_string v) s"

record machine_specific =
  ms_json :: "(string \<times> json) list"
  ms_error_handling :: error_handling
  ms_entries :: "(string \<times> settings) list"

fun is_object :: "json \<Rightarrow> bool" where
  "is_object (J_object _) = True"
| "is_object _ = False"

fun read_machine_entries :: "error_handling \<Rightarrow> (string \<times> json) list \<Rightarrow> json_error + (string \<times> settings) list" where
  "read_machine_entries h [] = Inr []"
| "read_machine_entries h ((k, v) # xs) =
     (if is_object v then
        and_then (mk_machine_entry h v) (\<lambda>e. and_then (read_machine_entries h xs) (\<lambda>es. Inr ((k, e) # es)))
      else read_machine_entries h xs)"

definition mk_machine_specific :: "error_handling \<Rightarrow> json \<Rightarrow> json_error + machine_specific" where
  "mk_machine_specific h j =
     and_then (requires_object ''json'' j) (\<lambda>xs.
     and_then (read_machine_entries h xs) (\<lambda>es.
     Inr \<lparr>ms_json = xs, ms_error_handling = h, ms_entries = es\<rparr>))"

definition machine_specific_to_json :: "machine_specific \<Rightarrow> (string \<times> json) list" where
  "machine_specific_to_json m =
     foldl (\<lambda>xs (k, e). update_object_json k (settings_to_json e) xs) (ms_json m) (ms_entries m)"

text \<open>The entry of a machine, made when it is first asked for.\<close>

definition fresh_machine_entry :: settings where
  "fresh_machine_entry = \<lparr>se_json = [], se_values = machine_entries\<rparr>"

definition get_machine_entry :: "string \<Rightarrow> machine_specific \<Rightarrow> settings \<times> machine_specific" where
  "get_machine_entry k m =
     (case map_of (ms_entries m) k of
        Some e \<Rightarrow> (e, m)
      | None \<Rightarrow> (fresh_machine_entry, m\<lparr>ms_entries := ms_entries m @ [(k, fresh_machine_entry)]\<rparr>))"

definition change_machine_entry :: "string \<Rightarrow> (settings \<Rightarrow> settings) \<Rightarrow> machine_specific \<Rightarrow> machine_specific" where
  "change_machine_entry k f m =
     (let m = snd (get_machine_entry k m)
      in m\<lparr>ms_entries := map (\<lambda>(k', e). (k', if k' = k then f e else e)) (ms_entries m)\<rparr>)"

lemma fresh_machine_entry_made: "mk_machine_entry h (J_object []) = Inr fresh_machine_entry"
  by (simp add: mk_machine_entry_def mk_settings_def machine_entries_def update_value_def fresh_machine_entry_def)

subsection \<open>Templates\<close>

lemmas template_defs = cm_parameter_entries_def virtual_hid_keyboard_entries_def parameter_entries_def theme_entries_def
  global_entries_before_def global_entries_after_def machine_entries_def mk_entry_of_def

definition template :: "config_entry list \<Rightarrow> bool" where
  "template es \<longleftrightarrow> entries_ok es \<and> map reset_entry es = es"

lemma templates [simp]:
  "template cm_parameter_entries" "template virtual_hid_keyboard_entries" "template parameter_entries"
  "template theme_entries" "template machine_entries" "template (global_entries_before @ global_entries_after)"
  by (simp_all add: template_def template_defs entries_ok_def entry_ok_def reset_entry_def int32_def newline_def)

definition storable_settings :: "config_entry list \<Rightarrow> config_entry list \<Rightarrow> bool" where
  "storable_settings t es \<longleftrightarrow> entries_ok es \<and> map reset_entry es = t"

lemma storable_template: "template t \<Longrightarrow> storable_settings t t"
  by (simp add: template_def storable_settings_def)

lemma update_values_absent: "\<forall>e\<in>set es. map_of xs (ce_key e) = None \<Longrightarrow> update_values h (J_object xs) es = Inr es"
  by (induction es) (auto simp: update_value_def)

lemma mk_settings_nothing: "mk_settings t h (J_object []) = Inr \<lparr>se_json = [], se_values = t\<rparr>"
  by (simp add: mk_settings_def update_values_absent)

lemma mk_settings_read_back:
  "storable_settings t (se_values s) \<Longrightarrow> \<exists>s'. mk_settings t h (J_object (settings_to_json s)) = Inr s' \<and> se_values s' = se_values s"
  using settings_read_back [of s h] by (simp add: storable_settings_def)

lemma settings_written_nothing:
  "storable_settings t (se_values s) \<Longrightarrow> settings_to_json s = [] \<Longrightarrow> se_values s = t"
  using nothing_written [of "se_values s" "se_json s"] nothing_written [of "se_values s" "se_json s"]
  by (auto simp: storable_settings_def settings_to_json_def dest: nothing_written)

subsection \<open>The parameters stay within their bounds\<close>

fun cm_min :: "cm_parameter \<Rightarrow> int" where
  "cm_min Scroll_speed = 1"
| "cm_min _ = 0"

fun cm_max :: "cm_parameter \<Rightarrow> int option" where
  "cm_max Simultaneous_threshold = Some 1000"
| "cm_max Scroll_speed = Some 10000"
| "cm_max _ = None"

definition cm_in_range :: "settings \<Rightarrow> bool" where
  "cm_in_range s \<longleftrightarrow> (\<forall>p. cm_min p \<le> get_cm_parameter p s \<and> (case cm_max p of Some u \<Rightarrow> get_cm_parameter p s \<le> u | None \<Rightarrow> True))"

definition cm_shape :: "settings \<Rightarrow> bool" where
  "cm_shape s \<longleftrightarrow> (\<exists>a b c d e. se_values s =
     [\<lparr>ce_key = cm_key Simultaneous_threshold, ce_value = Cv_int a, ce_default = Cv_int 50\<rparr>,
      \<lparr>ce_key = cm_key To_if_alone_timeout, ce_value = Cv_int b, ce_default = Cv_int 1000\<rparr>,
      \<lparr>ce_key = cm_key To_if_held_down_threshold, ce_value = Cv_int c, ce_default = Cv_int 500\<rparr>,
      \<lparr>ce_key = cm_key To_delayed_action_delay, ce_value = Cv_int d, ce_default = Cv_int 500\<rparr>,
      \<lparr>ce_key = cm_key Scroll_speed, ce_value = Cv_int e, ce_default = Cv_int 100\<rparr>])"

lemma all_cm_parameters:
  "(\<forall>p. P p) \<longleftrightarrow> P Simultaneous_threshold \<and> P To_if_alone_timeout \<and> P To_if_held_down_threshold \<and>
     P To_delayed_action_delay \<and> P Scroll_speed"
  by (metis cm_parameter.exhaust)

lemma same_type_int: "same_type v (Cv_int n) \<Longrightarrow> \<exists>m. v = Cv_int m"
  by (cases v) auto

lemma int_shape:
  "list_all2 same_shape es (\<lparr>ce_key = k, ce_value = Cv_int m, ce_default = Cv_int n\<rparr> # ds) \<longleftrightarrow>
   (\<exists>x es'. es = \<lparr>ce_key = k, ce_value = Cv_int x, ce_default = Cv_int n\<rparr> # es' \<and> list_all2 same_shape es' ds)"
  (is "?l \<longleftrightarrow> ?r")
proof
  assume ?l
  then obtain e es' where e: "es = e # es'" "same_shape e \<lparr>ce_key = k, ce_value = Cv_int m, ce_default = Cv_int n\<rparr>"
    "list_all2 same_shape es' ds" by (auto simp: list_all2_Cons2)
  moreover from e(2) obtain x where "ce_value e = Cv_int x" using same_type_int by (auto simp: same_shape_def)
  ultimately show ?r by (cases e) (auto simp: same_shape_def)
qed (auto simp: same_shape_def)

lemma cm_shape_kept:
  assumes "cm_shape s" "list_all2 same_shape es (se_values s)"
  shows "cm_shape (s\<lparr>se_values := es\<rparr>)"
proof -
  obtain a b c d e where "se_values s =
     [\<lparr>ce_key = cm_key Simultaneous_threshold, ce_value = Cv_int a, ce_default = Cv_int 50\<rparr>,
      \<lparr>ce_key = cm_key To_if_alone_timeout, ce_value = Cv_int b, ce_default = Cv_int 1000\<rparr>,
      \<lparr>ce_key = cm_key To_if_held_down_threshold, ce_value = Cv_int c, ce_default = Cv_int 500\<rparr>,
      \<lparr>ce_key = cm_key To_delayed_action_delay, ce_value = Cv_int d, ce_default = Cv_int 500\<rparr>,
      \<lparr>ce_key = cm_key Scroll_speed, ce_value = Cv_int e, ce_default = Cv_int 100\<rparr>]"
    using assms(1) by (auto simp: cm_shape_def)
  then show ?thesis using assms(2) unfolding cm_shape_def by (auto simp: int_shape simp del: cm_key.simps)
qed

lemma cm_shape_template: "se_values s = cm_parameter_entries \<Longrightarrow> cm_shape s"
  by (simp add: cm_shape_def cm_parameter_entries_def mk_entry_of_def)

lemma get_cm_parameter_adjust:
  "cm_shape s \<Longrightarrow> get_cm_parameter p (adjust_values s) = clamp_int (Some (cm_min p)) (cm_max p) (get_cm_parameter p s)"
  by (cases p) (auto simp: cm_shape_def adjust_values_def adjust_value_def change_entry_def get_cm_parameter_def
      int_of_value_def value_of_def find_value_def)

lemma cm_shape_adjust: "cm_shape s \<Longrightarrow> cm_shape (adjust_values s)"
  by (auto simp: cm_shape_def adjust_values_def adjust_value_def change_entry_def)

lemma clamp_int_range: "\<forall>u. hi = Some u \<longrightarrow> l \<le> u \<Longrightarrow> l \<le> clamp_int (Some l) hi n \<and> (case hi of Some u \<Rightarrow> clamp_int (Some l) hi n \<le> u | None \<Rightarrow> True)"
  by (auto simp: clamp_int_def split: option.split)

lemma adjusted_in_range: "cm_shape s \<Longrightarrow> cm_in_range (adjust_values s)"
  unfolding cm_in_range_def
proof
  fix p assume s: "cm_shape s"
  have "\<forall>u. cm_max p = Some u \<longrightarrow> cm_min p \<le> u" by (cases p) auto
  then show "cm_min p \<le> get_cm_parameter p (adjust_values s) \<and>
      (case cm_max p of Some u \<Rightarrow> get_cm_parameter p (adjust_values s) \<le> u | None \<Rightarrow> True)"
    unfolding get_cm_parameter_adjust [OF s] by (rule clamp_int_range)
qed

lemma adjust_in_range: "cm_shape s \<Longrightarrow> cm_in_range s \<Longrightarrow> adjust_values s = s"
  by (cases s) (auto simp: cm_shape_def cm_in_range_def all_cm_parameters adjust_values_def adjust_value_def change_entry_def
      get_cm_parameter_def int_of_value_def value_of_def find_value_def clamp_int_def)

datatype cm_op = Cm_update error_handling json | Cm_set cm_parameter int

fun cm_step :: "cm_op \<Rightarrow> settings \<Rightarrow> json_error + settings" where
  "cm_step (Cm_update h j) s = update_cm_parameters h j s"
| "cm_step (Cm_set p n) s = Inr (set_cm_parameter p n s)"

definition cm_inv :: "settings \<Rightarrow> bool" where
  "cm_inv s \<longleftrightarrow> cm_shape s \<and> cm_in_range s"

lemma mk_cm_parameters_inv: "mk_cm_parameters h j = Inr s \<Longrightarrow> cm_inv s"
proof -
  assume "mk_cm_parameters h j = Inr s"
  then obtain xs es where "update_values h j cm_parameter_entries = Inr es" "s = adjust_values \<lparr>se_json = xs, se_values = es\<rparr>"
    by (auto simp: mk_cm_parameters_def mk_settings_def and_then_Inr_iff)
  moreover from this have "cm_shape (\<lparr>se_json = xs, se_values = cm_parameter_entries\<rparr>\<lparr>se_values := es\<rparr>)"
    by (intro cm_shape_kept cm_shape_template) (auto intro: update_values_shape)
  ultimately show ?thesis by (simp add: cm_inv_def cm_shape_adjust adjusted_in_range)
qed

lemma cm_step_inv: "cm_inv s \<Longrightarrow> cm_step op s = Inr s' \<Longrightarrow> cm_inv s'"
proof (cases op)
  case (Cm_update h j)
  assume "cm_inv s" "cm_step op s = Inr s'"
  then obtain es where "update_values h j (se_values s) = Inr es" "s' = adjust_values (s\<lparr>se_values := es\<rparr>)" "cm_shape s"
    by (auto simp: Cm_update update_cm_parameters_def and_then_Inr_iff cm_inv_def)
  then show ?thesis using cm_shape_kept update_values_shape by (simp add: cm_inv_def cm_shape_adjust adjusted_in_range)
next
  case (Cm_set p n)
  assume "cm_inv s" "cm_step op s = Inr s'"
  moreover have "cm_shape (set_member (cm_key p) (Cv_int n) s)" if "cm_shape s"
    using that by (cases p) (auto simp: cm_shape_def set_member_def set_value_def change_entry_def)
  ultimately show ?thesis by (auto simp: Cm_set set_cm_parameter_def cm_inv_def cm_shape_adjust adjusted_in_range)
qed

interpretation cm_parameters: fallible_machine cm_step cm_inv "\<lambda>_. True"
  by unfold_locales (rule cm_step_inv)

subsection \<open>Every class reads back what it wrote\<close>

interpretation settings_class: config_class "mk_settings t" settings_to_json se_values "\<lambda>s. storable_settings t (se_values s)" for t
proof
  fix h x
  show "storable_settings t (se_values x) \<Longrightarrow>
      \<exists>y. mk_settings t h (J_object (settings_to_json x)) = Inr y \<and> se_values y = se_values x"
    by (rule mk_settings_read_back)
  show "\<exists>y. mk_settings t h (J_object []) = Inr y" by (simp add: mk_settings_nothing)
  fix y
  show "storable_settings t (se_values x) \<Longrightarrow> settings_to_json x = [] \<Longrightarrow> mk_settings t h (J_object []) = Inr y \<Longrightarrow>
      se_values y = se_values x"
    by (auto simp: mk_settings_nothing dest: settings_written_nothing)
qed

definition cm_ok :: "settings \<Rightarrow> bool" where
  "cm_ok s \<longleftrightarrow> storable_settings cm_parameter_entries (se_values s) \<and> cm_inv s"

lemma cm_inv_values:
  assumes "se_values s = se_values s'"
  shows "cm_inv s = cm_inv s'"
  unfolding cm_inv_def cm_shape_def cm_in_range_def get_cm_parameter_def assms by (rule refl)

interpretation cm_class: config_class mk_cm_parameters settings_to_json se_values cm_ok
proof
  fix h x
  assume x: "cm_ok x"
  then have "storable_settings cm_parameter_entries (se_values x)" by (simp add: cm_ok_def)
  from mk_settings_read_back [OF this, of h]
  obtain y where y: "mk_settings cm_parameter_entries h (J_object (settings_to_json x)) = Inr y" "se_values y = se_values x" by blast
  then have "cm_inv y" using x cm_inv_values [OF y(2)] by (simp add: cm_ok_def)
  then have "adjust_values y = y" by (simp add: cm_inv_def adjust_in_range)
  then show "\<exists>y. mk_cm_parameters h (J_object (settings_to_json x)) = Inr y \<and> se_values y = se_values x"
    using y by (simp add: mk_cm_parameters_def)
next
  fix h show "\<exists>y. mk_cm_parameters h (J_object []) = Inr y" by (simp add: mk_cm_parameters_def mk_settings_nothing)
next
  fix x h y
  assume x: "cm_ok x" "settings_to_json x = []" and y: "mk_cm_parameters h (J_object []) = Inr y"
  have v: "se_values x = cm_parameter_entries" using x settings_written_nothing [of cm_parameter_entries x] by (simp add: cm_ok_def)
  then have "cm_inv \<lparr>se_json = [], se_values = cm_parameter_entries\<rparr>"
    using x(1) cm_inv_values [of x "\<lparr>se_json = [], se_values = cm_parameter_entries\<rparr>"] by (simp add: cm_ok_def)
  then have "y = \<lparr>se_json = [], se_values = cm_parameter_entries\<rparr>"
    using y adjust_in_range by (simp add: mk_cm_parameters_def mk_settings_nothing cm_inv_def)
  then show "se_values y = se_values x" using v by simp
qed

text \<open>Colours: normalising is idempotent, so a theme keeps its colours.\<close>

definition color_code :: "char \<Rightarrow> bool" where
  "color_code c \<longleftrightarrow> isxdigit c \<and> tolower c = c"

lemma tolower_hex: "isxdigit c \<Longrightarrow> color_code (tolower c)"
proof -
  assume c: "isxdigit c"
  have n: "of_char (char_of (of_char c + 32 :: nat) :: char) = (of_char c + 32 :: nat)" if "of_char c \<le> (90 :: nat)"
    using that by simp
  show ?thesis using c n by (auto simp: color_code_def isxdigit_def tolower_def Let_def)
qed

definition normal_color :: "string \<Rightarrow> bool" where
  "normal_color v \<longleftrightarrow> v = ''system'' \<or> (\<exists>cs. v = CHR ''#'' # cs \<and> length cs = 8 \<and> (\<forall>c\<in>set cs. color_code c))"

lemma normalize_color_normal: "normal_color (normalize_color v)"
proof (cases "\<not> valid_color v \<or> v = ''system''")
  case True
  then show ?thesis by (simp add: normal_color_def normalize_color_def)
next
  case False
  then have "length v = 9" "v ! 0 = CHR ''#''" "\<forall>c\<in>set (drop 1 v). isxdigit c"
    by (auto simp: valid_color_def split: if_splits)
  then obtain cs where v: "v = CHR ''#'' # cs" "length cs = 8" "\<forall>c\<in>set cs. isxdigit c" by (cases v) auto
  then have "normalize_color v = CHR ''#'' # map tolower cs" using False by (simp add: normalize_color_def)
  then show ?thesis using v tolower_hex by (simp add: normal_color_def)
qed

lemma normal_color_kept: "normal_color v \<Longrightarrow> normalize_color v = v"
proof -
  assume "normal_color v"
  then consider "v = ''system''" | cs where "v = CHR ''#'' # cs" "length cs = 8" "\<forall>c\<in>set cs. color_code c"
    by (auto simp: normal_color_def)
  then show ?thesis
  proof cases
    case 2
    then have "map tolower cs = cs" by (intro map_idI) (simp add: color_code_def)
    then show ?thesis using 2 by (simp add: normalize_color_def valid_color_def color_code_def)
  qed (simp add: normalize_color_def)
qed

definition theme_ok :: "settings \<Rightarrow> bool" where
  "theme_ok s \<longleftrightarrow> storable_settings theme_entries (se_values s) \<and>
     (\<forall>k\<in>{''background_color'', ''text_color''}. normal_color (string_of_value k (se_values s)))"

lemma typed_string:
  assumes "storable_settings t es" "find_value k t = Some \<lparr>ce_key = k', ce_value = Cv_string d, ce_default = d'\<rparr>"
  shows "value_of k es = Cv_string (string_of_value k es)"
proof -
  have "same_type (value_of k es) (Cv_string d)"
    using value_of_typed [of es k] assms by (simp add: storable_settings_def entries_ok_def entry_ok_def)
  then show ?thesis by (cases "value_of k es") (simp_all add: string_of_value_def)
qed

lemma set_member_id: "distinct (map ce_key (se_values s)) \<Longrightarrow> value_of k (se_values s) = v \<Longrightarrow> set_member k v s = s"
  by (simp add: set_member_def set_value_id)

lemma theme_normalized:
  assumes "theme_ok s"
  shows "set_background_color (string_of_value ''background_color'' (se_values s)) s = s"
    "set_text_color (string_of_value ''text_color'' (se_values s)) s = s"
  using assms typed_string [of theme_entries "se_values s" "''background_color''"] typed_string [of theme_entries "se_values s" "''text_color''"]
  by (simp_all add: theme_ok_def set_background_color_def set_text_color_def normal_color_kept set_member_id
      storable_settings_def entries_ok_def theme_entries_def find_value_def mk_entry_of_def)

lemma mk_theme_nothing: "mk_theme h (J_object []) = Inr \<lparr>se_json = [], se_values = theme_entries\<rparr>"
proof -
  have "storable_settings theme_entries theme_entries" by (rule storable_template) simp
  moreover have "\<forall>k\<in>{''background_color'', ''text_color''}. normal_color (string_of_value k theme_entries)"
    by (simp add: theme_entries_def string_of_value_def value_of_def find_value_def mk_entry_of_def normal_color_def)
  ultimately have "theme_ok \<lparr>se_json = [], se_values = theme_entries\<rparr>" by (simp add: theme_ok_def)
  from theme_normalized [OF this] show ?thesis by (simp add: mk_theme_def mk_settings_nothing)
qed

lemma theme_ok_values: "se_values a = se_values b \<Longrightarrow> theme_ok a = theme_ok b"
  by (simp add: theme_ok_def)

interpretation theme_class: config_class mk_theme settings_to_json se_values theme_ok
proof
  fix h x
  assume x: "theme_ok x"
  then obtain y where y: "mk_settings theme_entries h (J_object (settings_to_json x)) = Inr y" "se_values y = se_values x"
    using mk_settings_read_back [of theme_entries x h] by (auto simp: theme_ok_def)
  then have "theme_ok y" using x theme_ok_values by blast
  from theme_normalized [OF this]
  show "\<exists>y. mk_theme h (J_object (settings_to_json x)) = Inr y \<and> se_values y = se_values x"
    using y by (simp add: mk_theme_def)
next
  fix h show "\<exists>y. mk_theme h (J_object []) = Inr y" by (simp add: mk_theme_nothing)
next
  fix x h y
  assume "theme_ok x" "settings_to_json x = []" "mk_theme h (J_object []) = Inr y"
  then show "se_values y = se_values x" using settings_written_nothing [of theme_entries x] by (auto simp: theme_ok_def mk_theme_nothing)
qed

definition color_members :: "notification_window_colors \<Rightarrow> config_entry list \<times> config_entry list" where
  "color_members c = (se_values (nc_light c), se_values (nc_dark c))"

definition colors_ok :: "notification_window_colors \<Rightarrow> bool" where
  "colors_ok c \<longleftrightarrow> theme_ok (nc_light c) \<and> theme_ok (nc_dark c)"

lemma map_of_colors_to_json:
  "map_of (colors_to_json c) k =
     (if k = ''light'' then if settings_to_json (nc_light c) \<noteq> [] then Some (J_object (settings_to_json (nc_light c))) else None
      else if k = ''dark'' then if settings_to_json (nc_dark c) \<noteq> [] then Some (J_object (settings_to_json (nc_dark c))) else None
      else map_of (nc_json c) k)"
  by (simp add: colors_to_json_def theme_class.map_of_update_object_json)

lemma colors_read_back:
  assumes "colors_ok c"
  shows "\<exists>d. mk_colors h (J_object (colors_to_json c)) = Inr d \<and> color_members d = color_members c"
proof -
  let ?d = "\<lparr>se_json = [], se_values = theme_entries\<rparr>"
  have ok: "theme_ok (nc_light c)" "theme_ok (nc_dark c)" using assms by (simp_all add: colors_ok_def)
  obtain l where l: "update_object_value ''light'' (mk_theme h) (J_object (colors_to_json c)) ?d = Inr l" "se_values l = se_values (nc_light c)"
    using theme_class.object_read_back [OF ok(1) mk_theme_nothing [of h], of "colors_to_json c" "''light''" h]
    by (auto simp: map_of_colors_to_json)
  obtain k where k: "update_object_value ''dark'' (mk_theme h) (J_object (colors_to_json c)) ?d = Inr k" "se_values k = se_values (nc_dark c)"
    using theme_class.object_read_back [OF ok(2) mk_theme_nothing [of h], of "colors_to_json c" "''dark''" h]
    by (auto simp: map_of_colors_to_json)
  show ?thesis using l k by (simp add: mk_colors_def mk_theme_nothing color_members_def)
qed

lemma mk_colors_nothing:
  "mk_colors h (J_object []) = Inr \<lparr>nc_json = [], nc_light = \<lparr>se_json = [], se_values = theme_entries\<rparr>,
     nc_dark = \<lparr>se_json = [], se_values = theme_entries\<rparr>\<rparr>"
  by (simp add: mk_colors_def mk_theme_nothing update_object_value_def)

lemma theme_written_nothing: "theme_ok s \<Longrightarrow> settings_to_json s = [] \<Longrightarrow> se_values s = theme_entries"
  using settings_written_nothing [of theme_entries s] by (simp add: theme_ok_def)

lemma colors_written_nothing:
  assumes "colors_ok c" "colors_to_json c = []"
  shows "color_members c = (theme_entries, theme_entries)"
proof -
  have "map_of (colors_to_json c) ''light'' = None" "map_of (colors_to_json c) ''dark'' = None" using assms(2) by simp_all
  then have "settings_to_json (nc_light c) = []" "settings_to_json (nc_dark c) = []"
    by (simp_all add: map_of_colors_to_json split: if_splits)
  then show ?thesis using assms(1) theme_written_nothing by (simp add: color_members_def colors_ok_def)
qed

interpretation colors_class: config_class mk_colors colors_to_json color_members colors_ok
proof
  fix h x show "colors_ok x \<Longrightarrow> \<exists>y. mk_colors h (J_object (colors_to_json x)) = Inr y \<and> color_members y = color_members x"
    by (rule colors_read_back)
next
  fix h show "\<exists>y. mk_colors h (J_object []) = Inr y" by (simp add: mk_colors_nothing)
next
  fix x h y
  assume "colors_ok x" "colors_to_json x = []" "mk_colors h (J_object []) = Inr y"
  then show "color_members y = color_members x" using colors_written_nothing [of x] by (auto simp: mk_colors_nothing color_members_def)
qed

subsection \<open>The global configuration reads back\<close>

definition window_position_ok :: "string \<Rightarrow> bool" where
  "window_position_ok v \<longleftrightarrow> v = ''top_left'' \<or> v = ''top_right'' \<or> v = ''bottom_left'' \<or> v = ''bottom_right''"

definition global_in_range :: "config_entry list \<Rightarrow> bool" where
  "global_in_range es \<longleftrightarrow>
     (\<exists>v. value_of ''notification_window_position'' es = Cv_string v \<and> window_position_ok v) \<and>
     (\<exists>n. value_of ''notification_window_font_size'' es = Cv_int n \<and> 8 \<le> n \<and> n \<le> 64) \<and>
     (\<exists>n. value_of ''delay_milliseconds_before_sleep_shortcut'' es = Cv_int n \<and> 0 \<le> n \<and> n \<le> 10000)"

definition global_ok :: "global_configuration \<Rightarrow> bool" where
  "global_ok g \<longleftrightarrow> storable_settings (global_entries_before @ global_entries_after) (gc_values g) \<and>
     global_in_range (gc_values g) \<and> colors_ok (gc_colors g) \<and>
     map_of (gc_json g) ''check_for_updates_on_startup'' = None \<and>
     map_of (gc_json g) ''ask_for_confirmation_before_quitting'' = None"

definition global_members :: "global_configuration \<Rightarrow> config_entry list \<times> config_entry list \<times> config_entry list" where
  "global_members g = (gc_values g, color_members (gc_colors g))"

lemma set_global_id: "distinct (map ce_key (gc_values g)) \<Longrightarrow> value_of k (gc_values g) = v \<Longrightarrow> set_global k v g = g"
  by (simp add: set_global_def set_value_id)

lemma adjust_global_id:
  assumes "distinct (map ce_key (gc_values g))" "global_in_range (gc_values g)"
  shows "adjust_global g = g"
proof -
  obtain v n m where v: "value_of ''notification_window_position'' (gc_values g) = Cv_string v" "window_position_ok v"
    "value_of ''notification_window_font_size'' (gc_values g) = Cv_int n" "8 \<le> n" "n \<le> 64"
    "value_of ''delay_milliseconds_before_sleep_shortcut'' (gc_values g) = Cv_int m" "0 \<le> m" "m \<le> 10000"
    using assms(2) unfolding global_in_range_def by blast
  have "clamp_int (Some 8) (Some 64) n = n" "clamp_int (Some 0) (Some 10000) m = m" using v by (simp_all add: clamp_int_def)
  then have "set_notification_window_position v g = g" "set_notification_window_font_size n g = g"
    "set_delay_milliseconds_before_sleep_shortcut m g = g"
    using v set_global_id [OF assms(1)]
    unfolding set_notification_window_position_def set_notification_window_font_size_def set_delay_milliseconds_before_sleep_shortcut_def window_position_ok_def
    by (simp_all only: if_P simp_thms)
  then show ?thesis
    unfolding adjust_global_def Let_def string_of_value_def int_of_value_def
    by (simp only: v config_value.case)
qed

lemma obj_erase_absent: "map_of xs k = None \<Longrightarrow> obj_erase k xs = xs"
  unfolding obj_erase_def by (rule filter_True) (force simp: map_of_eq_None_iff)

lemma migrate_global_json_id:
  "map_of xs ''check_for_updates_on_startup'' = None \<Longrightarrow> map_of xs ''ask_for_confirmation_before_quitting'' = None \<Longrightarrow>
   migrate_global_json xs = xs"
  by (simp add: migrate_global_json_def obj_erase_absent split: option.split)

lemma storable_keys: "storable_settings t es \<Longrightarrow> map ce_key es = map ce_key t"
  by (auto simp: storable_settings_def reset_entry_def comp_def)

lemma storable_distinct: "storable_settings t es \<Longrightarrow> distinct (map ce_key es)"
  by (simp add: storable_settings_def entries_ok_def)

lemma global_keys: "map ce_key (global_entries_before @ global_entries_after) =
  [''check_for_updates'', ''show_in_menu_bar'', ''show_profile_name_in_menu_bar'', ''show_additional_menu_items'',
   ''enable_notification_window'', ''notification_window_position'', ''notification_window_respect_screen_visible_frame'',
   ''notification_window_show_icon'', ''notification_window_font_size'', ''unsafe_ui'', ''filter_useless_events_from_specific_devices'',
   ''reorder_same_timestamp_input_events_to_prioritize_modifiers'', ''enable_cgeventtap_fallback'',
   ''delay_milliseconds_before_sleep_shortcut'']"
  by (simp add: global_entries_before_def global_entries_after_def mk_entry_of_def)

lemma map_of_global_to_json:
  "map_of (global_to_json g) k =
     (if k = ''notification_window_colors''
      then if colors_to_json (gc_colors g) \<noteq> [] then Some (J_object (colors_to_json (gc_colors g))) else None
      else map_of (update_jsons (gc_values g) (gc_json g)) k)"
  by (simp add: global_to_json_def colors_class.map_of_update_object_json)

lemma update_values_cong:
  "\<forall>e\<in>set es. map_of xs (ce_key e) = map_of ys (ce_key e) \<Longrightarrow> update_values h (J_object xs) es = update_values h (J_object ys) es"
  by (induction es) (auto simp: update_value_def)

lemma global_read_back:
  assumes "global_ok g"
  shows "\<exists>g'. mk_global_configuration h (J_object (global_to_json g)) = Inr g' \<and> global_members g' = global_members g"
proof -
  let ?xs = "global_to_json g" let ?us = "update_jsons (gc_values g) (gc_json g)"
  let ?t = "global_entries_before @ global_entries_after"
  have st: "storable_settings ?t (gc_values g)" and col: "colors_ok (gc_colors g)" using assms by (simp_all add: global_ok_def)
  note keys = storable_keys [OF st, unfolded global_keys]
  have kset: "ce_key ` set (gc_values g) = set (map ce_key ?t)" using storable_keys [OF st] by (metis list.set_map)
  have absent: "''check_for_updates_on_startup'' \<notin> ce_key ` set (gc_values g)"
    "''ask_for_confirmation_before_quitting'' \<notin> ce_key ` set (gc_values g)"
    "''notification_window_colors'' \<notin> set (map ce_key ?t)"
    unfolding kset global_keys by simp_all
  have mig: "migrate_global_json ?xs = ?xs"
    using assms absent by (intro migrate_global_json_id) (simp_all add: map_of_global_to_json map_of_update_jsons_other global_ok_def)
  have "update_values h (J_object ?us) ?t = Inr (gc_values g)"
    using st read_back_values [of "gc_values g" h "gc_json g"] by (simp add: storable_settings_def)
  moreover have "update_values h (J_object ?xs) ?t = update_values h (J_object ?us) ?t"
    using absent(3) unfolding set_map by (intro update_values_cong ballI) (metis (no_types, lifting) imageI map_of_global_to_json)
  ultimately obtain a b where ab: "update_values h (J_object ?xs) global_entries_before = Inr a"
    "update_values h (J_object ?xs) global_entries_after = Inr b" "gc_values g = a @ b"
    unfolding update_values_append by (auto simp: and_then_Inr_iff)
  obtain c where c: "update_object_value ''notification_window_colors'' (mk_colors h) (J_object ?xs)
      \<lparr>nc_json = [], nc_light = \<lparr>se_json = [], se_values = theme_entries\<rparr>, nc_dark = \<lparr>se_json = [], se_values = theme_entries\<rparr>\<rparr> = Inr c"
    "color_members c = color_members (gc_colors g)"
    using colors_class.object_read_back [OF col mk_colors_nothing [of h], of ?xs "''notification_window_colors''" h]
    by (auto simp: map_of_global_to_json)
  have "adjust_global \<lparr>gc_json = ?xs, gc_values = a @ b, gc_colors = c\<rparr> = \<lparr>gc_json = ?xs, gc_values = a @ b, gc_colors = c\<rparr>"
    using assms ab(3) storable_distinct [OF st] by (intro adjust_global_id) (simp_all add: global_ok_def)
  then show ?thesis using ab c(2)
    unfolding mk_global_configuration_def mk_colors_nothing and_then_simps requires_object.simps Let_def mig ab(1,2) c(1)
    by (simp add: global_members_def)
qed

lemma mk_global_nothing:
  "\<exists>g. mk_global_configuration h (J_object []) = Inr g \<and> gc_values g = global_entries_before @ global_entries_after \<and>
     color_members (gc_colors g) = (theme_entries, theme_entries)"
proof -
  let ?c = "\<lparr>nc_json = [], nc_light = \<lparr>se_json = [], se_values = theme_entries\<rparr>, nc_dark = \<lparr>se_json = [], se_values = theme_entries\<rparr>\<rparr>"
  let ?g = "\<lparr>gc_json = [], gc_values = global_entries_before @ global_entries_after, gc_colors = ?c\<rparr>"
  have "distinct (map ce_key (gc_values ?g))" by (simp add: global_entries_before_def global_entries_after_def mk_entry_of_def)
  moreover have "global_in_range (gc_values ?g)"
    by (simp add: global_in_range_def window_position_ok_def value_of_def find_value_def global_entries_before_def global_entries_after_def mk_entry_of_def)
  ultimately have adj: "adjust_global ?g = ?g" by (rule adjust_global_id)
  have mig: "migrate_global_json [] = []" by (rule migrate_global_json_id) simp_all
  have "mk_global_configuration h (J_object []) = Inr ?g"
    unfolding mk_global_configuration_def mk_colors_nothing and_then_simps requires_object.simps Let_def mig
    by (simp add: update_values_absent update_object_value_def adj)
  then show ?thesis by (simp add: color_members_def)
qed

lemma global_written_nothing:
  assumes "global_ok g" "global_to_json g = []"
  shows "global_members g = (global_entries_before @ global_entries_after, theme_entries, theme_entries)"
proof -
  have st: "storable_settings (global_entries_before @ global_entries_after) (gc_values g)" using assms(1) by (simp add: global_ok_def)
  have "map_of (global_to_json g) ''notification_window_colors'' = None" using assms(2) by simp
  then have "colors_to_json (gc_colors g) = []" by (simp add: map_of_global_to_json split: if_splits)
  then have "color_members (gc_colors g) = (theme_entries, theme_entries)"
    using assms(1) colors_written_nothing by (simp add: global_ok_def)
  moreover have "reset_entry e = e" if e: "e \<in> set (gc_values g)" for e
  proof -
    have "ce_key e \<in> set (map ce_key (gc_values g))" using e by simp
    then have "ce_key e \<noteq> ''notification_window_colors''" unfolding storable_keys [OF st] global_keys by auto
    then have "map_of (update_jsons (gc_values g) (gc_json g)) (ce_key e) = None"
      using map_of_global_to_json [of g "ce_key e"] assms(2) by simp
    then have "ce_value e = ce_default e"
      using map_of_update_jsons [OF storable_distinct [OF st] e, of "gc_json g"] by (simp split: if_splits)
    then show ?thesis by (cases e) (simp add: reset_entry_def)
  qed
  then have "map reset_entry (gc_values g) = gc_values g" by (intro map_idI)
  ultimately show ?thesis using st by (simp add: global_members_def storable_settings_def)
qed

interpretation global_class: config_class mk_global_configuration global_to_json global_members global_ok
proof
  fix h x show "global_ok x \<Longrightarrow> \<exists>y. mk_global_configuration h (J_object (global_to_json x)) = Inr y \<and> global_members y = global_members x"
    by (rule global_read_back)
next
  fix h show "\<exists>y. mk_global_configuration h (J_object []) = Inr y" using mk_global_nothing by blast
next
  fix x h y
  assume "global_ok x" "global_to_json x = []" "mk_global_configuration h (J_object []) = Inr y"
  then show "global_members y = global_members x"
    using global_written_nothing [of x] mk_global_nothing [of h] by (auto simp: global_members_def)
qed

subsection \<open>The settings of the machines read back\<close>

text \<open>The items of an object are in the order of their keys.\<close>

definition obj_sorted :: "(string \<times> json) list \<Rightarrow> bool" where
  "obj_sorted xs \<longleftrightarrow> sorted_wrt key_less (map fst xs)"

lemma fst_set_obj_set: "fst ` set (obj_set k v xs) = insert k (fst ` set xs)"
  by (induction xs) (simp, force)

lemma obj_sorted_set: "obj_sorted xs \<Longrightarrow> obj_sorted (obj_set k v xs)"
proof (induction xs)
  case (Cons x xs)
  obtain k' v' where x: "x = (k', v')" by (cases x)
  have tail: "obj_sorted xs" "\<forall>y\<in>fst ` set xs. key_less k' y" using Cons.prems by (auto simp: obj_sorted_def x)
  consider "k = k'" | "k \<noteq> k'" "key_less k k'" | "k \<noteq> k'" "\<not> key_less k k'" by blast
  then show ?case
  proof cases
    case 3
    then have "key_less k' k" using key_less_linear by blast
    then have "\<forall>y\<in>fst ` set (obj_set k v xs). key_less k' y" using tail(2) unfolding fst_set_obj_set by auto
    then show ?thesis using Cons.IH [OF tail(1)] 3 by (auto simp: obj_sorted_def x)
  next
    case 2
    then have "\<forall>y\<in>fst ` set xs. key_less k y" using tail(2) key_less_trans by blast
    then show ?thesis using tail 2 by (auto simp: obj_sorted_def x)
  qed (use tail in \<open>auto simp: obj_sorted_def x\<close>)
qed (simp add: obj_sorted_def)

lemma obj_sorted_erase: "obj_sorted xs \<Longrightarrow> obj_sorted (obj_erase k xs)"
  unfolding obj_sorted_def obj_erase_def by (induction xs) auto

lemma obj_sorted_distinct: "obj_sorted xs \<Longrightarrow> distinct (map fst xs)"
  unfolding obj_sorted_def by (induction xs) (auto simp: image_iff)

lemma obj_sorted_update_object: "obj_sorted xs \<Longrightarrow> obj_sorted (update_object_json k j xs)"
  by (simp add: update_object_json_def obj_sorted_set obj_sorted_erase)

lemma obj_sorted_update_jsons: "obj_sorted xs \<Longrightarrow> obj_sorted (update_jsons es xs)"
  by (induction es arbitrary: xs) (auto simp: update_json_def obj_sorted_set obj_sorted_erase)

definition machine_members :: "machine_specific \<Rightarrow> string \<Rightarrow> config_entry list" where
  "machine_members m k = se_values (fst (get_machine_entry k m))"

definition machine_ok :: "machine_specific \<Rightarrow> bool" where
  "machine_ok m \<longleftrightarrow> obj_sorted (ms_json m) \<and> distinct (map fst (ms_entries m)) \<and>
     (\<forall>(k, e)\<in>set (ms_entries m). storable_settings machine_entries (se_values e)) \<and>
     (\<forall>k v. map_of (ms_json m) k = Some v \<and> is_object v \<longrightarrow> k \<in> fst ` set (ms_entries m))"

lemma machine_members_eq:
  "machine_members m k = (case map_of (ms_entries m) k of Some e \<Rightarrow> se_values e | None \<Rightarrow> machine_entries)"
  by (simp add: machine_members_def get_machine_entry_def fresh_machine_entry_def split: option.split)

lemma map_of_machine_fold:
  "distinct (map fst es) \<Longrightarrow>
   map_of (foldl (\<lambda>xs (k, e). update_object_json k (settings_to_json e) xs) xs es) k =
     (case map_of es k of
        Some e \<Rightarrow> if settings_to_json e \<noteq> [] then Some (J_object (settings_to_json e)) else None
      | None \<Rightarrow> map_of xs k)"
proof (induction es arbitrary: xs)
  case (Cons a es)
  obtain k' e where a: "a = (k', e)" by (cases a)
  have "map_of es k' = None" using Cons.prems by (simp add: a map_of_eq_None_iff)
  then show ?case using Cons by (auto simp: a settings_class.map_of_update_object_json split: option.split)
qed simp

lemma obj_sorted_machine_fold:
  "obj_sorted xs \<Longrightarrow> obj_sorted (foldl (\<lambda>xs (k, e). update_object_json k (settings_to_json e) xs) xs es)"
  by (induction es arbitrary: xs) (auto simp: obj_sorted_update_object)

lemma read_machine_entries_map:
  assumes "distinct (map fst xs)" "\<And>k v. (k, v) \<in> set xs \<Longrightarrow> is_object v \<Longrightarrow> \<exists>e. mk_machine_entry h v = Inr e \<and> P k e"
  shows "\<exists>es. read_machine_entries h xs = Inr es \<and> fst ` set es \<subseteq> fst ` set xs \<and>
    (\<forall>k. case map_of es k of Some e \<Rightarrow> P k e | None \<Rightarrow> \<not> (\<exists>v. map_of xs k = Some v \<and> is_object v))"
  using assms
proof (induction xs)
  case (Cons a xs)
  obtain k v where a: "a = (k, v)" by (cases a)
  obtain es where es: "read_machine_entries h xs = Inr es" "fst ` set es \<subseteq> fst ` set xs"
    "\<forall>k. case map_of es k of Some e \<Rightarrow> P k e | None \<Rightarrow> \<not> (\<exists>v. map_of xs k = Some v \<and> is_object v)"
    using Cons.IH Cons.prems by auto
  have k: "k \<notin> fst ` set xs" using Cons.prems(1) by (simp add: a)
  then have none: "map_of es k = None" "map_of xs k = None" using es(2) by (auto simp: map_of_eq_None_iff)
  show ?case
  proof (cases "is_object v")
    case True
    then obtain e where e: "mk_machine_entry h v = Inr e" "P k e" using Cons.prems(2) a by auto
    have "case map_of ((k, e) # es) k' of Some e \<Rightarrow> P k' e | None \<Rightarrow> \<not> (\<exists>v. map_of (a # xs) k' = Some v \<and> is_object v)" for k'
      using es(3) [rule_format, of k'] e(2) by (cases "k' = k") (auto simp: a split: option.splits)
    then show ?thesis using es(1,2) e(1) True by (auto simp: a)
  next
    case False
    have "case map_of es k' of Some e \<Rightarrow> P k' e | None \<Rightarrow> \<not> (\<exists>v. map_of (a # xs) k' = Some v \<and> is_object v)" for k'
      using es(3) [rule_format, of k'] none False by (cases "k' = k") (auto simp: a split: option.splits)
    then show ?thesis using es(1,2) False by (auto simp: a)
  qed
qed simp

lemma machine_read_back:
  assumes "machine_ok m"
  shows "\<exists>m'. mk_machine_specific h (J_object (machine_specific_to_json m)) = Inr m' \<and> machine_members m' = machine_members m"
proof -
  let ?xs = "machine_specific_to_json m"
  have ok: "obj_sorted (ms_json m)" "distinct (map fst (ms_entries m))"
    "\<And>k e. (k, e) \<in> set (ms_entries m) \<Longrightarrow> storable_settings machine_entries (se_values e)"
    "\<And>k v. map_of (ms_json m) k = Some v \<Longrightarrow> is_object v \<Longrightarrow> k \<in> fst ` set (ms_entries m)"
    using assms by (auto simp: machine_ok_def)
  have d: "distinct (map fst ?xs)"
    unfolding machine_specific_to_json_def by (intro obj_sorted_distinct obj_sorted_machine_fold ok(1))
  have lookup: "map_of ?xs k = (case map_of (ms_entries m) k of
      Some e \<Rightarrow> if settings_to_json e \<noteq> [] then Some (J_object (settings_to_json e)) else None | None \<Rightarrow> map_of (ms_json m) k)" for k
    unfolding machine_specific_to_json_def by (rule map_of_machine_fold [OF ok(2)])
  have read: "\<exists>e. mk_machine_entry h v = Inr e \<and> se_values e = machine_members m k" if "(k, v) \<in> set ?xs" "is_object v" for k v
  proof -
    have kv: "map_of ?xs k = Some v" using that(1) d by simp
    have "map_of (ms_entries m) k \<noteq> None"
    proof
      assume n: "map_of (ms_entries m) k = None"
      then have "k \<in> fst ` set (ms_entries m)" using kv lookup [of k] ok(4) [OF _ that(2)] by simp
      then show False using n by (simp add: map_of_eq_None_iff)
    qed
    then obtain e where e: "map_of (ms_entries m) k = Some e" by auto
    then have "v = J_object (settings_to_json e)" using kv lookup [of k] by (simp split: if_splits)
    then show ?thesis
      using mk_settings_read_back [OF ok(3) [OF map_of_SomeD [OF e]], of h] e by (auto simp: mk_machine_entry_def machine_members_eq)
  qed
  obtain es where es: "read_machine_entries h ?xs = Inr es"
    "\<forall>k. case map_of es k of Some e \<Rightarrow> se_values e = machine_members m k | None \<Rightarrow> \<not> (\<exists>v. map_of ?xs k = Some v \<and> is_object v)"
    using read_machine_entries_map [where P = "\<lambda>k e. se_values e = machine_members m k", OF d read] by blast
  have "(case map_of es k of Some e \<Rightarrow> se_values e | None \<Rightarrow> machine_entries) = machine_members m k" for k
  proof (cases "map_of es k")
    case None
    have "\<not> (\<exists>v. map_of ?xs k = Some v \<and> is_object v)" using es(2) [rule_format, of k] None by simp
    then have "settings_to_json e = []" if "map_of (ms_entries m) k = Some e" for e using lookup [of k] that by (auto split: if_splits)
    then have "machine_members m k = machine_entries"
      using settings_written_nothing ok(3) [OF map_of_SomeD] by (auto simp: machine_members_eq split: option.split)
    then show ?thesis using None by simp
  next
    case (Some e)
    then show ?thesis using es(2) [rule_format, of k] by simp
  qed
  then show ?thesis using es(1) by (auto simp: mk_machine_specific_def machine_members_eq [abs_def])
qed

interpretation machine_class: config_class mk_machine_specific machine_specific_to_json machine_members machine_ok
proof
  fix h x show "machine_ok x \<Longrightarrow>
      \<exists>y. mk_machine_specific h (J_object (machine_specific_to_json x)) = Inr y \<and> machine_members y = machine_members x"
    by (rule machine_read_back)
next
  fix h show "\<exists>y. mk_machine_specific h (J_object []) = Inr y" by (simp add: mk_machine_specific_def)
next
  fix x h y
  assume x: "machine_ok x" "machine_specific_to_json x = []" and y: "mk_machine_specific h (J_object []) = Inr y"
  obtain m' where "mk_machine_specific h (J_object []) = Inr m'" "machine_members m' = machine_members x"
    using machine_read_back [OF x(1), of h] unfolding x(2) by blast
  then show "machine_members y = machine_members x" using y by simp
qed

subsection \<open>Properties\<close>

text \<open>
  C28. The parameters of complex modifications stay within their bounds, whatever is read, and
  whatever is read into them or assigned to them later: every time is at least 0, the
  threshold of simultaneous keys at most 1000, the scroll speed between 1 and 10000.
\<close>

theorem parameters_in_range:
  assumes "mk_cm_parameters h j = Inr s" "run_until cm_step ops s = Inr s'"
  shows "cm_min p \<le> get_cm_parameter p s' \<and> (case cm_max p of Some u \<Rightarrow> get_cm_parameter p s' \<le> u | None \<Rightarrow> True)"
  using cm_parameters.inv_run [OF assms(2) mk_cm_parameters_inv [OF assms(1)]] by (simp add: cm_inv_def cm_in_range_def)

theorem parameters_in_range_witness:
  "\<exists>s s'. mk_cm_parameters Loose (J_object [(''mouse_motion_to_scroll.speed'', J_int 0)]) = Inr s \<and>
    run_until cm_step [Cm_set Scroll_speed 20000] s = Inr s' \<and> get_cm_parameter Scroll_speed s' \<le> 10000"
proof -
  obtain s where s: "mk_cm_parameters Loose (J_object [(''mouse_motion_to_scroll.speed'', J_int 0)]) = Inr s"
    by (simp add: mk_cm_parameters_def mk_settings_def cm_parameter_entries_def mk_entry_of_def update_value_def)
  then show ?thesis using parameters_in_range [OF s, of "[Cm_set Scroll_speed 20000]" _ Scroll_speed] by auto
qed

text \<open>
  A negative scale of the mouse keys is refused by the setter, which makes it zero, but taken
  over as it is when it is read: the mouse keys then move against their direction.
\<close>

theorem negative_scale_is_read:
  "map_sum id get_mouse_key_xy_scale (mk_virtual_hid_keyboard Strict (J_object [(''mouse_key_xy_scale'', J_int (-50))])) = Inr (-50) \<and>
   map_sum id (get_mouse_key_xy_scale \<circ> set_mouse_key_xy_scale (-50)) (mk_virtual_hid_keyboard Strict (J_object [])) = (Inr 0 :: json_error + int)"
  by (simp add: mk_virtual_hid_keyboard_def mk_settings_def virtual_hid_keyboard_entries_def mk_entry_of_def update_value_def
      get_mouse_key_xy_scale_def set_mouse_key_xy_scale_def set_member_def set_value_def change_entry_def int_of_value_def
      value_of_def find_value_def int32_def)

end
