(* ===== verification/SimpleModifications.thy ===== *)
theory SimpleModifications
  imports ConfigSections
begin

text \<open>
  Simple modifications (\<open>src/share/core_configuration/details/profile/simple_modifications.hpp\<close>):
  pairs of the texts of two JSON values, \<open>from\<close> and \<open>to\<close>. The three formats of the file are read, and
  the first pair of each \<open>from\<close> is written unless it says what is so by default. The JSON library's
  printer and parser and the natural order of the third-party sorter are parameters.
\<close>

subsection \<open>The state and its parameters\<close>

record text_tools =
  tt_dump :: "json \<Rightarrow> string"
  tt_parse :: "string \<Rightarrow> json option"
  tt_less :: "string \<Rightarrow> string \<Rightarrow> bool"

type_synonym modification_pairs = "(string \<times> string) list"

subsection \<open>Reading\<close>

text \<open>Erasing a key of a value that is no object throws.\<close>

fun json_erase :: "string \<Rightarrow> json \<Rightarrow> json_error + json" where
  "json_erase k (J_object xs) = Inr (J_object (obj_erase k xs))"
| "json_erase k _ = Inl Json_type_error"

fun migrate_to_json :: "json \<Rightarrow> json" where
  "migrate_to_json (J_object xs) =
     (let result = obj_erase [] xs in if result = [] then J_array [] else J_array [J_object result])"
| "migrate_to_json j = j"

definition erase_by_from_json_string :: "text_tools \<Rightarrow> string \<Rightarrow> modification_pairs \<Rightarrow> modification_pairs" where
  "erase_by_from_json_string t f ps =
     (case tt_parse t f of
        None \<Rightarrow> ps
      | Some j \<Rightarrow> remove_if (\<lambda>p. fst p = tt_dump t j) ps)"

text \<open>The texts of \<open>from\<close> and \<open>to\<close> of one entry of the current format, if it has them.\<close>

definition pair_item :: "text_tools \<Rightarrow> string \<Rightarrow> json \<Rightarrow> string option \<times> string option \<Rightarrow> json_error + string option \<times> string option" where
  "pair_item t k v r =
     (if k = ''from'' then and_then (json_erase [] v) (\<lambda>j. Inr (Some (tt_dump t j), snd r))
      else if k = ''to'' then Inr (fst r, Some (tt_dump t (migrate_to_json v)))
      else Inr r)"

definition push_pair :: "text_tools \<Rightarrow> string \<Rightarrow> string \<Rightarrow> modification_pairs \<Rightarrow> modification_pairs" where
  "push_pair t f to ps = erase_by_from_json_string t f ps @ [(f, to)]"

fun read_pairs :: "text_tools \<Rightarrow> json list \<Rightarrow> modification_pairs \<Rightarrow> json_error + modification_pairs" where
  "read_pairs t [] ps = Inr ps"
| "read_pairs t (j # js) ps =
     (case j of
        J_object xs \<Rightarrow>
          and_then (fold_items (pair_item t) xs (None, None)) (\<lambda>r.
            read_pairs t js (case r of (Some f, Some to) \<Rightarrow> push_pair t f to ps | _ \<Rightarrow> ps))
      | _ \<Rightarrow> read_pairs t js ps)"

text \<open>The first format: an object from key codes to key codes.\<close>

fun read_v1_pairs :: "text_tools \<Rightarrow> (string \<times> json) list \<Rightarrow> modification_pairs \<Rightarrow> modification_pairs" where
  "read_v1_pairs t [] ps = ps"
| "read_v1_pairs t ((k, v) # xs) ps =
     (case v of
        J_string s \<Rightarrow>
          read_v1_pairs t xs (push_pair t
            (if k \<noteq> [] then tt_dump t (J_object [(''key_code'', J_string k)]) else ''{}'')
            (tt_dump t (J_array [J_object [(''key_code'', J_string s)]])) ps)
      | _ \<Rightarrow> read_v1_pairs t xs ps)"

text \<open>\<open>std::sort\<close>, as an insertion sort; it is not stable, so only the order of the keys matters.\<close>

fun insert_pair :: "text_tools \<Rightarrow> string \<times> string \<Rightarrow> modification_pairs \<Rightarrow> modification_pairs" where
  "insert_pair t p [] = [p]"
| "insert_pair t p (q # qs) = (if tt_less t (fst q) (fst p) then q # insert_pair t p qs else p # q # qs)"

definition sort_pairs :: "text_tools \<Rightarrow> modification_pairs \<Rightarrow> modification_pairs" where
  "sort_pairs t ps = foldr (insert_pair t) ps []"

definition handle_modifications_json :: "text_tools \<Rightarrow> json \<Rightarrow> modification_pairs \<Rightarrow> json_error + modification_pairs" where
  "handle_modifications_json t j ps =
     (case j of
        J_array js \<Rightarrow> and_then (read_pairs t js ps) (\<lambda>ps. Inr (sort_pairs t ps))
      | J_object xs \<Rightarrow> Inr (sort_pairs t (read_v1_pairs t xs ps))
      | _ \<Rightarrow> Inl (Unmarshal_error_dump ''json must be array or object, but is `'' j ''`''))"

subsection \<open>Editing\<close>

definition push_back_pair :: "text_tools \<Rightarrow> modification_pairs \<Rightarrow> modification_pairs" where
  "push_back_pair t ps = ps @ [(tt_dump t (J_object []), tt_dump t (J_array []))]"

definition erase_pair :: "nat \<Rightarrow> modification_pairs \<Rightarrow> modification_pairs" where
  "erase_pair i ps = (if i < length ps then erase_at i ps else ps)"

definition replace_pair :: "text_tools \<Rightarrow> nat \<Rightarrow> string \<Rightarrow> string \<Rightarrow> modification_pairs \<Rightarrow> modification_pairs" where
  "replace_pair t i f to ps =
     (case (tt_parse t f, tt_parse t to) of
        (Some fj, Some tj) \<Rightarrow>
          if i < length ps then ps[i := (tt_dump t fj, tt_dump t (migrate_to_json tj))] else ps
      | _ \<Rightarrow> ps)"

fun replace_first :: "string \<Rightarrow> string \<Rightarrow> modification_pairs \<Rightarrow> modification_pairs" where
  "replace_first f to [] = []"
| "replace_first f to (p # ps) = (if fst p = f then (f, to) # ps else p # replace_first f to ps)"

definition replace_second :: "text_tools \<Rightarrow> string \<Rightarrow> string \<Rightarrow> modification_pairs \<Rightarrow> modification_pairs" where
  "replace_second t f to ps =
     (case (tt_parse t f, tt_parse t to) of
        (Some fj, Some tj) \<Rightarrow> replace_first (tt_dump t fj) (tt_dump t (migrate_to_json tj)) ps
      | _ \<Rightarrow> ps)"

subsection \<open>Writing\<close>

text \<open>
  One pair: with the texts written so far and the entries so far. \<open>default_json\<close> lists the pairs that
  hold by default, as JSON values.
\<close>

definition write_pair :: "text_tools \<Rightarrow> (json \<times> json) list \<Rightarrow> string \<times> string \<Rightarrow> string set \<times> json list \<Rightarrow> string set \<times> json list" where
  "write_pair t defaults p r =
     (case (tt_parse t (fst p), tt_parse t (snd p)) of
        (Some (J_object f), Some (J_array to)) \<Rightarrow>
          if f \<noteq> [] \<and> to \<noteq> [] \<and> fst p \<notin> fst r then
            (insert (fst p) (fst r),
             if (J_object f, J_array to) \<in> set defaults then snd r
             else snd r @ [J_object [(''from'', J_object f), (''to'', J_array to)]])
          else r
      | _ \<Rightarrow> r)"

definition pairs_to_json :: "text_tools \<Rightarrow> (json \<times> json) list \<Rightarrow> modification_pairs \<Rightarrow> json list" where
  "pairs_to_json t defaults ps = snd (foldl (\<lambda>r p. write_pair t defaults p r) ({}, []) ps)"

subsection \<open>What the pairs mean\<close>

text \<open>
  The modification in effect for a \<open>from\<close>: the first pair of it whose texts are a non-empty object and
  a non-empty array. What the parser is relied on for: it reads back the values at hand from their texts.
\<close>

definition valid_pair :: "text_tools \<Rightarrow> string \<times> string \<Rightarrow> bool" where
  "valid_pair t p \<longleftrightarrow>
     (case (tt_parse t (fst p), tt_parse t (snd p)) of
        (Some (J_object f), Some (J_array to)) \<Rightarrow> f \<noteq> [] \<and> to \<noteq> []
      | _ \<Rightarrow> False)"

definition in_effect :: "text_tools \<Rightarrow> modification_pairs \<Rightarrow> string \<Rightarrow> string option" where
  "in_effect t ps = map_of (filter (valid_pair t) ps)"

definition reparses :: "text_tools \<Rightarrow> json set \<Rightarrow> bool" where
  "reparses t J \<longleftrightarrow> (\<forall>j\<in>J. tt_parse t (tt_dump t j) = Some j)"

definition texts_of :: "text_tools \<Rightarrow> json set \<Rightarrow> modification_pairs \<Rightarrow> bool" where
  "texts_of t J ps \<longleftrightarrow> (\<forall>p\<in>set ps. fst p \<in> tt_dump t ` J \<and> snd p \<in> tt_dump t ` J)"

text \<open>No object among the values has the empty key.\<close>

definition no_empty_key :: "json set \<Rightarrow> bool" where
  "no_empty_key J \<longleftrightarrow> (\<forall>xs. J_object xs \<in> J \<longrightarrow> map_of xs [] = None)"

fun written :: "text_tools \<Rightarrow> (json \<times> json) list \<Rightarrow> string set \<Rightarrow> modification_pairs \<Rightarrow> (json \<times> json) list" where
  "written t D S [] = []"
| "written t D S (p # ps) =
     (if valid_pair t p \<and> fst p \<notin> S then
        (let e = (the (tt_parse t (fst p)), the (tt_parse t (snd p)))
         in (if e \<in> set D then [] else [e]) @ written t D (insert (fst p) S) ps)
      else written t D S ps)"

definition entry_json :: "json \<times> json \<Rightarrow> json" where
  "entry_json e = J_object [(''from'', fst e), (''to'', snd e)]"

lemma valid_pairE:
  assumes "valid_pair t p"
  obtains f to where "tt_parse t (fst p) = Some (J_object f)" "tt_parse t (snd p) = Some (J_array to)" "f \<noteq> []" "to \<noteq> []"
proof (cases "tt_parse t (fst p)")
  case None
  then show ?thesis using assms by (simp add: valid_pair_def)
next
  case (Some f)
  note f = this
  show ?thesis
  proof (cases "tt_parse t (snd p)")
    case None
    then show ?thesis using assms f by (cases f) (simp_all add: valid_pair_def)
  next
    case (Some to)
    show ?thesis using assms f Some that by (cases f; cases to) (simp_all add: valid_pair_def)
  qed
qed

lemma write_pair_eq:
  "write_pair t D p r =
     (if valid_pair t p \<and> fst p \<notin> fst r then
        (insert (fst p) (fst r),
         snd r @ (let e = (the (tt_parse t (fst p)), the (tt_parse t (snd p))) in if e \<in> set D then [] else [entry_json e]))
      else r)"
proof (cases "valid_pair t p")
  case True
  then obtain f to where "tt_parse t (fst p) = Some (J_object f)" "tt_parse t (snd p) = Some (J_array to)" "f \<noteq> []" "to \<noteq> []"
    by (rule valid_pairE)
  then show ?thesis using True by (simp add: write_pair_def entry_json_def prod_eq_iff)
next
  case False
  have "write_pair t D p r = r"
  proof (cases "\<exists>f to. tt_parse t (fst p) = Some (J_object f) \<and> tt_parse t (snd p) = Some (J_array to)")
    case True
    then show ?thesis using False by (auto simp: write_pair_def valid_pair_def)
  next
    case False
    then show ?thesis unfolding write_pair_def by (auto split: option.split json.split)
  qed
  then show ?thesis using False by simp
qed

lemma pairs_to_json_written:
  "snd (foldl (\<lambda>r p. write_pair t D p r) (S, acc) ps) = acc @ map entry_json (written t D S ps)"
  by (induction ps arbitrary: S acc) (simp_all add: write_pair_eq Let_def)

definition text_pair :: "text_tools \<Rightarrow> json \<times> json \<Rightarrow> string \<times> string" where
  "text_pair t e = (tt_dump t (fst e), tt_dump t (snd e))"

lemma text_pair_parsed:
  assumes "reparses t J" "texts_of t J (p # ps)" "valid_pair t p"
  shows "text_pair t (the (tt_parse t (fst p)), the (tt_parse t (snd p))) = p"
  using assms by (auto simp: reparses_def texts_of_def text_pair_def prod_eq_iff)

lemma dump_inj: "reparses t J \<Longrightarrow> a \<in> J \<Longrightarrow> b \<in> J \<Longrightarrow> tt_dump t a = tt_dump t b \<Longrightarrow> a = b"
  by (metis option.inject reparses_def)

lemma written_lookup:
  assumes "reparses t J" "texts_of t J ps" "set D \<subseteq> J \<times> J"
  shows "map_of (map (text_pair t) (written t D S ps)) k =
    (if k \<in> S then None else case in_effect t ps k of
       Some to \<Rightarrow> if (k, to) \<in> text_pair t ` set D then None else Some to
     | None \<Rightarrow> None)"
  using assms(2)
proof (induction ps arbitrary: S)
  case (Cons p ps)
  have tail: "texts_of t J ps" using Cons.prems by (simp add: texts_of_def)
  note IH = Cons.IH [OF tail]
  let ?e = "(the (tt_parse t (fst p)), the (tt_parse t (snd p)))"
  show ?case
  proof (cases "valid_pair t p \<and> fst p \<notin> S")
    case True
    then have p: "text_pair t ?e = p" using text_pair_parsed [OF assms(1) Cons.prems] by simp
    obtain a b where ab: "a \<in> J" "fst p = tt_dump t a" "b \<in> J" "snd p = tt_dump t b" using Cons.prems by (auto simp: texts_of_def)
    then have e: "?e = (a, b)" using assms(1) by (simp add: reparses_def)
    have inD: "(a, b) \<in> set D \<longleftrightarrow> p \<in> text_pair t ` set D"
    proof
      assume "p \<in> text_pair t ` set D"
      then obtain d where d: "d \<in> set D" "p = text_pair t d" by auto
      then have "tt_dump t (fst d) = tt_dump t a" "tt_dump t (snd d) = tt_dump t b" "fst d \<in> J" "snd d \<in> J"
        using ab assms(3) by (auto simp: text_pair_def)
      then have "d = (a, b)" using ab assms(1) by (auto simp: prod_eq_iff intro: dump_inj)
      then show "(a, b) \<in> set D" using d(1) by simp
    qed (use p e in \<open>auto intro: rev_image_eqI\<close>)
    have tp: "text_pair t (a, b) = p" using p e by simp
    have wr: "written t D S (p # ps) = (if (a, b) \<in> set D then [] else [(a, b)]) @ written t D (insert (fst p) S) ps"
      using True e by simp
    have w: "map_of (map (text_pair t) (written t D S (p # ps))) k =
        (if k = fst p \<and> p \<notin> text_pair t ` set D then Some (snd p)
         else map_of (map (text_pair t) (written t D (insert (fst p) S) ps)) k)"
      unfolding wr inD [symmetric] by (cases p) (auto simp: tp)
    have "in_effect t (p # ps) k = (if k = fst p then Some (snd p) else in_effect t ps k)"
      using True by (cases p) (simp add: in_effect_def)
    then show ?thesis unfolding w IH using True by (cases "k = fst p") (simp_all add: prod_eq_iff)
  next
    case False
    then show ?thesis using IH by (auto simp: in_effect_def)
  qed
qed (simp add: in_effect_def)

lemma written_values:
  assumes "reparses t J" "texts_of t J ps" "e \<in> set (written t D S ps)"
  shows "\<exists>f to. e = (J_object f, J_array to) \<and> J_object f \<in> J \<and> J_array to \<in> J"
  using assms(2,3)
proof (induction ps arbitrary: S)
  case (Cons p ps)
  have tail: "texts_of t J ps" using Cons.prems(1) by (simp add: texts_of_def)
  show ?case
  proof (cases "e = (the (tt_parse t (fst p)), the (tt_parse t (snd p))) \<and> valid_pair t p")
    case True
    then obtain f to where f: "tt_parse t (fst p) = Some (J_object f)" "tt_parse t (snd p) = Some (J_array to)" by (auto elim: valid_pairE)
    obtain a b where "a \<in> J" "fst p = tt_dump t a" "b \<in> J" "snd p = tt_dump t b" using Cons.prems(1) by (auto simp: texts_of_def)
    then show ?thesis using f True assms(1) by (auto simp: reparses_def)
  next
    case False
    then show ?thesis using Cons.IH [OF tail] Cons.prems(2) by (auto simp: Let_def split: if_splits)
  qed
qed simp

text \<open>Sorting keeps the pairs.\<close>

lemma mset_insert_pair: "mset (insert_pair t p ps) = add_mset p (mset ps)"
  by (induction ps) auto

lemma mset_sort_pairs: "mset (sort_pairs t ps) = mset ps"
  unfolding sort_pairs_def by (induction ps) (auto simp: mset_insert_pair)

lemma distinct_fst_mset: "mset xs = mset ys \<Longrightarrow> distinct (map fst xs) \<longleftrightarrow> distinct (map fst ys)"
  by (metis mset_eq_imp_distinct_iff mset_map)

lemma map_of_mset: "mset xs = mset ys \<Longrightarrow> distinct (map fst ys) \<Longrightarrow> map_of xs = map_of ys"
  by (metis distinct_fst_mset map_of_eqI map_of_eq_Some_iff set_mset_mset mset_eq_setD option.exhaust ext)

text \<open>Reading a pair replaces the pair of the same \<open>from\<close>.\<close>

lemma push_pair_dump:
  assumes "tt_parse t f = Some j" "tt_dump t j = f"
  shows "push_pair t f to ps = remove_if (\<lambda>p. fst p = f) ps @ [(f, to)]"
  using assms by (simp add: push_pair_def erase_by_from_json_string_def)

lemma map_of_remove_if_fst: "map_of (remove_if (\<lambda>p. fst p = f) ps) k = (if k = f then None else map_of ps k)"
  by (induction ps) auto

lemma push_pair_distinct:
  assumes "tt_parse t f = Some j" "tt_dump t j = f" "distinct (map fst ps)"
  shows "distinct (map fst (push_pair t f to ps))" "map_of (push_pair t f to ps) = (map_of ps)(f \<mapsto> to)"
proof -
  have "distinct (map fst (remove_if (\<lambda>p. fst p = f) ps))"
    using assms(3) by (induction ps) auto
  then show "distinct (map fst (push_pair t f to ps))" by (auto simp: push_pair_dump [OF assms(1,2)])
  show "map_of (push_pair t f to ps) = (map_of ps)(f \<mapsto> to)"
    by (rule ext) (auto simp: push_pair_dump [OF assms(1,2)] map_of_remove_if_fst map_add_def split: option.split)
qed

lemma pair_items:
  assumes "map_of f [] = None"
  shows "fold_items (pair_item t) [(''from'', J_object f), (''to'', J_array to)] (None, None) =
    Inr (Some (tt_dump t (J_object f)), Some (tt_dump t (J_array to)))"
  using assms by (simp add: pair_item_def obj_erase_absent)

lemma read_written:
  assumes "reparses t J" "no_empty_key J" "distinct (map fst ps)"
    and "\<forall>e\<in>set W. \<exists>f to. e = (J_object f, J_array to) \<and> J_object f \<in> J \<and> J_array to \<in> J"
  shows "\<exists>ps'. read_pairs t (map entry_json W) ps = Inr ps' \<and> distinct (map fst ps') \<and>
    map_of ps' = map_of ps ++ map_of (rev (map (text_pair t) W))"
  using assms(3,4)
proof (induction W arbitrary: ps)
  case (Cons e W)
  obtain f to where e: "e = (J_object f, J_array to)" "J_object f \<in> J" "J_array to \<in> J" using Cons.prems(2) by auto
  have "map_of f [] = None" using e(2) assms(2) by (simp add: no_empty_key_def)
  note items = pair_items [OF this, of t to]
  let ?f = "tt_dump t (J_object f)" let ?to = "tt_dump t (J_array to)"
  have parse: "tt_parse t ?f = Some (J_object f)" using assms(1) e(2) by (simp add: reparses_def)
  have pushed: "distinct (map fst (push_pair t ?f ?to ps))" "map_of (push_pair t ?f ?to ps) = (map_of ps)(?f \<mapsto> ?to)"
    using push_pair_distinct [OF parse refl Cons.prems(1)] by simp_all
  obtain ps' where ps': "read_pairs t (map entry_json W) (push_pair t ?f ?to ps) = Inr ps'" "distinct (map fst ps')"
    "map_of ps' = map_of (push_pair t ?f ?to ps) ++ map_of (rev (map (text_pair t) W))"
    using Cons.IH [OF pushed(1)] Cons.prems(2) by auto
  have "read_pairs t (map entry_json (e # W)) ps = read_pairs t (map entry_json W) (push_pair t ?f ?to ps)"
    by (simp add: entry_json_def e(1) items del: fold_items.simps)
  moreover have "map_of ps' = map_of ps ++ map_of (rev (map (text_pair t) (e # W)))"
    using ps'(3) pushed(2) by (simp add: text_pair_def e(1))
  ultimately show ?case using ps'(1,2) by simp
qed simp

lemma written_fresh: "e \<in> set (written t D S ps) \<Longrightarrow> reparses t J \<Longrightarrow> texts_of t J ps \<Longrightarrow> tt_dump t (fst e) \<notin> S"
proof (induction ps arbitrary: S)
  case (Cons p ps)
  have tail: "texts_of t J ps" using Cons.prems(3) by (simp add: texts_of_def)
  show ?case
  proof (cases "valid_pair t p \<and> fst p \<notin> S")
    case True
    then have "tt_dump t (the (tt_parse t (fst p))) = fst p" using text_pair_parsed [OF Cons.prems(2,3)] by (simp add: text_pair_def prod_eq_iff)
    then show ?thesis using Cons.IH [OF _ Cons.prems(2) tail] Cons.prems(1) True by (auto simp: Let_def split: if_splits)
  next
    case False
    then show ?thesis using Cons.IH [OF _ Cons.prems(2) tail] Cons.prems(1) by auto
  qed
qed simp

lemma written_distinct: "reparses t J \<Longrightarrow> texts_of t J ps \<Longrightarrow> distinct (map fst (map (text_pair t) (written t D S ps)))"
proof (induction ps arbitrary: S)
  case (Cons p ps)
  have tail: "texts_of t J ps" using Cons.prems(2) by (simp add: texts_of_def)
  show ?case
  proof (cases "valid_pair t p \<and> fst p \<notin> S")
    case True
    then have "tt_dump t (the (tt_parse t (fst p))) = fst p" using text_pair_parsed [OF Cons.prems] by (simp add: text_pair_def prod_eq_iff)
    moreover have "\<forall>e\<in>set (written t D (insert (fst p) S) ps). tt_dump t (fst e) \<noteq> fst p"
      using written_fresh [OF _ Cons.prems(1) tail, of _ D "insert (fst p) S"] by blast
    ultimately show ?thesis using True Cons.IH [OF Cons.prems(1) tail, of "insert (fst p) S"]
      by (auto simp: Let_def text_pair_def comp_def)
  next
    case False
    then show ?thesis using Cons.IH [OF Cons.prems(1) tail] by auto
  qed
qed simp

lemma in_effect_distinct:
  "distinct (map fst ps) \<Longrightarrow> in_effect t ps k = (case map_of ps k of Some to \<Rightarrow> if valid_pair t (k, to) then Some to else None | None \<Rightarrow> None)"
proof (induction ps)
  case (Cons p ps)
  obtain f to where p: "p = (f, to)" by (cases p)
  have "f \<notin> fst ` set ps" using Cons.prems by (simp add: p)
  then have "map_of (filter (valid_pair t) ps) f = None" by (force simp: map_of_eq_None_iff)
  then show ?case using Cons by (auto simp: p in_effect_def)
qed (simp add: in_effect_def)

lemma in_effect_valid: "in_effect t ps k = Some to \<Longrightarrow> valid_pair t (k, to)"
  unfolding in_effect_def by (auto dest: map_of_SomeD)

subsection \<open>Properties\<close>

text \<open>
  C25. Simple modifications survive being saved: writing the pairs and reading them back on top of the
  default pairs puts into effect what was in effect before, over the defaults. Pairs that are not complete, or
  that repeat a \<open>from\<close>, and pairs that say what is so by default are the only ones not written.
\<close>

theorem simple_modifications_round_trip:
  assumes "reparses t J" "no_empty_key J" "texts_of t J ps" "set D \<subseteq> J \<times> J" "distinct (map fst base)"
    and "\<forall>d\<in>set D. \<forall>xs. snd d = J_array xs \<longrightarrow> in_effect t base (tt_dump t (fst d)) = Some (tt_dump t (snd d))"
  shows "\<exists>ps'. handle_modifications_json t (J_array (pairs_to_json t D ps)) base = Inr ps' \<and> in_effect t ps' = in_effect t base ++ in_effect t ps"
proof -
  let ?W = "written t D {} ps" let ?P = "map (text_pair t) ?W"
  have W: "pairs_to_json t D ps = map entry_json ?W" by (simp add: pairs_to_json_def pairs_to_json_written)
  have "\<forall>e\<in>set ?W. \<exists>f to. e = (J_object f, J_array to) \<and> J_object f \<in> J \<and> J_array to \<in> J"
    using written_values [OF assms(1,3)] by blast
  from read_written [OF assms(1,2,5) this] obtain ps1 where ps1: "read_pairs t (map entry_json ?W) base = Inr ps1" "distinct (map fst ps1)"
    "map_of ps1 = map_of base ++ map_of (rev ?P)" by blast
  have "map_of (rev ?P) = map_of ?P" using written_distinct [OF assms(1,3)] by (intro map_of_mset) simp_all
  then have m: "map_of (sort_pairs t ps1) = map_of base ++ map_of ?P"
    using ps1(2,3) map_of_mset [OF mset_sort_pairs ps1(2)] by simp
  have d: "distinct (map fst (sort_pairs t ps1))" using ps1(2) distinct_fst_mset [OF mset_sort_pairs] by blast
  have "in_effect t (sort_pairs t ps1) k = (in_effect t base ++ in_effect t ps) k" for k
  proof (cases "in_effect t ps k")
    case None
    then have "map_of ?P k = None" using written_lookup [OF assms(1,3,4), of "{}" k] by simp
    then have "map_of (sort_pairs t ps1) k = map_of base k" using m by (simp add: map_add_def)
    then show ?thesis using None by (simp add: map_add_def in_effect_distinct [OF d] in_effect_distinct [OF assms(5)])
  next
    case (Some to)
    note valid = in_effect_valid [OF Some]
    show ?thesis
    proof (cases "(k, to) \<in> text_pair t ` set D")
      case False
      then have "map_of ?P k = Some to" using written_lookup [OF assms(1,3,4), of "{}" k] Some by simp
      then have "map_of (sort_pairs t ps1) k = Some to" using m by (simp add: map_add_def)
      then show ?thesis using Some valid by (simp add: map_add_def in_effect_distinct [OF d])
    next
      case True
      then obtain e where e: "e \<in> set D" "k = tt_dump t (fst e)" "to = tt_dump t (snd e)" by (auto simp: text_pair_def)
      then have "snd e \<in> J" using assms(4) by auto
      then have "tt_parse t to = Some (snd e)" using assms(1) e(3) by (simp add: reparses_def)
      then obtain xs where "snd e = J_array xs" using valid by (auto elim: valid_pairE)
      then have "in_effect t base k = Some to" using assms(6) e by auto
      moreover have "map_of ?P k = None" using written_lookup [OF assms(1,3,4), of "{}" k] Some True by simp
      then have "map_of (sort_pairs t ps1) k = map_of base k" using m by (simp add: map_add_def)
      ultimately show ?thesis using Some by (simp add: map_add_def in_effect_distinct [OF d] in_effect_distinct [OF assms(5)])
    qed
  qed
  then show ?thesis using ps1(1) by (auto simp: handle_modifications_json_def W)
qed

text \<open>Texts of the key codes, for an example: the name stands for an object or an array with it.\<close>

definition key_texts :: text_tools where
  "key_texts = \<lparr>
     tt_dump = (\<lambda>j. case j of
        J_object [(k, J_string s)] \<Rightarrow> ''o'' @ s
      | J_array [J_object [(k, J_string s)]] \<Rightarrow> ''a'' @ s
      | _ \<Rightarrow> []),
     tt_parse = (\<lambda>s. case s of
        [] \<Rightarrow> None
      | c # s \<Rightarrow> Some (if c = CHR ''o'' then J_object [(''key_code'', J_string s)] else J_array [J_object [(''key_code'', J_string s)]])),
     tt_less = (\<lambda>a b. key_less a b)\<rparr>"

theorem simple_modifications_round_trip_witness:
  "\<exists>ps'. handle_modifications_json key_texts (J_array (pairs_to_json key_texts [] [(''ob'', ''ax''), (''oa'', ''ay''), (''ob'', ''az'')])) [] = Inr ps' \<and>
    in_effect key_texts ps' ''ob'' = Some ''ax''"
proof -
  let ?o = "\<lambda>s. J_object [(''key_code'', J_string s)]" let ?a = "\<lambda>s. J_array [J_object [(''key_code'', J_string s)]]"
  let ?J = "{?o ''a'', ?o ''b'', ?a ''x'', ?a ''y'', ?a ''z''}"
  have "reparses key_texts ?J" "no_empty_key ?J" "texts_of key_texts ?J [(''ob'', ''ax''), (''oa'', ''ay''), (''ob'', ''az'')]"
    by (simp_all add: reparses_def no_empty_key_def texts_of_def key_texts_def)
  from simple_modifications_round_trip [OF this, of "[]" "[]"] obtain ps' where
    "handle_modifications_json key_texts (J_array (pairs_to_json key_texts [] [(''ob'', ''ax''), (''oa'', ''ay''), (''ob'', ''az'')])) [] = Inr ps'"
    "in_effect key_texts ps' = in_effect key_texts [] ++ in_effect key_texts [(''ob'', ''ax''), (''oa'', ''ay''), (''ob'', ''az'')]" by auto
  moreover have "valid_pair key_texts (''ob'', ''ax'')" by (simp add: valid_pair_def key_texts_def)
  then have "in_effect key_texts [(''ob'', ''ax''), (''oa'', ''ay''), (''ob'', ''az'')] ''ob'' = Some ''ax''" by (simp add: in_effect_def)
  ultimately show ?thesis by (auto simp: map_add_def)
qed

text \<open>
  A modification whose \<open>from\<close> is no object is not an error of the file that names its place: erasing
  the empty key throws an error of the JSON library, whatever else the array holds.
\<close>

theorem from_must_be_object:
  assumes "\<forall>xs. f \<noteq> J_object xs"
  shows "handle_modifications_json t (J_array (J_object [(''from'', f), (''to'', to)] # js)) ps = Inl Json_type_error"
  using assms by (cases f) (auto simp: handle_modifications_json_def pair_item_def)

theorem from_must_be_object_witness:
  "handle_modifications_json key_texts (J_array [J_object [(''from'', J_string ''a''), (''to'', J_array [])]]) [] = Inl Json_type_error"
  using from_must_be_object [of "J_string ''a''" key_texts "J_array []" "[]" "[]"] by simp

end
