(* ===== verification/DeviceConfiguration.thy ===== *)
theory DeviceConfiguration
  imports SimpleModifications
begin

text \<open>
  The settings of one device (\<open>src/share/core_configuration/details/profile/device.hpp\<close>): the members with
  their defaults, of which two depend on the device, the explicit or inherited \<open>ignore\<close>, the simple
  modifications and function keys, and the coordination of two members that must not both be set.
\<close>

subsection \<open>The members\<close>

datatype device_flag =
    Manipulate_caps_lock_led | Swap_grave_accent_and_non_us_backslash | Ignore_vendor_events
  | Treat_as_built_in_keyboard | Disable_built_in_keyboard_if_exists
  | Mouse_flip_x | Mouse_flip_y | Mouse_flip_vertical_wheel | Mouse_flip_horizontal_wheel
  | Mouse_swap_xy | Mouse_swap_wheels
  | Mouse_discard_x | Mouse_discard_y | Mouse_discard_vertical_wheel | Mouse_discard_horizontal_wheel
  | Game_pad_swap_sticks

fun device_flag_key :: "device_flag \<Rightarrow> string" where
  "device_flag_key Manipulate_caps_lock_led = ''manipulate_caps_lock_led''"
| "device_flag_key Swap_grave_accent_and_non_us_backslash = ''swap_grave_accent_and_non_us_backslash''"
| "device_flag_key Ignore_vendor_events = ''ignore_vendor_events''"
| "device_flag_key Treat_as_built_in_keyboard = ''treat_as_built_in_keyboard''"
| "device_flag_key Disable_built_in_keyboard_if_exists = ''disable_built_in_keyboard_if_exists''"
| "device_flag_key Mouse_flip_x = ''mouse_flip_x''"
| "device_flag_key Mouse_flip_y = ''mouse_flip_y''"
| "device_flag_key Mouse_flip_vertical_wheel = ''mouse_flip_vertical_wheel''"
| "device_flag_key Mouse_flip_horizontal_wheel = ''mouse_flip_horizontal_wheel''"
| "device_flag_key Mouse_swap_xy = ''mouse_swap_xy''"
| "device_flag_key Mouse_swap_wheels = ''mouse_swap_wheels''"
| "device_flag_key Mouse_discard_x = ''mouse_discard_x''"
| "device_flag_key Mouse_discard_y = ''mouse_discard_y''"
| "device_flag_key Mouse_discard_vertical_wheel = ''mouse_discard_vertical_wheel''"
| "device_flag_key Mouse_discard_horizontal_wheel = ''mouse_discard_horizontal_wheel''"
| "device_flag_key Game_pad_swap_sticks = ''game_pad_swap_sticks''"

datatype device_number =
    Pointing_motion_xy_multiplier | Pointing_motion_wheels_multiplier
  | Xy_stick_deadzone | Xy_stick_delta_threshold | Xy_stick_absolute_threshold
  | Wheels_stick_deadzone | Wheels_stick_delta_threshold | Wheels_stick_absolute_threshold

fun number_key :: "device_number \<Rightarrow> string" where
  "number_key Pointing_motion_xy_multiplier = ''pointing_motion_xy_multiplier''"
| "number_key Pointing_motion_wheels_multiplier = ''pointing_motion_wheels_multiplier''"
| "number_key Xy_stick_deadzone = ''game_pad_xy_stick_deadzone''"
| "number_key Xy_stick_delta_threshold = ''game_pad_xy_stick_delta_magnitude_detection_threshold''"
| "number_key Xy_stick_absolute_threshold = ''game_pad_xy_stick_continued_movement_absolute_magnitude_threshold''"
| "number_key Wheels_stick_deadzone = ''game_pad_wheels_stick_deadzone''"
| "number_key Wheels_stick_delta_threshold = ''game_pad_wheels_stick_delta_magnitude_detection_threshold''"
| "number_key Wheels_stick_absolute_threshold = ''game_pad_wheels_stick_continued_movement_absolute_magnitude_threshold''"

datatype device_interval = Xy_stick_interval | Wheels_stick_interval

fun interval_key :: "device_interval \<Rightarrow> string" where
  "interval_key Xy_stick_interval = ''game_pad_xy_stick_continued_movement_interval_milliseconds''"
| "interval_key Wheels_stick_interval = ''game_pad_wheels_stick_continued_movement_interval_milliseconds''"

datatype device_formula = Stick_x_formula | Stick_y_formula | Stick_vertical_wheel_formula | Stick_horizontal_wheel_formula

fun formula_key :: "device_formula \<Rightarrow> string" where
  "formula_key Stick_x_formula = ''game_pad_stick_x_formula''"
| "formula_key Stick_y_formula = ''game_pad_stick_y_formula''"
| "formula_key Stick_vertical_wheel_formula = ''game_pad_stick_vertical_wheel_formula''"
| "formula_key Stick_horizontal_wheel_formula = ''game_pad_stick_horizontal_wheel_formula''"

subsection \<open>The default formulas\<close>

fun text_lines :: "string list \<Rightarrow> string" where
  "text_lines [] = []"
| "text_lines [s] = s"
| "text_lines (s # ss) = s @ newline # text_lines ss"

definition isspace :: "char \<Rightarrow> bool" where
  "isspace c \<longleftrightarrow> (let n = of_char c :: nat in (9 \<le> n \<and> n \<le> 13) \<or> n = 32)"

definition trim_copy :: "string \<Rightarrow> string" where
  "trim_copy s = rev (dropWhile isspace (rev (dropWhile isspace s)))"

definition motion_magnitude :: "string list" where
  "motion_magnitude =
     [''var m:= 0;'', [],
      ''if (continued_movement == false) {'',
      ''  m := delta_magnitude * 16;'',
      ''} else if (absolute_magnitude < 1.5) {'',
      ''  m := absolute_magnitude * 8;'',
      ''} else if (absolute_magnitude < 2) {'',
      ''  m := absolute_magnitude * 12;'',
      ''} else {'',
      ''  m := absolute_magnitude * 24;'',
      ''};'', []]"

definition wheel_magnitude :: "string \<Rightarrow> string list" where
  "wheel_magnitude compared =
     [''var m := 0;'', [],
      ''if (abs(cos(radian)) '' @ compared @ '' abs(sin(radian))) {'',
      ''  if (continued_movement == false) {'',
      ''    m := delta_magnitude;'',
      ''  } else {'',
      ''    m := absolute_magnitude * 0.1;'',
      ''  };'',
      ''};'', []]"

fun default_formula :: "device_formula \<Rightarrow> string" where
  "default_formula Stick_x_formula = text_lines (motion_magnitude @ [''cos(radian) * m;''])"
| "default_formula Stick_y_formula = text_lines (motion_magnitude @ [''sin(radian) * m;''])"
| "default_formula Stick_vertical_wheel_formula = text_lines (wheel_magnitude ''<'' @ [''sin(radian) * m;''])"
| "default_formula Stick_horizontal_wheel_formula = text_lines (wheel_magnitude ''>'' @ [''cos(radian) * m;''])"

definition device_entries :: "bool \<Rightarrow> config_entry list" where
  "device_entries led =
     [mk_entry_of (device_flag_key Manipulate_caps_lock_led) (Cv_bool led)] @
     map (\<lambda>f. mk_entry_of (device_flag_key f) (Cv_bool False))
       [Swap_grave_accent_and_non_us_backslash, Ignore_vendor_events, Treat_as_built_in_keyboard, Disable_built_in_keyboard_if_exists] @
     [mk_entry_of (number_key Pointing_motion_xy_multiplier) (Cv_double 1),
      mk_entry_of (number_key Pointing_motion_wheels_multiplier) (Cv_double 1)] @
     map (\<lambda>f. mk_entry_of (device_flag_key f) (Cv_bool False))
       [Mouse_flip_x, Mouse_flip_y, Mouse_flip_vertical_wheel, Mouse_flip_horizontal_wheel, Mouse_swap_xy, Mouse_swap_wheels,
        Mouse_discard_x, Mouse_discard_y, Mouse_discard_vertical_wheel, Mouse_discard_horizontal_wheel, Game_pad_swap_sticks] @
     [mk_entry_of (number_key Xy_stick_deadzone) (Cv_double (1 / 10)),
      mk_entry_of (number_key Xy_stick_delta_threshold) (Cv_double (2 / 100)),
      mk_entry_of (number_key Xy_stick_absolute_threshold) (Cv_double 1),
      mk_entry_of (interval_key Xy_stick_interval) (Cv_int 20),
      mk_entry_of (number_key Wheels_stick_deadzone) (Cv_double (1 / 10)),
      mk_entry_of (number_key Wheels_stick_delta_threshold) (Cv_double (2 / 100)),
      mk_entry_of (number_key Wheels_stick_absolute_threshold) (Cv_double 1),
      mk_entry_of (interval_key Wheels_stick_interval) (Cv_int 10)] @
     map (\<lambda>f. mk_entry_of (formula_key f) (Cv_string (default_formula f)))
       [Stick_x_formula, Stick_y_formula, Stick_vertical_wheel_formula, Stick_horizontal_wheel_formula]"

subsection \<open>Reading\<close>

record default_values =
  df_ignore :: bool
  df_manipulate_caps_lock_led :: bool

record device_settings =
  dv_json :: "(string \<times> json) list"
  dv_identifiers :: device_identifiers
  dv_ignore :: bool
  dv_ignore_configured :: bool
  dv_values :: "config_entry list"
  dv_simple_modifications :: modification_pairs
  dv_fn_function_keys :: modification_pairs

definition no_default_values :: "device_identifiers \<Rightarrow> default_values" where
  "no_default_values i = \<lparr>df_ignore = False, df_manipulate_caps_lock_led = False\<rparr>"

text \<open>The function keys f1 to f12, each with an empty object to stand for no modification.\<close>

definition function_key_names :: "string list" where
  "function_key_names =
     [''f1'', ''f2'', ''f3'', ''f4'', ''f5'', ''f6'', ''f7'', ''f8'', ''f9'', ''f10'', ''f11'', ''f12'']"

definition device_default_fn_pairs :: "(json \<times> json) list" where
  "device_default_fn_pairs = map (\<lambda>k. (J_object [(''key_code'', J_string k)], J_object [])) function_key_names"

definition make_device_identifiers :: "json \<Rightarrow> json_error + device_identifiers" where
  "make_device_identifiers j =
     (case json_find ''identifiers'' j of
        Some v \<Rightarrow> wrap_error ''`identifiers` error: '' (identifiers_from_json v)
      | None \<Rightarrow> Inr default_identifiers)"

definition device_flag_of :: "device_flag \<Rightarrow> device_settings \<Rightarrow> bool" where
  "device_flag_of f d = flag_of (device_flag_key f) (dv_values d)"

definition coordinate_between_properties :: "device_settings \<Rightarrow> device_settings" where
  "coordinate_between_properties d =
     (if device_flag_of Treat_as_built_in_keyboard d \<and> device_flag_of Disable_built_in_keyboard_if_exists d
      then d\<lparr>dv_values := set_value (device_flag_key Disable_built_in_keyboard_if_exists) (Cv_bool False) (dv_values d)\<rparr>
      else d)"

text \<open>The explicit \<open>ignore\<close>: its value and whether it is configured.\<close>

definition read_ignore :: "error_handling \<Rightarrow> (string \<times> json) list \<Rightarrow> bool \<Rightarrow> json_error + bool \<times> bool" where
  "read_ignore h xs inherited =
     (case map_of xs ''ignore'' of
        None \<Rightarrow> Inr (inherited, False)
      | Some v \<Rightarrow>
          (case requires_boolean (quoted ''ignore'') v of
             Inr b \<Rightarrow> Inr (b, True)
           | Inl e \<Rightarrow> if h = Strict then Inl e else Inr (inherited, False)))"

definition read_modifications_item :: "text_tools \<Rightarrow> string \<Rightarrow> json \<Rightarrow> modification_pairs \<times> modification_pairs \<Rightarrow>
    json_error + modification_pairs \<times> modification_pairs" where
  "read_modifications_item t k v ms =
     (if k = ''simple_modifications'' then
        and_then (wrap_error (quoted k @ '' error: '') (handle_modifications_json t v (fst ms))) (\<lambda>ps. Inr (ps, snd ms))
      else if k = ''fn_function_keys'' then
        and_then (wrap_error (quoted k @ '' error: '') (handle_modifications_json t v (snd ms))) (\<lambda>ps. Inr (fst ms, ps))
      else Inr ms)"

definition mk_device :: "text_tools \<Rightarrow> (device_identifiers \<Rightarrow> default_values) \<Rightarrow> error_handling \<Rightarrow> json \<Rightarrow> json_error + device_settings" where
  "mk_device t resolve h j =
     and_then (make_device_identifiers j) (\<lambda>i.
     let d = resolve i in
     and_then (handle_modifications_json t (J_array (map entry_json device_default_fn_pairs)) []) (\<lambda>fn.
     and_then (requires_object ''json'' j) (\<lambda>xs.
     and_then (update_values h j (device_entries (df_manipulate_caps_lock_led d))) (\<lambda>es.
     and_then (read_ignore h xs (df_ignore d)) (\<lambda>(ignore, configured).
     and_then (fold_items (read_modifications_item t) xs ([], fn)) (\<lambda>(simple, fn).
     Inr (coordinate_between_properties
       \<lparr>dv_json = xs, dv_identifiers = i, dv_ignore = ignore, dv_ignore_configured = configured, dv_values = es,
        dv_simple_modifications = simple, dv_fn_function_keys = fn\<rparr>)))))))"

subsection \<open>Writing\<close>

definition update_array :: "string \<Rightarrow> json list \<Rightarrow> (string \<times> json) list \<Rightarrow> (string \<times> json) list" where
  "update_array k js xs = (if js \<noteq> [] then obj_set k (J_array js) xs else obj_erase k xs)"

definition device_to_json :: "text_tools \<Rightarrow> device_settings \<Rightarrow> (string \<times> json) list" where
  "device_to_json t d =
     (let j = update_jsons (dv_values d) (dv_json d);
          j = (if dv_ignore_configured d then obj_set ''ignore'' (J_bool (dv_ignore d)) j else obj_erase ''ignore'' j);
          j = obj_set ''identifiers'' (identifiers_to_json (dv_identifiers d)) j;
          j = update_array ''simple_modifications'' (pairs_to_json t [] (dv_simple_modifications d)) j;
          j = update_array ''fn_function_keys'' (pairs_to_json t device_default_fn_pairs (dv_fn_function_keys d)) j
      in if length j = 1 then obj_erase ''identifiers'' j else j)"

subsection \<open>The setters\<close>

definition set_ignore :: "bool \<Rightarrow> device_settings \<Rightarrow> device_settings" where
  "set_ignore b d = coordinate_between_properties (d\<lparr>dv_ignore := b, dv_ignore_configured := True\<rparr>)"

definition update_default_values :: "default_values \<Rightarrow> device_settings \<Rightarrow> device_settings" where
  "update_default_values v d =
     (let d = (if \<not> dv_ignore_configured d then d\<lparr>dv_ignore := df_ignore v\<rparr> else d)
      in coordinate_between_properties
           (d\<lparr>dv_values := set_default_value (device_flag_key Manipulate_caps_lock_led) (Cv_bool (df_manipulate_caps_lock_led v)) (dv_values d)\<rparr>))"

definition set_device_value :: "string \<Rightarrow> config_value \<Rightarrow> device_settings \<Rightarrow> device_settings" where
  "set_device_value k v d = coordinate_between_properties (d\<lparr>dv_values := set_value k v (dv_values d)\<rparr>)"

definition set_device_flag :: "device_flag \<Rightarrow> bool \<Rightarrow> device_settings \<Rightarrow> device_settings" where
  "set_device_flag f b d = set_device_value (device_flag_key f) (Cv_bool b) d"

definition set_device_number :: "device_number \<Rightarrow> rat \<Rightarrow> device_settings \<Rightarrow> device_settings" where
  "set_device_number n r d = set_device_value (number_key n) (Cv_double r) d"

definition set_device_interval :: "device_interval \<Rightarrow> int \<Rightarrow> device_settings \<Rightarrow> device_settings" where
  "set_device_interval i n d = set_device_value (interval_key i) (Cv_int n) d"

definition set_device_formula :: "device_formula \<Rightarrow> string \<Rightarrow> device_settings \<Rightarrow> device_settings" where
  "set_device_formula f s d = set_device_value (formula_key f) (Cv_string (trim_copy s)) d"

definition device_find_default_value :: "string \<Rightarrow> device_settings \<Rightarrow> config_value \<Rightarrow> config_value" where
  "device_find_default_value k d fallback = find_default_value k (dv_values d) fallback"

text \<open>\<open>is_nan\<close> says whether the third-party evaluator gives no number for a formula and its variables.\<close>

definition validate_stick_formula :: "(string \<Rightarrow> (string \<times> rat) list \<Rightarrow> bool) \<Rightarrow> string \<Rightarrow> bool" where
  "validate_stick_formula is_nan s \<longleftrightarrow>
     \<not> is_nan s [(''radian'', 0), (''delta_magnitude'', 1 / 10), (''absolute_magnitude'', 1 / 2), (''continued_movement'', 1)]"

subsection \<open>The two settings that exclude each other\<close>

datatype device_op =
    Dv_ignore bool
  | Dv_defaults default_values
  | Dv_flag device_flag bool
  | Dv_number device_number rat
  | Dv_interval device_interval int
  | Dv_formula device_formula string

fun device_step :: "device_op \<Rightarrow> device_settings \<Rightarrow> device_settings" where
  "device_step (Dv_ignore b) d = set_ignore b d"
| "device_step (Dv_defaults v) d = update_default_values v d"
| "device_step (Dv_flag f b) d = set_device_flag f b d"
| "device_step (Dv_number n r) d = set_device_number n r d"
| "device_step (Dv_interval i n) d = set_device_interval i n d"
| "device_step (Dv_formula f s) d = set_device_formula f s d"

definition not_both :: "device_settings \<Rightarrow> bool" where
  "not_both d \<longleftrightarrow> \<not> (device_flag_of Treat_as_built_in_keyboard d \<and> device_flag_of Disable_built_in_keyboard_if_exists d)"

lemma flag_of_set_value: "k \<in> ce_key ` set es \<Longrightarrow> flag_of k (set_value k (Cv_bool b) es) = b"
  by (simp add: flag_of_def value_of_set_value)

lemma flag_of_present: "flag_of k es \<Longrightarrow> k \<in> ce_key ` set es"
  by (induction es) (auto simp: flag_of_def value_of_def find_value_def split: if_splits)

lemma coordinate_not_both: "not_both (coordinate_between_properties d)"
proof (cases "not_both d")
  case False
  then have "device_flag_key Disable_built_in_keyboard_if_exists \<in> ce_key ` set (dv_values d)"
    by (intro flag_of_present) (simp add: not_both_def device_flag_of_def)
  then show ?thesis using False
    by (simp add: coordinate_between_properties_def not_both_def device_flag_of_def flag_of_set_value del: device_flag_key.simps)
qed (auto simp: coordinate_between_properties_def not_both_def)

lemma device_step_not_both: "not_both (device_step op d)"
  by (cases op) (simp_all add: set_ignore_def update_default_values_def Let_def set_device_flag_def set_device_number_def
      set_device_interval_def set_device_formula_def set_device_value_def coordinate_not_both)

lemma mk_device_coordinated: "mk_device t resolve h j = Inr d \<Longrightarrow> \<exists>d'. d = coordinate_between_properties d'"
  by (auto simp: mk_device_def Let_def and_then_Inr_iff split: prod.splits)

subsection \<open>The choice of the user\<close>

text \<open>
  Specification: what the user has chosen, if anything, and the default that holds.
\<close>

fun choice_step :: "device_op \<Rightarrow> bool option \<Rightarrow> bool option" where
  "choice_step (Dv_ignore b) c = Some b"
| "choice_step _ c = c"

definition ignore_choice :: "device_settings \<Rightarrow> bool option" where
  "ignore_choice d = (if dv_ignore_configured d then Some (dv_ignore d) else None)"

lemma coordinate_keeps [simp]:
  "dv_ignore (coordinate_between_properties d) = dv_ignore d"
  "dv_ignore_configured (coordinate_between_properties d) = dv_ignore_configured d"
  "dv_identifiers (coordinate_between_properties d) = dv_identifiers d"
  "dv_json (coordinate_between_properties d) = dv_json d"
  by (simp_all add: coordinate_between_properties_def)

lemma device_step_choice: "ignore_choice (device_step op d) = choice_step op (ignore_choice d)"
  by (cases op) (simp_all add: ignore_choice_def set_ignore_def update_default_values_def Let_def set_device_flag_def
      set_device_number_def set_device_interval_def set_device_formula_def set_device_value_def)

text \<open>The \<open>ignore\<close> in effect is the choice, or else the last default that was given.\<close>

fun default_step :: "device_op \<Rightarrow> bool \<Rightarrow> bool" where
  "default_step (Dv_defaults v) b = df_ignore v"
| "default_step _ b = b"

lemma device_step_ignore:
  "\<not> dv_ignore_configured (device_step op d) \<Longrightarrow> dv_ignore (device_step op d) = default_step op (dv_ignore d)"
  by (cases op) (simp_all add: set_ignore_def update_default_values_def Let_def set_device_flag_def
      set_device_number_def set_device_interval_def set_device_formula_def set_device_value_def split: if_splits)

interpretation devices: refined_machine device_step "coordinate_between_properties d" not_both "\<lambda>_. True" ignore_choice choice_step for d
  by unfold_locales (rule coordinate_not_both, rule device_step_not_both, rule device_step_choice)

lemma inherited_ignore:
  "ignore_choice (run_ops device_step ops d) = None \<Longrightarrow>
   dv_ignore (run_ops device_step ops d) = run_ops default_step ops (dv_ignore d)"
proof (induction ops arbitrary: d)
  case (Cons op ops)
  have keep: "choice_step op c \<noteq> None" if "c \<noteq> None" for op c using that by (cases op) simp_all
  have "run_ops choice_step ops c \<noteq> None" if "c \<noteq> None" for c
    using that by (induction ops arbitrary: c) (use keep in \<open>simp_all del: not_None_eq\<close>)
  moreover have "ignore_choice (run_ops device_step ops (device_step op d)) = run_ops choice_step ops (ignore_choice (device_step op d))" for d
    by (induction ops arbitrary: d op) (simp_all add: device_step_choice)
  ultimately have "ignore_choice (device_step op d) = None" using Cons.prems by force
  then have "\<not> dv_ignore_configured (device_step op d)" by (simp add: ignore_choice_def split: if_splits)
  then show ?case using Cons device_step_ignore [of op d] by simp
qed simp

lemma map_of_update_array:
  "map_of (update_array k js xs) k' = (if k' = k then if js \<noteq> [] then Some (J_array js) else None else map_of xs k')"
  by (simp add: update_array_def map_of_obj_set map_of_obj_erase)

lemma map_of_device_ignore: "map_of (device_to_json t d) ''ignore'' = map_option J_bool (ignore_choice d)"
  by (simp add: device_to_json_def Let_def map_of_update_array map_of_obj_set map_of_obj_erase ignore_choice_def)

subsection \<open>Properties\<close>

text \<open>
  C23. The user's choice for a device survives: whatever is read or set and however the defaults change,
  what is written of \<open>ignore\<close> and what is in effect is the last choice; as long as there is
  none, the last default is in effect and nothing is written.
\<close>

theorem explicit_ignore_survives:
  assumes "mk_device t resolve h j = Inr d" "d' = run_ops device_step ops d" "c = run_ops choice_step ops (ignore_choice d)"
  shows "map_of (device_to_json t d') ''ignore'' = map_option J_bool c \<and>
    dv_ignore d' = (case c of Some b \<Rightarrow> b | None \<Rightarrow> run_ops default_step ops (dv_ignore d))"
proof -
  obtain e where e: "d = coordinate_between_properties e" using mk_device_coordinated [OF assms(1)] by blast
  have c: "ignore_choice d' = c" using devices.refine_reachable [of ops e] by (simp add: assms(2,3) e)
  moreover have "dv_ignore d' = b" if "c = Some b" for b using c that by (simp add: ignore_choice_def split: if_splits)
  ultimately show ?thesis using map_of_device_ignore [of t d'] inherited_ignore [of ops d] assms(2)
    by (cases c) simp_all
qed

definition pointing_device_json :: json where
  "pointing_device_json = J_object [(''ignore'', J_bool False)]"

text \<open>Texts of the function keys and nothing else, for an example.\<close>

definition no_texts :: text_tools where
  "no_texts = \<lparr>tt_dump = (\<lambda>j. []), tt_parse = (\<lambda>s. None), tt_less = (\<lambda>a b. False)\<rparr>"

lemma function_keys_read: "\<exists>fn. handle_modifications_json t (J_array (map entry_json device_default_fn_pairs)) [] = Inr fn"
proof -
  have "\<exists>fn. read_pairs t (map entry_json (map (\<lambda>k. (J_object [(''key_code'', J_string k)], J_object [])) ks)) ps = Inr fn" for ks ps
    by (induction ks arbitrary: ps) (simp_all add: entry_json_def pair_item_def)
  then obtain fn where "read_pairs t (map entry_json device_default_fn_pairs) [] = Inr fn" unfolding device_default_fn_pairs_def by blast
  then show ?thesis by (simp add: handle_modifications_json_def)
qed

theorem explicit_ignore_survives_witness:
  "\<exists>d. mk_device no_texts (\<lambda>_. \<lparr>df_ignore = True, df_manipulate_caps_lock_led = False\<rparr>) Loose pointing_device_json = Inr d \<and>
    dv_ignore (run_ops device_step [Dv_defaults \<lparr>df_ignore = False, df_manipulate_caps_lock_led = False\<rparr>,
      Dv_defaults \<lparr>df_ignore = True, df_manipulate_caps_lock_led = False\<rparr>] d) = False"
proof -
  let ?ops = "[Dv_defaults \<lparr>df_ignore = False, df_manipulate_caps_lock_led = False\<rparr>,
      Dv_defaults \<lparr>df_ignore = True, df_manipulate_caps_lock_led = False\<rparr>]"
  obtain fn where "handle_modifications_json no_texts (J_array (map entry_json device_default_fn_pairs)) [] = Inr fn" using function_keys_read by blast
  moreover have "update_values Loose pointing_device_json (device_entries False) = Inr (device_entries False)"
    unfolding pointing_device_json_def by (rule update_values_absent) (auto simp: device_entries_def mk_entry_of_def)
  ultimately obtain d where d: "mk_device no_texts (\<lambda>_. \<lparr>df_ignore = True, df_manipulate_caps_lock_led = False\<rparr>) Loose pointing_device_json = Inr d"
    "ignore_choice d = Some False"
    by (simp add: mk_device_def make_device_identifiers_def pointing_device_json_def read_ignore_def read_modifications_item_def ignore_choice_def)
  show ?thesis using explicit_ignore_survives [OF d(1) refl refl, of ?ops] d by simp
qed

text \<open>
  A device is never a built-in keyboard and at the same time disabled by one: after a device is read, and after
  every operation on it, at most one of the two settings is on.
\<close>

theorem device_never_both:
  assumes "mk_device t resolve h j = Inr d" "d' = run_ops device_step ops d"
  shows "\<not> (device_flag_of Treat_as_built_in_keyboard d' \<and> device_flag_of Disable_built_in_keyboard_if_exists d')"
proof -
  obtain e where e: "d = coordinate_between_properties e" using mk_device_coordinated [OF assms(1)] by blast
  show ?thesis using devices.reachable_inv [of ops e] by (simp add: assms(2) e not_both_def)
qed

theorem device_never_both_witness:
  "\<exists>d. mk_device no_texts no_default_values Loose (J_object []) = Inr d \<and>
    \<not> (device_flag_of Treat_as_built_in_keyboard (run_ops device_step
        [Dv_flag Treat_as_built_in_keyboard True, Dv_flag Disable_built_in_keyboard_if_exists True] d) \<and>
       device_flag_of Disable_built_in_keyboard_if_exists (run_ops device_step
        [Dv_flag Treat_as_built_in_keyboard True, Dv_flag Disable_built_in_keyboard_if_exists True] d))"
proof -
  obtain fn where "handle_modifications_json no_texts (J_array (map entry_json device_default_fn_pairs)) [] = Inr fn" using function_keys_read by blast
  moreover have "update_values Loose (J_object []) (device_entries False) = Inr (device_entries False)"
    by (rule update_values_absent) simp
  ultimately obtain d where d: "mk_device no_texts no_default_values Loose (J_object []) = Inr d"
    by (simp add: mk_device_def make_device_identifiers_def read_ignore_def no_default_values_def)
  show ?thesis using device_never_both [OF d refl, of "[Dv_flag Treat_as_built_in_keyboard True, Dv_flag Disable_built_in_keyboard_if_exists True]"] d
    by blast
qed

end
