(* ===== verification/ComplexModifications.thy ===== *)
theory ComplexModifications
  imports DeviceConfiguration VectorUtility
begin

text \<open>
  Complex modifications (\<open>complex_modifications.hpp\<close> and \<open>complex_modifications_rule.hpp\<close> under
  \<open>src/share/core_configuration/details/profile\<close>): rules with their manipulators, each with its conditions and
  its own copy of the parameters, read from JSON or from a script whose value is JSON. The script engine, the
  printers of the JSON library and the text of one of its errors are parameters.
\<close>

subsection \<open>Manipulators\<close>

record cm_manipulator =
  mn_json :: json
  mn_conditions :: "json list"
  mn_parameters :: settings
  mn_description :: string

definition manipulator_item :: "error_handling \<Rightarrow> string \<Rightarrow> json \<Rightarrow> cm_manipulator \<Rightarrow> json_error + cm_manipulator" where
  "manipulator_item h k v m =
     (if k = ''conditions'' then
        and_then (requires_array (quoted k) v) (\<lambda>js. Inr (m\<lparr>mn_conditions := mn_conditions m @ js\<rparr>))
      else if k = ''parameters'' then
        and_then (update_cm_parameters h v (mn_parameters m)) (\<lambda>p. Inr (m\<lparr>mn_parameters := p\<rparr>))
      else if k = ''description'' then
        and_then (requires_string (quoted k) v) (\<lambda>s. Inr (m\<lparr>mn_description := s\<rparr>))
      else Inr m)"

definition mk_manipulator :: "error_handling \<Rightarrow> settings \<Rightarrow> json \<Rightarrow> json_error + cm_manipulator" where
  "mk_manipulator h params j =
     and_then (mk_cm_parameters h (J_object (settings_to_json params))) (\<lambda>p.
     and_then (requires_object ''json'' j) (\<lambda>xs.
     fold_items (manipulator_item h) xs
       \<lparr>mn_json = j, mn_conditions = [], mn_parameters = p, mn_description = []\<rparr>))"

subsection \<open>Rules\<close>

datatype code_type = Code_json | Code_javascript

record rule_tools =
  rl_eval :: "string \<Rightarrow> string + json"
  rl_format :: "json \<Rightarrow> string"
  rl_dump :: "json \<Rightarrow> string"
  rl_erase_error :: "json \<Rightarrow> string"

record cm_rule =
  ru_json :: "(string \<times> json) list"
  ru_manipulators :: "cm_manipulator list"
  ru_values :: "config_entry list"
  ru_description :: string
  ru_description_notes :: "string list"
  ru_code_type :: code_type
  ru_code_string :: string
  ru_search_text :: string

definition eval_js_error :: "string \<Rightarrow> json_error" where
  "eval_js_error m = Unmarshal_error (''`eval_js` error: '' @ m)"

text \<open>A script that gives no object fails when the key \<open>enabled\<close> is erased from its value.\<close>

definition resolve_code :: "rule_tools \<Rightarrow> json \<Rightarrow> json_error + code_type \<times> string \<times> json" where
  "resolve_code tools j =
     (case json_find ''eval_js'' j of
        Some v \<Rightarrow>
          and_then (requires_string ''`eval_js`'' v) (\<lambda>s.
            case rl_eval tools s of
              Inl m \<Rightarrow> Inl (eval_js_error m)
            | Inr r \<Rightarrow>
                (case json_erase ''enabled'' r of
                   Inl _ \<Rightarrow> Inl (eval_js_error (rl_erase_error tools r))
                 | Inr r' \<Rightarrow> Inr (Code_javascript, s, r')))
      | None \<Rightarrow> Inr (Code_json, rl_format tools j, j))"

fun all_entries :: "'a list \<times> json_error option \<Rightarrow> json_error + 'a list" where
  "all_entries (ys, None) = Inr ys"
| "all_entries (ys, Some e) = Inl e"

fun read_notes :: "string \<Rightarrow> json list \<Rightarrow> json_error + string list" where
  "read_notes k [] = Inr []"
| "read_notes k (j # js) =
     and_then (requires_string (quoted k @ '' entry'') j) (\<lambda>s. and_then (read_notes k js) (\<lambda>ss. Inr (s # ss)))"

definition rule_item :: "error_handling \<Rightarrow> settings \<Rightarrow> string \<Rightarrow> json \<Rightarrow> cm_manipulator list \<times> string \<times> string list \<Rightarrow>
    json_error + cm_manipulator list \<times> string \<times> string list" where
  "rule_item h params k v r =
     (case r of (ms, description, remarks) \<Rightarrow>
        if k = ''manipulators'' then
          and_then (requires_array (quoted k) v) (\<lambda>js.
          and_then (all_entries (read_entries k (mk_manipulator h params) js)) (\<lambda>new.
          Inr (ms @ new, description, remarks)))
        else if k = ''description'' then
          and_then (requires_string (quoted k) v) (\<lambda>s. Inr (ms, s, remarks))
        else if k = ''description_notes'' then
          and_then (requires_array (quoted k) v) (\<lambda>js.
          and_then (read_notes k js) (\<lambda>new. Inr (ms, description, remarks @ new)))
        else Inr r)"

fun first_description :: "cm_manipulator list \<Rightarrow> string" where
  "first_description [] = []"
| "first_description (m # ms) = (if mn_description m \<noteq> [] then mn_description m else first_description ms)"

definition append_search_text :: "string \<Rightarrow> string \<Rightarrow> string" where
  "append_search_text v s = (if v = [] then s else (if s = [] then [] else s @ [newline]) @ v)"

definition search_text :: "rule_tools \<Rightarrow> string \<Rightarrow> string list \<Rightarrow> cm_manipulator list \<Rightarrow> string" where
  "search_text tools description remarks ms =
     foldl (\<lambda>s v. append_search_text v s) [] (description # remarks @ map (\<lambda>m. rl_dump tools (mn_json m)) ms)"

definition rule_entries :: "config_entry list" where
  "rule_entries = [mk_entry_of ''enabled'' (Cv_bool True)]"

fun object_items :: "json \<Rightarrow> (string \<times> json) list" where
  "object_items (J_object xs) = xs"
| "object_items _ = []"

definition mk_rule :: "rule_tools \<Rightarrow> settings \<Rightarrow> error_handling \<Rightarrow> json \<Rightarrow> json_error + cm_rule" where
  "mk_rule tools params h j =
     and_then (resolve_code tools j) (\<lambda>(code_type, code, resolved).
     and_then (requires_object ''json'' resolved) (\<lambda>xs.
     and_then (update_values h j rule_entries) (\<lambda>es.
     and_then (fold_items (rule_item h params) xs ([], [], [])) (\<lambda>(ms, description, remarks).
     if ms = [] then Inl (Unmarshal_error_dump ''`manipulators` is missing or empty in '' resolved [])
     else
       let description = (if description = [] then first_description ms else description)
       in Inr \<lparr>ru_json = object_items j, ru_manipulators = ms, ru_values = es, ru_description = description,
                ru_description_notes = remarks, ru_code_type = code_type, ru_code_string = code,
                ru_search_text = search_text tools description remarks ms\<rparr>))))"

definition make_from_code :: "rule_tools \<Rightarrow> (string \<Rightarrow> json_error + json) \<Rightarrow> string \<Rightarrow> code_type \<Rightarrow> settings \<Rightarrow> error_handling \<Rightarrow> json_error + cm_rule" where
  "make_from_code tools parse code ct params h =
     (case ct of
        Code_json \<Rightarrow> and_then (parse code) (mk_rule tools params h)
      | Code_javascript \<Rightarrow> mk_rule tools params h (J_object [(''eval_js'', J_string code)]))"

definition rule_to_json :: "cm_rule \<Rightarrow> (string \<times> json) list" where
  "rule_to_json r = update_jsons (ru_values r) (ru_json r)"

definition set_rule_enabled :: "bool \<Rightarrow> cm_rule \<Rightarrow> cm_rule" where
  "set_rule_enabled b r = r\<lparr>ru_values := set_value ''enabled'' (Cv_bool b) (ru_values r)\<rparr>"

definition rule_enabled :: "cm_rule \<Rightarrow> bool" where
  "rule_enabled r = flag_of ''enabled'' (ru_values r)"

subsection \<open>The rules of a profile\<close>

record complex_modifications =
  cx_json :: "(string \<times> json) list"
  cx_parameters :: settings
  cx_rules :: "cm_rule list"

fun read_rules :: "(json \<Rightarrow> json_error + cm_rule) \<Rightarrow> json list \<Rightarrow> json_error + cm_rule list" where
  "read_rules mk [] = Inr []"
| "read_rules mk (j # js) = and_then (mk j) (\<lambda>r. and_then (read_rules mk js) (\<lambda>rs. Inr (r # rs)))"

text \<open>Rules that are no array are passed over.\<close>

definition find_array :: "string \<Rightarrow> json \<Rightarrow> json list" where
  "find_array k j = (case json_find k j of Some (J_array js) \<Rightarrow> js | _ \<Rightarrow> [])"

definition mk_complex_modifications :: "rule_tools \<Rightarrow> error_handling \<Rightarrow> json \<Rightarrow> json_error + complex_modifications" where
  "mk_complex_modifications tools h j =
     and_then (mk_cm_parameters h (J_object [])) (\<lambda>p.
     and_then (requires_object ''json'' j) (\<lambda>xs.
     and_then (update_object_value ''parameters'' (mk_cm_parameters h) j p) (\<lambda>p.
     and_then (read_rules (mk_rule tools p h) (find_array ''rules'' j)) (\<lambda>rs.
     Inr \<lparr>cx_json = xs, cx_parameters = p, cx_rules = rs\<rparr>))))"

definition complex_modifications_to_json :: "complex_modifications \<Rightarrow> (string \<times> json) list" where
  "complex_modifications_to_json c =
     update_array_json ''rules'' (map rule_to_json (cx_rules c))
       (update_object_json ''parameters'' (settings_to_json (cx_parameters c)) (cx_json c))"

definition push_front_rule :: "cm_rule \<Rightarrow> complex_modifications \<Rightarrow> complex_modifications" where
  "push_front_rule r c = c\<lparr>cx_rules := r # cx_rules c\<rparr>"

definition replace_rule :: "nat \<Rightarrow> cm_rule \<Rightarrow> complex_modifications \<Rightarrow> complex_modifications" where
  "replace_rule i r c = (if i < length (cx_rules c) then c\<lparr>cx_rules := (cx_rules c)[i := r]\<rparr> else c)"

definition erase_rule :: "nat \<Rightarrow> complex_modifications \<Rightarrow> complex_modifications" where
  "erase_rule i c = (if i < length (cx_rules c) then c\<lparr>cx_rules := erase_at i (cx_rules c)\<rparr> else c)"

definition move_rule :: "nat \<Rightarrow> nat \<Rightarrow> complex_modifications \<Rightarrow> complex_modifications" where
  "move_rule i k c = c\<lparr>cx_rules := move_element i k (cx_rules c)\<rparr>"

subsection \<open>Switching a rule on and off\<close>

text \<open>The items of an object other than \<open>enabled\<close>, which the readers of rules pass over.\<close>

lemma fold_items_skip:
  assumes "\<And>v s. f k v s = Inr s"
  shows "fold_items f xs s = fold_items f (filter (\<lambda>(k', v). k' \<noteq> k) xs) s"
  using assms by (induction xs arbitrary: s) (auto simp: and_then_def split: sum.split)

lemma filter_obj_set: "filter (\<lambda>(k', v). k' \<noteq> k) (obj_set k v xs) = filter (\<lambda>(k', v). k' \<noteq> k) xs"
  by (induction xs) auto

lemma filter_obj_erase: "filter (\<lambda>(k', v). k' \<noteq> k) (obj_erase k xs) = filter (\<lambda>(k', v). k' \<noteq> k) xs"
  by (simp add: obj_erase_def)

lemma rule_item_enabled: "rule_item h params ''enabled'' v r = Inr r"
  by (cases r) (simp add: rule_item_def)

lemma rule_items_updated:
  "fold_items (rule_item h params) (update_jsons [e] xs) r = fold_items (rule_item h params) xs r" if "ce_key e = ''enabled''"
  using fold_items_skip [of "rule_item h params" "''enabled''" "update_jsons [e] xs" r]
    fold_items_skip [of "rule_item h params" "''enabled''" xs r] rule_item_enabled that
  by (simp add: update_json_def filter_obj_set filter_obj_erase)

lemma rule_values:
  assumes "mk_rule tools params h j = Inr r"
  shows "\<exists>b. ru_values r = [\<lparr>ce_key = ''enabled'', ce_value = Cv_bool b, ce_default = Cv_bool True\<rparr>]"
proof -
  obtain es where es: "update_values h j rule_entries = Inr es" "ru_values r = es"
    using assms by (auto simp: mk_rule_def and_then_Inr_iff Let_def split: prod.splits if_splits)
  obtain e where e: "es = [e]" "same_shape e (mk_entry_of ''enabled'' (Cv_bool True))"
    using update_values_shape [OF es(1)] by (auto simp: rule_entries_def list_all2_Cons2)
  then obtain b where "ce_value e = Cv_bool b" by (cases "ce_value e") (auto simp: same_shape_def mk_entry_of_def)
  then show ?thesis using es(2) e by (cases e) (auto simp: same_shape_def mk_entry_of_def)
qed

lemma mk_rule_object: "mk_rule tools params h j = Inr r \<Longrightarrow> \<exists>xs. j = J_object xs \<and> ru_json r = xs"
proof -
  assume r: "mk_rule tools params h j = Inr r"
  then obtain es where es: "update_values h j rule_entries = Inr es" by (auto simp: mk_rule_def and_then_Inr_iff split: prod.splits)
  then obtain xs where "j = J_object xs" by (cases j) (auto simp: rule_entries_def update_value_def)
  then show ?thesis using r by (auto simp: mk_rule_def and_then_Inr_iff Let_def split: prod.splits if_splits)
qed

lemma map_of_filter_other: "k' \<noteq> k \<Longrightarrow> map_of (filter (\<lambda>(k', v). k' \<noteq> k) xs) k' = map_of xs k'"
  by (induction xs) auto

text \<open>What the rest of the program uses of a rule, besides whether it is enabled.\<close>

definition rule_content :: "cm_rule \<Rightarrow> cm_manipulator list \<times> string \<times> string list \<times> code_type" where
  "rule_content r = (ru_manipulators r, ru_description r, ru_description_notes r, ru_code_type r)"

lemma toggled_rule_reads:
  assumes "mk_rule tools params h j = Inr r"
  shows "\<exists>r'. mk_rule tools params h (J_object (rule_to_json (set_rule_enabled b r))) = Inr r' \<and>
    rule_content r' = rule_content r \<and> ru_search_text r' = ru_search_text r \<and> rule_enabled r' = b"
proof -
  obtain xs where j: "j = J_object xs" "ru_json r = xs" using mk_rule_object [OF assms] by blast
  define e where "e = \<lparr>ce_key = ''enabled'', ce_value = Cv_bool b, ce_default = Cv_bool True\<rparr>"
  obtain b0 where b0: "ru_values r = [\<lparr>ce_key = ''enabled'', ce_value = Cv_bool b0, ce_default = Cv_bool True\<rparr>]" using rule_values [OF assms] by blast
  have w: "rule_to_json (set_rule_enabled b r) = update_jsons [e] xs"
    by (simp add: rule_to_json_def set_rule_enabled_def b0 set_value_def change_entry_def e_def j(2))
  have vals: "update_values h (J_object (update_jsons [e] xs)) rule_entries = Inr [e]"
    using read_back_values [of "[e]" h xs] by (simp add: entries_ok_def entry_ok_def e_def rule_entries_def reset_entry_def mk_entry_of_def)
  have js: "map_of (update_jsons [e] xs) ''eval_js'' = map_of xs ''eval_js''" by (simp add: map_of_update_json e_def)
  obtain ct code rj where res: "resolve_code tools j = Inr (ct, code, rj)"
    using assms by (auto simp: mk_rule_def and_then_Inr_iff)
  obtain ys where ys: "rj = J_object ys" using assms res by (cases rj) (auto simp: mk_rule_def and_then_Inr_iff)
  obtain ms description remarks where fold: "fold_items (rule_item h params) ys ([], [], []) = Inr (ms, description, remarks)" "ms \<noteq> []"
    using assms res by (auto simp: mk_rule_def and_then_Inr_iff ys split: prod.splits if_splits)
  have "\<exists>code' zs. resolve_code tools (J_object (update_jsons [e] xs)) = Inr (ct, code', J_object zs) \<and>
      fold_items (rule_item h params) zs ([], [], []) = fold_items (rule_item h params) ys ([], [], [])"
  proof (cases "map_of xs ''eval_js''")
    case None
    then have "ct = Code_json" "ys = xs" using res ys by (auto simp: resolve_code_def j(1))
    then show ?thesis using None js rule_items_updated [of e h params xs] by (auto simp: resolve_code_def e_def)
  next
    case (Some v)
    then have "resolve_code tools (J_object (update_jsons [e] xs)) = resolve_code tools j"
      using js by (simp add: resolve_code_def j(1))
    then show ?thesis using res ys by auto
  qed
  then obtain code' zs where new: "resolve_code tools (J_object (update_jsons [e] xs)) = Inr (ct, code', J_object zs)"
    "fold_items (rule_item h params) zs ([], [], []) = Inr (ms, description, remarks)" using fold(1) by auto
  have flag: "flag_of ''enabled'' [e] = b" by (simp add: flag_of_def value_of_def find_value_def e_def)
  have old: "ru_manipulators r = ms" "ru_description r = (if description = [] then first_description ms else description)"
    "ru_description_notes r = remarks" "ru_code_type r = ct"
    "ru_search_text r = search_text tools (if description = [] then first_description ms else description) remarks ms"
    using assms fold res by (auto simp: mk_rule_def and_then_Inr_iff ys Let_def split: prod.splits if_splits)
  show ?thesis
    unfolding w mk_rule_def new and_then_simps prod.case requires_object.simps vals if_not_P [OF fold(2)] Let_def
    using old flag by (simp add: rule_content_def rule_enabled_def)
qed

subsection \<open>The parameters of the manipulators\<close>

lemma mk_manipulator_inv:
  assumes "mk_manipulator h params j = Inr m"
  shows "cm_inv (mn_parameters m)"
proof -
  obtain p xs where p: "mk_cm_parameters h (J_object (settings_to_json params)) = Inr p"
    "fold_items (manipulator_item h) xs \<lparr>mn_json = j, mn_conditions = [], mn_parameters = p, mn_description = []\<rparr> = Inr m"
    using assms by (auto simp: mk_manipulator_def and_then_Inr_iff)
  have step: "cm_inv (mn_parameters m')" if "manipulator_item h k v m = Inr m'" "cm_inv (mn_parameters m)" for k v m m'
    using that cm_step_inv [of "mn_parameters m" "Cm_update h v"]
    by (auto simp: manipulator_item_def and_then_Inr_iff split: if_splits)
  have "cm_inv (mn_parameters m')" if "fold_items (manipulator_item h) xs m0 = Inr m'" "cm_inv (mn_parameters m0)" for xs m0 m'
    using that
  proof (induction xs arbitrary: m0)
    case (Cons x xs)
    then obtain m1 where "manipulator_item h (fst x) (snd x) m0 = Inr m1" "fold_items (manipulator_item h) xs m1 = Inr m'"
      by (cases x) (auto simp: and_then_Inr_iff)
    then show ?case using Cons.IH step Cons.prems(2) by blast
  qed simp
  then show ?thesis using p(2) mk_cm_parameters_inv [OF p(1)] by force
qed

lemma read_entries_all: "read_entries k mk js = (ys, None) \<Longrightarrow> y \<in> set ys \<Longrightarrow> \<exists>j\<in>set js. mk j = Inr y"
proof (induction js arbitrary: ys)
  case (Cons j js)
  then obtain x zs where x: "wrap_error (quoted k @ '' entry error: '') (mk j) = Inr x" "read_entries k mk js = (zs, None)" "ys = x # zs"
    by (auto split: sum.splits prod.splits)
  then have "mk j = Inr x" by (auto simp: wrap_error_def split: sum.splits json_error.splits)
  then show ?case using Cons.IH [OF x(2)] Cons.prems(2) x(3) by auto
qed simp

lemma rule_manipulators_inv:
  assumes "mk_rule tools params h j = Inr r" "m \<in> set (ru_manipulators r)"
  shows "cm_inv (mn_parameters m)"
proof -
  have step: "\<forall>m\<in>set (fst s'). cm_inv (mn_parameters m)"
    if "rule_item h params k v s = Inr s'" "\<forall>m\<in>set (fst s). cm_inv (mn_parameters m)" for k v s s'
    using that
  proof (cases "k = ''manipulators''")
    case True
    note item = \<open>rule_item h params k v s = Inr s'\<close> and ok = \<open>\<forall>m\<in>set (fst s). cm_inv (mn_parameters m)\<close>
    obtain ms description remarks where s: "s = (ms, description, remarks)" by (cases s) auto
    obtain js new where "all_entries (read_entries k (mk_manipulator h params) js) = Inr new" "fst s' = ms @ new"
      using item True by (auto simp: rule_item_def s and_then_Inr_iff)
    then have new: "read_entries k (mk_manipulator h params) js = (new, None)" "fst s' = ms @ new"
      by (cases "read_entries k (mk_manipulator h params) js" rule: all_entries.cases; simp)+
    have "\<forall>m\<in>set new. cm_inv (mn_parameters m)" using read_entries_all [OF new(1)] mk_manipulator_inv by blast
    then show ?thesis using ok new(2) by (auto simp: s)
  next
    case False
    note item = \<open>rule_item h params k v s = Inr s'\<close> and ok = \<open>\<forall>m\<in>set (fst s). cm_inv (mn_parameters m)\<close>
    obtain ms description remarks where s: "s = (ms, description, remarks)" by (cases s) auto
    have "fst s' = ms" using item False by (auto simp: rule_item_def s and_then_Inr_iff split: if_splits)
    then show ?thesis using ok by (simp add: s)
  qed
  have all: "\<forall>m\<in>set (fst s'). cm_inv (mn_parameters m)"
    if "fold_items (rule_item h params) xs s = Inr s'" "\<forall>m\<in>set (fst s). cm_inv (mn_parameters m)" for xs s s'
    using that
  proof (induction xs arbitrary: s)
    case (Cons x xs)
    then obtain s1 where s1: "rule_item h params (fst x) (snd x) s = Inr s1" "fold_items (rule_item h params) xs s1 = Inr s'"
      by (cases x) (auto simp: and_then_Inr_iff)
    show ?case by (rule Cons.IH [OF s1(2) step [OF s1(1) Cons.prems(2)]])
  qed simp
  obtain xs s where "fold_items (rule_item h params) xs ([], [], []) = Inr s" "ru_manipulators r = fst s"
    using assms(1) by (auto simp: mk_rule_def and_then_Inr_iff Let_def split: prod.splits if_splits)
  then show ?thesis using all [of xs "([], [], [])" s] assms(2) by simp
qed

subsection \<open>Properties\<close>

text \<open>
  C26. Switching a rule on or off and saving it changes nothing else: the rule read back from what is written has
  the same manipulators, description and notes, also when it comes from a script, and is
  enabled as it was set.
\<close>

theorem toggled_rule_is_the_same:
  assumes "mk_rule tools params h j = Inr r"
  shows "\<exists>r'. mk_rule tools params h (J_object (rule_to_json (set_rule_enabled b r))) = Inr r' \<and>
    ru_manipulators r' = ru_manipulators r \<and> ru_description r' = ru_description r \<and>
    ru_description_notes r' = ru_description_notes r \<and> ru_code_type r' = ru_code_type r \<and>
    ru_search_text r' = ru_search_text r \<and> rule_enabled r' = b"
  using toggled_rule_reads [OF assms, of b] by (auto simp: rule_content_def)

text \<open>A script engine for an example: every script gives a rule of one empty manipulator.\<close>

definition one_rule :: "(string \<times> json) list" where
  "one_rule = [(''description'', J_string ''caps''), (''manipulators'', J_array [J_object []])]"

definition example_tools :: rule_tools where
  "example_tools = \<lparr>rl_eval = (\<lambda>s. Inr (J_object one_rule)), rl_format = (\<lambda>j. []), rl_dump = (\<lambda>j. []), rl_erase_error = (\<lambda>j. [])\<rparr>"

lemma fresh_parameters: "\<exists>p. mk_cm_parameters h (J_object xs) = Inr p" if "update_values h (J_object xs) cm_parameter_entries = Inr es"
  using that by (simp add: mk_cm_parameters_def mk_settings_def)

definition unset_parameters :: settings where
  "unset_parameters = \<lparr>se_json = [], se_values = cm_parameter_entries\<rparr>"

lemma unset_parameters_written: "settings_to_json unset_parameters = []"
  by (simp add: settings_to_json_def unset_parameters_def cm_parameter_entries_def mk_entry_of_def update_json_def)

lemma script_rule:
  "\<exists>r. mk_rule example_tools unset_parameters Loose (J_object [(''eval_js'', J_string ''x'')]) = Inr r"
proof -
  obtain p where p: "mk_cm_parameters Loose (J_object []) = Inr p" by (simp add: mk_cm_parameters_def mk_settings_nothing)
  then have "mk_manipulator Loose unset_parameters (J_object []) =
      Inr \<lparr>mn_json = J_object [], mn_conditions = [], mn_parameters = p, mn_description = []\<rparr>"
    by (simp add: mk_manipulator_def unset_parameters_written)
  then show ?thesis
    by (simp add: mk_rule_def resolve_code_def example_tools_def one_rule_def rule_entries_def mk_entry_of_def update_value_def
        rule_item_def wrap_error_def Let_def)
qed

theorem toggled_rule_is_the_same_witness:
  "\<exists>r r'. mk_rule example_tools unset_parameters Loose (J_object [(''eval_js'', J_string ''x'')]) = Inr r \<and>
    mk_rule example_tools unset_parameters Loose (J_object (rule_to_json (set_rule_enabled False r))) = Inr r' \<and> \<not> rule_enabled r'"
proof -
  obtain r where r: "mk_rule example_tools unset_parameters Loose (J_object [(''eval_js'', J_string ''x'')]) = Inr r" using script_rule by blast
  then show ?thesis using toggled_rule_is_the_same [OF r, of False] by blast
qed

text \<open>
  The parameters a rule works with are within bounds: every manipulator of a rule that is accepted, whatever
  the parameters of the profile and its own, has its times and its scroll speed within their limits, and there is a manipulator.
\<close>

theorem accepted_rule_parameters_in_range:
  assumes "mk_rule tools params h j = Inr r"
  shows "ru_manipulators r \<noteq> [] \<and> (\<forall>m\<in>set (ru_manipulators r). cm_in_range (mn_parameters m))"
proof
  show "ru_manipulators r \<noteq> []" using assms by (auto simp: mk_rule_def and_then_Inr_iff Let_def split: prod.splits if_splits)
  show "\<forall>m\<in>set (ru_manipulators r). cm_in_range (mn_parameters m)" using rule_manipulators_inv [OF assms] by (simp add: cm_inv_def)
qed

theorem accepted_rule_parameters_in_range_witness:
  "\<exists>r. mk_rule example_tools unset_parameters Loose (J_object [(''eval_js'', J_string ''x'')]) = Inr r \<and>
    cm_in_range (mn_parameters (hd (ru_manipulators r)))"
proof -
  obtain r where r: "mk_rule example_tools unset_parameters Loose (J_object [(''eval_js'', J_string ''x'')]) = Inr r" using script_rule by blast
  then show ?thesis using accepted_rule_parameters_in_range [OF r] by (auto intro: hd_in_set)
qed

end
