(* ===== verification/Profiles.thy ===== *)
theory Profiles
  imports ComplexModifications
begin

text \<open>
  A profile of the configuration (\<open>src/share/core_configuration/details/profile.hpp\<close>): its members, the
  devices it has settings for, and the defaults it gives to them.
\<close>

record profile_tools =
  pt_texts :: text_tools
  pt_rules :: rule_tools

record profile =
  pf_json :: "(string \<times> json) list"
  pf_error_handling :: error_handling
  pf_values :: "config_entry list"
  pf_parameters :: settings
  pf_virtual_hid_keyboard :: settings
  pf_devices :: "device_settings list"
  pf_simple_modifications :: modification_pairs
  pf_fn_function_keys :: modification_pairs
  pf_complex_modifications :: complex_modifications

subsection \<open>Defaults\<close>

definition profile_entries :: "config_entry list" where
  "profile_entries =
     [mk_entry_of ''name'' (Cv_string []),
      mk_entry_of ''selected'' (Cv_bool False),
      mk_entry_of ''ignore_pointing_device_events_by_default'' (Cv_bool True)]"

text \<open>What the function keys do by default: a kind of event and its name.\<close>

definition function_key_events :: "(string \<times> string \<times> string) list" where
  "function_key_events =
     [(''f1'', ''consumer_key_code'', ''display_brightness_decrement''),
      (''f2'', ''consumer_key_code'', ''display_brightness_increment''),
      (''f3'', ''apple_vendor_keyboard_key_code'', ''mission_control''),
      (''f4'', ''apple_vendor_keyboard_key_code'', ''spotlight''),
      (''f5'', ''consumer_key_code'', ''dictation''),
      (''f6'', ''generic_desktop'', ''do_not_disturb''),
      (''f7'', ''consumer_key_code'', ''rewind''),
      (''f8'', ''consumer_key_code'', ''play_or_pause''),
      (''f9'', ''consumer_key_code'', ''fast_forward''),
      (''f10'', ''consumer_key_code'', ''mute''),
      (''f11'', ''consumer_key_code'', ''volume_decrement''),
      (''f12'', ''consumer_key_code'', ''volume_increment'')]"

definition profile_default_fn_pairs :: "(json \<times> json) list" where
  "profile_default_fn_pairs =
     map (\<lambda>(f, kind, name). (J_object [(''key_code'', J_string f)], J_array [J_object [(kind, J_string name)]])) function_key_events"

text \<open>Game pads, consumer devices and YubiKeys are left alone by default, pointing devices if the profile says so.\<close>

definition make_device_ignore_default_value :: "bool \<Rightarrow> device_identifiers \<Rightarrow> bool" where
  "make_device_ignore_default_value by_default i =
     (if di_is_game_pad i \<or> di_is_consumer i \<or> di_vendor_id i = 0x1050 then True
      else if di_is_pointing_device i then by_default
      else False)"

definition make_device_default_values :: "bool \<Rightarrow> device_identifiers \<Rightarrow> default_values" where
  "make_device_default_values by_default i =
     \<lparr>df_ignore = make_device_ignore_default_value by_default i, df_manipulate_caps_lock_led = di_is_keyboard i\<rparr>"

definition by_default_of :: "config_entry list \<Rightarrow> bool" where
  "by_default_of es = flag_of ''ignore_pointing_device_events_by_default'' es"

subsection \<open>Reading\<close>

definition profile_item :: "profile_tools \<Rightarrow> error_handling \<Rightarrow> string \<Rightarrow> json \<Rightarrow>
    modification_pairs \<times> modification_pairs \<times> complex_modifications \<Rightarrow>
    json_error + modification_pairs \<times> modification_pairs \<times> complex_modifications" where
  "profile_item t h k v s =
     (case s of (simple, fn, complex) \<Rightarrow>
        if k = ''simple_modifications'' then
          and_then (wrap_error (quoted k @ '' error: '') (handle_modifications_json (pt_texts t) v simple)) (\<lambda>ps. Inr (ps, fn, complex))
        else if k = ''fn_function_keys'' then
          and_then (wrap_error (quoted k @ '' error: '') (handle_modifications_json (pt_texts t) v fn)) (\<lambda>ps. Inr (simple, ps, complex))
        else if k = ''complex_modifications'' then
          and_then (wrap_error (quoted k @ '' error: '') (mk_complex_modifications (pt_rules t) h v)) (\<lambda>c. Inr (simple, fn, c))
        else Inr s)"

text \<open>The devices are read after the members, so their defaults are those of this profile.\<close>

definition mk_profile :: "profile_tools \<Rightarrow> error_handling \<Rightarrow> json \<Rightarrow> json_error + profile" where
  "mk_profile t h j =
     and_then (mk_parameters Loose (J_object [])) (\<lambda>parameters.
     and_then (mk_complex_modifications (pt_rules t) Loose (J_object [])) (\<lambda>complex.
     and_then (mk_virtual_hid_keyboard Loose (J_object [])) (\<lambda>keyboard.
     and_then (handle_modifications_json (pt_texts t) (J_array (map entry_json profile_default_fn_pairs)) []) (\<lambda>fn.
     and_then (requires_object ''json'' j) (\<lambda>xs.
     and_then (update_values h j profile_entries) (\<lambda>es.
     and_then (update_object_value ''parameters'' (mk_parameters h) j parameters) (\<lambda>parameters.
     and_then (update_object_value ''virtual_hid_keyboard'' (mk_virtual_hid_keyboard h) j keyboard) (\<lambda>keyboard.
     and_then (all_entries (update_array_value ''devices''
       (mk_device (pt_texts t) (make_device_default_values (by_default_of es)) h) j [])) (\<lambda>devices.
     and_then (fold_items (profile_item t h) xs ([], fn, complex)) (\<lambda>(simple, fn, complex).
     Inr \<lparr>pf_json = xs, pf_error_handling = h, pf_values = es, pf_parameters = parameters,
          pf_virtual_hid_keyboard = keyboard, pf_devices = devices, pf_simple_modifications = simple,
          pf_fn_function_keys = fn, pf_complex_modifications = complex\<rparr>))))))))))"

subsection \<open>Writing\<close>

definition profile_to_json :: "profile_tools \<Rightarrow> profile \<Rightarrow> (string \<times> json) list" where
  "profile_to_json t p =
     (let j = update_jsons (pf_values p) (pf_json p);
          j = update_object_json ''parameters'' (settings_to_json (pf_parameters p)) j;
          j = update_object_json ''virtual_hid_keyboard'' (settings_to_json (pf_virtual_hid_keyboard p)) j;
          j = update_array_json ''devices'' (map (device_to_json (pt_texts t)) (pf_devices p)) j;
          j = update_array ''simple_modifications'' (pairs_to_json (pt_texts t) [] (pf_simple_modifications p)) j;
          j = update_array ''fn_function_keys'' (pairs_to_json (pt_texts t) profile_default_fn_pairs (pf_fn_function_keys p)) j
      in update_object_json ''complex_modifications'' (complex_modifications_to_json (pf_complex_modifications p)) j)"

subsection \<open>Operations\<close>

definition profile_name :: "profile \<Rightarrow> string" where
  "profile_name p = string_of_value ''name'' (pf_values p)"

definition set_profile_name :: "string \<Rightarrow> profile \<Rightarrow> profile" where
  "set_profile_name s p = p\<lparr>pf_values := set_value ''name'' (Cv_string s) (pf_values p)\<rparr>"

definition profile_selected :: "profile \<Rightarrow> bool" where
  "profile_selected p = flag_of ''selected'' (pf_values p)"

definition set_profile_selected :: "bool \<Rightarrow> profile \<Rightarrow> profile" where
  "set_profile_selected b p = p\<lparr>pf_values := set_value ''selected'' (Cv_bool b) (pf_values p)\<rparr>"

definition update_devices_default_values :: "profile \<Rightarrow> profile" where
  "update_devices_default_values p =
     p\<lparr>pf_devices := map (\<lambda>d. update_default_values (make_device_default_values (by_default_of (pf_values p)) (dv_identifiers d)) d)
        (pf_devices p)\<rparr>"

definition set_ignore_pointing_device_events_by_default :: "bool \<Rightarrow> profile \<Rightarrow> profile" where
  "set_ignore_pointing_device_events_by_default b p =
     update_devices_default_values
       (p\<lparr>pf_values := set_value ''ignore_pointing_device_events_by_default'' (Cv_bool b) (pf_values p)\<rparr>)"

text \<open>The settings of a device are made when they are first asked for.\<close>

definition get_device :: "profile_tools \<Rightarrow> device_identifiers \<Rightarrow> profile \<Rightarrow> json_error + device_settings \<times> profile" where
  "get_device t i p =
     (case find (\<lambda>d. di_same (dv_identifiers d) i) (pf_devices p) of
        Some d \<Rightarrow> Inr (d, p)
      | None \<Rightarrow>
          and_then (mk_device (pt_texts t) (make_device_default_values (by_default_of (pf_values p))) (pf_error_handling p)
              (J_object [(''identifiers'', identifiers_to_json i)])) (\<lambda>d.
          Inr (d, p\<lparr>pf_devices := pf_devices p @ [d]\<rparr>)))"

definition not_connected_configured :: "profile_tools \<Rightarrow> device_properties list \<Rightarrow> device_settings \<Rightarrow> bool" where
  "not_connected_configured t cds d \<longleftrightarrow>
     find_device (dv_identifiers d) cds = None \<and> device_to_json (pt_texts t) d \<noteq> []"

definition not_connected_configured_devices_count :: "profile_tools \<Rightarrow> device_properties list \<Rightarrow> profile \<Rightarrow> nat" where
  "not_connected_configured_devices_count t cds p =
     length (filter (not_connected_configured t cds) (pf_devices p))"

definition erase_not_connected_configured_devices :: "profile_tools \<Rightarrow> device_properties list \<Rightarrow> profile \<Rightarrow> profile" where
  "erase_not_connected_configured_devices t cds p =
     p\<lparr>pf_devices := remove_if (not_connected_configured t cds) (pf_devices p)\<rparr>"

text \<open>The settings of a device are shared: what is done to them is done to the first ones of its identity.\<close>

fun change_first :: "('a \<Rightarrow> bool) \<Rightarrow> ('a \<Rightarrow> 'a) \<Rightarrow> 'a list \<Rightarrow> 'a list" where
  "change_first q f [] = []"
| "change_first q f (x # xs) = (if q x then f x # xs else x # change_first q f xs)"

definition change_device :: "profile_tools \<Rightarrow> device_identifiers \<Rightarrow> device_op \<Rightarrow> profile \<Rightarrow> json_error + profile" where
  "change_device t i op p =
     and_then (get_device t i p) (\<lambda>(d, p).
     Inr (p\<lparr>pf_devices := change_first (\<lambda>e. di_same (dv_identifiers e) (dv_identifiers d)) (device_step op) (pf_devices p)\<rparr>))"

subsection \<open>The devices follow the profile\<close>

datatype profile_op =
    Pf_by_default bool
  | Pf_get_device device_identifiers
  | Pf_change_device device_identifiers device_op
  | Pf_erase "device_properties list"
  | Pf_name string
  | Pf_selected bool

fun profile_step :: "profile_tools \<Rightarrow> profile_op \<Rightarrow> profile \<Rightarrow> json_error + profile" where
  "profile_step t (Pf_by_default b) p = Inr (set_ignore_pointing_device_events_by_default b p)"
| "profile_step t (Pf_get_device i) p = and_then (get_device t i p) (\<lambda>(d, p). Inr p)"
| "profile_step t (Pf_change_device i op) p = change_device t i op p"
| "profile_step t (Pf_erase cds) p = Inr (erase_not_connected_configured_devices t cds p)"
| "profile_step t (Pf_name s) p = Inr (set_profile_name s p)"
| "profile_step t (Pf_selected b) p = Inr (set_profile_selected b p)"

text \<open>Only the profile gives defaults to its devices.\<close>

fun profile_op_ok :: "profile_op \<Rightarrow> bool" where
  "profile_op_ok (Pf_change_device i (Dv_defaults v)) = False"
| "profile_op_ok _ = True"

definition follows :: "bool \<Rightarrow> device_settings \<Rightarrow> bool" where
  "follows b d \<longleftrightarrow> (ignore_choice d = None \<longrightarrow> dv_ignore d = make_device_ignore_default_value b (dv_identifiers d))"

definition profile_inv :: "profile \<Rightarrow> bool" where
  "profile_inv p \<longleftrightarrow> (\<forall>d\<in>set (pf_devices p). follows (by_default_of (pf_values p)) d) \<and>
     ''ignore_pointing_device_events_by_default'' \<in> ce_key ` set (pf_values p)"

lemma device_step_identifiers: "dv_identifiers (device_step op d) = dv_identifiers d"
  by (cases op) (simp_all add: set_ignore_def update_default_values_def Let_def set_device_flag_def set_device_number_def
      set_device_interval_def set_device_formula_def set_device_value_def)

lemma mk_device_follows:
  assumes "mk_device t (make_device_default_values b) h j = Inr d"
  shows "follows b d"
proof -
  obtain xs i ignore configured where r: "read_ignore h xs (make_device_ignore_default_value b i) = Inr (ignore, configured)"
    "dv_ignore d = ignore" "dv_ignore_configured d = configured" "dv_identifiers d = i"
    using assms by (auto simp: mk_device_def Let_def and_then_Inr_iff make_device_default_values_def split: prod.splits)
  have "ignore = make_device_ignore_default_value b i" if "\<not> configured"
    using r(1) that by (auto simp: read_ignore_def split: option.splits sum.splits if_splits)
  then show ?thesis using r by (auto simp: follows_def ignore_choice_def split: if_splits)
qed

lemma device_step_follows:
  assumes "follows b d" "\<forall>v. op \<noteq> Dv_defaults v"
  shows "follows b (device_step op d)"
  unfolding follows_def
proof
  assume none: "ignore_choice (device_step op d) = None"
  then have "ignore_choice d = None" using device_step_choice [of op d] assms(2) by (cases op) auto
  moreover have "dv_ignore (device_step op d) = default_step op (dv_ignore d)"
    using none by (intro device_step_ignore) (simp add: ignore_choice_def split: if_splits)
  then have "dv_ignore (device_step op d) = dv_ignore d" using assms(2) by (cases op) auto
  ultimately show "dv_ignore (device_step op d) = make_device_ignore_default_value b (dv_identifiers (device_step op d))"
    using assms(1) by (simp add: follows_def device_step_identifiers)
qed

lemma updated_follows: "follows b (update_default_values (make_device_default_values b (dv_identifiers d)) d)"
  using device_step_choice [of "Dv_defaults (make_device_default_values b (dv_identifiers d))" d]
    device_step_ignore [of "Dv_defaults (make_device_default_values b (dv_identifiers d))" d]
    device_step_identifiers [of "Dv_defaults (make_device_default_values b (dv_identifiers d))" d]
  by (auto simp: follows_def ignore_choice_def make_device_default_values_def split: if_splits)

lemma get_device_inv:
  assumes "get_device t i p = Inr (d, p')" "profile_inv p"
  shows "profile_inv p'"
proof (cases "find (\<lambda>d. di_same (dv_identifiers d) i) (pf_devices p)")
  case None
  then obtain d where "p' = p\<lparr>pf_devices := pf_devices p @ [d]\<rparr>" "follows (by_default_of (pf_values p)) d"
    using assms(1) mk_device_follows by (auto simp: get_device_def and_then_Inr_iff)
  then show ?thesis using assms(2) by (auto simp: profile_inv_def)
qed (use assms in \<open>simp add: get_device_def\<close>)

lemma change_first_all: "\<forall>x\<in>set xs. P x \<Longrightarrow> (\<And>x. P x \<Longrightarrow> P (f x)) \<Longrightarrow> \<forall>x\<in>set (change_first q f xs). P x"
  by (induction xs) auto

lemma by_default_set_other: "k \<noteq> ''ignore_pointing_device_events_by_default'' \<Longrightarrow> by_default_of (set_value k v es) = by_default_of es"
  by (simp add: by_default_of_def flag_of_def value_of_set_value)

lemma set_value_key_set [simp]: "ce_key ` set (set_value k v es) = ce_key ` set es"
  using set_value_keys [of k v es] by (metis list.set_map)

lemma profile_step_inv:
  assumes "profile_inv p" "profile_op_ok op" "profile_step t op p = Inr p'"
  shows "profile_inv p'"
proof (cases op)
  case (Pf_by_default b)
  then have "p' = update_devices_default_values (p\<lparr>pf_values := set_value ''ignore_pointing_device_events_by_default'' (Cv_bool b) (pf_values p)\<rparr>)"
    using assms(3) by (simp add: set_ignore_pointing_device_events_by_default_def)
  then show ?thesis using assms(1) updated_follows by (auto simp: profile_inv_def update_devices_default_values_def)
next
  case (Pf_get_device i)
  then show ?thesis using assms get_device_inv by (auto simp: and_then_Inr_iff)
next
  case (Pf_change_device i dop)
  have dop: "\<forall>v. dop \<noteq> Dv_defaults v" using assms(2) Pf_change_device by auto
  obtain d q where q: "get_device t i p = Inr (d, q)"
    "p' = q\<lparr>pf_devices := change_first (\<lambda>e. di_same (dv_identifiers e) (dv_identifiers d)) (device_step dop) (pf_devices q)\<rparr>"
    using assms(3) Pf_change_device by (auto simp: change_device_def and_then_Inr_iff)
  have inv: "profile_inv q" by (rule get_device_inv [OF q(1) assms(1)])
  have "\<forall>e\<in>set (change_first (\<lambda>e. di_same (dv_identifiers e) (dv_identifiers d)) (device_step dop) (pf_devices q)).
      follows (by_default_of (pf_values q)) e"
    using inv device_step_follows [OF _ dop] by (intro change_first_all) (auto simp: profile_inv_def)
  then show ?thesis using q(2) inv by (simp add: profile_inv_def)
next
  case (Pf_erase cds)
  then show ?thesis using assms by (auto simp: profile_inv_def erase_not_connected_configured_devices_def)
next
  case (Pf_name s)
  moreover have "by_default_of (set_value ''name'' (Cv_string s) (pf_values p)) = by_default_of (pf_values p)"
    by (rule by_default_set_other) simp
  ultimately show ?thesis using assms(1,3) unfolding profile_inv_def by (auto simp: set_profile_name_def simp del: image_iff)
next
  case (Pf_selected b)
  moreover have "by_default_of (set_value ''selected'' (Cv_bool b) (pf_values p)) = by_default_of (pf_values p)"
    by (rule by_default_set_other) simp
  ultimately show ?thesis using assms(1,3) unfolding profile_inv_def by (auto simp: set_profile_selected_def simp del: image_iff)
qed

interpretation profiles: fallible_machine "profile_step t" profile_inv profile_op_ok for t
  by unfold_locales (rule profile_step_inv)

lemma update_array_value_all:
  assumes "all_entries (update_array_value k mk j []) = Inr ys" "y \<in> set ys"
  shows "\<exists>j. mk j = Inr y"
proof -
  have "update_array_value k mk j [] = (ys, None)"
    using assms(1) by (cases "update_array_value k mk j []" rule: all_entries.cases) auto
  then obtain xs where j: "requires_object ''json'' j = Inr xs" using assms(2)
    by (cases "requires_object ''json'' j") (simp_all add: update_array_value_def)
  note r = \<open>update_array_value k mk j [] = (ys, None)\<close> [unfolded update_array_value_def j sum.case]
  obtain v where v: "map_of xs k = Some v" using r assms(2) by (cases "map_of xs k") simp_all
  obtain js where js: "requires_array (quoted k) v = Inr js" using r assms(2) by (cases "requires_array (quoted k) v") (simp_all add: v)
  have "read_entries k mk js = (ys, None)" using r v js by (cases "read_entries k mk js") simp
  then show ?thesis using read_entries_all [of k mk js ys y] assms(2) by blast
qed

lemma profile_keys: "update_values h j profile_entries = Inr es \<Longrightarrow> ce_key ` set es = {''name'', ''selected'', ''ignore_pointing_device_events_by_default''}"
proof -
  assume "update_values h j profile_entries = Inr es"
  then have "map ce_key es = map ce_key profile_entries" by (intro shape_keys update_values_shape)
  then have "set (map ce_key es) = set (map ce_key profile_entries)" by simp
  then show ?thesis by (simp add: profile_entries_def mk_entry_of_def)
qed

lemma mk_profile_inv:
  assumes "mk_profile t h j = Inr p"
  shows "profile_inv p"
proof -
  obtain es where es: "update_values h j profile_entries = Inr es" "pf_values p = es"
    "all_entries (update_array_value ''devices'' (mk_device (pt_texts t) (make_device_default_values (by_default_of es)) h) j []) = Inr (pf_devices p)"
    using assms by (auto simp: mk_profile_def and_then_Inr_iff split: prod.splits)
  then show ?thesis
    using update_array_value_all [OF es(3)] mk_device_follows profile_keys [OF es(1)] by (fastforce simp: profile_inv_def)
qed

text \<open>A profile that only has a name and says whether it is selected.\<close>

lemma default_keys_read: "\<exists>fn. handle_modifications_json t (J_array (map entry_json profile_default_fn_pairs)) [] = Inr fn"
proof -
  have "\<exists>fn. read_pairs t (map entry_json (map (\<lambda>(f, kind, name). (J_object [(''key_code'', J_string f)], J_array [J_object [(kind, J_string name)]])) ks)) ps = Inr fn"
    for ks ps
    by (induction ks arbitrary: ps) (auto simp: entry_json_def pair_item_def)
  then obtain fn where "read_pairs t (map entry_json profile_default_fn_pairs) [] = Inr fn" unfolding profile_default_fn_pairs_def by blast
  then show ?thesis by (simp add: handle_modifications_json_def)
qed

lemma plain_profile:
  assumes "set (map fst xs) \<subseteq> {''name'', ''selected''}" "update_values h (J_object xs) profile_entries = Inr es"
  shows "\<exists>p. mk_profile t h (J_object xs) = Inr p \<and> pf_values p = es \<and> pf_devices p = [] \<and> pf_json p = xs \<and> pf_error_handling p = h"
proof -
  obtain fn where fn: "handle_modifications_json (pt_texts t) (J_array (map entry_json profile_default_fn_pairs)) [] = Inr fn" using default_keys_read by blast
  obtain q where q: "mk_cm_parameters Loose (J_object []) = Inr q" by (simp add: mk_cm_parameters_def mk_settings_nothing)
  have absent: "map_of xs ''parameters'' = None" "map_of xs ''virtual_hid_keyboard'' = None" "map_of xs ''devices'' = None"
    using assms(1) by (auto simp: map_of_eq_None_iff)
  have items: "fold_items (profile_item t h) xs s = Inr s" for s
    using assms(1) by (induction xs) (auto simp: profile_item_def)
  show ?thesis
    by (simp add: mk_profile_def mk_parameters_def mk_settings_nothing mk_complex_modifications_def q update_object_value_def find_array_def
        mk_virtual_hid_keyboard_def fn assms(2) absent update_array_value_def items)
qed

lemma new_profile_json:
  "update_values h (J_object [(''name'', J_string s)]) profile_entries =
     Inr (set_value ''name'' (Cv_string s) profile_entries)"
  "update_values h (J_object [(''name'', J_string s), (''selected'', J_bool b)]) profile_entries =
     Inr (set_value ''selected'' (Cv_bool b) (set_value ''name'' (Cv_string s) profile_entries))"
  by (simp_all add: profile_entries_def mk_entry_of_def update_value_def set_value_def change_entry_def)

subsection \<open>Properties\<close>

text \<open>
  C24. The devices follow their profile: after a profile is read, and after its default for pointing devices is
  switched, devices are added, changed by the user or erased, every device the user has made no
  choice for ignores its events exactly if the current defaults of the profile say so.
\<close>

theorem devices_follow_profile:
  assumes "mk_profile t h j = Inr p" "run_until (profile_step t) ops p = Inr p'" "\<forall>op\<in>set ops. profile_op_ok op"
    and "d \<in> set (pf_devices p')" "\<not> dv_ignore_configured d"
  shows "dv_ignore d = make_device_ignore_default_value (by_default_of (pf_values p')) (dv_identifiers d)"
  using profiles.inv_run [OF assms(2) mk_profile_inv [OF assms(1)] assms(3)] assms(4,5)
  by (simp add: profile_inv_def follows_def ignore_choice_def)

definition example_profile_tools :: profile_tools where
  "example_profile_tools = \<lparr>pt_texts = no_texts, pt_rules = example_tools\<rparr>"

definition mouse_identifiers :: device_identifiers where
  "mouse_identifiers = default_identifiers\<lparr>di_is_pointing_device := True\<rparr>"

lemma mouse_device:
  "\<exists>d. mk_device no_texts (make_device_default_values b) Loose (J_object [(''identifiers'', identifiers_to_json mouse_identifiers)]) = Inr d \<and>
     dv_ignore_configured d = False \<and> di_is_pointing_device (dv_identifiers d)"
proof -
  let ?j = "J_object [(''identifiers'', identifiers_to_json mouse_identifiers)]"
  obtain fn where "handle_modifications_json no_texts (J_array (map entry_json device_default_fn_pairs)) [] = Inr fn" using function_keys_read by blast
  moreover have "update_values Loose ?j (device_entries led) = Inr (device_entries led)" for led
    by (rule update_values_absent) (auto simp: device_entries_def mk_entry_of_def)
  moreover have "identifiers_from_json (identifiers_to_json mouse_identifiers) = Inr (mouse_identifiers\<lparr>di_json := [(''is_pointing_device'', J_bool True)]\<rparr>)"
    by (simp add: identifiers_from_json_def identifiers_to_json_def mouse_identifiers_def default_identifiers_def identifiers_item_def)
  ultimately show ?thesis
    by (simp add: mk_device_def make_device_identifiers_def read_ignore_def read_modifications_item_def wrap_error_def mouse_identifiers_def Let_def)
qed

theorem devices_follow_profile_witness:
  "\<exists>p p' d. mk_profile example_profile_tools Loose (J_object []) = Inr p \<and>
    run_until (profile_step example_profile_tools) [Pf_get_device mouse_identifiers, Pf_by_default False] p = Inr p' \<and>
    pf_devices p' = [d] \<and> \<not> dv_ignore d"
proof -
  let ?ops = "[Pf_get_device mouse_identifiers, Pf_by_default False]"
  have "update_values Loose (J_object []) profile_entries = Inr profile_entries" by (rule update_values_absent) simp
  then obtain p where p: "mk_profile example_profile_tools Loose (J_object []) = Inr p" "pf_values p = profile_entries" "pf_devices p = []"
    "pf_error_handling p = Loose"
    using plain_profile [of "[]"] by fastforce
  obtain d where d: "mk_device no_texts (make_device_default_values (by_default_of (pf_values p))) Loose
      (J_object [(''identifiers'', identifiers_to_json mouse_identifiers)]) = Inr d" "\<not> dv_ignore_configured d"
    "di_is_pointing_device (dv_identifiers d)" using mouse_device by blast
  let ?p' = "set_ignore_pointing_device_events_by_default False (p\<lparr>pf_devices := [d]\<rparr>)"
  let ?d' = "update_default_values (make_device_default_values False (dv_identifiers d)) d"
  have run: "run_until (profile_step example_profile_tools) ?ops p = Inr ?p'"
    using d(1) p by (simp add: get_device_def example_profile_tools_def)
  have "flag_of ''ignore_pointing_device_events_by_default'' (set_value ''ignore_pointing_device_events_by_default'' (Cv_bool False) profile_entries) = False"
    by (rule flag_of_set_value) (simp add: profile_entries_def mk_entry_of_def)
  then have b: "by_default_of (pf_values ?p') = False" "pf_devices ?p' = [?d']"
    using p(2) by (simp_all add: set_ignore_pointing_device_events_by_default_def update_devices_default_values_def by_default_of_def)
  have cfg: "\<not> dv_ignore_configured ?d'" "dv_identifiers ?d' = dv_identifiers d" using d(2) by (simp_all add: update_default_values_def Let_def)
  have "dv_ignore ?d' = make_device_ignore_default_value False (dv_identifiers d)"
    using devices_follow_profile [OF p(1) run, of ?d'] b cfg by simp
  moreover have "make_device_ignore_default_value False (dv_identifiers d) = False"
    using d(1) by (auto simp: mk_device_def make_device_identifiers_def and_then_Inr_iff wrap_error_def make_device_ignore_default_value_def
        identifiers_from_json_def identifiers_to_json_def mouse_identifiers_def default_identifiers_def identifiers_item_def Let_def
        split: prod.splits)
  ultimately show ?thesis using p(1) run b(2) by auto
qed

end
