(* ===== verification/CoreConfiguration.thy ===== *)
theory CoreConfiguration
  imports Profiles
begin

text \<open>
  The configuration of the program (\<open>src/share/core_configuration/core_configuration.hpp\<close>): loading the file,
  whose state is a parameter of the constructor, the operations on the profiles, and what is
  saved. The backup files that are kept beside it are not modelled.
\<close>

subsection \<open>Loading\<close>

datatype load_state = Loaded | Permission_error | Json_error_state | Other_error

datatype configuration_source = Default_configuration | User_file | System_file

text \<open>
  What the file system answers: the status of the path, the owner, whether the file opens, whether
  its text is JSON (with the message of the parser if it is not).
\<close>

datatype configuration_file =
    File_missing
  | Status_denied
  | Status_failed
  | Owner_invalid
  | Open_denied
  | Open_failed
  | File_broken string
  | File_contents json

datatype load_message = Parse_message string | Apply_message json_error

record configuration_state =
  co_json :: json
  co_error_handling :: error_handling
  co_load_state :: load_state
  co_source :: configuration_source
  co_message :: "load_message option"
  co_global :: global_configuration
  co_machine_specific :: machine_specific
  co_profiles :: "profile list"

text \<open>
  The members are updated one after the other; what was updated before an error stays, and of the profiles
  those that were read.
\<close>

definition apply_json :: "profile_tools \<Rightarrow> json \<Rightarrow> configuration_state \<Rightarrow> configuration_state \<times> json_error option" where
  "apply_json t j c =
     (let h = co_error_handling c in
      case update_object_value ''global'' (mk_global_configuration h) j (co_global c) of
        Inl e \<Rightarrow> (c, Some e)
      | Inr g \<Rightarrow>
          let c = c\<lparr>co_global := g\<rparr> in
          (case update_object_value ''machine_specific'' (mk_machine_specific h) j (co_machine_specific c) of
             Inl e \<Rightarrow> (c, Some e)
           | Inr m \<Rightarrow>
               (case update_array_value ''profiles'' (mk_profile t h) j (co_profiles c) of
                  (ps, r) \<Rightarrow> (c\<lparr>co_machine_specific := m, co_profiles := ps\<rparr>, r))))"

definition load_contents :: "profile_tools \<Rightarrow> bool \<Rightarrow> json \<Rightarrow> configuration_state \<Rightarrow> configuration_state" where
  "load_contents t system j c =
     (case apply_json t j (c\<lparr>co_json := j\<rparr>) of
        (c, None) \<Rightarrow> c\<lparr>co_load_state := Loaded, co_source := (if system then System_file else User_file)\<rparr>
      | (c, Some e) \<Rightarrow> c\<lparr>co_load_state := Json_error_state, co_message := Some (Apply_message e)\<rparr>)"

fun load_file :: "profile_tools \<Rightarrow> bool \<Rightarrow> configuration_file \<Rightarrow> configuration_state \<Rightarrow> configuration_state" where
  "load_file t system File_missing c = c"
| "load_file t system Status_denied c = c\<lparr>co_load_state := Permission_error\<rparr>"
| "load_file t system Status_failed c = c\<lparr>co_load_state := Other_error\<rparr>"
| "load_file t system Owner_invalid c = c\<lparr>co_load_state := Other_error\<rparr>"
| "load_file t system Open_denied c = c\<lparr>co_load_state := Permission_error\<rparr>"
| "load_file t system Open_failed c = c\<lparr>co_load_state := Other_error\<rparr>"
| "load_file t system (File_broken m) c = c\<lparr>co_load_state := Json_error_state, co_message := Some (Parse_message m)\<rparr>"
| "load_file t system (File_contents j) c = load_contents t system j c"

definition fallback_profile :: json where
  "fallback_profile = J_object [(''name'', J_string ''Default profile''), (''selected'', J_bool True)]"

definition mk_core_configuration :: "profile_tools \<Rightarrow> bool \<Rightarrow> error_handling \<Rightarrow> configuration_file \<Rightarrow> json_error + configuration_state" where
  "mk_core_configuration t system h disk =
     and_then (mk_global_configuration h (J_object [])) (\<lambda>g.
     and_then (mk_machine_specific h (J_object [])) (\<lambda>m.
     let c = load_file t system disk
       \<lparr>co_json = J_object [], co_error_handling = h, co_load_state = Loaded, co_source = Default_configuration,
        co_message = None, co_global = g, co_machine_specific = m, co_profiles = []\<rparr>
     in if co_profiles c = [] then
          and_then (mk_profile t h fallback_profile) (\<lambda>p. Inr (c\<lparr>co_profiles := [p]\<rparr>))
        else Inr c))"

subsection \<open>Saving\<close>

text \<open>Assigning a member of a JSON value that is neither an object nor null throws, and so does erasing one.\<close>

fun json_assign :: "string \<Rightarrow> json \<Rightarrow> json \<Rightarrow> json_error + json" where
  "json_assign k v (J_object xs) = Inr (J_object (obj_set k v xs))"
| "json_assign k v J_null = Inr (J_object [(k, v)])"
| "json_assign k v _ = Inl Json_type_error"

definition save_object :: "string \<Rightarrow> (string \<times> json) list \<Rightarrow> json \<Rightarrow> json_error + json" where
  "save_object k js j = (if js \<noteq> [] then json_assign k (J_object js) j else json_erase k j)"

definition save_array :: "string \<Rightarrow> (string \<times> json) list list \<Rightarrow> json \<Rightarrow> json_error + json" where
  "save_array k js j =
     (case filter (\<lambda>j. j \<noteq> []) js of
        [] \<Rightarrow> json_erase k j
      | js' \<Rightarrow> json_assign k (J_array (map J_object js')) j)"

definition core_to_json :: "profile_tools \<Rightarrow> configuration_state \<Rightarrow> json_error + json" where
  "core_to_json t c =
     and_then (save_object ''global'' (global_to_json (co_global c)) (co_json c)) (\<lambda>j.
     and_then (save_object ''machine_specific'' (machine_specific_to_json (co_machine_specific c)) j) (\<lambda>j.
     save_array ''profiles'' (map (profile_to_json t) (co_profiles c)) j))"

text \<open>What is written to the file, and the configuration afterwards.\<close>

definition sync_save_to_file :: "profile_tools \<Rightarrow> configuration_state \<Rightarrow> json_error + json \<times> configuration_state" where
  "sync_save_to_file t c =
     and_then (core_to_json t c) (\<lambda>j. Inr (j, c\<lparr>co_load_state := Loaded, co_source := User_file\<rparr>))"

subsection \<open>The profiles\<close>

definition co_set_profile_name :: "nat \<Rightarrow> string \<Rightarrow> configuration_state \<Rightarrow> configuration_state" where
  "co_set_profile_name i s c =
     (if i < length (co_profiles c) then c\<lparr>co_profiles := (co_profiles c)[i := set_profile_name s (co_profiles c ! i)]\<rparr> else c)"

fun select_at :: "nat \<Rightarrow> nat \<Rightarrow> profile list \<Rightarrow> profile list" where
  "select_at i k [] = []"
| "select_at i k (p # ps) = set_profile_selected (k = i) p # select_at i (Suc k) ps"

definition select_profile :: "nat \<Rightarrow> configuration_state \<Rightarrow> configuration_state" where
  "select_profile i c = (if i < length (co_profiles c) then c\<lparr>co_profiles := select_at i 0 (co_profiles c)\<rparr> else c)"

definition push_back_profile :: "profile_tools \<Rightarrow> configuration_state \<Rightarrow> json_error + configuration_state" where
  "push_back_profile t c =
     and_then (mk_profile t (co_error_handling c) (J_object [(''name'', J_string ''New profile'')])) (\<lambda>p.
     Inr (c\<lparr>co_profiles := co_profiles c @ [p]\<rparr>))"

definition duplicate_profile :: "profile_tools \<Rightarrow> profile \<Rightarrow> configuration_state \<Rightarrow> json_error + configuration_state" where
  "duplicate_profile t p c =
     and_then (mk_profile t (co_error_handling c) (J_object (profile_to_json t p))) (\<lambda>q.
     Inr (c\<lparr>co_profiles := co_profiles c @
       [set_profile_selected False (set_profile_name (profile_name q @ '' (copy)'') q)]\<rparr>))"

definition erase_profile :: "nat \<Rightarrow> configuration_state \<Rightarrow> configuration_state" where
  "erase_profile i c =
     (if i < length (co_profiles c) then
        if length (co_profiles c) > 1 then c\<lparr>co_profiles := erase_at i (co_profiles c)\<rparr> else c
      else c)"

definition move_profile :: "nat \<Rightarrow> nat \<Rightarrow> configuration_state \<Rightarrow> configuration_state" where
  "move_profile i k c = c\<lparr>co_profiles := move_element i k (co_profiles c)\<rparr>"

definition get_selected_profile :: "configuration_state \<Rightarrow> profile" where
  "get_selected_profile c =
     (case find profile_selected (co_profiles c) of Some p \<Rightarrow> p | None \<Rightarrow> co_profiles c ! 0)"

datatype core_op =
    Co_name nat string
  | Co_select nat
  | Co_push
  | Co_duplicate nat
  | Co_erase nat
  | Co_move nat nat

fun core_step :: "profile_tools \<Rightarrow> core_op \<Rightarrow> configuration_state \<Rightarrow> json_error + configuration_state" where
  "core_step t (Co_name i s) c = Inr (co_set_profile_name i s c)"
| "core_step t (Co_select i) c = Inr (select_profile i c)"
| "core_step t Co_push c = push_back_profile t c"
| "core_step t (Co_duplicate i) c =
     (if i < length (co_profiles c) then duplicate_profile t (co_profiles c ! i) c else Inr c)"
| "core_step t (Co_erase i) c = Inr (erase_profile i c)"
| "core_step t (Co_move i k) c = Inr (move_profile i k c)"

subsection \<open>There is always a profile\<close>

definition has_profile :: "configuration_state \<Rightarrow> bool" where
  "has_profile c \<longleftrightarrow> co_profiles c \<noteq> []"

definition well_keyed :: "profile \<Rightarrow> bool" where
  "well_keyed p \<longleftrightarrow> ce_key ` set (pf_values p) = {''name'', ''selected'', ''ignore_pointing_device_events_by_default''}"

definition selected_count :: "configuration_state \<Rightarrow> nat" where
  "selected_count c = length (filter profile_selected (co_profiles c))"

definition core_inv :: "configuration_state \<Rightarrow> bool" where
  "core_inv c \<longleftrightarrow> co_profiles c \<noteq> [] \<and> (\<forall>p\<in>set (co_profiles c). well_keyed p)"

lemma mk_profile_keyed: "mk_profile t h j = Inr p \<Longrightarrow> well_keyed p"
proof -
  assume "mk_profile t h j = Inr p"
  then obtain es where "update_values h j profile_entries = Inr es" "pf_values p = es"
    by (auto simp: mk_profile_def and_then_Inr_iff split: prod.splits)
  then show ?thesis using profile_keys by (simp add: well_keyed_def)
qed

lemma set_profile_keyed [simp]:
  "well_keyed (set_profile_name s p) = well_keyed p" "well_keyed (set_profile_selected b p) = well_keyed p"
  by (simp_all add: well_keyed_def set_profile_name_def set_profile_selected_def)

lemma selected_simps:
  "well_keyed p \<Longrightarrow> profile_selected (set_profile_selected b p) = b"
  "profile_selected (set_profile_name s p) = profile_selected p"
  by (simp_all add: well_keyed_def profile_selected_def set_profile_selected_def set_profile_name_def flag_of_set_value)
    (simp add: flag_of_def value_of_set_value)

lemma length_select_at [simp]: "length (select_at i k ps) = length ps"
  by (induction ps arbitrary: k) auto

lemma select_at_nth: "n < length ps \<Longrightarrow> select_at i k ps ! n = set_profile_selected (k + n = i) (ps ! n)"
  by (induction ps arbitrary: k n) (auto simp: nth_Cons split: nat.splits)

lemma set_select_at: "set (select_at i k ps) \<subseteq> {set_profile_selected b p |b p. p \<in> set ps}"
  by (induction ps arbitrary: k) (auto, blast)

lemma selected_select_at:
  "\<forall>p\<in>set ps. well_keyed p \<Longrightarrow>
   length (filter profile_selected (select_at i k ps)) = (if k \<le> i \<and> i < k + length ps then 1 else 0)"
  by (induction ps arbitrary: k) (simp_all add: selected_simps(1) del: length_0_conv)

lemma select_profile_inv: "core_inv c \<Longrightarrow> core_inv (select_profile i c)"
proof -
  assume c: "core_inv c"
  have "select_at i 0 (co_profiles c) \<noteq> []" using c length_select_at [of i 0 "co_profiles c"] by (auto simp: core_inv_def simp del: length_select_at)
  moreover have "\<forall>p\<in>set (select_at i 0 (co_profiles c)). well_keyed p" using c set_select_at [of i 0 "co_profiles c"] by (auto simp: core_inv_def)
  ultimately show ?thesis using c by (auto simp: core_inv_def select_profile_def)
qed

lemma erase_profile_inv: "core_inv c \<Longrightarrow> core_inv (erase_profile i c)"
proof (cases "i < length (co_profiles c) \<and> length (co_profiles c) > 1")
  case True
  assume c: "core_inv c"
  have "0 < length (erase_at i (co_profiles c))" using True by simp
  then have "erase_at i (co_profiles c) \<noteq> []" by (metis length_greater_0_conv)
  moreover have "set (erase_at i (co_profiles c)) \<subseteq> set (co_profiles c)" by (auto simp: erase_at_def dest: in_set_takeD in_set_dropD)
  ultimately show ?thesis using True c by (auto simp: core_inv_def erase_profile_def)
qed (auto simp: erase_profile_def)

lemma mset_move_element: "mset (move_element i k ps) = mset ps"
  using mset_reinsert [of i ps] move_element_eq [of i ps k] by (auto simp: move_element_def)

lemma move_profile_inv: "core_inv c \<Longrightarrow> core_inv (move_profile i k c)"
  using mset_move_element [of i k "co_profiles c"] by (auto simp: core_inv_def move_profile_def dest: mset_eq_setD)

lemma appended_inv: "core_inv c \<Longrightarrow> well_keyed p \<Longrightarrow> core_inv (c\<lparr>co_profiles := co_profiles c @ [p]\<rparr>)"
  by (auto simp: core_inv_def)

lemma core_step_inv: "core_inv c \<Longrightarrow> core_step t op c = Inr c' \<Longrightarrow> core_inv c'"
proof (cases op)
  case (Co_name i s)
  assume "core_inv c" "core_step t op c = Inr c'"
  moreover have "well_keyed p" if "p \<in> set ((co_profiles c)[i := set_profile_name s (co_profiles c ! i)])" "i < length (co_profiles c)" "core_inv c" for p
    using subsetD [OF set_update_subset_insert that(1)] that(2,3) by (auto simp: core_inv_def)
  ultimately show ?thesis by (auto simp: Co_name co_set_profile_name_def core_inv_def split: if_splits)
next
  case (Co_duplicate i)
  assume "core_inv c" "core_step t op c = Inr c'"
  then show ?thesis
    by (auto simp: Co_duplicate duplicate_profile_def and_then_Inr_iff intro!: appended_inv dest: mk_profile_keyed split: if_splits)
next
  case Co_push
  assume "core_inv c" "core_step t op c = Inr c'"
  then show ?thesis by (auto simp: Co_push push_back_profile_def and_then_Inr_iff intro!: appended_inv dest: mk_profile_keyed)
qed (auto simp: select_profile_inv erase_profile_inv move_profile_inv)

text \<open>At most one profile is selected.\<close>

definition one_selected :: "configuration_state \<Rightarrow> bool" where
  "one_selected c \<longleftrightarrow> core_inv c \<and> selected_count c \<le> 1"

lemma selected_count_mset: "selected_count c = size (filter_mset profile_selected (mset (co_profiles c)))"
  by (simp add: selected_count_def flip: mset_filter)

lemma select_profile_one: "core_inv c \<Longrightarrow> selected_count c \<le> 1 \<or> i < length (co_profiles c) \<Longrightarrow> one_selected (select_profile i c)"
  using select_profile_inv [of c i] selected_select_at [of "co_profiles c" i 0]
  by (auto simp: one_selected_def select_profile_def selected_count_def core_inv_def)

lemma selected_at_update:
  assumes "profile_selected p = profile_selected (ps ! i)" "i < length ps"
  shows "length (filter profile_selected (ps[i := p])) = length (filter profile_selected ps)"
proof -
  have "{n. n < length (ps[i := p]) \<and> profile_selected (ps[i := p] ! n)} = {n. n < length ps \<and> profile_selected (ps ! n)}"
    using assms by (auto simp: nth_list_update)
  then show ?thesis unfolding length_filter_conv_card by simp
qed

lemma core_step_one:
  assumes "one_selected c" "core_step t op c = Inr c'"
  shows "one_selected c'"
proof -
  have inv: "core_inv c" and cnt: "selected_count c \<le> 1" using assms(1) by (simp_all add: one_selected_def)
  have inv': "core_inv c'" by (rule core_step_inv [OF inv assms(2)])
  have "selected_count c' \<le> 1"
  proof (cases op)
    case (Co_name i s)
    then show ?thesis using assms(2) cnt selected_at_update [of "set_profile_name s (co_profiles c ! i)" "co_profiles c" i]
      by (auto simp: co_set_profile_name_def selected_count_def selected_simps)
  next
    case (Co_select i)
    then show ?thesis using assms(2) select_profile_one [OF inv, of i] cnt by (auto simp: one_selected_def)
  next
    case Co_push
    then obtain p where p: "mk_profile t (co_error_handling c) (J_object [(''name'', J_string ''New profile'')]) = Inr p"
      "c' = c\<lparr>co_profiles := co_profiles c @ [p]\<rparr>" using assms(2) by (auto simp: push_back_profile_def and_then_Inr_iff)
    have "pf_values p = set_value ''name'' (Cv_string ''New profile'') profile_entries"
      using plain_profile [of "[(''name'', J_string ''New profile'')]" "co_error_handling c" _ t] new_profile_json(1) [of "co_error_handling c" "''New profile''"] p(1)
      by fastforce
    then have "\<not> profile_selected p"
      by (simp add: profile_selected_def flag_of_def value_of_set_value profile_entries_def mk_entry_of_def value_of_def find_value_def
          set_value_def change_entry_def)
    then show ?thesis using cnt p(2) by (simp add: selected_count_def)
  next
    case (Co_duplicate i)
    show ?thesis
    proof (cases "i < length (co_profiles c)")
      case True
      then obtain q where q: "well_keyed q" "c' = c\<lparr>co_profiles := co_profiles c @
          [set_profile_selected False (set_profile_name (profile_name q @ '' (copy)'') q)]\<rparr>"
        using assms(2) Co_duplicate by (auto simp: duplicate_profile_def and_then_Inr_iff dest: mk_profile_keyed)
      then have "\<not> profile_selected (set_profile_selected False (set_profile_name (profile_name q @ '' (copy)'') q))"
        by (simp add: selected_simps(1))
      then show ?thesis using cnt q(2) by (simp add: selected_count_def)
    next
      case False
      then show ?thesis using assms(2) Co_duplicate cnt by simp
    qed
  next
    case (Co_erase i)
    have "length (filter profile_selected (erase_at i (co_profiles c))) \<le> length (filter profile_selected (co_profiles c))"
      by (rule list_emb_length [OF subseq_filter [OF subseq_erase_at]])
    then show ?thesis using assms(2) Co_erase cnt by (auto simp: erase_profile_def selected_count_def)
  next
    case (Co_move i k)
    then show ?thesis using assms(2) cnt mset_move_element [of i k "co_profiles c"] by (auto simp: selected_count_mset move_profile_def)
  qed
  then show ?thesis using inv' by (simp add: one_selected_def)
qed

interpretation configuration: fallible_machine "core_step t" core_inv "\<lambda>_. True" for t
  by unfold_locales (rule core_step_inv)

interpretation selection: fallible_machine "core_step t" one_selected "\<lambda>_. True" for t
  by unfold_locales (rule core_step_one)

subsection \<open>Loading always gives a configuration\<close>

text \<open>Every profile that is there after loading was made from a JSON value.\<close>

lemma read_entries_made: "read_entries k mk js = (ps, r) \<Longrightarrow> p \<in> set ps \<Longrightarrow> \<exists>j. mk j = Inr p"
proof (induction js arbitrary: ps r)
  case (Cons j js)
  show ?case
  proof (cases "mk j")
    case (Inl e)
    then show ?thesis using Cons.prems by (cases e) (auto simp: wrap_error_def)
  next
    case (Inr q)
    obtain ps' r' where rest: "read_entries k mk js = (ps', r')" by fastforce
    then show ?thesis using Cons.prems Cons.IH [OF rest] Inr by (auto simp: wrap_error_def)
  qed
qed simp

lemma update_array_made:
  assumes "update_array_value k mk j [] = (ps, r)" "p \<in> set ps"
  shows "\<exists>j. mk j = Inr p"
  using assms read_entries_made
  by (auto simp: update_array_value_def split: sum.splits option.splits prod.splits)

lemma loaded_profiles_made:
  assumes "co_profiles c = []" "p \<in> set (co_profiles (load_file t system disk c))"
  shows "\<exists>h j. mk_profile t h j = Inr p"
proof (cases disk)
  case (File_contents j)
  then show ?thesis using assms update_array_made
    by (fastforce simp: load_contents_def apply_json_def Let_def split: sum.splits prod.splits option.splits)
qed (use assms in auto)

lemma loaded_profiles_keyed:
  "co_profiles c = [] \<Longrightarrow> p \<in> set (co_profiles (load_file t system disk c)) \<Longrightarrow> well_keyed p"
  using loaded_profiles_made mk_profile_keyed by blast

lemma fallback_made: "\<exists>p. mk_profile t h fallback_profile = Inr p \<and> profile_selected p"
proof -
  let ?es = "set_value ''selected'' (Cv_bool True) (set_value ''name'' (Cv_string ''Default profile'') profile_entries)"
  obtain p where p: "mk_profile t h fallback_profile = Inr p" "pf_values p = ?es"
    using plain_profile [of "[(''name'', J_string ''Default profile''), (''selected'', J_bool True)]" h ?es t]
      new_profile_json(2) [of h "''Default profile''" True]
    unfolding fallback_profile_def by auto
  have "flag_of ''selected'' ?es" by (subst flag_of_set_value) (simp_all add: profile_entries_def mk_entry_of_def)
  then show ?thesis using p by (auto simp: profile_selected_def)
qed

lemma loading_steps:
  "\<exists>c0. co_profiles c0 = [] \<and> co_source c0 = Default_configuration \<and> co_load_state c0 = Loaded \<and>
     mk_core_configuration t system h disk =
       (if co_profiles (load_file t system disk c0) = [] then
          and_then (mk_profile t h fallback_profile) (\<lambda>p. Inr ((load_file t system disk c0)\<lparr>co_profiles := [p]\<rparr>))
        else Inr (load_file t system disk c0))"
proof -
  obtain g where g: "mk_global_configuration h (J_object []) = Inr g" using mk_global_nothing by blast
  obtain m where m: "mk_machine_specific h (J_object []) = Inr m" by (simp add: mk_machine_specific_def)
  define c0 where "c0 = \<lparr>co_json = J_object [], co_error_handling = h, co_load_state = Loaded, co_source = Default_configuration,
        co_message = None, co_global = g, co_machine_specific = m, co_profiles = []\<rparr>"
  have "mk_core_configuration t system h disk =
       (if co_profiles (load_file t system disk c0) = [] then
          and_then (mk_profile t h fallback_profile) (\<lambda>p. Inr ((load_file t system disk c0)\<lparr>co_profiles := [p]\<rparr>))
        else Inr (load_file t system disk c0))"
    unfolding mk_core_configuration_def g m and_then_simps Let_def c0_def by (rule refl)
  then show ?thesis using c0_def by (intro exI [of _ c0]) simp
qed

lemma loading:
  "\<exists>c. mk_core_configuration t system h disk = Inr c \<and> core_inv c"
proof -
  obtain c0 where c0: "co_profiles c0 = []" "mk_core_configuration t system h disk =
       (if co_profiles (load_file t system disk c0) = [] then
          and_then (mk_profile t h fallback_profile) (\<lambda>p. Inr ((load_file t system disk c0)\<lparr>co_profiles := [p]\<rparr>))
        else Inr (load_file t system disk c0))" using loading_steps by blast
  obtain p where p: "mk_profile t h fallback_profile = Inr p" using fallback_made by blast
  have "\<forall>q\<in>set (co_profiles (load_file t system disk c0)). well_keyed q" using loaded_profiles_keyed [OF c0(1)] by blast
  then show ?thesis using p mk_profile_keyed [OF p] c0(2)
    by (cases "co_profiles (load_file t system disk c0) = []") (simp_all add: core_inv_def)
qed

lemma loaded_made:
  assumes "mk_core_configuration t system h disk = Inr c" "p \<in> set (co_profiles c)"
  shows "\<exists>h j. mk_profile t h j = Inr p"
proof -
  obtain c0 where c0: "co_profiles c0 = []" "mk_core_configuration t system h disk =
       (if co_profiles (load_file t system disk c0) = [] then
          and_then (mk_profile t h fallback_profile) (\<lambda>p. Inr ((load_file t system disk c0)\<lparr>co_profiles := [p]\<rparr>))
        else Inr (load_file t system disk c0))" using loading_steps by blast
  show ?thesis
  proof (cases "co_profiles (load_file t system disk c0) = []")
    case True
    then show ?thesis using assms c0(2) by (auto simp: and_then_Inr_iff) blast
  next
    case False
    then show ?thesis using assms c0(2) loaded_profiles_made [OF c0(1)] by auto
  qed
qed

lemma loaded_from:
  assumes "mk_core_configuration t system h disk = Inr c"
  shows "\<exists>c0 ps. co_source c0 = Default_configuration \<and> co_load_state c0 = Loaded \<and> c = (load_file t system disk c0)\<lparr>co_profiles := ps\<rparr>"
proof -
  obtain c0 where c0: "co_source c0 = Default_configuration" "co_load_state c0 = Loaded" "mk_core_configuration t system h disk =
       (if co_profiles (load_file t system disk c0) = [] then
          and_then (mk_profile t h fallback_profile) (\<lambda>p. Inr ((load_file t system disk c0)\<lparr>co_profiles := [p]\<rparr>))
        else Inr (load_file t system disk c0))" using loading_steps by blast
  have "\<exists>ps. c = (load_file t system disk c0)\<lparr>co_profiles := ps\<rparr>"
  proof (cases "co_profiles (load_file t system disk c0) = []")
    case True
    then have "and_then (mk_profile t h fallback_profile) (\<lambda>p. Inr ((load_file t system disk c0)\<lparr>co_profiles := [p]\<rparr>)) = Inr c"
      using c0(3) assms by simp
    then show ?thesis by (auto simp: and_then_Inr_iff)
  next
    case False
    then have "c = (load_file t system disk c0)\<lparr>co_profiles := co_profiles (load_file t system disk c0)\<rparr>" using c0(3) assms by simp
    then show ?thesis ..
  qed
  then show ?thesis using c0 by blast
qed

subsection \<open>Properties\<close>

text \<open>
  C21. Loading always gives a configuration with a profile, whatever the file system answers and whatever the file
  holds, and it stays so: no sequence of operations on the profiles leaves the program without one. A source other than
  the defaults is only reported for a file that was applied as a whole.
\<close>

theorem always_a_profile:
  "\<exists>c. mk_core_configuration t system h disk = Inr c \<and>
    (co_source c \<noteq> Default_configuration \<longrightarrow> co_load_state c = Loaded \<and> (\<exists>j. disk = File_contents j)) \<and>
    (\<forall>ops c'. run_until (core_step t) ops c = Inr c' \<longrightarrow> co_profiles c' \<noteq> [])"
proof -
  obtain c where c: "mk_core_configuration t system h disk = Inr c" "core_inv c" using loading by blast
  then have "co_profiles c' \<noteq> []" if "run_until (core_step t) ops c = Inr c'" for ops c'
    using configuration.inv_run [OF that] by (simp add: core_inv_def)
  moreover have "co_load_state c = Loaded \<and> (\<exists>j. disk = File_contents j)" if "co_source c \<noteq> Default_configuration"
  proof -
    obtain c0 c1 where c1: "co_source c0 = Default_configuration" "co_load_state c0 = Loaded" "c1 = load_file t system disk c0"
      "co_source c = co_source c1" "co_load_state c = co_load_state c1"
      using loaded_from [OF c(1)] by auto
    show ?thesis
    proof (cases disk)
      case (File_contents j)
      obtain c2 r where a: "apply_json t j (c0\<lparr>co_json := j\<rparr>) = (c2, r)" by fastforce
      have "co_source c2 = Default_configuration"
        using a c1(1) by (auto simp: apply_json_def Let_def split: sum.splits prod.splits)
      then show ?thesis using that c1 a File_contents by (cases r) (auto simp: load_contents_def)
    qed (use that c1 in auto)
  qed
  ultimately show ?thesis using c(1) by blast
qed

theorem always_a_profile_witness:
  "\<exists>c. mk_core_configuration example_profile_tools False Loose (File_contents (J_array [])) = Inr c \<and> co_profiles (erase_profile 0 c) \<noteq> []"
proof -
  obtain c where c: "mk_core_configuration example_profile_tools False Loose (File_contents (J_array [])) = Inr c"
    "\<forall>ops c'. run_until (core_step example_profile_tools) ops c = Inr c' \<longrightarrow> co_profiles c' \<noteq> []"
    using always_a_profile [of example_profile_tools False Loose "File_contents (J_array [])"] by blast
  have "run_until (core_step example_profile_tools) [Co_erase 0] c = Inr (erase_profile 0 c)" by simp
  then show ?thesis using c by blast
qed

text \<open>
  C22. Once a profile has been selected, at most one profile is selected, whatever is renamed, selected,
  added, copied, erased or moved afterwards; and right after the selection the selected profile is the one that was chosen.
\<close>

theorem one_profile_selected:
  assumes "mk_core_configuration t system h disk = Inr c0" "run_until (core_step t) ops c0 = Inr c" "i < length (co_profiles c)"
  shows "profile_name (get_selected_profile (select_profile i c)) = profile_name (co_profiles c ! i) \<and>
    (\<forall>ops' c'. run_until (core_step t) ops' (select_profile i c) = Inr c' \<longrightarrow> selected_count c' \<le> 1)"
proof
  have inv: "core_inv c" using loading [of t system h disk] configuration.inv_run [OF assms(2)] assms(1) by auto
  let ?ps = "co_profiles c" let ?qs = "select_at i 0 ?ps"
  have qs: "co_profiles (select_profile i c) = ?qs" using assms(3) by (simp add: select_profile_def)
  have nth: "?qs ! n = set_profile_selected (n = i) (?ps ! n)" if "n < length ?ps" for n using select_at_nth [OF that, of i 0] by simp
  have sel: "profile_selected (?qs ! n) \<longleftrightarrow> n = i" if "n < length ?ps" for n
    using nth [OF that] inv that by (simp add: selected_simps(1) core_inv_def)
  have "find profile_selected ?qs = Some (?qs ! i)"
    unfolding find_Some_iff using sel assms(3) by (intro exI [of _ i]) auto
  then have "get_selected_profile (select_profile i c) = set_profile_selected True (?ps ! i)"
    using nth [OF assms(3)] by (simp add: get_selected_profile_def qs)
  then show "profile_name (get_selected_profile (select_profile i c)) = profile_name (?ps ! i)"
    by (simp add: profile_name_def set_profile_selected_def string_of_value_def value_of_set_value)
  show "\<forall>ops' c'. run_until (core_step t) ops' (select_profile i c) = Inr c' \<longrightarrow> selected_count c' \<le> 1"
    using selection.inv_run select_profile_one [OF inv, of i] assms(3) by (auto simp: one_selected_def)
qed

theorem one_profile_selected_witness:
  "\<exists>c0 c. mk_core_configuration example_profile_tools False Loose File_missing = Inr c0 \<and>
    run_until (core_step example_profile_tools) [Co_push] c0 = Inr c \<and>
    profile_name (get_selected_profile (select_profile 1 c)) = ''New profile''"
proof -
  let ?t = example_profile_tools
  obtain c0 where c0: "mk_core_configuration ?t False Loose File_missing = Inr c0" using loading by blast
  then have one: "length (co_profiles c0) = 1" by (auto simp: mk_core_configuration_def and_then_Inr_iff Let_def split: if_splits)
  obtain p where p: "mk_profile ?t (co_error_handling c0) (J_object [(''name'', J_string ''New profile'')]) = Inr p"
    "pf_values p = set_value ''name'' (Cv_string ''New profile'') profile_entries"
    using plain_profile [of "[(''name'', J_string ''New profile'')]"] new_profile_json(1) by fastforce
  let ?c = "c0\<lparr>co_profiles := co_profiles c0 @ [p]\<rparr>"
  have run: "run_until (core_step ?t) [Co_push] c0 = Inr ?c" using p(1) by (simp add: push_back_profile_def)
  have "profile_name (co_profiles ?c ! 1) = ''New profile''"
    using one p(2) by (simp add: nth_append profile_name_def string_of_value_def value_of_set_value profile_entries_def mk_entry_of_def)
  then show ?thesis using one_profile_selected [OF c0 run, of 1] c0 run one by auto
qed

text \<open>What a configuration that was read from an object writes as its profiles.\<close>

lemma saved_profiles:
  assumes "co_json c = J_object ms"
  shows "\<exists>xs c'. sync_save_to_file t c = Inr (J_object xs, c') \<and> co_load_state c' = Loaded \<and>
    map_of xs ''profiles'' =
      (case filter (\<lambda>j. j \<noteq> []) (map (profile_to_json t) (co_profiles c)) of [] \<Rightarrow> None | js \<Rightarrow> Some (J_array (map J_object js)))"
proof -
  have obj: "\<exists>zs. save_object k js (J_object ys) = Inr (J_object zs)" for k js ys by (simp add: save_object_def)
  have arr: "\<exists>zs. save_array k js (J_object ys) = Inr (J_object zs) \<and>
      map_of zs k = (case filter (\<lambda>j. j \<noteq> []) js of [] \<Rightarrow> None | js \<Rightarrow> Some (J_array (map J_object js)))" for k js ys
    by (simp add: save_array_def map_of_obj_set map_of_obj_erase split: list.split)
  obtain us where us: "save_object ''global'' (global_to_json (co_global c)) (J_object ms) = Inr (J_object us)" using obj by blast
  obtain vs where vs: "save_object ''machine_specific'' (machine_specific_to_json (co_machine_specific c)) (J_object us) = Inr (J_object vs)"
    using obj by blast
  from arr [of "''profiles''" "map (profile_to_json t) (co_profiles c)" vs] show ?thesis
    by (auto simp: sync_save_to_file_def core_to_json_def assms us vs)
qed

lemma valid_member:
  "\<forall>j. map_of ms k = Some j \<longrightarrow> (\<exists>g. mk j = Inr g) \<Longrightarrow> \<exists>g. update_object_value k mk (J_object ms) old = Inr g"
  by (cases "map_of ms k") (auto simp: update_object_value_def wrap_error_def)

text \<open>Loading stops at the first profile that is invalid.\<close>

lemma read_up_to_invalid:
  assumes "list_all2 (\<lambda>j p. mk j = Inr p) good ps" "mk bad = Inl e"
  shows "\<exists>e'. read_entries k mk (good @ bad # rest) = (ps, Some e')"
  using assms(1)
proof (induction rule: list_all2_induct)
  case Nil
  have "\<exists>e'. wrap_error (quoted k @ '' entry error: '') (mk bad) = Inl e'" using assms(2) by (cases e) (auto simp: wrap_error_def)
  then show ?case by auto
qed (auto simp: wrap_error_def)

text \<open>
  C27. A file that is a JSON object with valid other members and an invalid profile is loaded up to that profile: the
  profiles before it are in use, those from it on are not, and the state tells of the error. If no profile stands before
  it, the profile in use is the default one that loading falls back to. Saving this configuration writes the profiles in
  use and nothing of the others: the member ''profiles'' of the saved object holds the JSON of the profiles in use, without
  those whose JSON is empty, and is missing if there are none.
\<close>

theorem invalid_profile_is_not_saved:
  assumes "mk_core_configuration t system h (File_contents (J_object ms)) = Inr c"
    and "map_of ms ''profiles'' = Some (J_array (good @ bad # rest))"
    and "\<forall>j. map_of ms ''global'' = Some j \<longrightarrow> (\<exists>g. mk_global_configuration h j = Inr g)"
    and "\<forall>j. map_of ms ''machine_specific'' = Some j \<longrightarrow> (\<exists>m. mk_machine_specific h j = Inr m)"
    and "list_all2 (\<lambda>j p. mk_profile t h j = Inr p) good ps" and "mk_profile t h bad = Inl e"
  shows "co_load_state c = Json_error_state \<and>
    (if ps = [] then \<exists>p. mk_profile t h fallback_profile = Inr p \<and> co_profiles c = [p] else co_profiles c = ps) \<and>
    (\<exists>xs c'. sync_save_to_file t c = Inr (J_object xs, c') \<and> co_load_state c' = Loaded \<and>
      map_of xs ''profiles'' =
        (case filter (\<lambda>j. j \<noteq> []) (map (profile_to_json t) (co_profiles c)) of [] \<Rightarrow> None | js \<Rightarrow> Some (J_array (map J_object js))))"
proof -
  obtain e' where e': "read_entries ''profiles'' (mk_profile t h) (good @ bad # rest) = (ps, Some e')"
    using read_up_to_invalid [OF assms(5,6)] by blast
  obtain g where g: "mk_global_configuration h (J_object []) = Inr g" using mk_global_nothing by blast
  obtain m where m: "mk_machine_specific h (J_object []) = Inr m" by (simp add: mk_machine_specific_def)
  obtain g' where g': "update_object_value ''global'' (mk_global_configuration h) (J_object ms) g = Inr g'"
    using valid_member [OF assms(3)] by blast
  obtain m' where m': "update_object_value ''machine_specific'' (mk_machine_specific h) (J_object ms) m = Inr m'"
    using valid_member [OF assms(4)] by blast
  let ?c1 = "\<lparr>co_json = J_object ms, co_error_handling = h, co_load_state = Json_error_state, co_source = Default_configuration,
      co_message = Some (Apply_message e'), co_global = g', co_machine_specific = m', co_profiles = ps\<rparr>"
  have u: "update_array_value ''profiles'' (mk_profile t h) (J_object ms) [] = (ps, Some e')"
    using e' by (simp add: update_array_value_def assms(2))
  have load: "load_contents t system (J_object ms) \<lparr>co_json = J_object [], co_error_handling = h, co_load_state = Loaded,
      co_source = Default_configuration, co_message = None, co_global = g, co_machine_specific = m, co_profiles = []\<rparr> = ?c1"
    by (simp add: load_contents_def apply_json_def Let_def g' m' u)
  have made: "(if ps = [] then and_then (mk_profile t h fallback_profile) (\<lambda>p. Inr (?c1\<lparr>co_profiles := [p]\<rparr>)) else Inr ?c1) = Inr c"
    using assms(1) unfolding mk_core_configuration_def g m and_then_simps Let_def load_file.simps load by simp
  show ?thesis
  proof (cases "ps = []")
    case True
    then obtain p where p: "mk_profile t h fallback_profile = Inr p" "c = ?c1\<lparr>co_profiles := [p]\<rparr>"
      using made by (auto simp: and_then_Inr_iff)
    then show ?thesis using True saved_profiles [of c ms t] by simp
  next
    case False
    then have "c = ?c1" using made by simp
    then show ?thesis using False saved_profiles [of c ms t] by simp
  qed
qed

lemma null_profile: "\<exists>e. mk_profile t h J_null = Inl e"
proof -
  obtain fn where fn: "handle_modifications_json (pt_texts t) (J_array (map entry_json profile_default_fn_pairs)) [] = Inr fn" using default_keys_read by blast
  obtain q where q: "mk_cm_parameters Loose (J_object []) = Inr q" by (simp add: mk_cm_parameters_def mk_settings_nothing)
  show ?thesis
    by (simp add: mk_profile_def mk_parameters_def mk_settings_nothing mk_complex_modifications_def q update_object_value_def find_array_def
        mk_virtual_hid_keyboard_def fn)
qed

lemma map_of_update_other:
  "k' \<noteq> k \<Longrightarrow> map_of (update_object_json k j xs) k' = map_of xs k'"
  "k' \<noteq> k \<Longrightarrow> map_of (update_array_json k js xs) k' = map_of xs k'"
  "k' \<noteq> k \<Longrightarrow> map_of (update_array k js' xs) k' = map_of xs k'"
  by (simp_all add: update_object_json_def update_array_json_def update_array_def map_of_obj_set map_of_obj_erase split: list.split)

lemma named_profile_written:
  assumes "pf_values p = set_value ''name'' (Cv_string s) profile_entries" "s \<noteq> []"
  shows "profile_to_json t p \<noteq> []"
proof -
  have "map_of (update_jsons (pf_values p) (pf_json p)) ''name'' \<noteq> None"
    using assms by (simp add: profile_entries_def mk_entry_of_def set_value_def change_entry_def map_of_update_json)
  then have "map_of (profile_to_json t p) ''name'' \<noteq> None"
    unfolding profile_to_json_def Let_def by (simp only: map_of_update_other list.inject char.inject simp_thms list.distinct)
  then show ?thesis by auto
qed

theorem invalid_profile_is_not_saved_witness:
  "\<exists>c p. mk_core_configuration example_profile_tools False Loose
      (File_contents (J_object [(''machine_specific'', J_object []),
        (''profiles'', J_array ([J_object [(''name'', J_string ''A'')]] @ J_null # [J_object [(''name'', J_string ''B'')]]))])) = Inr c \<and>
    co_profiles c = [p] \<and> (\<exists>xs c'. sync_save_to_file example_profile_tools c = Inr (J_object xs, c') \<and>
      map_of xs ''profiles'' = Some (J_array [J_object (profile_to_json example_profile_tools p)]))"
proof -
  let ?t = example_profile_tools
  let ?good = "[J_object [(''name'', J_string ''A'')]]" and ?rest = "[J_object [(''name'', J_string ''B'')]]"
  let ?ms = "[(''machine_specific'', J_object []), (''profiles'', J_array (?good @ J_null # ?rest))]"
  obtain c where c: "mk_core_configuration ?t False Loose (File_contents (J_object ?ms)) = Inr c"
    using loading by blast
  obtain p where p: "mk_profile ?t Loose (J_object [(''name'', J_string ''A'')]) = Inr p" "pf_values p = set_value ''name'' (Cv_string ''A'') profile_entries"
    using plain_profile [of "[(''name'', J_string ''A'')]"] new_profile_json(1) by fastforce
  obtain e where e: "mk_profile ?t Loose J_null = Inl e" using null_profile by blast
  have all: "list_all2 (\<lambda>j p. mk_profile ?t Loose j = Inr p) ?good [p]" using p(1) by simp
  have m: "mk_machine_specific Loose (J_object []) = Inr \<lparr>ms_json = [], ms_error_handling = Loose, ms_entries = []\<rparr>"
    by (simp add: mk_machine_specific_def)
  have "profile_to_json ?t p \<noteq> []" using named_profile_written [OF p(2)] by simp
  moreover have "co_profiles c = [p]" and "\<exists>xs c'. sync_save_to_file ?t c = Inr (J_object xs, c') \<and> co_load_state c' = Loaded \<and>
      map_of xs ''profiles'' = (case filter (\<lambda>j. j \<noteq> []) (map (profile_to_json ?t) (co_profiles c)) of
         [] \<Rightarrow> None | js \<Rightarrow> Some (J_array (map J_object js)))"
    using invalid_profile_is_not_saved [OF c _ _ _ all e] m by auto
  ultimately show ?thesis using c by auto
qed

end
