(* ===== verification/GamePadSticks.thy ===== *)
theory GamePadSticks
  imports DeviceConfiguration HidInput Environment
begin

text \<open>
  The sticks of a game pad as a pointing device
  (\<open>src/apps/CoreService/include/core_service/daemon/device_grabber_details/game_pad_stick_converter.hpp\<close>): sensor values
  become magnitudes, formulas turn these into motions, and a timer goes on posting motions while a
  stick is held. The functions of \<open>cmath\<close>, the rounding of a result, the conversion of a double to \<open>int\<close> and
  the value of a compiled formula are parameters. The timer is on or off; a call of its function is an
  operation; starting and stopping it take effect at once. The clock is an argument, read once per operation.
\<close>

record stick_math =
  sm_round :: "rat \<Rightarrow> rat"
  sm_sqrt :: "rat \<Rightarrow> rat"
  sm_atan2 :: "rat \<Rightarrow> rat \<Rightarrow> rat"
  sm_to_int :: "double \<Rightarrow> int"
  sm_value :: "string \<Rightarrow> (string \<times> rat) list \<Rightarrow> double"

subsection \<open>A stick\<close>

definition stick_sensor_value :: "stick_math \<Rightarrow> int \<Rightarrow> int \<Rightarrow> int \<Rightarrow> rat" where
  "stick_sensor_value m logical_max logical_min n =
     (if logical_max \<noteq> logical_min then
        let q = sm_round m (sm_round m (of_int (n - logical_min)) / sm_round m (of_int (logical_max - logical_min)))
        in sm_round m (sm_round m (q - 1 / 2) * 2)
      else 0)"

record stick =
  st_horizontal :: rat
  st_vertical :: rat
  st_radian :: rat
  st_absolute_magnitude :: rat
  st_delta_magnitude :: rat
  st_previous_absolute_magnitude :: rat
  st_deadzone :: rat
  st_delta_threshold :: rat
  st_absolute_threshold :: rat
  st_interval :: milliseconds

definition new_stick :: stick where
  "new_stick = \<lparr>st_horizontal = 0, st_vertical = 0, st_radian = 0, st_absolute_magnitude = 0, st_delta_magnitude = 0,
     st_previous_absolute_magnitude = 0, st_deadzone = 0, st_delta_threshold = 0, st_absolute_threshold = 1, st_interval = 0\<rparr>"

definition continued_movement :: "stick \<Rightarrow> bool" where
  "continued_movement s \<longleftrightarrow> st_absolute_magnitude s \<ge> st_absolute_threshold s"

definition get_continued_movement_interval_milliseconds :: "stick \<Rightarrow> milliseconds" where
  "get_continued_movement_interval_milliseconds s = (if continued_movement s then st_interval s else 0)"

text \<open>Without its signal, which the converter handles.\<close>

definition stick_update_values :: "stick_math \<Rightarrow> stick \<Rightarrow> stick" where
  "stick_update_values m s =
     (let v = st_vertical s; h = st_horizontal s;
          a = min 1 (sm_sqrt m (sm_round m (sm_round m (v * v) + sm_round m (h * h))));
          s1 = s\<lparr>st_radian := sm_atan2 m v h, st_absolute_magnitude := a\<rparr>;
          dm = max 0 (sm_round m (a - st_previous_absolute_magnitude s1));
          s2 = (if continued_movement s1 then s1\<lparr>st_delta_magnitude := dm, st_previous_absolute_magnitude := a\<rparr>
                else if 0 < dm \<and> dm < st_delta_threshold s1 then s1\<lparr>st_delta_magnitude := 0\<rparr>
                else s1\<lparr>st_delta_magnitude := dm, st_previous_absolute_magnitude := a\<rparr>)
      in if st_absolute_magnitude s2 \<le> st_deadzone s2 then s2\<lparr>st_delta_magnitude := 0, st_absolute_magnitude := 0\<rparr> else s2)"

datatype stick_side = Side_horizontal | Side_vertical

definition update_stick_sensor :: "stick_math \<Rightarrow> stick_side \<Rightarrow> int \<Rightarrow> int \<Rightarrow> int \<Rightarrow> stick \<Rightarrow> stick" where
  "update_stick_sensor m side logical_max logical_min n s =
     (let x = stick_sensor_value m logical_max logical_min n
      in stick_update_values m (case side of Side_horizontal \<Rightarrow> s\<lparr>st_horizontal := x\<rparr> | Side_vertical \<Rightarrow> s\<lparr>st_vertical := x\<rparr>))"

subsection \<open>The value of an event\<close>

fun double_plus :: "stick_math \<Rightarrow> double \<Rightarrow> double \<Rightarrow> double" where
  "double_plus m (Finite a) (Finite b) = Finite (sm_round m (a + b))"
| "double_plus m Not_a_number _ = Not_a_number"
| "double_plus m _ Not_a_number = Not_a_number"
| "double_plus m Positive_infinity Negative_infinity = Not_a_number"
| "double_plus m Negative_infinity Positive_infinity = Not_a_number"
| "double_plus m Positive_infinity _ = Positive_infinity"
| "double_plus m _ Positive_infinity = Positive_infinity"
| "double_plus m Negative_infinity _ = Negative_infinity"
| "double_plus m _ Negative_infinity = Negative_infinity"

fun double_minus :: "double \<Rightarrow> double" where
  "double_minus (Finite r) = Finite (- r)"
| "double_minus Positive_infinity = Negative_infinity"
| "double_minus Negative_infinity = Positive_infinity"
| "double_minus Not_a_number = Not_a_number"

fun double_trunc :: "double \<Rightarrow> double" where
  "double_trunc (Finite r) = Finite (of_int (truncate_rat r))"
| "double_trunc d = d"

record stick_event_value =
  axis_value :: double
  axis_remainder :: double

definition new_event_value :: stick_event_value where
  "new_event_value = \<lparr>axis_value = Finite 0, axis_remainder = Finite 0\<rparr>"

definition ev_set_value :: "double \<Rightarrow> stick_event_value \<Rightarrow> stick_event_value" where
  "ev_set_value v e = e\<lparr>axis_value := v\<rparr>"

definition truncated_value :: "stick_math \<Rightarrow> stick_event_value \<Rightarrow> int \<times> stick_event_value" where
  "truncated_value m e =
     (let truncated = double_trunc (double_plus m (axis_value e) (axis_remainder e));
          r = double_plus m (axis_remainder e) (double_plus m (axis_value e) (double_minus truncated))
      in (max (min (sm_to_int m truncated) 127) (-127), e\<lparr>axis_remainder := r\<rparr>))"

subsection \<open>The converter\<close>

datatype movement_mode = Mode_none | Mode_xy | Mode_wheels

record stick_converter =
  gc_device_id :: device_id
  gc_xy :: stick
  gc_wheels :: stick
  gc_x :: stick_event_value
  gc_y :: stick_event_value
  gc_horizontal_wheel :: stick_event_value
  gc_vertical_wheel :: stick_event_value
  gc_timer :: bool
  gc_timer_interval :: milliseconds
  gc_timer_captured :: milliseconds
  gc_timer_count :: int
  gc_mode :: movement_mode
  gc_formula :: "device_formula \<Rightarrow> string"

definition double_of_value :: "string \<Rightarrow> config_entry list \<Rightarrow> rat" where
  "double_of_value k es = (case value_of k es of Cv_double r \<Rightarrow> r | _ \<Rightarrow> 0)"

definition configure_stick ::
    "device_number \<Rightarrow> device_number \<Rightarrow> device_number \<Rightarrow> device_interval \<Rightarrow> device_settings \<Rightarrow> stick \<Rightarrow> stick" where
  "configure_stick zone delta absolute interval d s =
     s\<lparr>st_deadzone := double_of_value (number_key zone) (dv_values d),
       st_delta_threshold := double_of_value (number_key delta) (dv_values d),
       st_absolute_threshold := double_of_value (number_key absolute) (dv_values d),
       st_interval := int_of_value (interval_key interval) (dv_values d)\<rparr>"

definition converter_set_configuration :: "device_settings \<Rightarrow> stick_converter \<Rightarrow> stick_converter" where
  "converter_set_configuration d c =
     c\<lparr>gc_xy := configure_stick Xy_stick_deadzone Xy_stick_delta_threshold Xy_stick_absolute_threshold Xy_stick_interval d (gc_xy c),
       gc_wheels := configure_stick Wheels_stick_deadzone Wheels_stick_delta_threshold Wheels_stick_absolute_threshold
         Wheels_stick_interval d (gc_wheels c),
       gc_formula := (\<lambda>f. string_of_value (formula_key f) (dv_values d))\<rparr>"

definition new_stick_converter :: "device_id \<Rightarrow> device_settings \<Rightarrow> stick_converter" where
  "new_stick_converter i d = converter_set_configuration d
     \<lparr>gc_device_id = i, gc_xy = new_stick, gc_wheels = new_stick, gc_x = new_event_value, gc_y = new_event_value,
      gc_horizontal_wheel = new_event_value, gc_vertical_wheel = new_event_value, gc_timer = False, gc_timer_interval = 0,
      gc_timer_captured = 0, gc_timer_count = 0, gc_mode = Mode_none, gc_formula = (\<lambda>_. [])\<rparr>"

subsection \<open>Posting\<close>

definition formula_value :: "stick_math \<Rightarrow> string \<Rightarrow> (string \<times> rat) list \<Rightarrow> double" where
  "formula_value m f vars = (if sm_value m f vars = Not_a_number then Finite 0 else sm_value m f vars)"

text \<open>The variables of a stick's formulas; \<open>other\<close> is the second stick, whose magnitude is added while this one is held.\<close>

definition stick_variables :: "stick_math \<Rightarrow> bool \<Rightarrow> stick \<Rightarrow> stick \<Rightarrow> (string \<times> rat) list" where
  "stick_variables m held s other =
     (let extra = (\<lambda>r. if held \<and> continued_movement s then sm_round m (r + st_absolute_magnitude other) else r)
      in [(''radian'', st_radian s), (''delta_magnitude'', extra (st_delta_magnitude s)),
          (''absolute_magnitude'', extra (st_absolute_magnitude s)), (''continued_movement'', if held then 1 else 0)])"

definition update_event_values :: "stick_math \<Rightarrow> stick_converter \<Rightarrow> stick_converter" where
  "update_event_values m c =
     (let xy = stick_variables m (gc_mode c = Mode_xy) (gc_xy c) (gc_wheels c);
          wheels = stick_variables m (gc_mode c = Mode_wheels) (gc_wheels c) (gc_xy c)
      in c\<lparr>gc_x := ev_set_value (formula_value m (gc_formula c Stick_x_formula) xy) (gc_x c),
           gc_y := ev_set_value (formula_value m (gc_formula c Stick_y_formula) xy) (gc_y c),
           gc_horizontal_wheel :=
             ev_set_value (formula_value m (gc_formula c Stick_horizontal_wheel_formula) wheels) (gc_horizontal_wheel c),
           gc_vertical_wheel :=
             ev_set_value (double_minus (formula_value m (gc_formula c Stick_vertical_wheel_formula) wheels)) (gc_vertical_wheel c)\<rparr>)"

definition motion_entries :: "time_point \<Rightarrow> device_id \<Rightarrow> pointing_motion \<Rightarrow> entry list" where
  "motion_entries now i p = (if pm_is_zero p then [] else [original_entry i now (pointing_motion_event p) Single None Original])"

definition post_xy_event :: "stick_math \<Rightarrow> time_point \<Rightarrow> stick_converter \<Rightarrow> entry list \<times> stick_converter" where
  "post_xy_event m now c =
     (let (x, ex) = truncated_value m (gc_x c); (y, ey) = truncated_value m (gc_y c)
      in (motion_entries now (gc_device_id c) (mk_motion x y 0 0), c\<lparr>gc_x := ex, gc_y := ey\<rparr>))"

definition post_wheels_event :: "stick_math \<Rightarrow> time_point \<Rightarrow> stick_converter \<Rightarrow> entry list \<times> stick_converter" where
  "post_wheels_event m now c =
     (let (v, ev) = truncated_value m (gc_vertical_wheel c); (h, eh) = truncated_value m (gc_horizontal_wheel c)
      in (motion_entries now (gc_device_id c) (mk_motion 0 0 v h), c\<lparr>gc_vertical_wheel := ev, gc_horizontal_wheel := eh\<rparr>))"

definition converter_post_event ::
    "stick_math \<Rightarrow> movement_mode \<Rightarrow> time_point \<Rightarrow> stick_converter \<Rightarrow> entry list \<times> stick_converter" where
  "converter_post_event m mode now c =
     (let c = update_event_values m c
      in case mode of Mode_none \<Rightarrow> ([], c) | Mode_xy \<Rightarrow> post_xy_event m now c | Mode_wheels \<Rightarrow> post_wheels_event m now c)"

subsection \<open>The timer\<close>

definition update_continued_movement_timer ::
    "stick_math \<Rightarrow> movement_mode \<Rightarrow> milliseconds \<Rightarrow> time_point \<Rightarrow> stick_converter \<Rightarrow> entry list \<times> stick_converter" where
  "update_continued_movement_timer m mode interval now c =
     (if interval = 0 then
        if gc_mode c = Mode_none then converter_post_event m mode now c
        else if \<not> continued_movement (gc_xy c) \<and> \<not> continued_movement (gc_wheels c)
        then ([], c\<lparr>gc_mode := Mode_none, gc_timer := False, gc_timer_interval := 0\<rparr>)
        else ([], c)
      else if \<not> gc_timer c then
        ([], c\<lparr>gc_mode := mode, gc_timer_count := 0, gc_timer := True, gc_timer_captured := interval, gc_timer_interval := 300\<rparr>)
      else ([], c))"

text \<open>The function of the timer: the call at its start is ignored, the second one sets the interval.\<close>

definition continued_movement_tick :: "stick_math \<Rightarrow> time_point \<Rightarrow> stick_converter \<Rightarrow> entry list \<times> stick_converter" where
  "continued_movement_tick m now c =
     (if \<not> gc_timer c then ([], c)
      else
        (let n = gc_timer_count c + 1; c1 = c\<lparr>gc_timer_count := n\<rparr> in
         if n = 1 then ([], c1)
         else if n = 2 then
           (let (es, c2) = converter_post_event m (gc_mode c1) now c1
            in (es, c2\<lparr>gc_timer_interval := gc_timer_captured c2\<rparr>))
         else converter_post_event m (gc_mode c1) now c1))"

subsection \<open>Values from the game pad\<close>

record game_pad_value = hid_value +
  gv_logical_max :: "int option"
  gv_logical_min :: "int option"

definition update_xy_stick ::
    "stick_math \<Rightarrow> stick_side \<Rightarrow> int \<Rightarrow> int \<Rightarrow> int \<Rightarrow> time_point \<Rightarrow> stick_converter \<Rightarrow> entry list \<times> stick_converter" where
  "update_xy_stick m side logical_max logical_min n now c =
     (let s = update_stick_sensor m side logical_max logical_min n (gc_xy c)
      in update_continued_movement_timer m Mode_xy (get_continued_movement_interval_milliseconds s) now (c\<lparr>gc_xy := s\<rparr>))"

definition update_wheels_stick ::
    "stick_math \<Rightarrow> stick_side \<Rightarrow> int \<Rightarrow> int \<Rightarrow> int \<Rightarrow> time_point \<Rightarrow> stick_converter \<Rightarrow> entry list \<times> stick_converter" where
  "update_wheels_stick m side logical_max logical_min n now c =
     (let s = update_stick_sensor m side logical_max logical_min n (gc_wheels c)
      in update_continued_movement_timer m Mode_wheels (get_continued_movement_interval_milliseconds s) now (c\<lparr>gc_wheels := s\<rparr>))"

text \<open>Which stick and which of its axes a value belongs to.\<close>

definition stick_target :: "bool \<Rightarrow> game_pad_value \<Rightarrow> (movement_mode \<times> stick_side) option" where
  "stick_target swap_sticks v =
     (let on = conforms_to (hid_value.truncate v) page_generic_desktop in
      if on 0x30 then Some (if swap_sticks then Mode_wheels else Mode_xy, Side_horizontal)
      else if on 0x31 then Some (if swap_sticks then Mode_wheels else Mode_xy, Side_vertical)
      else if on 0x35 then Some (if swap_sticks then Mode_xy else Mode_wheels, Side_vertical)
      else if on 0x32 then Some (if swap_sticks then Mode_xy else Mode_wheels, Side_horizontal)
      else None)"

definition convert_value ::
    "stick_math \<Rightarrow> bool \<Rightarrow> time_point \<Rightarrow> game_pad_value \<Rightarrow> entry list \<times> stick_converter \<Rightarrow> entry list \<times> stick_converter" where
  "convert_value m swap_sticks now v = (\<lambda>(es, c).
     case (gv_logical_max v, gv_logical_min v) of
       (Some hi, Some lo) \<Rightarrow>
         if hi \<noteq> lo then
           (case stick_target swap_sticks v of
              Some (mode, side) \<Rightarrow>
                (let (new, c1) = (if mode = Mode_xy then update_xy_stick m side hi lo (hv_integer_value v) now c
                                  else update_wheels_stick m side hi lo (hv_integer_value v) now c)
                 in (es @ new, c1))
            | None \<Rightarrow> (es, c))
         else (es, c)
     | _ \<Rightarrow> (es, c))"

definition stick_convert ::
    "stick_math \<Rightarrow> device_settings \<Rightarrow> time_point \<Rightarrow> game_pad_value list \<Rightarrow> stick_converter \<Rightarrow> entry list \<times> stick_converter" where
  "stick_convert m d now vs c = fold (convert_value m (device_flag_of Game_pad_swap_sticks d) now) vs ([], c)"

subsection \<open>Runs of the converter\<close>

text \<open>The state of a run is what has been posted and the converter.\<close>

datatype stick_op =
    Gp_values bool "game_pad_value list" time_point
  | Gp_timer time_point
  | Gp_configure device_settings

definition posting_more :: "(stick_converter \<Rightarrow> entry list \<times> stick_converter) \<Rightarrow> entry list \<times> stick_converter \<Rightarrow> entry list \<times> stick_converter" where
  "posting_more f s = (let (new, c) = f (snd s) in (fst s @ new, c))"

fun stick_step :: "stick_math \<Rightarrow> stick_op \<Rightarrow> entry list \<times> stick_converter \<Rightarrow> entry list \<times> stick_converter" where
  "stick_step m (Gp_values swap_sticks vs now) s = posting_more (\<lambda>c. fold (convert_value m swap_sticks now) vs ([], c)) s"
| "stick_step m (Gp_timer now) s = posting_more (continued_movement_tick m now) s"
| "stick_step m (Gp_configure d) s = posting_more (\<lambda>c. ([], converter_set_configuration d c)) s"

lemma continued_movement_other_fields [simp]:
  "continued_movement (s\<lparr>st_horizontal := x\<rparr>) = continued_movement s"
  "continued_movement (s\<lparr>st_vertical := x\<rparr>) = continued_movement s"
  by (simp_all add: continued_movement_def)

lemma update_event_values_frame [simp]:
  "gc_xy (update_event_values m c) = gc_xy c" "gc_wheels (update_event_values m c) = gc_wheels c"
  "gc_mode (update_event_values m c) = gc_mode c" "gc_timer (update_event_values m c) = gc_timer c"
  "gc_device_id (update_event_values m c) = gc_device_id c"
  by (simp_all add: update_event_values_def Let_def)

lemma converter_post_event_frame:
  assumes "converter_post_event m mode now c = (es, c')"
  shows "gc_xy c' = gc_xy c" "gc_wheels c' = gc_wheels c" "gc_mode c' = gc_mode c" "gc_timer c' = gc_timer c"
    "gc_device_id c' = gc_device_id c"
  using assms by (auto simp: converter_post_event_def post_xy_event_def post_wheels_event_def Let_def
      split: movement_mode.splits prod.splits)

text \<open>What a motion of the converter is: of one kind, not zero and within the range of the virtual pointing device.\<close>

definition stick_range :: "pointing_motion \<Rightarrow> bool" where
  "stick_range p \<longleftrightarrow> \<not> pm_is_zero p \<and>
     ((pm_vertical_wheel p = 0 \<and> pm_horizontal_wheel p = 0) \<or> (pm_x p = 0 \<and> pm_y p = 0)) \<and>
     \<bar>pm_x p\<bar> \<le> 127 \<and> \<bar>pm_y p\<bar> \<le> 127 \<and> \<bar>pm_vertical_wheel p\<bar> \<le> 127 \<and> \<bar>pm_horizontal_wheel p\<bar> \<le> 127"

definition stick_motion :: "device_id \<Rightarrow> entry \<Rightarrow> bool" where
  "stick_motion i e \<longleftrightarrow> (\<exists>now p. e = original_entry i now (pointing_motion_event p) Single None Original \<and> stick_range p)"

lemma motion_entries_range: "e \<in> set (motion_entries now i p) \<Longrightarrow> pm_is_zero p \<or> stick_range p \<Longrightarrow> stick_motion i e"
  by (auto simp: motion_entries_def stick_motion_def split: if_splits)

lemma truncated_value_bounds: "truncated_value m e = (n, e') \<Longrightarrow> \<bar>n\<bar> \<le> 127"
  by (auto simp: truncated_value_def Let_def)

lemma motion_entries_xy: "\<bar>x\<bar> \<le> 127 \<Longrightarrow> \<bar>y\<bar> \<le> 127 \<Longrightarrow> e \<in> set (motion_entries now i (mk_motion x y 0 0)) \<Longrightarrow> stick_motion i e"
  by (rule motion_entries_range) (auto simp: stick_range_def mk_motion_def pm_is_zero_def)

lemma motion_entries_wheels: "\<bar>v\<bar> \<le> 127 \<Longrightarrow> \<bar>h\<bar> \<le> 127 \<Longrightarrow> e \<in> set (motion_entries now i (mk_motion 0 0 v h)) \<Longrightarrow> stick_motion i e"
  by (rule motion_entries_range) (auto simp: stick_range_def mk_motion_def pm_is_zero_def)

lemma post_xy_event_motions: "post_xy_event m now c = (es, c') \<Longrightarrow> e \<in> set es \<Longrightarrow> stick_motion (gc_device_id c) e"
  by (auto simp: post_xy_event_def Let_def split: prod.splits intro: motion_entries_xy truncated_value_bounds)

lemma post_wheels_event_motions: "post_wheels_event m now c = (es, c') \<Longrightarrow> e \<in> set es \<Longrightarrow> stick_motion (gc_device_id c) e"
  by (auto simp: post_wheels_event_def Let_def split: prod.splits intro: motion_entries_wheels truncated_value_bounds)

lemma converter_post_event_motions:
  "converter_post_event m mode now c = (es, c') \<Longrightarrow> e \<in> set es \<Longrightarrow> stick_motion (gc_device_id c) e"
  using post_xy_event_motions [of m now "update_event_values m c"] post_wheels_event_motions [of m now "update_event_values m c"]
  by (cases mode) (auto simp: converter_post_event_def)

text \<open>The invariant of every run: the mode tells whether the timer is on.\<close>

definition stick_out_inv :: "device_id \<Rightarrow> entry list \<times> stick_converter \<Rightarrow> bool" where
  "stick_out_inv i s \<longleftrightarrow> gc_device_id (snd s) = i \<and> (\<forall>e\<in>set (fst s). stick_motion i e) \<and>
     (gc_timer (snd s) \<longleftrightarrow> gc_mode (snd s) \<noteq> Mode_none)"

text \<open>With a fixed configuration: the timer is on only while a stick is held, and whenever one is held that has an interval.\<close>

definition follows_sticks :: "stick_converter \<Rightarrow> bool" where
  "follows_sticks c \<longleftrightarrow> (gc_timer c \<longleftrightarrow> gc_mode c \<noteq> Mode_none) \<and>
     (gc_timer c \<longrightarrow> continued_movement (gc_xy c) \<or> continued_movement (gc_wheels c)) \<and>
     (\<forall>s\<in>{gc_xy c, gc_wheels c}. continued_movement s \<and> st_interval s \<noteq> 0 \<longrightarrow> gc_timer c)"

definition same_thresholds :: "stick_converter \<Rightarrow> stick_converter \<Rightarrow> bool" where
  "same_thresholds c c' \<longleftrightarrow> st_absolute_threshold (gc_xy c') = st_absolute_threshold (gc_xy c) \<and>
     st_absolute_threshold (gc_wheels c') = st_absolute_threshold (gc_wheels c)"

lemma timer_motions:
  assumes "update_continued_movement_timer m mode interval now c = (es, c')" "stick_out_inv i (es0, c)" "mode \<noteq> Mode_none"
  shows "stick_out_inv i (es0 @ es, c')"
proof (cases "interval = 0 \<and> gc_mode c = Mode_none")
  case True
  then have p: "converter_post_event m mode now c = (es, c')" using assms(1) by (simp add: update_continued_movement_timer_def)
  show ?thesis using assms(2) converter_post_event_motions [OF p] converter_post_event_frame [OF p] by (auto simp: stick_out_inv_def)
next
  case False
  then show ?thesis using assms by (auto simp: update_continued_movement_timer_def stick_out_inv_def split: if_splits)
qed

lemma timer_follows:
  assumes "update_continued_movement_timer m mode (get_continued_movement_interval_milliseconds s) now c = (es, c')"
    and "gc_timer c \<longleftrightarrow> gc_mode c \<noteq> Mode_none" "mode \<noteq> Mode_none"
    and "s \<in> {gc_xy c, gc_wheels c}" "\<forall>s'\<in>{gc_xy c, gc_wheels c}. s' \<noteq> s \<longrightarrow> continued_movement s' \<and> st_interval s' \<noteq> 0 \<longrightarrow> gc_timer c"
  shows "follows_sticks c' \<and> same_thresholds c c'"
proof (cases "get_continued_movement_interval_milliseconds s = 0 \<and> gc_mode c = Mode_none")
  case True
  then have p: "converter_post_event m mode now c = (es, c')" using assms(1) by (simp add: update_continued_movement_timer_def)
  show ?thesis using assms(2-5) True unfolding follows_sticks_def same_thresholds_def converter_post_event_frame [OF p]
    by (auto simp: get_continued_movement_interval_milliseconds_def split: if_splits)
next
  case False
  then show ?thesis using assms
    by (auto simp: update_continued_movement_timer_def follows_sticks_def same_thresholds_def get_continued_movement_interval_milliseconds_def
        split: if_splits)
qed


lemma update_stick_sensor_frame [simp]:
  "st_absolute_threshold (update_stick_sensor m side hi lo n s) = st_absolute_threshold s"
  "st_interval (update_stick_sensor m side hi lo n s) = st_interval s"
  by (cases side; simp add: update_stick_sensor_def stick_update_values_def Let_def)+

lemma update_xy_stick_keeps:
  assumes "update_xy_stick m side hi lo n now c = (es, c')"
  shows "stick_out_inv i (es0, c) \<Longrightarrow> stick_out_inv i (es0 @ es, c')" "follows_sticks c \<Longrightarrow> follows_sticks c' \<and> same_thresholds c c'"
proof -
  let ?s = "update_stick_sensor m side hi lo n (gc_xy c)"
  have t: "update_continued_movement_timer m Mode_xy (get_continued_movement_interval_milliseconds ?s) now (c\<lparr>gc_xy := ?s\<rparr>) = (es, c')"
    using assms by (simp add: update_xy_stick_def Let_def)
  show "stick_out_inv i (es0 @ es, c')" if "stick_out_inv i (es0, c)"
    using timer_motions [OF t, of i es0] that by (simp add: stick_out_inv_def)
  show "follows_sticks c' \<and> same_thresholds c c'" if "follows_sticks c"
    using timer_follows [OF t] that by (auto simp: follows_sticks_def same_thresholds_def)
qed

lemma update_wheels_stick_keeps:
  assumes "update_wheels_stick m side hi lo n now c = (es, c')"
  shows "stick_out_inv i (es0, c) \<Longrightarrow> stick_out_inv i (es0 @ es, c')" "follows_sticks c \<Longrightarrow> follows_sticks c' \<and> same_thresholds c c'"
proof -
  let ?s = "update_stick_sensor m side hi lo n (gc_wheels c)"
  have t: "update_continued_movement_timer m Mode_wheels (get_continued_movement_interval_milliseconds ?s) now (c\<lparr>gc_wheels := ?s\<rparr>) = (es, c')"
    using assms by (simp add: update_wheels_stick_def Let_def)
  show "stick_out_inv i (es0 @ es, c')" if "stick_out_inv i (es0, c)"
    using timer_motions [OF t, of i es0] that by (simp add: stick_out_inv_def)
  show "follows_sticks c' \<and> same_thresholds c c'" if "follows_sticks c"
    using timer_follows [OF t] that by (auto simp: follows_sticks_def same_thresholds_def)
qed

lemma convert_value_cases:
  assumes "convert_value m swap now v (es0, c) = (es1, c')"
  obtains (none) "es1 = es0" "c' = c"
  | (xy) side hi lo es where "update_xy_stick m side hi lo (hv_integer_value v) now c = (es, c')" "es1 = es0 @ es"
  | (wheels) side hi lo es where "update_wheels_stick m side hi lo (hv_integer_value v) now c = (es, c')" "es1 = es0 @ es"
  using assms by (auto simp: convert_value_def split: option.splits if_splits prod.splits)

lemma convert_value_keeps:
  assumes "convert_value m swap now v s = s'"
  shows "stick_out_inv i s \<Longrightarrow> stick_out_inv i s'"
    "follows_sticks (snd s) \<Longrightarrow> follows_sticks (snd s') \<and> same_thresholds (snd s) (snd s')"
proof -
  obtain es0 c es1 c' where s: "s = (es0, c)" "s' = (es1, c')" by (cases s, cases s')
  from assms [unfolded s] show "stick_out_inv i s'" if "stick_out_inv i s"
    by (cases rule: convert_value_cases) (use that update_xy_stick_keeps(1) update_wheels_stick_keeps(1) in \<open>auto simp: s\<close>)
  from assms [unfolded s] show "follows_sticks (snd s') \<and> same_thresholds (snd s) (snd s')" if "follows_sticks (snd s)"
    by (cases rule: convert_value_cases)
      (use that update_xy_stick_keeps(2) update_wheels_stick_keeps(2) in \<open>auto simp: s same_thresholds_def\<close>)
qed

lemma convert_values_out: "stick_out_inv i s \<Longrightarrow> stick_out_inv i (fold (convert_value m swap now) vs s)"
  by (induction vs arbitrary: s) (simp_all add: convert_value_keeps(1) [OF refl])

lemma convert_values_follow:
  "follows_sticks (snd s) \<Longrightarrow> follows_sticks (snd (fold (convert_value m swap now) vs s)) \<and>
     same_thresholds (snd s) (snd (fold (convert_value m swap now) vs s))"
proof (induction vs arbitrary: s)
  case (Cons v vs)
  from convert_value_keeps(2) [OF refl Cons.prems] have v: "follows_sticks (snd (convert_value m swap now v s))"
    "same_thresholds (snd s) (snd (convert_value m swap now v s))" by simp_all
  from Cons.IH [OF v(1)] v(2) show ?case by (simp add: same_thresholds_def)
qed (simp add: same_thresholds_def)

lemma continued_movement_tick_keeps:
  assumes "continued_movement_tick m now c = (es, c')"
  shows "stick_out_inv i (es0, c) \<Longrightarrow> stick_out_inv i (es0 @ es, c')" "follows_sticks c \<Longrightarrow> follows_sticks c' \<and> same_thresholds c c'"
proof -
  let ?c1 = "c\<lparr>gc_timer_count := gc_timer_count c + 1\<rparr>"
  consider "es = []" "gc_xy c' = gc_xy c \<and> gc_wheels c' = gc_wheels c \<and> gc_mode c' = gc_mode c \<and> gc_timer c' = gc_timer c \<and> gc_device_id c' = gc_device_id c"
    | c2 where "converter_post_event m (gc_mode ?c1) now ?c1 = (es, c2)"
        "gc_xy c' = gc_xy c2 \<and> gc_wheels c' = gc_wheels c2 \<and> gc_mode c' = gc_mode c2 \<and> gc_timer c' = gc_timer c2 \<and> gc_device_id c' = gc_device_id c2"
    using assms by (auto simp: continued_movement_tick_def Let_def split: if_splits prod.splits)
  then have "(\<forall>e\<in>set es. stick_motion (gc_device_id c) e) \<and>
    gc_xy c' = gc_xy c \<and> gc_wheels c' = gc_wheels c \<and> gc_mode c' = gc_mode c \<and> gc_timer c' = gc_timer c \<and> gc_device_id c' = gc_device_id c"
  proof cases
    case (2 c2)
    then show ?thesis using converter_post_event_motions [OF 2(1)] converter_post_event_frame [OF 2(1)] by simp
  qed simp
  then show "stick_out_inv i (es0, c) \<Longrightarrow> stick_out_inv i (es0 @ es, c')" "follows_sticks c \<Longrightarrow> follows_sticks c' \<and> same_thresholds c c'"
    by (auto simp: stick_out_inv_def follows_sticks_def same_thresholds_def)
qed


subsection \<open>The timer follows the sticks\<close>

lemma posting_more_out:
  assumes "stick_out_inv i s" "\<And>es c'. f (snd s) = (es, c') \<Longrightarrow> stick_out_inv i (fst s @ es, c')"
  shows "stick_out_inv i (posting_more f s)"
  using assms by (auto simp: posting_more_def split: prod.splits)

lemma stick_step_out: "stick_out_inv i s \<Longrightarrow> stick_out_inv i (stick_step m op s)"
proof (cases op)
  case (Gp_values swap vs now)
  assume s: "stick_out_inv i s"
  have empty: "stick_out_inv i ([], snd s)" using s by (simp add: stick_out_inv_def)
  show ?thesis unfolding Gp_values stick_step.simps
    using s convert_values_out [OF empty, of m swap now vs] by (intro posting_more_out) (auto simp: stick_out_inv_def)
next
  case (Gp_timer now)
  assume s: "stick_out_inv i s"
  then have s': "stick_out_inv i (fst s, snd s)" by simp
  show ?thesis unfolding Gp_timer stick_step.simps
    using s continued_movement_tick_keeps(1) [OF _ s'] by (intro posting_more_out) auto
qed (auto simp: posting_more_def stick_out_inv_def converter_set_configuration_def)

definition fixed_configuration :: "stick_op \<Rightarrow> bool" where
  "fixed_configuration op \<longleftrightarrow> (case op of Gp_configure d \<Rightarrow> False | _ \<Rightarrow> True)"

lemma stick_step_follows:
  "follows_sticks (snd s) \<Longrightarrow> fixed_configuration op \<Longrightarrow>
     follows_sticks (snd (stick_step m op s)) \<and> same_thresholds (snd s) (snd (stick_step m op s))"
proof (cases op)
  case (Gp_values swap vs now)
  assume "follows_sticks (snd s)"
  then show ?thesis using convert_values_follow [of "([], snd s)" m swap now vs] by (auto simp: Gp_values posting_more_def split: prod.splits)
next
  case (Gp_timer now)
  assume s: "follows_sticks (snd s)"
  obtain es c' where t: "continued_movement_tick m now (snd s) = (es, c')" by fastforce
  then show ?thesis using continued_movement_tick_keeps(2) [OF t s] by (simp add: Gp_timer posting_more_def)
qed (simp add: fixed_configuration_def)

text \<open>With thresholds above zero a stick at rest is not held.\<close>

definition positive_thresholds :: "device_settings \<Rightarrow> bool" where
  "positive_thresholds d \<longleftrightarrow> 0 < double_of_value (number_key Xy_stick_absolute_threshold) (dv_values d) \<and>
     0 < double_of_value (number_key Wheels_stick_absolute_threshold) (dv_values d)"

lemma new_stick_converter_simps [simp]:
  "gc_device_id (new_stick_converter i d) = i" "gc_timer (new_stick_converter i d) = False" "gc_mode (new_stick_converter i d) = Mode_none"
  "st_absolute_magnitude (gc_xy (new_stick_converter i d)) = 0" "st_absolute_magnitude (gc_wheels (new_stick_converter i d)) = 0"
  "st_absolute_threshold (gc_xy (new_stick_converter i d)) = double_of_value (number_key Xy_stick_absolute_threshold) (dv_values d)"
  "st_absolute_threshold (gc_wheels (new_stick_converter i d)) = double_of_value (number_key Wheels_stick_absolute_threshold) (dv_values d)"
  by (simp_all add: new_stick_converter_def converter_set_configuration_def configure_stick_def new_stick_def)

lemma new_stick_converter_follows: "positive_thresholds d \<Longrightarrow> follows_sticks (new_stick_converter i d)"
  by (auto simp: follows_sticks_def positive_thresholds_def continued_movement_def)

interpretation stick_output: machine "stick_step m" "([], new_stick_converter i d)" "stick_out_inv i" "\<lambda>_. True" for m i d
  by unfold_locales (auto simp: stick_step_out, simp add: stick_out_inv_def)

interpretation stick_timer: machine "stick_step m" "([], new_stick_converter i d)"
    "\<lambda>s. positive_thresholds d \<longrightarrow> follows_sticks (snd s)" fixed_configuration for m i d
  by unfold_locales (use stick_step_follows in \<open>auto simp: new_stick_converter_follows\<close>)

subsection \<open>Magnitudes\<close>

text \<open>The laws of the arithmetic the bounds rest on: a square root is not negative, and rounding is monotone around 0 and 1.\<close>

definition math_ok :: "stick_math \<Rightarrow> bool" where
  "math_ok m \<longleftrightarrow> (\<forall>r. 0 \<le> sm_sqrt m r) \<and> (\<forall>r\<le>1. sm_round m r \<le> 1)"

definition magnitudes_ok :: "stick \<Rightarrow> bool" where
  "magnitudes_ok s \<longleftrightarrow> 0 \<le> st_absolute_magnitude s \<and> st_absolute_magnitude s \<le> 1 \<and>
     0 \<le> st_previous_absolute_magnitude s \<and> st_previous_absolute_magnitude s \<le> 1 \<and>
     0 \<le> st_delta_magnitude s \<and> st_delta_magnitude s \<le> 1"

lemma stick_update_values_ok:
  assumes "math_ok m" "magnitudes_ok s"
  shows "magnitudes_ok (stick_update_values m s)"
    "\<not> continued_movement (stick_update_values m s) \<Longrightarrow> st_delta_magnitude (stick_update_values m s) \<noteq> 0 \<Longrightarrow>
       st_delta_threshold s \<le> st_delta_magnitude (stick_update_values m s) \<and>
       st_deadzone s < st_absolute_magnitude (stick_update_values m s)"
proof -
  define a where "a = min 1 (sm_sqrt m (sm_round m (sm_round m (st_vertical s * st_vertical s) + sm_round m (st_horizontal s * st_horizontal s))))"
  have a: "0 \<le> a" "a \<le> 1" using assms(1) by (auto simp: a_def math_ok_def)
  define dm where "dm = max 0 (sm_round m (a - st_previous_absolute_magnitude s))"
  have dm: "0 \<le> dm" "dm \<le> 1" using assms a by (auto simp: dm_def math_ok_def magnitudes_ok_def)
  note u = stick_update_values_def [of m s, folded a_def, unfolded Let_def]
  show "magnitudes_ok (stick_update_values m s)"
    using assms(2) a dm by (auto simp: u a_def [symmetric] dm_def [symmetric] magnitudes_ok_def continued_movement_def)
  show "st_delta_threshold s \<le> st_delta_magnitude (stick_update_values m s) \<and> st_deadzone s < st_absolute_magnitude (stick_update_values m s)"
    if "\<not> continued_movement (stick_update_values m s)" "st_delta_magnitude (stick_update_values m s) \<noteq> 0"
    using that dm(1) by (auto simp: u a_def [symmetric] dm_def [symmetric] continued_movement_def split: if_splits)
qed

subsection \<open>Fractions\<close>

text \<open>The values an axis is given one after the other, and what is posted of each.\<close>

fun posted_values :: "stick_math \<Rightarrow> double list \<Rightarrow> stick_event_value \<Rightarrow> int list \<times> stick_event_value" where
  "posted_values m [] e = ([], e)"
| "posted_values m (v # vs) e =
     (let (n, e1) = truncated_value m (ev_set_value v e); (ns, e2) = posted_values m vs e1 in (n # ns, e2))"

text \<open>Exact arithmetic with a conversion that is right within the range of the posted values.\<close>

definition exact_math :: "stick_math \<Rightarrow> bool" where
  "exact_math m \<longleftrightarrow> (\<forall>r. sm_round m r = r) \<and> (\<forall>n. \<bar>n\<bar> \<le> 127 \<longrightarrow> sm_to_int m (Finite (of_int n)) = n)"

lemma truncate_rat_near: "\<bar>r - of_int (truncate_rat r)\<bar> < 1"
  by (simp add: truncate_rat_def) linarith

lemma truncated_value_exact:
  assumes "exact_math m" "\<bar>v\<bar> \<le> 126" "\<bar>r\<bar> < 1"
  shows "truncated_value m (ev_set_value (Finite v) \<lparr>axis_value = w, axis_remainder = Finite r\<rparr>) =
    (truncate_rat (v + r), \<lparr>axis_value = Finite v, axis_remainder = Finite (v + r - of_int (truncate_rat (v + r)))\<rparr>)"
proof -
  have "\<bar>v + r\<bar> < of_int 127" using assms(2,3) by simp
  then have "\<bar>truncate_rat (v + r)\<bar> \<le> 127" by (auto simp: truncate_rat_def) linarith+
  then show ?thesis using assms(1) by (auto simp: truncated_value_def ev_set_value_def exact_math_def Let_def)
qed

lemma posted_values_exact:
  assumes "exact_math m" "\<forall>v\<in>set vs. \<bar>v\<bar> \<le> 126" "\<bar>r\<bar> < 1"
  shows "\<exists>r'. axis_remainder (snd (posted_values m (map Finite vs) \<lparr>axis_value = w, axis_remainder = Finite r\<rparr>)) = Finite r' \<and> \<bar>r'\<bar> < 1 \<and>
    of_int (sum_list (fst (posted_values m (map Finite vs) \<lparr>axis_value = w, axis_remainder = Finite r\<rparr>))) + r' = sum_list vs + r"
  using assms(2,3)
proof (induction vs arbitrary: w r)
  case (Cons v vs)
  let ?t = "truncate_rat (v + r)"
  have v: "\<bar>v\<bar> \<le> 126" and vs: "\<forall>v\<in>set vs. \<bar>v\<bar> \<le> 126" using Cons.prems by auto
  obtain ns e2 where p: "posted_values m (map Finite vs) \<lparr>axis_value = Finite v, axis_remainder = Finite (v + r - of_int ?t)\<rparr> = (ns, e2)"
    by fastforce
  from Cons.IH [OF vs truncate_rat_near [of "v + r"], of "Finite v"] p
  obtain r' where r': "axis_remainder e2 = Finite r'" "\<bar>r'\<bar> < 1" "of_int (sum_list ns) + r' = sum_list vs + (v + r - of_int ?t)" by auto
  then show ?case using truncated_value_exact [OF assms(1) v Cons.prems(2), of w] p by (auto simp: Let_def)
qed simp


subsection \<open>Properties\<close>

text \<open>Exact arithmetic with formulas of a constant value, for examples, and a device without settings of its own.\<close>

definition example_math :: stick_math where
  "example_math = \<lparr>sm_round = (\<lambda>r. r), sm_sqrt = (\<lambda>r. if r \<ge> 1 then 1 else 0), sm_atan2 = (\<lambda>v h. 0),
     sm_to_int = (\<lambda>d. case d of Finite r \<Rightarrow> truncate_rat r | _ \<Rightarrow> 0), sm_value = (\<lambda>f vars. Finite (7 / 2))\<rparr>"

definition plain_device :: device_settings where
  "plain_device = \<lparr>dv_json = [], dv_identifiers = default_identifiers, dv_ignore = False, dv_ignore_configured = False,
     dv_values = device_entries False, dv_simple_modifications = [], dv_fn_function_keys = []\<rparr>"

lemma plain_device_values:
  "double_of_value (number_key Xy_stick_absolute_threshold) (dv_values plain_device) = 1"
  "double_of_value (number_key Wheels_stick_absolute_threshold) (dv_values plain_device) = 1"
  "double_of_value (number_key Xy_stick_deadzone) (dv_values plain_device) = 1 / 10"
  "int_of_value (interval_key Xy_stick_interval) (dv_values plain_device) = 20"
  by (simp_all add: double_of_value_def int_of_value_def value_of_def find_value_def plain_device_def device_entries_def mk_entry_of_def)

text \<open>
  C40. Motions are posted over and over only while a stick is held: as long as the settings stay as they are, the timer is on only
  if one of the sticks is beyond its threshold, and it is on whenever such a stick has an interval, after any sequence of
  sensor values and calls of the timer.
\<close>

theorem stick_timer_follows:
  assumes "positive_thresholds d" "\<forall>op\<in>set ops. fixed_configuration op"
    and "(es, c) = run_ops (stick_step m) ops ([], new_stick_converter i d)"
  shows "(gc_timer c \<longrightarrow> continued_movement (gc_xy c) \<or> continued_movement (gc_wheels c)) \<and>
    (\<forall>s\<in>{gc_xy c, gc_wheels c}. continued_movement s \<and> st_interval s \<noteq> 0 \<longrightarrow> gc_timer c)"
  using stick_timer.reachable_inv [where m = m and i = i and d = d, OF assms(2)] assms(1) unfolding assms(3) [symmetric] by (auto simp: follows_sticks_def)

text \<open>The x axis of a stick at its end, and back in the middle.\<close>

definition x_axis :: "int \<Rightarrow> game_pad_value" where
  "x_axis n = \<lparr>hv_time_stamp = 0, hv_integer_value = n, hv_usage_page = Some page_generic_desktop, hv_usage = Some 0x30,
     gv_logical_max = Some 100, gv_logical_min = Some (-100)\<rparr>"

lemma x_axis_target [simp]: "stick_target False (x_axis n) = Some (Mode_xy, Side_horizontal)"
  by (simp add: stick_target_def x_axis_def conforms_to_def hid_value.truncate_def)

theorem stick_timer_follows_witness:
  "\<exists>es c. run_ops (stick_step example_math) [Gp_values False [x_axis 100] 5, Gp_timer 6] ([], new_stick_converter 1 plain_device) = (es, c) \<and>
    continued_movement (gc_xy c) \<and> st_interval (gc_xy c) = 20 \<and> gc_timer c"
proof -
  let ?ops = "[Gp_values False [x_axis 100] 5, Gp_timer 6]"
  let ?s = "update_stick_sensor example_math Side_horizontal 100 (-100) 100 (gc_xy (new_stick_converter 1 plain_device))"
  obtain es c where r: "run_ops (stick_step example_math) ?ops ([], new_stick_converter 1 plain_device) = (es, c)" by fastforce
  have s: "continued_movement ?s" "st_interval ?s = 20"
    by (simp_all add: update_stick_sensor_def stick_sensor_value_def stick_update_values_def continued_movement_def example_math_def
        new_stick_converter_def converter_set_configuration_def configure_stick_def new_stick_def plain_device_values Let_def
        del: number_key.simps interval_key.simps)
  have "gc_xy c = ?s" using r s by (auto simp: posting_more_def convert_value_def x_axis_def [of 100] stick_target_def conforms_to_def
        hid_value.truncate_def update_xy_stick_def update_continued_movement_timer_def get_continued_movement_interval_milliseconds_def
        continued_movement_tick_def Let_def)
  then show ?thesis using stick_timer_follows [of plain_device ?ops es c example_math 1] r s
    by (auto simp: positive_thresholds_def plain_device_values fixed_configuration_def simp del: number_key.simps)
qed

text \<open>
  Whatever the sticks send, whatever the formulas give and however the settings change meanwhile, what is posted are motions
  of the game pad that move, either the pointer or the wheels, by at most 127 in each direction.
\<close>

theorem stick_motions_in_range:
  assumes "(es, c) = run_ops (stick_step m) ops ([], new_stick_converter i d)" "e \<in> set es"
  shows "\<exists>now p. e = original_entry i now (pointing_motion_event p) Single None Original \<and> \<not> pm_is_zero p \<and>
    ((pm_vertical_wheel p = 0 \<and> pm_horizontal_wheel p = 0) \<or> (pm_x p = 0 \<and> pm_y p = 0)) \<and>
    \<bar>pm_x p\<bar> \<le> 127 \<and> \<bar>pm_y p\<bar> \<le> 127 \<and> \<bar>pm_vertical_wheel p\<bar> \<le> 127 \<and> \<bar>pm_horizontal_wheel p\<bar> \<le> 127"
  using stick_output.reachable_inv [where m = m and i = i and d = d and ops = ops] assms(2) unfolding assms(1) [symmetric]
  by (simp add: stick_out_inv_def stick_motion_def stick_range_def)

text \<open>
  No fraction of a movement is lost: what an axis posts, together with the remainder it keeps, adds up to what the formula
  gave, and the remainder is less than one, as long as the values fit the range of the virtual device.
\<close>

theorem stick_fractions_carry:
  assumes "exact_math m" "\<forall>v\<in>set vs. \<bar>v\<bar> \<le> 126" "(ns, e) = posted_values m (map Finite vs) new_event_value"
  shows "\<exists>r. axis_remainder e = Finite r \<and> \<bar>r\<bar> < 1 \<and> of_int (sum_list ns) + r = sum_list vs"
  using posted_values_exact [OF assms(1,2), of 0 "Finite 0"] unfolding new_event_value_def [symmetric] assms(3) [symmetric] by simp

theorem stick_fractions_carry_witness:
  "fst (posted_values example_math (map Finite [1 / 2, 3 / 4, 3 / 4]) new_event_value) = [0, 1, 1] \<and>
   (\<exists>r. axis_remainder (snd (posted_values example_math (map Finite [1 / 2, 3 / 4, 3 / 4]) new_event_value)) = Finite r \<and>
      of_int (sum_list [0, 1, 1]) + r = 2)"
proof -
  have floors: "\<lfloor>1 / 2 :: rat\<rfloor> = 0" "\<lfloor>5 / 4 :: rat\<rfloor> = 1" by (simp_all add: floor_eq_iff)
  have math: "exact_math example_math" by (simp add: exact_math_def example_math_def truncate_rat_def)
  have v: "fst (posted_values example_math (map Finite [1 / 2, 3 / 4, 3 / 4]) new_event_value) = [0, 1, 1]"
    using floors by (simp add: new_event_value_def truncated_value_def ev_set_value_def example_math_def truncate_rat_def Let_def)
  let ?p = "posted_values example_math (map Finite [1 / 2, 3 / 4, 3 / 4]) new_event_value"
  have "\<forall>v\<in>set [1 / 2, 3 / 4, 3 / 4 :: rat]. \<bar>v\<bar> \<le> 126" by simp
  from stick_fractions_carry [OF math this prod.collapse [of ?p]] obtain r where
    "axis_remainder (snd ?p) = Finite r" "of_int (sum_list (fst ?p)) + r = sum_list [1 / 2, 3 / 4, 3 / 4]" by blast
  with v show ?thesis by (intro conjI exI [of _ r]) (simp_all del: posted_values.simps list.map)
qed

text \<open>
  A formula that once gives an infinite value, for example by a division by zero, spoils its axis: only the value that is no number is
  replaced by zero, so the remainder becomes no number and stays so, and everything posted later is the conversion of no number.
\<close>

theorem infinite_value_spoils_axis:
  assumes "v \<in> {Positive_infinity, Negative_infinity}" "axis_remainder e = Finite r"
  shows "fst (posted_values m vs (snd (truncated_value m (ev_set_value v e)))) =
    replicate (length vs) (max (min (sm_to_int m Not_a_number) 127) (-127))"
proof -
  have "axis_remainder (snd (truncated_value m (ev_set_value v e))) = Not_a_number"
    using assms by (auto simp: truncated_value_def ev_set_value_def Let_def)
  moreover have "fst (posted_values m vs e') = replicate (length vs) (max (min (sm_to_int m Not_a_number) 127) (-127))"
    if "axis_remainder e' = Not_a_number" for e'
    using that
  proof (induction vs arbitrary: e')
    case (Cons u us)
    have "double_plus m u Not_a_number = Not_a_number" by (cases u) simp_all
    then have "truncated_value m (ev_set_value u e') =
      (max (min (sm_to_int m Not_a_number) 127) (-127), e'\<lparr>axis_value := u, axis_remainder := Not_a_number\<rparr>)"
      using Cons.prems by (simp add: truncated_value_def ev_set_value_def Let_def)
    then show ?case using Cons.IH [of "e'\<lparr>axis_value := u, axis_remainder := Not_a_number\<rparr>"] by (auto simp: Let_def split: prod.splits)
  qed simp
  ultimately show ?thesis by blast
qed

end
