(* ===== verification/GrabbedDevices.thy ===== *)
theory GrabbedDevices
  imports HidInput GamePadSticks CoreConfiguration
begin

text \<open>
  What the core service keeps of a connected device (\<open>device_grabber_details/entry.hpp\<close>) with the monitor of
  its values (\<open>hid_device_events_monitor.hpp\<close>) and its caps lock LED
  (\<open>hid_keyboard_caps_lock_led_state_manager.hpp\<close>). IOKit is outside of the program: that a monitor has
  started, with or without exclusive control, that it has stopped, and the values it delivers are inputs.
\<close>

subsection \<open>Settings of the selected profile\<close>

text \<open>The settings of a device, made when they are asked for the first time; the lookup never fails (below).\<close>

definition selected_device :: "profile_tools \<Rightarrow> configuration_state \<Rightarrow> device_identifiers \<Rightarrow> device_settings" where
  "selected_device t c i = fst (projr (get_device t i (get_selected_profile c)))"

definition global_flag :: "string \<Rightarrow> configuration_state \<Rightarrow> bool" where
  "global_flag k c = flag_of k (gc_values (co_global c))"

subsection \<open>Time stamps of the monitor\<close>

text \<open>A value older than the one before it takes over its time stamp.\<close>

fun normalize_time_stamps :: "'a hid_value_scheme list \<Rightarrow> time_point \<Rightarrow> 'a hid_value_scheme list \<times> time_point" where
  "normalize_time_stamps [] last_time_stamp = ([], last_time_stamp)"
| "normalize_time_stamps (v # vs) last_time_stamp =
     (if hv_time_stamp v < last_time_stamp then
        (let (ws, l) = normalize_time_stamps vs last_time_stamp in (v\<lparr>hv_time_stamp := last_time_stamp\<rparr> # ws, l))
      else
        (let (ws, l) = normalize_time_stamps vs (hv_time_stamp v) in (v # ws, l)))"

fun normalized_batches :: "'a hid_value_scheme list list \<Rightarrow> time_point \<Rightarrow> 'a hid_value_scheme list" where
  "normalized_batches [] l = []"
| "normalized_batches (vs # vss) l = (let (ws, l1) = normalize_time_stamps vs l in ws @ normalized_batches vss l1)"

subsection \<open>The caps lock LED\<close>

datatype led_state = Led_on | Led_off

text \<open>\<open>cl_range\<close> is the logical maximum and minimum of the element of the LED, if the device has one.\<close>

record caps_lock_led =
  cl_range :: "(int \<times> int) option"
  cl_state :: "led_state option"
  cl_started :: bool

definition new_caps_lock_led :: "(int \<times> int) option \<Rightarrow> caps_lock_led" where
  "new_caps_lock_led r = \<lparr>cl_range = r, cl_state = None, cl_started = False\<rparr>"

definition make_led_value :: "caps_lock_led \<Rightarrow> int option" where
  "make_led_value l =
     (case (cl_state l, cl_range l) of
        (Some s, Some (hi, lo)) \<Rightarrow> Some (if s = Led_on then hi else lo)
      | _ \<Rightarrow> None)"

text \<open>What is written to the device, when the task of a new state runs and when the timer is due.\<close>

definition led_update :: "caps_lock_led \<Rightarrow> int option" where
  "led_update l = (if \<not> cl_started l then None else make_led_value l)"

text \<open>The second component says whether a task is enqueued.\<close>

definition led_set_state :: "led_state option \<Rightarrow> caps_lock_led \<Rightarrow> caps_lock_led \<times> bool" where
  "led_set_state v l = (if cl_state l = v then (l, False) else (l\<lparr>cl_state := v\<rparr>, True))"

definition led_start :: "caps_lock_led \<Rightarrow> caps_lock_led" where
  "led_start l = (if \<not> cl_started l then l\<lparr>cl_started := True\<rparr> else l)"

definition led_stop :: "caps_lock_led \<Rightarrow> caps_lock_led" where
  "led_stop l = (if cl_started l then l\<lparr>cl_started := False\<rparr> else l)"

subsection \<open>A connected device\<close>

text \<open>\<open>gd_seized\<close>: the monitor is running with exclusive control of the device.\<close>

record grabbed_device =
  gd_device_id :: device_id
  gd_configuration :: configuration_state
  gd_properties :: device_properties
  gd_pressed_keys :: pressed_keys_manager
  gd_led :: caps_lock_led
  gd_seized :: bool
  gd_last_time_stamp :: time_point
  gd_sticks :: "stick_converter option"
  gd_disabled :: bool
  gd_temporarily_ignore :: bool

definition new_grabbed_device ::
    "device_id \<Rightarrow> device_properties \<Rightarrow> (int \<times> int) option \<Rightarrow> configuration_state \<Rightarrow> grabbed_device" where
  "new_grabbed_device i p led c =
     \<lparr>gd_device_id = i, gd_configuration = c, gd_properties = p, gd_pressed_keys = {}, gd_led = new_caps_lock_led led,
      gd_seized = False, gd_last_time_stamp = 0, gd_sticks = None, gd_disabled = False, gd_temporarily_ignore = False\<rparr>"

definition gd_identifiers :: "grabbed_device \<Rightarrow> device_identifiers" where
  "gd_identifiers g = dp_device_identifiers (gd_properties g)"

definition gd_virtual :: "grabbed_device \<Rightarrow> bool" where
  "gd_virtual g = di_is_virtual_device (gd_identifiers g)"

definition gd_settings :: "profile_tools \<Rightarrow> grabbed_device \<Rightarrow> device_settings" where
  "gd_settings t g = selected_device t (gd_configuration g) (gd_identifiers g)"

definition control_caps_lock_led_state_manager :: "profile_tools \<Rightarrow> grabbed_device \<Rightarrow> grabbed_device" where
  "control_caps_lock_led_state_manager t g =
     (if gd_virtual g then g
      else if device_flag_of Manipulate_caps_lock_led (gd_settings t g) \<and> gd_seized g
      then g\<lparr>gd_led := led_start (gd_led g)\<rparr>
      else g\<lparr>gd_led := led_stop (gd_led g)\<rparr>)"

definition monitor_started :: "profile_tools \<Rightarrow> bool \<Rightarrow> grabbed_device \<Rightarrow> grabbed_device" where
  "monitor_started t seized g =
     (let g1 = control_caps_lock_led_state_manager t (g\<lparr>gd_seized := seized\<rparr>) in
      if seized \<and> di_is_game_pad (gd_identifiers g)
      then g1\<lparr>gd_sticks := Some (new_stick_converter (dp_device_id (gd_properties g)) (gd_settings t g))\<rparr>
      else g1)"

definition monitor_stopped :: "profile_tools \<Rightarrow> grabbed_device \<Rightarrow> grabbed_device" where
  "monitor_stopped t g = (control_caps_lock_led_state_manager t (g\<lparr>gd_seized := False\<rparr>))\<lparr>gd_sticks := None\<rparr>"

definition gd_set_core_configuration :: "profile_tools \<Rightarrow> configuration_state \<Rightarrow> grabbed_device \<Rightarrow> grabbed_device" where
  "gd_set_core_configuration t c g =
     (let g1 = control_caps_lock_led_state_manager t (g\<lparr>gd_configuration := c\<rparr>)
      in g1\<lparr>gd_sticks := map_option (converter_set_configuration (gd_settings t g1)) (gd_sticks g1)\<rparr>)"

definition gd_set_caps_lock_led_state :: "led_state option \<Rightarrow> grabbed_device \<Rightarrow> grabbed_device" where
  "gd_set_caps_lock_led_state v g = g\<lparr>gd_led := fst (led_set_state v (gd_led g))\<rparr>"

subsection \<open>Values of a device\<close>

definition vendor_value :: "'a hid_value_scheme \<Rightarrow> bool" where
  "vendor_value v \<longleftrightarrow>
     (case hv_usage_page v of
        Some p \<Rightarrow> p = page_apple_vendor_top_case \<or> 0xff00 \<le> p \<and> p \<le> 0xffff
      | None \<Rightarrow> False)"

definition is_nintendo_pro_controller_0x057e_0x2009 :: "device_identifiers \<Rightarrow> bool" where
  "is_nintendo_pro_controller_0x057e_0x2009 i \<longleftrightarrow> di_vendor_id i = 0x057e \<and> di_product_id i = 0x2009"

definition stick_or_button_value :: "'a hid_value_scheme \<Rightarrow> bool" where
  "stick_or_button_value v \<longleftrightarrow> hv_usage_page v = Some page_button \<or>
     hv_usage_page v = Some page_generic_desktop \<and> hv_usage v \<in> {Some 0x30, Some 0x31, Some 0x32, Some 0x35}"

text \<open>The values that are removed: vendor events the user ignores, and the noise of a known game pad.\<close>

definition removed_value :: "profile_tools \<Rightarrow> grabbed_device \<Rightarrow> 'a hid_value_scheme \<Rightarrow> bool" where
  "removed_value t g v \<longleftrightarrow>
     device_flag_of Ignore_vendor_events (gd_settings t g) \<and> \<not> dp_is_apple (gd_properties g) \<and> vendor_value v \<or>
     global_flag ''filter_useless_events_from_specific_devices'' (gd_configuration g) \<and>
       is_nintendo_pro_controller_0x057e_0x2009 (gd_identifiers g) \<and> dp_transport (gd_properties g) = ''USB'' \<and>
       stick_or_button_value v"

text \<open>What is passed on at once, and the motions of the sticks, which are posted later one by one.\<close>

definition values_arrived ::
    "profile_tools \<Rightarrow> (int \<Rightarrow> rat \<Rightarrow> rat) \<Rightarrow> stick_math \<Rightarrow> time_point \<Rightarrow> game_pad_value list \<Rightarrow> grabbed_device \<Rightarrow> hat_switch_converter \<Rightarrow>
     entry list \<times> entry list \<times> grabbed_device \<times> hat_switch_converter" where
  "values_arrived t scale m now vs g h =
     (let d = gd_settings t g;
          kept = remove_if (removed_value t g) vs;
          (es, h1) = make_entries scale (gd_properties g)
            \<lparr>mp_xy_multiplier = double_of_value (number_key Pointing_motion_xy_multiplier) (dv_values d),
             mp_wheels_multiplier = double_of_value (number_key Pointing_motion_wheels_multiplier) (dv_values d)\<rparr>
            (map hid_value.truncate kept) h;
          (es1, pk) = insert_device_keys_and_pointing_buttons_are_released_event es (gd_device_id g) (gd_pressed_keys g);
          g1 = g\<lparr>gd_pressed_keys := pk\<rparr>
      in case gd_sticks g1 of
           None \<Rightarrow> (es1, [], g1, h1)
         | Some c \<Rightarrow> (let (posts, c1) = stick_convert m d now kept c in (es1, posts, g1\<lparr>gd_sticks := Some c1\<rparr>, h1)))"

text \<open>The monitor puts the time stamps in order before it passes the values on.\<close>

definition monitor_delivers ::
    "profile_tools \<Rightarrow> (int \<Rightarrow> rat \<Rightarrow> rat) \<Rightarrow> stick_math \<Rightarrow> time_point \<Rightarrow> game_pad_value list \<Rightarrow> grabbed_device \<Rightarrow> hat_switch_converter \<Rightarrow>
     entry list \<times> entry list \<times> grabbed_device \<times> hat_switch_converter" where
  "monitor_delivers t scale m now vs g h =
     (let (ws, l) = normalize_time_stamps vs (gd_last_time_stamp g)
      in values_arrived t scale m now ws (g\<lparr>gd_last_time_stamp := l\<rparr>) h)"

definition sticks_timer :: "stick_math \<Rightarrow> time_point \<Rightarrow> grabbed_device \<Rightarrow> entry list \<times> grabbed_device" where
  "sticks_timer m now g =
     (case gd_sticks g of
        None \<Rightarrow> ([], g)
      | Some c \<Rightarrow> (let (posts, c1) = continued_movement_tick m now c in (posts, g\<lparr>gd_sticks := Some c1\<rparr>)))"

subsection \<open>Which devices are opened, and how\<close>

definition set_disabled :: "bool \<Rightarrow> grabbed_device \<Rightarrow> grabbed_device" where
  "set_disabled v g = (if gd_virtual g then g else g\<lparr>gd_disabled := v\<rparr>)"

definition set_temporarily_ignore :: "bool \<Rightarrow> grabbed_device \<Rightarrow> grabbed_device" where
  "set_temporarily_ignore v g = g\<lparr>gd_temporarily_ignore := v\<rparr>"

definition is_disable_built_in_keyboard_if_exists :: "profile_tools \<Rightarrow> grabbed_device \<Rightarrow> bool" where
  "is_disable_built_in_keyboard_if_exists t g =
     (if gd_virtual g then False
      else if dp_is_built_in_keyboard (gd_properties g) \<or> dp_is_built_in_pointing_device (gd_properties g) \<or>
              dp_is_built_in_touch_bar (gd_properties g) then False
      else device_flag_of Disable_built_in_keyboard_if_exists (gd_settings t g))"

text \<open>What conditions and the last manipulator read of a configuration.\<close>

definition configuration_view :: "profile_tools \<Rightarrow> configuration_state \<Rightarrow> core_configuration" where
  "configuration_view t c =
     (let k = pf_virtual_hid_keyboard (get_selected_profile c) in
      \<lparr>cc_treat_as_built_in_keyboard = (\<lambda>i. device_flag_of Treat_as_built_in_keyboard (selected_device t c i)),
       cc_keyboard_type_v2 = string_of_value ''keyboard_type_v2'' (se_values k),
       cc_mouse_key_xy_scale = get_mouse_key_xy_scale k,
       cc_indicate_sticky_modifier_keys_state = flag_of ''indicate_sticky_modifier_keys_state'' (se_values k)\<rparr>)"

definition gd_determine_is_built_in_keyboard :: "profile_tools \<Rightarrow> grabbed_device \<Rightarrow> bool" where
  "gd_determine_is_built_in_keyboard t g =
     determine_is_built_in_keyboard (configuration_view t (gd_configuration g)) (gd_properties g)"

definition needs_to_observe_device :: "grabbed_device \<Rightarrow> bool" where
  "needs_to_observe_device g = (if gd_virtual g then True else False)"

definition needs_to_seize_device :: "profile_tools \<Rightarrow> grabbed_device \<Rightarrow> bool" where
  "needs_to_seize_device t g =
     (if gd_virtual g then False
      else if gd_temporarily_ignore g then False
      else if gd_disabled g then True
      else \<not> dv_ignore (gd_settings t g))"

datatype grabbable_state = Grabbable_none | Grabbable | Ungrabbable | Grabbable_end

datatype open_options = Open_none | Open_seize

text \<open>The options the monitor is started with, or nothing when it is not started.\<close>

definition start_options :: "profile_tools \<Rightarrow> grabbable_state \<Rightarrow> grabbed_device \<Rightarrow> open_options option" where
  "start_options t s g =
     (if gd_virtual g then Some Open_none
      else case s of
             Grabbable \<Rightarrow> Some (if needs_to_seize_device t g then Open_seize else Open_none)
           | _ \<Rightarrow> None)"

subsection \<open>Settings are always found\<close>

text \<open>The identifiers of a connected device come from their constructor.\<close>

definition normal_identifiers :: "device_identifiers \<Rightarrow> bool" where
  "normal_identifiers i \<longleftrightarrow> mk_identifiers i = i"

lemma mk_device_found:
  assumes "normal_identifiers i"
  shows "\<exists>d. mk_device t resolve h (J_object [(''identifiers'', identifiers_to_json i)]) = Inr d \<and> di_same (dv_identifiers d) i"
proof -
  obtain i' where i': "identifiers_from_json (identifiers_to_json i) = Inr i'" "di_same i' i"
    using identifiers_normalized_json [of i] assms by (auto simp: to_normalized_json_def normal_identifiers_def)
  obtain fn where fn: "handle_modifications_json t (J_array (map entry_json device_default_fn_pairs)) [] = Inr fn"
    using function_keys_read by blast
  have "update_values h (J_object [(''identifiers'', identifiers_to_json i)]) es = Inr es"
    if "''identifiers'' \<notin> ce_key ` set es" for es
    by (rule update_values_absent) (use that in \<open>auto simp: image_iff\<close>)
  moreover have "''identifiers'' \<notin> ce_key ` set (device_entries b)" for b
    by (simp add: device_entries_def mk_entry_of_def)
  ultimately obtain es where es: "update_values h (J_object [(''identifiers'', identifiers_to_json i)])
      (device_entries (df_manipulate_caps_lock_led (resolve i'))) = Inr es"
    by blast
  show ?thesis
    using i' fn es
    by (auto simp: mk_device_def make_device_identifiers_def Let_def read_ignore_def read_modifications_item_def
        coordinate_between_properties_def wrap_error_def)
qed

lemma find_append_None: "find P xs = None \<Longrightarrow> find P (xs @ ys) = find P ys"
  by (induction xs) (auto split: if_split_asm)

lemma get_device_found:
  assumes "normal_identifiers i"
  shows "\<exists>d p'. get_device t i p = Inr (d, p') \<and> di_same (dv_identifiers d) i \<and> get_device t i p' = Inr (d, p')"
proof (cases "find (\<lambda>d. di_same (dv_identifiers d) i) (pf_devices p)")
  case None
  obtain d where d: "mk_device (pt_texts t) (make_device_default_values (by_default_of (pf_values p))) (pf_error_handling p)
      (J_object [(''identifiers'', identifiers_to_json i)]) = Inr d" "di_same (dv_identifiers d) i"
    using mk_device_found [OF assms] by blast
  have "find (\<lambda>d. di_same (dv_identifiers d) i) (pf_devices p @ [d]) = Some d"
    using None d(2) by (simp add: find_append_None)
  then show ?thesis using None d by (auto simp: get_device_def)
next
  case (Some d)
  then have "di_same (dv_identifiers d) i" by (auto simp: find_Some_iff)
  then show ?thesis using Some by (simp add: get_device_def)
qed

lemma normalized_time_stamps:
  assumes "normalize_time_stamps vs l = (ws, l')"
  shows "l \<le> l' \<and> length ws = length vs \<and>
    (\<forall>k<length vs. hv_time_stamp (ws ! k) = Max (insert l (set (map hv_time_stamp (take (Suc k) vs))))) \<and>
    l' = Max (insert l (set (map hv_time_stamp vs)))"
  using assms
proof (induction vs arbitrary: l ws l')
  case (Cons v vs)
  define m where "m = max l (hv_time_stamp v)"
  obtain us where us: "normalize_time_stamps vs m = (us, l')" "tl ws = us" "ws \<noteq> []" "hv_time_stamp (hd ws) = m"
    using Cons.prems by (auto simp: m_def max_def Let_def split: if_split_asm prod.split_asm)
  have split: "Max (insert l (insert (hv_time_stamp v) A)) = Max (insert m A)" if "finite A" for A
    using that by (cases "A = {}") (simp_all add: m_def max.assoc)
  note ih = Cons.IH [OF us(1)]
  have "hv_time_stamp (ws ! k) = Max (insert l (set (map hv_time_stamp (take (Suc k) (v # vs)))))" if "k < length (v # vs)" for k
  proof (cases k)
    case 0
    then show ?thesis using us(3,4) by (cases ws) (simp_all add: m_def)
  next
    case (Suc j)
    then have "ws ! k = us ! j" using us(2,3) by (cases ws) auto
    then show ?thesis using ih that Suc split [of "set (map hv_time_stamp (take (Suc j) vs))"] by simp
  qed
  moreover have "l' = Max (insert l (set (map hv_time_stamp (v # vs))))" using ih split [of "set (map hv_time_stamp vs)"] by simp
  moreover have "length ws = length (v # vs)" using ih us(2,3) by (cases ws) auto
  moreover have "l \<le> l'" using ih by (simp add: m_def)
  ultimately show ?case by blast
qed simp

lemma normalized_append:
  "normalize_time_stamps (vs @ us) l =
     (let (ws, l1) = normalize_time_stamps vs l; (xs, l2) = normalize_time_stamps us l1 in (ws @ xs, l2))"
  by (induction vs arbitrary: l) (auto simp: Let_def split: prod.split)

lemma normalized_batches_concat: "normalized_batches vss l = fst (normalize_time_stamps (concat vss) l)"
  by (induction vss arbitrary: l) (auto simp: normalized_append Let_def split: prod.split)

text \<open>
  C11. The time stamps the monitor passes on never go back, over all batches a device delivers: each is the largest that has
  been seen so far, counted from the last one before, and no value is lost.
\<close>

theorem monitor_time_stamps:
  "map hv_time_stamp (normalized_batches vss l) =
     map (\<lambda>k. Max (insert l (set (map hv_time_stamp (take (Suc k) (concat vss)))))) [0..<length (concat vss)] \<and>
   sorted (map hv_time_stamp (normalized_batches vss l))"
proof -
  obtain ws l' where n: "normalize_time_stamps (concat vss) l = (ws, l')" by fastforce
  note facts = normalized_time_stamps [OF n]
  have stamps: "map hv_time_stamp ws =
      map (\<lambda>k. Max (insert l (set (map hv_time_stamp (take (Suc k) (concat vss)))))) [0..<length (concat vss)]"
    by (rule nth_equalityI) (simp_all add: facts)
  have "hv_time_stamp (ws ! i) \<le> hv_time_stamp (ws ! j)" if "i \<le> j" "j < length ws" for i j
  proof -
    have "set (take (Suc i) (concat vss)) \<subseteq> set (take (Suc j) (concat vss))" using that(1) by (intro set_take_subset_set_take) simp
    then have "Max (insert l (set (map hv_time_stamp (take (Suc i) (concat vss))))) \<le> Max (insert l (set (map hv_time_stamp (take (Suc j) (concat vss)))))"
      by (intro Max_mono) auto
    then show ?thesis using facts that by simp
  qed
  then have "sorted (map hv_time_stamp ws)" by (simp add: sorted_iff_nth_mono)
  then show ?thesis using stamps n by (simp add: normalized_batches_concat)
qed

subsection \<open>Settings of a loaded configuration\<close>

text \<open>Of the two settings that exclude each other a device never has both.\<close>

definition coordinated :: "configuration_state \<Rightarrow> bool" where
  "coordinated c \<longleftrightarrow> co_profiles c \<noteq> [] \<and> (\<forall>p\<in>set (co_profiles c). \<forall>d\<in>set (pf_devices p). not_both d)"

lemma mk_device_not_both: "mk_device t resolve h j = Inr d \<Longrightarrow> not_both d"
  using mk_device_coordinated coordinate_not_both by blast

lemma loaded_coordinated:
  assumes "mk_core_configuration t system h disk = Inr c"
  shows "coordinated c"
proof -
  have "not_both d" if "p \<in> set (co_profiles c)" "d \<in> set (pf_devices p)" for p d
  proof -
    have "\<exists>h' j. mk_profile t h' j = Inr p" by (rule loaded_made [OF assms that(1)])
    then obtain h' j where "mk_profile t h' j = Inr p" by blast
    then obtain es where devices: "all_entries (update_array_value ''devices''
        (mk_device (pt_texts t) (make_device_default_values (by_default_of es)) h') j []) = Inr (pf_devices p)"
      by (auto simp: mk_profile_def and_then_Inr_iff split: prod.splits)
    have "\<exists>j'. mk_device (pt_texts t) (make_device_default_values (by_default_of es)) h' j' = Inr d"
      by (rule update_array_value_all [OF devices that(2)])
    then show ?thesis using mk_device_not_both by blast
  qed
  moreover have "co_profiles c \<noteq> []" using loading [of t system h disk] assms by (auto simp: core_inv_def)
  ultimately show ?thesis by (simp add: coordinated_def)
qed

lemma selected_profile_in: "co_profiles c \<noteq> [] \<Longrightarrow> get_selected_profile c \<in> set (co_profiles c)"
  by (auto simp: get_selected_profile_def find_Some_iff split: option.split)

lemma selected_device_not_both:
  assumes "coordinated c" "normal_identifiers i"
  shows "not_both (selected_device t c i)"
proof -
  obtain d p where d: "get_device t i (get_selected_profile c) = Inr (d, p)" using get_device_found [OF assms(2)] by blast
  have "get_selected_profile c \<in> set (co_profiles c)" using assms(1) selected_profile_in by (auto simp: coordinated_def)
  then have "not_both d" using d assms(1)
    by (auto simp: get_device_def coordinated_def and_then_Inr_iff find_Some_iff mk_device_not_both split: option.split_asm)
  then show ?thesis using d by (simp add: selected_device_def)
qed

subsection \<open>Invariants of a connected device\<close>

text \<open>
  The identifiers come from their constructor, the virtual device is never disabled, only game pads have a converter of
  sticks, and the LED is controlled only while the device is opened with exclusive control.
\<close>

definition device_inv :: "configuration_state \<Rightarrow> grabbed_device \<Rightarrow> bool" where
  "device_inv c e \<longleftrightarrow> normal_identifiers (gd_identifiers e) \<and> gd_configuration e = c \<and>
     (gd_virtual e \<longrightarrow> \<not> gd_disabled e \<and> \<not> cl_started (gd_led e)) \<and>
     (gd_sticks e \<noteq> None \<longrightarrow> di_is_game_pad (gd_identifiers e)) \<and>
     (cl_started (gd_led e) \<longrightarrow> gd_seized e)"

text \<open>What an operation leaves of a device.\<close>

definition same_device :: "grabbed_device \<Rightarrow> grabbed_device \<Rightarrow> bool" where
  "same_device e e' \<longleftrightarrow> gd_properties e' = gd_properties e \<and> gd_configuration e' = gd_configuration e \<and>
     gd_disabled e' = gd_disabled e \<and> gd_temporarily_ignore e' = gd_temporarily_ignore e"

lemma same_device_facts:
  assumes "same_device e e'"
  shows "gd_identifiers e' = gd_identifiers e" "gd_virtual e' = gd_virtual e" "gd_settings t e' = gd_settings t e"
    "gd_determine_is_built_in_keyboard t e' = gd_determine_is_built_in_keyboard t e"
    "is_disable_built_in_keyboard_if_exists t e' = is_disable_built_in_keyboard_if_exists t e"
    "needs_to_seize_device t e' = needs_to_seize_device t e"
  using assms
  by (auto simp: same_device_def gd_identifiers_def gd_virtual_def gd_settings_def gd_determine_is_built_in_keyboard_def
      is_disable_built_in_keyboard_if_exists_def needs_to_seize_device_def)

lemma control_led:
  "same_device e (control_caps_lock_led_state_manager t e)"
  "gd_seized (control_caps_lock_led_state_manager t e) = gd_seized e" "gd_sticks (control_caps_lock_led_state_manager t e) = gd_sticks e"
  "cl_started (gd_led (control_caps_lock_led_state_manager t e)) =
     (if gd_virtual e then cl_started (gd_led e) else device_flag_of Manipulate_caps_lock_led (gd_settings t e) \<and> gd_seized e)"
  by (auto simp: control_caps_lock_led_state_manager_def same_device_def led_start_def led_stop_def)

lemma device_invI:
  assumes "device_inv c e" "same_device e e'" "gd_sticks e' \<noteq> None \<Longrightarrow> di_is_game_pad (gd_identifiers e)"
    and "cl_started (gd_led e') \<Longrightarrow> gd_seized e' \<and> \<not> gd_virtual e"
  shows "device_inv c e' \<and> same_device e e'"
  using assms same_device_facts(1,2) [OF assms(2)] by (auto simp: device_inv_def same_device_def)

end
