(* ===== verification/ConfiguredRules.thy ===== *)
theory ConfiguredRules
  imports CoreConfiguration ScrollManipulator
begin

text \<open>
  How the profile becomes manipulators (\<open>src/apps/CoreService/include/core_service/daemon/device_grabber_details\<close>):
  \<open>simple_modifications_manipulator_manager.hpp\<close>, \<open>fn_function_keys_manipulator_manager.hpp\<close> and
  \<open>device_key_code_manipulator_manager.hpp\<close>. Each manager throws its old manipulators away and makes one for every
  modification it can read; a modification it cannot read is logged and left out.
\<close>

subsection \<open>Values of the JSON library\<close>

text \<open>The index operator, under which \<open>f\<close> changes what it finds or makes there.\<close>

fun json_at :: "string \<Rightarrow> (json \<Rightarrow> json_error + json) \<Rightarrow> json \<Rightarrow> json_error + json" where
  "json_at k f (J_object xs) =
     and_then (f (case map_of xs k of Some v \<Rightarrow> v | None \<Rightarrow> J_null)) (\<lambda>v. Inr (J_object (obj_set k v xs)))"
| "json_at k f J_null = and_then (f J_null) (\<lambda>v. Inr (J_object [(k, v)]))"
| "json_at k f _ = Inl Json_type_error"

fun json_push_back :: "json \<Rightarrow> json \<Rightarrow> json_error + json" where
  "json_push_back v (J_array js) = Inr (J_array (js @ [v]))"
| "json_push_back v J_null = Inr (J_array [v])"
| "json_push_back v _ = Inl Json_type_error"

fun json_contains :: "string \<Rightarrow> json \<Rightarrow> bool" where
  "json_contains k (J_object xs) = (map_of xs k \<noteq> None)"
| "json_contains k _ = False"

fun json_empty :: "json \<Rightarrow> bool" where
  "json_empty J_null = True"
| "json_empty (J_array js) = (js = [])"
| "json_empty (J_object xs) = (xs = [])"
| "json_empty _ = False"

text \<open>What a loop over a value sees.\<close>

fun json_items :: "json \<Rightarrow> json list" where
  "json_items J_null = []"
| "json_items (J_array js) = js"
| "json_items (J_object xs) = map snd xs"
| "json_items j = [j]"

fun map_json :: "('a \<Rightarrow> json_error + 'b) \<Rightarrow> 'a list \<Rightarrow> json_error + 'b list" where
  "map_json f [] = Inr []"
| "map_json f (j # js) = and_then (f j) (\<lambda>x. and_then (map_json f js) (\<lambda>xs. Inr (x # xs)))"

subsection \<open>Making rules\<close>

definition parameters_of :: "settings \<Rightarrow> parameters" where
  "parameters_of s =
     \<lparr>pa_simultaneous_threshold_milliseconds = get_cm_parameter Simultaneous_threshold s,
      pa_to_if_alone_timeout_milliseconds = get_cm_parameter To_if_alone_timeout s,
      pa_to_if_held_down_threshold_milliseconds = get_cm_parameter To_if_held_down_threshold s,
      pa_to_delayed_action_delay_milliseconds = get_cm_parameter To_delayed_action_delay s,
      pa_mouse_motion_to_scroll_speed = get_cm_parameter Scroll_speed s\<rparr>"

definition simple_parameters :: parameters where
  "simple_parameters = parameters_of \<lparr>se_json = [], se_values = cm_parameter_entries\<rparr>"

text \<open>A rule from its input and its output events.\<close>

definition basic_of :: "rejects \<Rightarrow> json \<Rightarrow> json list \<Rightarrow> making \<Rightarrow> json_error + basic_manipulator \<times> making" where
  "basic_of rj from_json tos mk =
     and_then (to_events_from_list rj tos mk) (\<lambda>(ds, mk1).
     and_then (from_event_from_json rj from_json mk1) (\<lambda>(d, mk2).
     Inr (new_basic simple_parameters d ds, mk2)))"

definition caught :: "json_error + 'a \<Rightarrow> 'a option" where
  "caught r = (case r of Inr x \<Rightarrow> Some x | Inl e \<Rightarrow> None)"

type_synonym rules = "manipulator list \<times> making"

text \<open>The conditions are made after the rule; without them the rule is not added.\<close>

definition push_rule ::
    "(making \<Rightarrow> (basic_manipulator \<times> making) option) \<Rightarrow> json_error + condition list \<Rightarrow> rules \<Rightarrow> rules" where
  "push_rule make_rule conditions = (\<lambda>(ms, mk).
     case make_rule mk of
       None \<Rightarrow> (ms, mk)
     | Some (b, mk1) \<Rightarrow>
         (case conditions of
            Inl e \<Rightarrow> (ms, mk1)
          | Inr cs \<Rightarrow> (ms @ [M_basic (fold b_push_back_condition cs b)], mk1)))"

definition device_conditions :: "device_settings \<Rightarrow> json_error + condition list" where
  "device_conditions d = and_then (make_device_if_condition (dv_identifiers d)) (\<lambda>c. Inr [c])"

definition any_modifier :: json where
  "any_modifier = J_array [J_string ''any'']"

subsection \<open>Simple modifications\<close>

definition simple_rule :: "text_tools \<Rightarrow> rejects \<Rightarrow> string \<times> string \<Rightarrow> making \<Rightarrow> (basic_manipulator \<times> making) option" where
  "simple_rule t rj p mk =
     (if fst p \<noteq> [] \<and> snd p \<noteq> [] then
        (case (tt_parse t (fst p), tt_parse t (snd p)) of
           (Some f, Some to) \<Rightarrow>
             caught (and_then (json_at ''modifiers'' (json_assign ''optional'' any_modifier) f) (\<lambda>f. basic_of rj f (json_items to) mk))
         | _ \<Rightarrow> None)
      else None)"

definition mouse_names :: "(device_flag \<times> string) list \<Rightarrow> device_settings \<Rightarrow> json list" where
  "mouse_names names d = map (\<lambda>(f, s). J_string s) (filter (\<lambda>(f, s). device_flag_of f d) names)"

definition mouse_flip_names :: "(device_flag \<times> string) list" where
  "mouse_flip_names = [(Mouse_flip_x, ''x''), (Mouse_flip_y, ''y''), (Mouse_flip_vertical_wheel, ''vertical_wheel''),
     (Mouse_flip_horizontal_wheel, ''horizontal_wheel'')]"

definition mouse_swap_names :: "(device_flag \<times> string) list" where
  "mouse_swap_names = [(Mouse_swap_xy, ''xy''), (Mouse_swap_wheels, ''wheels'')]"

definition mouse_discard_names :: "(device_flag \<times> string) list" where
  "mouse_discard_names = [(Mouse_discard_x, ''x''), (Mouse_discard_y, ''y''), (Mouse_discard_vertical_wheel, ''vertical_wheel''),
     (Mouse_discard_horizontal_wheel, ''horizontal_wheel'')]"

definition push_mouse_basic :: "device_settings \<Rightarrow> rules \<Rightarrow> rules" where
  "push_mouse_basic d = (\<lambda>(ms, mk).
     let flip = mouse_names mouse_flip_names d; swap = mouse_names mouse_swap_names d; discard = mouse_names mouse_discard_names d;
         j = J_object [(''discard'', J_array discard), (''flip'', J_array flip), (''swap'', J_array swap), (''type'', J_string ''mouse_basic'')]
     in if flip \<noteq> [] \<or> swap \<noteq> [] \<or> discard \<noteq> [] then
          (case and_then (mouse_basic_from_json j) (\<lambda>b. and_then (device_conditions d) (\<lambda>cs.
                  Inr (fold m_push_back_condition cs (M_mouse_basic b)))) of
             Inr m \<Rightarrow> (ms @ [m], mk)
           | Inl e \<Rightarrow> (ms, mk))
        else (ms, mk))"

definition push_device_rules :: "text_tools \<Rightarrow> rejects \<Rightarrow> device_settings \<Rightarrow> rules \<Rightarrow> rules" where
  "push_device_rules t rj d s =
     push_mouse_basic d (fold (\<lambda>p. push_rule (simple_rule t rj p) (device_conditions d)) (dv_simple_modifications d) s)"

definition simple_modifications_update :: "text_tools \<Rightarrow> rejects \<Rightarrow> milliseconds \<Rightarrow> profile \<Rightarrow> rules \<Rightarrow> rules" where
  "simple_modifications_update t rj u p = (\<lambda>(ms, mk).
     fold (\<lambda>q. push_rule (simple_rule t rj q) (Inr [])) (pf_simple_modifications p)
       (fold (push_device_rules t rj) (pf_devices p) (invalidate_manipulators (manipulators u) ms, mk)))"

subsection \<open>Function keys\<close>

definition f1_f12_key :: "string \<Rightarrow> bool" where
  "f1_f12_key k \<longleftrightarrow> k \<in> {''f1'', ''f2'', ''f3'', ''f4'', ''f5'', ''f6'', ''f7'', ''f8'', ''f9'', ''f10'', ''f11'', ''f12''}"

text \<open>Whether the output is one of the function keys; a key code that is no string throws.\<close>

definition function_key_output :: "json \<Rightarrow> json_error + bool" where
  "function_key_output j =
     (case j of
        J_object xs \<Rightarrow> (case map_of xs ''key_code'' of Some v \<Rightarrow> and_then (get_string v) (\<lambda>k. Inr (f1_f12_key k)) | None \<Rightarrow> Inr False)
      | _ \<Rightarrow> Inr False)"

definition add_fn :: "json \<Rightarrow> json_error + json" where
  "add_fn = json_at ''modifiers'' (\<lambda>v. if \<not> json_contains ''fn'' v then json_push_back (J_string ''fn'') v else Inr v)"

definition fn_key_output :: "bool \<Rightarrow> json \<Rightarrow> json_error + json" where
  "fn_key_output from_mandatory_modifiers_fn j =
     and_then (function_key_output j) (\<lambda>f.
     and_then (if f \<and> \<not> from_mandatory_modifiers_fn then add_fn j else Inr j) (\<lambda>j.
     if from_mandatory_modifiers_fn then (if f then Inr j else add_fn j) else Inr j))"

definition fn_key_input :: "bool \<Rightarrow> json \<Rightarrow> json_error + json" where
  "fn_key_input from_mandatory_modifiers_fn =
     json_at ''modifiers'' (\<lambda>m.
       and_then (json_assign ''mandatory'' (J_array (if from_mandatory_modifiers_fn then [J_string ''fn''] else [])) m)
         (json_assign ''optional'' any_modifier))"

definition function_key_rule ::
    "text_tools \<Rightarrow> rejects \<Rightarrow> bool \<Rightarrow> string \<times> string \<Rightarrow> making \<Rightarrow> (basic_manipulator \<times> making) option" where
  "function_key_rule t rj from_mandatory_modifiers_fn p mk =
     (case tt_parse t (fst p) of
        None \<Rightarrow> None
      | Some f \<Rightarrow>
          if json_empty f then None
          else (case (caught (fn_key_input from_mandatory_modifiers_fn f), tt_parse t (snd p)) of
             (Some f, Some to) \<Rightarrow>
               if json_empty to then None
               else caught (and_then (map_json (fn_key_output from_mandatory_modifiers_fn) (json_items to)) (\<lambda>tos. basic_of rj f tos mk))
           | _ \<Rightarrow> None))"

definition function_key_conditions :: "json_error + condition list" where
  "function_key_conditions =
     and_then (make_event_changed_if_condition False) (\<lambda>a. and_then make_device_unless_touch_bar_condition (\<lambda>b. Inr [a, b]))"

text \<open>fn with a function key is the function key, as long as the function keys are media keys.\<close>

definition fn_function_key_input :: "string \<Rightarrow> json" where
  "fn_function_key_input k = J_object [(''key_code'', J_string k),
     (''modifiers'', J_object [(''mandatory'', J_array [J_string ''fn'']), (''optional'', any_modifier)])]"

definition fn_function_key_output :: "string \<Rightarrow> json" where
  "fn_function_key_output k = J_object [(''key_code'', J_string k), (''modifiers'', J_array [J_string ''fn''])]"

definition fn_function_key_rule :: "rejects \<Rightarrow> string \<Rightarrow> making \<Rightarrow> (basic_manipulator \<times> making) option" where
  "fn_function_key_rule rj k mk = caught (basic_of rj (fn_function_key_input k) [fn_function_key_output k] mk)"

definition touch_id_rule :: "rejects \<Rightarrow> making \<Rightarrow> (basic_manipulator \<times> making) option" where
  "touch_id_rule rj mk = caught (basic_of rj
     (J_object [(''consumer_key_code'', J_string ''menu''), (''modifiers'', J_object [(''optional'', any_modifier)])])
     [J_object [(''consumer_key_code'', J_string ''al_terminal_lock_or_screensaver'')]] mk)"

definition launch_buttons :: "(string \<times> string) list" where
  "launch_buttons =
     [(''al_consumer_control_configuration'', ''Music''), (''al_word_processor'', ''Pages''), (''al_text_editor'', ''TextEdit''),
      (''al_spreadsheet'', ''Numbers''), (''al_presentation_app'', ''Keynote''), (''al_email_reader'', ''Mail''),
      (''al_calculator'', ''Calculator''), (''al_local_machine_browser'', ''Finder''), (''al_internet_browser'', ''Safari''),
      (''al_dictionary'', ''Dictionary'')]"

definition launch_rule :: "rejects \<Rightarrow> string \<times> string \<Rightarrow> making \<Rightarrow> (basic_manipulator \<times> making) option" where
  "launch_rule rj p mk = caught (basic_of rj
     (J_object [(''consumer_key_code'', J_string (fst p)), (''modifiers'', J_object [(''mandatory'', any_modifier)])])
     [J_object [(''shell_command'', J_string (''open -a '' @ [CHR 0x27] @ snd p @ ''.app'' @ [CHR 0x27]))]] mk)"

definition push_device_function_keys :: "text_tools \<Rightarrow> rejects \<Rightarrow> bool \<Rightarrow> device_settings \<Rightarrow> rules \<Rightarrow> rules" where
  "push_device_function_keys t rj from_mandatory_modifiers_fn d =
     fold (\<lambda>p. push_rule (function_key_rule t rj from_mandatory_modifiers_fn p)
       (and_then function_key_conditions (\<lambda>cs. and_then (device_conditions d) (\<lambda>cs'. Inr (cs @ cs')))))
       (dv_fn_function_keys d)"

definition fn_function_keys_update ::
    "text_tools \<Rightarrow> rejects \<Rightarrow> milliseconds \<Rightarrow> profile \<Rightarrow> system_preferences_properties \<Rightarrow> rules \<Rightarrow> rules" where
  "fn_function_keys_update t rj u p sp = (\<lambda>(ms, mk).
     let from_mandatory_modifiers_fn = sp_use_fkeys_as_standard_function_keys sp;
         s0 = (invalidate_manipulators (manipulators u) ms, mk);
         s1 = (if from_mandatory_modifiers_fn then s0
               else fold (\<lambda>k. push_rule (fn_function_key_rule rj k) (Inr [])) function_key_names s0);
         s2 = fold (push_device_function_keys t rj from_mandatory_modifiers_fn) (pf_devices p) s1;
         s3 = fold (\<lambda>q. push_rule (function_key_rule t rj from_mandatory_modifiers_fn q) function_key_conditions) (pf_fn_function_keys p) s2;
         s4 = push_rule (touch_id_rule rj) (Inr []) s3
     in fold (\<lambda>q. push_rule (launch_rule rj q) (Inr [])) launch_buttons s4)"

subsection \<open>Keys that differ by the device\<close>

definition push_device_key_code :: "rejects \<Rightarrow> device_settings \<Rightarrow> string \<Rightarrow> string \<Rightarrow> rules \<Rightarrow> json_error + rules" where
  "push_device_key_code rj d from_key_code to_key_code = (\<lambda>(ms, mk).
     and_then (basic_of rj
       (J_object [(''key_code'', J_string from_key_code), (''modifiers'', J_object [(''optional'', any_modifier)])])
       [J_object [(''key_code'', J_string to_key_code)]] mk) (\<lambda>(b, mk1).
     and_then (device_conditions d) (\<lambda>cs. Inr (ms @ [M_basic (fold b_push_back_condition cs b)], mk1))))"

fun push_device_key_codes :: "rejects \<Rightarrow> device_settings list \<Rightarrow> rules \<Rightarrow> json_error + rules" where
  "push_device_key_codes rj [] s = Inr s"
| "push_device_key_codes rj (d # ds) s =
     and_then (if device_flag_of Swap_grave_accent_and_non_us_backslash d then
         and_then (push_device_key_code rj d ''grave_accent_and_tilde'' ''non_us_backslash'' s)
           (push_device_key_code rj d ''non_us_backslash'' ''grave_accent_and_tilde'')
       else Inr s) (push_device_key_codes rj ds)"

definition device_key_code_update :: "rejects \<Rightarrow> milliseconds \<Rightarrow> profile \<Rightarrow> rules \<Rightarrow> json_error + rules" where
  "device_key_code_update rj u p = (\<lambda>(ms, mk).
     push_device_key_codes rj (pf_devices p) (invalidate_manipulators (manipulators u) ms, mk))"

subsection \<open>Only additions\<close>

text \<open>What the managers do to their rules: they add rules that are valid and owe nothing, whatever was there before.\<close>

definition new_rule :: "manipulator \<Rightarrow> bool" where
  "new_rule m \<longleftrightarrow> m_validity m = Valid \<and>
     (\<forall>b. m = M_basic b \<longrightarrow> (\<exists>d ds cs. b = (new_basic simple_parameters d ds)\<lparr>b_conditions := cs\<rparr>))"

definition adds_rules :: "(manipulator \<Rightarrow> bool) \<Rightarrow> (rules \<Rightarrow> rules) \<Rightarrow> bool" where
  "adds_rules P g \<longleftrightarrow> (\<forall>mk. \<exists>new mk'. (\<forall>ms. g (ms, mk) = (ms @ new, mk')) \<and> (\<forall>m\<in>set new. P m))"

lemma adds_rulesE:
  assumes "adds_rules P g"
  obtains new mk' where "\<And>ms. g (ms, mk) = (ms @ new, mk')" "\<forall>m\<in>set new. P m"
  using assms unfolding adds_rules_def by blast

lemma adds_rulesI:
  "(\<And>mk ms. g (ms, mk) = (ms @ new mk, mk' mk)) \<Longrightarrow> (\<And>mk m. m \<in> set (new mk) \<Longrightarrow> P m) \<Longrightarrow> adds_rules P g"
  unfolding adds_rules_def by blast

lemma adds_rules_id: "adds_rules P (\<lambda>s. s)"
  by (rule adds_rulesI [where new = "\<lambda>_. []" and mk' = "\<lambda>mk. mk"]) simp_all

lemma adds_rules_comp:
  assumes "adds_rules P f" "adds_rules P g"
  shows "adds_rules P (\<lambda>s. g (f s))"
  unfolding adds_rules_def
proof
  fix mk
  obtain fs fk where f: "\<And>ms. f (ms, mk) = (ms @ fs, fk)" "\<forall>m\<in>set fs. P m" using adds_rulesE [OF assms(1)] by blast
  obtain gs gk where g: "\<And>ms. g (ms, fk) = (ms @ gs, gk)" "\<forall>m\<in>set gs. P m" using adds_rulesE [OF assms(2)] by blast
  have "\<And>ms. g (f (ms, mk)) = (ms @ fs @ gs, gk)" by (simp add: f(1) g(1))
  then show "\<exists>new mk'. (\<forall>ms. g (f (ms, mk)) = (ms @ new, mk')) \<and> (\<forall>m\<in>set new. P m)"
    using f(2) g(2) by (intro exI [of _ "fs @ gs"] exI [of _ gk]) auto
qed

lemma adds_rules_fold: "(\<And>x. x \<in> set xs \<Longrightarrow> adds_rules P (f x)) \<Longrightarrow> adds_rules P (fold f xs)"
proof (induction xs)
  case (Cons x xs)
  have "adds_rules P (\<lambda>s. fold f xs (f x s))" by (rule adds_rules_comp) (use Cons in auto)
  then show ?case by (simp add: comp_def)
qed (simp add: adds_rules_id id_def del: split_paired_All)

lemma fold_push_back_condition: "fold b_push_back_condition cs b = b\<lparr>b_conditions := b_conditions b @ cs\<rparr>"
  by (induction cs arbitrary: b) (simp_all add: b_push_back_condition_def)

definition makes_basic :: "(making \<Rightarrow> (basic_manipulator \<times> making) option) \<Rightarrow> bool" where
  "makes_basic f \<longleftrightarrow> (\<forall>mk b mk'. f mk = Some (b, mk') \<longrightarrow> (\<exists>d ds. b = new_basic simple_parameters d ds))"

lemma caught_Some [simp]: "caught r = Some x \<longleftrightarrow> r = Inr x"
  by (cases r) (simp_all add: caught_def)

lemma basic_of_new: "basic_of rj f tos mk = Inr (b, mk') \<Longrightarrow> \<exists>d ds. b = new_basic simple_parameters d ds"
  by (auto simp: basic_of_def and_then_Inr_iff)

lemma makes_basic_rules:
  "makes_basic (simple_rule t rj p)" "makes_basic (function_key_rule t rj fn p)" "makes_basic (fn_function_key_rule rj k)"
  "makes_basic (touch_id_rule rj)" "makes_basic (launch_rule rj q)"
  by (auto simp: makes_basic_def simple_rule_def function_key_rule_def fn_function_key_rule_def touch_id_rule_def launch_rule_def
      and_then_Inr_iff dest!: basic_of_new split: option.splits if_splits)

lemma adds_push_rule:
  assumes "makes_basic f" "\<And>d ds cs. conds = Inr cs \<Longrightarrow> P (M_basic ((new_basic simple_parameters d ds)\<lparr>b_conditions := cs\<rparr>))"
  shows "adds_rules P (push_rule f conds)"
  unfolding adds_rules_def
proof
  fix mk
  show "\<exists>new mk'. (\<forall>ms. push_rule f conds (ms, mk) = (ms @ new, mk')) \<and> (\<forall>m\<in>set new. P m)"
  proof (cases "f mk")
    case None
    then show ?thesis by (intro exI [of _ "[]"] exI [of _ mk]) (simp add: push_rule_def)
  next
    case (Some r)
    obtain b mk' where r: "r = (b, mk')" by (cases r) (rule that)
    obtain d ds where b: "b = new_basic simple_parameters d ds" using assms(1) Some r unfolding makes_basic_def by blast
    show ?thesis
    proof (cases conds)
      case (Inl e)
      then show ?thesis using Some r by (intro exI [of _ "[]"] exI [of _ mk']) (simp add: push_rule_def)
    next
      case (Inr cs)
      have "b_conditions b = []" by (simp add: b new_basic_def)
      then have "P (M_basic (fold b_push_back_condition cs b))"
        using assms(2) [OF Inr, of d ds] by (simp add: fold_push_back_condition b)
      then show ?thesis using Some r Inr
        by (intro exI [of _ "[M_basic (fold b_push_back_condition cs b)]"] exI [of _ mk']) (simp add: push_rule_def)
    qed
  qed
qed

lemma new_rule_basic: "new_rule (M_basic ((new_basic simple_parameters d ds)\<lparr>b_conditions := cs\<rparr>))"
  by (auto simp: new_rule_def m_validity_def new_basic_def)

lemma mouse_basic_items_valid:
  "fold_items (mouse_basic_item j) xs b = Inr b' \<Longrightarrow> mb_validity b' = mb_validity b \<and> mb_conditions b' = mb_conditions b"
proof (induction xs arbitrary: b)
  case (Cons x xs)
  have each: "each_string k f js b = Inr b' \<Longrightarrow> \<forall>s b. mb_validity (f s b) = mb_validity b \<and> mb_conditions (f s b) = mb_conditions b \<Longrightarrow>
    mb_validity b' = mb_validity b \<and> mb_conditions b' = mb_conditions b" for k js b b' and f :: "string \<Rightarrow> mouse_basic \<Rightarrow> mouse_basic"
    by (induction js arbitrary: b) (auto simp: and_then_Inr_iff)
  obtain k v where x: "x = (k, v)" by fastforce
  then obtain b1 where b1: "mouse_basic_item j k v b = Inr b1" "fold_items (mouse_basic_item j) xs b1 = Inr b'"
    using Cons.prems by (auto simp: and_then_Inr_iff)
  have "mb_validity b1 = mb_validity b \<and> mb_conditions b1 = mb_conditions b"
    using b1(1) by (auto simp: mouse_basic_item_def and_then_Inr_iff set_swap_def split: if_splits dest!: each)
  then show ?case using Cons.IH [OF b1(2)] by simp
qed simp

lemma mouse_basic_read: "mouse_basic_from_json j = Inr b \<Longrightarrow> mb_validity b = Valid \<and> mb_conditions b = []"
  by (auto simp: mouse_basic_from_json_def and_then_Inr_iff default_mouse_basic_def dest!: mouse_basic_items_valid)

text \<open>The rule of the mouse settings of a device, if it has any.\<close>

definition mouse_rules :: "device_settings \<Rightarrow> manipulator list" where
  "mouse_rules d = fst (push_mouse_basic d ([], (0, empty_store)))"

lemma push_mouse_basic_adds: "push_mouse_basic d (ms, mk) = (ms @ mouse_rules d, mk)"
  by (simp add: push_mouse_basic_def mouse_rules_def Let_def split: sum.split)

lemma mouse_rules_new:
  assumes "m \<in> set (mouse_rules d)"
  shows "\<exists>b c. m = M_mouse_basic b \<and> mb_validity b = Valid \<and> mb_conditions b = [c] \<and> make_device_if_condition (dv_identifiers d) = Inr c"
proof -
  define j where "j = J_object [(''discard'', J_array (mouse_names mouse_discard_names d)), (''flip'', J_array (mouse_names mouse_flip_names d)),
     (''swap'', J_array (mouse_names mouse_swap_names d)), (''type'', J_string ''mouse_basic'')]"
  have "\<exists>b. mouse_basic_from_json j = Inr b \<and> (\<exists>c. make_device_if_condition (dv_identifiers d) = Inr c \<and> m = m_push_back_condition c (M_mouse_basic b))"
    using assms unfolding mouse_rules_def push_mouse_basic_def Let_def j_def [symmetric]
    by (cases "mouse_basic_from_json j"; cases "make_device_if_condition (dv_identifiers d)")
      (auto simp: device_conditions_def split: if_splits)
  then obtain b c where b: "mouse_basic_from_json j = Inr b" "make_device_if_condition (dv_identifiers d) = Inr c"
    "m = m_push_back_condition c (M_mouse_basic b)" by blast
  then show ?thesis using mouse_basic_read [OF b(1)] by (simp add: m_push_back_condition_def)
qed

text \<open>A rule for a device: its only condition is the device.\<close>

definition device_rule :: "device_settings \<Rightarrow> manipulator \<Rightarrow> bool" where
  "device_rule d m \<longleftrightarrow> (\<exists>c. make_device_if_condition (dv_identifiers d) = Inr c \<and>
     ((\<exists>fr tos. m = M_basic ((new_basic simple_parameters fr tos)\<lparr>b_conditions := [c]\<rparr>)) \<or>
      (\<exists>b. m = M_mouse_basic b \<and> mb_validity b = Valid \<and> mb_conditions b = [c])))"

lemma device_rule_new: "device_rule d m \<Longrightarrow> new_rule m"
  by (auto simp: device_rule_def new_rule_def m_validity_def new_basic_def)

lemma adds_rules_mono: "adds_rules P g \<Longrightarrow> (\<And>m. P m \<Longrightarrow> Q m) \<Longrightarrow> adds_rules Q g"
  unfolding adds_rules_def by metis

lemma adds_push_mouse_basic: "adds_rules (device_rule d) (push_mouse_basic d)"
proof (rule adds_rulesI [where new = "\<lambda>_. mouse_rules d" and mk' = "\<lambda>mk. mk"])
  fix m assume "m \<in> set (mouse_rules d)"
  then show "device_rule d m" using mouse_rules_new by (force simp: device_rule_def)
qed (rule push_mouse_basic_adds)

lemma adds_push_device_rule: "makes_basic f \<Longrightarrow> adds_rules (device_rule d) (push_rule f (device_conditions d))"
  by (rule adds_push_rule) (auto simp: device_conditions_def device_rule_def and_then_Inr_iff)

lemma adds_push_device_rules: "adds_rules (device_rule d) (push_device_rules t rj d)"
  unfolding push_device_rules_def
  by (rule adds_rules_comp [OF _ adds_push_mouse_basic]) (rule adds_rules_fold, rule adds_push_device_rule, rule makes_basic_rules)

lemma adds_devices_rules: "adds_rules (\<lambda>m. \<exists>d\<in>set ds. device_rule d m) (fold (push_device_rules t rj) ds)"
  by (rule adds_rules_fold) (rule adds_rules_mono [OF adds_push_device_rules], blast)

lemma adds_push_new_rule: "makes_basic f \<Longrightarrow> adds_rules new_rule (push_rule f conds)"
  by (rule adds_push_rule) (auto intro: new_rule_basic)

lemma adds_push_device_function_keys: "adds_rules new_rule (push_device_function_keys t rj fn d)"
  unfolding push_device_function_keys_def by (rule adds_rules_fold, rule adds_push_new_rule, rule makes_basic_rules)

subsection \<open>Updates\<close>

definition simple_additions :: "text_tools \<Rightarrow> rejects \<Rightarrow> profile \<Rightarrow> rules \<Rightarrow> rules" where
  "simple_additions t rj p s = fold (\<lambda>q. push_rule (simple_rule t rj q) (Inr [])) (pf_simple_modifications p)
     (fold (push_device_rules t rj) (pf_devices p) s)"

lemma simple_additions: "adds_rules new_rule (simple_additions t rj p)"
proof -
  have 1: "adds_rules new_rule (fold (push_device_rules t rj) (pf_devices p))"
    by (rule adds_rules_mono [OF adds_devices_rules]) (auto intro: device_rule_new)
  have 2: "adds_rules new_rule (fold (\<lambda>q. push_rule (simple_rule t rj q) (Inr [])) (pf_simple_modifications p))"
    by (rule adds_rules_fold, rule adds_push_new_rule, rule makes_basic_rules)
  show ?thesis unfolding simple_additions_def by (rule adds_rules_comp [OF 1 2])
qed

definition function_key_additions :: "text_tools \<Rightarrow> rejects \<Rightarrow> profile \<Rightarrow> bool \<Rightarrow> rules \<Rightarrow> rules" where
  "function_key_additions t rj p standard s0 =
     (let s1 = (if standard then s0 else fold (\<lambda>k. push_rule (fn_function_key_rule rj k) (Inr [])) function_key_names s0);
          s2 = fold (push_device_function_keys t rj standard) (pf_devices p) s1;
          s3 = fold (\<lambda>q. push_rule (function_key_rule t rj standard q) function_key_conditions) (pf_fn_function_keys p) s2;
          s4 = push_rule (touch_id_rule rj) (Inr []) s3
      in fold (\<lambda>q. push_rule (launch_rule rj q) (Inr [])) launch_buttons s4)"

lemma function_key_additions: "adds_rules new_rule (function_key_additions t rj p standard)"
proof -
  have 1: "adds_rules new_rule (\<lambda>s. if standard then s else fold (\<lambda>k. push_rule (fn_function_key_rule rj k) (Inr [])) function_key_names s)"
    by (cases standard) (simp_all add: adds_rules_id adds_rules_fold adds_push_new_rule makes_basic_rules)
  have 2: "adds_rules new_rule (fold (push_device_function_keys t rj standard) (pf_devices p))"
    by (rule adds_rules_fold, rule adds_push_device_function_keys)
  have 3: "adds_rules new_rule (fold (\<lambda>q. push_rule (function_key_rule t rj standard q) function_key_conditions) (pf_fn_function_keys p))"
    by (rule adds_rules_fold, rule adds_push_new_rule, rule makes_basic_rules)
  have 4: "adds_rules new_rule (push_rule (touch_id_rule rj) (Inr []))" by (rule adds_push_new_rule, rule makes_basic_rules)
  have 5: "adds_rules new_rule (fold (\<lambda>q. push_rule (launch_rule rj q) (Inr [])) launch_buttons)"
    by (rule adds_rules_fold, rule adds_push_new_rule, rule makes_basic_rules)
  show ?thesis unfolding function_key_additions_def Let_def
    by (rule adds_rules_comp [OF adds_rules_comp [OF adds_rules_comp [OF adds_rules_comp [OF 1 2] 3] 4] 5])
qed

lemma set_validity [simp]: "m_validity (m_set_validity v m) = v" "vt_active (manipulators u) (m_set_validity v m) = vt_active (manipulators u) m"
  by (cases m; simp add: m_validity_def m_set_validity_def manipulators_def b_active_def)+

lemma invalidated: "invalidate_manipulators (manipulators u) ms = map (m_set_validity Invalid) (filter (vt_active (manipulators u)) ms)"
proof -
  have "vt_set_validity (manipulators u) = m_set_validity" "vt_validity (manipulators u) = m_validity" by (simp_all add: manipulators_def)
  then show ?thesis by (induction ms) (simp_all add: invalidate_manipulators_def remove_invalid_manipulators_def)
qed

text \<open>What an update leaves: the new rules are valid, the old ones that owe a release stay behind them, invalid.\<close>

lemma adds_valid_rules: "adds_rules new_rule g \<Longrightarrow> adds_rules (\<lambda>m. m_validity m = Valid) g"
  by (erule adds_rules_mono) (simp add: new_rule_def)

lemma update_generations:
  assumes "adds_rules (\<lambda>m. m_validity m = Valid) g"
  shows "filter (\<lambda>m. m_validity m = Valid) (fst (g (invalidate_manipulators (manipulators u) ms, mk))) = fst (g ([], mk)) \<and>
    filter (\<lambda>m. m_validity m = Invalid) (fst (g (invalidate_manipulators (manipulators u) ms, mk))) =
      map (m_set_validity Invalid) (filter (vt_active (manipulators u)) ms)"
proof -
  obtain new mk' where n: "\<And>ms. g (ms, mk) = (ms @ new, mk')" "\<forall>m\<in>set new. m_validity m = Valid" using adds_rulesE [OF assms] by blast
  have "filter (\<lambda>m. m_validity m = Valid) new = new" "filter (\<lambda>m. m_validity m = Invalid) new = []"
    using n(2) by (auto simp: filter_id_conv filter_empty_conv)
  then show ?thesis by (simp add: n(1) invalidated filter_map comp_def)
qed


lemma simple_modifications_update_additions:
  "simple_modifications_update t rj u p (ms, mk) = simple_additions t rj p (invalidate_manipulators (manipulators u) ms, mk)"
  by (simp add: simple_modifications_update_def simple_additions_def)

lemma fn_function_keys_update_additions:
  "fn_function_keys_update t rj u p sp (ms, mk) =
     function_key_additions t rj p (sp_use_fkeys_as_standard_function_keys sp) (invalidate_manipulators (manipulators u) ms, mk)"
  by (simp add: fn_function_keys_update_def function_key_additions_def Let_def)

lemma no_old_rules: "invalidate_manipulators c [] = []"
  by (simp add: invalidate_manipulators_def remove_invalid_manipulators_def)

subsection \<open>A rule whose device condition fails\<close>

lemma device_condition_alone:
  "fst (conditions_fulfilled rt ctx [Cond_device t ds] (env, st)) =
     device_fulfilled t ds ctx (set_variable_system_now_milliseconds (rt_now_milliseconds rt) env)"
  by (simp add: conditions_fulfilled_def is_fulfilled_def Let_def)

lemma find_device_properties_now [simp]:
  "find_device_properties (set_variable_system_now_milliseconds n env) i = find_device_properties env i"
  by (simp add: find_device_properties_def set_variable_system_now_milliseconds_def env_set_variable_def)

text \<open>The devices a rule for a device is about.\<close>

definition same_kind_of_device :: "device_identifiers \<Rightarrow> device_identifiers \<Rightarrow> bool" where
  "same_kind_of_device i j \<longleftrightarrow> di_vendor_id j = di_vendor_id i \<and> di_product_id j = di_product_id i \<and>
     di_is_keyboard j = di_is_keyboard i \<and> di_is_pointing_device j = di_is_pointing_device i"

lemma device_condition_kind:
  assumes "make_device_if_condition i = Inr c"
    and "\<And>p. find_device_properties env (ctx_device_id ctx) = Some p \<Longrightarrow> \<not> same_kind_of_device i (dp_device_identifiers p)"
  shows "\<not> fst (conditions_fulfilled rt ctx [c] (env, st))"
proof -
  have c: "c = Cond_device Device_if [default_definition
     \<lparr>dd_vendor_id := Some (di_vendor_id i), dd_product_id := Some (di_product_id i),
      dd_is_keyboard := Some (di_is_keyboard i), dd_is_pointing_device := Some (di_is_pointing_device i)\<rparr>]"
    using assms(1) by (simp add: make_device_if)
  show ?thesis using assms(2) unfolding c device_condition_alone
    by (auto simp: device_fulfilled_def dd_fulfilled_def differs_def default_definition_def same_kind_of_device_def Let_def split: option.splits)
qed

lemma new_basic_passes:
  assumes "\<not> fst (conditions_fulfilled rt (context_of front) cs (q_environment q, st))"
    and "manipulate rt now input front \<lparr>w_basic = (new_basic pa d ds)\<lparr>b_conditions := cs\<rparr>, w_queue = q, w_store = st\<rparr> = Inr (r, front', w)"
  shows "r = Passed \<and> front' = front \<and> q_events (w_queue w) = q_events q"
proof -
  let ?b = "(new_basic pa d ds)\<lparr>b_conditions := cs\<rparr>"
  have b: "b_to_delayed_action ?b = None" "b_to_if_other_key_pressed ?b = None" "b_to_if_held_down ?b = None" "b_manipulated ?b = []"
    "b_conditions ?b = cs" by (simp_all add: new_basic_def)
  have u: "unset_alone_if_needed e t ?b = ?b" for e t by (simp add: unset_alone_if_needed_def new_basic_def)
  have bm: "before_match rt front \<lparr>w_basic = ?b, w_queue = q, w_store = st\<rparr> = Inr \<lparr>w_basic = ?b, w_queue = q, w_store = st\<rparr>"
    using b by (simp add: before_match_def da_cancel_def u)
  have up: "match_key_up front ?b = (None, ?b)" using b by (simp add: match_key_up_def)
  have down: "fst (match_key_down rt now input front \<lparr>w_basic = ?b, w_queue = q, w_store = st\<rparr>) = Not_target \<and>
    fst (snd (match_key_down rt now input front \<lparr>w_basic = ?b, w_queue = q, w_store = st\<rparr>)) = front \<and>
    q_events (w_queue (snd (snd (match_key_down rt now input front \<lparr>w_basic = ?b, w_queue = q, w_store = st\<rparr>)))) = q_events q"
    using assms(1) b by (auto simp: match_key_down_def entry_conditions_def Let_def split: option.splits prod.splits)
  show ?thesis using assms(2) b bm up down
    by (auto simp: manipulate_def ok_handle_other_key_pressed_def Let_def split: if_splits event_type.splits prod.splits)
qed

lemma device_rule_passes:
  assumes "device_rule d m" "m_manipulate u rt now input front m q st = Inr (r, front', m', q', st')"
    and "\<And>p. find_device_properties (q_environment q) (en_device_id front) = Some p \<Longrightarrow>
      \<not> same_kind_of_device (dv_identifiers d) (dp_device_identifiers p)"
  shows "r = Passed \<and> front' = front \<and> q_events q' = q_events q"
proof -
  obtain c where c: "make_device_if_condition (dv_identifiers d) = Inr c"
    and m: "(\<exists>fr tos. m = M_basic ((new_basic simple_parameters fr tos)\<lparr>b_conditions := [c]\<rparr>)) \<or>
      (\<exists>b. m = M_mouse_basic b \<and> mb_validity b = Valid \<and> mb_conditions b = [c])"
    using assms(1) unfolding device_rule_def by blast
  have no: "\<not> fst (conditions_fulfilled rt (context_of front) [c] (q_environment q, st))"
    by (rule device_condition_kind [OF c]) (use assms(3) in \<open>simp add: context_of_def\<close>)
  from m show ?thesis
  proof (elim disjE exE conjE)
    fix fr tos assume m: "m = M_basic ((new_basic simple_parameters fr tos)\<lparr>b_conditions := [c]\<rparr>)"
    then obtain b1 st1 w where "manipulate rt now input front \<lparr>w_basic = (new_basic simple_parameters fr tos)\<lparr>b_conditions := [c]\<rparr>, w_queue = q, w_store = st\<rparr> =
      Inr (r, front', w)" "q' = w_queue w"
      using assms(2) by (auto simp: m_manipulate_def basic_class_def and_then_Inr_iff)
    then show ?thesis using new_basic_passes [OF no] by blast
  next
    fix b assume "m = M_mouse_basic b" "mb_validity b = Valid" "mb_conditions b = [c]"
    then show ?thesis using assms(2) no
      by (auto simp: m_manipulate_def mouse_basic_manipulate_def Let_def split: if_splits prod.splits)
  qed
qed


subsection \<open>Reading the modifiers of an input\<close>

text \<open>Reading the items of an object with distinct keys, one member is read exactly once.\<close>

lemma from_items_modifiers:
  assumes "fold_items (from_event_item rj j) ys r = Inr r'" "distinct (map fst ys)"
  shows "case map_of ys ''modifiers'' of
      Some v \<Rightarrow> from_modifiers_from_json v = Inr (fd_from_modifiers_definition (fr_definition r'))
    | None \<Rightarrow> fd_from_modifiers_definition (fr_definition r') = fd_from_modifiers_definition (fr_definition r)"
  using assms
proof (induction ys arbitrary: r)
  case (Cons y ys)
  obtain k v where y: "y = (k, v)" by (cases y)
  then obtain r1 where r1: "from_event_item rj j k v r = Inr r1" "fold_items (from_event_item rj j) ys r1 = Inr r'"
    using Cons.prems by (auto simp: and_then_Inr_iff)
  have d: "distinct (map fst ys)" "k \<notin> fst ` set ys" using Cons.prems(2) y by auto
  note IH = Cons.IH [OF r1(2) d(1)]
  show ?case
  proof (cases "k = ''modifiers''")
    case True
    then have none: "map_of ys ''modifiers'' = None" using d(2) by (simp add: map_of_eq_None_iff)
    have "from_modifiers_from_json v = Inr (fd_from_modifiers_definition (fr_definition r1))"
      using r1(1) True by (auto simp: from_event_item_def handle_json_def and_then_Inr_iff)
    then show ?thesis using IH none True by (simp add: y)
  next
    case False
    then have "fd_from_modifiers_definition (fr_definition r1) = fd_from_modifiers_definition (fr_definition r)"
      using r1(1) by (auto simp: from_event_item_def and_then_Inr_iff split: if_splits prod.splits)
    then show ?thesis using IH False by (auto simp: y split: option.splits)
  qed
qed simp

lemma from_modifiers_item_steps:
  assumes "from_modifiers_item j k v d = Inr d1"
  shows "k = ''mandatory'' \<Longrightarrow> make_modifiers v = Inr (fm_mandatory d1) \<and> fm_optional d1 = fm_optional d"
    "k = ''optional'' \<Longrightarrow> make_modifiers v = Inr (fm_optional d1) \<and> fm_mandatory d1 = fm_mandatory d"
    "k \<noteq> ''mandatory'' \<Longrightarrow> k \<noteq> ''optional'' \<Longrightarrow> d1 = d"
  using assms by (auto simp: from_modifiers_item_def and_then_Inr_iff split: if_split_asm)

text \<open>The value of a member: read if it is there, and otherwise what it was.\<close>

definition member_read :: "json option \<Rightarrow> modifier set \<Rightarrow> modifier set \<Rightarrow> bool" where
  "member_read v old new = (case v of Some v \<Rightarrow> make_modifiers v = Inr new | None \<Rightarrow> new = old)"

lemma from_modifiers_items:
  assumes "fold_items (from_modifiers_item j) ys d = Inr d'" "distinct (map fst ys)"
  shows "member_read (map_of ys ''mandatory'') (fm_mandatory d) (fm_mandatory d') \<and>
    member_read (map_of ys ''optional'') (fm_optional d) (fm_optional d')"
  using assms
proof (induction ys arbitrary: d)
  case Nil
  then show ?case by (simp add: member_read_def)
next
  case (Cons y ys)
  obtain k v where y: "y = (k, v)" by (cases y)
  then obtain d1 where d1: "from_modifiers_item j k v d = Inr d1" "fold_items (from_modifiers_item j) ys d1 = Inr d'"
    using Cons.prems by (auto simp: and_then_Inr_iff)
  have dist: "distinct (map fst ys)" "map_of ys k = None" using Cons.prems(2) y by (auto simp: map_of_eq_None_iff)
  have IH: "member_read (map_of ys ''mandatory'') (fm_mandatory d1) (fm_mandatory d')" "member_read (map_of ys ''optional'') (fm_optional d1) (fm_optional d')"
    using Cons.IH [OF d1(2) dist(1)] by simp_all
  note s = from_modifiers_item_steps [OF d1(1)]
  consider "k = ''mandatory''" | "k = ''optional''" | "k \<noteq> ''mandatory''" "k \<noteq> ''optional''" by blast
  then show ?case
  proof cases
    case 1
    then show ?thesis using IH s(1) dist(2) by (simp add: y member_read_def)
  next
    case 2
    then show ?thesis using IH s(2) dist(2) by (simp add: y member_read_def)
  next
    case 3
    then show ?thesis using IH s(3) by (simp add: y)
  qed
qed

text \<open>The modifiers an input has after it was prepared.\<close>

lemma fn_key_input_modifiers:
  assumes "fn_key_input standard (J_object xs) = Inr f" "obj_sorted xs" "\<And>m. map_of xs ''modifiers'' = Some (J_object m) \<Longrightarrow> obj_sorted m"
  shows "\<exists>ys m. f = J_object ys \<and> distinct (map fst ys) \<and> map_of ys ''modifiers'' = Some (J_object m) \<and> distinct (map fst m) \<and>
    map_of m ''mandatory'' = Some (J_array (if standard then [J_string ''fn''] else [])) \<and> map_of m ''optional'' = Some any_modifier"
proof -
  let ?a = "J_array (if standard then [J_string ''fn''] else [])"
  let ?g = "\<lambda>m. and_then (json_assign ''mandatory'' ?a m) (json_assign ''optional'' any_modifier)"
  have g: "\<exists>m'. ?g v = Inr (J_object m') \<and> obj_sorted m' \<and> map_of m' ''mandatory'' = Some ?a \<and> map_of m' ''optional'' = Some any_modifier"
    if "?g v = Inr w" "\<And>m. v = J_object m \<Longrightarrow> obj_sorted m" for v w
  proof -
    from that(1) consider m where "v = J_object m" | "v = J_null" by (cases v) auto
    then show ?thesis
    proof cases
      case 1
      then show ?thesis using that(2) by (auto simp: map_of_obj_set obj_sorted_set)
    next
      case 2
      have "obj_sorted (obj_set ''optional'' any_modifier [(''mandatory'', ?a)])"
        by (rule obj_sorted_set) (simp add: obj_sorted_def)
      then show ?thesis using 2 by (simp add: map_of_obj_set)
    qed
  qed
  have f: "and_then (?g (case map_of xs ''modifiers'' of Some v \<Rightarrow> v | None \<Rightarrow> J_null)) (\<lambda>v. Inr (J_object (obj_set ''modifiers'' v xs))) = Inr f"
    using assms(1) by (simp add: fn_key_input_def)
  then obtain w where w: "?g (case map_of xs ''modifiers'' of Some v \<Rightarrow> v | None \<Rightarrow> J_null) = Inr w" "f = J_object (obj_set ''modifiers'' w xs)"
    by (auto simp only: and_then_Inr_iff)
  have "\<And>m. (case map_of xs ''modifiers'' of Some v \<Rightarrow> v | None \<Rightarrow> J_null) = J_object m \<Longrightarrow> obj_sorted m"
    using assms(3) by (auto split: option.splits)
  from g [OF w(1) this] obtain m' where "w = J_object m'" "obj_sorted m'" "map_of m' ''mandatory'' = Some ?a" "map_of m' ''optional'' = Some any_modifier"
    using w(1) by auto
  then show ?thesis using w(2) obj_sorted_distinct [OF obj_sorted_set [OF assms(2)]] obj_sorted_distinct
    by (intro exI [of _ "obj_set ''modifiers'' w xs"] exI [of _ m']) (simp add: map_of_obj_set)
qed

lemma from_event_modifiers:
  assumes "from_event_from_json rj (J_object ys) mk = Inr (d, mk')" "distinct (map fst ys)" "map_of ys ''modifiers'' = Some v"
  shows "from_modifiers_from_json v = Inr (fd_from_modifiers_definition d)"
proof -
  obtain r where r: "fold_items (from_event_item rj (J_object ys)) ys
      \<lparr>fr_definition = default_from_event_definition, fr_event_definitions = [], fr_default = default_event_definition, fr_making = mk\<rparr> = Inr r"
    "fd_from_modifiers_definition d = fd_from_modifiers_definition (fr_definition r)"
    using assms(1) by (auto simp: from_event_from_json_def and_then_Inr_iff Let_def split: if_splits)
  then show ?thesis using from_items_modifiers [OF r(1) assms(2)] assms(3) by simp
qed


subsection \<open>Properties\<close>

text \<open>
  C36. Modifications of one device stay with it: no rule made for the settings of devices takes or delays an entry,
  or posts anything, when the device of the entry is unknown or differs from each of these devices in vendor, product or kind.
\<close>

theorem device_rules_stay_with_their_device:
  assumes "m \<in> set (fst (fold (push_device_rules t rj) ds ([], mk)))"
    and "m_manipulate u rt now input front m q st = Inr (r, front', m', q', st')"
    and "\<forall>p d. find_device_properties (q_environment q) (en_device_id front) = Some p \<and> d \<in> set ds \<longrightarrow>
      \<not> same_kind_of_device (dv_identifiers d) (dp_device_identifiers p)"
  shows "r = Passed \<and> front' = front \<and> q_events q' = q_events q"
proof -
  obtain new mk' where "fold (push_device_rules t rj) ds ([], mk) = (new, mk')" "\<forall>m\<in>set new. \<exists>d\<in>set ds. device_rule d m"
    using adds_rulesE [OF adds_devices_rules [where ds = ds and t = t and rj = rj], where mk = mk] by (metis append_Nil)
  then obtain d where "d \<in> set ds" "device_rule d m" using assms(1) by auto
  then show ?thesis using device_rule_passes [OF _ assms(2)] assms(3) by blast
qed

text \<open>A text of an input and one of an output, and a device with a modification of the first to the second.\<close>

definition two_texts :: text_tools where
  "two_texts = \<lparr>tt_dump = (\<lambda>j. []),
     tt_parse = (\<lambda>s. if s = ''o'' then Some (J_object [(''key_code'', J_string ''f1'')])
                      else Some (J_array [J_object [(''key_code'', J_string ''b'')]])),
     tt_less = (\<lambda>a b. False)\<rparr>"

definition flipped_device :: device_settings where
  "flipped_device = \<lparr>dv_json = [], dv_identifiers = default_identifiers, dv_ignore = False, dv_ignore_configured = False,
     dv_values = [(mk_entry_of ''mouse_flip_x'' (Cv_bool False))\<lparr>ce_value := Cv_bool True\<rparr>],
     dv_simple_modifications = [], dv_fn_function_keys = []\<rparr>"

theorem device_rules_stay_with_their_device_witness:
  "\<exists>m r m' q' st'. fst (fold (push_device_rules two_texts no_rejects) [flipped_device] ([], (0, empty_store))) = [m] \<and>
     m_manipulate 0 idle_runtime 100 [key_entry_of 1 58 Key_down] (key_entry_of 1 58 Key_down) m
       (mk_queue (mk_environment [] plain_configuration)) empty_store = Inr (r, key_entry_of 1 58 Key_down, m', q', st') \<and> r = Passed"
proof -
  let ?e = "key_entry_of 1 58 Key_down" and ?q = "mk_queue (mk_environment [] plain_configuration)"
  have flags: "device_flag_of f flipped_device = (f = Mouse_flip_x)" for f
    by (cases f) (simp_all add: device_flag_of_def flag_of_def value_of_def find_value_def flipped_device_def mk_entry_of_def)
  have names: "mouse_names mouse_flip_names flipped_device = [J_string ''x'']" "mouse_names mouse_swap_names flipped_device = []"
    "mouse_names mouse_discard_names flipped_device = []"
    by (simp_all add: mouse_names_def mouse_flip_names_def mouse_swap_names_def mouse_discard_names_def flags)
  obtain b where b: "fst (fold (push_device_rules two_texts no_rejects) [flipped_device] ([], (0, empty_store))) = [M_mouse_basic b]"
    by (auto simp: push_device_rules_def push_mouse_basic_def names flipped_device_def [THEN arg_cong, of dv_simple_modifications]
        mouse_basic_from_json_def mouse_basic_item_def device_conditions_def make_device_if m_push_back_condition_def)
  obtain r front m' q' st' where m: "m_manipulate 0 idle_runtime 100 [?e] ?e (M_mouse_basic b) ?q empty_store = Inr (r, front, m', q', st')"
    by (cases "mouse_basic_manipulate idle_runtime ?e b ?q empty_store") (simp add: m_manipulate_def)
  have "find_device_properties (q_environment ?q) (en_device_id ?e) = None"
    by (simp add: find_device_properties_def mk_queue_def mk_environment_def dpm_find_def)
  then show ?thesis using device_rules_stay_with_their_device
      [where mk = "(0, empty_store)" and ds = "[flipped_device]" and t = two_texts and rj = no_rejects, OF _ m] m b by auto
qed

text \<open>
  C37. Loading a profile leaves no old modification in effect: whatever was there, after an update of the simple
  modifications or of the function keys the valid rules are the ones the profile gives by itself; of the old rules exactly those
  that still owe a release are kept, made invalid, to release it.
\<close>

theorem reloading_replaces_rules:
  "filter (\<lambda>m. m_validity m = Valid) (fst (simple_modifications_update t rj u p (ms, mk))) =
     fst (simple_modifications_update t rj u p ([], mk)) \<and>
   filter (\<lambda>m. m_validity m = Invalid) (fst (simple_modifications_update t rj u p (ms, mk))) =
     map (m_set_validity Invalid) (filter (vt_active (manipulators u)) ms) \<and>
   filter (\<lambda>m. m_validity m = Valid) (fst (fn_function_keys_update t rj u p sp (ms, mk))) =
     fst (fn_function_keys_update t rj u p sp ([], mk)) \<and>
   filter (\<lambda>m. m_validity m = Invalid) (fst (fn_function_keys_update t rj u p sp (ms, mk))) =
     map (m_set_validity Invalid) (filter (vt_active (manipulators u)) ms)"
  using update_generations [OF adds_valid_rules [OF simple_additions]] update_generations [OF adds_valid_rules [OF function_key_additions]]
  by (simp add: simple_modifications_update_additions fn_function_keys_update_additions no_old_rules)

text \<open>
  C38. A rule for a function key takes the key with any modifiers beside those it demands: it demands fn exactly if the function
  keys are standard function keys, whatever modifiers the modification names.
\<close>

theorem function_key_demands_fn:
  assumes "function_key_rule t rj standard p mk = Some (b, mk')" "tt_parse t (fst p) = Some (J_object xs)" "obj_sorted xs"
    and "\<forall>m. map_of xs ''modifiers'' = Some (J_object m) \<longrightarrow> obj_sorted m"
  shows "fd_from_modifiers_definition (b_from b) = \<lparr>fm_mandatory = (if standard then {Mod_fn} else {}), fm_optional = {Mod_any}\<rparr>"
proof -
  obtain f to tos d where f: "fn_key_input standard (J_object xs) = Inr f" and b: "basic_of rj f tos mk = Inr (b, mk')"
    using assms(1,2) by (auto simp: function_key_rule_def and_then_Inr_iff split: option.splits if_splits)
  obtain ys m where ys: "f = J_object ys" "distinct (map fst ys)" "map_of ys ''modifiers'' = Some (J_object m)" "distinct (map fst m)"
    "map_of m ''mandatory'' = Some (J_array (if standard then [J_string ''fn''] else []))" "map_of m ''optional'' = Some any_modifier"
    using fn_key_input_modifiers [OF f assms(3)] assms(4) by blast
  obtain mk1 ds d where d: "from_event_from_json rj f mk1 = Inr (d, mk')" "b = new_basic simple_parameters d ds"
    using b by (auto simp: basic_of_def and_then_Inr_iff)
  have "from_modifiers_from_json (J_object m) = Inr (fd_from_modifiers_definition d)"
    using from_event_modifiers [OF _ ys(2,3)] d(1) ys(1) by blast
  then have "fold_items (from_modifiers_item (J_object m)) m default_from_modifiers = Inr (fd_from_modifiers_definition d)"
    by (simp add: from_modifiers_from_json_def)
  from from_modifiers_items [OF this ys(4)] ys(5,6)
  have "make_modifiers (J_array (if standard then [J_string ''fn''] else [])) = Inr (fm_mandatory (fd_from_modifiers_definition d))"
    "make_modifiers any_modifier = Inr (fm_optional (fd_from_modifiers_definition d))" by (simp_all add: member_read_def)
  then show ?thesis using d(2)
    by (cases "fd_from_modifiers_definition d") (auto simp: make_modifiers_def modifier_from_json_def any_modifier_def new_basic_def split: if_splits)
qed

theorem function_key_demands_fn_witness:
  "case function_key_rule two_texts no_rejects True (''o'', ''a'') (0, empty_store) of
     Some (b, _) \<Rightarrow> fd_from_modifiers_definition (b_from b) = \<lparr>fm_mandatory = {Mod_fn}, fm_optional = {Mod_any}\<rparr>
   | None \<Rightarrow> False"
proof -
  have "function_key_rule two_texts no_rejects True (''o'', ''a'') (0, empty_store) \<noteq> None" by code_simp
  then obtain b mk' where r: "function_key_rule two_texts no_rejects True (''o'', ''a'') (0, empty_store) = Some (b, mk')" by auto
  show ?thesis using function_key_demands_fn [OF r, of "[(''key_code'', J_string ''f1'')]"] r by (simp add: two_texts_def obj_sorted_def)
qed

text \<open>
  fn is added to the output of a function key rule so that it has its effect: to a function key exactly if
  the keys are media keys without it, and to any other output exactly if the input demands it.
\<close>

theorem fn_goes_with_function_keys:
  assumes "map_of xs ''key_code'' = Some (J_string k)"
    and "map_of xs ''modifiers'' = Some (J_array ms) \<or> map_of xs ''modifiers'' = None \<and> ms = []"
  shows "fn_key_output standard (J_object xs) =
    Inr (J_object (if f1_f12_key k = standard then xs else obj_set ''modifiers'' (J_array (ms @ [J_string ''fn''])) xs))"
  using assms by (auto simp: fn_key_output_def function_key_output_def add_fn_def)

theorem fn_goes_with_function_keys_witness:
  "fn_key_output True (J_object [(''key_code'', J_string ''mute'')]) =
     Inr (J_object [(''key_code'', J_string ''mute''), (''modifiers'', J_array [J_string ''fn''])]) \<and>
   fn_key_output True (J_object [(''key_code'', J_string ''f1'')]) = Inr (J_object [(''key_code'', J_string ''f1'')])"
  using fn_goes_with_function_keys [of "[(''key_code'', J_string ''mute'')]" "''mute''" "[]" True]
    fn_goes_with_function_keys [of "[(''key_code'', J_string ''f1'')]" "''f1''" "[]" True] by (simp add: f1_f12_key_def)

text \<open>
  An output whose modifiers are a single name, which the reader of outputs accepts, costs the whole modification where fn is to
  be added: a text cannot be extended, the error is logged and no rule is made.
\<close>

theorem single_modifier_drops_rule:
  assumes "tt_parse t (snd p) = Some (J_array (J_object xs # js))"
    and "map_of xs ''key_code'' = Some (J_string k)" "map_of xs ''modifiers'' = Some (J_string s)" "f1_f12_key k \<noteq> standard"
  shows "function_key_rule t rj standard p mk = None"
proof -
  have "map_json (fn_key_output standard) (J_object xs # js) = Inl Json_type_error"
    using assms(2-4) by (auto simp: fn_key_output_def function_key_output_def add_fn_def)
  then show ?thesis using assms(1) by (auto simp: function_key_rule_def caught_def split: option.splits)
qed


text \<open>The rule that turns one key of a device into another.\<close>

definition exchange_rule :: "device_settings \<Rightarrow> int \<Rightarrow> int \<Rightarrow> manipulator" where
  "exchange_rule d a b = M_basic ((new_basic simple_parameters
     ((from_key a)\<lparr>fd_from_modifiers_definition := \<lparr>fm_mandatory = {}, fm_optional = {Mod_any}\<rparr>\<rparr>) [to_key b])
       \<lparr>b_conditions := [Cond_device Device_if [default_definition
          \<lparr>dd_vendor_id := Some (di_vendor_id (dv_identifiers d)), dd_product_id := Some (di_product_id (dv_identifiers d)),
           dd_is_keyboard := Some (di_is_keyboard (dv_identifiers d)), dd_is_pointing_device := Some (di_is_pointing_device (dv_identifiers d))\<rparr>]]\<rparr>)"

lemma named_keys:
  "mse_from_json (J_object [(''key_code'', J_string ''grave_accent_and_tilde'')]) = Inr (a_key 53)"
  "mse_from_json (J_object [(''key_code'', J_string ''non_us_backslash'')]) = Inr (a_key 100)"
  by code_simp+

lemma basic_of_key:
  assumes "mse_from_json (J_object [(''key_code'', J_string k)]) = Inr (a_key a)" "mse_from_json (J_object [(''key_code'', J_string l)]) = Inr (a_key b)"
  shows "basic_of rj (J_object [(''key_code'', J_string k), (''modifiers'', J_object [(''optional'', any_modifier)])])
    [J_object [(''key_code'', J_string l)]] mk =
    Inr (new_basic simple_parameters ((from_key a)\<lparr>fd_from_modifiers_definition := \<lparr>fm_mandatory = {}, fm_optional = {Mod_any}\<rparr>\<rparr>) [to_key b], mk)"
  using assms
  by (simp add: basic_of_def to_event_from_json_def to_event_item_def handle_json_def check_type_def set_event_def
      default_event_definition_def default_to_event_definition_def from_event_from_json_def from_event_item_def
      from_modifiers_from_json_def from_modifiers_item_def make_modifiers_def modifier_from_json_def any_modifier_def error_at_def
      from_key_def to_key_def te_make_from_momentary_switch_event_def ed_make_from_momentary_switch_event_def default_from_modifiers_def
      default_from_event_definition_def)

lemma push_device_key_code_rules:
  "push_device_key_code rj d ''grave_accent_and_tilde'' ''non_us_backslash'' (ms, mk) = Inr (ms @ [exchange_rule d 53 100], mk)"
  "push_device_key_code rj d ''non_us_backslash'' ''grave_accent_and_tilde'' (ms, mk) = Inr (ms @ [exchange_rule d 100 53], mk)"
  by (simp_all add: push_device_key_code_def basic_of_key named_keys device_conditions_def make_device_if exchange_rule_def
      b_push_back_condition_def new_basic_def)

lemma push_device_key_codes_rules:
  "push_device_key_codes rj ds (ms, mk) =
     Inr (ms @ concat (map (\<lambda>d. if device_flag_of Swap_grave_accent_and_non_us_backslash d
                               then [exchange_rule d 53 100, exchange_rule d 100 53] else []) ds), mk)"
  by (induction ds arbitrary: ms) (simp_all add: push_device_key_code_rules)

text \<open>
  C39. The two keys that macOS reads differently by the type of a keyboard are exchanged for exactly the devices that ask for it: an update
  never fails, and it makes for each of them, in order, a rule for either key under any modifiers, under the condition of that device,
  whose output is the other key.
\<close>

theorem device_key_codes_are_exchanged:
  "device_key_code_update rj u p (ms, mk) =
     Inr (map (m_set_validity Invalid) (filter (vt_active (manipulators u)) ms) @
       concat (map (\<lambda>d. if device_flag_of Swap_grave_accent_and_non_us_backslash d
                        then [exchange_rule d 53 100, exchange_rule d 100 53] else []) (pf_devices p)), mk)"
  by (simp add: device_key_code_update_def push_device_key_codes_rules invalidated)

end
