(* ===== verification/EventTapOwner.thy ===== *)
theory EventTapOwner
  imports Machines
begin

text \<open>
  How the device grabber replaces its event tap monitor (\<open>device_grabber.hpp\<close>, \<open>setup_event_tap_monitor\<close> and
  what it calls). Stopping a monitor takes time: the monitor is handed over to its completion, and only the
  completion makes the next one. \<open>to_leaving\<close> holds the monitors that are still stopping, with whether their completion
  makes a replacement (not when the grabber itself stops).
\<close>

record event_tap_owner =
  to_monitor :: "bool option"
  to_pending :: "bool option"
  to_stopping :: bool
  to_leaving :: "(bool \<times> bool) list"
  to_alive :: bool

definition new_event_tap_owner :: event_tap_owner where
  "new_event_tap_owner = \<lparr>to_monitor = None, to_pending = None, to_stopping = False, to_leaving = [], to_alive = True\<rparr>"

definition create_pending_event_tap_monitor :: "event_tap_owner \<Rightarrow> event_tap_owner" where
  "create_pending_event_tap_monitor s =
     (case to_pending s of
        None \<Rightarrow> s
      | Some fallback \<Rightarrow> s\<lparr>to_pending := None, to_monitor := Some fallback\<rparr>)"

text \<open>Without a monitor a completion would be called at once; the callers that have one check first.\<close>

definition async_stop_event_tap_monitor :: "bool \<Rightarrow> event_tap_owner \<Rightarrow> event_tap_owner" where
  "async_stop_event_tap_monitor completion s =
     (case to_monitor s of
        None \<Rightarrow> s
      | Some fallback \<Rightarrow> s\<lparr>to_monitor := None, to_leaving := to_leaving s @ [(fallback, completion)]\<rparr>)"

definition setup_event_tap_monitor :: "bool \<Rightarrow> event_tap_owner \<Rightarrow> event_tap_owner" where
  "setup_event_tap_monitor fallback s =
     (let s = s\<lparr>to_pending := Some fallback\<rparr> in
      if to_stopping s then s
      else if to_monitor s \<noteq> None then async_stop_event_tap_monitor True (s\<lparr>to_stopping := True\<rparr>)
      else create_pending_event_tap_monitor s)"

text \<open>The monitor that has been stopping for the longest time has stopped.\<close>

definition event_tap_monitor_stopped :: "event_tap_owner \<Rightarrow> event_tap_owner" where
  "event_tap_monitor_stopped s =
     (case to_leaving s of
        [] \<Rightarrow> s
      | (_, completion) # rest \<Rightarrow>
          (let s = s\<lparr>to_leaving := rest\<rparr> in
           if completion \<and> to_alive s then create_pending_event_tap_monitor (s\<lparr>to_stopping := False\<rparr>) else s))"

text \<open>The destructor invalidates the completions before it stops the monitor.\<close>

definition destroy_event_tap_owner :: "event_tap_owner \<Rightarrow> event_tap_owner" where
  "destroy_event_tap_owner s = async_stop_event_tap_monitor False (s\<lparr>to_alive := False, to_pending := None\<rparr>)"

subsection \<open>Runs\<close>

datatype event_tap_op = Tap_setup bool | Tap_stopped

fun event_tap_step :: "event_tap_op \<Rightarrow> event_tap_owner \<Rightarrow> event_tap_owner" where
  "event_tap_step (Tap_setup fallback) s = setup_event_tap_monitor fallback s"
| "event_tap_step Tap_stopped s = event_tap_monitor_stopped s"

text \<open>The configuration that was asked for last.\<close>

fun last_request :: "event_tap_op list \<Rightarrow> bool option \<Rightarrow> bool option" where
  "last_request [] r = r"
| "last_request (Tap_setup fallback # ops) r = last_request ops (Some fallback)"
| "last_request (Tap_stopped # ops) r = last_request ops r"

text \<open>While a monitor stops, the last request waits; otherwise the monitor runs with the last request.\<close>

definition tap_inv :: "bool option \<Rightarrow> event_tap_owner \<Rightarrow> bool" where
  "tap_inv r s \<longleftrightarrow> to_alive s \<and>
     (if to_stopping s then to_monitor s = None \<and> to_pending s = r \<and> r \<noteq> None \<and> (\<exists>b. to_leaving s = [(b, True)])
      else to_monitor s = r \<and> to_pending s = None \<and> to_leaving s = [])"

lemma tap_inv_setup: "tap_inv r s \<Longrightarrow> tap_inv (Some v) (setup_event_tap_monitor v s)"
  by (auto simp: tap_inv_def setup_event_tap_monitor_def Let_def async_stop_event_tap_monitor_def create_pending_event_tap_monitor_def
      split: option.split if_split_asm)

lemma tap_inv_stopped: "tap_inv r s \<Longrightarrow> tap_inv r (event_tap_monitor_stopped s)"
  by (auto simp: tap_inv_def event_tap_monitor_stopped_def Let_def create_pending_event_tap_monitor_def split: list.split option.split if_split_asm)

lemma tap_inv_run: "tap_inv r s \<Longrightarrow> tap_inv (last_request ops r) (run_ops event_tap_step ops s)"
proof (induction ops arbitrary: r s)
  case (Cons op ops)
  then show ?case by (cases op) (simp_all add: tap_inv_setup tap_inv_stopped)
qed simp

lemma tap_inv_new: "tap_inv None new_event_tap_owner"
  by (simp add: tap_inv_def new_event_tap_owner_def)

text \<open>
  Never two event taps: however fast the setting changes, the running monitor and those that are stopping are at most one
  together, and once it has stopped, if it had to, the monitor runs with the setting that was asked for last.
\<close>

theorem one_event_tap:
  assumes "s = run_ops event_tap_step ops new_event_tap_owner"
  shows "(if to_monitor s = None then 0 else 1) + length (to_leaving s) \<le> 1 \<and>
    to_monitor (event_tap_monitor_stopped s) = last_request ops None \<and> to_leaving (event_tap_monitor_stopped s) = []"
proof -
  have inv: "tap_inv (last_request ops None) s" unfolding assms by (rule tap_inv_run [OF tap_inv_new])
  have "\<not> to_stopping (event_tap_monitor_stopped s)" using inv
    by (auto simp: tap_inv_def event_tap_monitor_stopped_def Let_def create_pending_event_tap_monitor_def split: list.split option.split if_split_asm)
  then show ?thesis using inv tap_inv_stopped [OF inv] by (auto simp: tap_inv_def split: if_split_asm)
qed

theorem one_event_tap_witness:
  "to_monitor (event_tap_monitor_stopped (run_ops event_tap_step [Tap_setup False, Tap_setup True, Tap_setup False] new_event_tap_owner)) = Some False"
  using one_event_tap [OF refl, of "[Tap_setup False, Tap_setup True, Tap_setup False]"] by simp

text \<open>After the destructor no monitor is made any more.\<close>

lemma destroyed_makes_no_monitor:
  "to_monitor (run_ops (\<lambda>_. event_tap_monitor_stopped) ops (destroy_event_tap_owner s)) = None"
proof -
  have "to_monitor (run_ops (\<lambda>_. event_tap_monitor_stopped) ops s) = None" if "to_monitor s = None" "\<not> to_alive s" for s
    using that by (induction ops arbitrary: s) (auto simp: event_tap_monitor_stopped_def Let_def split: list.split)
  then show ?thesis by (simp add: destroy_event_tap_owner_def async_stop_event_tap_monitor_def split: option.split)
qed

end
