(* ===== verification/DeviceGrabber.thy ===== *)
theory DeviceGrabber
  imports GrabbedDevices ConfiguredRules Connector PostEvents EventTapOwner
begin

text \<open>
  The device grabber (\<open>device_grabber.hpp\<close>): the connected devices, the queue their entries are merged in, the chain
  of manipulators from that queue to the virtual devices, and the decision which devices are opened with exclusive
  control. What other objects are asked for (the virtual devices, the monitors, the notification center) is collected
  in \<open>dg_requests\<close>; tasks given to the dispatcher wait in \<open>dg_tasks\<close>, in order. The device map has no order of its own; here it has
  the order of insertion.
\<close>

subsection \<open>Two classes of manipulators in one chain\<close>

definition sum_class :: "'a virtual_table \<Rightarrow> 'b virtual_table \<Rightarrow> ('a + 'b) virtual_table" where
  "sum_class c d =
     \<lparr>vt_already_manipulated = (\<lambda>front m. case m of Inl a \<Rightarrow> vt_already_manipulated c front a | Inr b \<Rightarrow> vt_already_manipulated d front b),
      vt_manipulate = (\<lambda>rt now input front m q st. case m of
          Inl a \<Rightarrow> and_then (vt_manipulate c rt now input front a q st) (\<lambda>(r, f, a1, q1, st1). Inr (r, f, Inl a1, q1, st1))
        | Inr b \<Rightarrow> and_then (vt_manipulate d rt now input front b q st) (\<lambda>(r, f, b1, q1, st1). Inr (r, f, Inr b1, q1, st1))),
      vt_active = (\<lambda>m. case m of Inl a \<Rightarrow> vt_active c a | Inr b \<Rightarrow> vt_active d b),
      vt_needs_virtual_hid_pointing = (\<lambda>m. case m of Inl a \<Rightarrow> vt_needs_virtual_hid_pointing c a | Inr b \<Rightarrow> vt_needs_virtual_hid_pointing d b),
      vt_handle_released = (\<lambda>front m q. case m of
          Inl a \<Rightarrow> (let (a1, q1) = vt_handle_released c front a q in (Inl a1, q1))
        | Inr b \<Rightarrow> (let (b1, q1) = vt_handle_released d front b q in (Inr b1, q1))),
      vt_handle_ungrabbed = (\<lambda>dev q t m. case m of
          Inl a \<Rightarrow> Inl (vt_handle_ungrabbed c dev q t a) | Inr b \<Rightarrow> Inr (vt_handle_ungrabbed d dev q t b)),
      vt_handle_event_tap = (\<lambda>front m q. case m of
          Inl a \<Rightarrow> (let (a1, q1) = vt_handle_event_tap c front a q in (Inl a1, q1))
        | Inr b \<Rightarrow> (let (b1, q1) = vt_handle_event_tap d front b q in (Inr b1, q1))),
      vt_validity = (\<lambda>m. case m of Inl a \<Rightarrow> vt_validity c a | Inr b \<Rightarrow> vt_validity d b),
      vt_set_validity = (\<lambda>v m. case m of Inl a \<Rightarrow> Inl (vt_set_validity c v a) | Inr b \<Rightarrow> Inr (vt_set_validity d v b))\<rparr>"

lemma sum_class_step:
  assumes "vt_manipulate (sum_class c d) rt now input front m q st = Inr (res, front', m', q', st')"
  obtains (left) a a' where "vt_manipulate c rt now input front a q st = Inr (res, front', a', q', st')"
  | (right) b b' where "vt_manipulate d rt now input front b q st = Inr (res, front', b', q', st')"
  using assms by (cases m) (auto simp: sum_class_def and_then_Inr_iff)

lemma sum_class_contract:
  assumes "manipulator_class c" "manipulator_class d"
  shows "manipulator_class (sum_class c d)"
proof
  fix rt now input front and m :: "'a + 'b" and q st res front' m' q' st'
  assume h: "vt_manipulate (sum_class c d) rt now input front m q st = Inr (res, front', m', q', st')"
  from h show "en_event front' = en_event front \<and> en_event_type front' = en_event_type front \<and>
      en_device_id front' = en_device_id front \<and> en_time front' = en_time front"
    by (cases rule: sum_class_step) (rule manipulator_class.keeps_entry [OF assms(1)] manipulator_class.keeps_entry [OF assms(2)], assumption)+
  from h show "en_validity front' = Invalid \<or> res \<noteq> Manipulated_result \<and> en_validity front' = en_validity front"
    by (cases rule: sum_class_step) (rule manipulator_class.takes [OF assms(1)] manipulator_class.takes [OF assms(2)], assumption)+
next
  fix rt now input front and m :: "'a + 'b" and q st front' m' q' st'
  assume "vt_manipulate (sum_class c d) rt now input front m q st = Inr (Needs_wait_until_time_stamp, front', m', q', st')"
  then show "now < make_time_stamp_with_input_delay (en_event_time_stamp front')"
    by (cases rule: sum_class_step) (rule manipulator_class.waits [OF assms(1)] manipulator_class.waits [OF assms(2)], assumption)+
qed

type_synonym ('k, 'm, 'b) stage = "manipulator + ('k, 'm, 'b) post_events"

text \<open>The managers of the chain and the queues between them, by number.\<close>

definition device_key_code_manager :: nat where "device_key_code_manager = 0"
definition simple_modifications_manager :: nat where "simple_modifications_manager = 1"
definition complex_modifications_manager :: nat where "complex_modifications_manager = 2"
definition fn_function_keys_manager :: nat where "fn_function_keys_manager = 3"
definition post_event_manager :: nat where "post_event_manager = 4"

definition merged_input_queue :: nat where "merged_input_queue = 0"
definition complex_modifications_applied_queue :: nat where "complex_modifications_applied_queue = 3"
definition posted_queue :: nat where "posted_queue = 5"

definition grabber_chain :: "(nat \<times> nat) list" where
  "grabber_chain =
     [(device_key_code_manager, 1), (simple_modifications_manager, 2),
      (complex_modifications_manager, complex_modifications_applied_queue), (fn_function_keys_manager, 4), (post_event_manager, posted_queue)]"

definition grabber_connections :: "connection list" where
  "grabber_connections = (case emplace_chain merged_input_queue grabber_chain of Inr cs \<Rightarrow> cs | Inl _ \<Rightarrow> [])"

subsection \<open>State\<close>

datatype request =
    Keyboard_initialize int int
  | Keyboard_terminate
  | Pointing_initialize
  | Pointing_terminate
  | Start_monitor device_id open_options
  | Stop_monitor device_id
  | Input_event_arrived
  | Post_reports
  | Manipulate_after time_point milliseconds
  | Connected_devices_changed
  | Check_for_updates bool
  | Device_matched_delay milliseconds
  | Hid_manager_start

datatype grabber_task =
    Task_grab_devices
  | Task_ignore_all_devices bool
  | Task_set_system_preferences system_preferences_properties
  | Task_set_variable set_variable
  | Task_frontmost_application application
  | Task_input_source input_source_properties
  | Task_system_preferences_changed
  | Task_virtual_hid_devices_state_changed
  | Task_stop_monitors

record ('k, 'm, 'b) grabber =
  dg_configuration :: configuration_state
  dg_devices :: "(device_id \<times> grabbed_device) list"
  dg_ignore_all :: bool
  dg_fallback :: bool
  dg_devices_state :: virtual_hid_devices_state
  dg_plant :: "('k, 'm, 'b) stage plant"
  dg_condition_count :: nat
  dg_physical :: "device_id \<Rightarrow> momentary_switch_event set"
  dg_last_caps_lock :: "bool option"
  dg_system_preferences :: system_preferences_properties
  dg_hat :: hat_switch_converter
  dg_event_tap :: event_tap_owner
  dg_tasks :: "grabber_task list"
  dg_requests :: "request list"

text \<open>What the grabber is used with: engines, the driver's reports, and the order in which a set of keys is listed.\<close>

record ('k, 'm, 'b) grabber_tools =
  gt_profile :: profile_tools
  gt_rejects :: rejects
  gt_scale :: "int \<Rightarrow> rat \<Rightarrow> rat"
  gt_math :: stick_math
  gt_reports :: "('k, 'm, 'b) report_ops"
  gt_momentum :: int
  gt_order :: "momentary_switch_event set \<Rightarrow> momentary_switch_event list"

definition grabber_class :: "('k, 'm, 'b) grabber_tools \<Rightarrow> runtime \<Rightarrow> milliseconds \<Rightarrow> ('k, 'm, 'b) stage virtual_table" where
  "grabber_class t rt clock = sum_class (manipulators clock) (post_class (gt_reports t) rt)"

interpretation whole_chain: manipulator_class "grabber_class t rt clock" for t rt clock
  unfolding grabber_class_def by (intro sum_class_contract program.manipulator_class_axioms post_virtual.manipulator_class_axioms)

definition ask :: "request \<Rightarrow> ('k, 'm, 'b) grabber \<Rightarrow> ('k, 'm, 'b) grabber" where
  "ask r g = g\<lparr>dg_requests := dg_requests g @ [r]\<rparr>"

definition enqueue_task :: "grabber_task \<Rightarrow> ('k, 'm, 'b) grabber \<Rightarrow> ('k, 'm, 'b) grabber" where
  "enqueue_task k g = g\<lparr>dg_tasks := dg_tasks g @ [k]\<rparr>"

definition on_device :: "device_id \<Rightarrow> (grabbed_device \<Rightarrow> grabbed_device) \<Rightarrow> ('k, 'm, 'b) grabber \<Rightarrow> ('k, 'm, 'b) grabber" where
  "on_device i f g =
     (case map_of (dg_devices g) i of
        None \<Rightarrow> g
      | Some e \<Rightarrow> g\<lparr>dg_devices := AList.update i (f e) (dg_devices g)\<rparr>)"

definition on_devices :: "(grabbed_device \<Rightarrow> grabbed_device) \<Rightarrow> ('k, 'm, 'b) grabber \<Rightarrow> ('k, 'm, 'b) grabber" where
  "on_devices f g = g\<lparr>dg_devices := map (\<lambda>(i, e). (i, f e)) (dg_devices g)\<rparr>"

definition on_merged_queue :: "(event_queue \<Rightarrow> event_queue) \<Rightarrow> ('k, 'm, 'b) grabber \<Rightarrow> ('k, 'm, 'b) grabber" where
  "on_merged_queue f g =
     (let p = dg_plant g in g\<lparr>dg_plant := p\<lparr>pl_queues := (pl_queues p)(merged_input_queue := map_option f (pl_queues p merged_input_queue))\<rparr>\<rparr>)"

text \<open>The manipulators of a manager that holds rules only, and the last manipulator.\<close>

definition rules_of :: "nat \<Rightarrow> ('k, 'm, 'b) stage plant \<Rightarrow> manipulator list" where
  "rules_of k p = (case pl_managers p k of None \<Rightarrow> [] | Some ms \<Rightarrow> map projl (filter isl ms))"

definition on_rules :: "nat \<Rightarrow> (rules \<Rightarrow> rules) \<Rightarrow> ('k, 'm, 'b) grabber \<Rightarrow> ('k, 'm, 'b) grabber" where
  "on_rules k f g =
     (let p = dg_plant g; (ms, n, st) = f (rules_of k p, dg_condition_count g, pl_store p)
      in g\<lparr>dg_plant := p\<lparr>pl_managers := (pl_managers p)(k \<mapsto> map Inl ms), pl_store := st\<rparr>, dg_condition_count := n\<rparr>)"

definition on_post :: "(('k, 'm, 'b) post_events \<Rightarrow> ('k, 'm, 'b) post_events) \<Rightarrow> ('k, 'm, 'b) grabber \<Rightarrow> ('k, 'm, 'b) grabber" where
  "on_post f g =
     (let p = dg_plant g in
      g\<lparr>dg_plant := p\<lparr>pl_managers := (pl_managers p)(post_event_manager :=
          map_option (map (map_sum id f)) (pl_managers p post_event_manager))\<rparr>\<rparr>)"

subsection \<open>Entries for the merged queue\<close>

definition push_merged :: "runtime \<Rightarrow> entry \<Rightarrow> ('k, 'm, 'b) grabber \<Rightarrow> ('k, 'm, 'b) grabber" where
  "push_merged rt en = on_merged_queue (push_back_entry rt en)"

text \<open>An entry without device values, made now.\<close>

definition grabber_entry :: "device_id \<Rightarrow> time_point \<Rightarrow> event \<Rightarrow> event_type \<Rightarrow> event \<Rightarrow> entry_state \<Rightarrow> entry" where
  "grabber_entry i now e et original st = mk_entry i (mk_ts now) e et None original st False Valid"

definition post_virtual_event :: "runtime \<Rightarrow> time_point \<Rightarrow> device_id \<Rightarrow> event \<Rightarrow> ('k, 'm, 'b) grabber \<Rightarrow> ('k, 'm, 'b) grabber" where
  "post_virtual_event rt now i e g = ask Input_event_arrived (push_merged rt (grabber_entry i now e Single e Virtual_event) g)"

definition post_set_variable_event :: "runtime \<Rightarrow> time_point \<Rightarrow> set_variable \<Rightarrow> ('k, 'm, 'b) grabber \<Rightarrow> ('k, 'm, 'b) grabber" where
  "post_set_variable_event rt now v g =
     (let e = make_set_variable_event v in
      ask Input_event_arrived
        (push_merged rt (grabber_entry 0 now e Key_up e Virtual_event)
          (push_merged rt (grabber_entry 0 now e Key_down e Virtual_event) g)))"

definition post_device_grabbed_event :: "runtime \<Rightarrow> time_point \<Rightarrow> device_properties \<Rightarrow> ('k, 'm, 'b) grabber \<Rightarrow> ('k, 'm, 'b) grabber" where
  "post_device_grabbed_event rt now p = post_virtual_event rt now (dp_device_id p) (make_device_grabbed_event p)"

definition post_device_ungrabbed_event :: "runtime \<Rightarrow> time_point \<Rightarrow> device_id \<Rightarrow> ('k, 'm, 'b) grabber \<Rightarrow> ('k, 'm, 'b) grabber" where
  "post_device_ungrabbed_event rt now i = post_virtual_event rt now i make_device_ungrabbed_event"

definition post_released_event :: "runtime \<Rightarrow> time_point \<Rightarrow> ('k, 'm, 'b) grabber \<Rightarrow> ('k, 'm, 'b) grabber" where
  "post_released_event rt now = post_virtual_event rt now 0 make_device_keys_and_pointing_buttons_are_released_event"

definition post_caps_lock_state_changed_event :: "runtime \<Rightarrow> time_point \<Rightarrow> bool \<Rightarrow> ('k, 'm, 'b) grabber \<Rightarrow> ('k, 'm, 'b) grabber" where
  "post_caps_lock_state_changed_event rt now on =
     post_virtual_event rt now 0 (make_caps_lock_state_changed_event (if on then 1 else 0))"

text \<open>Presses of keys that are down and releases of keys that are not are dropped.\<close>

definition unbalanced_momentary_switch_event ::
    "device_id \<Rightarrow> event \<Rightarrow> event_type \<Rightarrow> (device_id \<Rightarrow> momentary_switch_event set) \<Rightarrow>
     bool \<times> (device_id \<Rightarrow> momentary_switch_event set)" where
  "unbalanced_momentary_switch_event i e et physical =
     (case get_if_mse e of
        None \<Rightarrow> (False, physical)
      | Some m \<Rightarrow>
          if \<not> mse_valid m then (False, physical)
          else (case et of
                  Key_down \<Rightarrow> if m \<in> physical i then (True, physical) else (False, physical(i := insert m (physical i)))
                | Key_up \<Rightarrow> if m \<notin> physical i then (True, physical) else (False, physical(i := physical i - {m}))
                | Single \<Rightarrow> (False, physical)))"

text \<open>An entry of a device; the second component says whether one was pushed.\<close>

definition push_device_entry ::
    "runtime \<Rightarrow> grabbed_device \<Rightarrow> entry \<Rightarrow> ('k, 'm, 'b) grabber \<times> bool \<Rightarrow> ('k, 'm, 'b) grabber \<times> bool" where
  "push_device_entry rt d en = (\<lambda>(g, notify).
     if \<not> gd_disabled d \<and> gd_seized d then
       (let (unbalanced, physical) = unbalanced_momentary_switch_event (en_device_id en) (en_event en) (en_event_type en) (dg_physical g);
            g1 = g\<lparr>dg_physical := physical\<rparr>
        in if unbalanced then (g1, notify)
           else (push_merged rt (mk_entry (en_device_id en) (en_event_time_stamp en) (en_event en) (en_event_type en)
                   (en_event_integer_value en) (en_original_event en) (en_state en) False Valid) g1, True))
     else (g, notify))"

subsection \<open>LEDs and virtual devices\<close>

definition update_caps_lock_led :: "('k, 'm, 'b) grabber \<Rightarrow> ('k, 'm, 'b) grabber" where
  "update_caps_lock_led g =
     on_devices (gd_set_caps_lock_led_state (map_option (\<lambda>on. if on then Led_on else Led_off) (dg_last_caps_lock g))) g"

definition handle_virtual_device_entry :: "runtime \<Rightarrow> time_point \<Rightarrow> entry \<Rightarrow> ('k, 'm, 'b) grabber \<Rightarrow> ('k, 'm, 'b) grabber" where
  "handle_virtual_device_entry rt now en g =
     (if ev_type (en_event en) = Tag_caps_lock_state_changed then
        (case get_integer_value (en_event en) of
           Some state \<Rightarrow>
             update_caps_lock_led (post_caps_lock_state_changed_event rt now (state \<noteq> 0) (g\<lparr>dg_last_caps_lock := Some (state \<noteq> 0)\<rparr>))
         | None \<Rightarrow> g)
      else g)"

definition hid_values_arrived ::
    "runtime \<Rightarrow> time_point \<Rightarrow> grabbed_device \<Rightarrow> entry list \<Rightarrow> ('k, 'm, 'b) grabber \<Rightarrow> ('k, 'm, 'b) grabber" where
  "hid_values_arrived rt now d es g =
     (if gd_virtual d then fold (handle_virtual_device_entry rt now) es g
      else
        (let (g1, notify) = fold (push_device_entry rt d) es (g, False);
             g2 = (if global_flag ''reorder_same_timestamp_input_events_to_prioritize_modifiers'' (dg_configuration g1)
                   then on_merged_queue sort_events g1 else g1)
         in if notify then ask Input_event_arrived g2 else g2))"

definition event_tap_keyboard_event_arrived ::
    "runtime \<Rightarrow> time_point \<Rightarrow> event_type \<Rightarrow> event \<Rightarrow> ('k, 'm, 'b) grabber \<Rightarrow> ('k, 'm, 'b) grabber" where
  "event_tap_keyboard_event_arrived rt now et e g =
     (let (unbalanced, physical) = unbalanced_momentary_switch_event 0 e et (dg_physical g);
          g1 = g\<lparr>dg_physical := physical\<rparr>
      in if unbalanced then g1 else ask Input_event_arrived (push_merged rt (grabber_entry 0 now e et e Original) g1))"

definition event_tap_pointing_event_arrived ::
    "runtime \<Rightarrow> time_point \<Rightarrow> event_type \<Rightarrow> event \<Rightarrow> ('k, 'm, 'b) grabber \<Rightarrow> ('k, 'm, 'b) grabber" where
  "event_tap_pointing_event_arrived rt now et e g =
     ask Input_event_arrived
       (push_merged rt (grabber_entry 0 now make_pointing_device_event_from_event_tap_event et e Virtual_event) g)"

definition needs_prepare_virtual_hid_pointing_device :: "('k, 'm, 'b) grabber_tools \<Rightarrow> runtime \<Rightarrow> ('k, 'm, 'b) grabber \<Rightarrow> bool" where
  "needs_prepare_virtual_hid_pointing_device t rt g \<longleftrightarrow>
     list_ex (\<lambda>(i, e). needs_to_seize_device (gt_profile t) e \<and> (di_is_pointing_device (gd_identifiers e) \<or> di_is_game_pad (gd_identifiers e)))
       (dg_devices g) \<or>
     connector_needs_virtual_hid_pointing (grabber_class t rt 0) grabber_connections (dg_plant g)"

definition keyboard_parameters :: "iokit_keyboard_type \<Rightarrow> int \<times> int" where
  "keyboard_parameters k = (case k of Ansi \<Rightarrow> (0x05ac, 0x024f) | Iso \<Rightarrow> (0x05ac, 0x0250) | Jis \<Rightarrow> (0x05ac, 0x0251))"

definition update_virtual_hid_keyboard :: "('k, 'm, 'b) grabber \<Rightarrow> ('k, 'm, 'b) grabber" where
  "update_virtual_hid_keyboard g =
     (let (vendor, product) = keyboard_parameters (get_iokit_keyboard_type (pf_virtual_hid_keyboard (get_selected_profile (dg_configuration g))))
      in ask (Keyboard_initialize vendor product) g)"

definition update_virtual_hid_pointing :: "('k, 'm, 'b) grabber_tools \<Rightarrow> runtime \<Rightarrow> ('k, 'm, 'b) grabber \<Rightarrow> ('k, 'm, 'b) grabber" where
  "update_virtual_hid_pointing t rt g =
     ask (if needs_prepare_virtual_hid_pointing_device t rt g then Pointing_initialize else Pointing_terminate) g"

subsection \<open>Opening devices\<close>

definition make_grabbable_state :: "('k, 'm, 'b) grabber_tools \<Rightarrow> runtime \<Rightarrow> ('k, 'm, 'b) grabber \<Rightarrow> grabbed_device \<Rightarrow> grabbable_state" where
  "make_grabbable_state t rt g e =
     (if needs_to_observe_device e then Grabbable
      else if \<not> needs_to_seize_device (gt_profile t) e then Ungrabbable
      else if \<not> vs_keyboard_ready (dg_devices_state g) then Ungrabbable
      else if needs_prepare_virtual_hid_pointing_device t rt g \<and> \<not> vs_pointing_ready (dg_devices_state g) then Ungrabbable
      else Grabbable)"

definition grab_device :: "('k, 'm, 'b) grabber_tools \<Rightarrow> runtime \<Rightarrow> device_id \<times> grabbed_device \<Rightarrow> ('k, 'm, 'b) grabber \<Rightarrow> ('k, 'm, 'b) grabber" where
  "grab_device t rt = (\<lambda>(i, e) g.
     case make_grabbable_state t rt g e of
       Grabbable \<Rightarrow>
         (case start_options (gt_profile t) Grabbable e of
            Some options \<Rightarrow> ask (Start_monitor i options) g
          | None \<Rightarrow> g)
     | _ \<Rightarrow> ask (Stop_monitor i) g)"

definition grab_devices :: "('k, 'm, 'b) grabber_tools \<Rightarrow> runtime \<Rightarrow> ('k, 'm, 'b) grabber \<Rightarrow> ('k, 'm, 'b) grabber" where
  "grab_devices t rt g = fold (grab_device t rt) (dg_devices g) g"

definition need_to_disable_built_in_keyboard :: "profile_tools \<Rightarrow> ('k, 'm, 'b) grabber \<Rightarrow> bool" where
  "need_to_disable_built_in_keyboard t g \<longleftrightarrow> list_ex (\<lambda>(i, e). is_disable_built_in_keyboard_if_exists t e) (dg_devices g)"

definition update_devices_disabled :: "profile_tools \<Rightarrow> ('k, 'm, 'b) grabber \<Rightarrow> ('k, 'm, 'b) grabber" where
  "update_devices_disabled t g =
     on_devices (\<lambda>e. set_disabled (gd_determine_is_built_in_keyboard t e \<and> need_to_disable_built_in_keyboard t g) e) g"

subsection \<open>Complex modifications\<close>

text \<open>A manipulator that cannot be made, or a condition of it, is logged and left out.\<close>

definition complex_manipulator :: "rejects \<Rightarrow> int \<Rightarrow> cm_manipulator \<Rightarrow> making \<Rightarrow> json_error + manipulator \<times> making" where
  "complex_manipulator rj u mn mk =
     and_then (make_manipulator rj (mn_json mn) (parameters_of (mn_parameters mn)) u mk) (\<lambda>(m, mk1).
     and_then (make_conditions rj (mn_conditions mn) mk1) (\<lambda>(cs, mk2).
     Inr (fold m_push_back_condition cs m, mk2)))"

definition push_complex_manipulator :: "rejects \<Rightarrow> int \<Rightarrow> cm_manipulator \<Rightarrow> rules \<Rightarrow> rules" where
  "push_complex_manipulator rj u mn = (\<lambda>(ms, mk).
     case complex_manipulator rj u mn mk of
       Inr (m, mk1) \<Rightarrow> (ms @ [m], mk1)
     | Inl e \<Rightarrow> (ms, mk))"

definition complex_modifications_update :: "rejects \<Rightarrow> int \<Rightarrow> milliseconds \<Rightarrow> profile \<Rightarrow> rules \<Rightarrow> rules" where
  "complex_modifications_update rj u clock p = (\<lambda>(ms, mk).
     fold (\<lambda>r. if \<not> rule_enabled r then id else fold (push_complex_manipulator rj u) (ru_manipulators r))
       (cx_rules (pf_complex_modifications p)) (invalidate_manipulators (manipulators clock) ms, mk))"

subsection \<open>The event tap\<close>

definition set_fallback :: "bool \<Rightarrow> ('k, 'm, 'b) grabber \<Rightarrow> ('k, 'm, 'b) grabber" where
  "set_fallback v g =
     (if dg_fallback g = v then g
      else
        (let g1 = on_post (post_set_cgeventtap_fallback_enabled v) (g\<lparr>dg_fallback := v\<rparr>)
         in enqueue_task Task_grab_devices (g1\<lparr>dg_event_tap := setup_event_tap_monitor v (dg_event_tap g1)\<rparr>)))"

text \<open>
  With the event tap, releases are not seen while secure input is on, so everything is released when it is turned on.
\<close>

definition secure_event_input_enabled_changed ::
    "('k, 'm, 'b) grabber_tools \<Rightarrow> runtime \<Rightarrow> time_point \<Rightarrow> bool \<Rightarrow> ('k, 'm, 'b) grabber \<Rightarrow> ('k, 'm, 'b) grabber" where
  "secure_event_input_enabled_changed t rt now enabled g =
     (if \<not> dg_fallback g then g
      else if enabled then
        on_post (enter_secure_input rt (gt_reports t) (gt_order t) now)
          ((post_released_event rt now g)\<lparr>dg_physical := (\<lambda>_. {})\<rparr>)
      else g)"

subsection \<open>The virtual devices\<close>

definition client_connected :: "('k, 'm, 'b) grabber_tools \<Rightarrow> runtime \<Rightarrow> ('k, 'm, 'b) grabber \<Rightarrow> ('k, 'm, 'b) grabber" where
  "client_connected t rt g =
     enqueue_task Task_grab_devices
       (update_devices_disabled (gt_profile t) (update_virtual_hid_pointing t rt (update_virtual_hid_keyboard g)))"

definition virtual_hid_keyboard_ready_changed :: "('k, 'm, 'b) grabber_tools \<Rightarrow> bool \<Rightarrow> ('k, 'm, 'b) grabber \<Rightarrow> ('k, 'm, 'b) grabber" where
  "virtual_hid_keyboard_ready_changed t ready g =
     (if vs_keyboard_ready (dg_devices_state g) \<noteq> ready then
        (let g1 = enqueue_task Task_virtual_hid_devices_state_changed
               (g\<lparr>dg_devices_state := (dg_devices_state g)\<lparr>vs_keyboard_ready := ready\<rparr>\<rparr>);
             g2 = (if \<not> ready then update_virtual_hid_keyboard (ask Keyboard_terminate (on_post clear_virtual_hid_keyboard_pressed_keys g1)) else g1)
         in enqueue_task Task_grab_devices (update_devices_disabled (gt_profile t) g2))
      else g)"

definition virtual_hid_pointing_ready_changed ::
    "('k, 'm, 'b) grabber_tools \<Rightarrow> runtime \<Rightarrow> bool \<Rightarrow> ('k, 'm, 'b) grabber \<Rightarrow> ('k, 'm, 'b) grabber" where
  "virtual_hid_pointing_ready_changed t rt ready g =
     (if vs_pointing_ready (dg_devices_state g) \<noteq> ready then
        (let g1 = enqueue_task Task_virtual_hid_devices_state_changed
               (g\<lparr>dg_devices_state := (dg_devices_state g)\<lparr>vs_pointing_ready := ready\<rparr>\<rparr>);
             g2 = (if \<not> ready then update_virtual_hid_pointing t rt (ask Pointing_terminate g1) else g1)
         in enqueue_task Task_grab_devices (update_devices_disabled (gt_profile t) g2))
      else g)"

subsection \<open>Devices come and go\<close>

definition device_matched ::
    "('k, 'm, 'b) grabber_tools \<Rightarrow> runtime \<Rightarrow> device_id \<Rightarrow> device_properties \<Rightarrow> (int \<times> int) option \<Rightarrow>
     ('k, 'm, 'b) grabber \<Rightarrow> ('k, 'm, 'b) grabber" where
  "device_matched t rt i p led g =
     (let e = new_grabbed_device i p led (dg_configuration g);
          g1 = ask Connected_devices_changed (g\<lparr>dg_devices := AList.update i e (dg_devices g)\<rparr>);
          g2 = on_device i (set_temporarily_ignore (dg_ignore_all g1)) g1
      in enqueue_task Task_grab_devices (update_devices_disabled (gt_profile t) (update_virtual_hid_pointing t rt g2)))"

definition device_terminated ::
    "('k, 'm, 'b) grabber_tools \<Rightarrow> runtime \<Rightarrow> time_point \<Rightarrow> device_id \<Rightarrow> ('k, 'm, 'b) grabber \<Rightarrow> ('k, 'm, 'b) grabber" where
  "device_terminated t rt now i g =
     (let g1 = (if map_of (dg_devices g) i \<noteq> None
                then ask Connected_devices_changed (g\<lparr>dg_devices := AList.delete i (dg_devices g)\<rparr>) else g);
          g2 = g1\<lparr>dg_physical := (dg_physical g1)(i := {}), dg_hat := hat_erase_device i (dg_hat g1)\<rparr>;
          g3 = update_virtual_hid_pointing t rt (post_device_ungrabbed_event rt now i g2)
      in enqueue_task Task_grab_devices (update_devices_disabled (gt_profile t) g3))"

definition device_monitor_started ::
    "('k, 'm, 'b) grabber_tools \<Rightarrow> runtime \<Rightarrow> time_point \<Rightarrow> device_id \<Rightarrow> bool \<Rightarrow> ('k, 'm, 'b) grabber \<Rightarrow> ('k, 'm, 'b) grabber" where
  "device_monitor_started t rt now i seized g =
     (let g1 = on_device i (monitor_started (gt_profile t) seized) g in
      case map_of (dg_devices g1) i of
        None \<Rightarrow> g1
      | Some e \<Rightarrow> update_virtual_hid_pointing t rt (update_caps_lock_led (post_device_grabbed_event rt now (gd_properties e) g1)))"

definition device_monitor_stopped ::
    "('k, 'm, 'b) grabber_tools \<Rightarrow> runtime \<Rightarrow> time_point \<Rightarrow> device_id \<Rightarrow> ('k, 'm, 'b) grabber \<Rightarrow> ('k, 'm, 'b) grabber" where
  "device_monitor_stopped t rt now i g =
     (let g1 = on_device i (monitor_stopped (gt_profile t)) g in
      case map_of (dg_devices g1) i of
        None \<Rightarrow> g1
      | Some e \<Rightarrow> update_virtual_hid_pointing t rt
          (post_device_ungrabbed_event rt now i (g1\<lparr>dg_physical := (dg_physical g1)(i := {})\<rparr>)))"

text \<open>Values of a device; what its sticks post arrives later, one entry at a time.\<close>

definition device_values ::
    "('k, 'm, 'b) grabber_tools \<Rightarrow> runtime \<Rightarrow> time_point \<Rightarrow> device_id \<Rightarrow> game_pad_value list \<Rightarrow>
     ('k, 'm, 'b) grabber \<Rightarrow> entry list \<times> ('k, 'm, 'b) grabber" where
  "device_values t rt now i vs g =
     (case map_of (dg_devices g) i of
        None \<Rightarrow> ([], g)
      | Some e \<Rightarrow>
          (let (es, posts, e1, h) = monitor_delivers (gt_profile t) (gt_scale t) (gt_math t) now vs e (dg_hat g)
           in (posts, hid_values_arrived rt now e1 es (g\<lparr>dg_devices := AList.update i e1 (dg_devices g), dg_hat := h\<rparr>))))"

definition stick_motion_arrived :: "runtime \<Rightarrow> time_point \<Rightarrow> device_id \<Rightarrow> entry \<Rightarrow> ('k, 'm, 'b) grabber \<Rightarrow> ('k, 'm, 'b) grabber" where
  "stick_motion_arrived rt now i en g =
     (case map_of (dg_devices g) i of None \<Rightarrow> g | Some e \<Rightarrow> hid_values_arrived rt now e [en] g)"

subsection \<open>A new configuration\<close>

text \<open>The rules of the profile, in the managers of the chain. The update of the key codes never fails (\<open>ConfiguredRules\<close>).\<close>

definition update_rules :: "('k, 'm, 'b) grabber_tools \<Rightarrow> ('k, 'm, 'b) grabber \<Rightarrow> ('k, 'm, 'b) grabber" where
  "update_rules t g =
     (let p = get_selected_profile (dg_configuration g); texts = pt_texts (gt_profile t); rj = gt_rejects t;
          g1 = on_rules device_key_code_manager
            (\<lambda>s. case device_key_code_update rj 0 p s of Inr s1 \<Rightarrow> s1 | Inl e \<Rightarrow> s) g;
          g2 = on_rules simple_modifications_manager (simple_modifications_update texts rj 0 p) g1;
          g3 = on_rules fn_function_keys_manager (fn_function_keys_update texts rj 0 p (dg_system_preferences g)) g2
      in on_rules complex_modifications_manager (complex_modifications_update rj (gt_momentum t) 0 p) g3)"

definition set_environment_configuration :: "core_configuration \<Rightarrow> ('k, 'm, 'b) grabber \<Rightarrow> ('k, 'm, 'b) grabber" where
  "set_environment_configuration c g =
     g\<lparr>dg_plant := set_manipulator_environment_core_configuration c grabber_connections (dg_plant g)\<rparr>"

definition sleep_shortcut_delay_of :: "configuration_state \<Rightarrow> milliseconds" where
  "sleep_shortcut_delay_of c = int_of_value ''delay_milliseconds_before_sleep_shortcut'' (gc_values (co_global c))"

definition core_configuration_updated ::
    "('k, 'm, 'b) grabber_tools \<Rightarrow> runtime \<Rightarrow> configuration_state \<Rightarrow> ('k, 'm, 'b) grabber \<Rightarrow> ('k, 'm, 'b) grabber" where
  "core_configuration_updated t rt c g =
     (let g1 = on_devices (gd_set_core_configuration (gt_profile t) c) (g\<lparr>dg_configuration := c\<rparr>);
          g2 = ask (Check_for_updates (global_flag ''check_for_updates'' c))
            (set_environment_configuration (configuration_view (gt_profile t) c) g1);
          g3 = on_post (set_sleep_shortcut_delay (sleep_shortcut_delay_of c))
            (set_fallback (global_flag ''enable_cgeventtap_fallback'' c) g2);
          g4 = ask Hid_manager_start
            (ask (Device_matched_delay (int_of_value ''delay_milliseconds_before_open_device''
              (se_values (pf_parameters (get_selected_profile c))))) g3);
          g5 = update_virtual_hid_pointing t rt (update_virtual_hid_keyboard (update_rules t g4))
      in enqueue_task Task_system_preferences_changed
           (enqueue_task Task_grab_devices (update_devices_disabled (gt_profile t) g5)))"

subsection \<open>Tasks\<close>

fun run_grabber_task :: "('k, 'm, 'b) grabber_tools \<Rightarrow> runtime \<Rightarrow> time_point \<Rightarrow> grabber_task \<Rightarrow> ('k, 'm, 'b) grabber \<Rightarrow> ('k, 'm, 'b) grabber" where
  "run_grabber_task t rt now Task_grab_devices g = grab_devices t rt g"
| "run_grabber_task t rt now (Task_ignore_all_devices b) g =
     enqueue_task (Task_set_variable
         \<lparr>sv_name = Some ''system.temporarily_ignore_all_devices'', sv_value = Some (Var_bool b), sv_expression = None,
          sv_key_up_value = None, sv_key_up_expression = None, sv_type = Set_type_set\<rparr>)
       (enqueue_task Task_grab_devices (on_devices (set_temporarily_ignore b) (g\<lparr>dg_ignore_all := b\<rparr>)))"
| "run_grabber_task t rt now (Task_set_system_preferences p) g =
     (let g1 = g\<lparr>dg_system_preferences := p\<rparr>
      in enqueue_task Task_system_preferences_changed
           (on_rules fn_function_keys_manager
             (fn_function_keys_update (pt_texts (gt_profile t)) (gt_rejects t) 0 (get_selected_profile (dg_configuration g1)) p) g1))"
| "run_grabber_task t rt now (Task_set_variable v) g = post_set_variable_event rt now v g"
| "run_grabber_task t rt now (Task_frontmost_application a) g =
     post_virtual_event rt now 0 (make_frontmost_application_changed_event a) g"
| "run_grabber_task t rt now (Task_input_source p) g = post_virtual_event rt now 0 (make_input_source_changed_event p) g"
| "run_grabber_task t rt now Task_system_preferences_changed g =
     post_virtual_event rt now 0 (make_system_preferences_properties_changed_event (dg_system_preferences g)) g"
| "run_grabber_task t rt now Task_virtual_hid_devices_state_changed g =
     post_virtual_event rt now 0 (make_virtual_hid_devices_state_changed_event (dg_devices_state g)) g"
| "run_grabber_task t rt now Task_stop_monitors g = fold (\<lambda>(i, e). ask (Stop_monitor i)) (dg_devices g) g"

definition dispatch_task :: "('k, 'm, 'b) grabber_tools \<Rightarrow> runtime \<Rightarrow> time_point \<Rightarrow> ('k, 'm, 'b) grabber \<Rightarrow> ('k, 'm, 'b) grabber" where
  "dispatch_task t rt now g =
     (case dg_tasks g of
        [] \<Rightarrow> g
      | k # ks \<Rightarrow> run_grabber_task t rt now k (g\<lparr>dg_tasks := ks\<rparr>))"

subsection \<open>Manipulating\<close>

definition grabber_manipulate ::
    "('k, 'm, 'b) grabber_tools \<Rightarrow> runtime \<Rightarrow> milliseconds \<Rightarrow> time_point \<Rightarrow> ('k, 'm, 'b) grabber \<Rightarrow> access_error + ('k, 'm, 'b) grabber" where
  "grabber_manipulate t rt clock now g =
     and_then
       (connector_manipulate (grabber_class t rt clock) rt
         (global_flag ''reorder_same_timestamp_input_events_to_prioritize_modifiers'' (dg_configuration g)) now grabber_connections (dg_plant g))
       (\<lambda>p. let p1 = p\<lparr>pl_queues := (pl_queues p)(posted_queue := map_option clear_events (pl_queues p posted_queue))\<rparr>;
                g1 = ask Post_reports (g\<lparr>dg_plant := p1\<rparr>)
            in Inr (case min_input_event_time_stamp grabber_connections p1 of
                  None \<Rightarrow> g1
                | Some m \<Rightarrow> ask (Manipulate_after m (if now < m then rt_milliseconds_of rt (m - now) else 0)) g1))"

subsection \<open>The constructor\<close>

definition new_plant :: "('k, 'm, 'b) grabber_tools \<Rightarrow> environment \<Rightarrow> keyboard_suppression \<Rightarrow> bool \<Rightarrow> ('k, 'm, 'b) stage plant" where
  "new_plant t env ks natural =
     \<lparr>pl_managers = (\<lambda>k. if k < post_event_manager then Some []
        else if k = post_event_manager then Some [Inr (mk_post_events (gt_reports t) ks natural True)] else None),
      pl_queues = (\<lambda>k. if k \<le> posted_queue then Some (mk_queue env) else None),
      pl_store = empty_store\<rparr>"

definition new_grabber ::
    "('k, 'm, 'b) grabber_tools \<Rightarrow> configuration_state \<Rightarrow> environment \<Rightarrow> keyboard_suppression \<Rightarrow> system_preferences_properties \<Rightarrow>
     ('k, 'm, 'b) grabber" where
  "new_grabber t c env ks sp =
     on_post (set_sleep_shortcut_delay (sleep_shortcut_delay_of c))
       \<lparr>dg_configuration = c, dg_devices = [], dg_ignore_all = False, dg_fallback = False,
        dg_devices_state = \<lparr>vs_keyboard_ready = False, vs_pointing_ready = False\<rparr>,
        dg_plant = new_plant t env ks (sp_scroll_direction_is_natural sp), dg_condition_count = 0, dg_physical = (\<lambda>_. {}),
        dg_last_caps_lock = None, dg_system_preferences = sp, dg_hat = Map.empty, dg_event_tap = new_event_tap_owner,
        dg_tasks = [], dg_requests = []\<rparr>"

text \<open>\<open>async_start\<close> makes the event tap; the user is logged in by then.\<close>

definition grabber_start :: "('k, 'm, 'b) grabber \<Rightarrow> ('k, 'm, 'b) grabber" where
  "grabber_start g = g\<lparr>dg_event_tap := setup_event_tap_monitor False (dg_event_tap g)\<rparr>"

definition grabber_stop :: "('k, 'm, 'b) grabber \<Rightarrow> ('k, 'm, 'b) grabber" where
  "grabber_stop g = enqueue_task Task_stop_monitors (g\<lparr>dg_event_tap := destroy_event_tap_owner (dg_event_tap g)\<rparr>)"

definition connected_devices_of :: "('k, 'm, 'b) grabber \<Rightarrow> device_properties list" where
  "connected_devices_of g = fold (\<lambda>(i, e). push_back_device (gd_properties e)) (dg_devices g) []"

end
