(* ===== verification/DeviceGrabberRuns.thy ===== *)
theory DeviceGrabberRuns
  imports DeviceGrabber Runs
begin

text \<open>
  Runs of the device grabber: whatever devices come and go, whatever they send and however the configuration and the virtual
  devices change, the right devices are disabled, a key of a device is pressed and released in turn, and the
  event tap follows the configuration.
\<close>

subsection \<open>Operations\<close>

datatype grabber_op =
    Op_start
  | Op_matched device_id device_properties "(int \<times> int) option"
  | Op_terminated device_id
  | Op_monitor_started device_id bool
  | Op_monitor_stopped device_id
  | Op_values device_id "game_pad_value list"
  | Op_sticks_timer device_id
  | Op_stick_motion device_id entry
  | Op_tap_keyboard event_type event
  | Op_tap_pointing event_type event
  | Op_tap_stopped
  | Op_client_connected
  | Op_keyboard_ready bool
  | Op_pointing_ready bool
  | Op_configuration configuration_state
  | Op_secure_input bool
  | Op_call grabber_task
  | Op_dispatch
  | Op_manipulate milliseconds

text \<open>What the sticks post reaches the grabber as later operations.\<close>

fun grabber_step :: "('k, 'm, 'b) grabber_tools \<Rightarrow> runtime \<Rightarrow> time_point \<times> grabber_op \<Rightarrow> ('k, 'm, 'b) grabber \<Rightarrow> access_error + ('k, 'm, 'b) grabber" where
  "grabber_step t rt (now, Op_start) g = Inr (grabber_start g)"
| "grabber_step t rt (now, Op_matched i p led) g = Inr (device_matched t rt i p led g)"
| "grabber_step t rt (now, Op_terminated i) g = Inr (device_terminated t rt now i g)"
| "grabber_step t rt (now, Op_monitor_started i seized) g = Inr (device_monitor_started t rt now i seized g)"
| "grabber_step t rt (now, Op_monitor_stopped i) g = Inr (device_monitor_stopped t rt now i g)"
| "grabber_step t rt (now, Op_values i vs) g = Inr (snd (device_values t rt now i vs g))"
| "grabber_step t rt (now, Op_sticks_timer i) g = Inr (on_device i (\<lambda>e. snd (sticks_timer (gt_math t) now e)) g)"
| "grabber_step t rt (now, Op_stick_motion i en) g = Inr (stick_motion_arrived rt now i en g)"
| "grabber_step t rt (now, Op_tap_keyboard et e) g = Inr (event_tap_keyboard_event_arrived rt now et e g)"
| "grabber_step t rt (now, Op_tap_pointing et e) g = Inr (event_tap_pointing_event_arrived rt now et e g)"
| "grabber_step t rt (now, Op_tap_stopped) g = Inr (g\<lparr>dg_event_tap := event_tap_monitor_stopped (dg_event_tap g)\<rparr>)"
| "grabber_step t rt (now, Op_client_connected) g = Inr (client_connected t rt g)"
| "grabber_step t rt (now, Op_keyboard_ready b) g = Inr (virtual_hid_keyboard_ready_changed t b g)"
| "grabber_step t rt (now, Op_pointing_ready b) g = Inr (virtual_hid_pointing_ready_changed t rt b g)"
| "grabber_step t rt (now, Op_configuration c) g = Inr (core_configuration_updated t rt c g)"
| "grabber_step t rt (now, Op_secure_input b) g = Inr (secure_event_input_enabled_changed t rt now b g)"
| "grabber_step t rt (now, Op_call k) g = Inr (enqueue_task k g)"
| "grabber_step t rt (now, Op_dispatch) g = Inr (dispatch_task t rt now g)"
| "grabber_step t rt (now, Op_manipulate clock) g = grabber_manipulate t rt clock now g"

text \<open>Device properties come from their constructor and configurations from a file; the grabber is started once.\<close>

fun grabber_op_ok :: "profile_tools \<Rightarrow> grabber_op \<Rightarrow> bool" where
  "grabber_op_ok t Op_start \<longleftrightarrow> False"
| "grabber_op_ok t (Op_matched i p led) \<longleftrightarrow> (\<exists>ip. p = mk_device_properties ip)"
| "grabber_op_ok t (Op_configuration c) \<longleftrightarrow> (\<exists>system h disk. mk_core_configuration t system h disk = Inr c)"
| "grabber_op_ok t op \<longleftrightarrow> True"

subsection \<open>The parts an operation leaves alone\<close>

text \<open>The state as devices and configuration see it.\<close>

definition settled :: "('k, 'm, 'b) grabber \<Rightarrow> ('k, 'm, 'b) grabber \<Rightarrow> bool" where
  "settled g g' \<longleftrightarrow> dg_configuration g' = dg_configuration g \<and> dg_devices g' = dg_devices g \<and> dg_ignore_all g' = dg_ignore_all g \<and>
     dg_fallback g' = dg_fallback g \<and> dg_event_tap g' = dg_event_tap g \<and>
     (\<forall>k. pl_managers (dg_plant g) k \<noteq> None \<longrightarrow> pl_managers (dg_plant g') k \<noteq> None) \<and>
     (\<forall>k. pl_queues (dg_plant g) k \<noteq> None \<longrightarrow> pl_queues (dg_plant g') k \<noteq> None)"

lemma settled_refl: "settled g g"
  by (simp add: settled_def)

lemma settled_trans: "settled g h \<Longrightarrow> settled h k \<Longrightarrow> settled g k"
  by (simp add: settled_def)

lemma settled_fold: "(\<And>x g. x \<in> set xs \<Longrightarrow> settled g (f x g)) \<Longrightarrow> settled g (fold f xs g)"
proof (induction xs arbitrary: g)
  case (Cons x xs)
  have "settled (f x g) (fold f xs (f x g))" by (rule Cons.IH) (simp add: Cons.prems)
  then show ?case using settled_trans [OF Cons.prems [of x g]] by simp
qed (simp add: settled_refl)

lemma settled_ask: "settled g (ask r g)"
  by (simp add: settled_def ask_def)

lemma settled_task: "settled g (enqueue_task k g)"
  by (simp add: settled_def enqueue_task_def)

lemma settled_merged: "settled g (on_merged_queue f g)"
  by (simp add: settled_def on_merged_queue_def Let_def)

lemma settled_push: "settled g (push_merged rt en g)"
  by (simp add: push_merged_def settled_merged)

lemma settled_rules: "settled g (on_rules k f g)"
  by (auto simp: settled_def on_rules_def Let_def split: prod.split)

lemma settled_post: "settled g (on_post f g)"
  by (auto simp: settled_def on_post_def Let_def)

lemma settled_fields:
  "settled g (g\<lparr>dg_physical := x\<rparr>)" "settled g (g\<lparr>dg_hat := h\<rparr>)" "settled g (g\<lparr>dg_last_caps_lock := b\<rparr>)"
  "settled g (g\<lparr>dg_tasks := ks\<rparr>)" "settled g (g\<lparr>dg_system_preferences := sp\<rparr>)" "settled g (g\<lparr>dg_devices_state := vs\<rparr>)"
  by (simp_all add: settled_def)

lemma settled_virtual_event: "settled g (post_virtual_event rt now i e g)"
  unfolding post_virtual_event_def by (rule settled_trans [OF settled_push settled_ask])

lemma settled_set_variable: "settled g (post_set_variable_event rt now v g)"
  unfolding post_set_variable_event_def Let_def
  by (rule settled_trans [OF settled_trans [OF settled_push settled_push] settled_ask])

lemma settled_keyboard: "settled g (update_virtual_hid_keyboard g)"
  by (simp add: update_virtual_hid_keyboard_def settled_ask split: prod.split)

lemma settled_pointing: "settled g (update_virtual_hid_pointing t rt g)"
  by (simp add: update_virtual_hid_pointing_def settled_ask)

lemma settled_grab: "settled g (grab_devices t rt g)"
  unfolding grab_devices_def
  by (rule settled_fold) (auto simp: grab_device_def settled_ask settled_refl split: grabbable_state.split option.split)

lemma settled_update_rules: "settled g (update_rules t g)"
  unfolding update_rules_def Let_def
  by (rule settled_trans [OF settled_trans [OF settled_trans [OF settled_rules settled_rules] settled_rules] settled_rules])

lemmas settled_steps =
  settled_trans [OF _ settled_ask] settled_trans [OF _ settled_task] settled_trans [OF _ settled_merged] settled_trans [OF _ settled_push]
  settled_trans [OF _ settled_rules] settled_trans [OF _ settled_post] settled_trans [OF _ settled_virtual_event]
  settled_trans [OF _ settled_set_variable] settled_trans [OF _ settled_keyboard] settled_trans [OF _ settled_pointing]
  settled_trans [OF _ settled_grab] settled_trans [OF _ settled_update_rules]

lemma settled_device_entries: "settled g (fst (fold (push_device_entry rt d) es (g, n)))"
proof (induction es arbitrary: g n)
  case (Cons en es)
  have "settled g (fst (push_device_entry rt d en (g, n)))"
    by (auto simp: push_device_entry_def Let_def settled_refl settled_fields intro: settled_trans [OF settled_fields(1) settled_push] split: prod.split)
  then show ?case using Cons.IH settled_trans by (cases "push_device_entry rt d en (g, n)") (fastforce)
qed (simp add: settled_refl)

lemma settled_hid_values: "\<not> gd_virtual d \<Longrightarrow> settled g (hid_values_arrived rt now d es g)"
  using settled_device_entries [of g rt d es False]
  by (auto simp: hid_values_arrived_def Let_def intro!: settled_steps split: prod.split)

lemma settled_tap_keyboard: "settled g (event_tap_keyboard_event_arrived rt now et e g)"
  by (auto simp: event_tap_keyboard_event_arrived_def Let_def settled_fields
      intro: settled_trans [OF settled_trans [OF settled_fields(1) settled_push] settled_ask] split: prod.split)

lemma settled_tap_pointing: "settled g (event_tap_pointing_event_arrived rt now et e g)"
  unfolding event_tap_pointing_event_arrived_def by (rule settled_trans [OF settled_push settled_ask])

subsection \<open>The invariant\<close>

definition asks_to_disable :: "profile_tools \<Rightarrow> (device_id \<times> grabbed_device) list \<Rightarrow> bool" where
  "asks_to_disable t ds \<longleftrightarrow> (\<exists>j e. map_of ds j = Some e \<and> is_disable_built_in_keyboard_if_exists t e)"

definition devices_inv :: "configuration_state \<Rightarrow> bool \<Rightarrow> (device_id \<times> grabbed_device) list \<Rightarrow> bool" where
  "devices_inv c ignore ds \<longleftrightarrow> distinct (map fst ds) \<and>
     (\<forall>i e. map_of ds i = Some e \<longrightarrow> device_inv c e \<and> gd_temporarily_ignore e = ignore)"

definition disabled_right :: "profile_tools \<Rightarrow> (device_id \<times> grabbed_device) list \<Rightarrow> bool" where
  "disabled_right t ds \<longleftrightarrow>
     (\<forall>i e. map_of ds i = Some e \<longrightarrow>
       (gd_disabled e \<longleftrightarrow> \<not> gd_virtual e \<and> gd_determine_is_built_in_keyboard t e \<and> asks_to_disable t ds))"

text \<open>What holds before the devices are disabled anew, and what holds after it.\<close>

definition grabber_pre :: "('k, 'm, 'b) grabber \<Rightarrow> bool" where
  "grabber_pre g \<longleftrightarrow> devices_inv (dg_configuration g) (dg_ignore_all g) (dg_devices g) \<and> coordinated (dg_configuration g) \<and>
     alive merged_input_queue grabber_chain (dg_plant g) \<and> tap_inv (Some (dg_fallback g)) (dg_event_tap g) \<and>
     dg_fallback g = global_flag ''enable_cgeventtap_fallback'' (dg_configuration g)"

definition grabber_inv :: "profile_tools \<Rightarrow> ('k, 'm, 'b) grabber \<Rightarrow> bool" where
  "grabber_inv t g \<longleftrightarrow> grabber_pre g \<and> disabled_right t (dg_devices g)"

lemma pre_settled: "settled g g' \<Longrightarrow> grabber_pre g \<Longrightarrow> grabber_pre g'"
  by (auto simp: settled_def grabber_pre_def alive_def)

lemma inv_settled: "settled g g' \<Longrightarrow> grabber_inv t g \<Longrightarrow> grabber_inv t g'"
  using pre_settled [of g g'] by (simp add: grabber_inv_def settled_def)

definition harmless :: "configuration_state \<Rightarrow> (grabbed_device \<Rightarrow> grabbed_device) \<Rightarrow> bool" where
  "harmless c f \<longleftrightarrow> (\<forall>e. device_inv c e \<longrightarrow> device_inv c (f e) \<and> same_device e (f e))"

lemma asks_same:
  assumes "\<And>i. rel_option same_device (map_of ds i) (map_of ds' i)"
  shows "asks_to_disable t ds' = asks_to_disable t ds"
proof -
  have "(\<exists>e. map_of ds' i = Some e \<and> is_disable_built_in_keyboard_if_exists t e) \<longleftrightarrow>
      (\<exists>e. map_of ds i = Some e \<and> is_disable_built_in_keyboard_if_exists t e)" for i
    using assms [of i] same_device_facts(5) by (cases "map_of ds i"; cases "map_of ds' i") auto
  then show ?thesis by (simp add: asks_to_disable_def)
qed

lemma inv_same_devices:
  assumes "grabber_inv t g" "distinct (map fst ds)" "\<And>i. rel_option same_device (map_of (dg_devices g) i) (map_of ds i)"
    and "\<And>i e. map_of ds i = Some e \<Longrightarrow> device_inv (dg_configuration g) e"
  shows "grabber_inv t (g\<lparr>dg_devices := ds\<rparr>)"
proof -
  have same: "\<exists>e0. map_of (dg_devices g) i = Some e0 \<and> same_device e0 e" if "map_of ds i = Some e" for i e
    using assms(3) [of i] that by (cases "map_of (dg_devices g) i") auto
  have "devices_inv (dg_configuration g) (dg_ignore_all g) ds"
    using assms(1,2,4) same by (fastforce simp: devices_inv_def grabber_inv_def grabber_pre_def same_device_def)
  moreover have "gd_disabled e \<longleftrightarrow> \<not> gd_virtual e \<and> gd_determine_is_built_in_keyboard t e \<and> asks_to_disable t ds"
    if e: "map_of ds i = Some e" for i e
  proof -
    obtain e0 where e0: "map_of (dg_devices g) i = Some e0" "same_device e0 e" using same [OF e] by blast
    have "gd_disabled e0 \<longleftrightarrow> \<not> gd_virtual e0 \<and> gd_determine_is_built_in_keyboard t e0 \<and> asks_to_disable t (dg_devices g)"
      using assms(1) e0(1) by (simp add: grabber_inv_def disabled_right_def)
    then show ?thesis using same_device_facts [OF e0(2)] asks_same [OF assms(3)] e0(2) by (simp add: same_device_def)
  qed
  ultimately show ?thesis using assms(1) by (auto simp: grabber_inv_def grabber_pre_def disabled_right_def)
qed

lemma same_device_refl: "same_device e e"
  by (simp add: same_device_def)

lemma same_device_trans: "same_device e f \<Longrightarrow> same_device f h \<Longrightarrow> same_device e h"
  by (simp add: same_device_def)

lemma inv_on_devices:
  assumes "grabber_inv t g" "harmless (dg_configuration g) f"
  shows "grabber_inv t (on_devices f g)"
proof -
  have d: "device_inv (dg_configuration g) e" if "map_of (dg_devices g) i = Some e" for i e
    using assms(1) that by (auto simp: grabber_inv_def grabber_pre_def devices_inv_def)
  have m: "map_of (map (\<lambda>(i, e). (i, f e)) ds) i = map_option f (map_of ds i)" for i and ds :: "(device_id \<times> grabbed_device) list"
    by (simp add: map_of_map)
  have k: "map fst (map (\<lambda>(i, e). (i, f e)) ds) = map fst ds" for ds :: "(device_id \<times> grabbed_device) list"
    by (induction ds) auto
  show ?thesis unfolding on_devices_def
  proof (rule inv_same_devices [OF assms(1)])
    show "distinct (map fst (map (\<lambda>(i, e). (i, f e)) (dg_devices g)))"
      unfolding k using assms(1) by (simp add: grabber_inv_def grabber_pre_def devices_inv_def)
    show "rel_option same_device (map_of (dg_devices g) i) (map_of (map (\<lambda>(i, e). (i, f e)) (dg_devices g)) i)" for i
      unfolding m using d assms(2) by (cases "map_of (dg_devices g) i") (auto simp: harmless_def)
    show "map_of (map (\<lambda>(i, e). (i, f e)) (dg_devices g)) i = Some e \<Longrightarrow> device_inv (dg_configuration g) e" for i e
      unfolding m using d assms(2) by (auto simp: harmless_def)
  qed
qed

lemma inv_update_device:
  assumes "grabber_inv t g" "map_of (dg_devices g) i = Some e" "device_inv (dg_configuration g) e \<Longrightarrow> device_inv (dg_configuration g) e' \<and> same_device e e'"
  shows "grabber_inv t (g\<lparr>dg_devices := AList.update i e' (dg_devices g)\<rparr>)"
proof -
  have d: "device_inv (dg_configuration g) e" if "map_of (dg_devices g) i = Some e" for i e
    using assms(1) that by (auto simp: grabber_inv_def grabber_pre_def devices_inv_def)
  have e': "device_inv (dg_configuration g) e'" "same_device e e'" using assms(3) d [OF assms(2)] by simp_all
  show ?thesis
  proof (rule inv_same_devices [OF assms(1)])
    show "distinct (map fst (AList.update i e' (dg_devices g)))"
      using assms(1) by (simp add: grabber_inv_def grabber_pre_def devices_inv_def distinct_update)
    show "rel_option same_device (map_of (dg_devices g) j) (map_of (AList.update i e' (dg_devices g)) j)" for j
      using e'(2) assms(2) same_device_refl by (cases "map_of (dg_devices g) j") (auto simp: update_conv)
    show "map_of (AList.update i e' (dg_devices g)) j = Some x \<Longrightarrow> device_inv (dg_configuration g) x" for j x
      using e'(1) d by (auto simp: update_conv split: if_split_asm)
  qed
qed

lemma inv_on_device:
  assumes "grabber_inv t g" "harmless (dg_configuration g) f"
  shows "grabber_inv t (on_device i f g)"
  using assms inv_update_device [OF assms(1)] by (auto simp: on_device_def harmless_def split: option.split)

subsection \<open>Devices are disabled anew\<close>

lemma set_disabled_inv: "device_inv c e \<Longrightarrow> device_inv c (set_disabled v e)"
  by (auto simp: set_disabled_def device_inv_def gd_virtual_def gd_identifiers_def)

lemma set_disabled_facts:
  "gd_virtual (set_disabled v e) = gd_virtual e" "gd_temporarily_ignore (set_disabled v e) = gd_temporarily_ignore e"
  "gd_determine_is_built_in_keyboard t (set_disabled v e) = gd_determine_is_built_in_keyboard t e"
  "is_disable_built_in_keyboard_if_exists t (set_disabled v e) = is_disable_built_in_keyboard_if_exists t e"
  by (auto simp: set_disabled_def gd_virtual_def gd_identifiers_def gd_determine_is_built_in_keyboard_def
      is_disable_built_in_keyboard_if_exists_def gd_settings_def)

lemma need_to_disable_asks:
  "distinct (map fst (dg_devices g)) \<Longrightarrow> need_to_disable_built_in_keyboard t g = asks_to_disable t (dg_devices g)"
  by (force simp: need_to_disable_built_in_keyboard_def asks_to_disable_def list_ex_iff)

lemma disabled_inv:
  assumes "grabber_pre g"
  shows "grabber_inv t (update_devices_disabled t g)"
proof -
  define f where "f e = set_disabled (gd_determine_is_built_in_keyboard t e \<and> need_to_disable_built_in_keyboard t g) e" for e
  have facts: "gd_virtual (f e) = gd_virtual e" "gd_determine_is_built_in_keyboard t (f e) = gd_determine_is_built_in_keyboard t e" for e
    by (simp_all add: f_def set_disabled_facts)
  let ?ds = "map (\<lambda>(i, e). (i, f e)) (dg_devices g)"
  have m: "map_of ?ds i = map_option f (map_of (dg_devices g) i)" for i by (simp add: map_of_map)
  have k: "map fst ?ds = map fst (dg_devices g)" by (induction "dg_devices g") auto
  have inv: "devices_inv (dg_configuration g) (dg_ignore_all g) (dg_devices g)" using assms by (simp add: grabber_pre_def)
  have ask: "need_to_disable_built_in_keyboard t g = asks_to_disable t (dg_devices g)"
    using inv by (intro need_to_disable_asks) (simp add: devices_inv_def)
  have "devices_inv (dg_configuration g) (dg_ignore_all g) ?ds"
    using inv unfolding devices_inv_def k m by (auto simp: f_def set_disabled_inv set_disabled_facts)
  moreover have "(\<exists>e. map_option f x = Some e \<and> is_disable_built_in_keyboard_if_exists t e) \<longleftrightarrow>
      (\<exists>e. x = Some e \<and> is_disable_built_in_keyboard_if_exists t e)" for x
    by (cases x) (simp_all add: f_def set_disabled_facts)
  then have "asks_to_disable t ?ds = asks_to_disable t (dg_devices g)" unfolding asks_to_disable_def m by blast
  moreover have "gd_disabled (f e) \<longleftrightarrow> \<not> gd_virtual e \<and> gd_determine_is_built_in_keyboard t e \<and> asks_to_disable t (dg_devices g)"
    if "map_of (dg_devices g) i = Some e" for i e
    using inv that ask by (auto simp: f_def set_disabled_def devices_inv_def device_inv_def)
  ultimately show ?thesis
    using assms facts unfolding update_devices_disabled_def on_devices_def f_def [symmetric]
    by (auto simp: grabber_inv_def grabber_pre_def disabled_right_def m)
qed

lemma disabled_task_inv: "grabber_pre g \<Longrightarrow> grabber_inv t (enqueue_task k (update_devices_disabled t g))"
  by (rule inv_settled [OF settled_task disabled_inv])

subsection \<open>Harmless changes of a device\<close>

lemma harmless_led: "harmless c (gd_set_caps_lock_led_state v)"
  by (auto simp: harmless_def gd_set_caps_lock_led_state_def led_set_state_def device_inv_def same_device_def gd_virtual_def gd_identifiers_def)

lemma harmless_started: "harmless c (monitor_started t seized)"
proof -
  have "device_inv c (monitor_started t seized e) \<and> same_device e (monitor_started t seized e)" if e: "device_inv c e" for e
  proof (rule device_invI [OF e])
    let ?e = "e\<lparr>gd_seized := seized\<rparr>"
    note c = control_led [where e = ?e and t = t]
    show "same_device e (monitor_started t seized e)"
      using c(1) by (cases seized) (simp_all add: monitor_started_def Let_def same_device_def)
    show "di_is_game_pad (gd_identifiers e)" if "gd_sticks (monitor_started t seized e) \<noteq> None"
      using that c(3) e by (auto simp: monitor_started_def Let_def device_inv_def split: if_split_asm)
    have "cl_started (gd_led (monitor_started t seized e)) = cl_started (gd_led (control_caps_lock_led_state_manager t ?e))"
      "gd_seized (monitor_started t seized e) = seized"
      using c(2) by (cases seized; simp add: monitor_started_def Let_def)+
    then show "gd_seized (monitor_started t seized e) \<and> \<not> gd_virtual e" if "cl_started (gd_led (monitor_started t seized e))"
      using that c(4) e by (simp add: device_inv_def gd_virtual_def gd_identifiers_def split: if_split_asm)
  qed
  then show ?thesis by (simp add: harmless_def)
qed

lemma harmless_stopped: "harmless c (monitor_stopped t)"
proof -
  have "device_inv c (monitor_stopped t e) \<and> same_device e (monitor_stopped t e)" if e: "device_inv c e" for e
  proof (rule device_invI [OF e])
    let ?e = "e\<lparr>gd_seized := False\<rparr>"
    note c = control_led [where e = ?e and t = t]
    show "same_device e (monitor_stopped t e)" using c(1) by (simp add: monitor_stopped_def same_device_def)
    show "di_is_game_pad (gd_identifiers e)" if "gd_sticks (monitor_stopped t e) \<noteq> None"
      using that by (simp add: monitor_stopped_def)
    show "gd_seized (monitor_stopped t e) \<and> \<not> gd_virtual e" if "cl_started (gd_led (monitor_stopped t e))"
      using that c(4) e by (simp add: monitor_stopped_def device_inv_def gd_virtual_def gd_identifiers_def split: if_split_asm)
  qed
  then show ?thesis by (simp add: harmless_def)
qed

lemma harmless_sticks: "harmless c (\<lambda>e. snd (sticks_timer m now e))"
  by (auto simp: harmless_def sticks_timer_def device_inv_def same_device_def gd_virtual_def gd_identifiers_def split: option.split prod.split)

lemma harmless_values:
  assumes "monitor_delivers t scale m now vs e h = (es, posts, e', h')" "device_inv c e"
  shows "device_inv c e' \<and> same_device e e'"
  using assms
  by (auto simp: monitor_delivers_def values_arrived_def Let_def device_inv_def same_device_def gd_virtual_def gd_identifiers_def
      split: option.split_asm prod.split_asm)

lemma new_device_inv:
  "device_inv c (set_temporarily_ignore b (new_grabbed_device i (mk_device_properties ip) led c))"
  by (simp add: device_inv_def set_temporarily_ignore_def new_grabbed_device_def new_caps_lock_led_def gd_virtual_def gd_identifiers_def
      normal_identifiers_def mk_identifiers_def mk_device_properties_def Let_def)

subsection \<open>Every operation keeps the invariant\<close>

lemma inv_pre: "grabber_inv t g \<Longrightarrow> grabber_pre g"
  by (simp add: grabber_inv_def)

lemma inv_device_entry: "grabber_inv t g \<Longrightarrow> grabber_inv t (handle_virtual_device_entry rt now en g)"
proof -
  assume g: "grabber_inv t g"
  have "grabber_inv t (update_caps_lock_led h)" if "grabber_inv t h" for h :: "('a, 'b, 'c) grabber"
    unfolding update_caps_lock_led_def by (rule inv_on_devices [OF that harmless_led])
  moreover have "grabber_inv t (post_caps_lock_state_changed_event rt now b (g\<lparr>dg_last_caps_lock := Some b\<rparr>))" for b
    unfolding post_caps_lock_state_changed_event_def
    by (rule inv_settled [OF settled_trans [OF settled_fields(3) settled_virtual_event] g])
  ultimately show ?thesis using g by (simp add: handle_virtual_device_entry_def split: option.split)
qed

lemma inv_hid_values: "grabber_inv t g \<Longrightarrow> grabber_inv t (hid_values_arrived rt now d es g)"
proof (cases "gd_virtual d")
  case True
  assume "grabber_inv t g"
  then have "grabber_inv t (fold (handle_virtual_device_entry rt now) es g)"
    by (induction es arbitrary: g) (simp_all add: inv_device_entry)
  then show ?thesis using True by (simp add: hid_values_arrived_def)
qed (rule inv_settled [OF settled_hid_values])

lemma pre_match:
  assumes "grabber_inv t g"
  shows "grabber_pre (g\<lparr>dg_devices := AList.update i (set_temporarily_ignore (dg_ignore_all g)
      (new_grabbed_device i (mk_device_properties ip) led (dg_configuration g))) (dg_devices g)\<rparr>)"
  using assms new_device_inv
  by (auto simp: grabber_inv_def grabber_pre_def devices_inv_def update_conv set_temporarily_ignore_def distinct_update split: if_split_asm)

lemma update_twice: "AList.update k w (AList.update k v al) = AList.update k w al"
  by (induction al) auto

lemma inv_matched: "grabber_inv t g \<Longrightarrow> grabber_inv t (device_matched t' rt i (mk_device_properties ip) led g)" if "t = gt_profile t'"
proof -
  assume g: "grabber_inv t g"
  let ?e = "new_grabbed_device i (mk_device_properties ip) led (dg_configuration g)"
  have "on_device i (set_temporarily_ignore (dg_ignore_all g)) (ask Connected_devices_changed (g\<lparr>dg_devices := AList.update i ?e (dg_devices g)\<rparr>)) =
      ask Connected_devices_changed (g\<lparr>dg_devices := AList.update i (set_temporarily_ignore (dg_ignore_all g) ?e) (dg_devices g)\<rparr>)"
    by (simp add: on_device_def ask_def update_conv update_twice)
  then have "device_matched t' rt i (mk_device_properties ip) led g =
      enqueue_task Task_grab_devices (update_devices_disabled t (update_virtual_hid_pointing t' rt (ask Connected_devices_changed
        (g\<lparr>dg_devices := AList.update i (set_temporarily_ignore (dg_ignore_all g) ?e) (dg_devices g)\<rparr>))))"
    using that by (simp add: device_matched_def Let_def ask_def)
  then show ?thesis
    using disabled_task_inv [OF pre_settled [OF settled_trans [OF settled_ask settled_pointing] pre_match [OF g]]] by simp
qed

lemma inv_terminated: "grabber_inv t g \<Longrightarrow> grabber_inv t (device_terminated t' rt now i g)" if "t = gt_profile t'"
proof -
  assume g: "grabber_inv t g"
  let ?g1 = "if map_of (dg_devices g) i \<noteq> None then ask Connected_devices_changed (g\<lparr>dg_devices := AList.delete i (dg_devices g)\<rparr>) else g"
  have "grabber_pre (g\<lparr>dg_devices := AList.delete i (dg_devices g)\<rparr>)"
    using inv_pre [OF g] by (auto simp: grabber_pre_def devices_inv_def delete_conv distinct_delete split: if_split_asm)
  then have "grabber_pre ?g1" using pre_settled [OF settled_ask] inv_pre [OF g] by auto
  then have "grabber_pre (update_virtual_hid_pointing t' rt (post_device_ungrabbed_event rt now i
      (?g1\<lparr>dg_physical := (dg_physical ?g1)(i := {}), dg_hat := hat_erase_device i (dg_hat ?g1)\<rparr>)))"
    unfolding post_device_ungrabbed_event_def
    by (rule pre_settled [rotated]) (intro settled_steps, simp add: settled_def)
  from disabled_task_inv [OF this, of t Task_grab_devices] show ?thesis
    unfolding device_terminated_def Let_def that by simp
qed

lemma inv_started: "grabber_inv t g \<Longrightarrow> grabber_inv t (device_monitor_started t' rt now i seized g)"
proof -
  assume g: "grabber_inv t g"
  have g1: "grabber_inv t (on_device i (monitor_started (gt_profile t') seized) g)" (is "grabber_inv t ?g1")
    by (rule inv_on_device [OF g harmless_started])
  have "grabber_inv t (update_virtual_hid_pointing t' rt (update_caps_lock_led (post_device_grabbed_event rt now p ?g1)))" for p
    unfolding post_device_grabbed_event_def update_caps_lock_led_def
    by (rule inv_settled [OF settled_pointing inv_on_devices [OF inv_settled [OF settled_virtual_event g1] harmless_led]])
  then show ?thesis using g1 by (simp add: device_monitor_started_def Let_def split: option.split)
qed

lemma inv_stopped: "grabber_inv t g \<Longrightarrow> grabber_inv t (device_monitor_stopped t' rt now i g)"
proof -
  assume g: "grabber_inv t g"
  have g1: "grabber_inv t (on_device i (monitor_stopped (gt_profile t')) g)" (is "grabber_inv t ?g1")
    by (rule inv_on_device [OF g harmless_stopped])
  have "grabber_inv t (update_virtual_hid_pointing t' rt (post_device_ungrabbed_event rt now i (?g1\<lparr>dg_physical := x\<rparr>)))" for x
    unfolding post_device_ungrabbed_event_def
    by (rule inv_settled [OF settled_trans [OF settled_trans [OF settled_fields(1) settled_virtual_event] settled_pointing] g1])
  then show ?thesis using g1 by (simp add: device_monitor_stopped_def Let_def split: option.split)
qed

lemma inv_values: "grabber_inv t g \<Longrightarrow> grabber_inv t (snd (device_values t' rt now i vs g))"
proof (cases "map_of (dg_devices g) i")
  case (Some e)
  assume g: "grabber_inv t g"
  obtain es posts e1 h where m: "monitor_delivers (gt_profile t') (gt_scale t') (gt_math t') now vs e (dg_hat g) = (es, posts, e1, h)"
    by (cases "monitor_delivers (gt_profile t') (gt_scale t') (gt_math t') now vs e (dg_hat g)") auto
  have "grabber_inv t (g\<lparr>dg_devices := AList.update i e1 (dg_devices g)\<rparr>)"
    by (rule inv_update_device [OF g Some harmless_values [OF m]])
  from inv_settled [OF settled_fields(2) this] have "grabber_inv t (g\<lparr>dg_devices := AList.update i e1 (dg_devices g), dg_hat := h\<rparr>)" .
  then show ?thesis using Some m inv_hid_values by (simp add: device_values_def)
qed (simp add: device_values_def)

lemma inv_changed:
  assumes "grabber_inv t g" "settled g g'"
  shows "grabber_inv t (enqueue_task k (update_devices_disabled t g'))"
  by (rule disabled_task_inv [OF pre_settled [OF assms(2) inv_pre [OF assms(1)]]])

lemma inv_connected: "t = gt_profile t' \<Longrightarrow> grabber_inv t g \<Longrightarrow> grabber_inv t (client_connected t' rt g)"
  unfolding client_connected_def by (simp add: inv_changed [OF _ settled_trans [OF settled_keyboard settled_pointing]])

lemma inv_keyboard_ready: "t = gt_profile t' \<Longrightarrow> grabber_inv t g \<Longrightarrow> grabber_inv t (virtual_hid_keyboard_ready_changed t' ready g)"
  unfolding virtual_hid_keyboard_ready_changed_def Let_def
  by (auto intro!: inv_changed settled_steps settled_fields)

lemma inv_pointing_ready: "t = gt_profile t' \<Longrightarrow> grabber_inv t g \<Longrightarrow> grabber_inv t (virtual_hid_pointing_ready_changed t' rt ready g)"
  unfolding virtual_hid_pointing_ready_changed_def Let_def
  by (auto intro!: inv_changed settled_steps settled_fields)

lemma inv_secure_input: "grabber_inv t g \<Longrightarrow> grabber_inv t (secure_event_input_enabled_changed t' rt now b g)"
  unfolding secure_event_input_enabled_changed_def post_released_event_def
  by (auto intro!: inv_settled [OF settled_trans [OF settled_trans [OF settled_virtual_event settled_fields(1)] settled_post]])

lemma set_configuration_inv: "device_inv c0 e \<Longrightarrow> device_inv c (gd_set_core_configuration t c e)"
proof -
  assume e: "device_inv c0 e"
  let ?e = "e\<lparr>gd_configuration := c\<rparr>"
  note l = control_led [where e = ?e and t = t]
  have same: "same_device ?e (gd_set_core_configuration t c e)"
    using l(1) by (simp add: gd_set_core_configuration_def Let_def same_device_def)
  have "device_inv c ?e" using e by (simp add: device_inv_def gd_virtual_def gd_identifiers_def)
  moreover have "gd_sticks (gd_set_core_configuration t c e) \<noteq> None \<Longrightarrow> di_is_game_pad (gd_identifiers ?e)"
    using l(3) e by (simp add: gd_set_core_configuration_def Let_def device_inv_def gd_identifiers_def)
  moreover have "cl_started (gd_led (gd_set_core_configuration t c e)) \<Longrightarrow> gd_seized (gd_set_core_configuration t c e) \<and> \<not> gd_virtual ?e"
    using l(2,4) e by (simp add: gd_set_core_configuration_def Let_def device_inv_def gd_virtual_def gd_identifiers_def split: if_split_asm)
  ultimately show ?thesis using device_invI [OF _ same] by blast
qed

lemma set_configuration_ignore: "gd_temporarily_ignore (gd_set_core_configuration t c e) = gd_temporarily_ignore e"
  using control_led(1) [of "e\<lparr>gd_configuration := c\<rparr>" t] by (simp add: gd_set_core_configuration_def Let_def same_device_def)

lemma map_of_on_devices: "map_of (map (\<lambda>(i, e). (i, f e)) ds) i = map_option f (map_of ds i)"
  by (simp add: map_of_map)

lemma keys_on_devices: "map fst (map (\<lambda>(i, e). (i, f e)) ds) = map fst ds"
  by (induction ds) auto

text \<open>Everything but the event tap, which follows a new configuration a little later.\<close>

definition grabber_half :: "('k, 'm, 'b) grabber \<Rightarrow> bool" where
  "grabber_half g \<longleftrightarrow> devices_inv (dg_configuration g) (dg_ignore_all g) (dg_devices g) \<and> coordinated (dg_configuration g) \<and>
     alive merged_input_queue grabber_chain (dg_plant g) \<and> tap_inv (Some (dg_fallback g)) (dg_event_tap g)"

lemma half_settled: "settled g g' \<Longrightarrow> grabber_half g \<Longrightarrow> grabber_half g'"
  by (auto simp: settled_def grabber_half_def alive_def)

lemma half_configuration:
  assumes "grabber_inv t g" "coordinated c"
  shows "grabber_half (on_devices (gd_set_core_configuration t' c) (g\<lparr>dg_configuration := c\<rparr>))"
proof -
  have old: "distinct (map fst (dg_devices g))"
      "\<And>i e. map_of (dg_devices g) i = Some e \<Longrightarrow> device_inv (dg_configuration g) e \<and> gd_temporarily_ignore e = dg_ignore_all g"
    using assms(1) unfolding grabber_inv_def grabber_pre_def devices_inv_def by blast+
  then have "device_inv c (gd_set_core_configuration t' c e) \<and> gd_temporarily_ignore (gd_set_core_configuration t' c e) = dg_ignore_all g"
    if "map_of (dg_devices g) i = Some e" for i e
    using that set_configuration_inv set_configuration_ignore by metis
  then have "devices_inv c (dg_ignore_all g) (map (\<lambda>(i, e). (i, gd_set_core_configuration t' c e)) (dg_devices g))"
    unfolding devices_inv_def keys_on_devices map_of_on_devices map_option_eq_Some using old(1) by blast
  then show ?thesis using assms unfolding grabber_half_def on_devices_def grabber_inv_def grabber_pre_def
    by (elim conjE, intro conjI) simp_all
qed

lemma settled_environment: "settled g (set_environment_configuration v g)"
proof -
  have q: "pl_managers (set_queue_core_configuration v k p) = pl_managers p \<and>
      (\<forall>j. pl_queues p j \<noteq> None \<longrightarrow> pl_queues (set_queue_core_configuration v k p) j \<noteq> None)" for k and p :: "('a, 'b, 'c) stage plant"
    by (auto simp: set_queue_core_configuration_def split: option.split)
  have "pl_managers (fold (connection_set_core_configuration v) cs p) = pl_managers p \<and>
      (\<forall>j. pl_queues p j \<noteq> None \<longrightarrow> pl_queues (fold (connection_set_core_configuration v) cs p) j \<noteq> None)" for cs and p :: "('a, 'b, 'c) stage plant"
  proof (induction cs arbitrary: p)
    case (Cons cn cs)
    let ?p = "connection_set_core_configuration v cn p"
    have "pl_managers ?p = pl_managers p \<and> (\<forall>j. pl_queues p j \<noteq> None \<longrightarrow> pl_queues ?p j \<noteq> None)"
      unfolding connection_set_core_configuration_def using q by metis
    then show ?case using Cons.IH [of ?p] by simp
  qed simp
  then show ?thesis by (simp add: settled_def set_environment_configuration_def set_manipulator_environment_core_configuration_def)
qed

lemma half_fallback: "grabber_half g \<Longrightarrow> v = global_flag ''enable_cgeventtap_fallback'' (dg_configuration g) \<Longrightarrow> grabber_pre (set_fallback v g)"
proof (cases "dg_fallback g = v")
  case False
  assume g: "grabber_half g" and v: "v = global_flag ''enable_cgeventtap_fallback'' (dg_configuration g)"
  have s: "settled (g\<lparr>dg_fallback := v\<rparr>) (on_post (post_set_cgeventtap_fallback_enabled v) (g\<lparr>dg_fallback := v\<rparr>))" (is "settled ?g ?h")
    by (rule settled_post)
  have "grabber_pre (?h\<lparr>dg_event_tap := setup_event_tap_monitor v (dg_event_tap ?h)\<rparr>)"
    using g v s tap_inv_setup by (auto simp: settled_def grabber_half_def grabber_pre_def alive_def)
  then show ?thesis using False pre_settled [OF settled_task] by (simp add: set_fallback_def Let_def)
qed (simp add: set_fallback_def grabber_half_def grabber_pre_def)

lemma inv_configuration:
  assumes "grabber_inv t g" "coordinated c" "t = gt_profile t'"
  shows "grabber_inv t (core_configuration_updated t' rt c g)"
proof -
  let ?h = "ask (Check_for_updates (global_flag ''check_for_updates'' c))
    (set_environment_configuration (configuration_view t c) (on_devices (gd_set_core_configuration t c) (g\<lparr>dg_configuration := c\<rparr>)))"
  have "grabber_half ?h"
    by (rule half_settled [OF settled_trans [OF settled_environment settled_ask] half_configuration [OF assms(1,2)]])
  moreover have "dg_configuration ?h = c" by (simp add: ask_def set_environment_configuration_def on_devices_def)
  ultimately have "grabber_pre (set_fallback (global_flag ''enable_cgeventtap_fallback'' c) ?h)"
    by (intro half_fallback) simp_all
  then have "grabber_pre (update_virtual_hid_pointing t' rt (update_virtual_hid_keyboard (update_rules t' (ask Hid_manager_start
      (ask d (on_post f (set_fallback (global_flag ''enable_cgeventtap_fallback'' c) ?h)))))))" for d f
    by (rule pre_settled [rotated]) (intro settled_steps settled_refl)
  from inv_settled [OF settled_task disabled_task_inv [OF this]] show ?thesis
    unfolding core_configuration_updated_def Let_def assms(3) by simp
qed

lemma ignore_inv: "device_inv c e \<Longrightarrow> device_inv c (set_temporarily_ignore b e)"
  by (simp add: device_inv_def set_temporarily_ignore_def gd_virtual_def gd_identifiers_def)

lemma inv_ignore_all:
  assumes "grabber_inv t g"
  shows "grabber_inv t (on_devices (set_temporarily_ignore b) (g\<lparr>dg_ignore_all := b\<rparr>))"
proof -
  let ?ds = "map (\<lambda>(i, e). (i, set_temporarily_ignore b e)) (dg_devices g)"
  have f: "gd_virtual (set_temporarily_ignore b e) = gd_virtual e" "gd_disabled (set_temporarily_ignore b e) = gd_disabled e"
      "gd_determine_is_built_in_keyboard t (set_temporarily_ignore b e) = gd_determine_is_built_in_keyboard t e"
      "is_disable_built_in_keyboard_if_exists t (set_temporarily_ignore b e) = is_disable_built_in_keyboard_if_exists t e" for e
    by (simp_all add: set_temporarily_ignore_def gd_virtual_def gd_identifiers_def gd_determine_is_built_in_keyboard_def
        is_disable_built_in_keyboard_if_exists_def gd_settings_def)
  have "(\<exists>e. map_option (set_temporarily_ignore b) x = Some e \<and> is_disable_built_in_keyboard_if_exists t e) \<longleftrightarrow>
      (\<exists>e. x = Some e \<and> is_disable_built_in_keyboard_if_exists t e)" for x
    by (cases x) (simp_all add: f)
  then have asks: "asks_to_disable t ?ds = asks_to_disable t (dg_devices g)" unfolding asks_to_disable_def map_of_on_devices by blast
  have "devices_inv (dg_configuration g) b ?ds" unfolding devices_inv_def keys_on_devices map_of_on_devices
    using assms ignore_inv by (auto simp: grabber_inv_def grabber_pre_def devices_inv_def) (auto simp: set_temporarily_ignore_def)
  moreover have "disabled_right t ?ds" unfolding disabled_right_def asks map_of_on_devices
    using assms by (auto simp: grabber_inv_def disabled_right_def f)
  ultimately show ?thesis using assms unfolding grabber_inv_def grabber_pre_def on_devices_def
    by (elim conjE, intro conjI) simp_all
qed

lemma inv_task: "grabber_inv t g \<Longrightarrow> grabber_inv t (run_grabber_task t' rt now k g)"
proof (cases k)
  case (Task_ignore_all_devices b)
  assume "grabber_inv t g"
  from inv_settled [OF settled_trans [OF settled_task settled_task] inv_ignore_all [OF this]]
  show ?thesis by (simp add: Task_ignore_all_devices)
next
  case (Task_set_system_preferences p)
  assume "grabber_inv t g"
  from inv_settled [OF settled_trans [OF settled_trans [OF settled_fields(5) settled_rules] settled_task] this]
  show ?thesis by (simp add: Task_set_system_preferences Let_def)
next
  case Task_stop_monitors
  assume "grabber_inv t g"
  moreover have "settled g (fold (\<lambda>(i, e). ask (Stop_monitor i)) ds g)" for ds :: "(device_id \<times> grabbed_device) list"
    by (rule settled_fold) (auto simp: settled_ask)
  ultimately show ?thesis using inv_settled [of g "fold (\<lambda>(i, e). ask (Stop_monitor i)) (dg_devices g) g" t] by (simp add: Task_stop_monitors)
qed (simp_all add: inv_settled [OF settled_grab] inv_settled [OF settled_set_variable] inv_settled [OF settled_virtual_event])

lemma inv_manipulate: "grabber_inv t g \<Longrightarrow> grabber_manipulate t' rt clock now g = Inr g' \<Longrightarrow> grabber_inv t g'"
proof -
  have keeps: "(pl_managers p' k = None \<longleftrightarrow> pl_managers p k = None) \<and> (pl_queues p' k = None \<longleftrightarrow> pl_queues p k = None)"
    if "connector_manipulate c rt r now cs p = Inr p'" for c :: "('a, 'b, 'c) stage virtual_table" and r cs p p' k
    using that
  proof (induction cs arbitrary: p)
    case (Cons cn cs)
    then obtain p1 where "connection_manipulate c rt r now cn p = Inr p1" "connector_manipulate c rt r now cs p1 = Inr p'"
      by (auto simp: and_then_Inr_iff)
    then show ?case using Cons.IH connection_keeps(2,3) by blast
  qed simp
  assume g: "grabber_inv t g" and m: "grabber_manipulate t' rt clock now g = Inr g'"
  obtain p where p: "connector_manipulate (grabber_class t' rt clock) rt
      (global_flag ''reorder_same_timestamp_input_events_to_prioritize_modifiers'' (dg_configuration g)) now grabber_connections (dg_plant g) = Inr p"
    using m by (auto simp: grabber_manipulate_def and_then_Inr_iff)
  have "settled g (g\<lparr>dg_plant := p\<lparr>pl_queues := (pl_queues p)(posted_queue := map_option clear_events (pl_queues p posted_queue))\<rparr>\<rparr>)"
    using keeps [OF p] by (simp add: settled_def del: not_None_eq)
  from settled_trans [OF this settled_ask] have "settled g g'"
    using m p by (auto simp: grabber_manipulate_def Let_def intro: settled_trans settled_ask split: option.split_asm)
  then show ?thesis using inv_settled g by blast
qed

lemma inv_tap_stopped: "grabber_inv t g \<Longrightarrow> grabber_inv t (g\<lparr>dg_event_tap := event_tap_monitor_stopped (dg_event_tap g)\<rparr>)"
  using tap_inv_stopped by (auto simp: grabber_inv_def grabber_pre_def)

lemma grabber_step_inv:
  assumes "grabber_inv t g" "grabber_op_ok t op" "grabber_step t' rt (now, op) g = Inr g'" "t = gt_profile t'"
  shows "grabber_inv t g'"
proof (cases op)
  case (Op_matched i p led)
  then show ?thesis using assms inv_matched [OF assms(4,1)] by auto
next
  case (Op_configuration c)
  then show ?thesis using assms inv_configuration [OF assms(1) _ assms(4)] loaded_coordinated by auto
next
  case Op_dispatch
  have "grabber_inv t (dispatch_task t' rt now g)"
    using inv_task [OF inv_settled [OF settled_fields(4) assms(1)]] assms(1) by (simp add: dispatch_task_def split: list.split)
  then show ?thesis using assms(3) Op_dispatch by simp
next
  case (Op_stick_motion i en)
  then show ?thesis using assms inv_hid_values by (auto simp: stick_motion_arrived_def split: option.split_asm)
qed (use assms in \<open>auto simp: inv_terminated inv_started inv_stopped inv_values inv_on_device harmless_sticks inv_tap_stopped
    inv_connected inv_keyboard_ready inv_pointing_ready inv_secure_input inv_settled [OF settled_task] inv_settled [OF settled_tap_keyboard]
    inv_settled [OF settled_tap_pointing] dest: inv_manipulate\<close>)

end
