(* ===== verification/GrabberProperties.thy ===== *)
theory GrabberProperties
  imports DeviceGrabberRuns
begin

text \<open>
  The properties of the device grabber, over its runs from the start and of single operations.
\<close>

subsection \<open>Runs from the start\<close>

text \<open>The constructor makes a configuration without a file.\<close>

definition default_configuration :: "profile_tools \<Rightarrow> configuration_state \<Rightarrow> bool" where
  "default_configuration t c \<longleftrightarrow> mk_core_configuration t False Loose File_missing = Inr c"

definition started_grabber ::
    "('k, 'm, 'b) grabber_tools \<Rightarrow> configuration_state \<Rightarrow> environment \<Rightarrow> keyboard_suppression \<Rightarrow> system_preferences_properties \<Rightarrow>
     ('k, 'm, 'b) grabber" where
  "started_grabber t c env ks sp = grabber_start (new_grabber t c env ks sp)"

lemma default_values:
  assumes "default_configuration t c"
  shows "gc_values (co_global c) = global_entries_before @ global_entries_after"
proof -
  obtain g where g: "mk_global_configuration Loose (J_object []) = Inr g" "gc_values g = global_entries_before @ global_entries_after"
    using mk_global_nothing by blast
  then show ?thesis using assms by (auto simp: default_configuration_def mk_core_configuration_def and_then_Inr_iff)
qed

lemmas global_flag_values =
  global_flag_def flag_of_def value_of_def find_value_def global_entries_before_def global_entries_after_def mk_entry_of_def

lemma default_fallback: "default_configuration t c \<Longrightarrow> \<not> global_flag ''enable_cgeventtap_fallback'' c"
  by (drule default_values) (simp add: global_flag_values)

lemma started_inv:
  assumes "default_configuration (gt_profile t) c"
  shows "grabber_inv (gt_profile t) (started_grabber t c env ks sp)"
proof -
  have c: "coordinated c" using assms unfolding default_configuration_def by (rule loaded_coordinated)
  have "grabber_half (started_grabber t c env ks sp)"
    using c by (simp add: grabber_half_def started_grabber_def grabber_start_def new_grabber_def on_post_def Let_def devices_inv_def
        alive_def grabber_chain_def new_plant_def posted_queue_def post_event_manager_def device_key_code_manager_def
        simple_modifications_manager_def complex_modifications_manager_def fn_function_keys_manager_def merged_input_queue_def
        complex_modifications_applied_queue_def tap_inv_setup [OF tap_inv_new])
  moreover have "dg_configuration (started_grabber t c env ks sp) = c" "\<not> dg_fallback (started_grabber t c env ks sp)"
      "dg_devices (started_grabber t c env ks sp) = []"
    by (simp_all add: started_grabber_def grabber_start_def new_grabber_def on_post_def Let_def)
  ultimately show ?thesis using default_fallback [OF assms]
    by (simp add: grabber_inv_def grabber_pre_def grabber_half_def disabled_right_def)
qed

interpretation grabber_runs: fallible_machine "grabber_step t rt" "grabber_inv (gt_profile t)" "\<lambda>op. grabber_op_ok (gt_profile t) (snd op)" for t rt
proof
  fix g :: "('a, 'b, 'c) grabber" and g' and op :: "time_point \<times> grabber_op"
  assume "grabber_inv (gt_profile t) g" "grabber_op_ok (gt_profile t) (snd op)" "grabber_step t rt op g = Inr g'"
  then show "grabber_inv (gt_profile t) g'" by (cases op) (auto intro: grabber_step_inv [OF _ _ _ refl])
qed

lemma reachable_grabber:
  assumes "default_configuration (gt_profile t) c" "\<forall>op\<in>set ops. grabber_op_ok (gt_profile t) (snd op)"
    and "run_until (grabber_step t rt) ops (started_grabber t c env ks sp) = Inr g"
  shows "grabber_inv (gt_profile t) g"
  using grabber_runs.inv_run [OF assms(3) started_inv [OF assms(1)] assms(2)] .

lemma asking_device_stays:
  assumes "grabber_inv t g" "asks_to_disable t (dg_devices g)"
  shows "\<exists>j e. map_of (dg_devices g) j = Some e \<and> is_disable_built_in_keyboard_if_exists t e \<and> \<not> gd_disabled e \<and> \<not> gd_virtual e"
proof -
  obtain j e where e: "map_of (dg_devices g) j = Some e" "is_disable_built_in_keyboard_if_exists t e"
    using assms(2) by (auto simp: asks_to_disable_def)
  have inv: "device_inv (dg_configuration g) e" "coordinated (dg_configuration g)"
    using assms(1) e(1) by (auto simp: grabber_inv_def grabber_pre_def devices_inv_def)
  then have "not_both (gd_settings t e)"
    unfolding gd_settings_def using selected_device_not_both by (simp add: device_inv_def)
  then have "\<not> gd_determine_is_built_in_keyboard t e" "\<not> gd_virtual e"
    using e(2) by (auto simp: is_disable_built_in_keyboard_if_exists_def gd_determine_is_built_in_keyboard_def
        determine_is_built_in_keyboard_def configuration_view_def Let_def not_both_def gd_settings_def gd_identifiers_def split: if_split_asm)
  then show ?thesis using assms(1) e by (auto simp: grabber_inv_def disabled_right_def)
qed

subsection \<open>Balanced keys\<close>

text \<open>The strokes of a device, and what the filter lets through.\<close>

definition stroke_of_entry :: "device_id \<Rightarrow> entry \<Rightarrow> (momentary_switch_event \<times> event_type) list" where
  "stroke_of_entry i en =
     (case get_if_mse (en_event en) of
        Some m \<Rightarrow> if en_device_id en = i \<and> mse_valid m \<and> en_event_type en \<noteq> Single then [(m, en_event_type en)] else []
      | None \<Rightarrow> [])"

definition strokes_of_device :: "device_id \<Rightarrow> entry list \<Rightarrow> (momentary_switch_event \<times> event_type) list" where
  "strokes_of_device i es = concat (map (stroke_of_entry i) es)"

fun balanced_entries :: "entry list \<Rightarrow> (device_id \<Rightarrow> momentary_switch_event set) \<Rightarrow> entry list \<times> (device_id \<Rightarrow> momentary_switch_event set)" where
  "balanced_entries [] physical = ([], physical)"
| "balanced_entries (en # es) physical =
     (let (unbalanced, physical1) = unbalanced_momentary_switch_event (en_device_id en) (en_event en) (en_event_type en) physical;
          (kept, physical2) = balanced_entries es physical1
      in (if unbalanced then kept else en # kept, physical2))"

definition plain_entry :: "entry \<Rightarrow> entry" where
  "plain_entry en = mk_entry (en_device_id en) (en_event_time_stamp en) (en_event en) (en_event_type en)
     (en_event_integer_value en) (en_original_event en) (en_state en) False Valid"

definition merged_queue_of :: "('k, 'm, 'b) grabber \<Rightarrow> event_queue option" where
  "merged_queue_of g = pl_queues (dg_plant g) merged_input_queue"

lemma merged_push: "merged_queue_of (push_merged rt en g) = map_option (push_back_entry rt en) (merged_queue_of g)"
  "dg_physical (push_merged rt en g) = dg_physical g"
  by (simp_all add: push_merged_def on_merged_queue_def merged_queue_of_def Let_def)

lemma pushed_entries:
  assumes "\<not> gd_disabled d" "gd_seized d" "balanced_entries es (dg_physical g) = (kept, physical)"
    and "fold (push_device_entry rt d) es (g, n) = (g', n')"
  shows "merged_queue_of g' = map_option (fold (push_back_entry rt) (map plain_entry kept)) (merged_queue_of g) \<and> dg_physical g' = physical"
  using assms(3,4)
proof (induction es arbitrary: g n kept)
  case (Cons en es)
  obtain u ph where u: "unbalanced_momentary_switch_event (en_device_id en) (en_event en) (en_event_type en) (dg_physical g) = (u, ph)"
    by (cases "unbalanced_momentary_switch_event (en_device_id en) (en_event en) (en_event_type en) (dg_physical g)")
  obtain ks where ks: "balanced_entries es ph = (ks, physical)" "kept = (if u then ks else en # ks)"
    using Cons.prems(1) u by (auto simp: Let_def split: prod.split_asm)
  let ?g1 = "if u then g\<lparr>dg_physical := ph\<rparr> else push_merged rt (plain_entry en) (g\<lparr>dg_physical := ph\<rparr>)"
  have "push_device_entry rt d en (g, n) = (?g1, if u then n else True)"
    using assms(1,2) u by (simp add: push_device_entry_def plain_entry_def)
  then have rest: "fold (push_device_entry rt d) es (?g1, if u then n else True) = (g', n')" using Cons.prems(2) by simp
  have "dg_physical ?g1 = ph" by (simp add: merged_push)
  with Cons.IH [OF _ rest] ks(1)
  have "merged_queue_of g' = map_option (fold (push_back_entry rt) (map plain_entry ks)) (merged_queue_of ?g1) \<and> dg_physical g' = physical"
    by simp
  moreover have "merged_queue_of (g\<lparr>dg_physical := ph\<rparr>) = merged_queue_of g" by (simp add: merged_queue_of_def)
  ultimately show ?case using ks(2) by (simp add: merged_push option.map_comp comp_def)
qed (simp add: option.map_id)

lemma unbalanced_stroke:
  assumes "unbalanced_momentary_switch_event (en_device_id en) (en_event en) (en_event_type en) physical = (u, physical')"
  shows "(u \<or> no_repeats (stroke_of_entry i en) (physical i)) \<and>
    replay (if u then [] else stroke_of_entry i en) (physical i) = physical' i \<and>
    (u \<longrightarrow> \<not> no_repeats (stroke_of_entry (en_device_id en) en) (physical (en_device_id en)))"
proof (cases "get_if_mse (en_event en)")
  case None
  then show ?thesis using assms by (simp add: unbalanced_momentary_switch_event_def stroke_of_entry_def replay_def)
next
  case (Some m)
  then show ?thesis using assms
    by (cases "mse_valid m"; cases "en_event_type en"; cases "en_device_id en = i"; cases "m \<in> physical (en_device_id en)")
       (auto simp: unbalanced_momentary_switch_event_def stroke_of_entry_def replay_def)
qed

lemma replay_nothing [simp]: "replay [] s = s"
  by (simp add: replay_def)

lemma balanced_strokes:
  assumes "balanced_entries es physical = (kept, physical')"
  shows "no_repeats (strokes_of_device i kept) (physical i) \<and> replay (strokes_of_device i kept) (physical i) = physical' i"
  using assms
proof (induction es arbitrary: physical kept)
  case (Cons en es)
  obtain u ph where u: "unbalanced_momentary_switch_event (en_device_id en) (en_event en) (en_event_type en) physical = (u, ph)"
    by (cases "unbalanced_momentary_switch_event (en_device_id en) (en_event en) (en_event_type en) physical")
  obtain ks where ks: "balanced_entries es ph = (ks, physical')" "kept = (if u then ks else en # ks)"
    using Cons.prems u by (auto simp: Let_def split: prod.split_asm)
  have "strokes_of_device i kept = (if u then [] else stroke_of_entry i en) @ strokes_of_device i ks"
    by (simp add: ks(2) strokes_of_device_def)
  then show ?case using Cons.IH [OF ks(1)] unbalanced_stroke [OF u, of i] by (cases u) (simp_all add: no_repeats_append)
qed (simp add: replay_def strokes_of_device_def)

lemma balanced_passes:
  assumes "\<forall>i. no_repeats (strokes_of_device i es) (physical i)"
  shows "fst (balanced_entries es physical) = es"
  using assms
proof (induction es arbitrary: physical)
  case (Cons en es)
  obtain u ph where u: "unbalanced_momentary_switch_event (en_device_id en) (en_event en) (en_event_type en) physical = (u, ph)"
    by (cases "unbalanced_momentary_switch_event (en_device_id en) (en_event en) (en_event_type en) physical")
  have h: "no_repeats (stroke_of_entry i en) (physical i)"
      "no_repeats (strokes_of_device i es) (replay (stroke_of_entry i en) (physical i))" for i
    using Cons.prems by (auto simp: strokes_of_device_def no_repeats_append)
  have pass: "\<not> u" using unbalanced_stroke [OF u] h(1) by blast
  then have "no_repeats (strokes_of_device i es) (ph i)" for i using h(2) [of i] unbalanced_stroke [OF u, of i] by simp
  then show ?case using Cons.IH [of ph] u pass by (simp add: case_prod_beta Let_def)
qed simp

subsection \<open>Complex modifications of the profile\<close>

lemma basic_item_validity: "basic_item rj j k v (b, m) = Inr (b', m') \<Longrightarrow> b_validity b' = b_validity b"
  by (auto simp: basic_item_def and_then_Inr_iff split: if_split_asm)

lemma basic_items_validity: "fold_items (basic_item rj j) xs (b, m) = Inr (b', m') \<Longrightarrow> b_validity b' = b_validity b"
proof (induction xs arbitrary: b m)
  case (Cons x xs)
  obtain k v where x: "x = (k, v)" by (cases x)
  obtain b1 m1 where s: "basic_item rj j k v (b, m) = Inr (b1, m1)" "fold_items (basic_item rj j) xs (b1, m1) = Inr (b', m')"
    using Cons.prems x by (auto simp: and_then_Inr_iff)
  show ?case using Cons.IH [OF s(2)] basic_item_validity [OF s(1)] by simp
qed simp

lemma scroll_items_validity: "fold_items (scroll_from_item v) xs m = Inr m' \<Longrightarrow> ms_validity m' = ms_validity m"
proof (induction xs arbitrary: m)
  case (Cons x xs)
  obtain k w where x: "x = (k, w)" by (cases x)
  obtain m1 where s: "scroll_from_item v k w m = Inr m1" "fold_items (scroll_from_item v) xs m1 = Inr m'"
    using Cons.prems x by (auto simp: and_then_Inr_iff)
  have "ms_validity m1 = ms_validity m"
    using s(1) by (auto simp: scroll_from_item_def and_then_Inr_iff split: if_split_asm)
  then show ?case using Cons.IH [OF s(2)] by simp
qed simp

lemma motion_items_validity: "fold_items (motion_to_scroll_item j) xs m = Inr m' \<Longrightarrow> ms_validity m' = ms_validity m"
proof (induction xs arbitrary: m)
  case (Cons x xs)
  obtain k v where x: "x = (k, v)" by (cases x)
  obtain m1 where s: "motion_to_scroll_item j k v m = Inr m1" "fold_items (motion_to_scroll_item j) xs m1 = Inr m'"
    using Cons.prems x by (auto simp: and_then_Inr_iff)
  have "ms_validity m1 = ms_validity m"
    using s(1) scroll_items_validity by (auto simp: motion_to_scroll_item_def and_then_Inr_iff split: if_split_asm)
  then show ?case using Cons.IH [OF s(2)] by simp
qed simp

lemma made_manipulator_valid: "make_manipulator rj j pa u mk = Inr (m, mk') \<Longrightarrow> m_validity m = Valid"
  by (auto simp: make_manipulator_def and_then_Inr_iff m_validity_def basic_from_json_def new_basic_def motion_to_scroll_from_json_def
      default_motion_to_scroll_def dest!: basic_items_validity mouse_basic_read motion_items_validity split: option.split_asm if_split_asm)

lemma conditions_keep_validity: "m_validity (fold m_push_back_condition cs m) = m_validity m"
proof (induction cs arbitrary: m)
  case (Cons c cs)
  have "m_validity (m_push_back_condition c m) = m_validity m"
    by (cases m) (simp_all add: m_push_back_condition_def m_validity_def b_push_back_condition_def)
  then show ?case using Cons.IH by simp
qed simp

lemma adds_complex_manipulator: "adds_rules (\<lambda>m. m_validity m = Valid) (push_complex_manipulator rj u mn)"
proof (rule adds_rulesI)
  show "push_complex_manipulator rj u mn (ms, mk) =
      (ms @ (case complex_manipulator rj u mn mk of Inr (m, mk1) \<Rightarrow> [m] | Inl e \<Rightarrow> []),
       case complex_manipulator rj u mn mk of Inr (m, mk1) \<Rightarrow> mk1 | Inl e \<Rightarrow> mk)" for ms mk
    by (simp add: push_complex_manipulator_def split: sum.split prod.split)
  show "m_validity m = Valid" if m: "m \<in> set (case complex_manipulator rj u mn mk of Inr (m, mk1) \<Rightarrow> [m] | Inl e \<Rightarrow> [])" for m mk
  proof -
    obtain mk1 where "complex_manipulator rj u mn mk = Inr (m, mk1)" using m by (cases "complex_manipulator rj u mn mk") auto
    then show ?thesis
      by (auto simp: complex_manipulator_def and_then_Inr_iff conditions_keep_validity made_manipulator_valid)
  qed
qed

text \<open>What an update adds: the manipulators of the enabled rules, in order.\<close>

definition complex_additions :: "rejects \<Rightarrow> int \<Rightarrow> profile \<Rightarrow> rules \<Rightarrow> rules" where
  "complex_additions rj u p =
     fold (push_complex_manipulator rj u) (concat (map ru_manipulators (filter rule_enabled (cx_rules (pf_complex_modifications p)))))"

lemma fold_enabled: "fold (\<lambda>r. if \<not> P r then id else fold f (h r)) rs s = fold f (concat (map h (filter P rs))) s"
  by (induction rs arbitrary: s) simp_all

lemma complex_modifications_update_additions:
  "complex_modifications_update rj u clock p (ms, mk) = complex_additions rj u p (invalidate_manipulators (manipulators clock) ms, mk)"
  by (simp add: complex_modifications_update_def complex_additions_def fold_enabled)

lemma complex_additions_valid: "adds_rules (\<lambda>m. m_validity m = Valid) (complex_additions rj u p)"
  unfolding complex_additions_def by (rule adds_rules_fold) (rule adds_complex_manipulator)

subsection \<open>Waking up\<close>

lemma grabber_connections_chain: "grabber_connections = connect merged_input_queue grabber_chain"
  by (simp add: grabber_connections_def emplace_chain_connect)

lemma posted_queue_never_waits:
  "min_input_event_time_stamp grabber_connections (p\<lparr>pl_queues := (pl_queues p)(posted_queue := q)\<rparr>) =
   min_input_event_time_stamp grabber_connections p"
  by (simp add: min_input_event_time_stamp_def grabber_connections_chain grabber_chain_def merged_input_queue_def posted_queue_def
      complex_modifications_applied_queue_def make_input_event_time_stamp_with_input_delay_def)

lemma grab_requests:
  "dg_requests (fold (grab_device t rt) ds g) =
     dg_requests g @ map (\<lambda>(i, e). if gd_virtual e then Start_monitor i Open_none
       else if make_grabbable_state t rt g e = Grabbable then Start_monitor i Open_seize else Stop_monitor i) ds"
proof (induction ds arbitrary: g)
  case (Cons x ds)
  obtain i e where x: "x = (i, e)" by (cases x)
  have same: "make_grabbable_state t rt (ask r g) e' = make_grabbable_state t rt g e'" for r e'
    by (simp add: make_grabbable_state_def ask_def needs_prepare_virtual_hid_pointing_device_def)
  obtain r where r: "grab_device t rt x g = ask r g"
      "r = (if gd_virtual e then Start_monitor i Open_none
        else if make_grabbable_state t rt g e = Grabbable then Start_monitor i Open_seize else Stop_monitor i)"
    by (auto simp: x grab_device_def make_grabbable_state_def needs_to_observe_device_def start_options_def)
  show ?case unfolding fold.simps comp_def r(1) Cons.IH same by (simp add: x r(2) ask_def)
qed simp

lemma idle_connection:
  assumes "\<forall>q. pl_queues pl (cn_input cn) = Some q \<longrightarrow> q_events q = []"
  shows "\<exists>pl'. connection_manipulate c rt reorder now cn pl = Inr pl' \<and> pl_queues pl' = pl_queues pl"
proof (cases "pl_managers pl (cn_manager cn) = None \<or> pl_queues pl (cn_input cn) = None \<or> pl_queues pl (cn_output cn) = None")
  case False
  then obtain ms qi qo where q: "pl_managers pl (cn_manager cn) = Some ms" "pl_queues pl (cn_input cn) = Some qi" "pl_queues pl (cn_output cn) = Some qo"
    by auto
  let ?s = "\<lparr>mg_manipulators = ms, mg_input = qi, mg_output = qo, mg_store = pl_store pl\<rparr>"
  have "manager_manipulate c rt reorder now ?s = Inr (False, ?s\<lparr>mg_manipulators := remove_invalid_manipulators c ms\<rparr>)"
    using assms q(2) by (simp add: manager_manipulate_def)
  then have "manipulate_loop c rt reorder now ?s = Inr (?s\<lparr>mg_manipulators := remove_invalid_manipulators c ms\<rparr>)"
    by (subst manipulate_loop.simps) simp
  moreover have "(pl_queues pl)(cn_input cn \<mapsto> qi, cn_output cn \<mapsto> qo) = pl_queues pl" using q(2,3) by (simp add: fun_upd_idem)
  ultimately show ?thesis using q by (simp add: connection_manipulate_def)
qed (auto simp: connection_manipulate_def split: option.split)

lemma idle_connector:
  assumes "\<forall>k q. pl_queues pl k = Some q \<longrightarrow> q_events q = []"
  shows "\<exists>pl'. connector_manipulate c rt reorder now cs pl = Inr pl'"
  using assms
proof (induction cs arbitrary: pl)
  case (Cons cn cs)
  obtain pl1 where p: "connection_manipulate c rt reorder now cn pl = Inr pl1" "pl_queues pl1 = pl_queues pl"
    using idle_connection [of pl cn] Cons.prems by blast
  then show ?case using Cons.IH [of pl1] Cons.prems by simp
qed simp

subsection \<open>Properties\<close>

definition example_tools_of_grabber :: "(int list, hid_modifier list, int list) grabber_tools" where
  "example_tools_of_grabber =
     \<lparr>gt_profile = example_profile_tools, gt_rejects = no_rejects, gt_scale = (\<lambda>n r. of_int n * r), gt_math = example_math,
      gt_reports = list_reports, gt_momentum = 0, gt_order = (\<lambda>_. [])\<rparr>"

definition built_in_keyboard :: device_properties where
  "built_in_keyboard = mk_device_properties
     \<lparr>ip_device_id = 5, ip_vendor_id = 0x05ac, ip_product_id = 0x0342, ip_location_id = 0, ip_manufacturer = ''Apple'',
      ip_product = ''Apple Internal Keyboard'', ip_serial_number = [], ip_transport = ''FIFO'', ip_device_address = [],
      ip_is_keyboard = True, ip_is_pointing_device = False, ip_is_game_pad = False, ip_is_consumer = False\<rparr>"

abbreviation "example_start c \<equiv> started_grabber example_tools_of_grabber c (mk_environment [] plain_configuration) (mk_suppression 0 0)
  \<lparr>sp_use_fkeys_as_standard_function_keys = False, sp_scroll_direction_is_natural = True\<rparr>"

lemma example_profile: "gt_profile example_tools_of_grabber = example_profile_tools"
  by (simp add: example_tools_of_grabber_def)

lemma default_loads: "\<exists>c. default_configuration t c"
  unfolding default_configuration_def using loading by blast

text \<open>
  C5. A built-in keyboard is disabled exactly while a connected device asks for it, and a disabled keyboard is never the last one:
  a device that asks is connected, is not disabled itself and is not a virtual device, whatever devices have come and
  gone and however the configuration has changed.
\<close>

theorem a_keyboard_stays_enabled:
  assumes "default_configuration (gt_profile t) c" "\<forall>op\<in>set ops. grabber_op_ok (gt_profile t) (snd op)"
    and "run_until (grabber_step t rt) ops (started_grabber t c env ks sp) = Inr g" "map_of (dg_devices g) i = Some e"
  shows "(gd_disabled e \<longleftrightarrow> \<not> gd_virtual e \<and> gd_determine_is_built_in_keyboard (gt_profile t) e \<and>
      (\<exists>j a. map_of (dg_devices g) j = Some a \<and> is_disable_built_in_keyboard_if_exists (gt_profile t) a)) \<and>
    (gd_disabled e \<longrightarrow> (\<exists>j a. map_of (dg_devices g) j = Some a \<and>
      is_disable_built_in_keyboard_if_exists (gt_profile t) a \<and> \<not> gd_disabled a \<and> \<not> gd_virtual a))"
proof -
  have inv: "grabber_inv (gt_profile t) g" by (rule reachable_grabber [OF assms(1-3)])
  then have "gd_disabled e \<longleftrightarrow> \<not> gd_virtual e \<and> gd_determine_is_built_in_keyboard (gt_profile t) e \<and>
      asks_to_disable (gt_profile t) (dg_devices g)"
    using assms(4) by (simp add: grabber_inv_def disabled_right_def)
  then show ?thesis using asking_device_stays [OF inv] unfolding asks_to_disable_def by blast
qed

theorem a_keyboard_stays_enabled_witness:
  "\<exists>c g e. default_configuration example_profile_tools c \<and>
     run_until (grabber_step example_tools_of_grabber idle_runtime) [(100, Op_matched 5 built_in_keyboard None)] (example_start c) = Inr g \<and>
     map_of (dg_devices g) 5 = Some e \<and> dp_is_built_in_keyboard (gd_properties e) \<and>
     (gd_disabled e \<longrightarrow> (\<exists>j a. map_of (dg_devices g) j = Some a \<and> \<not> gd_disabled a))"
proof -
  obtain c where c: "default_configuration (gt_profile example_tools_of_grabber) c" using default_loads by blast
  let ?ops = "[(100, Op_matched 5 built_in_keyboard None)]"
  let ?g = "device_matched example_tools_of_grabber idle_runtime 5 built_in_keyboard None (example_start c)"
  have run: "run_until (grabber_step example_tools_of_grabber idle_runtime) ?ops (example_start c) = Inr ?g" by simp
  have ok: "\<forall>op\<in>set ?ops. grabber_op_ok (gt_profile example_tools_of_grabber) (snd op)" by (auto simp: built_in_keyboard_def)
  obtain e where e: "map_of (dg_devices ?g) 5 = Some e" "gd_properties e = built_in_keyboard"
    by (auto simp: device_matched_def Let_def enqueue_task_def update_devices_disabled_def on_devices_def update_virtual_hid_pointing_def
        ask_def on_device_def set_temporarily_ignore_def map_of_map update_conv set_disabled_def new_grabbed_device_def)
  have "gd_disabled e \<longrightarrow> (\<exists>j a. map_of (dg_devices ?g) j = Some a \<and> \<not> gd_disabled a)"
    using a_keyboard_stays_enabled [OF c ok run e(1)] by blast
  moreover have "dp_is_built_in_keyboard (gd_properties e)" by (simp add: e(2) built_in_keyboard_def mk_device_properties_def Let_def)
  ultimately show ?thesis using c [unfolded example_profile] run e(1) by blast
qed

text \<open>
  C9. The event tap follows the configuration: in every run at most one monitor of the event tap is running or stopping,
  and once it has stopped, if it had to, the monitor that runs is made for the setting of the current configuration.
\<close>

theorem event_tap_follows_configuration:
  assumes "default_configuration (gt_profile t) c" "\<forall>op\<in>set ops. grabber_op_ok (gt_profile t) (snd op)"
    and "run_until (grabber_step t rt) ops (started_grabber t c env ks sp) = Inr g"
  shows "(if to_monitor (dg_event_tap g) = None then 0 else 1) + length (to_leaving (dg_event_tap g)) \<le> 1 \<and>
    to_monitor (event_tap_monitor_stopped (dg_event_tap g)) = Some (global_flag ''enable_cgeventtap_fallback'' (dg_configuration g)) \<and>
    dg_fallback g = global_flag ''enable_cgeventtap_fallback'' (dg_configuration g)"
proof -
  have "grabber_inv (gt_profile t) g" by (rule reachable_grabber [OF assms])
  then have inv: "tap_inv (Some (dg_fallback g)) (dg_event_tap g)" "dg_fallback g = global_flag ''enable_cgeventtap_fallback'' (dg_configuration g)"
    unfolding grabber_inv_def grabber_pre_def by blast+
  have "\<not> to_stopping (event_tap_monitor_stopped (dg_event_tap g))" using inv(1)
    by (auto simp: tap_inv_def event_tap_monitor_stopped_def Let_def create_pending_event_tap_monitor_def split: list.split option.split if_split_asm)
  then show ?thesis using inv tap_inv_stopped [OF inv(1)] by (auto simp: tap_inv_def split: if_split_asm)
qed

theorem event_tap_follows_configuration_witness:
  "\<exists>c g. default_configuration example_profile_tools c \<and>
     run_until (grabber_step example_tools_of_grabber idle_runtime) [(100, Op_tap_stopped), (200, Op_call Task_grab_devices)] (example_start c) = Inr g \<and>
     to_monitor (event_tap_monitor_stopped (dg_event_tap g)) = Some False"
proof -
  obtain c where c: "default_configuration (gt_profile example_tools_of_grabber) c" using default_loads by blast
  let ?ops = "[(100, Op_tap_stopped), (200, Op_call Task_grab_devices)]"
  obtain g where run: "run_until (grabber_step example_tools_of_grabber idle_runtime) ?ops (example_start c) = Inr g" by simp
  have "dg_configuration g = c" using run
    by (auto simp: enqueue_task_def started_grabber_def grabber_start_def new_grabber_def on_post_def Let_def)
  moreover have ok: "\<forall>op\<in>set ?ops. grabber_op_ok (gt_profile example_tools_of_grabber) (snd op)" by simp
  ultimately have "to_monitor (event_tap_monitor_stopped (dg_event_tap g)) = Some False"
    using event_tap_follows_configuration [OF c ok run] default_fallback [OF c] by simp
  then show ?thesis using c [unfolded example_profile] run by blast
qed

text \<open>
  C7. No device is taken from the system before the program can answer for it: a device is opened with exclusive control only if
  the program needs it, the virtual keyboard is ready and, where one is needed, so is the virtual pointing device; the
  virtual devices themselves are only observed, and the monitor of every other device is stopped.
\<close>

theorem seized_only_when_ready:
  "dg_requests (grab_devices t rt g) = dg_requests g @
     map (\<lambda>(i, e).
       if gd_virtual e then Start_monitor i Open_none
       else if needs_to_seize_device (gt_profile t) e \<and> vs_keyboard_ready (dg_devices_state g) \<and>
         (if needs_prepare_virtual_hid_pointing_device t rt g then vs_pointing_ready (dg_devices_state g) else True)
       then Start_monitor i Open_seize
       else Stop_monitor i) (dg_devices g)"
  by (auto simp: grab_devices_def grab_requests make_grabbable_state_def needs_to_observe_device_def)

text \<open>What the virtual keyboard sends: its lock state goes to the queue, nothing else does.\<close>

definition caps_lock_entries :: "time_point \<Rightarrow> entry list \<Rightarrow> entry list" where
  "caps_lock_entries now es = concat (map (\<lambda>en.
     if ev_type (en_event en) = Tag_caps_lock_state_changed then
       (case get_integer_value (en_event en) of
          Some state \<Rightarrow>
            (let e = make_caps_lock_state_changed_event (if state \<noteq> 0 then 1 else 0) in [grabber_entry 0 now e Single e Virtual_event])
        | None \<Rightarrow> [])
     else []) es)"

lemma virtual_entries:
  "merged_queue_of (fold (handle_virtual_device_entry rt now) es g) =
     map_option (fold (push_back_entry rt) (caps_lock_entries now es)) (merged_queue_of g) \<and>
   dg_physical (fold (handle_virtual_device_entry rt now) es g) = dg_physical g"
proof (induction es arbitrary: g)
  case Nil
  then show ?case by (simp add: caps_lock_entries_def option.map_ident)
next
  case (Cons en es)
  let ?g = "handle_virtual_device_entry rt now en g"
  have "merged_queue_of ?g = map_option (fold (push_back_entry rt) (caps_lock_entries now [en])) (merged_queue_of g) \<and>
      dg_physical ?g = dg_physical g"
    by (cases "merged_queue_of g")
      (auto simp: handle_virtual_device_entry_def caps_lock_entries_def update_caps_lock_led_def on_devices_def
        post_caps_lock_state_changed_event_def post_virtual_event_def ask_def push_merged_def on_merged_queue_def
        merged_queue_of_def Let_def option.map_ident split: option.split)
  moreover have "caps_lock_entries now (en # es) = caps_lock_entries now [en] @ caps_lock_entries now es"
    by (simp add: caps_lock_entries_def)
  ultimately show ?case using Cons.IH [of ?g] by (simp add: option.map_comp comp_def)
qed

lemma dropped_entries: "gd_disabled d \<or> \<not> gd_seized d \<Longrightarrow> fold (push_device_entry rt d) es (g, n) = (g, n)"
  by (induction es) (auto simp: push_device_entry_def)

text \<open>
  C6. What reaches the queue of the chain from a device. A device that is seized and not disabled is heard balanced and
  complete: its entries are appended, without those that press a key that is down or release one that is up; so every
  key of every device is pressed and released in turn among them, the keys known as held are what they leave, and input
  that is balanced already passes without a loss. A disabled device (a built-in keyboard is seized to be silenced) or one that is not
  seized adds nothing. In both cases the queue is put in order afterwards by \<open>sort_events\<close> if the configuration asks for
  it. A virtual device adds its caps lock states and nothing else.
\<close>

theorem balanced_input_reaches_queue:
  assumes "balanced_entries es (dg_physical g) = (kept, physical)" and "g' = hid_values_arrived rt now d es g"
    and "put_in_order = (if global_flag ''reorder_same_timestamp_input_events_to_prioritize_modifiers'' (dg_configuration g)
      then sort_events else id)"
  shows "if gd_virtual d then
      merged_queue_of g' = map_option (fold (push_back_entry rt) (caps_lock_entries now es)) (merged_queue_of g) \<and>
      dg_physical g' = dg_physical g
    else if gd_disabled d \<or> \<not> gd_seized d then
      merged_queue_of g' = map_option put_in_order (merged_queue_of g) \<and> dg_physical g' = dg_physical g
    else
      merged_queue_of g' = map_option (\<lambda>q. put_in_order (fold (push_back_entry rt) (map plain_entry kept) q)) (merged_queue_of g) \<and>
      (\<forall>i. no_repeats (strokes_of_device i kept) (dg_physical g i) \<and>
        replay (strokes_of_device i kept) (dg_physical g i) = dg_physical g' i) \<and>
      ((\<forall>i. no_repeats (strokes_of_device i es) (dg_physical g i)) \<longrightarrow> kept = es)"
proof -
  obtain g1 n where f: "fold (push_device_entry rt d) es (g, False) = (g1, n)" by fastforce
  have c: "dg_configuration g1 = dg_configuration g" using settled_device_entries [of g rt d es False] f by (simp add: settled_def)
  have real: "merged_queue_of g' = map_option put_in_order (merged_queue_of g1)" "dg_physical g' = dg_physical g1" if "\<not> gd_virtual d"
    using that f c assms(2,3)
    by (simp_all add: hid_values_arrived_def merged_queue_of_def ask_def on_merged_queue_def Let_def option.map_id)
  consider "gd_virtual d" | "\<not> gd_virtual d" "gd_disabled d \<or> \<not> gd_seized d" | "\<not> gd_virtual d" "\<not> gd_disabled d" "gd_seized d" by blast
  then show ?thesis
  proof cases
    case 1
    then show ?thesis using virtual_entries [of rt now es g] assms(2) by (simp add: hid_values_arrived_def)
  next
    case 2
    then have "g1 = g" using dropped_entries [of d rt es g False] f by simp
    then show ?thesis using real 2 by simp
  next
    case 3
    note g1 = pushed_entries [OF 3(2,3) assms(1) f]
    have "(\<forall>i. no_repeats (strokes_of_device i es) (dg_physical g i)) \<longrightarrow> kept = es"
      using balanced_passes [of es "dg_physical g"] assms(1) by auto
    then show ?thesis using real 3 g1 balanced_strokes [OF assms(1)] by (simp add: option.map_comp comp_def)
  qed
qed

text \<open>The key A of device 5 is reported as pressed twice and released: the second press is dropped.\<close>

theorem balanced_input_reaches_queue_witness:
  "\<exists>c d. default_configuration example_profile_tools c \<and>
     map en_event_type (q_events (the (merged_queue_of (hid_values_arrived idle_runtime 100 d
       [key_entry_of 5 4 Key_down, key_entry_of 5 4 Key_down, key_entry_of 5 4 Key_up] (example_start c))))) = [Key_down, Key_up]"
proof -
  obtain c where c: "default_configuration (gt_profile example_tools_of_grabber) c" using default_loads by blast
  let ?es = "[key_entry_of 5 4 Key_down, key_entry_of 5 4 Key_down, key_entry_of 5 4 Key_up]"
  let ?d = "(new_grabbed_device 5 built_in_keyboard None c)\<lparr>gd_seized := True\<rparr>"
  have start: "dg_physical (example_start c) = (\<lambda>_. {})" "merged_queue_of (example_start c) = Some (mk_queue (mk_environment [] plain_configuration))"
    by (simp_all add: started_grabber_def grabber_start_def new_grabber_def on_post_def Let_def merged_queue_of_def new_plant_def
        merged_input_queue_def post_event_manager_def posted_queue_def)
  have d: "\<not> gd_virtual ?d" "\<not> gd_disabled ?d" "gd_seized ?d"
    by (simp_all add: gd_virtual_def gd_identifiers_def new_grabbed_device_def built_in_keyboard_def mk_device_properties_def Let_def
        mk_identifiers_def is_karabiner_virtual_hid_device_def)
  obtain kept physical where kept: "balanced_entries ?es (dg_physical (example_start c)) = (kept, physical)" by fastforce
  have "fst (balanced_entries ?es (\<lambda>_. {})) = [key_entry_of 5 4 Key_down, key_entry_of 5 4 Key_up]" by code_simp
  then have kept_is: "kept = [key_entry_of 5 4 Key_down, key_entry_of 5 4 Key_up]" using kept unfolding start by simp
  have "map en_event_type (q_events (sort_events (fold (push_back_entry idle_runtime)
      (map plain_entry [key_entry_of 5 4 Key_down, key_entry_of 5 4 Key_up]) (mk_queue (mk_environment [] plain_configuration))))) = [Key_down, Key_up]"
    by code_simp
  moreover have "global_flag ''reorder_same_timestamp_input_events_to_prioritize_modifiers'' c"
    using default_values [OF c] by (simp add: global_flag_values)
  moreover have "dg_configuration (example_start c) = c"
    by (simp add: started_grabber_def grabber_start_def new_grabber_def on_post_def Let_def)
  ultimately have "map en_event_type (q_events (the (merged_queue_of (hid_values_arrived idle_runtime 100 ?d ?es (example_start c))))) = [Key_down, Key_up]"
    using balanced_input_reaches_queue [OF kept refl refl, where rt = idle_runtime and now = 100 and d = ?d] d unfolding kept_is start by simp
  with c [unfolded example_profile] show ?thesis by (intro exI [of _ c] exI [of _ ?d] conjI)
qed

text \<open>
  C8. After a run of the chain the grabber posts the reports and asks to be woken up later than now or not at all, so the
  dispatcher never spins.
\<close>

theorem grabber_wakes_later:
  assumes "default_configuration (gt_profile t) c" "\<forall>op\<in>set ops. grabber_op_ok (gt_profile t) (snd op)"
    and "run_until (grabber_step t rt) ops (started_grabber t c env ks sp) = Inr g" "grabber_manipulate t rt clock now g = Inr g'"
  shows "dg_requests g' = dg_requests g @ [Post_reports] \<or>
    (\<exists>m. now < m \<and> dg_requests g' = dg_requests g @ [Post_reports, Manipulate_after m (rt_milliseconds_of rt (m - now))])"
proof -
  have alive: "alive merged_input_queue grabber_chain (dg_plant g)"
    using reachable_grabber [OF assms(1-3)] by (simp add: grabber_inv_def grabber_pre_def)
  obtain p where p: "connector_manipulate (grabber_class t rt clock) rt
      (global_flag ''reorder_same_timestamp_input_events_to_prioritize_modifiers'' (dg_configuration g)) now grabber_connections (dg_plant g) = Inr p"
    using assms(4) by (auto simp: grabber_manipulate_def and_then_Inr_iff)
  have distinct: "distinct (merged_input_queue # map snd grabber_chain)"
    by (simp add: merged_input_queue_def grabber_chain_def complex_modifications_applied_queue_def posted_queue_def)
  have "now < m" if "min_input_event_time_stamp grabber_connections p = Some m" for m
    using whole_chain.wakes_later [OF p [unfolded grabber_connections_chain] distinct alive] that by (simp add: grabber_connections_chain)
  then show ?thesis using assms(4) p
    by (auto simp: grabber_manipulate_def posted_queue_never_waits ask_def Let_def split: option.split_asm)
qed

theorem grabber_wakes_later_witness:
  "\<exists>c g'. default_configuration example_profile_tools c \<and>
     grabber_manipulate example_tools_of_grabber idle_runtime 0 100 (example_start c) = Inr g' \<and> Post_reports \<in> set (dg_requests g')"
proof -
  obtain c where c: "default_configuration (gt_profile example_tools_of_grabber) c" using default_loads by blast
  obtain g' where g': "grabber_manipulate example_tools_of_grabber idle_runtime 0 100 (example_start c) = Inr g'"
  proof -
    have "\<forall>k q. pl_queues (dg_plant (example_start c)) k = Some q \<longrightarrow> q_events q = []"
      by (simp add: started_grabber_def grabber_start_def new_grabber_def on_post_def Let_def new_plant_def mk_queue_def)
    then obtain p where "connector_manipulate (grabber_class example_tools_of_grabber idle_runtime 0) idle_runtime
        (global_flag ''reorder_same_timestamp_input_events_to_prioritize_modifiers'' (dg_configuration (example_start c)))
        100 grabber_connections (dg_plant (example_start c)) = Inr p"
      using idle_connector by blast
    then show thesis using that by (simp only: grabber_manipulate_def and_then_simps Let_def)
  qed
  have run: "run_until (grabber_step example_tools_of_grabber idle_runtime) [] (example_start c) = Inr (example_start c)" by simp
  have "Post_reports \<in> set (dg_requests g')" using grabber_wakes_later [OF c _ run g'] by auto
  then show ?thesis using c [unfolded example_profile] g' by blast
qed

text \<open>
  C10. Only the enabled rules of the profile are in effect: after an update the valid manipulators are those of the enabled rules, in
  their order, and of the earlier ones exactly those that owe a release are kept, invalid.
\<close>

theorem only_enabled_rules:
  "filter (\<lambda>m. m_validity m = Valid) (fst (complex_modifications_update rj u clock p (ms, mk))) =
     fst (fold (push_complex_manipulator rj u)
       (concat (map ru_manipulators (filter rule_enabled (cx_rules (pf_complex_modifications p))))) ([], mk)) \<and>
   filter (\<lambda>m. m_validity m = Invalid) (fst (complex_modifications_update rj u clock p (ms, mk))) =
     map (m_set_validity Invalid) (filter (vt_active (manipulators clock)) ms)"
  using update_generations [OF complex_additions_valid, of rj u p clock ms mk]
  by (simp add: complex_modifications_update_additions complex_additions_def)

text \<open>
  When secure input is turned on every device loses its held keys, but the release is posted for device 0 alone: the release
  of a key that a seized device still holds is dropped afterwards, and the flags of the queue stay as they are.
\<close>

lemma secure_input_forgets_held_keys:
  assumes "dg_fallback g" "\<not> gd_virtual d" "\<not> gd_disabled d" "gd_seized d"
    and "get_if_mse (en_event en) = Some m" "mse_valid m" "en_event_type en = Key_up"
  shows "let s = secure_event_input_enabled_changed t rt now True g; s' = hid_values_arrived rt later d [en] s in
    map_option q_modifier_flag_manager (merged_queue_of s') = map_option q_modifier_flag_manager (merged_queue_of s) \<and>
    dg_requests s' = dg_requests s"
proof -
  let ?s = "secure_event_input_enabled_changed t rt now True g"
  have p: "dg_physical ?s = (\<lambda>_. {})" using assms(1) by (simp add: secure_event_input_enabled_changed_def on_post_def Let_def)
  have u: "unbalanced_momentary_switch_event (en_device_id en) (en_event en) (en_event_type en) (\<lambda>_. {}) = (True, \<lambda>_. {})"
    using assms(5-7) by (simp add: unbalanced_momentary_switch_event_def)
  have "push_device_entry rt d en (?s, False) = (?s\<lparr>dg_physical := \<lambda>_. {}\<rparr>, False)"
    using assms(3,4) p u by (simp add: push_device_entry_def)
  then show ?thesis using assms(2)
    by (simp add: hid_values_arrived_def on_merged_queue_def merged_queue_of_def sort_events_def option.map_comp comp_def Let_def)
qed

end
