(* ===== verification/Spec2Isabelle.thy ===== *)
theory Spec2Isabelle
  imports KeyNames HidInput VectorUtility PostEvents CoreConfiguration GrabberProperties
begin

text \<open>
  Karabiner-Elements rewrites the events of the keyboards and pointing devices of a Mac. This
  development models its event-rewriting core, the headers under \<open>src/src/share\<close>.

  The program. A core service grabs the HID devices and turns their reports into event-queue entries.
  A chain of manipulator managers, joined by queues, rewrites them; the last manipulator posts key
  and pointing reports to a virtual device. Every queue owns a modifier flag manager, a pointing
  button manager and an environment that each appended entry updates.

  Theories, in the order of the code's dependencies:

  \<^item> \<open>Prelude\<close>, \<open>Machines\<close>: list lemmas; the interfaces \<open>machine\<close>, \<open>refined_machine\<close> and
    \<open>driven\<close> that the stateful components are instances of.
  \<^item> \<open>Json\<close>: JSON values, the checks of \<open>pqrs::json\<close> and the number conversions. Objects are
    association lists in the key order of \<open>std::map\<close>. A thrown \<open>unmarshal_error\<close> is \<open>Inl\<close>.
  \<^item> \<open>HidTypes\<close>, \<open>ValueTypes\<close>, \<open>SoftwareFunctions\<close>, \<open>KeyNames\<close>: the value types
    (\<open>types/*.hpp\<close>) with their JSON forms.
  \<^item> \<open>ModifierFlagManager\<close>, \<open>FlagCounters\<close>, \<open>ScopedModifierFlags\<close>: \<open>modifier_flag_manager.hpp\<close>
    and its scope, refined by counters per class of entry, flag and device.
  \<^item> \<open>PointingButtonManager\<close>: \<open>pointing_button_manager.hpp\<close>, refined by a set of held buttons.
  \<^item> \<open>Devices\<close>: \<open>device_identifiers.hpp\<close>, \<open>device_properties.hpp\<close>, \<open>connected_devices.hpp\<close>.
  \<^item> \<open>Events\<close>, \<open>Environment\<close>, \<open>EventQueue\<close>: \<open>event_queue/*.hpp\<close> and
    \<open>manipulator_environment.hpp\<close>.
  \<^item> \<open>KeyboardGuards\<close>, \<open>HidInput\<close>, \<open>VectorUtility\<close>: the guards of the keyboard input
    (\<open>pressed_keys_manager.hpp\<close>, \<open>keyboard_*.hpp\<close>), the entries of a HID report
    (\<open>event_queue/utility.hpp\<close>, \<open>hat_switch_convert.hpp\<close>) and \<open>vector_utility.hpp\<close>.
  \<^item> \<open>Modifiers\<close>, \<open>Conditions\<close>, \<open>ToEvents\<close>: what the rules of a configuration consist of
    (\<open>manipulator/types\<close>, \<open>manipulator/conditions\<close>, \<open>condition_*.hpp\<close>).
  \<^item> \<open>FromEvents\<close>, \<open>EventSender\<close>, \<open>Basic\<close>: the basic manipulator (\<open>manipulators/base.hpp\<close>,
    \<open>manipulators/basic\<close>). \<open>EventSender\<close> proves that a sender posts exactly what it owes;
    \<open>BasicRuns\<close> carries that over whole runs of a rule, \<open>BasicInput\<close> is about which entries a
    rule takes and how long it waits, \<open>BasicJson\<close> reads a rule. \<open>Runs\<close> is the interface of machines
    whose steps can fail.
  \<^item> \<open>MouseBasic\<close>, \<open>ScrollCounter\<close>, \<open>ScrollManipulator\<close>: the other manipulators
    (\<open>manipulators/mouse_basic\<close>, \<open>manipulators/mouse_motion_to_scroll\<close>) and the factory
    (\<open>manipulator_factory.hpp\<close>).
  \<^item> \<open>ManipulatorManager\<close>, \<open>Connector\<close>: the manager (\<open>manipulator_manager.hpp\<close>) over any class of
    manipulators that meets the locale \<open>manipulator_class\<close>, and the chain of managers and queues
    (\<open>manipulator_managers_connector.hpp\<close>). The loops end, and the chain asks to be woken later.
  \<^item> \<open>PostQueue\<close>, \<open>KeyDispatcher\<close>, \<open>VirtualKeyboard\<close>, \<open>PostTimes\<close>, \<open>MouseKeys\<close>, \<open>PostEvents\<close>: the
    last manipulator (\<open>manipulators/post_event_to_virtual_devices\<close>), which is a \<open>manipulator_class\<close> as
    well. A ghost log (\<open>keyboard_log\<close>) keeps the strokes queued and sent. Over all runs the reports are what
    the driver's operations make of the strokes queued, and there is no double press and no orphan release
    until a release of all keys comes while the keys known as delivered are not the keys down
    (\<open>kl_late\<close>), which is shown to go wrong; \<open>kl_lost\<close> notes strokes dropped without a client or
    with the queue.
  \<^item> \<open>Notifications\<close>: \<open>notification_message_manager.hpp\<close>, refined by the map of current messages.
  \<^item> \<open>Settings\<close>, \<open>ConfigSections\<close>, \<open>SimpleModifications\<close>, \<open>DeviceConfiguration\<close>,
    \<open>ComplexModifications\<close>, \<open>Profiles\<close>, \<open>CoreConfiguration\<close>: the configuration file
    (\<open>core_configuration\<close>). \<open>Settings\<close> holds the helper all classes of settings share and the
    locale \<open>config_class\<close> of what is written and read back; the others are one class each, up to
    the file. Members stay in range, defaults follow the profile, the choices of the user
    survive, and there is always a profile.
  \<^item> \<open>ConfiguredRules\<close>: the rules made from the selected profile (\<open>device_grabber_details/\<close>
    \<open>*_manipulator_manager.hpp\<close>). A rule of a device stays with it, an update leaves no old rule in effect.
  \<^item> \<open>GamePadSticks\<close>: the movement of the pointer by the sticks of a game pad
    (\<open>device_grabber_details/game_pad_stick_converter.hpp\<close>), with its timers.
  \<^item> \<open>GrabbedDevices\<close>, \<open>EventTapOwner\<close>: what the core service keeps of a connected device
    (\<open>device_grabber_details/entry.hpp\<close>, \<open>hid_device_events_monitor.hpp\<close>,
    \<open>hid_keyboard_caps_lock_led_state_manager.hpp\<close>) and how it replaces its event tap.
  \<^item> \<open>DeviceGrabber\<close>: the object that puts the parts together (\<open>device_grabber.hpp\<close>): the devices, the queue they
    are merged in, and the chain of managers from it to the last manipulator, whose class is the sum
    of the classes of rules and of the last manipulator. What it asks of other processes and of the
    driver is a list of requests, what it gives to the dispatcher a list of tasks.
  \<^item> \<open>DeviceGrabberRuns\<close>, \<open>GrabberProperties\<close>: its invariant over all runs from the start, and what follows: a
    keyboard stays enabled, the event tap follows the configuration, devices are seized only when their
    events have somewhere to go, strokes reach the chain balanced, and the dispatcher never spins.

  Conventions. A class is a record of its members, an operation a function from the old state to the
  new one; names keep the source's, with a prefix where two classes share a name. Identifiers of
  devices and hardware are 64-bit words. C++ \<open>int\<close> members are mathematical integers where the code
  only stores and compares them; readers of JSON truncate to the C++ width. Times are integers.

  Loops that only the data bounds are functions with a termination proof; no fuel is used. Requests to
  the dispatcher are operations of their own, or take effect at once where a theory says so.

  Not modelled: IOKit, the virtual device driver, the regular expression and expression engines, the
  floating point unit, clocks and sockets. Where the code depends on one of them it is a parameter:
  \<open>runtime\<close> (clock and engines), \<open>floating\<close> (rounding), \<open>report_ops\<close> (the driver's report classes, of
  which nothing is assumed). The order in which a loop visits an unordered set is a parameter (\<open>visit\<close>,
  \<open>gt_order\<close>) that lists each element once (\<open>lists_sets\<close>). The script engine, the JSON parser and printer
  and the answers of the file system are arguments of the configuration. The user interface, the other
  processes and the sockets between them, file monitors and the backup copies of the configuration are
  left out; their messages to the grabber are operations.
\<close>

end
